(* ===== verification/Prelude.thy ===== *)
theory Prelude
  imports Complex_Main "HOL-Library.Word" "HOL-Library.Code_Target_Nat"
begin

text \<open>
  The shared prelude of the development: the result type of fallible operations, the
  parts of the JavaScript string API the code uses, the character classes of its
  regular expressions, and the list lemmas several components need.

  A JavaScript string is modelled as a \<open>string\<close>, a list of code units below 256; case
  mapping is the ASCII one, which is exact for the keywords and identifiers the code
  compares. An error carries the HTTP status and the machine-readable code the code
  attaches to it; the human-readable message is not modelled.
\<close>

section \<open>Lemma collections\<close>

named_theorems js_str \<open>unfolding of the string API\<close>
named_theorems js_chr \<open>unfolding of the character classes\<close>

section \<open>Results\<close>

datatype js_err = Err (err_status: nat) (err_code: string)

type_synonym 'a res = "js_err + 'a"

fun isOk :: "'a res \<Rightarrow> bool" where
  "isOk (Inl _) = False"
| "isOk (Inr _) = True"

fun bindR :: "'a res \<Rightarrow> ('a \<Rightarrow> 'b res) \<Rightarrow> 'b res" where
  "bindR (Inl e) f = Inl e"
| "bindR (Inr x) f = f x"

fun mapR :: "('a \<Rightarrow> 'b) \<Rightarrow> 'a res \<Rightarrow> 'b res" where
  "mapR f (Inl e) = Inl e"
| "mapR f (Inr x) = Inr (f x)"

text \<open>\<open>for (const x of xs) check(x)\<close>: the first failing check ends the loop.\<close>

fun eachR :: "('a \<Rightarrow> unit res) \<Rightarrow> 'a list \<Rightarrow> unit res" where
  "eachR f [] = Inr ()"
| "eachR f (x # xs) = bindR (f x) (\<lambda>_. eachR f xs)"

fun mapMR :: "('a \<Rightarrow> 'b res) \<Rightarrow> 'a list \<Rightarrow> 'b list res" where
  "mapMR f [] = Inr []"
| "mapMR f (x # xs) = bindR (f x) (\<lambda>y. mapR ((#) y) (mapMR f xs))"

definition unlessR :: "bool \<Rightarrow> js_err \<Rightarrow> unit res" where
  "unlessR b e = (if b then Inr () else Inl e)"

lemma isOk_iff: "isOk r \<longleftrightarrow> (\<exists>x. r = Inr x)"
  by (cases r) auto

lemma bindR_Inr [simp]: "bindR m f = Inr y \<longleftrightarrow> (\<exists>x. m = Inr x \<and> f x = Inr y)"
  by (cases m) auto

lemma isOk_bindR [simp]: "isOk (bindR m f) \<longleftrightarrow> (\<exists>x. m = Inr x \<and> isOk (f x))"
  by (cases m) auto

lemma mapR_Inr [simp]: "mapR f m = Inr y \<longleftrightarrow> (\<exists>x. m = Inr x \<and> f x = y)"
  by (cases m) auto

lemma isOk_mapR [simp]: "isOk (mapR f m) = isOk m"
  by (cases m) auto

lemma unlessR_Inr [simp]: "unlessR b e = Inr u \<longleftrightarrow> b"
  by (simp add: unlessR_def)

lemma isOk_unlessR [simp]: "isOk (unlessR b e) = b"
  by (simp add: unlessR_def)

lemma isOk_eachR: "isOk (eachR f xs) \<longleftrightarrow> (\<forall>x \<in> set xs. isOk (f x))"
  by (induction xs) (auto simp: isOk_iff)

lemma eachR_Inr: "eachR f xs = Inr u \<longleftrightarrow> (\<forall>x \<in> set xs. f x = Inr ())"
  by (induction xs) auto

lemma mapMR_Inr: "mapMR f xs = Inr ys \<longleftrightarrow> list_all2 (\<lambda>x y. f x = Inr y) xs ys"
  by (induction xs arbitrary: ys) (auto simp: list_all2_Cons1)

section \<open>Characters\<close>

abbreviation code_unit :: "char \<Rightarrow> nat" where
  "code_unit c \<equiv> of_char c"

definition is_digit :: "char \<Rightarrow> bool" where
  [js_chr]: "is_digit c \<longleftrightarrow> 48 \<le> code_unit c \<and> code_unit c \<le> 57"

definition is_upper_chr :: "char \<Rightarrow> bool" where
  [js_chr]: "is_upper_chr c \<longleftrightarrow> 65 \<le> code_unit c \<and> code_unit c \<le> 90"

definition is_lower_chr :: "char \<Rightarrow> bool" where
  [js_chr]: "is_lower_chr c \<longleftrightarrow> 97 \<le> code_unit c \<and> code_unit c \<le> 122"

definition is_alpha :: "char \<Rightarrow> bool" where
  [js_chr]: "is_alpha c \<longleftrightarrow> is_upper_chr c \<or> is_lower_chr c"

text \<open>\<open>[A-Za-z_]\<close>, \<open>\w = [A-Za-z0-9_]\<close>, \<open>[A-Za-z0-9]\<close>.\<close>

definition is_ident_start :: "char \<Rightarrow> bool" where
  [js_chr]: "is_ident_start c \<longleftrightarrow> is_alpha c \<or> c = CHR ''_''"

definition is_word_chr :: "char \<Rightarrow> bool" where
  [js_chr]: "is_word_chr c \<longleftrightarrow> is_alpha c \<or> is_digit c \<or> c = CHR ''_''"

definition is_alnum :: "char \<Rightarrow> bool" where
  [js_chr]: "is_alnum c \<longleftrightarrow> is_alpha c \<or> is_digit c"

definition is_hex :: "char \<Rightarrow> bool" where
  [js_chr]: "is_hex c \<longleftrightarrow> is_digit c \<or> 97 \<le> code_unit c \<and> code_unit c \<le> 102"

text \<open>\<open>\s\<close>, which is also what \<open>trim\<close> removes (below code unit 256).\<close>

definition is_space :: "char \<Rightarrow> bool" where
  [js_chr]: "is_space c \<longleftrightarrow>
     (9 \<le> code_unit c \<and> code_unit c \<le> 13) \<or> code_unit c = 32 \<or> code_unit c = 160"

definition lower_chr :: "char \<Rightarrow> char" where
  "lower_chr c = (if is_upper_chr c then char_of (code_unit c + 32) else c)"

definition upper_chr :: "char \<Rightarrow> char" where
  "upper_chr c = (if is_lower_chr c then char_of (code_unit c - 32) else c)"

lemma code_unit_bound: "code_unit c < 256"
  by (rule nat_of_char_less_256)

lemma chr_eq_code: "c = d \<longleftrightarrow> code_unit c = code_unit d"
  by simp

lemma underscore_code: "c = CHR ''_'' \<longleftrightarrow> code_unit c = 95"
  using chr_eq_code [of c "CHR ''_''"] by simp

lemma code_unit_lower: "code_unit (lower_chr c) = (if is_upper_chr c then code_unit c + 32 else code_unit c)"
  by (simp add: lower_chr_def is_upper_chr_def)

lemma code_unit_upper: "code_unit (upper_chr c) = (if is_lower_chr c then code_unit c - 32 else code_unit c)"
  using code_unit_bound [of c] by (auto simp: upper_chr_def is_lower_chr_def)

lemma lower_chr_idem [simp]: "lower_chr (lower_chr c) = lower_chr c"
  unfolding lower_chr_def [of "lower_chr c"] by (auto simp: is_upper_chr_def code_unit_lower)

lemma upper_chr_idem [simp]: "upper_chr (upper_chr c) = upper_chr c"
  unfolding upper_chr_def [of "upper_chr c"] by (auto simp: is_lower_chr_def code_unit_upper)

lemma is_digit_lower [simp]: "is_digit (lower_chr c) = is_digit c"
  by (auto simp: code_unit_lower js_chr)

lemma is_word_lower [simp]: "is_word_chr (lower_chr c) = is_word_chr c"
  by (auto simp: code_unit_lower js_chr underscore_code)

lemma is_word_upper [simp]: "is_word_chr (upper_chr c) = is_word_chr c"
  by (auto simp: code_unit_upper js_chr underscore_code)

lemma ident_start_word: "is_ident_start c \<Longrightarrow> is_word_chr c"
  by (auto simp: js_chr)

section \<open>Strings\<close>

definition js_lower :: "string \<Rightarrow> string" where
  [js_str]: "js_lower s = map lower_chr s"

definition js_upper :: "string \<Rightarrow> string" where
  [js_str]: "js_upper s = map upper_chr s"

definition js_trim :: "string \<Rightarrow> string" where
  "js_trim s = rev (dropWhile is_space (rev (dropWhile is_space s)))"

definition starts_with :: "string \<Rightarrow> string \<Rightarrow> bool" where
  "starts_with s p \<longleftrightarrow> take (length p) s = p"

definition ends_with :: "string \<Rightarrow> string \<Rightarrow> bool" where
  "ends_with s p \<longleftrightarrow> length p \<le> length s \<and> drop (length s - length p) s = p"

fun str_includes :: "string \<Rightarrow> string \<Rightarrow> bool" where
  "str_includes [] p = (p = [])"
| "str_includes (c # s) p = (starts_with (c # s) p \<or> str_includes s p)"

text \<open>\<open>s.split(d)\<close> for a one-character separator, and \<open>parts.join(sep)\<close>.\<close>

fun split_chr :: "char \<Rightarrow> string \<Rightarrow> string list" where
  "split_chr d [] = [[]]"
| "split_chr d (c # s) =
     (if c = d then [] # split_chr d s
      else (case split_chr d s of [] \<Rightarrow> [[c]] | p # ps \<Rightarrow> (c # p) # ps))"

fun js_join :: "string \<Rightarrow> string list \<Rightarrow> string" where
  "js_join sep [] = []"
| "js_join sep [p] = p"
| "js_join sep (p # q # ps) = p @ sep @ js_join sep (q # ps)"

text \<open>\<open>s.replace(/c/g, r)\<close> for a set of characters.\<close>

definition replace_chrs :: "(char \<Rightarrow> bool) \<Rightarrow> (char \<Rightarrow> string) \<Rightarrow> string \<Rightarrow> string" where
  "replace_chrs P r s = concat (map (\<lambda>c. if P c then r c else [c]) s)"

lemma starts_with_append [simp]: "starts_with (p @ s) p"
  by (simp add: starts_with_def)

lemma starts_with_iff: "starts_with s p \<longleftrightarrow> (\<exists>t. s = p @ t)"
  unfolding starts_with_def by (metis append_take_drop_id append_eq_conv_conj)

lemma ends_with_iff: "ends_with s p \<longleftrightarrow> (\<exists>t. s = t @ p)"
proof
  assume "ends_with s p"
  then have "s = take (length s - length p) s @ p"
    unfolding ends_with_def by (metis append_take_drop_id)
  then show "\<exists>t. s = t @ p" ..
qed (auto simp: ends_with_def)

lemma split_chr_nonempty [simp]: "split_chr d s \<noteq> []"
  by (induction s) (auto split: list.splits)

lemma js_join_Cons: "ps \<noteq> [] \<Longrightarrow> js_join sep (p # ps) = p @ sep @ js_join sep ps"
  by (cases ps) auto

lemma js_join_Cons_Cons: "js_join sep ((c # p) # ps) = c # js_join sep (p # ps)"
  by (cases ps) auto

lemma join_split [simp]: "js_join [d] (split_chr d s) = s"
proof (induction s)
  case (Cons c s)
  show ?case
  proof (cases "c = d")
    case True
    with Cons show ?thesis by (simp add: js_join_Cons)
  next
    case False
    obtain p ps where "split_chr d s = p # ps"
      by (cases "split_chr d s") auto
    with False Cons show ?thesis by (simp add: js_join_Cons_Cons)
  qed
qed simp

lemma split_append_sep: "d \<notin> set p \<Longrightarrow> split_chr d (p @ d # s) = p # split_chr d s"
  by (induction p) auto

lemma split_no_sep: "d \<notin> set p \<Longrightarrow> split_chr d p = [p]"
  by (induction p) auto

lemma split_join:
  "ps \<noteq> [] \<Longrightarrow> (\<And>p. p \<in> set ps \<Longrightarrow> d \<notin> set p) \<Longrightarrow> split_chr d (js_join [d] ps) = ps"
proof (induction ps)
  case (Cons p ps)
  show ?case
  proof (cases "ps = []")
    case True
    with Cons.prems show ?thesis by (simp add: split_no_sep)
  next
    case False
    with Cons show ?thesis by (simp add: js_join_Cons split_append_sep)
  qed
qed simp

lemma split_chr_parts: "p \<in> set (split_chr d s) \<Longrightarrow> set p \<subseteq> set s \<and> d \<notin> set p"
proof (induction s arbitrary: p)
  case (Cons c s)
  obtain q qs where q: "split_chr d s = q # qs"
    by (cases "split_chr d s") auto
  with Cons.IH [of q] Cons.IH [of p] Cons.prems show ?case
    by (auto split: if_splits)
qed simp

lemma dropWhile_hd: "s = [] \<or> \<not> P (hd s) \<Longrightarrow> dropWhile P s = s"
  by (cases s) auto

lemma trim_id: "s = [] \<or> \<not> is_space (hd s) \<and> \<not> is_space (last s) \<Longrightarrow> js_trim s = s"
  by (cases "s = []") (simp_all add: js_trim_def dropWhile_hd hd_rev)

lemma set_trim: "set (js_trim s) \<subseteq> set s"
  unfolding js_trim_def by (metis set_dropWhileD set_rev subsetI)

section \<open>Numerals\<close>

text \<open>The digits \<open>0-9a-f\<close>, their values, and reading and printing in a base.\<close>

definition digit_val :: "char \<Rightarrow> nat" where
  "digit_val c = (if code_unit c \<le> 57 then code_unit c - 48 else code_unit c - 87)"

definition digit_chr :: "nat \<Rightarrow> char" where
  "digit_chr n = char_of (if n < 10 then 48 + n else 87 + n)"

definition num_val :: "nat \<Rightarrow> string \<Rightarrow> nat" where
  "num_val b s = foldl (\<lambda>n c. b * n + digit_val c) 0 s"

fun show_base :: "nat \<Rightarrow> nat \<Rightarrow> string" where
  "show_base b n = (if n < b \<or> b < 2 then [digit_chr n] else show_base b (n div b) @ [digit_chr (n mod b)])"

declare show_base.simps [simp del]

abbreviation show_nat :: "nat \<Rightarrow> string" where
  "show_nat \<equiv> show_base 10"

lemma digit_val_chr [simp]: "n < 16 \<Longrightarrow> digit_val (digit_chr n) = n"
  by (auto simp: digit_val_def digit_chr_def)

lemma num_val_snoc [simp]: "num_val b (s @ [c]) = b * num_val b s + digit_val c"
  by (simp add: num_val_def)

lemma num_val_Nil [simp]: "num_val b [] = 0"
  by (simp add: num_val_def)

lemma num_val_show: "2 \<le> b \<Longrightarrow> b \<le> 16 \<Longrightarrow> num_val b (show_base b n) = n"
proof (induction b n rule: show_base.induct)
  case (1 b n)
  show ?case
  proof (cases "n < b")
    case True
    with "1.prems" have "digit_val (digit_chr n) = n" by simp
    with True show ?thesis by (simp add: show_base.simps [of b n] num_val_def)
  next
    case False
    moreover have "n mod b < 16" using "1.prems" by (simp add: order_less_le_trans [of "n mod b" b])
    ultimately show ?thesis using 1 by (simp add: show_base.simps [of b n])
  qed
qed

lemma show_base_digits: "2 \<le> b \<Longrightarrow> c \<in> set (show_base b n) \<Longrightarrow> \<exists>d < b. c = digit_chr d"
proof (induction b n rule: show_base.induct)
  case (1 b n)
  show ?case
  proof (cases "n < b")
    case True
    with "1.prems" show ?thesis by (auto simp: show_base.simps [of b n])
  next
    case False
    moreover have "\<exists>d < b. digit_chr (n mod b) = digit_chr d"
      using "1.prems" by (intro exI [of _ "n mod b"]) simp
    ultimately show ?thesis using 1 by (auto simp: show_base.simps [of b n])
  qed
qed

lemma show_base_nonempty [simp]: "show_base b n \<noteq> []"
  by (subst show_base.simps) simp

lemma is_digit_chr [simp]: "n < 10 \<Longrightarrow> is_digit (digit_chr n)"
  by (simp add: js_chr digit_chr_def)

lemma show_nat_digits: "c \<in> set (show_nat n) \<Longrightarrow> is_digit c"
  using show_base_digits [of 10 c n] by auto

end
