(* ===== verification/JsValue.thy ===== *)
theory JsValue
  imports Prelude "HOL-Library.Multiset"
begin

text \<open>
  The dynamic values the code handles (parsed JSON, driver rows, query ASTs) and the
  operations of the language on them that the code relies on: truthiness, property
  access and update, \<open>Number\<close>, \<open>parseFloat\<close>, \<open>String\<close>, strict equality, relational
  comparison and the stable \<open>Array.prototype.sort\<close>.

  Numbers are the finite doubles, taken as rationals, with \<open>JNaN\<close> for not-a-number:
  arithmetic is exact, so the model agrees with the code as long as the values stay
  exactly representable (integers below \<open>2^53\<close> in particular); infinities are not
  represented. Objects are association lists in insertion order with distinct keys.
  Equality and set membership of objects and arrays (by reference in the language) are
  not used by the modelled code on such values.
\<close>

section \<open>Values\<close>

datatype jsval =
    JUndef
  | JNull
  | JBool bool
  | JNum rat
  | JNaN
  | JStr string
  | JArr "jsval list"
  | JObj "(string \<times> jsval) list"

fun truthy :: "jsval \<Rightarrow> bool" where
  "truthy JUndef = False"
| "truthy JNull = False"
| "truthy (JBool b) = b"
| "truthy (JNum n) = (n \<noteq> 0)"
| "truthy JNaN = False"
| "truthy (JStr s) = (s \<noteq> [])"
| "truthy (JArr _) = True"
| "truthy (JObj _) = True"

text \<open>\<open>v == null\<close>; \<open>typeof v === 'string'\<close> and so on; \<open>x && typeof x === 'object' && !Array.isArray(x)\<close>.\<close>

fun nullish :: "jsval \<Rightarrow> bool" where
  "nullish JUndef = True"
| "nullish JNull = True"
| "nullish _ = False"

fun is_str :: "jsval \<Rightarrow> bool" where
  "is_str (JStr _) = True"
| "is_str _ = False"

fun is_num :: "jsval \<Rightarrow> bool" where
  "is_num (JNum _) = True"
| "is_num JNaN = True"
| "is_num _ = False"

fun is_bool :: "jsval \<Rightarrow> bool" where
  "is_bool (JBool _) = True"
| "is_bool _ = False"

fun is_arr :: "jsval \<Rightarrow> bool" where
  "is_arr (JArr _) = True"
| "is_arr _ = False"

fun is_obj :: "jsval \<Rightarrow> bool" where
  "is_obj (JObj _) = True"
| "is_obj _ = False"

fun arr_of :: "jsval \<Rightarrow> jsval list" where
  "arr_of (JArr xs) = xs"
| "arr_of _ = []"

fun obj_of :: "jsval \<Rightarrow> (string \<times> jsval) list" where
  "obj_of (JObj kvs) = kvs"
| "obj_of _ = []"

fun str_of :: "jsval \<Rightarrow> string" where
  "str_of (JStr s) = s"
| "str_of _ = []"

text \<open>\<open>a ?? b\<close>.\<close>

definition coalesce :: "jsval \<Rightarrow> jsval \<Rightarrow> jsval" where
  "coalesce a b = (if nullish a then b else a)"

section \<open>Objects\<close>

definition kv_get :: "string \<Rightarrow> (string \<times> 'a) list \<Rightarrow> 'a option" where
  "kv_get k kvs = map_of kvs k"

fun kv_set :: "string \<Rightarrow> 'a \<Rightarrow> (string \<times> 'a) list \<Rightarrow> (string \<times> 'a) list" where
  "kv_set k v [] = [(k, v)]"
| "kv_set k v ((k', v') # kvs) = (if k = k' then (k, v) # kvs else (k', v') # kv_set k v kvs)"

definition kv_del :: "string \<Rightarrow> (string \<times> 'a) list \<Rightarrow> (string \<times> 'a) list" where
  "kv_del k kvs = filter (\<lambda>(k', _). k' \<noteq> k) kvs"

text \<open>\<open>{ ...a, ...b }\<close>.\<close>

definition kv_merge :: "(string \<times> 'a) list \<Rightarrow> (string \<times> 'a) list \<Rightarrow> (string \<times> 'a) list" where
  "kv_merge a b = foldl (\<lambda>m (k, v). kv_set k v m) a b"

text \<open>Property access \<open>v.k\<close> (with \<open>?.\<close> on a nullish value): \<open>undefined\<close> when absent.\<close>

definition js_get :: "string \<Rightarrow> jsval \<Rightarrow> jsval" where
  "js_get k v = (case kv_get k (obj_of v) of Some x \<Rightarrow> x | None \<Rightarrow> JUndef)"

lemma kv_get_Nil [simp]: "kv_get k [] = None"
  by (simp add: kv_get_def)

lemma kv_get_Cons [simp]: "kv_get k ((k', v) # kvs) = (if k = k' then Some v else kv_get k kvs)"
  by (simp add: kv_get_def)

lemma kv_get_set [simp]: "kv_get k (kv_set k' v kvs) = (if k = k' then Some v else kv_get k kvs)"
  by (induction k' v kvs rule: kv_set.induct) auto

lemma kv_get_del [simp]: "kv_get k (kv_del k' kvs) = (if k = k' then None else kv_get k kvs)"
  by (induction kvs) (auto simp: kv_del_def)

lemma kv_merge_Nil [simp]: "kv_merge a [] = a"
  by (simp add: kv_merge_def)

lemma kv_merge_Cons [simp]: "kv_merge a ((k, v) # b) = kv_merge (kv_set k v a) b"
  by (simp add: kv_merge_def)

lemma kv_get_merge:
  "distinct (map fst b) \<Longrightarrow>
     kv_get k (kv_merge a b) = (case kv_get k b of Some v \<Rightarrow> Some v | None \<Rightarrow> kv_get k a)"
proof (induction b arbitrary: a)
  case (Cons kv b)
  obtain k' v where kv: "kv = (k', v)" by force
  have "k' \<notin> fst ` set b" using Cons.prems kv by simp
  then have "kv_get k' b = None" by (simp add: kv_get_def map_of_eq_None_iff)
  with Cons kv show ?case by (auto split: option.splits)
qed simp

lemma kv_set_keys: "set (map fst (kv_set k v kvs)) = insert k (set (map fst kvs))"
  by (induction k v kvs rule: kv_set.induct) auto

lemma kv_set_distinct: "distinct (map fst kvs) \<Longrightarrow> distinct (map fst (kv_set k v kvs))"
proof (induction k v kvs rule: kv_set.induct)
  case (2 k v k' v' kvs)
  then show ?case using kv_set_keys [of k v kvs] by auto
qed simp

lemma kv_merge_distinct: "distinct (map fst a) \<Longrightarrow> distinct (map fst (kv_merge a b))"
  by (induction b arbitrary: a) (auto simp: kv_set_distinct)

lemma kv_get_None: "kv_get k kvs = None \<longleftrightarrow> k \<notin> fst ` set kvs"
  by (simp add: kv_get_def map_of_eq_None_iff)

lemma kv_get_in: "kv_get k kvs = Some v \<Longrightarrow> (k, v) \<in> set kvs"
  by (simp add: kv_get_def map_of_SomeD)

lemma kv_set_same: "kv_get k kvs = None \<Longrightarrow> kv_set k v kvs = kvs @ [(k, v)]"
  by (induction k v kvs rule: kv_set.induct) (auto split: if_splits)

lemma kv_get_fold_other:
  "k \<notin> f ` set xs \<Longrightarrow> kv_get k (foldl (\<lambda>acc x. kv_set (f x) (v x) acc) acc xs) = kv_get k acc"
  by (induction xs arbitrary: acc) auto

lemma kv_get_fold_set:
  "k \<in> f ` set xs \<Longrightarrow> (\<And>x. x \<in> set xs \<Longrightarrow> f x = k \<Longrightarrow> v x = w) \<Longrightarrow>
     kv_get k (foldl (\<lambda>acc x. kv_set (f x) (v x) acc) acc xs) = Some w"
proof (induction xs arbitrary: acc)
  case (Cons x xs)
  show ?case
  proof (cases "k \<in> f ` set xs")
    case True
    with Cons show ?thesis by simp
  next
    case False
    with Cons.prems show ?thesis by (auto simp: kv_get_fold_other)
  qed
qed simp

section \<open>Numbers\<close>

fun span :: "('a \<Rightarrow> bool) \<Rightarrow> 'a list \<Rightarrow> 'a list \<times> 'a list" where
  "span P [] = ([], [])"
| "span P (x # xs) = (if P x then (case span P xs of (ys, zs) \<Rightarrow> (x # ys, zs)) else ([], x # xs))"

lemma span_eq: "span P xs = (takeWhile P xs, dropWhile P xs)"
  by (induction xs) auto

text \<open>
  The longest prefix of the form \<open>\<d>+(\.\<d>*)?\<close> or \<open>\.\<d>+\<close>, then \<open>([eE][+-]?\<d>+)?\<close>: its
  value and the rest.
\<close>

definition read_mantissa :: "string \<Rightarrow> (rat \<times> string) option" where
  "read_mantissa s = (case span is_digit s of
     (ds, rest) \<Rightarrow>
       (case rest of
          c # rest' \<Rightarrow>
            (if c = CHR ''.'' then
               (case span is_digit rest' of
                  (fs, rest'') \<Rightarrow>
                    (if ds = [] \<and> fs = [] then None
                     else Some (of_nat (num_val 10 (ds @ fs)) / 10 ^ length fs, rest'')))
             else if ds = [] then None
             else Some (of_nat (num_val 10 ds), rest))
        | [] \<Rightarrow> if ds = [] then None else Some (of_nat (num_val 10 ds), rest)))"

definition read_exponent :: "string \<Rightarrow> (int \<times> string) option" where
  "read_exponent s = (case s of
     e # t \<Rightarrow>
       (if e = CHR ''e'' \<or> e = CHR ''E'' then
          (let (neg, u) = (case t of c # u \<Rightarrow> if c = CHR ''-'' then (True, u) else if c = CHR ''+'' then (False, u) else (False, t)
                                    | [] \<Rightarrow> (False, t))
           in (case span is_digit u of
                 (ds, rest) \<Rightarrow>
                   if ds = [] then None
                   else Some ((if neg then - int (num_val 10 ds) else int (num_val 10 ds)), rest)))
        else None)
   | [] \<Rightarrow> None)"

definition scale10 :: "rat \<Rightarrow> int \<Rightarrow> rat" where
  "scale10 m e = (if 0 \<le> e then m * 10 ^ nat e else m / 10 ^ nat (- e))"

definition read_decimal :: "string \<Rightarrow> (rat \<times> string) option" where
  "read_decimal s =
     (let (neg, t) = (case s of c # t \<Rightarrow> if c = CHR ''-'' then (True, t) else if c = CHR ''+'' then (False, t) else (False, s)
                              | [] \<Rightarrow> (False, s))
      in (case read_mantissa t of
            None \<Rightarrow> None
          | Some (m, rest) \<Rightarrow>
              (let sg = (if neg then - m else m) in
               (case read_exponent rest of
                  None \<Rightarrow> Some (sg, rest)
                | Some (e, rest') \<Rightarrow> Some (scale10 sg e, rest')))))"

text \<open>\<open>Number(s)\<close> on a string (decimal and \<open>0x\<close> literals) and \<open>parseFloat(s)\<close>; \<open>None\<close> is NaN.\<close>

definition number_of_string :: "string \<Rightarrow> rat option" where
  "number_of_string s =
     (let t = js_trim s in
      if t = [] then Some 0
      else if starts_with (js_lower t) ''0x'' then
        (let h = js_lower (drop 2 t) in
         if h \<noteq> [] \<and> list_all is_hex h then Some (of_nat (num_val 16 h)) else None)
      else (case read_decimal t of Some (q, rest) \<Rightarrow> if rest = [] then Some q else None | None \<Rightarrow> None))"

definition parse_float :: "string \<Rightarrow> rat option" where
  "parse_float s = map_option fst (read_decimal (dropWhile is_space s))"

text \<open>\<open>/^-?\d+(\.\d+)?$/\<close>\<close>

definition decimal_text :: "string \<Rightarrow> bool" where
  "decimal_text s \<longleftrightarrow>
     (let d = (if starts_with s ''-'' then tl s else s); i = takeWhile is_digit d; r = dropWhile is_digit d
      in i \<noteq> [] \<and> (r = [] \<or> hd r = CHR ''.'' \<and> tl r \<noteq> [] \<and> list_all is_digit (tl r)))"

fun num_or_nan :: "rat option \<Rightarrow> jsval" where
  "num_or_nan (Some q) = JNum q"
| "num_or_nan None = JNaN"

definition is_int_rat :: "rat \<Rightarrow> bool" where
  "is_int_rat q \<longleftrightarrow> of_int \<lfloor>q\<rfloor> = q"

section \<open>String conversion\<close>

definition show_int :: "int \<Rightarrow> string" where
  "show_int i = (if i < 0 then ''-'' @ show_nat (nat (- i)) else show_nat (nat i))"

fun show_fraction :: "nat \<Rightarrow> rat \<Rightarrow> string" where
  "show_fraction 0 q = []"
| "show_fraction (Suc n) q =
     (if q = 0 then [] else digit_chr (nat \<lfloor>10 * q\<rfloor>) # show_fraction n (10 * q - of_int \<lfloor>10 * q\<rfloor>))"

text \<open>Integers exactly; other numbers to 17 decimals, which is exact for the terminating ones in that range.\<close>

definition show_rat :: "rat \<Rightarrow> string" where
  "show_rat q =
     (if is_int_rat q then show_int \<lfloor>q\<rfloor>
      else (let a = \<bar>q\<bar> in (if q < 0 then ''-'' else []) @ show_int \<lfloor>a\<rfloor> @ ''.'' @ show_fraction 17 (a - of_int \<lfloor>a\<rfloor>)))"

fun js_string :: "jsval \<Rightarrow> string" where
  "js_string JUndef = ''undefined''"
| "js_string JNull = ''null''"
| "js_string (JBool b) = (if b then ''true'' else ''false'')"
| "js_string (JNum n) = show_rat n"
| "js_string JNaN = ''NaN''"
| "js_string (JStr s) = s"
| "js_string (JArr xs) = js_join '','' (map (\<lambda>x. if nullish x then [] else js_string x) xs)"
| "js_string (JObj _) = ''[object Object]''"

text \<open>\<open>Number(v)\<close>; an array goes through its string form, an object is NaN.\<close>

fun js_number :: "jsval \<Rightarrow> rat option" where
  "js_number JUndef = None"
| "js_number JNull = Some 0"
| "js_number (JBool b) = Some (if b then 1 else 0)"
| "js_number (JNum n) = Some n"
| "js_number JNaN = None"
| "js_number (JStr s) = number_of_string s"
| "js_number (JArr xs) = number_of_string (js_string (JArr xs))"
| "js_number (JObj _) = None"

section \<open>Equality and order\<close>

fun strict_eq :: "jsval \<Rightarrow> jsval \<Rightarrow> bool" where
  "strict_eq JNaN _ = False"
| "strict_eq a b = (a = b)"

text \<open>\<open>a < b\<close>: two strings by code units, anything else as numbers (NaN compares false).\<close>

fun str_less :: "string \<Rightarrow> string \<Rightarrow> bool" where
  "str_less [] [] = False"
| "str_less [] (_ # _) = True"
| "str_less (_ # _) [] = False"
| "str_less (a # s) (b # t) = (code_unit a < code_unit b \<or> a = b \<and> str_less s t)"

definition js_less :: "jsval \<Rightarrow> jsval \<Rightarrow> bool" where
  "js_less a b =
     (if is_str a \<and> is_str b then str_less (str_of a) (str_of b)
      else (case (js_number a, js_number b) of (Some x, Some y) \<Rightarrow> x < y | _ \<Rightarrow> False))"

lemma js_less_num [simp]: "js_less (JNum x) (JNum y) = (x < y)"
  by (simp add: js_less_def)

section \<open>Stable sort\<close>

text \<open>
  \<open>xs.sort(cmp)\<close> is stable: it is determined by the strict order \<open>cmp(a, b) < 0\<close>.
\<close>

fun ins_by :: "('a \<Rightarrow> 'a \<Rightarrow> bool) \<Rightarrow> 'a \<Rightarrow> 'a list \<Rightarrow> 'a list" where
  "ins_by lt x [] = [x]"
| "ins_by lt x (y # ys) = (if lt y x then y # ins_by lt x ys else x # y # ys)"

definition js_sort :: "('a \<Rightarrow> 'a \<Rightarrow> bool) \<Rightarrow> 'a list \<Rightarrow> 'a list" where
  "js_sort lt xs = foldr (ins_by lt) xs []"

lemma mset_ins_by [simp]: "mset (ins_by lt x ys) = add_mset x (mset ys)"
  by (induction ys) auto

lemma mset_js_sort [simp]: "mset (js_sort lt xs) = mset xs"
  by (induction xs) (auto simp: js_sort_def)

lemma set_js_sort [simp]: "set (js_sort lt xs) = set xs"
  by (metis mset_js_sort set_mset_mset)

lemma length_js_sort [simp]: "length (js_sort lt xs) = length xs"
  by (metis mset_js_sort size_mset)

lemma set_ins_by [simp]: "set (ins_by lt x ys) = insert x (set ys)"
  by (induction ys) auto

lemma sorted_ins_by:
  assumes tr: "\<And>a b c. \<not> lt b a \<Longrightarrow> \<not> lt c b \<Longrightarrow> \<not> lt c a"
    and as: "\<And>a b. lt a b \<Longrightarrow> \<not> lt b a"
    and s: "sorted_wrt (\<lambda>a b. \<not> lt b a) ys"
  shows "sorted_wrt (\<lambda>a b. \<not> lt b a) (ins_by lt x ys)"
  using s by (induction ys) (auto dest: as tr)

lemma sorted_js_sort:
  assumes "\<And>a b c. \<not> lt b a \<Longrightarrow> \<not> lt c b \<Longrightarrow> \<not> lt c a"
    and "\<And>a b. lt a b \<Longrightarrow> \<not> lt b a"
  shows "sorted_wrt (\<lambda>a b. \<not> lt b a) (js_sort lt xs)"
  by (induction xs) (simp_all add: js_sort_def sorted_ins_by [OF assms])

lemma js_sort_sorted: "sorted_wrt (\<lambda>a b. \<not> lt b a) xs \<Longrightarrow> js_sort lt xs = xs"
proof (induction xs)
  case (Cons x xs)
  then show ?case by (cases xs) (auto simp: js_sort_def)
qed (simp add: js_sort_def)

section \<open>First occurrences\<close>

text \<open>\<open>[...new Set(xs)]\<close>: the distinct elements in order of first occurrence.\<close>

fun dedup_acc :: "'a list \<Rightarrow> 'a list \<Rightarrow> 'a list" where
  "dedup_acc seen [] = []"
| "dedup_acc seen (x # xs) = (if x \<in> set seen then dedup_acc seen xs else x # dedup_acc (x # seen) xs)"

definition js_dedup :: "'a list \<Rightarrow> 'a list" where
  "js_dedup xs = dedup_acc [] xs"

lemma set_dedup_acc: "set (dedup_acc seen xs) = set xs - set seen"
  by (induction seen xs rule: dedup_acc.induct) auto

lemma distinct_dedup_acc: "distinct (dedup_acc seen xs)"
  by (induction seen xs rule: dedup_acc.induct) (auto simp: set_dedup_acc)

lemma set_js_dedup [simp]: "set (js_dedup xs) = set xs"
  by (simp add: js_dedup_def set_dedup_acc)

lemma distinct_js_dedup [simp]: "distinct (js_dedup xs)"
  by (simp add: js_dedup_def distinct_dedup_acc)

lemma dedup_acc_distinct: "distinct xs \<Longrightarrow> set xs \<inter> set seen = {} \<Longrightarrow> dedup_acc seen xs = xs"
  by (induction seen xs rule: dedup_acc.induct) auto

lemma js_dedup_distinct: "distinct xs \<Longrightarrow> js_dedup xs = xs"
  by (simp add: js_dedup_def dedup_acc_distinct)

end
