(* ===== verification/Identifiers.thy ===== *)
theory Identifiers
  imports JsValue
begin

text \<open>
  \<open>utils/identifiers.ts\<close>: the checks every SQL identifier passes before it is written
  into a statement, the two ways of quoting one, the \<open>LIKE\<close> escape and the
  tenant-schema test. A value of any JavaScript type may arrive, so the checks take a
  \<open>jsval\<close>; a failed check is the error \<open>INVALID_IDENTIFIER\<close> with status 400.
\<close>

section \<open>Checks and quoting\<close>

definition identifierError :: js_err where
  "identifierError = Err 400 ''INVALID_IDENTIFIER''"

text \<open>\<open>IDENT_RE = /^[A-Za-z_][A-Za-z0-9_]{0,62}$/\<close>.\<close>

definition ident_re :: "string \<Rightarrow> bool" where
  "ident_re s \<longleftrightarrow> (case s of [] \<Rightarrow> False
     | c # cs \<Rightarrow> is_ident_start c \<and> length cs \<le> 62 \<and> list_all is_word_chr cs)"

text \<open>\<open>TENANT_ID_RE = /^[A-Za-z][A-Za-z0-9_]{1,40}$/\<close>.\<close>

definition tenant_id_re :: "string \<Rightarrow> bool" where
  "tenant_id_re s \<longleftrightarrow> (case s of [] \<Rightarrow> False
     | c # cs \<Rightarrow> is_alpha c \<and> 1 \<le> length cs \<and> length cs \<le> 40 \<and> list_all is_word_chr cs)"

fun assertIdent :: "jsval \<Rightarrow> string res" where
  "assertIdent (JStr s) = (if ident_re s then Inr s else Inl identifierError)"
| "assertIdent _ = Inl identifierError"

definition dquote :: char where
  "dquote = CHR 0x22"

definition quoteIdent :: "jsval \<Rightarrow> string res" where
  "quoteIdent v = mapR (\<lambda>s. dquote # s @ [dquote]) (assertIdent v)"

definition double_quotes :: "string \<Rightarrow> string" where
  "double_quotes = replace_chrs (\<lambda>c. c = dquote) (\<lambda>_. [dquote, dquote])"

fun quoteAnyIdent :: "jsval \<Rightarrow> string res" where
  "quoteAnyIdent (JStr s) =
     (if s = [] \<or> CHR 0x00 \<in> set s \<or> length s > 128 then Inl identifierError
      else Inr (dquote # double_quotes s @ [dquote]))"
| "quoteAnyIdent _ = Inl identifierError"

fun assertTenantId :: "jsval \<Rightarrow> string res" where
  "assertTenantId (JStr s) = (if tenant_id_re s then Inr s else Inl identifierError)"
| "assertTenantId _ = Inl identifierError"

definition bslash :: char where
  "bslash = CHR 0x5C"

definition escapeLike :: "string \<Rightarrow> string" where
  "escapeLike = replace_chrs (\<lambda>c. c = bslash \<or> c = CHR ''%'' \<or> c = CHR ''_'') (\<lambda>c. [bslash, c])"

definition belongsToTenant :: "string \<Rightarrow> string \<Rightarrow> bool" where
  "belongsToTenant schemaName tenantId =
     (let base = ''tenant_'' @ tenantId
      in schemaName = base \<or> starts_with schemaName (base @ ''_''))"

section \<open>What a quoted identifier is to the SQL lexer\<close>

text \<open>
  The body of a double-quoted SQL identifier ends at the first quote that is not
  doubled. \<open>read_quoted\<close> reads one from the text after the opening quote and returns the
  name it denotes and the rest of the statement.
\<close>

fun read_quoted :: "string \<Rightarrow> (string \<times> string) option" where
  "read_quoted [] = None"
| "read_quoted (c # cs) =
     (if c = dquote then
        (case cs of [] \<Rightarrow> Some ([], [])
         | d # ds \<Rightarrow> if d = dquote
             then map_option (\<lambda>(n, r). (dquote # n, r)) (read_quoted ds)
             else Some ([], cs))
      else map_option (\<lambda>(n, r). (c # n, r)) (read_quoted cs))"

lemma double_quotes_simps [simp]:
  "double_quotes [] = []"
  "double_quotes (c # cs) = (if c = dquote then [dquote, dquote] else [c]) @ double_quotes cs"
  by (simp_all add: double_quotes_def replace_chrs_def)

lemma read_double_quotes:
  assumes "rest = [] \<or> hd rest \<noteq> dquote"
  shows "read_quoted (double_quotes s @ dquote # rest) = Some (s, rest)"
  using assms by (induction s) (auto split: list.splits)

lemma ident_re_chars: "ident_re s \<Longrightarrow> s \<noteq> [] \<and> length s \<le> 63 \<and> list_all is_word_chr s"
  by (auto simp: ident_re_def ident_start_word split: list.splits)

lemma tenant_id_re_chars:
  "tenant_id_re s \<Longrightarrow> 2 \<le> length s \<and> length s \<le> 41 \<and> list_all is_word_chr s"
  by (auto simp: tenant_id_re_def is_word_chr_def split: list.splits)

lemma dquote_not_word [simp]: "\<not> is_word_chr dquote"
  by (simp add: dquote_def js_chr)

lemma bslash_not_word [simp]: "\<not> is_word_chr bslash"
  by (simp add: bslash_def js_chr)

lemma double_quotes_word: "list_all is_word_chr s \<Longrightarrow> double_quotes s = s"
  by (induction s) auto

lemma assertIdent_Inr: "assertIdent v = Inr s \<longleftrightarrow> v = JStr s \<and> ident_re s"
  by (cases v) auto

lemma assertTenantId_Inr: "assertTenantId v = Inr s \<longleftrightarrow> v = JStr s \<and> tenant_id_re s"
  by (cases v) auto

lemma quoteIdent_Inr: "quoteIdent v = Inr q \<longleftrightarrow> (\<exists>s. v = JStr s \<and> ident_re s \<and> q = dquote # s @ [dquote])"
  by (auto simp: quoteIdent_def assertIdent_Inr)

lemma quoteIdent_is_any:
  assumes "quoteIdent v = Inr q"
  shows "quoteAnyIdent v = Inr q"
proof -
  obtain s where s: "v = JStr s" "ident_re s" "q = dquote # s @ [dquote]"
    using assms by (auto simp: quoteIdent_Inr)
  have "s \<noteq> []" "length s \<le> 63" "list_all is_word_chr s"
    using ident_re_chars [OF s(2)] by auto
  moreover have "CHR 0x00 \<notin> set s"
  proof
    assume "CHR 0x00 \<in> set s"
    then have "is_word_chr (CHR 0x00)"
      using \<open>list_all is_word_chr s\<close> by (simp only: list_all_iff)
    then show False by (simp add: js_chr)
  qed
  ultimately show ?thesis
    using s by (simp add: double_quotes_word)
qed

section \<open>The LIKE operator\<close>

text \<open>
  \<open>s LIKE p ESCAPE '\'\<close> of the SQL standard: \<open>%\<close> matches any sequence, \<open>_\<close> any one
  character, the escape makes the next character literal.
\<close>

function like_match :: "string \<Rightarrow> string \<Rightarrow> bool" where
  "like_match [] s = (s = [])"
| "like_match (c # p) s =
     (if c = bslash then
        (case p of [] \<Rightarrow> False
         | d # p' \<Rightarrow> (case s of [] \<Rightarrow> False | x # xs \<Rightarrow> x = d \<and> like_match p' xs))
      else if c = CHR ''%'' then
        like_match p s \<or> (case s of [] \<Rightarrow> False | x # xs \<Rightarrow> like_match (c # p) xs)
      else (case s of [] \<Rightarrow> False
            | x # xs \<Rightarrow> (c = CHR ''_'' \<or> x = c) \<and> like_match p xs))"
  by pat_completeness auto
termination
  by (relation "measure (\<lambda>(p, s). length p + length s)") auto

declare like_match.simps [simp del]

lemma like_match_Nil [simp]: "like_match [] s = (s = [])"
  by (simp add: like_match.simps)

lemma special_chars [simp]:
  "CHR ''%'' \<noteq> bslash" "CHR ''_'' \<noteq> bslash" "bslash \<noteq> CHR ''%''" "bslash \<noteq> CHR ''_''"
  by (simp_all add: bslash_def)

lemma like_match_percent [simp]:
  "like_match (CHR ''%'' # p) [] \<longleftrightarrow> like_match p []"
  "like_match (CHR ''%'' # p) (x # xs) \<longleftrightarrow> like_match p (x # xs) \<or> like_match (CHR ''%'' # p) xs"
  by (subst like_match.simps(2), simp only: special_chars if_False if_True refl simp_thms list.case)+

lemma like_match_all: "like_match ''%'' s"
  by (induction s) simp_all

lemma escapeLike_simps [simp]:
  "escapeLike [] = []"
  "escapeLike (c # cs) =
     (if c = bslash \<or> c = CHR ''%'' \<or> c = CHR ''_'' then [bslash, c] else [c]) @ escapeLike cs"
  by (simp_all add: escapeLike_def replace_chrs_def)

lemma like_match_escape [simp]:
  "like_match (bslash # d # p) s = (case s of [] \<Rightarrow> False | x # xs \<Rightarrow> x = d \<and> like_match p xs)"
  by (subst like_match.simps(2)) (simp only: if_True refl simp_thms list.case)

lemma like_match_literal:
  assumes "c \<noteq> bslash" "c \<noteq> CHR ''%''" "c \<noteq> CHR ''_''"
  shows "like_match (c # p) s = (case s of [] \<Rightarrow> False | x # xs \<Rightarrow> x = c \<and> like_match p xs)"
  by (subst like_match.simps(2)) (simp only: assms if_False simp_thms)

lemma starts_with_Nil [simp]: "starts_with s []" "starts_with [] (c # cs) = False"
  by (simp_all add: starts_with_iff)

lemma starts_with_Cons [simp]: "starts_with (x # xs) (y # ys) \<longleftrightarrow> x = y \<and> starts_with xs ys"
  by (simp add: starts_with_iff)

lemma like_match_escaped:
  "like_match (escapeLike b @ ''%'') s = starts_with s b"
proof (induction b arbitrary: s)
  case Nil
  then show ?case by (simp add: like_match_all)
next
  case (Cons c b)
  then show ?case
    by (cases s) (auto simp: like_match_literal)
qed

lemma belongs_like:
  "belongsToTenant s t \<longleftrightarrow>
     s = ''tenant_'' @ t \<or> like_match (escapeLike (''tenant_'' @ t @ ''_'') @ ''%'') s"
  by (simp only: belongsToTenant_def Let_def like_match_escaped append_assoc)

lemma belongs_prefix:
  "belongsToTenant s t \<longleftrightarrow> starts_with (s @ ''_'') (''tenant_'' @ t @ ''_'')"
  (is "?l \<longleftrightarrow> ?r")
proof
  show "?l \<Longrightarrow> ?r"
    by (auto simp: belongsToTenant_def starts_with_iff)
next
  assume ?r
  then obtain u where u: "s @ ''_'' = ''tenant_'' @ t @ ''_'' @ u"
    by (auto simp: starts_with_iff)
  show ?l
  proof (cases u rule: rev_cases)
    case Nil
    then have "s = ''tenant_'' @ t" using u
      by (simp only: append_Nil2 append_assoc [symmetric] append_same_eq)
    then show ?thesis by (simp add: belongsToTenant_def)
  next
    case (snoc v c)
    then have "s @ ''_'' = (''tenant_'' @ t @ ''_'' @ v) @ [c]" using u
      by (simp only: append_assoc)
    then have "s = ''tenant_'' @ t @ ''_'' @ v"
      by (simp only: append1_eq_conv)
    then show ?thesis by (simp add: belongsToTenant_def starts_with_iff)
  qed
qed

section \<open>Properties\<close>

text \<open>
  C14: a name quoted by \<open>quoteAnyIdent\<close>, whatever quotes it contains, is read by the SQL lexer
  as one identifier token that denotes exactly that name and ends where the quoted text ends,
  so no name can close the quotation early.
\<close>

theorem quoteAnyIdent_reads_back:
  assumes "quoteAnyIdent v = Inr q" "rest = [] \<or> hd rest \<noteq> dquote"
  shows "\<exists>s body. v = JStr s \<and> q = dquote # body \<and> read_quoted (body @ rest) = Some (s, rest)"
proof -
  obtain s where "v = JStr s" "q = dquote # double_quotes s @ [dquote]"
    using assms(1) by (cases v) (auto split: if_splits)
  with read_double_quotes [OF assms(2), of s] show ?thesis by simp
qed

lemma quoteAnyIdent_reads_back_witness:
  "\<exists>s body. JStr (''a'' @ [dquote] @ ''; DROP'') = JStr s
     \<and> dquote # double_quotes (''a'' @ [dquote] @ ''; DROP'') @ [dquote] = dquote # body
     \<and> read_quoted (body @ '' x'') = Some (s, '' x'')"
  by (rule quoteAnyIdent_reads_back) (simp_all add: dquote_def)

end
