(* ===== verification/TenantScope.thy ===== *)
theory TenantScope
  imports Identifiers
begin

text \<open>
  \<open>utils/tenantScope.ts\<close> and \<open>modules/tenant/tenant.service.ts\<close>: the tenant registry, the
  schemas provisioned for each tenant, and the rules that keep the schema names of two
  tenants apart. The registry and the schema catalogue live in Postgres; the model keeps the
  tables the code reads and writes and gives each SQL statement of the code its meaning on them.
  A transaction that throws leaves the database as it was, so an operation returns either an
  error or the committed state.
\<close>

section \<open>Error mapping and request scoping\<close>

definition assertTenantIdSafe :: "jsval \<Rightarrow> string res" where
  "assertTenantIdSafe v = (case v of
     JStr s \<Rightarrow> if 1 \<le> length s \<and> length s \<le> 56 \<and> list_all is_word_chr s then Inr s
               else Inl identifierError
   | _ \<Rightarrow> Inl identifierError)"

definition isUuid :: "jsval \<Rightarrow> bool" where
  "isUuid v = (case v of
     JStr s \<Rightarrow> (let parts = split_chr CHR ''-'' s
                in map length parts = [8, 4, 4, 4, 12]
                   \<and> list_all (list_all (\<lambda>c. is_hex (lower_chr c))) parts)
   | _ \<Rightarrow> False)"

definition httpStatusOf :: "jsval \<Rightarrow> rat option" where
  "httpStatusOf err = (case js_get ''status'' err of
     JNum s \<Rightarrow> if 400 \<le> s \<and> s < 600 then Some s else None
   | _ \<Rightarrow> None)"

definition sqlstate_re :: "string \<Rightarrow> bool" where
  "sqlstate_re c \<longleftrightarrow> length c = 5 \<and> list_all (\<lambda>x. is_digit x \<or> is_upper_chr x) c"

definition sqlstate_table :: "(string \<times> nat \<times> string) list" where
  "sqlstate_table =
    [(''42P01'', 404, ''UNDEFINED_TABLE''), (''3F000'', 404, ''UNDEFINED_SCHEMA''),
     (''42703'', 400, ''UNDEFINED_COLUMN''), (''42883'', 400, ''UNDEFINED_FUNCTION''),
     (''42804'', 400, ''DATATYPE_MISMATCH''), (''42846'', 400, ''DATATYPE_MISMATCH''),
     (''42702'', 400, ''AMBIGUOUS_REFERENCE''), (''42725'', 400, ''AMBIGUOUS_REFERENCE''),
     (''42601'', 400, ''INVALID_QUERY''), (''42501'', 403, ''ACCESS_DENIED''),
     (''23505'', 409, ''UNIQUE_VIOLATION''), (''23503'', 409, ''FOREIGN_KEY_VIOLATION''),
     (''23P01'', 409, ''EXCLUSION_VIOLATION''), (''23502'', 400, ''NOT_NULL_VIOLATION''),
     (''23514'', 400, ''CHECK_VIOLATION''), (''57014'', 408, ''QUERY_TIMEOUT''),
     (''42803'', 400, ''GROUPING_ERROR'')]"

definition pgClientError :: "jsval \<Rightarrow> (nat \<times> string) option" where
  "pgClientError err = (case js_get ''code'' err of
     JStr c \<Rightarrow>
       if \<not> sqlstate_re c then None
       else (case map_of sqlstate_table c of
           Some r \<Rightarrow> Some r
         | None \<Rightarrow>
             if starts_with c ''22'' then Some (400, ''INVALID_VALUE'')
             else if starts_with c ''42'' then Some (400, ''INVALID_QUERY'')
             else if starts_with c ''23'' then Some (400, ''CONSTRAINT_VIOLATION'')
             else if starts_with c ''0A'' \<or> starts_with c ''54'' then Some (400, ''UNSUPPORTED_QUERY'')
             else None)
   | _ \<Rightarrow> None)"

definition callerKey :: "jsval \<Rightarrow> string" where
  "callerKey user = js_string (coalesce (coalesce (js_get ''id'' user) (js_get ''username'' user)) (JStr []))"

definition platformAdmin :: "jsval \<Rightarrow> bool" where
  "platformAdmin user \<longleftrightarrow> strict_eq (js_get ''internal_role'' user) (JStr ''ADMIN'')
     \<and> \<not> strict_eq (js_get ''auth_type'' user) (JStr ''api_token'')"

text \<open>The arguments are \<open>req.user\<close> and \<open>req.body\<close>.\<close>

definition requestTenant :: "jsval \<Rightarrow> jsval \<Rightarrow> jsval" where
  "requestTenant user body =
     (if \<not> truthy user then JNull
      else let requested = js_get ''tenantId'' body
           in if platformAdmin user \<and> is_str requested \<and> truthy requested then requested
              else coalesce (js_get ''tenant_id'' user) JNull)"

section \<open>The registry and the provisioned schemas\<close>

record tenant_row =
  t_id :: string
  t_name :: string
  t_tier :: string
  t_status :: string
  t_user :: "string option"

record tenant_db =
  tenants :: "tenant_row list"
  schemas :: "string list"
  grants :: "string list"
  sources :: "(string \<times> string) list"

definition tenant_ids :: "tenant_db \<Rightarrow> string list" where
  "tenant_ids db = map t_id (tenants db)"

text \<open>
  The \<open>WHERE\<close> clause of \<open>findTenantIdOverlap\<close>: \<open>left(lower(a), length(b) + 1) = lower(b) || '_'\<close>
  or the same with the two ids exchanged.
\<close>

definition ids_overlap :: "string \<Rightarrow> string \<Rightarrow> bool" where
  "ids_overlap a b \<longleftrightarrow> js_lower a \<noteq> js_lower b \<and>
     (take (length b + 1) (js_lower a) = js_lower b @ ''_'' \<or>
      take (length a + 1) (js_lower b) = js_lower a @ ''_'')"

definition findTenantIdOverlap :: "tenant_db \<Rightarrow> string \<Rightarrow> string option" where
  "findTenantIdOverlap db i = List.find (\<lambda>e. ids_overlap i e) (tenant_ids db)"

definition assertCreatableTenantId :: "tenant_db \<Rightarrow> jsval \<Rightarrow> string res" where
  "assertCreatableTenantId db v = bindR (assertTenantId v) (\<lambda>tid.
     case findTenantIdOverlap db tid of
       Some clash \<Rightarrow> Inl (Err 409 ''TENANT_ID_OVERLAP'')
     | None \<Rightarrow> Inr tid)"

text \<open>\<open>fabric_admin.create_tenant_namespace\<close>: the schema is created unless it exists.\<close>

definition add_new :: "'a \<Rightarrow> 'a list \<Rightarrow> 'a list" where
  "add_new x xs = (if x \<in> set xs then xs else xs @ [x])"

definition create_tenant_namespace :: "string \<Rightarrow> tenant_db \<Rightarrow> tenant_db" where
  "create_tenant_namespace i db = db\<lparr>schemas := add_new (''tenant_'' @ i) (schemas db)\<rparr>"

text \<open>
  An error that comes from the database carries its SQLSTATE and no HTTP status (0).
  \<open>userId || null\<close> stores no owner for an absent or empty user id.
\<close>

definition createTenant ::
  "jsval \<Rightarrow> string \<Rightarrow> string \<Rightarrow> string option \<Rightarrow> tenant_db \<Rightarrow> (tenant_row \<times> tenant_db) res" where
  "createTenant v name tier userId db =
     bindR (assertCreatableTenantId db v) (\<lambda>i.
       if i \<in> set (tenant_ids db) then Inl (Err 0 ''23505'')
       else
         let row = \<lparr>t_id = i, t_name = name, t_tier = tier, t_status = ''ACTIVE'',
                    t_user = (if userId = Some [] then None else userId)\<rparr>;
             db1 = db\<lparr>tenants := tenants db @ [row]\<rparr>;
             db2 = create_tenant_namespace i db1
         in bindR (quoteAnyIdent (JStr (''tenant_'' @ i))) (\<lambda>_.
              Inr (row, db2\<lparr>grants := add_new (''tenant_'' @ i) (grants db2)\<rparr>)))"

definition updateTenant :: "string \<Rightarrow> string \<Rightarrow> string \<Rightarrow> tenant_db \<Rightarrow> tenant_row option \<times> tenant_db" where
  "updateTenant i name status db =
     (let rows = map (\<lambda>r. if t_id r = i then r\<lparr>t_name := name, t_status := status\<rparr> else r) (tenants db)
      in (List.find (\<lambda>r. t_id r = i) rows, db\<lparr>tenants := rows\<rparr>))"

text \<open>
  \<open>deleteTenant\<close>: the query selects the candidate schemas, the loop drops those that
  \<open>belongsToTenant\<close> confirms, and the registry row goes last; \<open>data_sources.tenant_id\<close>
  references the registry, so the row of a tenant with sources cannot be deleted.
\<close>

definition tenant_schema_query :: "string \<Rightarrow> string list \<Rightarrow> string list" where
  "tenant_schema_query tid = filter (\<lambda>s. s = ''tenant_'' @ tid
     \<or> like_match (escapeLike (''tenant_'' @ tid @ ''_'') @ ''%'') s)"

definition drop_schema :: "string \<Rightarrow> tenant_db \<Rightarrow> tenant_db" where
  "drop_schema s db = db\<lparr>schemas := removeAll s (schemas db), grants := removeAll s (grants db)\<rparr>"

fun drop_schemas :: "string \<Rightarrow> string list \<Rightarrow> tenant_db \<Rightarrow> tenant_db res" where
  "drop_schemas tid [] db = Inr db"
| "drop_schemas tid (s # ss) db =
     (if belongsToTenant s tid then
        bindR (quoteAnyIdent (JStr s)) (\<lambda>_. drop_schemas tid ss (drop_schema s db))
      else drop_schemas tid ss db)"

definition deleteTenant :: "jsval \<Rightarrow> tenant_db \<Rightarrow> tenant_db res" where
  "deleteTenant v db =
     bindR (assertTenantIdSafe v) (\<lambda>tid.
     bindR (drop_schemas tid (tenant_schema_query tid (schemas db)) db) (\<lambda>db1.
       if (\<exists>r \<in> set (tenants db1). t_id r = tid) \<and> (\<exists>p \<in> set (sources db1). snd p = tid)
       then Inl (Err 0 ''23503'')
       else Inr (db1\<lparr>tenants := filter (\<lambda>r. t_id r \<noteq> tid) (tenants db1)\<rparr>)))"

text \<open>
  \<open>catalogSchemaScope\<close>: the predicate text with the three parameters it appends, and the
  meaning of that text on a row of \<open>catalog_schemas\<close> (its source and its physical name).
\<close>

definition catalogSchemaScope :: "string \<Rightarrow> string list \<Rightarrow> string \<Rightarrow> string \<times> string list" where
  "catalogSchemaScope alias params tenantId =
     (let params' = params @ [tenantId, ''tenant_'' @ tenantId,
                              escapeLike (''tenant_'' @ tenantId @ ''_'') @ ''%''];
          n = length params
      in (''('' @ alias @ ''.source_id IN (SELECT ds_scope.id FROM public.data_sources ds_scope WHERE ds_scope.tenant_id = $''
            @ show_nat (n + 1) @ '') OR ('' @ alias @ ''.source_id IS NULL AND ('' @ alias @ ''.physical_name = $''
            @ show_nat (n + 2) @ '' OR '' @ alias @ ''.physical_name LIKE $'' @ show_nat (n + 3)
            @ '' ESCAPE '' @ [CHR 0x27, bslash, CHR 0x27] @ '')))'', params'))"

definition in_catalog_scope :: "tenant_db \<Rightarrow> string list \<Rightarrow> nat \<Rightarrow> string option \<times> string \<Rightarrow> bool" where
  "in_catalog_scope db params n row = (case row of (src, physical) \<Rightarrow>
     (case src of
        Some i \<Rightarrow> (i, params ! n) \<in> set (sources db)
      | None \<Rightarrow> physical = params ! (n + 1) \<or> like_match (params ! (n + 2)) physical))"

section \<open>One owner per schema\<close>

text \<open>
  The contract between the naming rule and its users: when two tenants both own a schema
  then they are the same tenant or the creation rule keeps them from coexisting.
\<close>

locale schema_ownership =
  fixes owns :: "'t \<Rightarrow> 's \<Rightarrow> bool"
    and clash :: "'t \<Rightarrow> 't \<Rightarrow> bool"
  assumes shared_schema: "owns a s \<Longrightarrow> owns b s \<Longrightarrow> a = b \<or> clash a b"
    and clash_sym: "clash a b \<Longrightarrow> clash b a"
begin

lemma one_owner:
  assumes "\<forall>a \<in> T. \<forall>b \<in> T. \<not> clash a b" "a \<in> T" "owns a s"
  shows "\<exists>!t. t \<in> T \<and> owns t s"
  using assms shared_schema by blast

lemma add_owner:
  assumes "\<forall>a \<in> T. \<forall>b \<in> T. \<not> clash a b" "\<forall>a \<in> T. \<not> clash n a" "\<not> clash n n"
  shows "\<forall>a \<in> insert n T. \<forall>b \<in> insert n T. \<not> clash a b"
  using assms clash_sym by blast

lemma others_keep:
  assumes "\<forall>a \<in> T. \<forall>b \<in> T. \<not> clash a b" "a \<in> T" "b \<in> T" "a \<noteq> b" "owns a s"
  shows "\<not> owns b s"
  using assms shared_schema by blast

end

lemma take_eq_starts: "take (length p) s = p \<longleftrightarrow> starts_with s p"
  by (metis starts_with_iff append_take_drop_id append_eq_conv_conj)

lemma length_js_lower [simp]: "length (js_lower s) = length s"
  by (simp add: js_lower_def)

lemma ids_overlap_starts:
  "ids_overlap a b \<longleftrightarrow> starts_with (js_lower a) (js_lower b @ ''_'') \<or> starts_with (js_lower b) (js_lower a @ ''_'')"
proof -
  have 1: "take (length y + 1) (js_lower x) = js_lower y @ ''_'' \<longleftrightarrow> starts_with (js_lower x) (js_lower y @ ''_'')" for x y
    using take_eq_starts [of "js_lower y @ ''_''" "js_lower x"] by simp
  have 2: "js_lower x \<noteq> js_lower y" if "starts_with (js_lower x) (js_lower y @ ''_'')" for x y
    using that by (auto simp: starts_with_iff)
  show ?thesis
    unfolding ids_overlap_def 1 using 2 by metis
qed

lemma prefix_of_same:
  assumes "starts_with s p" "starts_with s q" "length p \<le> length q"
  shows "starts_with q p"
  using assms by (metis starts_with_iff append_eq_append_conv_if append_take_drop_id)

lemma starts_lower: "starts_with s p \<Longrightarrow> starts_with (js_lower s) (js_lower p)"
  by (auto simp: starts_with_iff js_lower_def)

lemma belongs_shared:
  assumes "belongsToTenant s a" "belongsToTenant s b"
  shows "a = b \<or> ids_overlap a b"
proof -
  have longer: "a = b \<or> starts_with (js_lower b) (js_lower a @ ''_'')"
    if "belongsToTenant s a" "belongsToTenant s b" "length a \<le> length b" for a b
  proof -
    have "starts_with (''tenant_'' @ b @ ''_'') (''tenant_'' @ a @ ''_'')"
      by (rule prefix_of_same [of "s @ ''_''"]) (use that in \<open>simp_all only: belongs_prefix\<close>, simp)
    then have p: "starts_with (b @ ''_'') (a @ ''_'')"
      by (simp only: append_Cons append_Nil starts_with_Cons simp_thms)
    show ?thesis
    proof (cases "length a = length b")
      case True
      with p show ?thesis by (auto simp: starts_with_iff)
    next
      case False
      with that(3) have "length (a @ ''_'') \<le> length b" by simp
      with p have "starts_with b (a @ ''_'')"
        by (metis prefix_of_same starts_with_append)
      from starts_lower [OF this] show ?thesis
        by (simp add: js_lower_def lower_chr_def is_upper_chr_def)
    qed
  qed
  show ?thesis
  proof (cases "length a \<le> length b")
    case True
    with longer [of a b] assms show ?thesis by (auto simp: ids_overlap_starts)
  next
    case False
    with longer [of b a] assms show ?thesis by (auto simp: ids_overlap_starts)
  qed
qed

lemma ids_overlap_sym: "ids_overlap a b \<Longrightarrow> ids_overlap b a"
  by (auto simp: ids_overlap_def)

interpretation tsc: schema_ownership "\<lambda>t s. belongsToTenant s t" ids_overlap
  by unfold_locales (rule belongs_shared, assumption+, rule ids_overlap_sym)

section \<open>Invariant of the registry\<close>

definition tenant_inv :: "tenant_db \<Rightarrow> bool" where
  "tenant_inv db \<longleftrightarrow> distinct (tenant_ids db)
     \<and> (\<forall>i \<in> set (tenant_ids db). tenant_id_re i)
     \<and> (\<forall>a \<in> set (tenant_ids db). \<forall>b \<in> set (tenant_ids db). \<not> ids_overlap a b)
     \<and> (\<forall>s \<in> set (schemas db). \<exists>t \<in> set (tenant_ids db). belongsToTenant s t)
     \<and> set (grants db) \<subseteq> set (schemas db)"

text \<open>
  The transitions: the service's operations, the creation of a logical schema
  \<open>tenant_<id>_<logical>\<close> for a registered tenant, and the registration of a source.
  A failed operation leaves the state as it is.
\<close>

inductive tenant_step :: "tenant_db \<Rightarrow> tenant_db \<Rightarrow> bool" where
  create: "createTenant v name tier userId db = Inr (row, db') \<Longrightarrow> tenant_step db db'"
| update: "tenant_step db (snd (updateTenant i name status db))"
| delete: "deleteTenant v db = Inr db' \<Longrightarrow> tenant_step db db'"
| logical: "t \<in> set (tenant_ids db) \<Longrightarrow>
    tenant_step db (db\<lparr>schemas := add_new (''tenant_'' @ t @ ''_'' @ l) (schemas db)\<rparr>)"
| source: "t \<in> set (tenant_ids db) \<Longrightarrow>
    tenant_step db (db\<lparr>sources := sources db @ [(src, t)]\<rparr>)"

inductive tenant_reachable :: "tenant_db \<Rightarrow> bool" where
  start: "tenant_reachable \<lparr>tenants = [], schemas = [], grants = [], sources = []\<rparr>"
| step: "tenant_reachable db \<Longrightarrow> tenant_step db db' \<Longrightarrow> tenant_reachable db'"

lemma set_add_new [simp]: "set (add_new x xs) = insert x (set xs)"
  by (auto simp: add_new_def)

lemma find_overlap_None:
  "findTenantIdOverlap db i = None \<longleftrightarrow> (\<forall>e \<in> set (tenant_ids db). \<not> ids_overlap i e)"
  by (auto simp: findTenantIdOverlap_def find_None_iff)

lemma assertCreatable_Inr:
  "assertCreatableTenantId db v = Inr i \<longleftrightarrow>
     v = JStr i \<and> tenant_id_re i \<and> (\<forall>e \<in> set (tenant_ids db). \<not> ids_overlap i e)"
  by (auto simp: assertCreatableTenantId_def assertTenantId_Inr find_overlap_None [symmetric]
      split: option.splits)

lemma createTenant_Inr:
  assumes "createTenant v name tier userId db = Inr (row, db')"
  shows "\<exists>i. v = JStr i \<and> tenant_id_re i \<and> i \<notin> set (tenant_ids db)
    \<and> (\<forall>e \<in> set (tenant_ids db). \<not> ids_overlap i e) \<and> t_id row = i
    \<and> tenants db' = tenants db @ [row] \<and> sources db' = sources db
    \<and> schemas db' = add_new (''tenant_'' @ i) (schemas db)
    \<and> grants db' = add_new (''tenant_'' @ i) (grants db)"
  using assms
  by (auto simp: createTenant_def assertCreatable_Inr create_tenant_namespace_def Let_def
      split: if_splits)

lemma ids_overlap_irrefl [simp]: "\<not> ids_overlap a a"
  by (simp add: ids_overlap_def)

lemma belongs_own: "belongsToTenant (''tenant_'' @ t) t" "belongsToTenant (''tenant_'' @ t @ ''_'' @ l) t"
  by (simp_all add: belongsToTenant_def starts_with_iff)

lemma query_belongs: "s \<in> set (tenant_schema_query tid ss) \<longleftrightarrow> s \<in> set ss \<and> belongsToTenant s tid"
  by (auto simp: tenant_schema_query_def belongs_like)

lemma removeAll_filter: "removeAll s xs = filter (\<lambda>x. x \<noteq> s) xs"
  by (induction xs) auto

lemma drop_schemas_Inr:
  assumes "drop_schemas tid ss db = Inr db'" "\<forall>s \<in> set ss. belongsToTenant s tid"
  shows "db' = db\<lparr>schemas := filter (\<lambda>s. s \<notin> set ss) (schemas db),
                   grants := filter (\<lambda>s. s \<notin> set ss) (grants db)\<rparr>"
  using assms
  by (induction tid ss db rule: drop_schemas.induct)
     (auto simp: drop_schema_def removeAll_filter conj_commute)

lemma deleteTenant_Inr:
  assumes "deleteTenant v db = Inr db'"
  shows "\<exists>tid. v = JStr tid
    \<and> tenants db' = filter (\<lambda>r. t_id r \<noteq> tid) (tenants db) \<and> sources db' = sources db
    \<and> schemas db' = filter (\<lambda>s. \<not> belongsToTenant s tid) (schemas db)
    \<and> set (grants db') = set (grants db) - set (tenant_schema_query tid (schemas db))"
proof -
  obtain tid db1 where t: "assertTenantIdSafe v = Inr tid"
    and d: "drop_schemas tid (tenant_schema_query tid (schemas db)) db = Inr db1"
    and r: "db' = db1\<lparr>tenants := filter (\<lambda>r. t_id r \<noteq> tid) (tenants db1)\<rparr>"
    using assms by (auto simp: deleteTenant_def split: if_splits)
  have v: "v = JStr tid"
    using t by (auto simp: assertTenantIdSafe_def split: jsval.splits if_splits)
  have "db1 = db\<lparr>schemas := filter (\<lambda>s. s \<notin> set (tenant_schema_query tid (schemas db))) (schemas db),
      grants := filter (\<lambda>s. s \<notin> set (tenant_schema_query tid (schemas db))) (grants db)\<rparr>"
    by (rule drop_schemas_Inr [OF d]) (simp add: query_belongs)
  then show ?thesis
    using r v by (auto simp: query_belongs intro!: filter_cong exI [of _ tid])
qed

lemma tenant_inv_step:
  assumes inv: "tenant_inv db" and step: "tenant_step db db'"
  shows "tenant_inv db'"
  using step
proof (cases rule: tenant_step.cases)
  case (create v name tier userId row)
  from createTenant_Inr [OF this] obtain i where i: "tenant_id_re i" "i \<notin> set (tenant_ids db)"
    "\<forall>e \<in> set (tenant_ids db). \<not> ids_overlap i e" "tenant_ids db' = tenant_ids db @ [i]"
    "schemas db' = add_new (''tenant_'' @ i) (schemas db)"
    "grants db' = add_new (''tenant_'' @ i) (grants db)"
    by (auto simp: tenant_ids_def)
  have "\<forall>a \<in> insert i (set (tenant_ids db)). \<forall>b \<in> insert i (set (tenant_ids db)). \<not> ids_overlap a b"
    by (rule tsc.add_owner) (use inv i in \<open>auto simp: tenant_inv_def dest: ids_overlap_sym\<close>)
  then show ?thesis
    using inv i belongs_own(1) [of i] unfolding tenant_inv_def by auto
next
  case (update i name status)
  then have "tenant_ids db' = tenant_ids db" "schemas db' = schemas db" "grants db' = grants db"
    by (auto simp: updateTenant_def tenant_ids_def Let_def)
  then show ?thesis using inv by (simp add: tenant_inv_def)
next
  case (delete v)
  from deleteTenant_Inr [OF this] obtain tid where t:
    "tenant_ids db' = filter (\<lambda>i. i \<noteq> tid) (tenant_ids db)"
    "schemas db' = filter (\<lambda>s. \<not> belongsToTenant s tid) (schemas db)"
    "set (grants db') = set (grants db) - set (tenant_schema_query tid (schemas db))"
    by (auto simp: tenant_ids_def filter_map o_def)
  show ?thesis
    using inv unfolding tenant_inv_def t by (auto simp: query_belongs subset_iff)
next
  case (logical t l)
  then have "tenant_ids db' = tenant_ids db" by (simp add: tenant_ids_def)
  then show ?thesis
    using inv logical belongs_own(2) [of t l] unfolding tenant_inv_def by auto
next
  case (source t src)
  then show ?thesis using inv by (simp add: tenant_inv_def tenant_ids_def)
qed

lemma tenant_reachable_inv: "tenant_reachable db \<Longrightarrow> tenant_inv db"
  by (induction rule: tenant_reachable.induct)
     (simp add: tenant_inv_def tenant_ids_def, rule tenant_inv_step)

section \<open>Properties\<close>

text \<open>
  C3: in every state the tenant service can reach, each provisioned schema belongs to exactly
  one registered tenant, although ids are only compared by name and a schema name is the
  tenant's id followed by arbitrary text.
\<close>

theorem tenant_schema_has_one_owner:
  assumes "tenant_reachable db" "s \<in> set (schemas db)"
  shows "\<exists>!t. t \<in> set (tenant_ids db) \<and> belongsToTenant s t"
proof -
  have "tenant_inv db" using assms(1) by (rule tenant_reachable_inv)
  with assms(2) obtain t where "t \<in> set (tenant_ids db)" "belongsToTenant s t"
    by (auto simp: tenant_inv_def)
  with \<open>tenant_inv db\<close> show ?thesis
    by (intro tsc.one_owner) (auto simp: tenant_inv_def)
qed

definition two_tenants :: tenant_db where
  "two_tenants = \<lparr>tenants =
      [\<lparr>t_id = ''acme'', t_name = ''A'', t_tier = ''STANDARD'', t_status = ''ACTIVE'', t_user = None\<rparr>,
       \<lparr>t_id = ''globex'', t_name = ''G'', t_tier = ''STANDARD'', t_status = ''ACTIVE'', t_user = None\<rparr>],
     schemas = [''tenant_acme'', ''tenant_globex'', ''tenant_acme_sales''],
     grants = [''tenant_acme'', ''tenant_globex''], sources = []\<rparr>"

lemma two_tenants_reachable: "tenant_reachable two_tenants"
proof -
  let ?r1 = "\<lparr>t_id = ''acme'', t_name = ''A'', t_tier = ''STANDARD'', t_status = ''ACTIVE'', t_user = None\<rparr>"
  let ?d1 = "\<lparr>tenants = [?r1], schemas = [''tenant_acme''], grants = [''tenant_acme''], sources = []\<rparr>"
  let ?r2 = "\<lparr>t_id = ''globex'', t_name = ''G'', t_tier = ''STANDARD'', t_status = ''ACTIVE'', t_user = None\<rparr>"
  let ?d2 = "\<lparr>tenants = [?r1, ?r2], schemas = [''tenant_acme'', ''tenant_globex''],
              grants = [''tenant_acme'', ''tenant_globex''], sources = []\<rparr>"
  have "createTenant (JStr ''acme'') ''A'' ''STANDARD'' None
          \<lparr>tenants = [], schemas = [], grants = [], sources = []\<rparr> = Inr (?r1, ?d1)"
    by code_simp
  with tenant_reachable.start have 1: "tenant_reachable ?d1"
    by (rule tenant_reachable.step [OF _ tenant_step.create])
  have "createTenant (JStr ''globex'') ''G'' ''STANDARD'' None ?d1 = Inr (?r2, ?d2)"
    by code_simp
  with 1 have 2: "tenant_reachable ?d2"
    by (rule tenant_reachable.step [OF _ tenant_step.create])
  have "tenant_step ?d2 (?d2\<lparr>schemas := add_new (''tenant_'' @ ''acme'' @ ''_'' @ ''sales'') (schemas ?d2)\<rparr>)"
    by (rule tenant_step.logical) (simp add: tenant_ids_def)
  with 2 have "tenant_reachable (?d2\<lparr>schemas := add_new (''tenant_'' @ ''acme'' @ ''_'' @ ''sales'') (schemas ?d2)\<rparr>)"
    by (rule tenant_reachable.step)
  then show ?thesis by (simp add: two_tenants_def add_new_def)
qed

lemma tenant_schema_has_one_owner_witness:
  "\<exists>!t. t \<in> set (tenant_ids two_tenants) \<and> belongsToTenant ''tenant_acme_sales'' t"
  by (rule tenant_schema_has_one_owner [OF two_tenants_reachable]) (simp add: two_tenants_def)

text \<open>
  C13: deleting a registered tenant removes its registry row and exactly its own schemas;
  the schemas of every other registered tenant and the other registry rows stay.
\<close>

theorem deleteTenant_exact:
  assumes "tenant_reachable db" "t \<in> set (tenant_ids db)" "deleteTenant (JStr t) db = Inr db'"
  shows "schemas db' = filter (\<lambda>s. \<not> belongsToTenant s t) (schemas db)
     \<and> tenants db' = filter (\<lambda>r. t_id r \<noteq> t) (tenants db)
     \<and> (\<forall>u \<in> set (tenant_ids db). \<forall>s \<in> set (schemas db).
          u \<noteq> t \<longrightarrow> belongsToTenant s u \<longrightarrow> s \<in> set (schemas db'))"
proof -
  have inv: "tenant_inv db" using assms(1) by (rule tenant_reachable_inv)
  from deleteTenant_Inr [OF assms(3)]
  have d: "tenants db' = filter (\<lambda>r. t_id r \<noteq> t) (tenants db)"
      "schemas db' = filter (\<lambda>s. \<not> belongsToTenant s t) (schemas db)"
    by auto
  have "\<not> belongsToTenant s t" if "u \<in> set (tenant_ids db)" "u \<noteq> t" "belongsToTenant s u" for u s
    using tsc.others_keep [of "set (tenant_ids db)" u t s] that inv assms(2)
    by (auto simp: tenant_inv_def)
  then show ?thesis by (auto simp: d)
qed

lemma deleteTenant_exact_witness:
  "\<exists>db'. deleteTenant (JStr ''acme'') two_tenants = Inr db' \<and> ''tenant_globex'' \<in> set (schemas db')"
proof -
  have t: "''acme'' \<in> set (tenant_ids two_tenants)" by (simp add: two_tenants_def tenant_ids_def)
  have "isOk (deleteTenant (JStr ''acme'') two_tenants)" by code_simp
  then obtain db' where d: "deleteTenant (JStr ''acme'') two_tenants = Inr db'" by (auto simp: isOk_iff)
  have "''tenant_globex'' \<in> set (schemas db')"
    using deleteTenant_exact [OF two_tenants_reachable t d]
    by (auto simp: two_tenants_def tenant_ids_def belongsToTenant_def starts_with_iff)
  with d show ?thesis by blast
qed

text \<open>
  \<open>deleteTenant\<close> never looks the id up in the registry, so the deletion of an id that was
  never registered succeeds and drops a schema of another tenant: \<open>acme_sales\<close> is no tenant,
  and deleting it destroys \<open>tenant_acme_sales\<close> of \<open>acme\<close>.
\<close>

theorem deleteTenant_unregistered_drops_foreign:
  "\<exists>db db' t u s. tenant_reachable db \<and> t \<notin> set (tenant_ids db) \<and> u \<in> set (tenant_ids db)
     \<and> s \<in> set (schemas db) \<and> belongsToTenant s u
     \<and> deleteTenant (JStr t) db = Inr db' \<and> s \<notin> set (schemas db')"
proof -
  have "isOk (deleteTenant (JStr ''acme_sales'') two_tenants)" by code_simp
  then obtain db' where d: "deleteTenant (JStr ''acme_sales'') two_tenants = Inr db'"
    by (auto simp: isOk_iff)
  have "''tenant_acme_sales'' \<notin> set (schemas db')"
    using deleteTenant_Inr [OF d] by (auto simp: belongsToTenant_def)
  moreover have "''acme_sales'' \<notin> set (tenant_ids two_tenants)" "''acme'' \<in> set (tenant_ids two_tenants)"
    "''tenant_acme_sales'' \<in> set (schemas two_tenants)" "belongsToTenant ''tenant_acme_sales'' ''acme''"
    by (simp_all add: two_tenants_def tenant_ids_def belongsToTenant_def starts_with_iff)
  ultimately show ?thesis using d two_tenants_reachable by blast
qed

text \<open>
  The predicate \<open>catalogSchemaScope\<close> appends to a query selects exactly the catalogue rows
  of the tenant: those of a source it owns, and the source-less ones whose physical name
  \<open>belongsToTenant\<close> accepts; the wildcards in an id match nothing but themselves.
\<close>

theorem catalogSchemaScope_selects_tenant:
  "in_catalog_scope db (snd (catalogSchemaScope alias params t)) (length params) (src, physical) \<longleftrightarrow>
     (case src of Some i \<Rightarrow> (i, t) \<in> set (sources db) | None \<Rightarrow> belongsToTenant physical t)"
  by (simp add: in_catalog_scope_def catalogSchemaScope_def belongs_like nth_append Let_def
      split: option.splits)

end
