(* ===== verification/NetGuard.thy ===== *)
theory NetGuard
  imports JsValue
begin

text \<open>
  \<open>modules/integration/net_guard.ts\<close>: the outbound-target guard. Every host a source
  configuration or a webhook URL names is parsed the way the C library would parse it and
  classified; link-local and metadata addresses are never reachable, the hub database only by
  an administrator, private ranges according to the environment. The DNS resolver and the
  WHATWG \<open>URL\<close> parser are arguments.
\<close>

unbundle bit_operations_syntax

section \<open>Address syntax\<close>

datatype hostClass = Metadata | Loopback | Private | Public

definition netGuardError :: "string \<Rightarrow> nat \<Rightarrow> js_err" where
  "netGuardError code status = Err status code"

definition METADATA_HOSTS :: "string list" where
  "METADATA_HOSTS = [''metadata.google.internal'', ''metadata'', ''metadata.goog'', ''instance-data'',
     ''instance-data.ec2.internal'', ''kubernetes.default'', ''kubernetes.default.svc'']"

definition HUB_ALIASES :: "string list" where
  "HUB_ALIASES = [''db'', ''datafabric-hub'', ''datafabric_hub'']"

definition LOCAL_NAMES :: "string list" where
  "LOCAL_NAMES = [''localhost'', ''localhost.localdomain'', ''ip6-localhost'', ''ip6-loopback'']"

text \<open>One dotted part: \<open>0x\<close> hexadecimal, \<open>0\<close> octal, or decimal.\<close>

definition is_octal :: "char \<Rightarrow> bool" where
  [js_chr]: "is_octal c \<longleftrightarrow> 48 \<le> code_unit c \<and> code_unit c \<le> 55"

definition aton_part :: "string \<Rightarrow> nat option" where
  "aton_part p =
     (if starts_with p ''0x'' \<and> drop 2 p \<noteq> [] \<and> list_all is_hex (drop 2 p) then Some (num_val 16 (drop 2 p))
      else if starts_with p ''0'' \<and> drop 1 p \<noteq> [] \<and> list_all is_octal (drop 1 p) then Some (num_val 8 (drop 1 p))
      else if p = ''0'' \<or> (p \<noteq> [] \<and> \<not> starts_with p ''0'' \<and> list_all is_digit p) then Some (num_val 10 p)
      else None)"

fun all_some :: "'a option list \<Rightarrow> 'a list option" where
  "all_some [] = Some []"
| "all_some (None # _) = None"
| "all_some (Some x # xs) = map_option ((#) x) (all_some xs)"

fun lead_value :: "nat \<Rightarrow> nat list \<Rightarrow> nat" where
  "lead_value i [] = 0"
| "lead_value i (n # ns) = n * 2 ^ (8 * (3 - i)) + lead_value (i + 1) ns"

definition parseIPv4Loose :: "string \<Rightarrow> nat list option" where
  "parseIPv4Loose host =
     (let h = js_lower (js_trim host) in
      if h = [] \<or> \<not> list_all (\<lambda>c. is_hex c \<or> c = CHR ''x'' \<or> c = CHR ''.'') h then None
      else let parts = split_chr CHR ''.'' h in
        if length parts < 1 \<or> length parts > 4 \<or> [] \<in> set parts then None
        else (case all_some (map aton_part parts) of
            None \<Rightarrow> None
          | Some nums \<Rightarrow>
              let lst = last nums; lead = butlast nums in
              if list_ex (\<lambda>n. n > 255) lead then None
              else if lst \<ge> 2 ^ (8 * (5 - length nums)) then None
              else let v = lst + lead_value 0 lead
                   in Some [v div 2 ^ 24 AND 255, drop_bit 16 v AND 255, drop_bit 8 v AND 255, v AND 255]))"

definition stripBrackets :: "string \<Rightarrow> string" where
  "stripBrackets h = (if starts_with h ''['' \<and> ends_with h '']'' then butlast (drop 1 h) else h)"

text \<open>
  \<open>net.isIPv4\<close> and \<open>net.isIPv6\<close>: four decimal octets without leading zeros; eight groups of one
  to four hexadecimal digits, of which one run may be written \<open>::\<close>, the last two possibly as a
  dotted IPv4 address.
\<close>

definition v4_octet :: "string \<Rightarrow> bool" where
  "v4_octet p \<longleftrightarrow> p \<noteq> [] \<and> length p \<le> 3 \<and> list_all is_digit p
     \<and> (length p > 1 \<longrightarrow> hd p \<noteq> CHR ''0'') \<and> num_val 10 p \<le> 255"

definition isIPv4 :: "string \<Rightarrow> bool" where
  "isIPv4 h \<longleftrightarrow> (let ps = split_chr CHR ''.'' h in length ps = 4 \<and> list_all v4_octet ps)"

definition v6_group :: "string \<Rightarrow> bool" where
  "v6_group g \<longleftrightarrow> 1 \<le> length g \<and> length g \<le> 4 \<and> list_all (\<lambda>c. is_hex (lower_chr c)) g"

fun v6_width :: "string list \<Rightarrow> nat option" where
  "v6_width [] = Some 0"
| "v6_width [g] = (if v6_group g then Some 1 else if isIPv4 g then Some 2 else None)"
| "v6_width (g # h # gs) = (if v6_group g then map_option Suc (v6_width (h # gs)) else None)"

text \<open>\<open>h.split('::')\<close> as the part before the first \<open>::\<close> and, if there is one, the part up to the next.\<close>

fun split_dcolon :: "string \<Rightarrow> string \<times> string option" where
  "split_dcolon [] = ([], None)"
| "split_dcolon [c] = ([c], None)"
| "split_dcolon (c # d # s) =
     (if c = CHR '':'' \<and> d = CHR '':'' then ([], Some (fst (split_dcolon s)))
      else (case split_dcolon (d # s) of (a, t) \<Rightarrow> (c # a, t)))"

definition colon_parts :: "string \<Rightarrow> string list" where
  "colon_parts s = (if s = [] then [] else split_chr CHR '':'' s)"

fun after_dcolon :: "string \<Rightarrow> string option" where
  "after_dcolon [] = None"
| "after_dcolon [c] = None"
| "after_dcolon (c # d # s) = (if c = CHR '':'' \<and> d = CHR '':'' then Some s else after_dcolon (d # s))"

definition isIPv6_core :: "string \<Rightarrow> bool" where
  "isIPv6_core h = (case after_dcolon h of
     None \<Rightarrow> h \<noteq> [] \<and> v6_width (split_chr CHR '':'' h) = Some 8
   | Some t \<Rightarrow>
       (case (list_all v6_group (colon_parts (fst (split_dcolon h))), v6_width (colon_parts t)) of
          (True, Some n) \<Rightarrow> length (colon_parts (fst (split_dcolon h))) + n \<le> 7
        | _ \<Rightarrow> False))"

definition isIPv6 :: "string \<Rightarrow> bool" where
  "isIPv6 h = (case span (\<lambda>c. c \<noteq> CHR ''%'') h of (core, zone) \<Rightarrow>
     isIPv6_core core \<and> (zone = [] \<or> 2 \<le> length zone \<and> list_all (\<lambda>c. is_alnum c \<or> c \<in> set ''-.:'') (drop 1 zone)))"

definition isIP :: "string \<Rightarrow> bool" where
  "isIP h \<longleftrightarrow> isIPv4 h \<or> isIPv6 h"

text \<open>\<open>/(\d+\.\d+\.\d+\.\d+)$/\<close>: the leftmost start from which the rest of the text matches.\<close>

definition dotted4 :: "string \<Rightarrow> bool" where
  "dotted4 s \<longleftrightarrow> (let ps = split_chr CHR ''.'' s in length ps = 4 \<and> list_all (\<lambda>p. p \<noteq> [] \<and> list_all is_digit p) ps)"

fun v4tail :: "string \<Rightarrow> string option" where
  "v4tail [] = None"
| "v4tail (c # s) = (if dotted4 (c # s) then Some (c # s) else v4tail s)"

fun replace_first :: "string \<Rightarrow> string \<Rightarrow> string \<Rightarrow> string" where
  "replace_first [] p r = (if p = [] then r else [])"
| "replace_first (c # s) p r =
     (if starts_with (c # s) p then r @ drop (length p) (c # s) else c # replace_first s p r)"

definition v4_hextets :: "string \<Rightarrow> string" where
  "v4_hextets t = (case map (num_val 10) (split_chr CHR ''.'' t) of
     [o0, o1, o2, o3] \<Rightarrow> show_base 16 (push_bit 8 o0 OR o1) @ '':'' @ show_base 16 (push_bit 8 o2 OR o3)
   | _ \<Rightarrow> [])"

definition parseIPv6 :: "string \<Rightarrow> nat list option" where
  "parseIPv6 host =
     (let h = hd (split_chr CHR ''%'' (stripBrackets (js_lower (js_trim host)))) in
      if \<not> isIPv6 h then None
      else
        let h' = (case v4tail h of Some t \<Rightarrow> replace_first h t (v4_hextets t) | None \<Rightarrow> h);
            a = colon_parts (fst (split_dcolon h'));
            b = (case snd (split_dcolon h') of Some t \<Rightarrow> colon_parts t | None \<Rightarrow> []);
            fill = (if snd (split_dcolon h') = None then 0 else 8 - length a - length b);
            groups = map (\<lambda>x. num_val 16 (if x = [] then ''0'' else x)) (a @ replicate fill ''0'' @ b)
        in if length groups = 8 then Some groups else None)"

section \<open>Classification\<close>

definition classifyV4 :: "nat list \<Rightarrow> hostClass" where
  "classifyV4 v =
     (let a = v ! 0; b = v ! 1 in
      if a = 169 \<and> b = 254 then Metadata
      else if a = 100 \<and> b = 100 \<and> v ! 2 = 100 \<and> v ! 3 = 200 then Metadata
      else if a = 127 \<or> a = 0 then Loopback
      else if a = 10 \<or> (a = 172 \<and> b \<ge> 16 \<and> b \<le> 31) \<or> (a = 192 \<and> b = 168) \<or> (a = 100 \<and> b \<ge> 64 \<and> b \<le> 127)
      then Private
      else Public)"

definition classifyV6 :: "nat list \<Rightarrow> hostClass" where
  "classifyV6 v =
     (if list_all (\<lambda>x. x = 0) (take 7 v) \<and> (v ! 7 = 0 \<or> v ! 7 = 1) then Loopback
      else if list_all (\<lambda>x. x = 0) (take 5 v) \<and> v ! 5 = 0xffff
        then classifyV4 [drop_bit 8 (v ! 6), v ! 6 AND 255, drop_bit 8 (v ! 7), v ! 7 AND 255]
      else if v ! 0 AND 0xffc0 = 0xfe80 then Metadata
      else if v ! 0 = 0xfd00 \<and> v ! 1 = 0x0ec2 then Metadata
      else if v ! 0 AND 0xfe00 = 0xfc00 then Private
      else Public)"

definition strip_dot :: "string \<Rightarrow> string" where
  "strip_dot s = (if ends_with s ''.'' then butlast s else s)"

definition classifyHost :: "string \<Rightarrow> hostClass" where
  "classifyHost rawHost =
     (let host = strip_dot (stripBrackets (js_lower (js_trim rawHost))) in
      if host = [] then Loopback
      else if host \<in> set METADATA_HOSTS then Metadata
      else if host \<in> set LOCAL_NAMES \<or> ends_with host ''.localhost'' then Loopback
      else (case parseIPv6 host of
          Some v6 \<Rightarrow> classifyV6 v6
        | None \<Rightarrow> (case parseIPv4Loose host of Some v4 \<Rightarrow> classifyV4 v4 | None \<Rightarrow> Public)))"

section \<open>The targets a configuration names\<close>

record target =
  t_host :: string
  t_port :: "nat option"

definition invalidTarget :: js_err where
  "invalidTarget = netGuardError ''INVALID_TARGET'' 400"

definition port_of :: "jsval \<Rightarrow> nat option" where
  "port_of p = (if p = JUndef \<or> p = JNull \<or> p = JStr [] then None
     else (case js_number p of
         Some q \<Rightarrow> if is_int_rat q \<and> 0 < q \<and> q < 65536 then Some (nat \<lfloor>q\<rfloor>) else None
       | None \<Rightarrow> None))"

definition push_target :: "jsval \<Rightarrow> jsval \<Rightarrow> target list" where
  "push_target host port = (case host of
     JStr h \<Rightarrow> if js_trim h = [] then [] else [\<lparr>t_host = js_trim h, t_port = port_of port\<rparr>]
   | _ \<Rightarrow> [])"

definition push_str :: "string \<Rightarrow> string option \<Rightarrow> target list" where
  "push_str h p = push_target (JStr h) (case p of Some x \<Rightarrow> JStr x | None \<Rightarrow> JUndef)"

definition is_scheme_chr :: "char \<Rightarrow> bool" where
  "is_scheme_chr c \<longleftrightarrow> is_alnum c \<or> c = CHR ''+'' \<or> c = CHR ''.'' \<or> c = CHR ''-''"

text \<open>\<open>/^[a-z][a-z0-9+.-]*:\/\//i\<close>: the text after the scheme.\<close>

definition after_scheme :: "string \<Rightarrow> string option" where
  "after_scheme s = (case s of
     [] \<Rightarrow> None
   | c # cs \<Rightarrow>
       (case span is_scheme_chr cs of (_, rest) \<Rightarrow>
          if is_alpha c \<and> starts_with rest ''://'' then Some (drop 3 rest) else None))"

text \<open>\<open>(?:[^@/?#]*@)?([^/?#]*)([^#]*)\<close>: host part and the rest up to a fragment.\<close>

definition url_parts :: "string \<Rightarrow> string \<times> string" where
  "url_parts s =
     (case span (\<lambda>c. c \<notin> set ''@/?#'') s of (_, r) \<Rightarrow>
        let s' = (if r \<noteq> [] \<and> hd r = CHR ''@'' then tl r else s) in
        (case span (\<lambda>c. c \<notin> set ''/?#'') s' of (h, q) \<Rightarrow> (h, takeWhile (\<lambda>c. c \<noteq> CHR ''#'') q)))"

definition all_digits :: "string \<Rightarrow> bool" where
  "all_digits s \<longleftrightarrow> s \<noteq> [] \<and> list_all is_digit s"

text \<open>
  One element of a comma-separated host list: \<open>[v6]\<close>, \<open>[v6]:port\<close>, \<open>host:port\<close> split at the
  last colon, or a bare host.
\<close>

definition last_colon :: "string \<Rightarrow> (string \<times> string) option" where
  "last_colon s = (case span (\<lambda>c. c \<noteq> CHR '':'') (rev s) of
     (p, rest) \<Rightarrow> if rest = [] then None else Some (rev (tl rest), rev p))"

definition bracketed :: "string \<Rightarrow> (string \<times> string option) option" where
  "bracketed s = (case s of
     [] \<Rightarrow> None
   | c # cs \<Rightarrow>
       if c \<noteq> CHR ''['' then None
       else (case span (\<lambda>d. d \<noteq> CHR '']'') cs of (body, rest) \<Rightarrow>
         if body = [] \<or> rest = [] then None
         else if tl rest = [] then Some (body, None)
         else if hd (tl rest) = CHR '':'' \<and> all_digits (drop 2 rest) then Some (body, Some (drop 2 rest))
         else None))"

definition host_port :: "string \<Rightarrow> target list" where
  "host_port hp =
     (if hp = [] then []
      else (case bracketed hp of
          Some (h, p) \<Rightarrow> push_str h p
        | None \<Rightarrow> (case last_colon hp of
              Some (h, p) \<Rightarrow> if h \<noteq> [] \<and> all_digits p then push_str h (Some p) else push_str hp None
            | None \<Rightarrow> push_str hp None)))"

text \<open>
  \<open>decodeURIComponent\<close> on strings of code units below 256: an escape of a character above
  255 is outside the model and is treated like a malformed one, which throws.
\<close>

definition hex_pair :: "char \<Rightarrow> char \<Rightarrow> nat option" where
  "hex_pair a b = (if is_hex (lower_chr a) \<and> is_hex (lower_chr b)
     then Some (16 * digit_val (lower_chr a) + digit_val (lower_chr b)) else None)"

fun decode_uri :: "string \<Rightarrow> string option" where
  "decode_uri [] = Some []"
| "decode_uri (c # s) =
     (if c \<noteq> CHR ''%'' then map_option ((#) c) (decode_uri s)
      else (case s of
          a # b # s' \<Rightarrow>
            (case hex_pair a b of
               None \<Rightarrow> None
             | Some n \<Rightarrow>
                 if n < 128 then map_option ((#) (char_of n)) (decode_uri s')
                 else (case s' of
                     p # d # e # s'' \<Rightarrow>
                       (case (p = CHR ''%'', hex_pair d e) of
                          (True, Some m) \<Rightarrow>
                            if (n = 0xC2 \<or> n = 0xC3) \<and> 0x80 \<le> m \<and> m < 0xC0
                            then map_option ((#) (char_of ((n - 0xC0) * 64 + (m - 0x80)))) (decode_uri s'')
                            else None
                        | _ \<Rightarrow> None)
                   | _ \<Rightarrow> None))
        | _ \<Rightarrow> None))"

text \<open>\<open>/[?&](host|hostaddr|socketPath)=([^&]+)/gi\<close>: the values in order of occurrence.\<close>

definition ci_prefix :: "string \<Rightarrow> string \<Rightarrow> string option" where
  "ci_prefix p s = (if js_lower (take (length p) s) = p then Some (drop (length p) s) else None)"

fun first_prefix :: "string list \<Rightarrow> string \<Rightarrow> string option" where
  "first_prefix [] s = None"
| "first_prefix (p # ps) s = (case ci_prefix p s of Some r \<Rightarrow> Some r | None \<Rightarrow> first_prefix ps s)"

lemma first_prefix_length: "first_prefix ps s = Some r \<Longrightarrow> length r \<le> length s"
  by (induction ps) (auto simp: ci_prefix_def split: option.splits if_splits)

function query_hosts :: "string \<Rightarrow> string list" where
  "query_hosts [] = []"
| "query_hosts (c # s) =
     (case (if c = CHR ''?'' \<or> c = CHR ''&''
            then first_prefix [''host='', ''hostaddr='', ''socketpath=''] s else None) of
        Some r \<Rightarrow>
          let v = takeWhile (\<lambda>d. d \<noteq> CHR ''&'') r in
          if v = [] then query_hosts s
          else v # query_hosts (dropWhile (\<lambda>d. d \<noteq> CHR ''&'') r)
      | None \<Rightarrow> query_hosts s)"
  by pat_completeness auto
termination
  by (relation "measure length")
     (auto simp del: first_prefix.simps split: if_splits dest!: first_prefix_length
           intro!: le_imp_less_Suc intro: order_trans [OF length_dropWhile_le])

definition hosts_of_value :: "string \<Rightarrow> target list" where
  "hosts_of_value v = concat (map (\<lambda>h. push_str h None) (split_chr CHR '','' v))"

definition fromUrl :: "string \<Rightarrow> target list res" where
  "fromUrl u = (case after_scheme (js_trim u) of
     None \<Rightarrow> Inl invalidTarget
   | Some rest \<Rightarrow>
       (case url_parts rest of (hosts, q) \<Rightarrow>
          bindR (mapMR (\<lambda>enc. case decode_uri enc of
                    None \<Rightarrow> Inl (Err 0 ''URIError'')
                  | Some v \<Rightarrow> if starts_with v ''/'' then Inl invalidTarget else Inr (hosts_of_value v))
                (query_hosts q)) (\<lambda>more.
            Inr (concat (map host_port (split_chr CHR '','' hosts)) @ concat more))))"

text \<open>
  \<open>/(?:^|\s)(host|hostaddr|port)\s*=\s*('(?:[^'\\]|\\.)*'|\S+)/gi\<close>: the value is a quoted
  text, or, where no closing quote follows, everything up to the next white space.
\<close>

definition squote :: char where
  "squote = CHR 0x27"

fun quoted_value :: "string \<Rightarrow> (string \<times> string) option" where
  "quoted_value [] = None"
| "quoted_value (c # s) =
     (if c = squote then Some ([c], s)
      else if c = CHR 0x5C then
        (case s of [] \<Rightarrow> None
         | d # s' \<Rightarrow> if d \<in> {CHR 0x0A, CHR 0x0D} then None
                     else map_option (\<lambda>(v, r). (c # d # v, r)) (quoted_value s'))
      else map_option (\<lambda>(v, r). (c # v, r)) (quoted_value s))"

definition kv_value :: "string \<Rightarrow> (string \<times> string) option" where
  "kv_value s =
     (let t = dropWhile is_space s;
          plain = (case span (\<lambda>c. \<not> is_space c) t of (v, r) \<Rightarrow> if v = [] then None else Some (v, r)) in
      (case t of
         c # t' \<Rightarrow> if c = squote
                   then (case quoted_value t' of Some (v, r) \<Rightarrow> Some (c # v, r) | None \<Rightarrow> plain)
                   else plain
       | [] \<Rightarrow> None))"

definition kv_key :: "string \<Rightarrow> string \<Rightarrow> (string \<times> string \<times> string) option" where
  "kv_key k s = (case ci_prefix k s of
     None \<Rightarrow> None
   | Some r \<Rightarrow> (case dropWhile is_space r of
         c # r' \<Rightarrow> if c = CHR ''='' then map_option (\<lambda>(v, t). (k, v, t)) (kv_value r') else None
       | [] \<Rightarrow> None))"

fun first_key :: "string list \<Rightarrow> string \<Rightarrow> (string \<times> string \<times> string) option" where
  "first_key [] s = None"
| "first_key (k # ks) s = (case kv_key k s of Some m \<Rightarrow> Some m | None \<Rightarrow> first_key ks s)"

definition kv_match :: "bool \<Rightarrow> string \<Rightarrow> (string \<times> string \<times> string) option" where
  "kv_match at_start s =
     (case (if at_start then first_key [''host'', ''hostaddr'', ''port''] s else None) of
        Some m \<Rightarrow> Some m
      | None \<Rightarrow> (case s of
            c # s' \<Rightarrow> if is_space c then first_key [''host'', ''hostaddr'', ''port''] s' else None
          | [] \<Rightarrow> None))"

text \<open>The scan of \<open>matchAll\<close>; every match consumes text, so the length of the input is enough fuel.\<close>

fun kv_scan :: "nat \<Rightarrow> bool \<Rightarrow> string \<Rightarrow> (string \<times> string) list" where
  "kv_scan 0 _ _ = []"
| "kv_scan (Suc n) at_start s =
     (case kv_match at_start s of
        Some (k, v, rest) \<Rightarrow> (k, v) # kv_scan n False rest
      | None \<Rightarrow> (case s of [] \<Rightarrow> [] | _ # s' \<Rightarrow> kv_scan n False s'))"

definition strip_quotes :: "string \<Rightarrow> string" where
  "strip_quotes v =
     (let w = (if v \<noteq> [] \<and> hd v = squote then tl v else v)
      in if w \<noteq> [] \<and> last w = squote then butlast w else w)"

fun kv_collect :: "(string \<times> string) list \<Rightarrow> string list \<Rightarrow> string option \<Rightarrow> (string list \<times> string option) res" where
  "kv_collect [] hosts port = Inr (hosts, port)"
| "kv_collect ((k, raw) # ms) hosts port =
     (let v = strip_quotes raw in
      if k = ''port'' then kv_collect ms hosts (Some (hd (split_chr CHR '','' v)))
      else if starts_with v ''/'' then Inl invalidTarget
      else kv_collect ms (hosts @ split_chr CHR '','' v) port)"

definition fromKeyValue :: "string \<Rightarrow> (bool \<times> target list) res" where
  "fromKeyValue s =
     (let ms = kv_scan (length s + 1) True s in
      mapR (\<lambda>(hosts, port). (ms \<noteq> [], concat (map (\<lambda>h. push_str h port) hosts))) (kv_collect ms [] None))"

text \<open>Oracle descriptors: \<open>/\(\s*HOST\s*=\s*([^)\s]+)\s*\)/gi\<close>.\<close>

definition oracle_match :: "string \<Rightarrow> (string \<times> string) option" where
  "oracle_match s = (case s of
     c # s1 \<Rightarrow>
       if c \<noteq> CHR ''('' then None
       else (case ci_prefix ''host'' (dropWhile is_space s1) of
           None \<Rightarrow> None
         | Some s2 \<Rightarrow> (case dropWhile is_space s2 of
               e # s3 \<Rightarrow>
                 if e \<noteq> CHR ''='' then None
                 else (case span (\<lambda>d. d \<noteq> CHR '')'' \<and> \<not> is_space d) (dropWhile is_space s3) of
                     (v, s4) \<Rightarrow> (case dropWhile is_space s4 of
                         f # s5 \<Rightarrow> if v \<noteq> [] \<and> f = CHR '')'' then Some (v, s5) else None
                       | [] \<Rightarrow> None))
             | [] \<Rightarrow> None))
   | [] \<Rightarrow> None)"

fun oracle_scan :: "nat \<Rightarrow> string \<Rightarrow> string list" where
  "oracle_scan 0 _ = []"
| "oracle_scan (Suc n) s =
     (case oracle_match s of
        Some (v, rest) \<Rightarrow> v # oracle_scan n rest
      | None \<Rightarrow> (case s of [] \<Rightarrow> [] | _ # s' \<Rightarrow> oracle_scan n s'))"

text \<open>\<open>/\b(?:host|hostaddr)\s*=/i\<close>.\<close>

definition host_key_here :: "string \<Rightarrow> bool" where
  "host_key_here s = list_ex (\<lambda>k. case ci_prefix k s of
     Some r \<Rightarrow> starts_with (dropWhile is_space r) ''='' | None \<Rightarrow> False) [''host'', ''hostaddr'']"

fun has_host_key :: "bool \<Rightarrow> string \<Rightarrow> bool" where
  "has_host_key boundary [] = False"
| "has_host_key boundary (c # s) =
     (boundary \<and> host_key_here (c # s) \<or> has_host_key (\<not> is_word_chr c) s)"

text \<open>\<open>/^(?:\/\/)?([^:/\s]+|\[[^\]]+\])(?::(\d+))?(?:\/.*)?$/\<close>.\<close>

definition ec_path :: "string \<Rightarrow> bool" where
  "ec_path r \<longleftrightarrow> r = [] \<or> (starts_with r ''/'' \<and> CHR 0x0A \<notin> set r \<and> CHR 0x0D \<notin> set r)"

definition ec_tail :: "string \<Rightarrow> string \<Rightarrow> (string \<times> string option) option" where
  "ec_tail h r =
     (if h = [] then None
      else if starts_with r '':'' then
        (case span is_digit (drop 1 r) of (ds, r') \<Rightarrow>
           if ds \<noteq> [] \<and> ec_path r' then Some (h, Some ds) else None)
      else if ec_path r then Some (h, None) else None)"

definition easy_connect :: "string \<Rightarrow> (string \<times> string option) option" where
  "easy_connect v =
     (let s = (if starts_with v ''//'' then drop 2 v else v) in
      (case span (\<lambda>c. c \<noteq> CHR '':'' \<and> c \<noteq> CHR ''/'' \<and> \<not> is_space c) s of (h, r) \<Rightarrow>
         (case ec_tail h r of
            Some m \<Rightarrow> Some m
          | None \<Rightarrow>
              if starts_with s ''['' then
                (case span (\<lambda>c. c \<noteq> CHR '']'') (drop 1 s) of (b, r') \<Rightarrow>
                   if b = [] \<or> r' = [] then None else ec_tail (''['' @ b @ '']'') (tl r'))
              else None)))"

definition fromString :: "string \<Rightarrow> target list res" where
  "fromString s =
     (let v = js_trim s in
      if after_scheme v \<noteq> None then fromUrl v
      else
        let hosts = oracle_scan (length v + 1) v in
        if hosts \<noteq> [] then Inr (concat (map (\<lambda>h. push_str h None) hosts))
        else if has_host_key True v then
          bindR (fromKeyValue v) (\<lambda>(found, ts). if found then Inr ts else Inl invalidTarget)
        else (case easy_connect v of
            Some (h, p) \<Rightarrow> Inr (push_str h p)
          | None \<Rightarrow> Inl invalidTarget))"

definition URL_KEYS :: "string list" where
  "URL_KEYS = [''connectionString'', ''uri'', ''url'', ''connectString'', ''endpoint'', ''baseUrl'']"

definition from_url_key :: "jsval \<Rightarrow> string \<Rightarrow> target list res" where
  "from_url_key c k = (case js_get k c of
     JStr s \<Rightarrow> if js_trim s = [] then Inr [] else fromString s
   | _ \<Rightarrow> Inr [])"

definition extractTargets :: "jsval \<Rightarrow> target list res" where
  "extractTargets c =
     (if \<not> (is_obj c \<or> is_arr c) then Inl invalidTarget
      else
        let port = js_get ''port'' c;
            direct = push_target (js_get ''host'' c) port @ push_target (js_get ''hostname'' c) port
                     @ push_target (js_get ''hostaddr'' c) port;
            listed = concat (map (\<lambda>h. if is_str h then push_target h JUndef
                                      else push_target (js_get ''host'' h) (js_get ''port'' h))
                                 (arr_of (js_get ''hosts'' c)));
            acc = (case js_get ''account'' c of
                JStr a \<Rightarrow> if js_trim a = [] then []
                          else push_str (if CHR ''.'' \<in> set a then a else a @ ''.snowflakecomputing.com'') None
              | _ \<Rightarrow> [])
        in bindR (mapMR (from_url_key c) URL_KEYS) (\<lambda>urls.
             if is_str (js_get ''socketPath'' c) \<and> truthy (js_get ''socketPath'' c)
             then Inl invalidTarget
             else Inr (direct @ concat urls @ listed @ acc)))"

section \<open>The hub database\<close>

text \<open>\<open>process.env\<close>; and the parts of a parsed WHATWG URL the code reads.\<close>

type_synonym environment = "string \<Rightarrow> string option"

record url =
  u_protocol :: string
  u_username :: string
  u_password :: string
  u_hostname :: string
  u_port :: string
  u_href :: string

type_synonym url_parser = "string \<Rightarrow> url option"

definition canonical_host :: "string \<Rightarrow> string" where
  "canonical_host h =
     (let c = strip_dot (stripBrackets (js_lower (js_trim h)))
      in case parseIPv4Loose c of Some v4 \<Rightarrow> js_join ''.'' (map show_nat v4) | None \<Rightarrow> c)"

definition env_str :: "environment \<Rightarrow> string \<Rightarrow> string" where
  "env_str env k = (case env k of Some v \<Rightarrow> v | None \<Rightarrow> [])"

definition add_hub :: "string \<Rightarrow> jsval \<Rightarrow> string list \<times> rat list \<Rightarrow> string list \<times> rat list" where
  "add_hub h p acc = (case acc of (hosts, ports) \<Rightarrow>
     (if h = [] then hosts else List.insert (canonical_host h) hosts,
      if p = JUndef \<or> p = JStr [] then ports
      else (case js_number p of
          Some n \<Rightarrow> if is_int_rat n \<and> n > 0 then List.insert n ports else ports
        | None \<Rightarrow> ports)))"

definition hubTargets :: "url_parser \<Rightarrow> environment \<Rightarrow> string list \<times> rat list" where
  "hubTargets parse env =
     (let acc = add_hub (env_str env ''DB_HOST'')
                  (case env ''DB_PORT'' of Some p \<Rightarrow> JStr p | None \<Rightarrow> JUndef) ([], []);
          acc = (if env_str env ''DATABASE_URL'' = [] then acc
                 else (case parse (env_str env ''DATABASE_URL'') of
                     Some u \<Rightarrow> add_hub (u_hostname u) (if u_port u = [] then JNum 5432 else JStr (u_port u)) acc
                   | None \<Rightarrow> acc))
      in (fst acc, if snd acc = [] then [5432] else snd acc))"

definition isHubTarget :: "url_parser \<Rightarrow> environment \<Rightarrow> target \<Rightarrow> bool" where
  "isHubTarget parse env t =
     (case hubTargets parse env of (hosts, ports) \<Rightarrow>
        let canonical = canonical_host (t_host t);
            port = (case t_port t of Some p \<Rightarrow> p | None \<Rightarrow> 5432)
        in if canonical \<in> set HUB_ALIASES then port = 5432 \<or> of_nat port \<in> set ports
           else if classifyHost canonical = Loopback then of_nat port \<in> set ports
           else if canonical \<in> set hosts then of_nat port \<in> set ports
           else False)"

definition applyDockerAlias :: "target \<Rightarrow> target" where
  "applyDockerAlias t =
     (let host = js_lower (t_host t) in
      if (host = ''localhost'' \<or> host = ''127.0.0.1'') \<and> t_port t = Some 5436
        then \<lparr>t_host = ''datafabric-remote'', t_port = Some 5432\<rparr>
      else if (host = ''localhost'' \<or> host = ''127.0.0.1'') \<and> t_port t = Some 5434
        then \<lparr>t_host = ''datafabric-hub'', t_port = Some 5432\<rparr>
      else t)"

section \<open>Source checks\<close>

record guard_ctx =
  g_admin :: bool
  g_env :: environment

definition allow_hub :: "guard_ctx \<Rightarrow> bool" where
  "allow_hub ctx \<longleftrightarrow> g_admin ctx \<and> g_env ctx ''ALLOW_HUB_SOURCE'' = Some ''true''"

definition allow_private :: "guard_ctx \<Rightarrow> bool" where
  "allow_private ctx \<longleftrightarrow> g_env ctx ''ALLOW_PRIVATE_SOURCES'' \<noteq> Some ''false''"

definition check_target :: "url_parser \<Rightarrow> guard_ctx \<Rightarrow> target \<Rightarrow> unit res" where
  "check_target parse ctx t =
     (let cls = classifyHost (t_host t) in
      if cls = Metadata then Inl (netGuardError ''SSRF_BLOCKED'' 400)
      else if isHubTarget parse (g_env ctx) t \<and> \<not> allow_hub ctx
        then Inl (netGuardError ''HUB_SOURCE_NOT_ALLOWED'' 403)
      else if \<not> allow_private ctx \<and> (cls = Loopback \<or> cls = Private)
        then Inl (netGuardError ''PRIVATE_TARGET_BLOCKED'' 400)
      else Inr ())"

definition assertSourceTargetsAllowed :: "url_parser \<Rightarrow> guard_ctx \<Rightarrow> jsval \<Rightarrow> target list res" where
  "assertSourceTargetsAllowed parse ctx config =
     bindR (extractTargets config) (\<lambda>targets.
       mapR (\<lambda>_. targets)
         (eachR (\<lambda>raw. eachR (check_target parse ctx) [raw, applyDockerAlias raw]) targets))"

text \<open>A resolver returns the addresses of a name, or \<open>None\<close> when it fails or exceeds three seconds.\<close>

type_synonym resolver = "string \<Rightarrow> string list option"

definition check_address :: "bool \<Rightarrow> string \<Rightarrow> unit res" where
  "check_address private_ok a =
     (let cls = classifyHost a in
      if cls = Metadata then Inl (netGuardError ''SSRF_BLOCKED'' 400)
      else if \<not> private_ok \<and> (cls = Loopback \<or> cls = Private)
        then Inl (netGuardError ''PRIVATE_TARGET_BLOCKED'' 400)
      else Inr ())"

definition hub_host :: "url_parser \<Rightarrow> environment \<Rightarrow> string" where
  "hub_host parse env =
     (if env_str env ''DB_HOST'' \<noteq> [] then env_str env ''DB_HOST''
      else (case parse (env_str env ''DATABASE_URL'') of Some u \<Rightarrow> u_hostname u | None \<Rightarrow> []))"

definition check_resolved :: "url_parser \<Rightarrow> guard_ctx \<Rightarrow> resolver \<Rightarrow> target \<Rightarrow> unit res" where
  "check_resolved parse ctx resolve t =
     (if isIP (stripBrackets (t_host t)) \<or> parseIPv4Loose (t_host t) \<noteq> None then Inr ()
      else (case resolve (t_host t) of
          None \<Rightarrow> Inr ()
        | Some addrs \<Rightarrow>
            bindR (eachR (check_address (allow_private ctx)) addrs) (\<lambda>_.
              let hh = hub_host parse (g_env ctx) in
              if \<not> allow_hub ctx \<and> hh \<noteq> [] \<and> t_port t \<noteq> None then
                (let hubAddrs = (case resolve hh of Some as \<Rightarrow> as | None \<Rightarrow> []) in
                 if list_ex (\<lambda>a. a \<in> set hubAddrs) addrs
                    \<and> isHubTarget parse (g_env ctx) \<lparr>t_host = hh, t_port = t_port t\<rparr>
                 then Inl (netGuardError ''HUB_SOURCE_NOT_ALLOWED'' 403)
                 else Inr ())
              else Inr ())))"

definition assertSourceAllowed :: "url_parser \<Rightarrow> guard_ctx \<Rightarrow> resolver \<Rightarrow> jsval \<Rightarrow> unit res" where
  "assertSourceAllowed parse ctx resolve config =
     bindR (assertSourceTargetsAllowed parse ctx config) (eachR (check_resolved parse ctx resolve))"

definition assertSourceName :: "jsval \<Rightarrow> string res" where
  "assertSourceName v = (case v of
     JStr (c # cs) \<Rightarrow>
       if is_alpha c \<and> length cs \<le> 47 \<and> list_all (\<lambda>d. is_alnum d \<or> d \<in> set '' _-'') cs
          \<and> (cs = [] \<or> last cs \<noteq> CHR '' '')
       then Inr (c # cs) else Inl (netGuardError ''INVALID_SOURCE_NAME'' 400)
   | _ \<Rightarrow> Inl (netGuardError ''INVALID_SOURCE_NAME'' 400))"

section \<open>Webhooks\<close>

definition invalidWebhook :: js_err where
  "invalidWebhook = netGuardError ''INVALID_WEBHOOK_URL'' 400"

definition illegal_url_chr :: "char \<Rightarrow> bool" where
  "illegal_url_chr c \<longleftrightarrow> code_unit c \<le> 32 \<or> code_unit c = 127 \<or> c = CHR 0x5C"

definition assertSafeWebhookUrl :: "url_parser \<Rightarrow> environment \<Rightarrow> jsval \<Rightarrow> string res" where
  "assertSafeWebhookUrl parse env v = (case v of
     JStr raw \<Rightarrow>
       if js_trim raw = [] then Inl invalidWebhook
       else if length raw > 2048 then Inl invalidWebhook
       else if list_ex illegal_url_chr (js_trim raw) then Inl invalidWebhook
       else (case parse (js_trim raw) of
           None \<Rightarrow> Inl invalidWebhook
         | Some u \<Rightarrow>
             if u_protocol u \<noteq> ''http:'' \<and> u_protocol u \<noteq> ''https:'' then Inl invalidWebhook
             else if u_username u \<noteq> [] \<or> u_password u \<noteq> [] then Inl invalidWebhook
             else
               let host = strip_dot (stripBrackets (u_hostname u));
                   cls = classifyHost host;
                   private_ok = (env ''ALLOW_PRIVATE_WEBHOOKS'' = Some ''true'')
               in if cls = Metadata then Inl (netGuardError ''SSRF_BLOCKED'' 400)
                  else if \<not> private_ok \<and> (cls = Loopback \<or> cls = Private)
                    then Inl (netGuardError ''PRIVATE_TARGET_BLOCKED'' 400)
                  else if \<not> private_ok \<and> (js_lower host \<in> set HUB_ALIASES
                                          \<or> js_lower host \<in> set (fst (hubTargets parse env)))
                    then Inl (netGuardError ''PRIVATE_TARGET_BLOCKED'' 400)
                  else Inr (u_href u))
   | _ \<Rightarrow> Inl invalidWebhook)"

definition assertWebhookResolvesSafe :: "url_parser \<Rightarrow> environment \<Rightarrow> resolver \<Rightarrow> jsval \<Rightarrow> unit res" where
  "assertWebhookResolvesSafe parse env resolve v =
     bindR (assertSafeWebhookUrl parse env v) (\<lambda>safe.
       case parse safe of
         None \<Rightarrow> Inl (Err 0 ''ERR_INVALID_URL'')
       | Some u \<Rightarrow>
           let host = stripBrackets (u_hostname u) in
           if isIP host \<or> parseIPv4Loose host \<noteq> None then Inr ()
           else (case resolve host of
               None \<Rightarrow> Inl (netGuardError ''WEBHOOK_UNRESOLVABLE'' 400)
             | Some addrs \<Rightarrow>
                 eachR (check_address (env ''ALLOW_PRIVATE_WEBHOOKS'' = Some ''true'')) addrs))"

section \<open>Spellings of an IPv4 address\<close>

text \<open>
  The specification: an address is a number below \<open>2 ^ 32\<close>; it may be written with one to
  four parts, the last part taking the remaining bytes, and every part in decimal, octal or
  hexadecimal with any number of leading zeros after the prefix.
\<close>

definition octets :: "nat \<Rightarrow> nat list" where
  "octets a = [a div 2 ^ 24, a div 2 ^ 16 mod 256, a div 2 ^ 8 mod 256, a mod 256]"

definition aton_forms :: "nat \<Rightarrow> nat list list" where
  "aton_forms a =
     [[a], [a div 2 ^ 24, a mod 2 ^ 24], [a div 2 ^ 24, a div 2 ^ 16 mod 256, a mod 2 ^ 16], octets a]"

inductive aton_spelling :: "string \<Rightarrow> nat \<Rightarrow> bool" where
  dec: "aton_spelling (show_nat n) n"
| oct: "aton_spelling (CHR ''0'' # replicate k (CHR ''0'') @ show_base 8 n) n"
| hex: "aton_spelling (''0x'' @ replicate k (CHR ''0'') @ show_base 16 n) n"

lemma num_val_zeros: "num_val b (replicate k (CHR ''0'') @ s) = num_val b s"
  by (induction k) (simp_all add: num_val_def digit_val_def)

lemma digit_chr_0: "digit_chr 0 = CHR ''0''"
  by code_simp

lemma digit_chr_hex: "d < 16 \<Longrightarrow> is_hex (digit_chr d)"
  by (auto simp: js_chr digit_chr_def)

lemma digit_chr_oct: "d < 8 \<Longrightarrow> is_octal (digit_chr d)"
  by (auto simp: js_chr digit_chr_def)

lemma show_16_hex: "list_all is_hex (show_base 16 n)"
  unfolding list_all_iff using show_base_digits [of 16 _ n] digit_chr_hex by fastforce

lemma show_8_oct: "list_all is_octal (show_base 8 n)"
  unfolding list_all_iff using show_base_digits [of 8 _ n] digit_chr_oct by fastforce

lemma show_10_digit: "list_all is_digit (show_nat n)"
  using show_nat_digits by (auto simp: list_all_iff)

lemma list_all_zeros: "P (CHR ''0'') \<Longrightarrow> list_all P (replicate k (CHR ''0''))"
  by (simp add: list_all_iff)

lemma hd_show_nat: "hd (show_nat n) = CHR ''0'' \<Longrightarrow> n = 0"
proof (induction n rule: less_induct)
  case (less n)
  show ?case
  proof (cases "n < 10")
    case True
    with less.prems show ?thesis
      by (auto simp: show_base.simps [of 10 n] digit_chr_def dest: arg_cong [of _ _ "of_char :: char \<Rightarrow> nat"])
  next
    case False
    then have "hd (show_nat n) = hd (show_nat (n div 10))"
      by (simp add: show_base.simps [of 10 n])
    with less False have "n div 10 = 0" by simp
    with False show ?thesis by simp
  qed
qed

lemma aton_part_spelling:
  assumes "aton_spelling p n"
  shows "aton_part p = Some n"
  using assms
proof cases
  case dec
  have no_x: "\<not> starts_with p ''0x''"
  proof
    assume "starts_with p ''0x''"
    then have "CHR ''x'' \<in> set p" by (auto simp: starts_with_iff)
    with dec show_nat_digits [of "CHR ''x''" n] show False by (simp add: js_chr)
  qed
  show ?thesis
  proof (cases "n = 0")
    case True
    with dec have "p = ''0''" by (simp add: show_base.simps digit_chr_0)
    with True show ?thesis by (simp add: aton_part_def starts_with_def num_val_def digit_val_def)
  next
    case False
    have "\<not> starts_with p ''0''"
      using hd_show_nat [of n] False dec by (auto simp: starts_with_iff)
    with no_x dec show_10_digit [of n] show ?thesis
      by (simp add: aton_part_def num_val_show)
  qed
next
  case (oct k)
  let ?r = "replicate k (CHR ''0'') @ show_base 8 n"
  have "list_all is_octal ?r"
    using show_8_oct [of n] list_all_zeros [of is_octal k] by (simp add: js_chr)
  moreover have "\<not> starts_with p ''0x''"
  proof
    assume "starts_with p ''0x''"
    with oct obtain t where "?r = CHR ''x'' # t" by (auto simp: starts_with_iff)
    then have "CHR ''x'' \<in> set ?r" by (metis list.set_intros(1))
    with \<open>list_all is_octal ?r\<close> have "is_octal (CHR ''x'')" by (simp only: list_all_iff)
    then show False by (simp add: js_chr)
  qed
  ultimately show ?thesis
    using oct by (simp add: aton_part_def starts_with_def num_val_zeros num_val_show)
next
  case (hex k)
  have "list_all is_hex (replicate k (CHR ''0'') @ show_base 16 n)"
    using show_16_hex [of n] list_all_zeros [of is_hex k] by (simp add: js_chr)
  with hex show ?thesis
    by (simp add: aton_part_def starts_with_def num_val_zeros num_val_show)
qed

definition aton_chr :: "char \<Rightarrow> bool" where
  "aton_chr c \<longleftrightarrow> is_hex c \<or> c = CHR ''x''"

lemma aton_spelling_chars:
  assumes "aton_spelling p n"
  shows "p \<noteq> [] \<and> list_all aton_chr p \<and> is_digit (hd p)"
  using assms
proof cases
  case dec
  then show ?thesis using show_10_digit [of n]
    by (cases "show_nat n") (auto simp: list_all_iff aton_chr_def is_hex_def)
next
  case (oct k)
  then show ?thesis using show_8_oct [of n] list_all_zeros [of aton_chr k]
    by (auto simp: list_all_iff aton_chr_def js_chr)
next
  case (hex k)
  then show ?thesis using show_16_hex [of n] list_all_zeros [of aton_chr k]
    by (auto simp: list_all_iff aton_chr_def js_chr)
qed

lemma and_255: "n AND 255 = n mod 256" for n :: nat
  using take_bit_eq_mask [of 8 n] by (simp add: take_bit_eq_mod mask_eq_exp_minus_1)

lemma bytes_split:
  "a mod 2 ^ 16 + a div 2 ^ 24 * 2 ^ 24 + (a div 2 ^ 16 mod 256) * 2 ^ 16 = (a :: nat)"
  "a mod 256 + a div 2 ^ 24 * 2 ^ 24 + (a div 2 ^ 16 mod 256) * 2 ^ 16 + (a div 2 ^ 8 mod 256) * 2 ^ 8 = a"
proof -
  have 1: "a div 2 ^ 24 = a div 2 ^ 16 div 256" "a div 2 ^ 16 = a div 2 ^ 8 div 256"
    by (simp_all add: div_mult2_eq [symmetric])
  have 2: "a div 2 ^ 16 div 256 * 256 + a div 2 ^ 16 mod 256 = a div 2 ^ 16"
    "a div 2 ^ 8 div 256 * 256 + a div 2 ^ 8 mod 256 = a div 2 ^ 8"
    "a div 2 ^ 16 * 2 ^ 16 + a mod 2 ^ 16 = a" "a div 2 ^ 8 * 2 ^ 8 + a mod 2 ^ 8 = a"
    by (rule div_mult_mod_eq)+
  have three: "q * 256 + r = b \<Longrightarrow> b * 2 ^ 16 + s = a \<Longrightarrow> s + q * 2 ^ 24 + r * 2 ^ 16 = a" for q r b s a :: nat
    by simp
  have four: "q * 256 + r = b \<Longrightarrow> b * 256 + t = c \<Longrightarrow> c * 2 ^ 8 + u = a \<Longrightarrow>
      u + q * 2 ^ 24 + r * 2 ^ 16 + t * 2 ^ 8 = a" for q r b c t u a :: nat
    by simp
  show "a mod 2 ^ 16 + a div 2 ^ 24 * 2 ^ 24 + (a div 2 ^ 16 mod 256) * 2 ^ 16 = a"
    unfolding 1(1) by (rule three [OF 2(1,3)])
  have "a mod 256 + a div 2 ^ 16 div 256 * 2 ^ 24 + (a div 2 ^ 16 mod 256) * 2 ^ 16 + (a div 2 ^ 8 mod 256) * 2 ^ 8 = a"
  proof (rule four [OF 2(1)])
    show "a div 2 ^ 16 * 256 + a div 2 ^ 8 mod 256 = a div 2 ^ 8" using 1(2) 2(2) by simp
    show "a div 2 ^ 8 * 2 ^ 8 + a mod 256 = a" using div_mult_mod_eq [of a 256] by simp
  qed
  then show "a mod 256 + a div 2 ^ 24 * 2 ^ 24 + (a div 2 ^ 16 mod 256) * 2 ^ 16 + (a div 2 ^ 8 mod 256) * 2 ^ 8 = a"
    unfolding 1(1) .
qed

lemma aton_forms_ok:
  assumes "a < 2 ^ 32" "ns \<in> set (aton_forms a)"
  shows "1 \<le> length ns \<and> length ns \<le> 4 \<and> \<not> list_ex (\<lambda>n. n > 255) (butlast ns)
    \<and> last ns < 2 ^ (8 * (5 - length ns)) \<and> last ns + lead_value 0 (butlast ns) = a"
proof -
  consider "ns = [a]" | "ns = [a div 2 ^ 24, a mod 2 ^ 24]"
    | "ns = [a div 2 ^ 24, a div 2 ^ 16 mod 256, a mod 2 ^ 16]" | "ns = octets a"
    using assms(2) by (auto simp: aton_forms_def)
  then show ?thesis
  proof cases
    case 1
    with assms(1) show ?thesis by simp
  next
    case 2
    with assms(1) show ?thesis by simp
  next
    case 3
    moreover have "a div 2 ^ 16 mod 256 < 256" by simp
    moreover note bytes_split(1) [of a]
    ultimately show ?thesis using assms(1) by simp
  next
    case 4
    have "\<not> 255 < a div 2 ^ 16 mod 256" "\<not> 255 < a div 2 ^ 8 mod 256"
      using mod_less_divisor [of 256 "a div 2 ^ 16"] mod_less_divisor [of 256 "a div 2 ^ 8"] by linarith+
    moreover note bytes_split(2) [of a]
    ultimately show ?thesis using assms(1) 4 by (simp add: octets_def)
  qed
qed

lemma all_some_map: "list_all2 (\<lambda>x y. f x = Some y) xs ys \<Longrightarrow> all_some (map f xs) = Some ys"
  by (induction rule: list_all2_induct) auto

lemma lower_id: "list_all (\<lambda>c. \<not> is_upper_chr c) s \<Longrightarrow> js_lower s = s"
  by (induction s) (auto simp: js_lower_def lower_chr_def)

definition dotted_chr :: "char \<Rightarrow> bool" where
  "dotted_chr c \<longleftrightarrow> is_hex c \<or> c = CHR ''x'' \<or> c = CHR ''.''"

lemma dotted_chr_facts:
  assumes "dotted_chr c"
  shows "\<not> is_upper_chr c" "\<not> is_space c" "c \<noteq> CHR '':''" "c \<noteq> CHR ''[''" "c \<noteq> CHR ''%''"
    "c \<notin> set ''lst''"
  using assms by (auto simp: dotted_chr_def js_chr)

lemma dotted_chr_absent:
  "\<not> dotted_chr (CHR '':'')" "\<not> dotted_chr (CHR ''%'')" "\<not> dotted_chr (CHR ''['')"
  "\<not> dotted_chr (CHR ''l'')"
  by (simp_all add: dotted_chr_def js_chr)

lemma join_all: "list_all P d \<Longrightarrow> list_all (list_all P) ps \<Longrightarrow> list_all P (js_join d ps)"
  by (induction d ps rule: js_join.induct) auto

lemma join_nonempty: "ps \<noteq> [] \<Longrightarrow> last ps \<noteq> [] \<Longrightarrow> js_join d ps \<noteq> []"
  by (induction d ps rule: js_join.induct) auto

lemma dotted_trim:
  assumes "list_all dotted_chr s"
  shows "js_lower (js_trim s) = s"
proof -
  have "js_trim s = s"
    by (rule trim_id) (use assms dotted_chr_facts in \<open>cases s; auto simp: list_all_iff\<close>)
  then show ?thesis
    using assms dotted_chr_facts by (simp add: lower_id list_all_iff)
qed

lemma spelled_address:
  assumes "list_all2 aton_spelling ps ns" "ps \<noteq> []"
  shows "list_all dotted_chr (js_join ''.'' ps)" "split_chr CHR ''.'' (js_join ''.'' ps) = ps"
    "is_digit (hd (js_join ''.'' ps))" "js_join ''.'' ps \<noteq> []" "last (js_join ''.'' ps) \<noteq> CHR ''.''"
proof -
  have each: "p \<noteq> [] \<and> list_all aton_chr p \<and> is_digit (hd p)" if "p \<in> set ps" for p
    using assms(1) that aton_spelling_chars by (metis in_set_conv_nth list_all2_conv_all_nth)
  have aton: "dotted_chr c" "c \<noteq> CHR ''.''" if "aton_chr c" for c
    using that by (auto simp: aton_chr_def dotted_chr_def js_chr)
  show "list_all dotted_chr (js_join ''.'' ps)"
    by (rule join_all) (use each aton in \<open>auto simp: list_all_iff dotted_chr_def\<close>)
  show "split_chr CHR ''.'' (js_join ''.'' ps) = ps"
    by (rule split_join) (use assms(2) each aton in \<open>auto simp: list_all_iff\<close>)
  obtain p qs where ps: "ps = p # qs" using assms(2) by (cases ps) auto
  have p: "p \<noteq> []" "is_digit (hd p)" using each [of p] ps by auto
  then show "is_digit (hd (js_join ''.'' ps))" "js_join ''.'' ps \<noteq> []"
    by (cases qs; simp add: ps)+
  have l: "last ps \<noteq> []" "last (last ps) \<noteq> CHR ''.''"
    using each [of "last ps"] aton assms(2) by (auto simp: list_all_iff)
  have "last (js_join ''.'' ps) = last (last ps)"
    using assms(2) l(1)
  proof (induction ps)
    case (Cons q qs)
    then show ?case
    proof (cases "qs = []")
      case False
      then have "js_join ''.'' qs \<noteq> []" using Cons.prems by (simp add: join_nonempty)
      with False Cons show ?thesis by (simp add: js_join_Cons)
    qed simp
  qed simp
  then show "last (js_join ''.'' ps) \<noteq> CHR ''.''" using l(2) by simp
qed

lemma parse_spelled:
  assumes "a < 2 ^ 32" "ns \<in> set (aton_forms a)" "list_all2 aton_spelling ps ns"
  shows "parseIPv4Loose (js_join ''.'' ps) = Some (octets a)"
proof -
  note f = aton_forms_ok [OF assms(1,2)]
  have len: "length ps = length ns" using assms(3) by (rule list_all2_lengthD)
  with f have ne: "ps \<noteq> []" "ns \<noteq> []" by auto
  note sp = spelled_address [OF assms(3) ne(1)]
  have "[] \<notin> set ps"
    using assms(3) aton_spelling_chars by (metis in_set_conv_nth list_all2_conv_all_nth)
  moreover have "all_some (map aton_part ps) = Some ns"
    by (rule all_some_map) (use assms(3) aton_part_spelling in \<open>auto elim: list_all2_mono\<close>)
  moreover have "list_all (\<lambda>c. is_hex c \<or> c = CHR ''x'' \<or> c = CHR ''.'') (js_join ''.'' ps)"
    using sp(1) by (simp add: dotted_chr_def list_all_iff)
  ultimately have "parseIPv4Loose (js_join ''.'' ps) =
      Some [a div 2 ^ 24 AND 255, drop_bit 16 a AND 255, drop_bit 8 a AND 255, a AND 255]"
    using f len ne unfolding parseIPv4Loose_def dotted_trim [OF sp(1)] Let_def sp(2)
    by (simp add: sp(4) not_le del: list_ex_iff)
  moreover have "a div 2 ^ 24 < 256" using assms(1) by (simp add: less_mult_imp_div_less)
  ultimately show ?thesis by (simp add: and_255 drop_bit_eq_div octets_def)
qed

lemma no_colon_isIPv6:
  assumes "CHR '':'' \<notin> set h"
  shows "\<not> isIPv6_core h"
proof -
  have "after_dcolon s = None" if "CHR '':'' \<notin> set s" for s
    using that by (induction s rule: after_dcolon.induct) auto
  then show ?thesis
    using assms by (simp add: isIPv6_core_def split_no_sep)
qed

lemma dotted_not_v6:
  assumes "list_all dotted_chr s"
  shows "parseIPv6 s = None"
proof -
  have c: "CHR '':'' \<notin> set s" "CHR ''%'' \<notin> set s" "CHR ''['' \<notin> set s"
    using assms dotted_chr_absent by (metis list_all_iff)+
  have "stripBrackets s = s" using c by (auto simp: stripBrackets_def starts_with_iff)
  moreover have "span (\<lambda>d. d \<noteq> CHR ''%'') s = (s, [])"
    unfolding span_eq prod.inject takeWhile_eq_all_conv dropWhile_eq_Nil_conv using c(2) by blast
  then have "\<not> isIPv6 s"
    using c by (simp add: isIPv6_def no_colon_isIPv6)
  ultimately show ?thesis
    using c by (simp add: parseIPv6_def dotted_trim [OF assms] split_no_sep)
qed

lemma classify_spelled:
  assumes "a < 2 ^ 32" "ns \<in> set (aton_forms a)" "list_all2 aton_spelling ps ns"
  shows "classifyHost (js_join ''.'' ps) = classifyV4 (octets a)"
proof -
  let ?s = "js_join ''.'' ps"
  have ne: "ps \<noteq> []"
    using aton_forms_ok [OF assms(1,2)] list_all2_lengthD [OF assms(3)] by auto
  note sp = spelled_address [OF assms(3) ne]
  have absent: "CHR ''['' \<notin> set ?s" "CHR ''l'' \<notin> set ?s"
    using sp(1) dotted_chr_absent by (metis list_all_iff)+
  have brackets: "stripBrackets ?s = ?s"
    using absent(1) by (auto simp: stripBrackets_def starts_with_iff)
  have dot: "strip_dot ?s = ?s"
    using sp(4,5) by (auto simp: strip_dot_def ends_with_iff)
  have names: "?s \<notin> set METADATA_HOSTS" "?s \<notin> set LOCAL_NAMES"
    using sp(3) by (auto simp: METADATA_HOSTS_def LOCAL_NAMES_def is_digit_def)
  have "\<not> ends_with ?s ''.localhost''"
    using absent(2) by (auto simp: ends_with_iff)
  with names sp(4) show ?thesis
    unfolding classifyHost_def dotted_trim [OF sp(1)] brackets dot Let_def
    by (simp add: dotted_not_v6 [OF sp(1)] parse_spelled [OF assms])
qed

lemma check_target_ok:
  "check_target parse ctx t = Inr () \<longleftrightarrow>
     classifyHost (t_host t) \<noteq> Metadata
     \<and> (isHubTarget parse (g_env ctx) t \<longrightarrow> allow_hub ctx)
     \<and> (\<not> allow_private ctx \<longrightarrow> classifyHost (t_host t) = Public)"
  by (cases "classifyHost (t_host t)") (auto simp: check_target_def)

lemma check_address_ok:
  "check_address b a = Inr () \<longleftrightarrow> classifyHost a \<noteq> Metadata \<and> (\<not> b \<longrightarrow> classifyHost a = Public)"
  by (cases "classifyHost a") (auto simp: check_address_def)

lemma source_targets_Inr:
  "assertSourceTargetsAllowed parse ctx config = Inr ts \<longleftrightarrow>
     extractTargets config = Inr ts \<and>
     (\<forall>raw \<in> set ts. \<forall>t \<in> {raw, applyDockerAlias raw}. check_target parse ctx t = Inr ())"
  by (auto simp: assertSourceTargetsAllowed_def eachR_Inr)

section \<open>Properties\<close>

text \<open>
  C21: however an IPv4 address is written in the \<open>inet_aton\<close> syntax (one to four parts, each in
  decimal, octal or hexadecimal with leading zeros), the guard classifies it by its octets.
\<close>

theorem classifyHost_any_spelling:
  assumes "a < 2 ^ 32" "ns \<in> set (aton_forms a)" "list_all2 aton_spelling ps ns"
  shows "parseIPv4Loose (js_join ''.'' ps) = Some (octets a)
    \<and> classifyHost (js_join ''.'' ps) = classifyV4 (octets a)"
  using parse_spelled [OF assms] classify_spelled [OF assms] by blast

text \<open>The metadata address 169.254.169.254 in hexadecimal with leading zeros, and in octal.\<close>

lemma metadata_hex: "aton_spelling ''0x00a9fea9fe'' 2852039166"
proof -
  have "show_base 16 2852039166 = ''a9fea9fe''" by code_simp
  with aton_spelling.hex [of 2 2852039166] show ?thesis by (simp add: numeral_2_eq_2)
qed

lemma classifyHost_any_spelling_witness:
  "parseIPv4Loose ''0x00a9fea9fe'' = Some [169, 254, 169, 254] \<and> classifyHost ''0x00a9fea9fe'' = Metadata"
proof -
  have "(2852039166 :: nat) < 2 ^ 32" "[2852039166] \<in> set (aton_forms 2852039166)"
    "list_all2 aton_spelling [''0x00a9fea9fe''] [2852039166]"
    by (simp_all add: aton_forms_def metadata_hex)
  from classifyHost_any_spelling [OF this] show ?thesis
    by (simp add: octets_def classifyV4_def)
qed

text \<open>Address blocks by their numbers: those of cloud metadata, of the machine itself, and of private networks.\<close>

definition ip4 :: "nat \<Rightarrow> nat \<Rightarrow> nat \<Rightarrow> nat \<Rightarrow> nat" where
  "ip4 a b c d = ((a * 256 + b) * 256 + c) * 256 + d"

definition in_block :: "nat \<Rightarrow> nat \<times> nat \<Rightarrow> bool" where
  "in_block a blk \<longleftrightarrow> a div 2 ^ (32 - snd blk) = fst blk div 2 ^ (32 - snd blk)"

definition metadata_blocks :: "(nat \<times> nat) list" where
  "metadata_blocks = [(ip4 169 254 0 0, 16), (ip4 100 100 100 200, 32)]"

definition loopback_blocks :: "(nat \<times> nat) list" where
  "loopback_blocks = [(ip4 127 0 0 0, 8), (ip4 0 0 0 0, 8)]"

definition private_blocks :: "(nat \<times> nat) list" where
  "private_blocks = [(ip4 10 0 0 0, 8), (ip4 172 16 0 0, 12), (ip4 192 168 0 0, 16), (ip4 100 64 0 0, 10)]"

definition spells :: "string \<Rightarrow> nat \<Rightarrow> bool" where
  "spells s a \<longleftrightarrow> a < 2 ^ 32 \<and> (\<exists>ns ps. ns \<in> set (aton_forms a) \<and> list_all2 aton_spelling ps ns \<and> s = js_join ''.'' ps)"

lemma upper_octets: "a div 2 ^ 24 = a div 2 ^ 16 div 256" "a div 2 ^ 20 = a div 2 ^ 16 div 16" "a div 2 ^ 22 = a div 2 ^ 16 div 64" for a :: nat
  by (simp_all add: div_mult2_eq [symmetric])

lemma metadata_block: "list_ex (in_block a) metadata_blocks \<Longrightarrow> classifyV4 (octets a) = Metadata"
proof -
  assume "list_ex (in_block a) metadata_blocks"
  then consider "a div 2 ^ 16 = 169 * 256 + 254" | "a = ip4 100 100 100 200" by (auto simp: metadata_blocks_def in_block_def ip4_def)
  then show ?thesis
  proof cases
    case 1
    then have "a div 2 ^ 24 = 169" "a div 2 ^ 16 mod 256 = 254" unfolding upper_octets by simp_all
    then show ?thesis by (simp add: classifyV4_def octets_def)
  next
    case 2
    then show ?thesis by (simp add: classifyV4_def octets_def ip4_def)
  qed
qed

lemma loopback_block: "list_ex (in_block a) loopback_blocks \<Longrightarrow> classifyV4 (octets a) = Loopback"
  by (auto simp: loopback_blocks_def in_block_def ip4_def classifyV4_def octets_def)

lemma private_block: "list_ex (in_block a) private_blocks \<Longrightarrow> classifyV4 (octets a) \<noteq> Public"
proof -
  assume h: "list_ex (in_block a) private_blocks"
  have block: "q div m = b \<and> b' \<le> q mod m \<and> q mod m < b' + k" if "q div k = n" "n * k = b * m + b'" "b' + k \<le> m" "0 < k" for q k n b m b' :: nat
  proof -
    have q: "q = b * m + (b' + q mod k)" "q mod k < k" using div_mult_mod_eq [of q k] that by simp_all
    then have "b' + q mod k < m" using that(3) by linarith
    then show ?thesis using q div_mult_self3 [of m b "b' + q mod k"] by (metis add.commute add_less_cancel_left div_less div_mult_self1 le_add1 mod_less mod_mult_self1 gr_implies_not0 add_0)
  qed
  define q where "q = a div 2 ^ 16"
  have "a div 2 ^ 24 = 10 \<or> a div 2 ^ 20 = 2753 \<or> a div 2 ^ 16 = 49320 \<or> a div 2 ^ 22 = 401"
    using h by (simp add: private_blocks_def in_block_def ip4_def)
  then have "a div 2 ^ 24 = 10 \<or> q div 16 = 2753 \<or> q = 49320 \<or> q div 64 = 401"
    unfolding upper_octets(2,3) q_def .
  moreover have "q div 256 = 172 \<and> 16 \<le> q mod 256 \<and> q mod 256 \<le> 31" if "q div 16 = 2753" using block [OF that, of 172 256 16] by simp
  moreover have "q div 256 = 192 \<and> q mod 256 = 168" if "q = 49320" using that by simp
  moreover have "q div 256 = 100 \<and> 64 \<le> q mod 256 \<and> q mod 256 \<le> 127" if "q div 64 = 401" using block [OF that, of 100 256 64] by simp
  ultimately have "a div 2 ^ 24 = 10 \<or> q div 256 = 172 \<and> 16 \<le> q mod 256 \<and> q mod 256 \<le> 31
      \<or> q div 256 = 192 \<and> q mod 256 = 168 \<or> q div 256 = 100 \<and> 64 \<le> q mod 256 \<and> q mod 256 \<le> 127" by blast
  then show ?thesis unfolding q_def upper_octets(1) [symmetric] by (auto simp: classifyV4_def octets_def Let_def split: if_splits)
qed

text \<open>The guard compares hosts in a canonical spelling, which is the dotted one for every spelling of an address.\<close>

lemma canonical_spelled:
  assumes "a < 2 ^ 32" "ns \<in> set (aton_forms a)" "list_all2 aton_spelling ps ns"
  shows "canonical_host (js_join ''.'' ps) = js_join ''.'' (map show_nat (octets a))"
proof -
  let ?s = "js_join ''.'' ps"
  have ne: "ps \<noteq> []" using aton_forms_ok [OF assms(1,2)] list_all2_lengthD [OF assms(3)] by auto
  note sp = spelled_address [OF assms(3) ne]
  have absent: "CHR ''['' \<notin> set ?s" using sp(1) dotted_chr_absent by (metis list_all_iff)
  have "stripBrackets ?s = ?s" using absent by (auto simp: stripBrackets_def starts_with_iff)
  moreover have "strip_dot ?s = ?s" using sp(4,5) by (auto simp: strip_dot_def ends_with_iff)
  ultimately show ?thesis
    by (simp add: canonical_host_def dotted_trim [OF sp(1)] parse_spelled [OF assms])
qed

lemma classify_dotted: "a < 2 ^ 32 \<Longrightarrow> classifyHost (js_join ''.'' (map show_nat (octets a))) = classifyV4 (octets a)"
  by (rule classify_spelled [where ns = "octets a"]) (simp_all add: aton_forms_def list_all2_map1 list_all2_refl aton_spelling.dec)

lemma add_hub_keeps: "h \<in> set (fst acc) \<Longrightarrow> h \<in> set (fst (add_hub x p acc))"
  by (cases acc) (simp add: add_hub_def)

lemma hub_host_listed: "env ''DB_HOST'' = Some h \<Longrightarrow> h \<noteq> [] \<Longrightarrow> canonical_host h \<in> set (fst (hubTargets parse env))"
proof -
  assume h: "env ''DB_HOST'' = Some h" "h \<noteq> []"
  have "canonical_host h \<in> set (fst (add_hub h p ([], [])))" for p using h(2) by (simp add: add_hub_def)
  moreover from this have "canonical_host h \<in> set (fst (add_hub x p' (add_hub h p ([], []))))" for x p p' by (rule add_hub_keeps)
  ultimately show ?thesis using h(1) unfolding hubTargets_def Let_def env_str_def by (simp split: option.splits)
qed

text \<open>The host of a configuration is one of its targets.\<close>

lemma host_is_target:
  assumes "extractTargets config = Inr ts" and "js_get ''host'' config = JStr h" and "h \<noteq> []" and "js_trim h = h"
  shows "\<lparr>t_host = h, t_port = port_of (js_get ''port'' config)\<rparr> \<in> set ts"
  using assms by (auto simp: extractTargets_def push_target_def Let_def split: if_splits)

lemma spelled_text:
  assumes "spells s a"
  shows "s \<noteq> []" "js_trim s = s" "classifyHost s = classifyV4 (octets a)" "canonical_host s = js_join ''.'' (map show_nat (octets a))"
proof -
  obtain ns ps where s: "a < 2 ^ 32" "ns \<in> set (aton_forms a)" "list_all2 aton_spelling ps ns" "s = js_join ''.'' ps"
    using assms by (auto simp: spells_def)
  have ne: "ps \<noteq> []" using aton_forms_ok [OF s(1,2)] list_all2_lengthD [OF s(3)] by auto
  note sp = spelled_address [OF s(3) ne]
  show "s \<noteq> []" using sp(4) s(4) by simp
  show "js_trim s = s" unfolding s(4) by (rule trim_id) (use sp(1) dotted_chr_facts(2) in \<open>auto simp: list_all_iff\<close>)
  show "classifyHost s = classifyV4 (octets a)" unfolding s(4) by (rule classify_spelled [OF s(1-3)])
  show "canonical_host s = js_join ''.'' (map show_nat (octets a))" unfolding s(4) by (rule canonical_spelled [OF s(1-3)])
qed

definition hub_port :: "url_parser \<Rightarrow> environment \<Rightarrow> nat option \<Rightarrow> bool" where
  "hub_port parse env p \<longleftrightarrow> of_nat (case p of Some n \<Rightarrow> n | None \<Rightarrow> 5432) \<in> set (snd (hubTargets parse env))"

text \<open>
  C8: what the guard keeps out when a target of an accepted configuration - its host, or any that is extracted from its lists
  and connection strings - is an IPv4 address in whatever spelling \<open>inet_aton\<close> reads: never a link-local or metadata
  address; with private sources disabled none of the loopback and private blocks; and unless an administrator enabled
  hub sources, at a port of the hub neither a loopback address nor the address of \<open>DB_HOST\<close>, however either is spelled,
  and not the local port that is an alias of the hub. The blocks are given by their numbers, apart from the classification.
\<close>

theorem source_address_refused:
  assumes "assertSourceTargetsAllowed parse ctx config = Inr ts"
    and "t \<in> set ts \<or> js_get ''host'' config = JStr (t_host t) \<and> t_port t = port_of (js_get ''port'' config)"
    and "spells (t_host t) a"
  shows "\<not> list_ex (in_block a) metadata_blocks
    \<and> (g_env ctx ''ALLOW_PRIVATE_SOURCES'' = Some ''false'' \<longrightarrow> \<not> list_ex (in_block a) (loopback_blocks @ private_blocks))
    \<and> (\<not> (g_admin ctx \<and> g_env ctx ''ALLOW_HUB_SOURCE'' = Some ''true'') \<longrightarrow>
         \<not> (hub_port parse (g_env ctx) (t_port t) \<and>
            (list_ex (in_block a) loopback_blocks \<or> (\<exists>h. g_env ctx ''DB_HOST'' = Some h \<and> spells h a)))
         \<and> \<not> (t_host t = ''127.0.0.1'' \<and> t_port t = Some 5434))"
proof -
  note s = spelled_text [OF assms(3)]
  have a: "a < 2 ^ 32" using assms(3) by (simp add: spells_def)
  have ts: "extractTargets config = Inr ts" "\<And>raw t. raw \<in> set ts \<Longrightarrow> t = raw \<or> t = applyDockerAlias raw \<Longrightarrow> check_target parse ctx t = Inr ()"
    using assms(1) by (auto simp: source_targets_Inr)
  have t: "t \<in> set ts" using assms(2) host_is_target [OF ts(1) _ s(1,2)] by (cases t) auto
  have ok: "classifyHost (t_host t) \<noteq> Metadata" "isHubTarget parse (g_env ctx) t \<longrightarrow> allow_hub ctx"
      "\<not> allow_private ctx \<longrightarrow> classifyHost (t_host t) = Public"
    using ts(2) [OF t, of t] by (simp_all add: check_target_ok)
  have meta: "\<not> list_ex (in_block a) metadata_blocks" using ok(1) metadata_block unfolding s(3) by blast
  have priv: "\<not> list_ex (in_block a) (loopback_blocks @ private_blocks)" if "g_env ctx ''ALLOW_PRIVATE_SOURCES'' = Some ''false''"
    using ok(3) loopback_block private_block that unfolding s(3) by (auto simp: allow_private_def)
  have hub: "isHubTarget parse (g_env ctx) t"
    if p: "hub_port parse (g_env ctx) (t_port t)" and c: "list_ex (in_block a) loopback_blocks \<or> (\<exists>h. g_env ctx ''DB_HOST'' = Some h \<and> spells h a)"
  proof -
    have "classifyHost (canonical_host (t_host t)) = Loopback \<or> canonical_host (t_host t) \<in> set (fst (hubTargets parse (g_env ctx)))"
      using c
    proof
      assume "list_ex (in_block a) loopback_blocks"
      then show ?thesis using classify_dotted [OF a] loopback_block by (simp add: s(4))
    next
      assume "\<exists>h. g_env ctx ''DB_HOST'' = Some h \<and> spells h a"
      then obtain h where h: "g_env ctx ''DB_HOST'' = Some h" "spells h a" by blast
      then show ?thesis using hub_host_listed [of "g_env ctx" h parse] h(1) spelled_text(1) [OF h(2)] spelled_text(4) [OF h(2)] by (simp add: s(4))
    qed
    then show ?thesis using p by (auto simp: isHubTarget_def hub_port_def Let_def split: prod.split)
  qed
  have docker: "allow_hub ctx" if l: "t_host t = ''127.0.0.1'' \<and> t_port t = Some 5434"
  proof -
    have "js_lower ''127.0.0.1'' = ''127.0.0.1''" by code_simp
    then have "applyDockerAlias t = \<lparr>t_host = ''datafabric-hub'', t_port = Some 5432\<rparr>" using l by (simp add: applyDockerAlias_def)
    moreover have "canonical_host ''datafabric-hub'' = ''datafabric-hub''" by code_simp
    ultimately have "isHubTarget parse (g_env ctx) (applyDockerAlias t)"
      by (simp add: isHubTarget_def HUB_ALIASES_def split: prod.split)
    then show ?thesis using ts(2) [OF t, of "applyDockerAlias t"] by (simp add: check_target_ok)
  qed
  show ?thesis using meta priv hub ok(2) docker unfolding allow_hub_def by blast
qed

definition plain_ctx :: guard_ctx where
  "plain_ctx = \<lparr>g_admin = False, g_env = (\<lambda>_. None)\<rparr>"

lemma source_address_refused_witness:
  "assertSourceTargetsAllowed (\<lambda>_. None) plain_ctx (JObj [(''host'', JStr ''0x7f000001''), (''port'', JNum 5433)])
     = Inr [\<lparr>t_host = ''0x7f000001'', t_port = Some 5433\<rparr>]
   \<and> spells ''0x7f000001'' 2130706433 \<and> \<not> hub_port (\<lambda>_. None) (g_env plain_ctx) (Some 5433)
   \<and> \<not> list_ex (in_block 2130706433) metadata_blocks"
proof -
  let ?t = "\<lparr>t_host = ''0x7f000001'', t_port = Some 5433\<rparr>"
  have ok: "assertSourceTargetsAllowed (\<lambda>_. None) plain_ctx (JObj [(''host'', JStr ''0x7f000001''), (''port'', JNum 5433)]) = Inr [?t]"
    unfolding plain_ctx_def by code_simp
  have "show_base 16 2130706433 = ''7f000001''" by code_simp
  then have "list_all2 aton_spelling [''0x7f000001''] [2130706433]" using aton_spelling.hex [of 0 2130706433] by simp
  then have sp: "spells ''0x7f000001'' 2130706433"
    unfolding spells_def by (intro conjI exI [of _ "[2130706433]"] exI [of _ "[''0x7f000001'']"]) (simp_all add: aton_forms_def)
  have "list_ex (in_block 2130706433) loopback_blocks" by code_simp
  with source_address_refused [OF ok, of ?t 2130706433] ok sp show ?thesis by (simp add: plain_ctx_def)
qed

text \<open>
  No spelling of a link-local or metadata address gets past the source check through the
  \<open>host\<close> of a configuration, whatever else the configuration holds and whoever asks.
\<close>

lemma metadata_spelling_refused:
  assumes "a < 2 ^ 32" "ns \<in> set (aton_forms a)" "list_all2 aton_spelling ps ns"
    and "classifyV4 (octets a) = Metadata" "js_get ''host'' config = JStr (js_join ''.'' ps)"
  shows "\<not> isOk (assertSourceTargetsAllowed parse ctx config)"
proof
  let ?h = "js_join ''.'' ps"
  assume "isOk (assertSourceTargetsAllowed parse ctx config)"
  then obtain ts where ok: "assertSourceTargetsAllowed parse ctx config = Inr ts" by (auto simp: isOk_iff)
  have ne: "ps \<noteq> []"
    using aton_forms_ok [OF assms(1,2)] list_all2_lengthD [OF assms(3)] by auto
  note sp = spelled_address [OF assms(3) ne]
  have "js_trim ?h = ?h"
    by (rule trim_id) (use sp(1) dotted_chr_facts(2) in \<open>auto simp: list_all_iff\<close>)
  with sp(4) have "\<exists>t \<in> set ts. t_host t = ?h"
    using ok assms(5)
    by (auto simp: source_targets_Inr extractTargets_def push_target_def Let_def split: if_splits)
  then obtain t where "t \<in> set ts" "t_host t = ?h" by blast
  with ok have "classifyHost ?h \<noteq> Metadata"
    by (auto simp: source_targets_Inr check_target_ok)
  with classify_spelled [OF assms(1-3)] assms(4) show False by simp
qed

lemma metadata_spelling_refused_witness:
  "\<not> isOk (assertSourceTargetsAllowed (\<lambda>_. None) plain_ctx (JObj [(''host'', JStr ''0x00a9fea9fe'')]))"
proof -
  have "(2852039166 :: nat) < 2 ^ 32" "[2852039166] \<in> set (aton_forms 2852039166)"
    "list_all2 aton_spelling [''0x00a9fea9fe''] [2852039166]"
    "classifyV4 (octets 2852039166) = Metadata"
    "js_get ''host'' (JObj [(''host'', JStr ''0x00a9fea9fe'')]) = JStr (js_join ''.'' [''0x00a9fea9fe''])"
    by (simp_all add: aton_forms_def metadata_hex octets_def classifyV4_def js_get_def)
  from metadata_spelling_refused [OF this] show ?thesis .
qed

text \<open>
  After \<open>assertSourceAllowed\<close> has accepted a configuration, no name in it resolves to a
  metadata address, none to a loopback or private one where those are disabled, and none
  that shares an address with the hub host points at a hub port.
\<close>

lemma assertSourceAllowed_resolved:
  assumes "assertSourceAllowed parse ctx resolve config = Inr ()" "extractTargets config = Inr ts" "t \<in> set ts"
    and "\<not> isIP (stripBrackets (t_host t))" "parseIPv4Loose (t_host t) = None" "resolve (t_host t) = Some addrs"
  shows "(\<forall>a \<in> set addrs. classifyHost a \<noteq> Metadata \<and> (\<not> allow_private ctx \<longrightarrow> classifyHost a = Public))
    \<and> (\<not> allow_hub ctx \<longrightarrow> hub_host parse (g_env ctx) \<noteq> [] \<longrightarrow> t_port t \<noteq> None \<longrightarrow>
         isHubTarget parse (g_env ctx) \<lparr>t_host = hub_host parse (g_env ctx), t_port = t_port t\<rparr> \<longrightarrow>
         (\<forall>hs. resolve (hub_host parse (g_env ctx)) = Some hs \<longrightarrow> set addrs \<inter> set hs = {}))"
proof -
  have "check_resolved parse ctx resolve t = Inr ()"
    using assms(1-3) by (auto simp: assertSourceAllowed_def source_targets_Inr eachR_Inr)
  then show ?thesis
    using assms(4-6)
    by (auto simp: check_resolved_def eachR_Inr check_address_ok Let_def list_ex_iff split: if_splits option.splits)
qed

lemma assertSourceAllowed_resolved_witness:
  "classifyHost ''93.184.216.34'' \<noteq> Metadata"
proof -
  let ?r = "\<lambda>_ :: string. Some [''93.184.216.34'']"
  let ?c = "JObj [(''host'', JStr ''example.com'')]"
  let ?t = "\<lparr>t_host = ''example.com'', t_port = None\<rparr>"
  have e: "extractTargets ?c = Inr [?t]" by code_simp
  have i: "\<not> isIP (stripBrackets (t_host ?t))" "parseIPv4Loose (t_host ?t) = None" by code_simp+
  have "assertSourceAllowed (\<lambda>_. None) plain_ctx ?r ?c = Inr ()"
    unfolding plain_ctx_def by code_simp
  from assertSourceAllowed_resolved [OF this e _ i, of "[''93.184.216.34'']"] show ?thesis by simp
qed

text \<open>
  A webhook URL that the check accepts is an http or https URL without credentials whose
  host is no metadata address, and, unless private webhooks are enabled, is public and is
  neither a hub alias nor the hub host.
\<close>

lemma assertSafeWebhookUrl_accepts:
  assumes "assertSafeWebhookUrl parse env v = Inr href"
  shows "\<exists>raw u. v = JStr raw \<and> parse (js_trim raw) = Some u \<and> href = u_href u
    \<and> u_protocol u \<in> {''http:'', ''https:''} \<and> u_username u = [] \<and> u_password u = []
    \<and> classifyHost (strip_dot (stripBrackets (u_hostname u))) \<noteq> Metadata
    \<and> (env ''ALLOW_PRIVATE_WEBHOOKS'' \<noteq> Some ''true'' \<longrightarrow>
         classifyHost (strip_dot (stripBrackets (u_hostname u))) = Public
         \<and> js_lower (strip_dot (stripBrackets (u_hostname u))) \<notin> set HUB_ALIASES
         \<and> js_lower (strip_dot (stripBrackets (u_hostname u))) \<notin> set (fst (hubTargets parse env)))"
proof -
  obtain raw where v: "v = JStr raw"
    using assms by (cases v) (auto simp: assertSafeWebhookUrl_def)
  obtain u where u: "parse (js_trim raw) = Some u"
    using assms by (auto simp: v assertSafeWebhookUrl_def split: if_splits option.splits)
  show ?thesis
    using assms u
    by (cases "classifyHost (strip_dot (stripBrackets (u_hostname u)))")
       (auto simp: v assertSafeWebhookUrl_def Let_def split: if_splits)
qed

definition hook_url :: url where
  "hook_url = \<lparr>u_protocol = ''https:'', u_username = [], u_password = [], u_hostname = ''hooks.example.com'',
               u_port = [], u_href = ''https://hooks.example.com/''\<rparr>"

lemma assertSafeWebhookUrl_accepts_witness:
  "classifyHost (strip_dot (stripBrackets ''hooks.example.com'')) \<noteq> Metadata"
proof -
  have "assertSafeWebhookUrl (\<lambda>_. Some hook_url) (\<lambda>_. None) (JStr ''https://hooks.example.com/'')
      = Inr ''https://hooks.example.com/''"
    by code_simp
  from assertSafeWebhookUrl_accepts [OF this] show ?thesis by (auto simp: hook_url_def)
qed

end
