(* ===== verification/SqlGuard.thy ===== *)
theory SqlGuard
  imports Identifiers
begin

text \<open>
  \<open>utils/sqlGuard.ts\<close>: the guard every SQL fragment written by a caller passes before it is
  spliced into a statement. The tokenizer and the token loop are the code's; the fragment is
  rejected with status 400 and code \<open>INVALID_SQL_FRAGMENT\<close>.
\<close>

section \<open>Word lists\<close>

definition sqlGuardError :: js_err where
  "sqlGuardError = Err 400 ''INVALID_SQL_FRAGMENT''"

definition FUNCTIONS :: "string list" where
  "FUNCTIONS =
    [''count'', ''sum'', ''avg'', ''min'', ''max'', ''stddev'', ''variance'', ''array_agg'',
     ''string_agg'', ''bool_and'', ''bool_or'', ''row_number'', ''rank'', ''dense_rank'',
     ''percent_rank'', ''cume_dist'', ''ntile'', ''lag'', ''lead'', ''first_value'',
     ''last_value'', ''nth_value'', ''coalesce'', ''nullif'', ''greatest'', ''least'',
     ''lower'', ''upper'', ''length'', ''char_length'', ''trim'', ''ltrim'', ''rtrim'',
     ''btrim'', ''substr'', ''substring'', ''concat'', ''concat_ws'', ''replace'', ''left'',
     ''right'', ''abs'', ''round'', ''ceil'', ''ceiling'', ''floor'', ''power'', ''sqrt'',
     ''mod'', ''sign'', ''date_trunc'', ''date_part'', ''to_char'', ''to_date'',
     ''to_timestamp'', ''now'', ''age'', ''cast'', ''extract'', ''initcap'', ''md5'',
     ''varchar'', ''char'', ''character'', ''numeric'', ''decimal'']"

definition KEYWORDS :: "string list" where
  "KEYWORDS =
    [''and'', ''or'', ''not'', ''is'', ''null'', ''in'', ''like'', ''ilike'', ''between'',
     ''as'', ''asc'', ''desc'', ''distinct'', ''case'', ''when'', ''then'', ''else'', ''end'',
     ''true'', ''false'', ''over'', ''partition'', ''by'', ''order'', ''rows'', ''range'',
     ''unbounded'', ''preceding'', ''following'', ''current'', ''row'', ''nulls'', ''first'',
     ''last'', ''filter'']"

definition STATEMENT_WORDS :: "string list" where
  "STATEMENT_WORDS =
    [''select'', ''from'', ''where'', ''union'', ''intersect'', ''except'', ''join'', ''inner'',
     ''outer'', ''cross'', ''lateral'', ''using'', ''on'', ''group'', ''having'', ''limit'',
     ''offset'', ''fetch'', ''with'', ''recursive'', ''all'', ''any'', ''some'', ''exists'',
     ''values'']"

definition ALWAYS_BLOCKED :: "string list" where
  "ALWAYS_BLOCKED =
    [''insert'', ''update'', ''delete'', ''drop'', ''alter'', ''create'', ''truncate'',
     ''grant'', ''revoke'', ''call'', ''execute'', ''exec'', ''copy'', ''set'', ''reset'',
     ''into'', ''returning'', ''do'', ''begin'', ''commit'', ''rollback'', ''savepoint'',
     ''vacuum'', ''analyze'', ''analyse'', ''listen'', ''notify'', ''unlisten'', ''prepare'',
     ''deallocate'', ''declare'', ''move'', ''lock'', ''comment'', ''security'', ''load'',
     ''refresh'', ''reindex'', ''cluster'', ''discard'', ''import'', ''abort'', ''checkpoint'',
     ''explain'', ''show'', ''language'', ''function'', ''procedure'', ''trigger'',
     ''extension'', ''owner'', ''role'', ''user'', ''session_user'', ''current_user'',
     ''pg_sleep'']"

definition QUERY_KEYWORDS :: "string list" where
  "QUERY_KEYWORDS =
    [''select'', ''from'', ''where'', ''union'', ''intersect'', ''except'', ''join'', ''inner'',
     ''outer'', ''left'', ''right'', ''full'', ''cross'', ''using'', ''on'', ''group'',
     ''having'', ''limit'', ''offset'', ''with'', ''recursive'', ''all'', ''distinct'']"

text \<open>The case-insensitive pattern \<open>SYSTEM_QUALIFIERS\<close>.\<close>

definition SYSTEM_QUALIFIERS :: "string \<Rightarrow> bool" where
  "SYSTEM_QUALIFIERS s =
     (let w = js_lower s in
      w \<in> set [''public'', ''information_schema'', ''metadata_catalog'', ''admin_functions'', ''auth'', ''cron'']
      \<or> list_ex (\<lambda>p. starts_with w p \<and> list_all is_word_chr (drop (length p) w)) [''pg_'', ''fabric_'', ''citus''])"

text \<open>\<open>FORBIDDEN_RAW = /;|--|\/\*|\*\/|\\|\$|`|\u0000/\<close>.\<close>

fun FORBIDDEN_RAW :: "string \<Rightarrow> bool" where
  "FORBIDDEN_RAW [] = False"
| "FORBIDDEN_RAW (c # s) =
     (c \<in> {CHR '';'', bslash, CHR ''$'', CHR 0x60, CHR 0x00}
      \<or> starts_with (c # s) ''--'' \<or> starts_with (c # s) ''/*'' \<or> starts_with (c # s) ''*/''
      \<or> FORBIDDEN_RAW s)"

section \<open>Tokens\<close>

datatype tkind = KStr | KQid | KNum | KWord | KOp | KPunct

type_synonym token = "tkind \<times> string"

definition squote_chr :: char where
  "squote_chr = CHR 0x27"

definition is_qid_chr :: "char \<Rightarrow> bool" where
  "is_qid_chr c \<longleftrightarrow> is_word_chr c \<or> c = CHR '' '' \<or> c = CHR ''.'' \<or> c = CHR ''-''"

definition TWO_OPS :: "string list" where
  "TWO_OPS = [''<='', ''>='', ''<>'', ''!='', ''||'']"

definition ONE_OPS :: string where
  "ONE_OPS = ''=<>+-*/%''"

definition PUNCTS :: string where
  "PUNCTS = ''(),.''"

definition next_op :: "string \<Rightarrow> (token option \<times> string) option" where
  "next_op s = (case s of
     [] \<Rightarrow> None
   | c # t \<Rightarrow>
       if take 2 s \<in> set TWO_OPS then Some (Some (KOp, take 2 s), drop 2 s)
       else if c \<in> set ONE_OPS then Some (Some (KOp, [c]), t)
       else if c \<in> set PUNCTS then Some (Some (KPunct, [c]), t)
       else None)"

text \<open>
  One match of \<open>TOKEN_RE\<close> at the head of the text: \<open>None\<close> when no alternative matches,
  otherwise the token (none for white space) and the rest.
\<close>

definition next_token :: "string \<Rightarrow> (token option \<times> string) option" where
  "next_token s = (case s of
     [] \<Rightarrow> None
   | c # t \<Rightarrow>
       if is_space c then Some (None, dropWhile is_space s)
       else if c = squote_chr then
         (case span (\<lambda>d. d \<noteq> squote_chr \<and> d \<noteq> bslash \<and> d \<noteq> CHR 0x00) t of (body, rest) \<Rightarrow>
            if rest \<noteq> [] \<and> hd rest = squote_chr then Some (Some (KStr, c # body @ [squote_chr]), tl rest) else None)
       else if c = dquote then
         (case span is_qid_chr t of (body, rest) \<Rightarrow>
            if 1 \<le> length body \<and> length body \<le> 128 \<and> rest \<noteq> [] \<and> hd rest = dquote
            then Some (Some (KQid, c # body @ [dquote]), tl rest) else None)
       else if is_digit c then
         (case span is_digit s of (ds, rest) \<Rightarrow>
            (case (if starts_with rest ''.'' then span is_digit (tl rest) else ([], [])) of (fs, rest') \<Rightarrow>
               if fs = [] then Some (Some (KNum, ds), rest) else Some (Some (KNum, ds @ ''.'' @ fs), rest')))
       else if is_ident_start c then
         (case span is_word_chr s of (w, rest) \<Rightarrow> Some (Some (KWord, w), rest))
       else next_op s)"

lemma next_op_text: "next_op s = Some (t, r) \<Longrightarrow> \<exists>k x. t = Some (k, x) \<and> x \<noteq> [] \<and> s = x @ r"
proof -
  assume n: "next_op s = Some (t, r)"
  then obtain c u where s: "s = c # u" by (cases s) (auto simp: next_op_def)
  then have p: "take 2 s \<noteq> []" by simp
  show ?thesis
  proof (cases "take 2 s \<in> set TWO_OPS")
    case True
    with n p s show ?thesis
      by (auto simp: next_op_def simp del: take_Cons_numeral drop_Cons_numeral take_eq_Nil)
  next
    case False
    with n show ?thesis
      unfolding s by (auto simp: next_op_def simp del: take_Cons_numeral drop_Cons_numeral split: if_splits)
  qed
qed

lemma next_token_shorter:
  assumes "next_token s = Some (t, r)"
  shows "length r < length s"
proof -
  obtain c u where s: "s = c # u" using assms by (cases s) (auto simp: next_token_def)
  have dw: "length (dropWhile P u) \<le> length u" for P by (rule length_dropWhile_le)
  have tl_dw: "length (tl (dropWhile P u)) \<le> length u" for P
    using dw [of P] by (simp add: le_trans [OF diff_le_self])
  have frac: "length (dropWhile P (tl (dropWhile Q u))) \<le> length u" for P Q
    using order_trans [OF length_dropWhile_le tl_dw] .
  have op: "length r < length s" if "next_op s = Some (t, r)"
    using next_op_text [OF that] by auto
  show ?thesis
    using assms dw tl_dw frac op unfolding s
    by (auto simp: next_token_def span_eq Let_def less_Suc_eq_le dest: ident_start_word split: if_splits prod.splits)
qed

function tokenize :: "string \<Rightarrow> token list res" where
  "tokenize s =
     (if s = [] then Inr []
      else (case next_token s of
          None \<Rightarrow> Inl sqlGuardError
        | Some (t, rest) \<Rightarrow>
            mapR (\<lambda>ts. case t of Some tok \<Rightarrow> tok # ts | None \<Rightarrow> ts) (tokenize rest)))"
  by pat_completeness auto
termination
  by (relation "measure length") (auto dest: next_token_shorter)

declare tokenize.simps [simp del]

section \<open>The guard\<close>

record guard_opts =
  go_query :: bool
  go_tenant :: "string option"
  go_max :: nat

definition expr_opts :: "string option \<Rightarrow> guard_opts" where
  "expr_opts tenantId = \<lparr>go_query = False, go_tenant = tenantId, go_max = 500\<rparr>"

definition is_punct :: "string \<Rightarrow> token option \<Rightarrow> bool" where
  "is_punct p t \<longleftrightarrow> t = Some (KPunct, p)"

definition foreign_qualifier :: "guard_opts \<Rightarrow> string \<Rightarrow> bool" where
  "foreign_qualifier opts w \<longleftrightarrow> SYSTEM_QUALIFIERS w
     \<or> (starts_with (js_lower w) ''tenant_''
        \<and> \<not> (case go_tenant opts of Some t \<Rightarrow> t \<noteq> [] \<and> belongsToTenant w t | None \<Rightarrow> False))"

text \<open>The checks on one word token, given the tokens before and after it.\<close>

definition word_allowed :: "guard_opts \<Rightarrow> token option \<Rightarrow> string \<Rightarrow> token option \<Rightarrow> bool" where
  "word_allowed opts prev text next =
     (let w = js_lower text;
          isCall = is_punct ''('' next;
          qualifies = is_punct ''.'' next;
          afterDot = is_punct ''.'' prev
      in if w \<in> set ALWAYS_BLOCKED \<and> \<not> afterDot then False
         else if qualifies \<and> \<not> afterDot \<and> foreign_qualifier opts text then False
         else if afterDot then True
         else if isCall then
           w \<in> set KEYWORDS \<or> (go_query opts \<and> w \<in> set QUERY_KEYWORDS) \<or> w \<in> set FUNCTIONS
         else go_query opts \<or> w \<notin> set STATEMENT_WORDS)"

definition token_allowed :: "guard_opts \<Rightarrow> token option \<Rightarrow> token \<Rightarrow> token option \<Rightarrow> bool" where
  "token_allowed opts prev t next = (case t of
     (KQid, _) \<Rightarrow> \<not> is_punct ''('' next
   | (KWord, w) \<Rightarrow> word_allowed opts prev w next
   | _ \<Rightarrow> True)"

fun head_opt :: "'a list \<Rightarrow> 'a option" where
  "head_opt [] = None"
| "head_opt (x # _) = Some x"

fun guard_loop :: "guard_opts \<Rightarrow> token option \<Rightarrow> int \<Rightarrow> token list \<Rightarrow> unit res" where
  "guard_loop opts prev depth [] = (if depth = 0 then Inr () else Inl sqlGuardError)"
| "guard_loop opts prev depth (t # ts) =
     (if t = (KPunct, ''('') then
        (if depth + 1 > 12 then Inl sqlGuardError else guard_loop opts (Some t) (depth + 1) ts)
      else if t = (KPunct, '')'') then
        (if depth - 1 < 0 then Inl sqlGuardError else guard_loop opts (Some t) (depth - 1) ts)
      else if token_allowed opts prev t (head_opt ts) then guard_loop opts (Some t) depth ts
      else Inl sqlGuardError)"

definition starts_select :: "token list \<Rightarrow> bool" where
  "starts_select toks = (case toks of
     (KWord, w) # _ \<Rightarrow> js_lower w = ''select'' \<or> js_lower w = ''with''
   | _ \<Rightarrow> False)"

definition assertSafeExpression :: "guard_opts \<Rightarrow> jsval \<Rightarrow> string res" where
  "assertSafeExpression opts expr = (case expr of
     JStr e \<Rightarrow>
       (let src = js_trim e in
        if src = [] \<or> length src > go_max opts \<or> FORBIDDEN_RAW src then Inl sqlGuardError
        else bindR (tokenize src) (\<lambda>toks.
          if length toks > (if go_query opts then 2000 else 200) then Inl sqlGuardError
          else if go_query opts \<and> \<not> starts_select toks then Inl sqlGuardError
          else mapR (\<lambda>_. src) (guard_loop opts None 0 toks)))
   | _ \<Rightarrow> Inl sqlGuardError)"

definition assertSafeSelectQuery :: "jsval \<Rightarrow> string \<Rightarrow> string res" where
  "assertSafeSelectQuery sql tenantId =
     assertSafeExpression \<lparr>go_query = True, go_tenant = Some tenantId, go_max = 20000\<rparr> sql"

section \<open>Names and numbers\<close>

definition STRICT_PART :: "string \<Rightarrow> bool" where
  "STRICT_PART p \<longleftrightarrow> p \<noteq> [] \<and> is_ident_start (hd p) \<and> list_all is_word_chr (tl p)"

definition RELAXED_NAME :: "string \<Rightarrow> bool" where
  "RELAXED_NAME s \<longleftrightarrow> s \<noteq> [] \<and> (is_word_chr (hd s) \<or> hd s = CHR ''$'') \<and> length s \<le> 128
     \<and> list_all (\<lambda>c. is_word_chr c \<or> c \<in> set ''$ -'') (tl s)"

definition isDottedIdent :: "string \<Rightarrow> bool" where
  "isDottedIdent v =
     (if v = ''*'' then True
      else if length v > 200 then False
      else let parts = split_chr CHR ''.'' v in
        length parts \<le> 3 \<and>
        list_all (\<lambda>(p, i). (STRICT_PART p \<and> length p \<le> 63)
                         \<or> (p = ''*'' \<and> i = length parts - 1 \<and> length parts > 1))
          (zip parts [0..<length parts]))"

definition quoteDotted :: "jsval \<Rightarrow> string res" where
  "quoteDotted v = (case v of
     JStr s \<Rightarrow>
       if \<not> isDottedIdent s then Inl sqlGuardError
       else if s = ''*'' then Inr ''*''
       else mapR (js_join ''.'')
         (mapMR (\<lambda>p. if p = ''*'' then Inr ''*'' else quoteIdent (JStr p)) (split_chr CHR ''.'' s))
   | _ \<Rightarrow> Inl sqlGuardError)"

definition assertSafeName :: "jsval \<Rightarrow> string res" where
  "assertSafeName v = (case v of
     JStr s \<Rightarrow> if s = ''*'' \<or> isDottedIdent s \<or> RELAXED_NAME s then Inr s else Inl sqlGuardError
   | _ \<Rightarrow> Inl sqlGuardError)"

definition fieldToSql :: "string option \<Rightarrow> jsval \<Rightarrow> string res" where
  "fieldToSql tenantId v = (case v of
     JStr s \<Rightarrow> if s = ''*'' \<or> isDottedIdent s then quoteDotted v
               else assertSafeExpression (expr_opts tenantId) v
   | _ \<Rightarrow> Inl sqlGuardError)"

definition int_text :: "string \<Rightarrow> bool" where
  "int_text s = (let t = js_trim s; d = (if starts_with t ''-'' then tl t else t)
                 in 1 \<le> length d \<and> length d \<le> 12 \<and> list_all is_digit d)"

definition safeInt :: "int \<Rightarrow> int \<Rightarrow> jsval \<Rightarrow> int res" where
  "safeInt mn mx v =
     (let n = (case v of JStr s \<Rightarrow> if int_text s then num_or_nan (js_number v) else v | _ \<Rightarrow> v)
      in case n of
           JNum q \<Rightarrow> if is_int_rat q \<and> of_int mn \<le> q \<and> q \<le> of_int mx then Inr \<lfloor>q\<rfloor> else Inl sqlGuardError
         | _ \<Rightarrow> Inl sqlGuardError)"

section \<open>Structural validation of a query\<close>

definition AST_OPERATORS :: "string list" where
  "AST_OPERATORS =
    [''EQ'', ''NE'', ''GT'', ''LT'', ''GTE'', ''LTE'', ''LIKE'', ''ILIKE'', ''IN'', ''NIN'',
     ''NOT_IN'', ''IS_NULL'', ''IS_NOT_NULL'', ''MATCH'', ''CONTAINS'', ''='', ''!='', ''<>'',
     ''>'', ''<'', ''>='', ''<='']"

definition AGGREGATES :: "string list" where
  "AGGREGATES =
    [''COUNT'', ''SUM'', ''AVG'', ''MIN'', ''MAX'', ''STDDEV'', ''VARIANCE'', ''ARRAY_AGG'',
     ''BOOL_AND'', ''BOOL_OR'', ''COUNT_DISTINCT'']"

definition WINDOW_FNS :: "string list" where
  "WINDOW_FNS =
    [''ROW_NUMBER'', ''RANK'', ''DENSE_RANK'', ''PERCENT_RANK'', ''CUME_DIST'', ''NTILE'',
     ''LAG'', ''LEAD'', ''FIRST_VALUE'', ''LAST_VALUE'', ''SUM'', ''AVG'', ''MIN'', ''MAX'',
     ''COUNT'']"

definition void :: "'a res \<Rightarrow> unit res" where
  "void r = mapR (\<lambda>_. ()) r"

definition seqR :: "unit res list \<Rightarrow> unit res" where
  "seqR rs = eachR (\<lambda>r. r) rs"

definition requireR :: "bool \<Rightarrow> unit res" where
  "requireR b = unlessR b sqlGuardError"

text \<open>\<open>x != null\<close> for a field, with the check to run when it is present.\<close>

definition if_set :: "string \<Rightarrow> (jsval \<Rightarrow> unit res) \<Rightarrow> jsval \<Rightarrow> unit res" where
  "if_set k check o' = (if nullish (js_get k o') then Inr () else check (js_get k o'))"

definition each_in :: "string \<Rightarrow> (jsval \<Rightarrow> unit res) \<Rightarrow> jsval \<Rightarrow> unit res" where
  "each_in k check o' = (if is_arr (js_get k o') then eachR check (arr_of (js_get k o')) else Inr ())"

definition safe_name :: "jsval \<Rightarrow> unit res" where
  "safe_name v = void (assertSafeName v)"

definition safe_field :: "string option \<Rightarrow> jsval \<Rightarrow> unit res" where
  "safe_field T v = void (fieldToSql T v)"

definition safe_expr :: "string option \<Rightarrow> jsval \<Rightarrow> unit res" where
  "safe_expr T v = void (assertSafeExpression (expr_opts T) v)"

definition in_upper :: "string list \<Rightarrow> jsval \<Rightarrow> unit res" where
  "in_upper xs v = requireR (js_upper (js_string v) \<in> set xs)"

definition join_type :: "jsval \<Rightarrow> unit res" where
  "join_type v = requireR
     (let u = js_upper (js_string v);
          base = (if ends_with u '' OUTER'' then take (length u - 6) u else u)
      in base \<in> set [''INNER'', ''LEFT'', ''RIGHT'', ''FULL'', ''CROSS''])"

definition sort_dir :: "jsval \<Rightarrow> unit res" where
  "sort_dir d = (if nullish d then Inr () else requireR (js_upper (js_string d) \<in> set [''ASC'', ''DESC'']))"

definition no_nul :: "jsval \<Rightarrow> bool" where
  "no_nul v = (case v of JStr s \<Rightarrow> CHR 0x00 \<notin> set s | _ \<Rightarrow> True)"

definition order_entry :: "string option \<Rightarrow> jsval \<Rightarrow> unit res" where
  "order_entry T e = seqR [safe_field T (js_get ''column'' e), sort_dir (js_get ''direction'' e)]"

definition select_entry :: "string option \<Rightarrow> jsval \<Rightarrow> unit res" where
  "select_entry T c =
     (if is_str c then safe_field T c
      else if \<not> is_obj c then Inl sqlGuardError
      else seqR [
        if_set ''alias'' safe_name c,
        if_set ''expression'' (safe_expr T) c,
        if_set ''aggregate'' (in_upper AGGREGATES) c,
        if_set ''window'' (in_upper WINDOW_FNS) c,
        if_set ''column'' (safe_field T) c,
        each_in ''partitionBy'' (safe_field T) c,
        each_in ''orderBy'' (order_entry T) c])"

definition where_entry :: "string option \<Rightarrow> jsval \<Rightarrow> unit res" where
  "where_entry T w =
     (if \<not> is_obj w then Inl sqlGuardError
      else if \<not> nullish (js_get ''expression'' w) then safe_expr T (js_get ''expression'' w)
      else if \<not> nullish (js_get ''search'' w) then
        (let s = js_get ''search'' w in
         if \<not> is_obj s then Inl sqlGuardError
         else seqR [safe_field T (js_get ''column'' s),
                    requireR (is_str (js_get ''query'' s) \<and> no_nul (js_get ''query'' s))])
      else seqR [safe_field T (js_get ''column'' w),
                 if_set ''operator'' (in_upper AST_OPERATORS) w,
                 requireR (no_nul (js_get ''value'' w))])"

definition join_on :: "string option \<Rightarrow> jsval \<Rightarrow> unit res" where
  "join_on T on =
     (if is_obj on then seqR [safe_field T (js_get ''left'' on), safe_field T (js_get ''right'' on),
                              if_set ''operator'' (in_upper AST_OPERATORS) on]
      else if is_str on then safe_expr T on
      else Inr ())"

definition having_entry :: "jsval \<Rightarrow> unit res" where
  "having_entry h = (if is_obj h then safe_name (js_get ''column'' h) else Inl sqlGuardError)"

definition LIST_CLAUSES :: "string list" where
  "LIST_CLAUSES = [''select'', ''where'', ''joins'', ''groupBy'', ''orderBy'', ''having'', ''union'', ''intersect'',
     ''except'', ''with'']"

text \<open>
  The recursion of the code is bounded by its \<open>depth > 12\<close> check. The first argument is the
  number of levels left, \<open>13 - depth\<close>: at zero the object is refused.
\<close>

definition ref_check :: "(jsval \<Rightarrow> unit res) \<Rightarrow> jsval \<Rightarrow> unit res" where
  "ref_check validate r =
     (if \<not> is_obj r then Inl sqlGuardError
      else seqR [
        (if truthy (js_get ''query'' r) then validate (js_get ''query'' r) else safe_name (js_get ''resource'' r)),
        if_set ''source'' safe_name r,
        if_set ''alias'' safe_name r])"

definition join_check :: "(jsval \<Rightarrow> unit res) \<Rightarrow> string option \<Rightarrow> jsval \<Rightarrow> unit res" where
  "join_check validate T j =
     seqR [ref_check validate j, if_set ''type'' join_type j, join_on T (js_get ''on'' j)]"

definition cte_check :: "(jsval \<Rightarrow> unit res) \<Rightarrow> jsval \<Rightarrow> unit res" where
  "cte_check validate c =
     (if \<not> is_obj c then Inl sqlGuardError
      else seqR [
        void (assertIdent (js_get ''name'' c)),
        if_set ''columns'' (\<lambda>cs. if is_arr cs then eachR (\<lambda>x. void (assertIdent x)) (arr_of cs)
                                 else Inl sqlGuardError) c,
        validate (js_get ''base'' c),
        (if truthy (js_get ''unionAll'' c) then validate (js_get ''unionAll'' c) else Inr ())])"

definition recursive_check :: "jsval \<Rightarrow> unit res" where
  "recursive_check r =
     (if is_obj r then seqR [if_set ''resource'' safe_name r, if_set ''source'' safe_name r]
      else Inl sqlGuardError)"

primrec validateAst :: "nat \<Rightarrow> string option \<Rightarrow> jsval \<Rightarrow> unit res" where
  "validateAst 0 T ast = Inl sqlGuardError"
| "validateAst (Suc n) T ast =
     (if \<not> is_obj ast then Inl sqlGuardError
      else seqR [
          eachR (\<lambda>k. if_set k (\<lambda>v. requireR (is_arr v)) ast) LIST_CLAUSES,
          (if truthy (js_get ''from'' ast) then ref_check (validateAst n T) (js_get ''from'' ast) else Inr ()),
          each_in ''joins'' (join_check (validateAst n T) T) ast,
          each_in ''select'' (select_entry T) ast,
          each_in ''where'' (where_entry T) ast,
          each_in ''groupBy'' (safe_field T) ast,
          each_in ''orderBy'' (order_entry T) ast,
          each_in ''having'' having_entry ast,
          if_set ''limit'' (\<lambda>v. void (safeInt 0 1000000000 v)) ast,
          if_set ''offset'' (\<lambda>v. void (safeInt 0 1000000000 v)) ast,
          each_in ''union'' (validateAst n T) ast,
          each_in ''intersect'' (validateAst n T) ast,
          each_in ''except'' (validateAst n T) ast,
          each_in ''with'' (cte_check (validateAst n T)) ast,
          if_set ''recursive'' recursive_check ast])"

text \<open>\<open>escapeAstLiterals\<close>.\<close>

definition double_single :: "string \<Rightarrow> string" where
  "double_single = replace_chrs (\<lambda>c. c = squote_chr) (\<lambda>_. [squote_chr, squote_chr])"

definition esc_literal :: "jsval \<Rightarrow> jsval" where
  "esc_literal v = (case v of JStr s \<Rightarrow> JStr (double_single s) | _ \<Rightarrow> v)"

fun escapeAstLiterals :: "jsval \<Rightarrow> jsval" where
  "escapeAstLiterals (JArr xs) = JArr (map escapeAstLiterals xs)"
| "escapeAstLiterals (JObj kvs) =
     JObj (map (\<lambda>(k, v).
       if k = ''value'' then (k, if is_arr v then JArr (map esc_literal (arr_of v)) else esc_literal v)
       else if k = ''query'' \<and> is_str v then (k, esc_literal v)
       else (k, escapeAstLiterals v)) kvs)"
| "escapeAstLiterals v = v"

section \<open>What the token loop accepts\<close>

text \<open>
  The specification of \<open>guard_loop\<close>: every token is allowed in its context and the
  parenthesis depth stays between 0 and 12 and ends at 0.
\<close>

definition tok_before :: "token option \<Rightarrow> token list \<Rightarrow> nat \<Rightarrow> token option" where
  "tok_before p ts i = (if i = 0 then p else Some (ts ! (i - 1)))"

definition tok_after :: "token list \<Rightarrow> nat \<Rightarrow> token option" where
  "tok_after ts i = (if Suc i < length ts then Some (ts ! Suc i) else None)"

definition paren_depth :: "token list \<Rightarrow> int" where
  "paren_depth ts = (\<Sum>t\<leftarrow>ts. if t = (KPunct, ''('') then 1 else if t = (KPunct, '')'') then -1 else 0)"

lemma paren_depth_simps [simp]:
  "paren_depth [] = 0"
  "paren_depth (t # ts) = (if t = (KPunct, ''('') then 1 else if t = (KPunct, '')'') then -1 else 0) + paren_depth ts"
  by (simp_all add: paren_depth_def)

definition all_allowed :: "guard_opts \<Rightarrow> token option \<Rightarrow> token list \<Rightarrow> bool" where
  "all_allowed opts p ts \<longleftrightarrow> (\<forall>i < length ts. token_allowed opts (tok_before p ts i) (ts ! i) (tok_after ts i))"

definition depth_ok :: "int \<Rightarrow> token list \<Rightarrow> bool" where
  "depth_ok d ts \<longleftrightarrow> (\<forall>k \<le> length ts. 0 \<le> d + paren_depth (take k ts) \<and> d + paren_depth (take k ts) \<le> 12)
     \<and> d + paren_depth ts = 0"

lemma all_allowed_simps [simp]:
  "all_allowed opts p []"
  "all_allowed opts p (t # ts) \<longleftrightarrow> token_allowed opts p t (head_opt ts) \<and> all_allowed opts (Some t) ts"
proof -
  show "all_allowed opts p []" by (simp add: all_allowed_def)
  have a: "tok_after (t # ts) 0 = head_opt ts" by (cases ts) (simp_all add: tok_after_def)
  have b: "tok_before p (t # ts) (Suc i) = tok_before (Some t) ts i" for i
    by (cases i) (simp_all add: tok_before_def)
  have c: "tok_after (t # ts) (Suc i) = tok_after ts i" for i by (simp add: tok_after_def)
  have d: "tok_before p (t # ts) 0 = p" by (simp add: tok_before_def)
  show "all_allowed opts p (t # ts) \<longleftrightarrow> token_allowed opts p t (head_opt ts) \<and> all_allowed opts (Some t) ts"
    by (simp add: all_allowed_def All_less_Suc2 a b c d del: All_less_Suc)
qed

lemma depth_ok_simps [simp]:
  "depth_ok d [] \<longleftrightarrow> d = 0"
  "depth_ok d (t # ts) \<longleftrightarrow> 0 \<le> d \<and> d \<le> 12 \<and> depth_ok (d + paren_depth [t]) ts"
proof -
  show "depth_ok d [] \<longleftrightarrow> d = 0" by (auto simp: depth_ok_def)
  have s: "(\<forall>k \<le> Suc n. P k) \<longleftrightarrow> P 0 \<and> (\<forall>k \<le> n. P (Suc k))" for P n
    by (metis Suc_le_mono le0 old.nat.exhaust)
  show "depth_ok d (t # ts) \<longleftrightarrow> 0 \<le> d \<and> d \<le> 12 \<and> depth_ok (d + paren_depth [t]) ts"
    by (simp add: depth_ok_def s add.assoc)
qed

lemma punct_allowed [simp]: "token_allowed opts p (KPunct, x) n"
  by (simp add: token_allowed_def)

lemma guard_loop_spec:
  assumes "0 \<le> d" "d \<le> 12"
  shows "guard_loop opts p d ts = Inr () \<longleftrightarrow> all_allowed opts p ts \<and> depth_ok d ts"
  using assms
proof (induction opts p d ts rule: guard_loop.induct)
  case (2 opts p d t ts)
  have edge: "depth_ok e ts \<Longrightarrow> 0 \<le> e \<and> e \<le> 12" for e by (cases ts) auto
  show ?case
  proof (cases "t = (KPunct, ''('')")
    case True
    with 2 edge [of "d + 1"] show ?thesis by (cases "d + 1 > 12") auto
  next
    case no: False
    show ?thesis
    proof (cases "t = (KPunct, '')'')")
      case True
      with 2 edge [of "d - 1"] show ?thesis by (cases "d - 1 < 0") auto
    next
      case False
      with no 2 show ?thesis by auto
    qed
  qed
qed simp

section \<open>The tokens spell the text\<close>

text \<open>The text is its tokens in order, with white space between them.\<close>

inductive spelled :: "token list \<Rightarrow> string \<Rightarrow> bool" where
  none: "spelled [] []"
| space: "list_all is_space w \<Longrightarrow> spelled ts s \<Longrightarrow> spelled ts (w @ s)"
| tok: "spelled ts s \<Longrightarrow> spelled ((k, x) # ts) (x @ s)"

lemma next_token_text:
  assumes "next_token s = Some (t, r)"
  shows "(case t of Some (k, x) \<Rightarrow> s = x @ r | None \<Rightarrow> \<exists>w. list_all is_space w \<and> s = w @ r)"
proof -
  obtain c u where s: "s = c # u" using assms by (cases s) (auto simp: next_token_def)
  have split: "takeWhile P u @ d # tl (dropWhile P u) = u" if "dropWhile P u \<noteq> []" "hd (dropWhile P u) = d" for P d
    using that by (metis takeWhile_dropWhile_id list.collapse)
  have frac: "ds @ ''.'' @ takeWhile P (tl q) @ dropWhile P (tl q) = ds @ q" if "starts_with q ''.''" for ds q P
    using that by (cases q) (auto simp: starts_with_def)
  show ?thesis
  proof (cases "is_space c")
    case True
    then have w: "list_all is_space (c # takeWhile is_space u)"
      by (auto simp: list_all_iff dest: set_takeWhileD)
    have "t = None" "r = dropWhile is_space u"
      using assms True unfolding s by (auto simp: next_token_def)
    then show ?thesis unfolding s
      using w by (simp only: option.case) (rule exI [of _ "c # takeWhile is_space u"], simp)
  next
    case False
    note sp = False
    show ?thesis
    proof (cases "c = squote_chr \<or> c = dquote")
      case True
      with assms sp show ?thesis unfolding s
        by (auto simp: next_token_def span_eq simp del: dropWhile_eq_Nil_conv split: if_splits intro: split [symmetric])
    next
      case nq: False
      show ?thesis
      proof (cases "is_digit c")
        case True
        have "c # takeWhile is_digit u @ dropWhile is_digit u = c # u" by simp
        with assms sp nq True frac [of "dropWhile is_digit u" "c # takeWhile is_digit u" is_digit] show ?thesis unfolding s
          by (auto simp: next_token_def span_eq split: if_splits)
      next
        case nd: False
        show ?thesis
        proof (cases "is_ident_start c")
          case True
          with assms sp nq nd show ?thesis unfolding s
            by (auto simp: next_token_def span_eq ident_start_word)
        next
          case False
          with assms sp nq nd have "next_op s = Some (t, r)" unfolding s
            by (simp add: next_token_def)
          from next_op_text [OF this] show ?thesis by auto
        qed
      qed
    qed
  qed
qed

lemma tokenize_spelled: "tokenize s = Inr ts \<Longrightarrow> spelled ts s"
proof (induction s arbitrary: ts rule: tokenize.induct)
  case (1 s)
  show ?case
  proof (cases "s = []")
    case True
    with "1.prems" show ?thesis by (simp add: tokenize.simps spelled.none)
  next
    case False
    with "1.prems" obtain t r us where n: "next_token s = Some (t, r)" and u: "tokenize r = Inr us"
      and ts: "ts = (case t of Some tok \<Rightarrow> tok # us | None \<Rightarrow> us)"
      by (subst (asm) tokenize.simps) (auto split: option.splits)
    have ih: "spelled us r" using "1.IH" [OF False n refl u] .
    show ?thesis
    proof (cases t)
      case None
      with next_token_text [OF n] ts ih show ?thesis by (auto intro: spelled.space)
    next
      case (Some kx)
      with next_token_text [OF n] ts ih show ?thesis by (cases kx) (auto intro: spelled.tok)
    qed
  qed
qed

section \<open>Nested queries\<close>

lemma seqR_Inr: "seqR rs = Inr u \<longleftrightarrow> (\<forall>r \<in> set rs. r = Inr ())"
  by (simp add: seqR_def eachR_Inr)

lemma each_in_Inr: "each_in k f o' = Inr u \<longleftrightarrow> (is_arr (js_get k o') \<longrightarrow> (\<forall>x \<in> set (arr_of (js_get k o')). f x = Inr ()))"
  by (simp add: each_in_def eachR_Inr)

lemma if_set_Inr: "if_set k f o' = Inr u \<longleftrightarrow> (\<not> nullish (js_get k o') \<longrightarrow> f (js_get k o') = Inr ())"
  by (simp add: if_set_def)

lemma void_Inr: "void r = Inr u \<longleftrightarrow> isOk r"
  by (auto simp: void_def isOk_iff)

lemma arr_of_not_arr: "\<not> is_arr v \<Longrightarrow> arr_of v = []"
  by (cases v) auto

lemma each_in_mem: "each_in k f o' = Inr u \<Longrightarrow> x \<in> set (arr_of (js_get k o')) \<Longrightarrow> f x = Inr ()"
  by (cases "is_arr (js_get k o')") (auto simp: each_in_Inr arr_of_not_arr)

text \<open>\<open>b\<close> is a query directly inside the query \<open>a\<close>.\<close>

inductive nested_query :: "jsval \<Rightarrow> jsval \<Rightarrow> bool" where
  set_op: "k \<in> {''union'', ''intersect'', ''except''} \<Longrightarrow> b \<in> set (arr_of (js_get k a)) \<Longrightarrow> nested_query a b"
| from_q: "truthy (js_get ''from'' a) \<Longrightarrow> b = js_get ''query'' (js_get ''from'' a) \<Longrightarrow> truthy b \<Longrightarrow> nested_query a b"
| join_q: "j \<in> set (arr_of (js_get ''joins'' a)) \<Longrightarrow> b = js_get ''query'' j \<Longrightarrow> truthy b \<Longrightarrow> nested_query a b"
| cte_base: "c \<in> set (arr_of (js_get ''with'' a)) \<Longrightarrow> b = js_get ''base'' c \<Longrightarrow> nested_query a b"
| cte_union: "c \<in> set (arr_of (js_get ''with'' a)) \<Longrightarrow> b = js_get ''unionAll'' c \<Longrightarrow> truthy b \<Longrightarrow> nested_query a b"

lemma validateAst_parts:
  assumes "validateAst (Suc n) T a = Inr ()"
  shows "is_obj a"
    "truthy (js_get ''from'' a) \<Longrightarrow> ref_check (validateAst n T) (js_get ''from'' a) = Inr ()"
    "each_in ''joins'' (join_check (validateAst n T) T) a = Inr ()"
    "each_in ''union'' (validateAst n T) a = Inr ()" "each_in ''intersect'' (validateAst n T) a = Inr ()"
    "each_in ''except'' (validateAst n T) a = Inr ()" "each_in ''with'' (cte_check (validateAst n T)) a = Inr ()"
    "each_in ''select'' (select_entry T) a = Inr ()" "each_in ''where'' (where_entry T) a = Inr ()"
  using assms by (simp_all add: seqR_Inr split: if_splits)

lemma validateAst_step:
  assumes v: "validateAst n T a = Inr ()" and q: "nested_query a b"
  shows "\<exists>m. n = Suc m \<and> validateAst m T b = Inr ()"
proof -
  obtain m where n: "n = Suc m" using v by (cases n) auto
  note parts = validateAst_parts [OF v [unfolded n]]
  have "validateAst m T b = Inr ()"
    using q
  proof cases
    case (set_op k)
    then show ?thesis using parts(4-6) by (auto dest: each_in_mem)
  next
    case from_q
    then show ?thesis using parts(2) by (auto simp: ref_check_def seqR_Inr split: if_splits)
  next
    case (join_q j)
    with parts(3) have "join_check (validateAst m T) T j = Inr ()" by (blast dest: each_in_mem)
    with join_q show ?thesis by (auto simp: join_check_def ref_check_def seqR_Inr split: if_splits)
  next
    case (cte_base c)
    with parts(7) have "cte_check (validateAst m T) c = Inr ()" by (blast dest: each_in_mem)
    with cte_base show ?thesis by (auto simp: cte_check_def seqR_Inr split: if_splits)
  next
    case (cte_union c)
    with parts(7) have "cte_check (validateAst m T) c = Inr ()" by (blast dest: each_in_mem)
    with cte_union show ?thesis by (auto simp: cte_check_def seqR_Inr split: if_splits)
  qed
  with n show ?thesis by blast
qed

lemma validateAst_levels:
  "(nested_query ^^ k) a b \<Longrightarrow> validateAst n T a = Inr () \<Longrightarrow> \<exists>m. n = k + m \<and> 0 < m \<and> validateAst m T b = Inr ()"
proof (induction k arbitrary: b)
  case 0
  then show ?case by (cases n) auto
next
  case (Suc k)
  then obtain c where c: "(nested_query ^^ k) a c" "nested_query c b" by auto
  with Suc obtain m where m: "n = k + m" "validateAst m T c = Inr ()" by blast
  with validateAst_step [OF m(2) c(2)] show ?case
    by (metis Suc_neq_Zero add_Suc add_Suc_right gr0I Inl_Inr_False validateAst.simps(1))
qed

section \<open>Properties\<close>

text \<open>
  C7: an expression is accepted exactly when its trimmed text is short enough, holds no
  forbidden character sequence and tokenizes into few enough tokens, each of which is allowed
  between its neighbours, with parentheses balanced and at most twelve deep; and the tokens
  that were checked spell the text that is returned.
\<close>

theorem assertSafeExpression_accepts:
  "assertSafeExpression opts v = Inr src \<longleftrightarrow>
     (\<exists>e toks. v = JStr e \<and> src = js_trim e \<and> src \<noteq> [] \<and> length src \<le> go_max opts \<and> \<not> FORBIDDEN_RAW src
        \<and> tokenize src = Inr toks \<and> spelled toks src
        \<and> length toks \<le> (if go_query opts then 2000 else 200)
        \<and> (go_query opts \<longrightarrow> starts_select toks)
        \<and> all_allowed opts None toks \<and> depth_ok 0 toks)"
  (is "_ = ?R")
proof -
  have g: "guard_loop opts None 0 ts = Inr u \<longleftrightarrow> all_allowed opts None ts \<and> depth_ok 0 ts" for ts and u :: unit
    using guard_loop_spec [of 0 opts None ts] by simp
  show ?thesis
    by (cases v) (auto simp: assertSafeExpression_def Let_def g not_less dest: tokenize_spelled split: if_splits)
qed

lemma assertSafeExpression_accepts_witness:
  "\<exists>toks. tokenize ''COUNT(*)'' = Inr toks \<and> spelled toks ''COUNT(*)'' \<and> depth_ok 0 toks"
proof -
  have "assertSafeExpression (expr_opts None) (JStr ''COUNT(*)'') = Inr ''COUNT(*)''" by code_simp
  from this [unfolded assertSafeExpression_accepts] show ?thesis by blast
qed

text \<open>
  In an accepted expression every word that is called is an allow-listed function or an
  operator keyword, and no statement word or blocked word occurs, wherever the word is not
  preceded by a dot.
\<close>

lemma accepted_calls_allow_listed:
  assumes "assertSafeExpression opts v = Inr src" "\<not> go_query opts" "tokenize src = Inr toks"
    and "i < length toks" "toks ! i = (KWord, w)" "\<not> is_punct ''.'' (tok_before None toks i)"
  shows "js_lower w \<notin> set ALWAYS_BLOCKED
    \<and> (if is_punct ''('' (tok_after toks i) then js_lower w \<in> set KEYWORDS \<union> set FUNCTIONS
       else js_lower w \<notin> set STATEMENT_WORDS)"
proof -
  have "guard_loop opts None 0 toks = Inr ()"
    using assms(1,3) by (cases v) (auto simp: assertSafeExpression_def Let_def split: if_splits)
  then have "all_allowed opts None toks" by (simp add: guard_loop_spec)
  with assms(4,5) have "word_allowed opts (tok_before None toks i) w (tok_after toks i)"
    by (auto simp: all_allowed_def token_allowed_def dest!: spec [of _ i])
  with assms(2,6) show ?thesis
    by (auto simp: word_allowed_def Let_def split: if_splits)
qed

lemma accepted_calls_allow_listed_witness:
  "js_lower ''Count'' \<in> set KEYWORDS \<union> set FUNCTIONS"
proof -
  have a: "assertSafeExpression (expr_opts None) (JStr ''Count(*)'') = Inr ''Count(*)''"
    and t: "tokenize ''Count(*)'' = Inr [(KWord, ''Count''), (KPunct, ''(''), (KOp, ''*''), (KPunct, '')'')]"
    by code_simp+
  have "\<not> go_query (expr_opts None)" by (simp add: expr_opts_def)
  from accepted_calls_allow_listed [OF a this t, of 0 "''Count''"] show ?thesis
    by (simp add: tok_before_def tok_after_def is_punct_def)
qed

text \<open>
  The qualifier rules look only at unquoted qualifiers and the call rule only at words that
  follow no dot. So a quoted system schema with any function call passes as an expression, and
  a view body may select from a quoted schema of another tenant.
\<close>

definition in_quotes :: "string \<Rightarrow> string" where
  "in_quotes s = dquote # s @ [dquote]"

theorem quoted_qualifier_bypasses_guard:
  "isOk (assertSafeExpression (expr_opts (Some ''acme'')) (JStr (in_quotes ''pg_catalog'' @ ''.pg_sleep(5)'')))
   \<and> isOk (assertSafeSelectQuery (JStr (''SELECT * FROM '' @ in_quotes ''tenant_globex'' @ ''.users'')) ''acme'')
   \<and> \<not> isOk (assertSafeExpression (expr_opts (Some ''acme'')) (JStr ''pg_catalog.pg_sleep(5)''))
   \<and> \<not> isOk (assertSafeSelectQuery (JStr ''SELECT * FROM tenant_globex.users'') ''acme'')"
proof (intro conjI)
  show "isOk (assertSafeExpression (expr_opts (Some ''acme'')) (JStr (in_quotes ''pg_catalog'' @ ''.pg_sleep(5)'')))"
    by code_simp
  show "isOk (assertSafeSelectQuery (JStr (''SELECT * FROM '' @ in_quotes ''tenant_globex'' @ ''.users'')) ''acme'')"
    by code_simp
  show "\<not> isOk (assertSafeExpression (expr_opts (Some ''acme'')) (JStr ''pg_catalog.pg_sleep(5)''))"
    by code_simp
  show "\<not> isOk (assertSafeSelectQuery (JStr ''SELECT * FROM tenant_globex.users'') ''acme'')"
    by code_simp
qed

text \<open>
  When a query is accepted, every query nested in it (a set-operation leg, a derived table
  of \<open>from\<close> or a join, the parts of a common table expression) lies at most twelve levels deep
  and every raw expression in its where and select clauses passed the expression guard.
\<close>

lemma validateAst_nested_safe:
  assumes "validateAst 13 T ast = Inr ()" "(nested_query ^^ k) ast q"
  shows "k \<le> 12 \<and> is_obj q
    \<and> (\<forall>w \<in> set (arr_of (js_get ''where'' q)). \<not> nullish (js_get ''expression'' w) \<longrightarrow>
          isOk (assertSafeExpression (expr_opts T) (js_get ''expression'' w)))
    \<and> (\<forall>c \<in> set (arr_of (js_get ''select'' q)). \<not> nullish (js_get ''expression'' c) \<longrightarrow>
          isOk (assertSafeExpression (expr_opts T) (js_get ''expression'' c)))"
proof -
  from validateAst_levels [OF assms(2,1)] obtain m where m: "13 = k + m" "0 < m" "validateAst m T q = Inr ()"
    by blast
  then obtain n where n: "m = Suc n" by (cases m) auto
  note parts = validateAst_parts [OF m(3) [unfolded n]]
  note o = parts(1)
  from parts(8,9)
  have w: "\<And>x. x \<in> set (arr_of (js_get ''where'' q)) \<Longrightarrow> where_entry T x = Inr ()"
    and s: "\<And>x. x \<in> set (arr_of (js_get ''select'' q)) \<Longrightarrow> select_entry T x = Inr ()"
    by (blast dest: each_in_mem)+
  have str: "is_str x \<Longrightarrow> nullish (js_get kk x)" for x kk by (cases x) (auto simp: js_get_def)
  have we: "isOk (assertSafeExpression (expr_opts T) (js_get ''expression'' x))"
    if "x \<in> set (arr_of (js_get ''where'' q))" "\<not> nullish (js_get ''expression'' x)" for x
    using w [OF that(1)] that(2) by (simp add: where_entry_def safe_expr_def void_Inr split: if_splits)
  have se: "isOk (assertSafeExpression (expr_opts T) (js_get ''expression'' x))"
    if "x \<in> set (arr_of (js_get ''select'' q))" "\<not> nullish (js_get ''expression'' x)" for x
    using s [OF that(1)] that(2) str [of x "''expression''"]
    by (simp add: select_entry_def seqR_Inr if_set_Inr safe_expr_def void_Inr split: if_splits)
  show ?thesis
    using m(1,2) o we se by simp
qed

definition sample_ast :: jsval where
  "sample_ast = JObj [(''from'', JObj [(''query'', JObj [(''from'', JObj [(''resource'', JStr ''orders'')]),
     (''where'', JArr [JObj [(''expression'', JStr ''total > 5'')]])])])]"

lemma validateAst_nested_safe_witness:
  "isOk (assertSafeExpression (expr_opts None) (JStr ''total > 5''))"
proof -
  let ?q = "JObj [(''from'', JObj [(''resource'', JStr ''orders'')]),
     (''where'', JArr [JObj [(''expression'', JStr ''total > 5'')]])]"
  have v: "validateAst 13 None sample_ast = Inr ()" by code_simp
  have "nested_query sample_ast ?q"
    by (rule nested_query.from_q) (simp_all add: sample_ast_def js_get_def)
  then have "(nested_query ^^ 1) sample_ast ?q" by (simp only: relpowp_1)
  from validateAst_nested_safe [OF v this] show ?thesis by (simp add: js_get_def)
qed

end
