(* ===== verification/Recursive.thy ===== *)
theory Recursive
  imports JsValue
begin

text \<open>
  \<open>modules/query-engine/recursive.ts\<close>: the traversal of a hierarchy level by level. The
  callback that fetches a level is a parameter; its argument is the number of the call (the
  source may answer the same condition differently over time) and the condition. Timings of
  the trace are not modelled. The sets and maps of the code compare primitive values by value and objects, among
  them the \<open>ObjectId\<close>s of MongoDB, by identity: the rows of two fetches never share one.
\<close>

section \<open>Specification of a traversal\<close>

record level_cond =
  lc_column :: string
  lc_operator :: string
  lc_value :: jsval

record recursive_spec =
  rs_parent :: string
  rs_child :: string
  rs_anchor :: "level_cond list"
  rs_startWith :: "level_cond list"
  rs_direction :: string
  rs_maxDepth :: jsval
  rs_maxRows :: jsval
  rs_pathColumn :: string

type_synonym level_fetch = "nat \<Rightarrow> level_cond list \<Rightarrow> jsval list"

record trace_entry =
  te_depth :: nat
  te_frontier :: nat
  te_fetched :: nat
  te_added :: nat

record recursive_result =
  rr_rows :: "jsval list"
  rr_levels :: nat
  rr_trace :: "trace_entry list"
  rr_truncatedByDepth :: bool
  rr_truncatedByRows :: bool

text \<open>\<open>Math.max(1, Math.min(Number(v) || dflt, top))\<close>.\<close>

definition rec_clamp :: "jsval \<Rightarrow> rat \<Rightarrow> rat \<Rightarrow> rat" where
  "rec_clamp v dflt cap = max 1 (min (case js_number v of Some n \<Rightarrow> if n = 0 then dflt else n | None \<Rightarrow> dflt) cap)"

definition rec_maxDepth :: "recursive_spec \<Rightarrow> rat" where
  "rec_maxDepth spec = rec_clamp (rs_maxDepth spec) 25 100"

definition rec_maxRows :: "recursive_spec \<Rightarrow> rat" where
  "rec_maxRows spec = rec_clamp (rs_maxRows spec) 50000 200000"

definition walks_down :: "recursive_spec \<Rightarrow> bool" where
  "walks_down spec \<longleftrightarrow> (if rs_direction spec = [] then ''down'' else rs_direction spec) \<noteq> ''up''"

definition nextFilterCol :: "recursive_spec \<Rightarrow> string" where
  "nextFilterCol spec = (if walks_down spec then rs_parent spec else rs_child spec)"

definition frontierKeyCol :: "recursive_spec \<Rightarrow> string" where
  "frontierKeyCol spec = (if walks_down spec then rs_child spec else rs_parent spec)"

definition seedWhere :: "recursive_spec \<Rightarrow> level_cond list" where
  "seedWhere spec =
     (if rs_startWith spec \<noteq> [] then rs_startWith spec
      else if rs_anchor spec \<noteq> [] then rs_anchor spec
      else [\<lparr>lc_column = rs_parent spec, lc_operator = ''IS_NULL'', lc_value = JUndef\<rparr>])"

section \<open>One level\<close>

text \<open>\<open>Set.has\<close> and \<open>Map.get\<close> on a value that was just fetched.\<close>

definition by_value :: "jsval \<Rightarrow> bool" where
  "by_value v = (case v of JObj _ \<Rightarrow> False | JArr _ \<Rightarrow> False | _ \<Rightarrow> True)"

definition set_has :: "jsval list \<Rightarrow> jsval \<Rightarrow> bool" where
  "set_has xs k \<longleftrightarrow> by_value k \<and> k \<in> set xs"

definition map_get :: "(jsval \<times> jsval) list \<Rightarrow> jsval \<Rightarrow> jsval option" where
  "map_get m k = (if by_value k then map_of (rev m) k else None)"

definition as_set :: "jsval list \<Rightarrow> jsval list" where
  "as_set vs = foldl (\<lambda>acc v. if set_has acc v then acc else acc @ [v]) [] vs"

lemma set_as_set [simp]: "set (as_set vs) = set vs"
proof -
  have "set (foldl (\<lambda>acc v. if set_has acc v then acc else acc @ [v]) acc vs) = set acc \<union> set vs" for acc
    by (induction vs arbitrary: acc) (auto simp: set_has_def)
  then show ?thesis by (simp add: as_set_def)
qed

text \<open>A row with its depth and, when a path column is given, its breadcrumb.\<close>

definition tag_row :: "recursive_spec \<Rightarrow> nat \<Rightarrow> jsval option \<Rightarrow> jsval \<Rightarrow> jsval" where
  "tag_row spec depth parent r =
     (let o1 = kv_set ''__depth'' (JNum (of_nat depth)) (obj_of r) in
      if rs_pathColumn spec = [] then JObj o1
      else JObj (kv_set ''__path''
        (JArr ((case parent of Some p \<Rightarrow> arr_of (js_get ''__path'' p) | None \<Rightarrow> []) @ [js_get (rs_pathColumn spec) r])) o1))"

record walk =
  w_seen :: "jsval list"
  w_out :: "jsval list"
  w_next :: "jsval list"
  w_full :: bool

text \<open>The loop over the fetched children; it stops when the row cap is reached.\<close>

fun add_children :: "recursive_spec \<Rightarrow> nat \<Rightarrow> jsval list \<Rightarrow> jsval list \<Rightarrow> walk \<Rightarrow> walk" where
  "add_children spec depth frontier [] w = w"
| "add_children spec depth frontier (c # cs) w =
     (let k = js_get (rs_child spec) c in
      if set_has (w_seen w) k then add_children spec depth frontier cs w
      else
        let parent = map_get (map (\<lambda>r. (js_get (frontierKeyCol spec) r, r)) frontier) (js_get (nextFilterCol spec) c);
            tagged = tag_row spec depth parent c;
            w' = w\<lparr>w_seen := w_seen w @ [k], w_out := w_out w @ [tagged], w_next := w_next w @ [tagged]\<rparr>
        in if of_nat (length (w_out w')) \<ge> rec_maxRows spec then w'\<lparr>w_full := True\<rparr>
           else add_children spec depth frontier cs w')"

definition frontier_keys :: "recursive_spec \<Rightarrow> jsval list \<Rightarrow> jsval list" where
  "frontier_keys spec frontier =
     as_set (filter (\<lambda>v. \<not> nullish v) (map (\<lambda>r. js_get (frontierKeyCol spec) r) frontier))"

section \<open>The traversal\<close>

record traversal =
  t_seen :: "jsval list"
  t_out :: "jsval list"
  t_frontier :: "jsval list"
  t_trace :: "trace_entry list"
  t_byDepth :: bool
  t_byRows :: bool

definition level_where :: "recursive_spec \<Rightarrow> jsval list \<Rightarrow> level_cond list" where
  "level_where spec keys = [\<lparr>lc_column = nextFilterCol spec, lc_operator = ''IN'', lc_value = JArr keys\<rparr>]"

definition expand_level :: "recursive_spec \<Rightarrow> level_fetch \<Rightarrow> nat \<Rightarrow> traversal \<Rightarrow> traversal" where
  "expand_level spec fetch depth t =
     (let fetched = fetch depth (level_where spec (frontier_keys spec (t_frontier t)));
          w = add_children spec depth (t_frontier t) fetched
                \<lparr>w_seen = t_seen t, w_out = t_out t, w_next = [], w_full = False\<rparr>;
          tr = t_trace t @ [\<lparr>te_depth = depth, te_frontier = length (t_frontier t),
                             te_fetched = length fetched, te_added = length (w_next w)\<rparr>]
      in if w_full w
         then t\<lparr>t_seen := w_seen w, t_out := w_out w, t_trace := tr, t_byRows := True\<rparr>
         else t\<lparr>t_seen := w_seen w, t_out := w_out w, t_frontier := w_next w, t_trace := tr,
                t_byDepth := (t_byDepth t \<or> of_nat depth = rec_maxDepth spec \<and> w_next w \<noteq> [])\<rparr>)"

fun expand_levels :: "recursive_spec \<Rightarrow> level_fetch \<Rightarrow> nat list \<Rightarrow> traversal \<Rightarrow> traversal" where
  "expand_levels spec fetch [] t = t"
| "expand_levels spec fetch (d # ds) t =
     (if t_frontier t = [] \<or> frontier_keys spec (t_frontier t) = [] then t
      else let t' = expand_level spec fetch d t in
        if t_byRows t' then t' else expand_levels spec fetch ds t')"

text \<open>The seed rows: every one is in the first frontier, each key once in the output.\<close>

definition add_seed :: "recursive_spec \<Rightarrow> jsval list \<times> jsval list \<Rightarrow> jsval \<Rightarrow> jsval list \<times> jsval list" where
  "add_seed spec so r = (case so of (seen, rows) \<Rightarrow>
     if set_has seen (js_get (rs_child spec) r) then (seen, rows)
     else (seen @ [js_get (rs_child spec) r], rows @ [r]))"

definition seed_level :: "recursive_spec \<Rightarrow> level_fetch \<Rightarrow> traversal" where
  "seed_level spec fetch =
     (let seed = map (tag_row spec 0 None) (fetch 0 (seedWhere spec)) in
      (case foldl (add_seed spec) ([], []) seed of
         (seen, rows) \<Rightarrow> \<lparr>t_seen = seen, t_out = rows, t_frontier = seed,
            t_trace = [\<lparr>te_depth = 0, te_frontier = 0, te_fetched = length seed, te_added = length seed\<rparr>],
            t_byDepth = False, t_byRows = False\<rparr>))"

definition normalise_row :: "recursive_spec \<Rightarrow> jsval \<Rightarrow> jsval" where
  "normalise_row spec r =
     (let rest = kv_del ''__path'' (kv_del ''__depth'' (obj_of r));
          norm = kv_set ''depth'' (js_get ''__depth'' r) rest
      in JObj (if rs_pathColumn spec \<noteq> [] \<and> truthy (js_get ''__path'' r)
               then kv_set ''path'' (js_get ''__path'' r) norm else norm))"

definition depths :: "recursive_spec \<Rightarrow> nat list" where
  "depths spec = [1..<Suc (nat \<lfloor>rec_maxDepth spec\<rfloor>)]"

definition recursive_run :: "recursive_spec \<Rightarrow> level_fetch \<Rightarrow> recursive_result" where
  "recursive_run spec fetch =
     (let t = expand_levels spec fetch (depths spec) (seed_level spec fetch) in
      \<lparr>rr_rows = map (normalise_row spec) (t_out t), rr_levels = length (t_trace t), rr_trace = t_trace t,
       rr_truncatedByDepth = t_byDepth t, rr_truncatedByRows = t_byRows t\<rparr>)"

section \<open>Keys survive tagging\<close>

definition rec_internal :: "string list" where
  "rec_internal = [''__depth'', ''__path'', ''depth'', ''path'']"

lemma tag_row_get: "k \<notin> set rec_internal \<Longrightarrow> js_get k (tag_row spec d p r) = js_get k r"
  by (simp add: tag_row_def js_get_def Let_def rec_internal_def)

lemma tag_row_depth [simp]: "js_get ''__depth'' (tag_row spec d p r) = JNum (of_nat d)"
  by (simp add: tag_row_def js_get_def Let_def)

lemma normalise_row_get: "k \<notin> set rec_internal \<Longrightarrow> js_get k (normalise_row spec r) = js_get k r"
  by (cases r) (simp_all add: normalise_row_def js_get_def Let_def rec_internal_def)

lemma normalise_row_depth: "js_get ''depth'' (normalise_row spec r) = js_get ''__depth'' r"
  by (simp add: normalise_row_def js_get_def [of "''depth''"] Let_def)

section \<open>Distance in the hierarchy\<close>

definition node_key :: "recursive_spec \<Rightarrow> jsval \<Rightarrow> jsval" where
  "node_key spec r = js_get (rs_child spec) r"

text \<open>The keys of the rows one step away from the rows with key \<open>x\<close>, in a table \<open>T\<close>.\<close>

definition next_keys :: "recursive_spec \<Rightarrow> jsval set \<Rightarrow> jsval \<Rightarrow> jsval set" where
  "next_keys spec T x = {node_key spec c | c. c \<in> T \<and>
     (\<exists>r \<in> T. node_key spec r = x \<and> \<not> nullish (js_get (frontierKeyCol spec) r) \<and>
        js_get (nextFilterCol spec) c = js_get (frontierKeyCol spec) r)}"

fun hop :: "recursive_spec \<Rightarrow> jsval set \<Rightarrow> jsval set \<Rightarrow> nat \<Rightarrow> jsval set" where
  "hop spec T S 0 = node_key spec ` S"
| "hop spec T S (Suc n) = (\<Union>x \<in> hop spec T S n. next_keys spec T x)"

definition at_distance :: "recursive_spec \<Rightarrow> jsval set \<Rightarrow> jsval set \<Rightarrow> nat \<Rightarrow> jsval \<Rightarrow> bool" where
  "at_distance spec T S d k \<longleftrightarrow> k \<in> hop spec T S d \<and> (\<forall>j < d. k \<notin> hop spec T S j)"

definition nearer :: "recursive_spec \<Rightarrow> jsval set \<Rightarrow> jsval set \<Rightarrow> nat \<Rightarrow> jsval set" where
  "nearer spec T S d = (\<Union>i \<le> d. hop spec T S i)"

lemma at_distance_nearer: "at_distance spec T S d k \<Longrightarrow> i < d \<Longrightarrow> k \<notin> nearer spec T S i"
  by (auto simp: at_distance_def nearer_def)

lemma nearer_Suc: "nearer spec T S (Suc d) = nearer spec T S d \<union> hop spec T S (Suc d)"
  by (auto simp: nearer_def le_Suc_eq simp del: hop.simps)

lemma at_distance_Suc: "at_distance spec T S (Suc d) k \<longleftrightarrow> k \<in> hop spec T S (Suc d) \<and> k \<notin> nearer spec T S d"
  by (auto simp: at_distance_def nearer_def less_Suc_eq_le simp del: hop.simps)

lemma at_distance_unique: "at_distance spec T S d k \<Longrightarrow> at_distance spec T S e k \<Longrightarrow> d = e"
  by (metis at_distance_def linorder_neqE_nat)

text \<open>A new key one step further comes from a key at exactly the distance before.\<close>

lemma at_distance_step:
  "at_distance spec T S (Suc d) k \<longleftrightarrow>
     (\<exists>x. at_distance spec T S d x \<and> k \<in> next_keys spec T x) \<and> k \<notin> nearer spec T S d"
proof
  assume k: "at_distance spec T S (Suc d) k"
  then obtain x where x: "x \<in> hop spec T S d" "k \<in> next_keys spec T x" by (auto simp: at_distance_def)
  have "x \<notin> hop spec T S j" if "j < d" for j
  proof
    assume "x \<in> hop spec T S j"
    with x have "k \<in> hop spec T S (Suc j)" by auto
    with k that show False by (auto simp: at_distance_def simp del: hop.simps)
  qed
  with x k show "(\<exists>x. at_distance spec T S d x \<and> k \<in> next_keys spec T x) \<and> k \<notin> nearer spec T S d"
    unfolding at_distance_Suc by (auto simp: at_distance_def)
next
  assume "(\<exists>x. at_distance spec T S d x \<and> k \<in> next_keys spec T x) \<and> k \<notin> nearer spec T S d"
  then show "at_distance spec T S (Suc d) k"
    unfolding at_distance_Suc by (auto simp: at_distance_def)
qed

lemma no_further:
  assumes "\<forall>k. \<not> at_distance spec T S (Suc d) k" "d < e"
  shows "\<not> at_distance spec T S e k"
  using assms(2)
proof (induction e arbitrary: k)
  case (Suc e)
  show ?case
  proof (cases "e = d")
    case False
    with Suc have "\<not> at_distance spec T S e x" for x by simp
    then show ?thesis by (auto simp: at_distance_step)
  qed (use assms(1) in simp)
qed simp

section \<open>The loops\<close>

text \<open>The primitive keys occur once.\<close>

definition once_in :: "jsval list \<Rightarrow> jsval list \<Rightarrow> bool" where
  "once_in seen ks \<longleftrightarrow> distinct (filter by_value ks) \<and> (\<forall>k \<in> set ks. by_value k \<longrightarrow> k \<notin> set seen)"

lemma once_in_Cons: "\<not> set_has seen k \<Longrightarrow> once_in (seen @ [k]) ks \<Longrightarrow> once_in seen (k # ks)"
  by (auto simp: once_in_def set_has_def)

lemma once_in_append: "once_in [] seen \<Longrightarrow> once_in seen ks \<Longrightarrow> once_in [] (seen @ ks)"
  by (auto simp: once_in_def)

lemma once_in_primitive: "once_in seen ks \<Longrightarrow> list_all by_value ks \<Longrightarrow> distinct ks \<and> set ks \<inter> set seen = {}"
  by (auto simp: once_in_def list_all_iff)

lemma add_children_new:
  "\<exists>new. w_out (add_children spec d fr cs w) = w_out w @ new \<and>
     w_next (add_children spec d fr cs w) = w_next w @ new \<and>
     w_seen (add_children spec d fr cs w) = w_seen w @ map (node_key spec) new \<and>
     once_in (w_seen w) (map (node_key spec) new) \<and>
     (\<forall>r \<in> set new. \<exists>c \<in> set cs. \<exists>p. r = tag_row spec d p c) \<and>
     (\<not> w_full (add_children spec d fr cs w) \<longrightarrow> node_key spec ` set cs \<subseteq> set (w_seen w) \<union> node_key spec ` set new)"
  if "rs_child spec \<notin> set rec_internal"
proof (induction cs arbitrary: w)
  case Nil
  then show ?case by (simp add: once_in_def)
next
  case (Cons c cs)
  define tagged where "tagged = tag_row spec d (map_get (map (\<lambda>r. (js_get (frontierKeyCol spec) r, r)) fr)
    (js_get (nextFilterCol spec) c)) c"
  have nk: "node_key spec tagged = node_key spec c"
    by (simp add: node_key_def tagged_def tag_row_get [OF that])
  have tg: "\<exists>p. tagged = tag_row spec d p c" by (auto simp: tagged_def)
  define w' where "w' = w\<lparr>w_seen := w_seen w @ [node_key spec c], w_out := w_out w @ [tagged], w_next := w_next w @ [tagged]\<rparr>"
  have step: "add_children spec d fr (c # cs) w =
      (if set_has (w_seen w) (node_key spec c) then add_children spec d fr cs w
       else if of_nat (length (w_out w')) \<ge> rec_maxRows spec then w'\<lparr>w_full := True\<rparr> else add_children spec d fr cs w')"
    by (simp add: Let_def node_key_def w'_def tagged_def)
  consider "set_has (w_seen w) (node_key spec c)"
    | "\<not> set_has (w_seen w) (node_key spec c)" "of_nat (length (w_out w')) \<ge> rec_maxRows spec"
    | "\<not> set_has (w_seen w) (node_key spec c)" "\<not> of_nat (length (w_out w')) \<ge> rec_maxRows spec" by blast
  then show ?case
  proof cases
    case 1
    then have "node_key spec c \<in> set (w_seen w)" by (simp add: set_has_def)
    with 1 Cons [of w] show ?thesis unfolding step by auto
  next
    case 2
    then show ?thesis unfolding step by (intro exI [of _ "[tagged]"]) (auto simp: w'_def nk tg once_in_def set_has_def)
  next
    case 3
    obtain new where new: "w_out (add_children spec d fr cs w') = w_out w' @ new"
      "w_next (add_children spec d fr cs w') = w_next w' @ new"
      "w_seen (add_children spec d fr cs w') = w_seen w' @ map (node_key spec) new"
      "once_in (w_seen w') (map (node_key spec) new)"
      "\<forall>r \<in> set new. \<exists>c \<in> set cs. \<exists>p. r = tag_row spec d p c"
      "\<not> w_full (add_children spec d fr cs w') \<longrightarrow> node_key spec ` set cs \<subseteq> set (w_seen w') \<union> node_key spec ` set new"
      using Cons [of w'] by blast
    have "once_in (w_seen w) (map (node_key spec) (tagged # new))"
      using once_in_Cons [of "w_seen w" "node_key spec c"] 3(1) new(4) by (simp add: w'_def nk)
    with 3 new tg show ?thesis unfolding step by (intro exI [of _ "tagged # new"]) (auto simp: w'_def nk)
  qed
qed

lemma seed_fold:
  "(case foldl (add_seed spec) (seen, rows) rs of (seen', rows') \<Rightarrow>
      \<exists>new. seen' = seen @ map (node_key spec) new \<and> rows' = rows @ new \<and> set new \<subseteq> set rs \<and> length new \<le> length rs \<and>
        once_in seen (map (node_key spec) new) \<and>
        node_key spec ` set rs \<subseteq> set seen \<union> node_key spec ` set new)"
proof (induction rs arbitrary: seen rows)
  case (Cons r rs)
  show ?case
  proof (cases "set_has seen (node_key spec r)")
    case True
    then have "node_key spec r \<in> set seen" by (simp add: set_has_def)
    with True Cons [of seen rows] show ?thesis by (fastforce simp: add_seed_def node_key_def)
  next
    case False
    obtain seen' rows' where f: "foldl (add_seed spec) (seen @ [node_key spec r], rows @ [r]) rs = (seen', rows')" by force
    from Cons [of "seen @ [node_key spec r]" "rows @ [r]"] obtain new where n:
      "seen' = (seen @ [node_key spec r]) @ map (node_key spec) new" "rows' = (rows @ [r]) @ new" "set new \<subseteq> set rs"
      "length new \<le> length rs" "once_in (seen @ [node_key spec r]) (map (node_key spec) new)"
      "node_key spec ` set rs \<subseteq> set (seen @ [node_key spec r]) \<union> node_key spec ` set new"
      unfolding f by auto
    have fe: "foldl (add_seed spec) (seen, rows) (r # rs) = (seen', rows')"
      using False f by (simp add: add_seed_def node_key_def)
    have "once_in seen (map (node_key spec) (r # new))" using once_in_Cons [OF False n(5)] by simp
    then show ?thesis unfolding fe prod.case
      by (intro exI [of _ "r # new"]) (use n in auto)
  qed
qed (simp add: once_in_def)

definition walk_shape :: "recursive_spec \<Rightarrow> traversal \<Rightarrow> bool" where
  "walk_shape spec t \<longleftrightarrow> t_seen t = map (node_key spec) (t_out t) \<and> once_in [] (t_seen t)"

lemma seed_level_facts:
  fixes spec fetch
  defines "seed \<equiv> map (tag_row spec 0 None) (fetch 0 (seedWhere spec))"
  shows "walk_shape spec (seed_level spec fetch)" (is ?shape)
    and "set (t_seen (seed_level spec fetch)) = node_key spec ` set seed" (is ?keys)
    and "set (t_out (seed_level spec fetch)) \<subseteq> set seed" (is ?sub)
    and "t_frontier (seed_level spec fetch) = seed" (is ?fr)
    and "\<not> t_byRows (seed_level spec fetch) \<and> \<not> t_byDepth (seed_level spec fetch)" (is ?flags)
    and "length (t_out (seed_level spec fetch)) \<le> length (fetch 0 (seedWhere spec))" (is ?len)
proof -
  obtain seen rows where f: "foldl (add_seed spec) ([], []) seed = (seen, rows)" by force
  from seed_fold [where spec = spec and seen = "[]" and rows = "[]" and rs = seed] obtain new where n: "seen = map (node_key spec) new" "rows = new"
    "set new \<subseteq> set seed" "length new \<le> length seed" "once_in [] (map (node_key spec) new)" "node_key spec ` set seed \<subseteq> node_key spec ` set new"
    unfolding f by auto
  have l: "seed_level spec fetch = \<lparr>t_seen = seen, t_out = rows, t_frontier = seed,
            t_trace = [\<lparr>te_depth = 0, te_frontier = 0, te_fetched = length seed, te_added = length seed\<rparr>],
            t_byDepth = False, t_byRows = False\<rparr>"
    using f by (simp add: seed_level_def Let_def seed_def)
  show ?shape ?sub ?fr ?flags using n by (simp_all add: l walk_shape_def)
  show ?keys using n by (auto simp: l)
  show ?len using n(2,4) by (simp add: l seed_def)
qed

lemma expand_level_out:
  assumes "rs_child spec \<notin> set rec_internal"
  shows "\<exists>new. t_out (expand_level spec fetch d t) = t_out t @ new \<and>
     t_seen (expand_level spec fetch d t) = t_seen t @ map (node_key spec) new \<and>
     once_in (t_seen t) (map (node_key spec) new) \<and>
     (\<forall>r \<in> set new. \<exists>c \<in> set (fetch d (level_where spec (frontier_keys spec (t_frontier t)))). \<exists>p. r = tag_row spec d p c) \<and>
     (\<not> t_byRows t \<longrightarrow> \<not> t_byRows (expand_level spec fetch d t) \<longrightarrow>
        t_frontier (expand_level spec fetch d t) = new \<and>
        t_byDepth (expand_level spec fetch d t) = (t_byDepth t \<or> of_nat d = rec_maxDepth spec \<and> new \<noteq> []) \<and>
        node_key spec ` set (fetch d (level_where spec (frontier_keys spec (t_frontier t))))
          \<subseteq> set (t_seen t) \<union> node_key spec ` set new)"
proof -
  define fetched where "fetched = fetch d (level_where spec (frontier_keys spec (t_frontier t)))"
  define w where "w = add_children spec d (t_frontier t) fetched
    \<lparr>w_seen = t_seen t, w_out = t_out t, w_next = [], w_full = False\<rparr>"
  obtain new where new: "w_out w = t_out t @ new" "w_next w = new" "w_seen w = t_seen t @ map (node_key spec) new"
    "once_in (t_seen t) (map (node_key spec) new)"
    "\<forall>r \<in> set new. \<exists>c \<in> set fetched. \<exists>p. r = tag_row spec d p c"
    "\<not> w_full w \<longrightarrow> node_key spec ` set fetched \<subseteq> set (t_seen t) \<union> node_key spec ` set new"
    using add_children_new [OF assms, of d "t_frontier t" fetched
        "\<lparr>w_seen = t_seen t, w_out = t_out t, w_next = [], w_full = False\<rparr>"] unfolding w_def by auto
  show ?thesis
    unfolding expand_level_def Let_def fetched_def [symmetric] w_def [symmetric]
    by (intro exI [of _ new]) (use new in auto)
qed

lemma expand_levels_shape:
  assumes "rs_child spec \<notin> set rec_internal" "walk_shape spec t"
  shows "walk_shape spec (expand_levels spec fetch ds t)"
  using assms(2)
proof (induction ds arbitrary: t)
  case (Cons d ds)
  have "walk_shape spec (expand_level spec fetch d t)"
    using expand_level_out [OF assms(1), of fetch d t] Cons.prems
    unfolding walk_shape_def by (elim exE conjE) (simp add: once_in_append)
  with Cons show ?case by (simp add: Let_def)
qed simp

section \<open>Breadth-first search\<close>

definition bfs_inv :: "recursive_spec \<Rightarrow> jsval set \<Rightarrow> jsval set \<Rightarrow> nat \<Rightarrow> traversal \<Rightarrow> bool" where
  "bfs_inv spec T S d t \<longleftrightarrow>
     set (t_seen t) = nearer spec T S d \<and>
     node_key spec ` set (t_frontier t) = {k. at_distance spec T S d k} \<and>
     (\<forall>r \<in> set (t_frontier t). \<exists>c \<in> T. \<exists>i p. r = tag_row spec i p c) \<and>
     (\<forall>r \<in> set (t_out t). \<exists>i \<le> d. js_get ''__depth'' r = JNum (of_nat i) \<and> at_distance spec T S i (node_key spec r))"

text \<open>
  A source that answers from the table \<open>T\<close>: the rows of a level are the rows whose filter
  column is among the keys.
\<close>

definition level_source :: "recursive_spec \<Rightarrow> jsval set \<Rightarrow> level_fetch \<Rightarrow> bool" where
  "level_source spec T fetch \<longleftrightarrow>
     (\<forall>n \<ge> 1. \<forall>keys. set (fetch n (level_where spec keys)) = {c \<in> T. js_get (nextFilterCol spec) c \<in> set keys})"

text \<open>The key of a node is a primitive value and determines what its next level is asked for.\<close>

definition keyed_table :: "recursive_spec \<Rightarrow> jsval set \<Rightarrow> bool" where
  "keyed_table spec T \<longleftrightarrow>
     (\<forall>r \<in> T. by_value (node_key spec r) \<and> (\<forall>r' \<in> T. node_key spec r = node_key spec r' \<longrightarrow>
        js_get (frontierKeyCol spec) r = js_get (frontierKeyCol spec) r'))"

definition plain_columns :: "recursive_spec \<Rightarrow> bool" where
  "plain_columns spec \<longleftrightarrow> rs_child spec \<notin> set rec_internal \<and> rs_parent spec \<notin> set rec_internal"

lemma plain_columns_get:
  assumes "plain_columns spec"
  shows "node_key spec (tag_row spec i p c) = node_key spec c"
    and "js_get (frontierKeyCol spec) (tag_row spec i p c) = js_get (frontierKeyCol spec) c"
  using assms by (simp_all add: plain_columns_def node_key_def frontierKeyCol_def tag_row_get)

lemma level_fetched_keys:
  assumes inv: "bfs_inv spec T S d t" and cols: "plain_columns spec" and keyed: "keyed_table spec T"
    and src: "level_source spec T fetch"
  shows "node_key spec ` set (fetch (Suc d) (level_where spec (frontier_keys spec (t_frontier t)))) =
    {k. \<exists>x. at_distance spec T S d x \<and> k \<in> next_keys spec T x}" (is "?l = ?r")
proof -
  have fk: "set (frontier_keys spec (t_frontier t)) =
      {v. \<not> nullish v \<and> (\<exists>r \<in> T. at_distance spec T S d (node_key spec r) \<and> js_get (frontierKeyCol spec) r = v)}"
    (is "_ = ?K")
  proof (intro equalityI subsetI)
    fix v assume "v \<in> set (frontier_keys spec (t_frontier t))"
    then obtain r where r: "r \<in> set (t_frontier t)" "v = js_get (frontierKeyCol spec) r" "\<not> nullish v"
      by (auto simp: frontier_keys_def)
    with inv obtain c i p where c: "c \<in> T" "r = tag_row spec i p c" by (auto simp: bfs_inv_def)
    have "at_distance spec T S d (node_key spec r)" using inv r(1) by (auto simp: bfs_inv_def)
    with c r show "v \<in> ?K" by (auto simp: plain_columns_get [OF cols])
  next
    fix v assume "v \<in> ?K"
    then obtain r where r: "r \<in> T" "at_distance spec T S d (node_key spec r)" "js_get (frontierKeyCol spec) r = v" "\<not> nullish v"
      by blast
    then have "node_key spec r \<in> node_key spec ` set (t_frontier t)" using inv by (simp add: bfs_inv_def)
    then obtain f where f: "f \<in> set (t_frontier t)" "node_key spec f = node_key spec r" by auto
    with inv obtain c i p where c: "c \<in> T" "f = tag_row spec i p c" by (auto simp: bfs_inv_def)
    have "js_get (frontierKeyCol spec) c = v"
      using keyed c r f unfolding keyed_table_def by (metis plain_columns_get(1) [OF cols])
    then have "js_get (frontierKeyCol spec) f = v" by (simp add: c(2) plain_columns_get [OF cols])
    with f(1) r(4) show "v \<in> set (frontier_keys spec (t_frontier t))"
      by (auto simp: frontier_keys_def)
  qed
  have "set (fetch (Suc d) (level_where spec (frontier_keys spec (t_frontier t)))) =
      {c \<in> T. js_get (nextFilterCol spec) c \<in> ?K}"
    using src fk by (simp add: level_source_def)
  note fetched = this
  show ?thesis
  proof (intro equalityI subsetI)
    fix k assume "k \<in> ?l"
    then obtain c r where c: "k = node_key spec c" "c \<in> T" "\<not> nullish (js_get (nextFilterCol spec) c)" "r \<in> T"
      "at_distance spec T S d (node_key spec r)" "js_get (frontierKeyCol spec) r = js_get (nextFilterCol spec) c"
      unfolding fetched by blast
    then have "k \<in> next_keys spec T (node_key spec r)" unfolding next_keys_def by force
    with c show "k \<in> ?r" by blast
  next
    fix k assume "k \<in> ?r"
    then obtain c r where c: "k = node_key spec c" "c \<in> T" "r \<in> T" "\<not> nullish (js_get (frontierKeyCol spec) r)"
      "at_distance spec T S d (node_key spec r)" "js_get (nextFilterCol spec) c = js_get (frontierKeyCol spec) r"
      unfolding next_keys_def by blast
    then show "k \<in> ?l" unfolding fetched by force
  qed
qed

lemma bfs_inv_step:
  assumes inv: "bfs_inv spec T S d t" and cols: "plain_columns spec" and keyed: "keyed_table spec T"
    and src: "level_source spec T fetch" and rows: "\<not> t_byRows t" "\<not> t_byRows (expand_level spec fetch (Suc d) t)"
  shows "bfs_inv spec T S (Suc d) (expand_level spec fetch (Suc d) t)"
    and "t_byDepth (expand_level spec fetch (Suc d) t) \<longleftrightarrow>
      t_byDepth t \<or> of_nat (Suc d) = rec_maxDepth spec \<and> (\<exists>k. at_distance spec T S (Suc d) k)"
proof -
  let ?t = "expand_level spec fetch (Suc d) t"
  let ?F = "set (fetch (Suc d) (level_where spec (frontier_keys spec (t_frontier t))))"
  have child: "rs_child spec \<notin> set rec_internal" using cols by (simp add: plain_columns_def)
  obtain new where new: "t_out ?t = t_out t @ new" "t_seen ?t = t_seen t @ map (node_key spec) new"
    "once_in (t_seen t) (map (node_key spec) new)"
    "\<forall>r \<in> set new. \<exists>c \<in> ?F. \<exists>p. r = tag_row spec (Suc d) p c"
    "t_frontier ?t = new" "t_byDepth ?t = (t_byDepth t \<or> of_nat (Suc d) = rec_maxDepth spec \<and> new \<noteq> [])"
    "node_key spec ` ?F \<subseteq> set (t_seen t) \<union> node_key spec ` set new"
    using expand_level_out [OF child, of fetch "Suc d" t] rows by auto
  have seen: "set (t_seen t) = nearer spec T S d" using inv by (simp add: bfs_inv_def)
  have "node_key spec ` set new \<subseteq> node_key spec ` ?F"
  proof
    fix k assume "k \<in> node_key spec ` set new"
    then obtain r where r: "r \<in> set new" "k = node_key spec r" by auto
    with new(4) obtain c p where "c \<in> ?F" "r = tag_row spec (Suc d) p c" by blast
    with r show "k \<in> node_key spec ` ?F" by (simp add: plain_columns_get [OF cols])
  qed
  moreover have "list_all by_value (map (node_key spec) new)"
  proof -
    have "by_value (node_key spec c)" if "c \<in> ?F" for c using that src keyed by (simp add: level_source_def keyed_table_def)
    then show ?thesis using new(4) by (fastforce simp: list_all_iff plain_columns_get [OF cols])
  qed
  then have "node_key spec ` set new \<inter> set (t_seen t) = {}" using once_in_primitive [OF new(3)] by simp
  ultimately have "node_key spec ` set new = node_key spec ` ?F - nearer spec T S d" using new(7) unfolding seen by blast
  then have keys: "node_key spec ` set new = {k. at_distance spec T S (Suc d) k}"
    unfolding level_fetched_keys [OF inv cols keyed src] by (auto simp: at_distance_step)
  have "hop spec T S (Suc d) \<subseteq> nearer spec T S d \<union> {k. at_distance spec T S (Suc d) k}"
    by (auto simp: at_distance_Suc simp del: hop.simps)
  then have "nearer spec T S (Suc d) = nearer spec T S d \<union> {k. at_distance spec T S (Suc d) k}"
    unfolding nearer_Suc by (auto simp: at_distance_def simp del: hop.simps)
  then have s: "set (t_seen ?t) = nearer spec T S (Suc d)" by (simp add: new(2) seen keys)
  have tags: "\<forall>r \<in> set (t_frontier ?t). \<exists>c \<in> T. \<exists>i p. r = tag_row spec i p c"
    using new(4,5) src unfolding level_source_def by fastforce
  have "\<forall>r \<in> set new. js_get ''__depth'' r = JNum (of_nat (Suc d))" using new(4) by fastforce
  then have out: "\<forall>r \<in> set (t_out ?t). \<exists>i \<le> Suc d. js_get ''__depth'' r = JNum (of_nat i) \<and> at_distance spec T S i (node_key spec r)"
    using inv keys unfolding new(1) bfs_inv_def set_append by (metis UnE image_eqI le_Suc_eq mem_Collect_eq)
  show "bfs_inv spec T S (Suc d) ?t"
    unfolding bfs_inv_def using s keys tags out by (simp add: new(5))
  show "t_byDepth ?t \<longleftrightarrow> t_byDepth t \<or> of_nat (Suc d) = rec_maxDepth spec \<and> (\<exists>k. at_distance spec T S (Suc d) k)"
    unfolding new(6) using keys by (cases new) auto
qed

lemma bfs_inv_seed:
  assumes cols: "plain_columns spec" and sub: "set (fetch 0 (seedWhere spec)) \<subseteq> T"
  shows "bfs_inv spec T (set (fetch 0 (seedWhere spec))) 0 (seed_level spec fetch)"
proof -
  note facts = seed_level_facts [of spec fetch]
  have "node_key spec ` set (map (tag_row spec 0 None) (fetch 0 (seedWhere spec))) =
      node_key spec ` set (fetch 0 (seedWhere spec))"
    by (simp add: image_image plain_columns_get [OF cols])
  with facts(2,4) have "set (t_seen (seed_level spec fetch)) = node_key spec ` set (fetch 0 (seedWhere spec))"
    "node_key spec ` set (t_frontier (seed_level spec fetch)) = node_key spec ` set (fetch 0 (seedWhere spec))"
    by simp_all
  moreover have "\<forall>r \<in> set (t_frontier (seed_level spec fetch)). \<exists>c \<in> T. \<exists>i p. r = tag_row spec i p c"
    using sub by (auto simp: facts(4))
  moreover have "js_get ''__depth'' r = JNum (of_nat 0) \<and> node_key spec r \<in> node_key spec ` set (fetch 0 (seedWhere spec))"
    if "r \<in> set (t_out (seed_level spec fetch))" for r
    using that facts(3) by (auto simp: plain_columns_get [OF cols])
  ultimately show ?thesis by (simp add: bfs_inv_def nearer_def at_distance_def)
qed

lemma expand_levels_bfs:
  assumes cols: "plain_columns spec" and keyed: "keyed_table spec T" and src: "level_source spec T fetch"
    and inv: "bfs_inv spec T S d t" "\<not> t_byRows t" "d \<le> D"
    and rows: "\<not> t_byRows (expand_levels spec fetch [Suc d..<Suc D] t)"
  shows "\<exists>e. d \<le> e \<and> e \<le> D \<and> bfs_inv spec T S e (expand_levels spec fetch [Suc d..<Suc D] t) \<and>
    (e = D \<or> (\<forall>k. \<not> at_distance spec T S (Suc e) k))"
  using inv rows
proof (induction "D - d" arbitrary: d t)
  case 0
  then show ?case by (intro exI [of _ d]) auto
next
  case (Suc n)
  then have lst: "[Suc d..<Suc D] = Suc d # [Suc (Suc d)..<Suc D]" by (simp add: upt_rec)
  show ?case
  proof (cases "frontier_keys spec (t_frontier t) = []")
    case True
    then have "expand_levels spec fetch [Suc d..<Suc D] t = t" by (simp add: lst del: upt_Suc)
    moreover have "set (fetch (Suc d) (level_where spec (frontier_keys spec (t_frontier t)))) = {}"
      using src True by (simp add: level_source_def)
    then have "\<forall>k. \<not> at_distance spec T S (Suc d) k"
      using level_fetched_keys [OF Suc.prems(1) cols keyed src] by (auto simp: at_distance_step)
    ultimately show ?thesis using Suc.prems by (intro exI [of _ d]) auto
  next
    case False
    then have ne: "t_frontier t \<noteq> []" by (auto simp: frontier_keys_def as_set_def)
    let ?t = "expand_level spec fetch (Suc d) t"
    have r: "\<not> t_byRows ?t" using Suc.prems(4) False ne by (simp add: lst Let_def del: upt_Suc split: if_splits)
    then have step: "expand_levels spec fetch [Suc d..<Suc D] t = expand_levels spec fetch [Suc (Suc d)..<Suc D] ?t"
      using False ne by (simp add: lst Let_def del: upt_Suc)
    have "n = D - Suc d" "Suc d \<le> D" using Suc.hyps(2) by auto
    from Suc.hyps(1) [OF this(1) bfs_inv_step(1) [OF Suc.prems(1) cols keyed src Suc.prems(2) r] r this(2)] Suc.prems(4)
    show ?thesis unfolding step by (meson Suc_leD)
  qed
qed

lemma add_children_length:
  assumes "length (w_out w) \<le> s \<or> of_nat (length (w_out w)) < rec_maxRows spec"
  shows "(\<not> w_full (add_children spec d fr cs w) \<longrightarrow>
       length (w_out (add_children spec d fr cs w)) \<le> s \<or>
       of_nat (length (w_out (add_children spec d fr cs w))) < rec_maxRows spec) \<and>
     length (w_out (add_children spec d fr cs w)) \<le> max (s + 1) (nat \<lceil>rec_maxRows spec\<rceil>)"
  using assms
proof (induction cs arbitrary: w)
  case (Nil w)
  have "of_nat n < rec_maxRows spec \<Longrightarrow> n \<le> nat \<lceil>rec_maxRows spec\<rceil>" for n by linarith
  with Nil show ?case by force
next
  case (Cons c cs)
  have "of_nat n < rec_maxRows spec \<Longrightarrow> Suc n \<le> nat \<lceil>rec_maxRows spec\<rceil>" for n by linarith
  then have len: "Suc (length (w_out w)) \<le> max (s + 1) (nat \<lceil>rec_maxRows spec\<rceil>)" using Cons.prems by force
  show ?case using Cons.IH Cons.prems len by (simp add: Let_def)
qed

lemma expand_levels_length:
  assumes "length (t_out t) \<le> s \<or> of_nat (length (t_out t)) < rec_maxRows spec"
  shows "length (t_out (expand_levels spec fetch ds t)) \<le> max (s + 1) (nat \<lceil>rec_maxRows spec\<rceil>) \<and>
    length (t_trace (expand_levels spec fetch ds t)) \<le> length (t_trace t) + length ds"
  using assms
proof (induction ds arbitrary: t)
  case (Nil t)
  have "of_nat n < rec_maxRows spec \<Longrightarrow> n \<le> nat \<lceil>rec_maxRows spec\<rceil>" for n by linarith
  with Nil show ?case by force
next
  case (Cons d ds)
  have old: "length (t_out t) \<le> max (s + 1) (nat \<lceil>rec_maxRows spec\<rceil>)"
  proof -
    have "of_nat n < rec_maxRows spec \<Longrightarrow> n \<le> nat \<lceil>rec_maxRows spec\<rceil>" for n by linarith
    with Cons.prems show ?thesis by force
  qed
  define w where "w = add_children spec d (t_frontier t) (fetch d (level_where spec (frontier_keys spec (t_frontier t))))
    \<lparr>w_seen = t_seen t, w_out = t_out t, w_next = [], w_full = False\<rparr>"
  have w: "\<not> w_full w \<longrightarrow> length (w_out w) \<le> s \<or> of_nat (length (w_out w)) < rec_maxRows spec"
    "length (w_out w) \<le> max (s + 1) (nat \<lceil>rec_maxRows spec\<rceil>)"
    using add_children_length [of "\<lparr>w_seen = t_seen t, w_out = t_out t, w_next = [], w_full = False\<rparr>" s spec d] Cons.prems
    unfolding w_def by simp_all
  have e: "t_out (expand_level spec fetch d t) = w_out w" "length (t_trace (expand_level spec fetch d t)) = Suc (length (t_trace t))"
    "\<not> t_byRows (expand_level spec fetch d t) \<Longrightarrow> \<not> w_full w"
    unfolding expand_level_def Let_def w_def [symmetric] by (auto split: if_splits)
  show ?case
  proof (cases "t_byRows (expand_level spec fetch d t)")
    case True
    with w old e show ?thesis by (simp add: Let_def)
  next
    case False
    with Cons.IH [of "expand_level spec fetch d t"] w e old show ?thesis by (simp add: Let_def)
  qed
qed

section \<open>Properties\<close>

lemma hop_in: "S \<subseteq> T \<Longrightarrow> hop spec T S n \<subseteq> node_key spec ` T"
  by (cases n) (auto simp: next_keys_def)

text \<open>
  C9: with a source that answers from one table, whose node keys are primitive values, and no row cut-off, the traversal returns
  exactly the nodes reachable from the seeds within the depth bound, each once, and each with
  its distance from the seeds as its depth.
\<close>

theorem recursive_run_is_bfs:
  assumes cols: "plain_columns spec" and keyed: "keyed_table spec T" and src: "level_source spec T fetch"
    and seeds: "set (fetch 0 (seedWhere spec)) \<subseteq> T"
    and rows: "\<not> rr_truncatedByRows (recursive_run spec fetch)"
  shows "distinct (map (node_key spec) (rr_rows (recursive_run spec fetch))) \<and>
    (\<forall>k d. (\<exists>row \<in> set (rr_rows (recursive_run spec fetch)). node_key spec row = k \<and> js_get ''depth'' row = JNum (of_nat d)) \<longleftrightarrow>
      at_distance spec T (set (fetch 0 (seedWhere spec))) d k \<and> of_nat d \<le> rec_maxDepth spec)"
proof -
  define S where "S = set (fetch 0 (seedWhere spec))"
  define D where "D = nat \<lfloor>rec_maxDepth spec\<rfloor>"
  define t where "t = expand_levels spec fetch [Suc 0..<Suc D] (seed_level spec fetch)"
  have run: "rr_rows (recursive_run spec fetch) = map (normalise_row spec) (t_out t)"
    "rr_truncatedByRows (recursive_run spec fetch) = t_byRows t"
    by (simp_all add: recursive_run_def depths_def t_def D_def Let_def)
  have child: "rs_child spec \<notin> set rec_internal" using cols by (simp add: plain_columns_def)
  have nk: "node_key spec (normalise_row spec r) = node_key spec r" for r
    by (simp add: node_key_def normalise_row_get [OF child])
  have shape: "walk_shape spec t"
    unfolding t_def by (rule expand_levels_shape [OF child seed_level_facts(1)])
  have D: "of_nat d \<le> rec_maxDepth spec \<longleftrightarrow> d \<le> D" for d :: nat
  proof
    have "of_nat D \<le> rec_maxDepth spec"
      unfolding D_def by (rule of_nat_floor) (simp add: rec_maxDepth_def rec_clamp_def)
    then show "of_nat d \<le> rec_maxDepth spec" if "d \<le> D"
      using that by (meson of_nat_mono order_trans)
  next
    assume "of_nat d \<le> rec_maxDepth spec"
    then have "int d \<le> \<lfloor>rec_maxDepth spec\<rfloor>" by (simp add: le_floor_iff)
    then show "d \<le> D" by (simp add: D_def)
  qed
  obtain e where e: "e \<le> D" "bfs_inv spec T S e t" "e = D \<or> (\<forall>k. \<not> at_distance spec T S (Suc e) k)"
    using expand_levels_bfs [OF cols keyed src bfs_inv_seed [of spec fetch T, OF cols seeds], of D] rows
    unfolding run(2) t_def [symmetric] S_def [symmetric] by (auto simp: seed_level_facts(5))
  have far: "\<not> at_distance spec T S d k" if "e < d" "d \<le> D" for d k
    using e(3) no_further [of spec T S e d k] that by auto
  have seen: "node_key spec ` set (t_out t) = nearer spec T S e"
    using e(2) shape by (simp add: bfs_inv_def walk_shape_def flip: set_map)
  have "(\<exists>row \<in> set (t_out t). node_key spec row = k \<and> js_get ''__depth'' row = JNum (of_nat d)) \<longleftrightarrow>
      at_distance spec T S d k \<and> d \<le> D" for k d
  proof
    assume "\<exists>row \<in> set (t_out t). node_key spec row = k \<and> js_get ''__depth'' row = JNum (of_nat d)"
    then show "at_distance spec T S d k \<and> d \<le> D" using e(1,2) by (force simp: bfs_inv_def)
  next
    assume k: "at_distance spec T S d k \<and> d \<le> D"
    then have "d \<le> e" using far by (meson not_le_imp_less)
    with k have "k \<in> node_key spec ` set (t_out t)" unfolding seen by (auto simp: nearer_def at_distance_def)
    then obtain row where row: "row \<in> set (t_out t)" "node_key spec row = k" by auto
    with e(2) obtain i where "js_get ''__depth'' row = JNum (of_nat i)" "at_distance spec T S i k"
      by (auto simp: bfs_inv_def)
    with row k show "\<exists>row \<in> set (t_out t). node_key spec row = k \<and> js_get ''__depth'' row = JNum (of_nat d)"
      using at_distance_unique by blast
  qed
  moreover have "list_all by_value (map (node_key spec) (t_out t))"
  proof -
    have "by_value k" if "k \<in> nearer spec T S e" for k
      using that hop_in [of S T spec] seeds keyed unfolding S_def nearer_def keyed_table_def by blast
    then show ?thesis using seen by (auto simp: list_all_iff)
  qed
  then have "distinct (map (node_key spec) (t_out t))" using shape once_in_primitive unfolding walk_shape_def by metis
  ultimately show ?thesis
    unfolding run(1) D S_def [symmetric] by (simp add: nk comp_def normalise_row_depth)
qed

text \<open>An organisation: 1 above 2 and 3, and 2 above 4; the rows below 1, two levels at most.\<close>

definition org_spec :: recursive_spec where
  "org_spec = \<lparr>rs_parent = ''manager_id'', rs_child = ''id'', rs_anchor = [], rs_startWith = [],
     rs_direction = ''down'', rs_maxDepth = JNum 2, rs_maxRows = JUndef, rs_pathColumn = ''id''\<rparr>"

definition org_row :: "nat \<Rightarrow> jsval \<Rightarrow> jsval" where
  "org_row i m = JObj [(''id'', JNum (of_nat i)), (''manager_id'', m)]"

definition org_table :: "jsval list" where
  "org_table = [org_row 1 JNull, org_row 2 (JNum 1), org_row 3 (JNum 1), org_row 4 (JNum 2)]"

definition org_fetch :: level_fetch where
  "org_fetch n conds = (if n = 0 then [org_row 1 JNull]
     else filter (\<lambda>r. list_all (\<lambda>c. js_get (lc_column c) r \<in> set (arr_of (lc_value c))) conds) org_table)"

lemma recursive_run_is_bfs_witness:
  "(\<exists>row \<in> set (rr_rows (recursive_run org_spec org_fetch)). node_key org_spec row = JNum 4 \<and> js_get ''depth'' row = JNum (of_nat 2)) \<longleftrightarrow>
    at_distance org_spec (set org_table) (set (org_fetch 0 (seedWhere org_spec))) 2 (JNum 4) \<and> of_nat 2 \<le> rec_maxDepth org_spec"
proof -
  have cols: "plain_columns org_spec" unfolding plain_columns_def by code_simp
  have keyed: "keyed_table org_spec (set org_table)" unfolding keyed_table_def by code_simp
  have src: "level_source org_spec (set org_table) org_fetch"
    by (auto simp: level_source_def org_fetch_def level_where_def)
  have seeds: "set (org_fetch 0 (seedWhere org_spec)) \<subseteq> set org_table" by (simp add: org_fetch_def org_table_def)
  have "\<not> rr_truncatedByRows (recursive_run org_spec org_fetch)" by code_simp
  from recursive_run_is_bfs [OF cols keyed src seeds this] show ?thesis by blast
qed

text \<open>
  C26: whatever the source answers, cyclic data included, the traversal ends after at most
  maxDepth expansions (101 levels at the most), returns every node whose key is a primitive value once, and beyond the seed
  rows never more rows than the row cap (or one more row than there are seeds). A node whose key is an object may
  come back in every level, as the lemma below shows.
\<close>

theorem recursive_run_bounded:
  assumes "rs_child spec \<notin> set rec_internal"
  shows "distinct (filter by_value (map (node_key spec) (rr_rows (recursive_run spec fetch)))) \<and>
    rr_levels (recursive_run spec fetch) \<le> Suc (nat \<lfloor>rec_maxDepth spec\<rfloor>) \<and> rec_maxDepth spec \<le> 100 \<and>
    length (rr_rows (recursive_run spec fetch))
      \<le> max (length (fetch 0 (seedWhere spec)) + 1) (nat \<lceil>rec_maxRows spec\<rceil>)"
proof -
  define t where "t = expand_levels spec fetch (depths spec) (seed_level spec fetch)"
  have run: "rr_rows (recursive_run spec fetch) = map (normalise_row spec) (t_out t)"
    "rr_levels (recursive_run spec fetch) = length (t_trace t)"
    by (simp_all add: recursive_run_def t_def Let_def)
  have "walk_shape spec t"
    unfolding t_def by (rule expand_levels_shape [OF assms seed_level_facts(1)])
  then have "distinct (filter by_value (map (node_key spec) (t_out t)))" unfolding walk_shape_def once_in_def by metis
  moreover have "node_key spec \<circ> normalise_row spec = node_key spec"
    by (simp add: fun_eq_iff node_key_def normalise_row_get [OF assms])
  moreover have "length (t_trace (seed_level spec fetch)) = 1" by (simp add: seed_level_def Let_def case_prod_beta)
  then have "length (t_trace t) \<le> Suc (nat \<lfloor>rec_maxDepth spec\<rfloor>)"
    using expand_levels_length [of "seed_level spec fetch" "length (fetch 0 (seedWhere spec))" spec fetch "depths spec"]
      seed_level_facts(6) [of spec fetch] by (simp add: t_def depths_def del: upt_Suc)
  moreover have "length (t_out t) \<le> max (length (fetch 0 (seedWhere spec)) + 1) (nat \<lceil>rec_maxRows spec\<rceil>)"
    using expand_levels_length [of "seed_level spec fetch" "length (fetch 0 (seedWhere spec))" spec fetch "depths spec"]
      seed_level_facts(6) [of spec fetch] by (simp add: t_def)
  moreover have "rec_maxDepth spec \<le> 100" by (simp add: rec_maxDepth_def rec_clamp_def)
  ultimately show ?thesis unfolding run by simp
qed

lemma recursive_run_bounded_witness:
  "rr_levels (recursive_run org_spec (\<lambda>_ _. org_table)) \<le> Suc (nat \<lfloor>rec_maxDepth org_spec\<rfloor>)"
  using recursive_run_bounded [of org_spec "\<lambda>_ _. org_table"] by (simp add: org_spec_def rec_internal_def)

text \<open>
  One document whose key is an object, above itself: three levels return it three times.
\<close>

lemma object_key_repeats:
  fixes doc :: jsval
  defines "doc \<equiv> JObj [(''_id'', JObj [(''oid'', JStr ''5f'')]), (''boss'', JObj [(''oid'', JStr ''5f'')])]"
  shows "length (rr_rows (recursive_run (org_spec\<lparr>rs_parent := ''boss'', rs_child := ''_id''\<rparr>) (\<lambda>_ _. [doc]))) = 3"
  unfolding doc_def by code_simp

text \<open>
  The row cap does not cover the seed rows: a cap of one row, three roots, and the three
  rows come back with no sign of truncation.
\<close>

theorem seeds_escape_row_cap:
  "length (rr_rows (recursive_run (org_spec\<lparr>rs_maxRows := JNum 1\<rparr>)
     (\<lambda>n _. if n = 0 then [org_row 1 JNull, org_row 2 JNull, org_row 3 JNull] else []))) = 3 \<and>
   \<not> rr_truncatedByRows (recursive_run (org_spec\<lparr>rs_maxRows := JNum 1\<rparr>)
     (\<lambda>n _. if n = 0 then [org_row 1 JNull, org_row 2 JNull, org_row 3 JNull] else []))"
  by code_simp

end
