(* ===== verification/CopyRead.thy ===== *)
theory CopyRead
  imports JsValue
begin

text \<open>
  \<open>modules/sync/copy_util.ts\<close>, the checkpoint store of \<open>modules/jobs/copy_job_engine.ts\<close> and
  \<open>copyTable\<close> of \<open>modules/sync/physical_sync.service.ts\<close>: a table is copied page by page, the
  effects of the copy are a list of events, and a crash keeps a prefix of them. The reader, the
  pause flag, the heap samples and the failures of the sink are parameters indexed by the
  iteration; sizes are natural numbers.
\<close>

section \<open>Options\<close>

record copy_opts =
  co_batchSize :: "nat option"
  co_memCeilingMb :: "nat option"
  co_maxRows :: "nat option"

definition positive_or :: "nat option \<Rightarrow> nat \<Rightarrow> nat" where
  "positive_or o1 d = (case o1 of Some n \<Rightarrow> if n > 0 then n else d | None \<Rightarrow> d)"

definition resolveOpts :: "copy_opts \<Rightarrow> nat \<times> nat \<times> nat" where
  "resolveOpts oo = (positive_or (co_batchSize oo) 1000, positive_or (co_memCeilingMb oo) 1024,
     positive_or (co_maxRows oo) 5000000)"

text \<open>The heap before and after a collection against the ceiling.\<close>

definition memGuard :: "rat \<times> rat \<Rightarrow> nat \<Rightarrow> bool" where
  "memGuard heap ceil_mb \<longleftrightarrow> fst heap \<le> of_nat ceil_mb \<or> snd heap \<le> of_nat ceil_mb"

text \<open>The estimate of the total, from what the source answered (\<open>None\<close>: the call failed).\<close>

definition countRows :: "jsval option \<Rightarrow> rat option" where
  "countRows r = (case r of
     None \<Rightarrow> None
   | Some a \<Rightarrow>
       (case arr_of a of
          [] \<Rightarrow> Some 0
        | row # _ \<Rightarrow>
            if \<not> truthy row then Some 0
            else js_number (coalesce (js_get ''__cnt'' row) (coalesce (js_get ''cnt'' row)
              (coalesce (js_get ''count'' row) (coalesce (js_get ''COUNT'' row)
              (case obj_of row of [] \<Rightarrow> JUndef | (_, v) # _ \<Rightarrow> v)))))))"

section \<open>The paged read\<close>

record page_query =
  pq_limit :: nat
  pq_orderBy :: "string option"
  pq_after :: "jsval option"
  pq_offset :: "nat option"

record copy_env =
  ce_reader :: "nat \<Rightarrow> page_query \<Rightarrow> jsval list"
  ce_stop :: "nat \<Rightarrow> bool"
  ce_heap :: "nat \<Rightarrow> rat \<times> rat"
  ce_sinkFails :: "nat \<Rightarrow> nat option"
  ce_progress :: bool
  ce_keyCol :: string
  ce_batch :: nat
  ce_ceiling :: nat
  ce_maxRows :: nat

datatype copy_event =
    EvRebuild
  | EvBatch "jsval list"
  | EvSave jsval nat bool

datatype copy_end = CopyDone nat jsval | CopyPaused | CopyFailed

definition is_keyset :: "copy_env \<Rightarrow> bool" where
  "is_keyset e \<longleftrightarrow> ce_keyCol e \<noteq> []"

definition page_of :: "copy_env \<Rightarrow> jsval \<Rightarrow> nat \<Rightarrow> page_query" where
  "page_of e lastKey offset =
     (if is_keyset e
      then \<lparr>pq_limit = ce_batch e, pq_orderBy = Some (ce_keyCol e),
            pq_after = (if nullish lastKey then None else Some lastKey), pq_offset = None\<rparr>
      else \<lparr>pq_limit = ce_batch e, pq_orderBy = None, pq_after = None, pq_offset = Some offset\<rparr>)"

definition cursor_of :: "copy_env \<Rightarrow> jsval \<Rightarrow> nat \<Rightarrow> jsval" where
  "cursor_of e lastKey offset = (if is_keyset e then lastKey else JNum (of_nat offset))"

text \<open>
  \<open>paged_loop e i tot lastKey offset\<close>: iteration \<open>i\<close>. It always ends, whatever the reader
  answers: a page that does not end the loop adds at least one row below the cap.
\<close>

function paged_loop :: "copy_env \<Rightarrow> nat \<Rightarrow> nat \<Rightarrow> jsval \<Rightarrow> nat \<Rightarrow> copy_event list \<times> copy_end" where
  "paged_loop e i tot lastKey offset =
     (if ce_stop e i then ([], CopyPaused)
      else if \<not> memGuard (ce_heap e i) (ce_ceiling e) then ([], CopyFailed)
      else let rows = ce_reader e i (page_of e lastKey offset) in
        if rows = [] then ([], CopyDone tot (cursor_of e lastKey offset))
        else (case ce_sinkFails e i of
            Some k \<Rightarrow> ([EvBatch (take k rows)], CopyFailed)
          | None \<Rightarrow>
              let tot' = tot + length rows;
                  lastKey' = (if is_keyset e then js_get (ce_keyCol e) (last rows) else lastKey);
                  offset' = (if is_keyset e then offset else offset + length rows);
                  evs = EvBatch rows # (if ce_progress e then [EvSave (cursor_of e lastKey' offset') tot' False] else [])
              in if length rows < ce_batch e then (evs, CopyDone tot' (cursor_of e lastKey' offset'))
                 else if tot' \<ge> ce_maxRows e then (evs, CopyFailed)
                 else (case paged_loop e (Suc i) tot' lastKey' offset' of (evs', fin) \<Rightarrow> (evs @ evs', fin))))"
  by pat_completeness auto

termination
  by (relation "measure (\<lambda>(e, i, tot, lastKey, offset). ce_maxRows e - tot)")
    (auto simp: Let_def neq_Nil_conv)

declare paged_loop.simps [simp del]

definition pagedRead :: "copy_env \<Rightarrow> jsval \<Rightarrow> nat \<Rightarrow> copy_event list \<times> copy_end" where
  "pagedRead e startCursor priorRows =
     paged_loop e 0 priorRows (if is_keyset e then coalesce startCursor JUndef else JUndef)
       (if is_keyset e then 0
        else (case js_number (if truthy startCursor then startCursor else JNum 0) of Some q \<Rightarrow> nat \<lfloor>q\<rfloor> | None \<Rightarrow> 0))"

section \<open>Checkpoints\<close>

record checkpoint =
  cp_cursor :: "string option"
  cp_rows :: nat
  cp_done :: bool

text \<open>\<open>/^-?\d{1,15}$/\<close>: a stored cursor that reads as a short integer becomes a number again.\<close>

definition short_integer :: "string \<Rightarrow> bool" where
  "short_integer s \<longleftrightarrow>
     (let ds = (case s of c # t \<Rightarrow> if c = CHR ''-'' then t else s | [] \<Rightarrow> s)
      in 1 \<le> length ds \<and> length ds \<le> 15 \<and> list_all is_digit ds)"

definition load_cursor :: "string option \<Rightarrow> jsval" where
  "load_cursor c = (case c of
     None \<Rightarrow> JNull
   | Some s \<Rightarrow> if short_integer s then num_or_nan (number_of_string s) else JStr s)"

definition store_cursor :: "jsval \<Rightarrow> string option" where
  "store_cursor v = (if nullish v then None else Some (js_string v))"

section \<open>Copying one table\<close>

text \<open>The replica (absent, or its rows) and the checkpoint of the table.\<close>

record copy_state =
  cs_hub :: "jsval list option"
  cs_check :: "checkpoint option"

definition upsert_row :: "string \<Rightarrow> jsval list \<Rightarrow> jsval \<Rightarrow> jsval list" where
  "upsert_row pk hub r =
     (if js_get pk r \<in> set (map (js_get pk) hub)
      then map (\<lambda>h. if js_get pk h = js_get pk r then r else h) hub
      else hub @ [r])"

definition bulkUpsert :: "string \<Rightarrow> jsval list \<Rightarrow> jsval list \<Rightarrow> jsval list" where
  "bulkUpsert pk hub rows = foldl (upsert_row pk) hub rows"

definition can_resume :: "string \<Rightarrow> copy_state \<Rightarrow> bool" where
  "can_resume keyCol s \<longleftrightarrow> cs_check s \<noteq> None \<and> keyCol \<noteq> [] \<and> cs_hub s \<noteq> None"

text \<open>The effect of one event; a resumed copy upserts, a fresh one inserts.\<close>

definition apply_event :: "string \<Rightarrow> bool \<Rightarrow> copy_state \<Rightarrow> copy_event \<Rightarrow> copy_state" where
  "apply_event pk resumed s ev = (case ev of
     EvRebuild \<Rightarrow> s\<lparr>cs_hub := Some []\<rparr>
   | EvBatch rows \<Rightarrow>
       s\<lparr>cs_hub := map_option (\<lambda>hub. if resumed then bulkUpsert pk hub rows else hub @ rows) (cs_hub s)\<rparr>
   | EvSave c n fin \<Rightarrow> s\<lparr>cs_check := Some \<lparr>cp_cursor = store_cursor c, cp_rows = n, cp_done = fin\<rparr>\<rparr>)"

text \<open>
  The events of one call of \<open>copyTable\<close>, with a checkpoint provider. A table already marked
  done is skipped; without a resumable checkpoint the replica is dropped and created again.
\<close>

definition copyTable :: "copy_env \<Rightarrow> copy_state \<Rightarrow> copy_event list \<times> copy_end" where
  "copyTable e s =
     (case cs_check s of
        Some c \<Rightarrow>
          if cp_done c then ([], CopyDone (cp_rows c) (load_cursor (cp_cursor c)))
          else
            let resumed = can_resume (ce_keyCol e) s;
                cur = (if resumed then load_cursor (cp_cursor c) else JNull);
                prior = (if resumed then cp_rows c else 0)
            in (case pagedRead e cur prior of (evs, fin) \<Rightarrow>
                  ((if resumed then [] else [EvRebuild]) @ [EvSave cur prior False] @ evs
                     @ (case fin of CopyDone n k \<Rightarrow> [EvSave k n True] | _ \<Rightarrow> []), fin))
      | None \<Rightarrow>
          (case pagedRead e JNull 0 of (evs, fin) \<Rightarrow>
             ([EvRebuild, EvSave JNull 0 False] @ evs @ (case fin of CopyDone n k \<Rightarrow> [EvSave k n True] | _ \<Rightarrow> []), fin)))"

definition run_events :: "copy_env \<Rightarrow> copy_state \<Rightarrow> copy_event list \<Rightarrow> copy_state" where
  "run_events e s evs = foldl (apply_event (ce_keyCol e) (can_resume (ce_keyCol e) s)) s evs"

section \<open>Attempts and crashes\<close>

text \<open>
  A worker that dies leaves a prefix of the events, the last batch possibly applied in part.
  A failed or paused attempt is one whose events were all applied.
\<close>

inductive crashed :: "copy_event list \<Rightarrow> copy_event list \<Rightarrow> bool" where
  crash_now: "crashed evs []"
| crash_batch: "crashed (EvBatch rows # evs) [EvBatch (take j rows)]"
| crash_later: "crashed evs evs' \<Longrightarrow> crashed (ev # evs) (ev # evs')"

lemma crashed_refl: "crashed evs evs"
  by (induction evs) (auto intro: crashed.intros)

inductive_cases crashed_NilE: "crashed [] evs'"
inductive_cases crashed_ConsE: "crashed (ev # evs) evs'"

inductive copy_runs :: "(copy_env \<Rightarrow> bool) \<Rightarrow> copy_state \<Rightarrow> copy_state \<Rightarrow> bool" for ok where
  no_run: "copy_runs ok s s"
| one_run: "copy_runs ok s s' \<Longrightarrow> ok e \<Longrightarrow> copyTable e s' = (evs, fin) \<Longrightarrow> crashed evs evs' \<Longrightarrow>
     copy_runs ok s (run_events e s' evs')"

section \<open>A source with a key\<close>

text \<open>
  The source table \<open>T\<close> in the order of its key, which is unique, never null and survives its
  storage as text; the reader returns the first rows after the cursor in that order.
\<close>

definition keyed_rows :: "(jsval \<Rightarrow> jsval \<Rightarrow> bool) \<Rightarrow> string \<Rightarrow> jsval list \<Rightarrow> bool" where
  "keyed_rows lt k T \<longleftrightarrow> sorted_wrt lt (map (js_get k) T) \<and>
     (\<forall>a b. lt a b \<longrightarrow> \<not> lt b a) \<and>
     (\<forall>r \<in> set T. \<not> nullish (js_get k r) \<and> load_cursor (store_cursor (js_get k r)) = js_get k r)"

definition keyset_env :: "(jsval \<Rightarrow> jsval \<Rightarrow> bool) \<Rightarrow> string \<Rightarrow> jsval list \<Rightarrow> copy_env \<Rightarrow> bool" where
  "keyset_env lt k T e \<longleftrightarrow> ce_keyCol e = k \<and> ce_progress e \<and> 0 < ce_batch e \<and>
     (\<forall>i q. pq_orderBy q = Some k \<longrightarrow> ce_reader e i q =
        take (pq_limit q) (case pq_after q of None \<Rightarrow> T | Some c \<Rightarrow> filter (\<lambda>r. lt c (js_get k r)) T))"

lemma sorted_wrt_filter_drop:
  assumes "sorted_wrt lt (map f T)" "\<And>a b. lt a b \<Longrightarrow> \<not> lt b a" "0 < n" "n \<le> length T"
  shows "filter (\<lambda>r. lt (f (T ! (n - 1))) (f r)) T = drop n T"
proof -
  define x where "x = f (T ! (n - 1))"
  have split: "T = take (n - 1) T @ T ! (n - 1) # drop n T"
    using assms(3,4) id_take_nth_drop [of "n - 1" T] by simp
  have "sorted_wrt lt (map f (take (n - 1) T) @ x # map f (drop n T))"
    using assms(1) by (subst (asm) split) (simp add: x_def)
  then have "\<forall>r \<in> set (take (n - 1) T). lt (f r) x" "\<forall>r \<in> set (drop n T). lt x (f r)"
    by (auto simp: sorted_wrt_append)
  moreover have "\<not> lt x x" using assms(2) by blast
  ultimately have "filter (\<lambda>r. lt x (f r)) (take (n - 1) T @ T ! (n - 1) # drop n T) = drop n T"
    using assms(2) by (auto simp: x_def filter_empty_conv filter_id_conv)
  then show ?thesis by (subst split) (simp add: x_def)
qed

text \<open>The cursor after \<open>n\<close> rows.\<close>

definition cursor_at :: "string \<Rightarrow> jsval list \<Rightarrow> nat \<Rightarrow> jsval" where
  "cursor_at k T n = (if n = 0 then JNull else js_get k (T ! (n - 1)))"

lemma keyset_page:
  assumes "keyed_rows lt k T" "keyset_env lt k T e" "k \<noteq> []" "n \<le> length T"
    and "n = 0 \<and> nullish last_key \<or> 0 < n \<and> last_key = cursor_at k T n"
  shows "ce_reader e i (page_of e last_key off) = take (ce_batch e) (drop n T)"
proof (cases "n = 0")
  case True
  with assms show ?thesis by (simp add: page_of_def is_keyset_def keyset_env_def)
next
  case False
  then have lk: "last_key = js_get k (T ! (n - 1))" using assms(5) by (simp add: cursor_at_def)
  have "T ! (n - 1) \<in> set T" using False assms(4) by simp
  then have "\<not> nullish last_key" using assms(1) lk by (simp add: keyed_rows_def)
  with assms(2,3) have "ce_reader e i (page_of e last_key off) =
      take (ce_batch e) (filter (\<lambda>r. lt last_key (js_get k r)) T)"
    by (simp add: page_of_def is_keyset_def keyset_env_def)
  moreover have "filter (\<lambda>r. lt last_key (js_get k r)) T = drop n T"
    unfolding lk by (rule sorted_wrt_filter_drop) (use assms(1,4) False in \<open>auto simp: keyed_rows_def\<close>)
  ultimately show ?thesis by simp
qed

section \<open>The events of an attempt\<close>

inductive good_events :: "string \<Rightarrow> jsval list \<Rightarrow> nat \<Rightarrow> copy_event list \<Rightarrow> bool" for k T where
  good_nil: "good_events k T n []"
| good_part: "good_events k T n [EvBatch (take j (drop n T))]"
| good_page: "m = n + length (take j (drop n T)) \<Longrightarrow> good_events k T m evs \<Longrightarrow>
    store_cursor c = store_cursor (cursor_at k T m) \<Longrightarrow>
    good_events k T n (EvBatch (take j (drop n T)) # EvSave c m False # evs)"
| good_end: "n = length T \<Longrightarrow> store_cursor c = store_cursor (cursor_at k T n) \<Longrightarrow>
    good_events k T n [EvSave c n True]"

lemma good_crashed: "good_events k T n evs \<Longrightarrow> crashed evs evs' \<Longrightarrow> good_events k T n evs'"
proof (induction arbitrary: evs' rule: good_events.induct)
  case (good_page m n j evs c)
  then show ?case by (auto elim!: crashed_ConsE intro: good_events.intros)
next
  case (good_part n j)
  then show ?case
    by (auto elim!: crashed_ConsE crashed_NilE intro: good_events.intros)
next
  case (good_end n c)
  then show ?case by (auto elim!: crashed_ConsE crashed_NilE intro: good_events.intros)
qed (auto elim: crashed_NilE intro: good_events.intros)

definition no_faults :: "copy_env \<Rightarrow> bool" where
  "no_faults e \<longleftrightarrow> (\<forall>i. \<not> ce_stop e i \<and> memGuard (ce_heap e i) (ce_ceiling e) \<and> ce_sinkFails e i = None)"

text \<open>The paged read from position \<open>n\<close> produces good events and ends only at the end of the table.\<close>

lemma paged_loop_good:
  assumes src: "keyed_rows lt k T" "k \<noteq> []"
  shows "keyset_env lt k T e \<Longrightarrow> n \<le> length T \<Longrightarrow> n = 0 \<and> nullish last_key \<or> 0 < n \<and> last_key = cursor_at k T n \<Longrightarrow>
    paged_loop e i n last_key off = (evs, fin) \<Longrightarrow>
    good_events k T n (evs @ (case fin of CopyDone m c \<Rightarrow> [EvSave c m True] | _ \<Rightarrow> [])) \<and>
    (\<forall>m c. fin = CopyDone m c \<longrightarrow> m = length T) \<and>
    (no_faults e \<and> length T < ce_maxRows e \<longrightarrow> (\<exists>m c. fin = CopyDone m c))"
proof (induction e i n last_key off arbitrary: evs fin rule: paged_loop.induct)
  case (1 e i n last_key off)
  note env = 1(2) and n = 1(3) and cur = 1(4) and run = 1(5)
  have key: "is_keyset e" "ce_keyCol e = k" "ce_progress e" "0 < ce_batch e"
    using env src(2) by (auto simp: keyset_env_def is_keyset_def)
  define rows where "rows = ce_reader e i (page_of e last_key off)"
  have rows: "rows = take (ce_batch e) (drop n T)"
    unfolding rows_def by (rule keyset_page [OF src(1) env src(2) n cur])
  define m where "m = n + length rows"
  have sc: "store_cursor last_key = store_cursor (cursor_at k T n)"
    using cur by (auto simp: cursor_at_def store_cursor_def)
  have step: "paged_loop e i n last_key off =
     (if ce_stop e i then ([], CopyPaused)
      else if \<not> memGuard (ce_heap e i) (ce_ceiling e) then ([], CopyFailed)
      else if rows = [] then ([], CopyDone n last_key)
      else (case ce_sinkFails e i of
            Some j \<Rightarrow> ([EvBatch (take j rows)], CopyFailed)
          | None \<Rightarrow>
              if length rows < ce_batch e then ([EvBatch rows, EvSave (js_get k (last rows)) m False], CopyDone m (js_get k (last rows)))
              else if m \<ge> ce_maxRows e then ([EvBatch rows, EvSave (js_get k (last rows)) m False], CopyFailed)
              else (case paged_loop e (Suc i) m (js_get k (last rows)) off of
                 (evs', fin) \<Rightarrow> (EvBatch rows # EvSave (js_get k (last rows)) m False # evs', fin))))"
    by (subst paged_loop.simps, cases "ce_sinkFails e i") (simp_all add: rows_def [symmetric] Let_def m_def key cursor_of_def)
  show ?case
  proof (cases "ce_stop e i \<or> \<not> memGuard (ce_heap e i) (ce_ceiling e)")
    case True
    with run show ?thesis unfolding step by (auto simp: no_faults_def intro: good_events.intros split: if_splits)
  next
    case False
    show ?thesis
    proof (cases "rows = []")
      case True
      then have "n = length T" using n key(4) by (simp add: rows)
      with True False run sc show ?thesis unfolding step by (auto intro: good_events.intros)
    next
      case ne: False
      have m: "m \<le> length T" "0 < m" using n ne by (auto simp: m_def rows)
      have lastk: "js_get k (last rows) = cursor_at k T m"
      proof -
        have nth: "rows ! j = T ! (n + j)" if "j < length rows" for j using that n by (simp add: rows)
        have "last rows = T ! (n + (length rows - 1))" using ne nth [of "length rows - 1"] by (simp add: last_conv_nth)
        moreover have "n + (length rows - 1) = m - 1" using ne by (cases rows) (simp_all add: m_def)
        ultimately show ?thesis using m by (simp add: cursor_at_def)
      qed
      have page: "good_events k T n (EvBatch rows # EvSave (js_get k (last rows)) m False # es)" if "good_events k T m es" for es
        using that lastk unfolding rows by (intro good_events.good_page) (simp_all add: m_def rows)
      show ?thesis
      proof (cases "ce_sinkFails e i")
        case (Some j)
        with run False ne have "evs = [EvBatch (take (min j (ce_batch e)) (drop n T))]" "fin = CopyFailed"
          unfolding step by (simp_all add: rows)
        with Some show ?thesis by (auto simp: no_faults_def intro: good_events.good_part)
      next
        case None
        show ?thesis
        proof (cases "length rows < ce_batch e \<or> m \<ge> ce_maxRows e")
          case True
          show ?thesis
          proof (cases "length rows < ce_batch e")
            case True
            then have "m = length T" using n by (simp add: m_def rows)
            with True None run False ne page [OF good_events.good_end] lastk show ?thesis unfolding step by auto
          next
            case full: False
            with True None run False ne page [OF good_events.good_nil] m show ?thesis unfolding step by auto
          qed
        next
          case more: False
          obtain evs' fin' where rec: "paged_loop e (Suc i) m (js_get k (last rows)) off = (evs', fin')" by force
          with more None run False ne have ev: "evs = EvBatch rows # EvSave (js_get k (last rows)) m False # evs'" "fin = fin'"
            unfolding step by auto
          have "good_events k T m (evs' @ (case fin' of CopyDone m c \<Rightarrow> [EvSave c m True] | _ \<Rightarrow> [])) \<and>
              (\<forall>m c. fin' = CopyDone m c \<longrightarrow> m = length T) \<and>
              (no_faults e \<and> length T < ce_maxRows e \<longrightarrow> (\<exists>m c. fin' = CopyDone m c))"
            by (rule 1(1) [OF _ _ rows_def _ None m_def _ _ _ _ _ env _ _ rec])
              (use False ne more m lastk key in auto)
          with page ev show ?thesis by auto
        qed
      qed
    qed
  qed
qed

section \<open>The replica between attempts\<close>

lemma sorted_wrt_distinct: "sorted_wrt lt xs \<Longrightarrow> (\<forall>a b. lt a b \<longrightarrow> \<not> lt b a) \<Longrightarrow> distinct xs"
  by (induction xs) auto

lemma keyed_rows_distinct: "keyed_rows lt k T \<Longrightarrow> distinct (map (js_get k) T)"
  unfolding keyed_rows_def by (elim conjE, rule sorted_wrt_distinct)

lemma upsert_row_known:
  assumes "distinct (map (js_get k) T)" "set h \<subseteq> set T" "r \<in> set T"
  shows "upsert_row k h r = (if r \<in> set h then h else h @ [r])"
proof -
  have inj: "a = b" if "a \<in> set T" "b \<in> set T" "js_get k a = js_get k b" for a b
    using that assms(1) by (auto simp: distinct_map inj_on_def)
  have iff: "js_get k r \<in> set (map (js_get k) h) \<longleftrightarrow> r \<in> set h"
    using inj [OF _ assms(3)] assms(2) by auto
  have "map (\<lambda>x. if js_get k x = js_get k r then r else x) h = h"
    by (rule map_idI) (use inj [OF _ assms(3)] assms(2) in auto)
  then show ?thesis unfolding upsert_row_def iff by simp
qed

lemma bulkUpsert_known:
  assumes "distinct (map (js_get k) T)"
  shows "set rows \<subseteq> set T \<Longrightarrow> set h \<subseteq> set T \<Longrightarrow> distinct (map (js_get k) h) \<Longrightarrow>
    set (bulkUpsert k h rows) = set h \<union> set rows \<and> distinct (map (js_get k) (bulkUpsert k h rows))"
proof (induction rows arbitrary: h)
  case (Cons r rows)
  have inj: "a = r" if "a \<in> set T" "js_get k a = js_get k r" for a
  proof -
    have "inj_on (js_get k) (set T)" using assms by (simp add: distinct_map)
    moreover have "r \<in> set T" using Cons.prems(1) by simp
    ultimately show ?thesis using that by (blast dest: inj_onD)
  qed
  have up: "upsert_row k h r = (if r \<in> set h then h else h @ [r])"
    by (rule upsert_row_known [OF assms Cons.prems(2)]) (use Cons.prems(1) in simp)
  have fresh: "js_get k r \<notin> js_get k ` set h" if "r \<notin> set h"
  proof
    assume "js_get k r \<in> js_get k ` set h"
    then obtain x where x: "x \<in> set h" "js_get k x = js_get k r" by (metis imageE)
    then have "x = r" using inj [of x] Cons.prems(2) by (metis subsetD)
    with x that show False by simp
  qed
  have s: "set (upsert_row k h r) = insert r (set h)" unfolding up by auto
  have d: "distinct (map (js_get k) (upsert_row k h r))" unfolding up using Cons.prems(3) fresh by simp
  have sub: "set rows \<subseteq> set T" "set (upsert_row k h r) \<subseteq> set T" using Cons.prems(1,2) s by simp_all
  show ?case using Cons.IH [OF sub d] s by (simp add: bulkUpsert_def)
qed (simp add: bulkUpsert_def)

definition hub_at :: "string \<Rightarrow> jsval list \<Rightarrow> bool \<Rightarrow> nat \<Rightarrow> jsval list \<Rightarrow> bool" where
  "hub_at k T resumed n h \<longleftrightarrow>
     (if resumed then set (take n T) \<subseteq> set h \<and> set h \<subseteq> set T \<and> distinct (map (js_get k) h) else h = take n T)"

lemma hub_at_weaken:
  assumes "distinct (map (js_get k) T)" "hub_at k T resumed n h" "m \<le> n"
  shows "hub_at k T True m h"
proof -
  have "set (take m T) \<subseteq> set (take n T)" using assms(3) by (rule set_take_subset_set_take)
  moreover have "distinct (map (js_get k) (take n T))" using assms(1) by (simp flip: take_map)
  ultimately show ?thesis using assms(2) by (auto simp: hub_at_def dest: in_set_takeD split: if_splits)
qed

lemma hub_at_batch:
  assumes "distinct (map (js_get k) T)" "hub_at k T resumed n h"
  shows "hub_at k T resumed (n + length (take j (drop n T)))
    (if resumed then bulkUpsert k h (take j (drop n T)) else h @ take j (drop n T))"
proof -
  have t: "take (n + length (take j (drop n T))) T = take n T @ take j (drop n T)"
    by (simp add: take_add min_def)
  have "set (take j (drop n T)) \<subseteq> set T" by (meson in_set_dropD in_set_takeD subsetI)
  with bulkUpsert_known [OF assms(1) this, of h] assms(2) show ?thesis
    unfolding hub_at_def t by auto
qed

definition check_at :: "string \<Rightarrow> jsval list \<Rightarrow> nat \<Rightarrow> checkpoint \<Rightarrow> bool" where
  "check_at k T n c \<longleftrightarrow> n \<le> length T \<and> cp_rows c = n \<and> cp_cursor c = store_cursor (cursor_at k T n) \<and>
     (cp_done c \<longrightarrow> n = length T)"

definition copy_inv :: "string \<Rightarrow> jsval list \<Rightarrow> copy_state \<Rightarrow> bool" where
  "copy_inv k T s \<longleftrightarrow> (case cs_check s of None \<Rightarrow> True
     | Some c \<Rightarrow> (\<exists>h n. cs_hub s = Some h \<and> check_at k T n c \<and> hub_at k T True n h))"

lemma run_good_events:
  assumes "distinct (map (js_get k) T)"
  shows "good_events k T n evs \<Longrightarrow> cs_hub s = Some h \<Longrightarrow> hub_at k T resumed n h \<Longrightarrow>
    cs_check s = Some c \<Longrightarrow> check_at k T n c \<Longrightarrow> copy_inv k T (foldl (apply_event k resumed) s evs)"
proof (induction arbitrary: s h c rule: good_events.induct)
  case (good_nil n)
  then show ?case using hub_at_weaken [OF assms good_nil(2) le_refl] by (auto simp: copy_inv_def)
next
  case (good_part n j)
  from hub_at_weaken [OF assms hub_at_batch [OF assms good_part(2)], of n j] good_part
  show ?case by (auto simp: copy_inv_def apply_event_def)
next
  case (good_page m n j evs c')
  have len: "m \<le> length T" using good_page.prems(4) good_page(1) by (auto simp: check_at_def min_def)
  note hub = hub_at_batch [OF assms good_page.prems(2), of j, folded good_page(1)]
  have check: "check_at k T m \<lparr>cp_cursor = store_cursor c', cp_rows = m, cp_done = False\<rparr>"
    using len good_page(3) by (simp add: check_at_def)
  from good_page.IH [OF _ hub _ check,
      of "apply_event k resumed (apply_event k resumed s (EvBatch (take j (drop n T)))) (EvSave c' m False)"] good_page.prems(1)
  show ?case by (simp add: apply_event_def)
next
  case (good_end n c')
  then have "hub_at k T True n h" using hub_at_weaken [OF assms good_end(4) le_refl] by simp
  with good_end show ?case by (auto simp: copy_inv_def apply_event_def check_at_def)
qed

lemma copy_step_inv:
  assumes src: "keyed_rows lt k T" "k \<noteq> []" and env: "keyset_env lt k T e" and inv: "copy_inv k T s"
    and run: "copyTable e s = (evs, fin)" and cr: "crashed evs evs'"
  shows "copy_inv k T (run_events e s evs')"
proof -
  note dk = keyed_rows_distinct [OF src(1)]
  have key: "ce_keyCol e = k" "is_keyset e" using env src(2) by (simp_all add: keyset_env_def is_keyset_def)
  let ?fin = "\<lambda>fin. case fin of CopyDone n c \<Rightarrow> [EvSave c n True] | _ \<Rightarrow> []"
  show ?thesis
  proof (cases "cs_check s")
    case None
    obtain evs0 fin0 where p: "pagedRead e JNull 0 = (evs0, fin0)" by force
    have loop: "paged_loop e 0 0 JUndef 0 = (evs0, fin0)" using p key(2) by (simp add: pagedRead_def coalesce_def)
    have good: "good_events k T 0 (evs0 @ ?fin fin0)"
      using paged_loop_good [OF src env _ _ loop] by simp
    have ev: "evs = EvRebuild # EvSave JNull 0 False # evs0 @ ?fin fin0"
      using run None p by (auto simp: copyTable_def)
    have nr: "can_resume k s = False" using None by (simp add: can_resume_def)
    consider "evs' = []" | "evs' = [EvRebuild]" | es where "evs' = EvRebuild # EvSave JNull 0 False # es" "crashed (evs0 @ ?fin fin0) es"
      using cr unfolding ev by (auto elim!: crashed_ConsE)
    then show ?thesis
    proof cases
      case (3 es)
      have "check_at k T 0 \<lparr>cp_cursor = store_cursor JNull, cp_rows = 0, cp_done = False\<rparr>"
        by (simp add: check_at_def cursor_at_def)
      from run_good_events [OF dk good_crashed [OF good 3(2)] _ _ _ this,
          of "apply_event k False (apply_event k False s EvRebuild) (EvSave JNull 0 False)" "[]" False] 3(1)
      show ?thesis by (simp add: run_events_def nr key(1) apply_event_def hub_at_def store_cursor_def)
    qed (simp_all add: run_events_def copy_inv_def None apply_event_def)
  next
    case (Some c)
    with inv obtain h n where h: "cs_hub s = Some h" "check_at k T n c" "hub_at k T True n h" by (auto simp: copy_inv_def)
    show ?thesis
    proof (cases "cp_done c")
      case True
      with run Some cr have "evs' = []" by (auto simp: copyTable_def elim: crashed_NilE)
      then show ?thesis using inv by (simp add: run_events_def)
    next
      case False
      have res: "can_resume k s" using Some h src(2) by (simp add: can_resume_def)
      define cur where "cur = load_cursor (cp_cursor c)"
      have cur: "cur = cursor_at k T n"
      proof (cases "n = 0")
        case True
        with h(2) show ?thesis by (simp add: cur_def check_at_def cursor_at_def store_cursor_def load_cursor_def)
      next
        case pos: False
        then have "T ! (n - 1) \<in> set T" using h(2) by (intro nth_mem) (auto simp: check_at_def)
        with pos src(1) h(2) show ?thesis by (simp add: cur_def check_at_def cursor_at_def keyed_rows_def)
      qed
      obtain evs0 fin0 where p: "pagedRead e cur n = (evs0, fin0)" by force
      have loop: "paged_loop e 0 n (coalesce cur JUndef) 0 = (evs0, fin0)" using p key(2) by (simp add: pagedRead_def)
      have c2: "n = 0 \<and> nullish (coalesce cur JUndef) \<or> 0 < n \<and> coalesce cur JUndef = cursor_at k T n"
      proof (cases "n = 0")
        case True
        then show ?thesis by (simp add: cur cursor_at_def coalesce_def)
      next
        case pos: False
        then have "T ! (n - 1) \<in> set T" using h(2) by (intro nth_mem) (auto simp: check_at_def)
        then have "\<not> nullish cur" using pos src(1) by (simp add: cur cursor_at_def keyed_rows_def)
        with pos show ?thesis by (simp add: cur coalesce_def)
      qed
      have n: "n \<le> length T" "cp_rows c = n" using h(2) by (simp_all add: check_at_def)
      have good: "good_events k T n (evs0 @ ?fin fin0)"
        using paged_loop_good [OF src env n(1) c2 loop] by simp
      have ev: "evs = EvSave cur n False # evs0 @ ?fin fin0"
        using run Some False p res key(1) n(2) by (auto simp: copyTable_def cur_def Let_def)
      consider "evs' = []" | es where "evs' = EvSave cur n False # es" "crashed (evs0 @ ?fin fin0) es"
        using cr unfolding ev by (auto elim!: crashed_ConsE)
      then show ?thesis
      proof cases
        case 1
        then show ?thesis using inv by (simp add: run_events_def)
      next
        case (2 es)
        have "check_at k T n \<lparr>cp_cursor = store_cursor cur, cp_rows = n, cp_done = False\<rparr>"
          using n by (simp add: check_at_def cur)
        from run_good_events [OF dk good_crashed [OF good 2(2)] _ h(3) _ this,
            of "apply_event k True s (EvSave cur n False)"] 2(1) h(1) res
        show ?thesis by (simp add: run_events_def key(1) apply_event_def)
      qed
    qed
  qed
qed

lemma copy_runs_inv:
  assumes "copy_runs (keyset_env lt k T) s0 s" "keyed_rows lt k T" "k \<noteq> []" "copy_inv k T s0"
  shows "copy_inv k T s"
  using assms(1,4)
  by (induction rule: copy_runs.induct) (auto intro: copy_step_inv [OF assms(2,3)])

section \<open>Properties\<close>

text \<open>
  C5: whatever happens on the way (pauses, failures, crashes between or within batches,
  other batch sizes on the next attempt), once the checkpoint of a keyed table says done the
  replica holds exactly the rows of the source, each once, and the row count is theirs.
\<close>

theorem resumable_copy_exact:
  assumes "keyed_rows lt k T" "k \<noteq> []" "copy_runs (keyset_env lt k T) s0 s"
    and "cs_check s0 = None" "cs_check s = Some c" "cp_done c"
  shows "\<exists>h. cs_hub s = Some h \<and> mset h = mset T \<and> cp_rows c = length T"
proof -
  note dk = keyed_rows_distinct [OF assms(1)]
  have "copy_inv k T s" by (rule copy_runs_inv [OF assms(3,1,2)]) (simp add: copy_inv_def assms(4))
  with assms(5,6) obtain h where h: "cs_hub s = Some h" "cp_rows c = length T" "hub_at k T True (length T) h"
    by (auto simp: copy_inv_def check_at_def)
  then have "set h = set T" "distinct (map (js_get k) h)" by (auto simp: hub_at_def)
  moreover have "distinct h" "distinct T" using calculation(2) dk by (simp_all add: distinct_map)
  ultimately have "mset h = mset T" by (simp add: set_eq_iff_mset_eq_distinct)
  with h show ?thesis by blast
qed

definition demo_less :: "jsval \<Rightarrow> jsval \<Rightarrow> bool" where
  "demo_less a b = (case (a, b) of (JNum x, JNum y) \<Rightarrow> x < y | _ \<Rightarrow> False)"

definition demo_rows :: "jsval list" where
  "demo_rows = map (\<lambda>i. JObj [(''id'', JNum (of_nat i)), (''name'', JStr ''n'')]) [1, 2, 3]"

text \<open>A source answering pages by a key \<open>k\<close> in the order \<open>lt\<close>.\<close>

definition page_reader :: "(jsval \<Rightarrow> jsval \<Rightarrow> bool) \<Rightarrow> string \<Rightarrow> jsval list \<Rightarrow> nat \<Rightarrow> page_query \<Rightarrow> jsval list" where
  "page_reader lt k T i q =
     take (pq_limit q) (case pq_after q of None \<Rightarrow> T | Some c \<Rightarrow> filter (\<lambda>r. lt c (js_get k r)) T)"

definition calm_env :: "(nat \<Rightarrow> page_query \<Rightarrow> jsval list) \<Rightarrow> copy_env" where
  "calm_env reader = \<lparr>ce_reader = reader, ce_stop = (\<lambda>_. False), ce_heap = (\<lambda>_. (1, 1)), ce_sinkFails = (\<lambda>_. None),
     ce_progress = True, ce_keyCol = ''id'', ce_batch = 2, ce_ceiling = 1024, ce_maxRows = 1000\<rparr>"

definition demo_env :: copy_env where
  "demo_env = calm_env (page_reader demo_less ''id'' demo_rows)"

text \<open>The first attempt dies after the first batch, before its checkpoint is stored.\<close>

definition demo_crashed :: copy_state where
  "demo_crashed = run_events demo_env \<lparr>cs_hub = None, cs_check = None\<rparr>
     (take 3 (fst (copyTable demo_env \<lparr>cs_hub = None, cs_check = None\<rparr>)))"

definition demo_final :: copy_state where
  "demo_final = run_events demo_env demo_crashed (fst (copyTable demo_env demo_crashed))"

lemma crashed_take: "crashed evs (take n evs)"
proof (induction evs arbitrary: n)
  case (Cons ev evs)
  then show ?case by (cases n) (auto intro: crashed.intros)
qed (simp add: crash_now)

lemma demo_source:
  "keyed_rows demo_less ''id'' demo_rows" "keyset_env demo_less ''id'' demo_rows demo_env"
proof -
  have "sorted_wrt demo_less (map (js_get ''id'') demo_rows)" by code_simp
  moreover have "\<forall>r \<in> set demo_rows. \<not> nullish (js_get ''id'' r) \<and>
      load_cursor (store_cursor (js_get ''id'' r)) = js_get ''id'' r" by code_simp
  moreover have "demo_less a b \<Longrightarrow> \<not> demo_less b a" for a b
    by (auto simp: demo_less_def split: jsval.splits)
  ultimately show "keyed_rows demo_less ''id'' demo_rows" by (simp add: keyed_rows_def)
  show "keyset_env demo_less ''id'' demo_rows demo_env"
    by (simp add: keyset_env_def demo_env_def calm_env_def page_reader_def)
qed

lemma demo_runs: "copy_runs (keyset_env demo_less ''id'' demo_rows) \<lparr>cs_hub = None, cs_check = None\<rparr> demo_crashed"
  "copy_runs (keyset_env demo_less ''id'' demo_rows) \<lparr>cs_hub = None, cs_check = None\<rparr> demo_final"
proof -
  show c: "copy_runs (keyset_env demo_less ''id'' demo_rows) \<lparr>cs_hub = None, cs_check = None\<rparr> demo_crashed"
    unfolding demo_crashed_def
    by (rule one_run [where evs = "fst (copyTable demo_env \<lparr>cs_hub = None, cs_check = None\<rparr>)" and fin = "snd (copyTable demo_env \<lparr>cs_hub = None, cs_check = None\<rparr>)"])
      (simp_all add: no_run demo_source(2) crashed_take)
  show "copy_runs (keyset_env demo_less ''id'' demo_rows) \<lparr>cs_hub = None, cs_check = None\<rparr> demo_final"
    unfolding demo_final_def
    by (rule one_run [where evs = "fst (copyTable demo_env demo_crashed)" and fin = "snd (copyTable demo_env demo_crashed)", OF c])
      (simp_all add: demo_source(2) crashed_refl)
qed

lemma resumable_copy_exact_witness:
  "(\<exists>h. cs_hub demo_final = Some h \<and> mset h = mset demo_rows) \<and> cs_hub demo_crashed = Some (take 2 demo_rows)"
proof
  have "cs_check demo_final = Some \<lparr>cp_cursor = Some ''3'', cp_rows = 3, cp_done = True\<rparr>" by code_simp
  from resumable_copy_exact [OF demo_source(1) _ demo_runs(2) _ this]
  show "\<exists>h. cs_hub demo_final = Some h \<and> mset h = mset demo_rows" by auto
  show "cs_hub demo_crashed = Some (take 2 demo_rows)" by code_simp
qed

text \<open>
  C27: an attempt that meets no fault completes: from any state such a history can reach, a
  run without pause, memory stop or failing sink, on a table below the row cap, ends with the
  table marked done.
\<close>

theorem calm_attempt_completes:
  assumes src: "keyed_rows lt k T" "k \<noteq> []" and runs: "copy_runs (keyset_env lt k T) s0 s" "cs_check s0 = None"
    and env: "keyset_env lt k T e" "no_faults e" "length T < ce_maxRows e"
  shows "\<exists>c. cs_check (run_events e s (fst (copyTable e s))) = Some c \<and> cp_done c"
proof -
  have inv: "copy_inv k T s" by (rule copy_runs_inv [OF runs(1) src]) (simp add: copy_inv_def runs(2))
  have key: "ce_keyCol e = k" "is_keyset e" using env src(2) by (simp_all add: keyset_env_def is_keyset_def)
  have last: "\<exists>c. cs_check (run_events e s (evs @ [EvSave cur n True])) = Some c \<and> cp_done c" for evs cur n
    by (simp add: run_events_def apply_event_def)
  have fin: "\<exists>m c. snd (pagedRead e cur n) = CopyDone m c"
    if "n \<le> length T" "n = 0 \<and> nullish (coalesce cur JUndef) \<or> 0 < n \<and> coalesce cur JUndef = cursor_at k T n" for cur n
  proof -
    obtain evs fin where p: "pagedRead e cur n = (evs, fin)" by force
    then have "paged_loop e 0 n (coalesce cur JUndef) 0 = (evs, fin)" using key(2) by (simp add: pagedRead_def)
    from paged_loop_good [OF src env(1) that this] env(2,3) p show ?thesis by simp
  qed
  show ?thesis
  proof (cases "cs_check s")
    case None
    obtain m c where "snd (pagedRead e JNull 0) = CopyDone m c" using fin [of 0 JNull] by (auto simp: coalesce_def)
    then have "fst (copyTable e s) = ([EvRebuild, EvSave JNull 0 False] @ fst (pagedRead e JNull 0)) @ [EvSave c m True]"
      using None by (simp add: copyTable_def case_prod_beta)
    then show ?thesis using last by metis
  next
    case (Some c)
    with inv obtain h n where h: "cs_hub s = Some h" "check_at k T n c" by (auto simp: copy_inv_def)
    show ?thesis
    proof (cases "cp_done c")
      case True
      then show ?thesis using Some by (simp add: copyTable_def run_events_def)
    next
      case False
      define cur where "cur = load_cursor (cp_cursor c)"
      have "n = 0 \<and> nullish (coalesce cur JUndef) \<or> 0 < n \<and> coalesce cur JUndef = cursor_at k T n"
      proof (cases "n = 0")
        case True
        with h(2) show ?thesis
          by (simp add: cur_def check_at_def cursor_at_def store_cursor_def load_cursor_def coalesce_def)
      next
        case pos: False
        then have "T ! (n - 1) \<in> set T" using h(2) by (intro nth_mem) (auto simp: check_at_def)
        with pos src(1) h(2) show ?thesis
          by (simp add: cur_def check_at_def cursor_at_def keyed_rows_def coalesce_def)
      qed
      then obtain m c' where d: "snd (pagedRead e cur n) = CopyDone m c'"
        using fin [of n cur] h(2) by (auto simp: check_at_def)
      have "cp_rows c = n" "can_resume k s" using h Some src(2) by (simp_all add: check_at_def can_resume_def)
      then have "fst (copyTable e s) = (EvSave cur n False # fst (pagedRead e cur n)) @ [EvSave c' m True]"
        using Some False d key(1) by (simp add: copyTable_def case_prod_beta cur_def Let_def)
      then show ?thesis using last by metis
    qed
  qed
qed

lemma calm_attempt_completes_witness:
  "\<exists>c. cs_check (run_events demo_env demo_crashed (fst (copyTable demo_env demo_crashed))) = Some c \<and> cp_done c"
proof (rule calm_attempt_completes [OF demo_source(1) _ demo_runs(1) _ demo_source(2)])
  show "no_faults demo_env" by (simp add: no_faults_def demo_env_def calm_env_def memGuard_def)
  show "length demo_rows < ce_maxRows demo_env" by code_simp
qed simp_all

text \<open>
  Uniqueness of the key column is needed, and the code takes the first column of the
  primary key whatever the key: with a composite key whose first column is 1 for three rows
  and pages of two, the third row is never read and the table is marked done.
\<close>

definition pair_rows :: "jsval list" where
  "pair_rows = map (\<lambda>i. JObj [(''id'', JNum 1), (''line'', JNum (of_nat i))]) [1, 2, 3]"

definition pair_final :: copy_state where
  "pair_final = (let e = calm_env (page_reader demo_less ''id'' pair_rows); s = \<lparr>cs_hub = None, cs_check = None\<rparr>
     in run_events e s (fst (copyTable e s)))"

theorem composite_key_loses_rows:
  "cs_hub pair_final = Some (take 2 pair_rows) \<and> map_option cp_done (cs_check pair_final) = Some True"
  by code_simp

text \<open>
  A text key of digits comes back from its checkpoint as a number: after a crash behind
  the key '0123' the copy resumes after '123', and the rows '0124' and '0200', which sort before '123',
  are lost from a table marked done.
\<close>

definition text_rows :: "jsval list" where
  "text_rows = map (\<lambda>i. JObj [(''id'', JStr i)]) [''0122'', ''0123'', ''0124'', ''0200'']"

definition text_less :: "jsval \<Rightarrow> jsval \<Rightarrow> bool" where
  "text_less a b = str_less (js_string a) (js_string b)"

definition text_final :: copy_state where
  "text_final = (let e = calm_env (page_reader text_less ''id'' text_rows); s0 = \<lparr>cs_hub = None, cs_check = None\<rparr>;
       s1 = run_events e s0 (take 4 (fst (copyTable e s0)))
     in run_events e s1 (fst (copyTable e s1)))"

theorem digit_cursor_loses_rows:
  "cs_hub text_final = Some (take 2 text_rows) \<and> map_option cp_done (cs_check text_final) = Some True"
  by code_simp

end
