(* ===== verification/CopyJobs.thy ===== *)
theory CopyJobs
  imports JsValue
begin

text \<open>
  \<open>modules/jobs/copy_job_engine.ts\<close>: the durable queue of copy jobs. The jobs table is a list
  in creation order; a worker's claim, the execution and the recording of its end are separate
  steps, between which other workers, requests and the clock can act. Times are natural
  numbers (milliseconds); the result and progress columns that no decision reads are left out,
  except the error text.
\<close>

section \<open>The jobs table\<close>

datatype job_status = QUEUED | RUNNING | PAUSED | COMPLETED | FAILED

record copy_job =
  j_id :: nat
  j_tenant :: string
  j_kind :: string
  j_ref :: string
  j_target :: "string option"
  j_config :: jsval
  j_status :: job_status
  j_pause :: bool
  j_attempts :: nat
  j_max :: nat
  j_claimed :: "string option"
  j_error :: "string option"
  j_heartbeat :: "nat option"
  j_started :: "nat option"
  j_finished :: "nat option"

record job_db =
  db_jobs :: "copy_job list"
  db_now :: nat
  db_next :: nat

definition find_job :: "nat \<Rightarrow> job_db \<Rightarrow> copy_job option" where
  "find_job i db = List.find (\<lambda>j. j_id j = i) (db_jobs db)"

text \<open>\<open>UPDATE ... SET f WHERE P\<close>.\<close>

definition update_where :: "(copy_job \<Rightarrow> bool) \<Rightarrow> (copy_job \<Rightarrow> copy_job) \<Rightarrow> job_db \<Rightarrow> job_db" where
  "update_where P f db = db\<lparr>db_jobs := map (\<lambda>j. if P j then f j else j) (db_jobs db)\<rparr>"

section \<open>Requests\<close>

definition is_active :: "copy_job \<Rightarrow> bool" where
  "is_active j \<longleftrightarrow> j_status j \<in> {QUEUED, RUNNING, PAUSED}"

definition enqueue :: "string \<Rightarrow> string \<Rightarrow> string \<Rightarrow> string option \<Rightarrow> jsval \<Rightarrow> bool \<Rightarrow> job_db \<Rightarrow> job_db \<times> copy_job" where
  "enqueue tenant kind jobRef target config dedupe db =
     (let same = filter (\<lambda>j. j_tenant j = tenant \<and> j_kind j = kind \<and> j_ref j = jobRef \<and> is_active j) (db_jobs db) in
      if dedupe \<and> same \<noteq> [] then (db, last same)
      else
        let j = \<lparr>j_id = db_next db, j_tenant = tenant, j_kind = kind, j_ref = jobRef, j_target = target,
                 j_config = config, j_status = QUEUED, j_pause = False, j_attempts = 0, j_max = 3, j_claimed = None,
                 j_error = None, j_heartbeat = None, j_started = None, j_finished = None\<rparr>
        in (db\<lparr>db_jobs := db_jobs db @ [j], db_next := Suc (db_next db)\<rparr>, j))"

definition can_pause :: "string \<Rightarrow> nat \<Rightarrow> copy_job \<Rightarrow> bool" where
  "can_pause tenant i j \<longleftrightarrow> j_tenant j = tenant \<and> j_id j = i \<and> j_status j \<in> {RUNNING, QUEUED}"

definition pause_job :: "string \<Rightarrow> nat \<Rightarrow> job_db \<Rightarrow> job_db \<times> copy_job option" where
  "pause_job tenant i db =
     (let db' = update_where (can_pause tenant i) (\<lambda>j. j\<lparr>j_pause := True\<rparr>) db
      in (db', if List.find (can_pause tenant i) (db_jobs db) = None then None else find_job i db'))"

definition can_resume_job :: "string \<Rightarrow> nat \<Rightarrow> copy_job \<Rightarrow> bool" where
  "can_resume_job tenant i j \<longleftrightarrow> j_tenant j = tenant \<and> j_id j = i \<and> j_status j \<in> {PAUSED, FAILED}"

definition resume_job :: "string \<Rightarrow> nat \<Rightarrow> job_db \<Rightarrow> job_db \<times> copy_job option" where
  "resume_job tenant i db =
     (let db' = update_where (can_resume_job tenant i) (\<lambda>j. j\<lparr>j_status := QUEUED, j_pause := False, j_error := None\<rparr>) db
      in (db', if List.find (can_resume_job tenant i) (db_jobs db) = None then None else find_job i db'))"

section \<open>Workers\<close>

text \<open>
  \<open>claim\<close>: the oldest queued job whose row no concurrent claim has locked.
\<close>

definition claimed_row :: "string \<Rightarrow> nat \<Rightarrow> copy_job \<Rightarrow> copy_job" where
  "claimed_row worker now x = x\<lparr>j_status := RUNNING, j_pause := False, j_attempts := Suc (j_attempts x), j_claimed := Some worker,
     j_started := (case j_started x of None \<Rightarrow> Some now | t \<Rightarrow> t), j_heartbeat := Some now\<rparr>"

lemma claimed_row_fields [simp]:
  "j_id (claimed_row w now x) = j_id x" "j_status (claimed_row w now x) = RUNNING"
  "j_claimed (claimed_row w now x) = Some w" "j_kind (claimed_row w now x) = j_kind x"
  "j_heartbeat (claimed_row w now x) = Some now"
  by (simp_all add: claimed_row_def)

definition claim_job :: "nat set \<Rightarrow> string \<Rightarrow> job_db \<Rightarrow> job_db \<times> copy_job option" where
  "claim_job locked worker db =
     (case List.find (\<lambda>j. j_status j = QUEUED \<and> j_id j \<notin> locked) (db_jobs db) of
        None \<Rightarrow> (db, None)
      | Some j \<Rightarrow>
          (let db' = update_where (\<lambda>x. j_id x = j_id j) (claimed_row worker (db_now db)) db
           in (db', find_job (j_id j) db')))"

definition is_stale :: "nat \<Rightarrow> job_db \<Rightarrow> copy_job \<Rightarrow> bool" where
  "is_stale staleMs db j \<longleftrightarrow> j_status j = RUNNING \<and>
     (case j_heartbeat j of Some h \<Rightarrow> h + staleMs < db_now db | None \<Rightarrow> False)"

definition reclaimStale :: "nat \<Rightarrow> job_db \<Rightarrow> job_db \<times> nat" where
  "reclaimStale staleMs db =
     (update_where (is_stale staleMs db) (\<lambda>j. j\<lparr>j_status := QUEUED\<rparr>) db,
      length (filter (is_stale staleMs db) (db_jobs db)))"

text \<open>
  The end of an execution: a result with its list of errors, a pause, or an exception. The
  claimed row \<open>job\<close> is the worker's copy; the update goes by its id alone.
\<close>

datatype exec_end = ExecResult "string list" | ExecPaused | ExecError string

definition finish_job :: "copy_job \<Rightarrow> exec_end \<Rightarrow> job_db \<Rightarrow> job_db" where
  "finish_job job fin db =
     update_where (\<lambda>x. j_id x = j_id job)
       (\<lambda>x. case fin of
          ExecResult errors \<Rightarrow>
            (if errors \<noteq> [] then x\<lparr>j_status := FAILED, j_error := Some (js_join ''; '' errors), j_finished := Some (db_now db)\<rparr>
             else x\<lparr>j_status := COMPLETED, j_error := None, j_finished := Some (db_now db)\<rparr>)
        | ExecPaused \<Rightarrow> x\<lparr>j_status := PAUSED\<rparr>
        | ExecError msg \<Rightarrow>
            (if j_attempts job < j_max job then x\<lparr>j_status := QUEUED, j_error := Some msg\<rparr>
             else x\<lparr>j_status := FAILED, j_error := Some msg, j_finished := Some (db_now db)\<rparr>)) db"

text \<open>Which executor a kind is dispatched to; the CDC refresh gets no checkpoint provider.\<close>

datatype executor = PhysicalBackfill | CdcRefresh | ReplicationRun bool

definition execute_kind :: "string \<Rightarrow> executor option" where
  "execute_kind kind =
     (if kind = ''SYNC'' then Some PhysicalBackfill
      else if kind = ''CDC'' then Some CdcRefresh
      else if kind = ''REPLICATE'' then Some (ReplicationRun False)
      else if kind = ''RESTORE'' then Some (ReplicationRun True)
      else None)"

definition writes_checkpoints :: "string \<Rightarrow> bool" where
  "writes_checkpoints kind \<longleftrightarrow> (case execute_kind kind of Some CdcRefresh \<Rightarrow> False | Some _ \<Rightarrow> True | None \<Rightarrow> False)"

text \<open>\<open>processOne\<close> with no other party in between; the executor's outcome is a parameter.\<close>

definition run_kind :: "(copy_job \<Rightarrow> exec_end) \<Rightarrow> copy_job \<Rightarrow> exec_end" where
  "run_kind outcome job =
     (if execute_kind (j_kind job) = None then ExecError (''unknown copy-job kind'') else outcome job)"

definition processOne :: "(copy_job \<Rightarrow> exec_end) \<Rightarrow> string \<Rightarrow> job_db \<Rightarrow> job_db \<times> nat option" where
  "processOne outcome worker db =
     (case claim_job {} worker db of
        (db', None) \<Rightarrow> (db', None)
      | (db', Some job) \<Rightarrow> (finish_job job (run_kind outcome job) db', Some (j_id job)))"

text \<open>One tick of the worker loop: the drain ends with an empty queue or after the counter.\<close>

function drain_tick :: "nat \<Rightarrow> (nat \<Rightarrow> copy_job \<Rightarrow> exec_end) \<Rightarrow> string \<Rightarrow> job_db \<Rightarrow> job_db" where
  "drain_tick n outcome worker db =
     (case processOne (outcome n) worker db of
        (db', None) \<Rightarrow> db'
      | (db', Some _) \<Rightarrow> if n < 5 then drain_tick (Suc n) outcome worker db' else db')"
  by pat_completeness auto

termination
  by (relation "measure (\<lambda>(n, outcome, worker, db). 5 - n)") auto

declare drain_tick.simps [simp del]

definition worker_tick :: "nat \<Rightarrow> (nat \<Rightarrow> copy_job \<Rightarrow> exec_end) \<Rightarrow> string \<Rightarrow> job_db \<Rightarrow> job_db" where
  "worker_tick staleMs outcome worker db = drain_tick 0 outcome worker (fst (reclaimStale staleMs db))"

section \<open>Interleaving\<close>

text \<open>
  The database and the workers in the middle of an execution, each with its copy of the job.
\<close>

record job_sys =
  sys_db :: job_db
  sys_live :: "(string \<times> copy_job) list"

inductive job_step :: "nat \<Rightarrow> job_sys \<Rightarrow> job_sys \<Rightarrow> bool" for staleMs where
  step_enqueue: "job_step staleMs s (s\<lparr>sys_db := fst (enqueue t k r tg cfg dd (sys_db s))\<rparr>)"
| step_pause: "job_step staleMs s (s\<lparr>sys_db := fst (pause_job t i (sys_db s))\<rparr>)"
| step_resume: "job_step staleMs s (s\<lparr>sys_db := fst (resume_job t i (sys_db s))\<rparr>)"
| step_claim: "w \<notin> fst ` set (sys_live s) \<Longrightarrow> claim_job locked w (sys_db s) = (db', Some job) \<Longrightarrow>
    job_step staleMs s (s\<lparr>sys_db := db', sys_live := sys_live s @ [(w, job)]\<rparr>)"
| step_heartbeat: "(w, job) \<in> set (sys_live s) \<Longrightarrow> writes_checkpoints (j_kind job) \<Longrightarrow>
    job_step staleMs s (s\<lparr>sys_db := update_where (\<lambda>x. j_id x = j_id job)
      (\<lambda>x. x\<lparr>j_heartbeat := Some (db_now (sys_db s))\<rparr>) (sys_db s)\<rparr>)"
| step_finish: "(w, job) \<in> set (sys_live s) \<Longrightarrow>
    job_step staleMs s (s\<lparr>sys_db := finish_job job fin (sys_db s),
                          sys_live := filter (\<lambda>l. fst l \<noteq> w) (sys_live s)\<rparr>)"
| step_die: "job_step staleMs s (s\<lparr>sys_live := filter (\<lambda>l. fst l \<noteq> w) (sys_live s)\<rparr>)"
| step_tick: "job_step staleMs s (s\<lparr>sys_db := (sys_db s)\<lparr>db_now := db_now (sys_db s) + n\<rparr>\<rparr>)"
| step_reclaim: "job_step staleMs s (s\<lparr>sys_db := fst (reclaimStale staleMs (sys_db s))\<rparr>)"

section \<open>Lookup after update\<close>

lemma find_some: "List.find P xs = Some x \<Longrightarrow> P x \<and> x \<in> set xs"
  by (induction xs) (auto split: if_splits)

lemma find_map_id: "(\<And>x. P (f x) = P x) \<Longrightarrow> List.find P (map f xs) = map_option f (List.find P xs)"
  by (induction xs) auto

lemma find_job_id: "find_job i db = Some j \<Longrightarrow> j_id j = i"
  unfolding find_job_def by (drule find_some) simp

lemma find_job_update:
  "(\<And>j. j_id (f j) = j_id j) \<Longrightarrow>
     find_job i (update_where P f db) = map_option (\<lambda>j. if P j then f j else j) (find_job i db)"
  unfolding find_job_def update_where_def by (simp add: find_map_id)

lemma find_job_mem:
  "distinct (map j_id (db_jobs db)) \<Longrightarrow> find_job i db = Some j \<longleftrightarrow> j \<in> set (db_jobs db) \<and> j_id j = i"
proof -
  have "distinct (map j_id xs) \<Longrightarrow> List.find (\<lambda>j. j_id j = i) xs = Some j \<longleftrightarrow> j \<in> set xs \<and> j_id j = i" for xs
    by (induction xs) (auto simp: image_iff)
  then show "distinct (map j_id (db_jobs db)) \<Longrightarrow> ?thesis" by (simp add: find_job_def)
qed

lemma update_where_ids [simp]:
  "(\<And>j. j_id (f j) = j_id j) \<Longrightarrow> map j_id (db_jobs (update_where P f db)) = map j_id (db_jobs db)"
  by (simp add: update_where_def)

lemma update_where_other [simp]: "db_next (update_where P f db) = db_next db" "db_now (update_where P f db) = db_now db"
  by (simp_all add: update_where_def)

lemma finish_fields [simp]:
  "j_id (case fin of
      ExecResult errors \<Rightarrow> (if errors \<noteq> [] then x\<lparr>j_status := FAILED, j_error := e1 errors, j_finished := t\<rparr>
         else x\<lparr>j_status := COMPLETED, j_error := None, j_finished := t\<rparr>)
    | ExecPaused \<Rightarrow> x\<lparr>j_status := PAUSED\<rparr>
    | ExecError msg \<Rightarrow> (if b then x\<lparr>j_status := QUEUED, j_error := e2 msg\<rparr>
         else x\<lparr>j_status := FAILED, j_error := e2 msg, j_finished := t\<rparr>)) = j_id x"
  by (cases fin) simp_all

text \<open>What each operation does to the job with a given id.\<close>

lemma find_pause: "find_job i (fst (pause_job t k db)) =
    map_option (\<lambda>j. if can_pause t k j then j\<lparr>j_pause := True\<rparr> else j) (find_job i db)"
  unfolding pause_job_def Let_def fst_conv by (rule find_job_update) simp

lemma find_resume: "find_job i (fst (resume_job t k db)) =
    map_option (\<lambda>j. if can_resume_job t k j then j\<lparr>j_status := QUEUED, j_pause := False, j_error := None\<rparr> else j) (find_job i db)"
  unfolding resume_job_def Let_def fst_conv by (rule find_job_update) simp

lemma find_reclaim: "find_job i (fst (reclaimStale ms db)) =
    map_option (\<lambda>j. if is_stale ms db j then j\<lparr>j_status := QUEUED\<rparr> else j) (find_job i db)"
  unfolding reclaimStale_def fst_conv by (rule find_job_update) simp

lemma find_finish: "find_job i (finish_job job fin db) =
    map_option (\<lambda>x. if j_id x = j_id job then (case fin of
          ExecResult errors \<Rightarrow>
            (if errors \<noteq> [] then x\<lparr>j_status := FAILED, j_error := Some (js_join ''; '' errors), j_finished := Some (db_now db)\<rparr>
             else x\<lparr>j_status := COMPLETED, j_error := None, j_finished := Some (db_now db)\<rparr>)
        | ExecPaused \<Rightarrow> x\<lparr>j_status := PAUSED\<rparr>
        | ExecError msg \<Rightarrow>
            (if j_attempts job < j_max job then x\<lparr>j_status := QUEUED, j_error := Some msg\<rparr>
             else x\<lparr>j_status := FAILED, j_error := Some msg, j_finished := Some (db_now db)\<rparr>)) else x) (find_job i db)"
  unfolding finish_job_def by (rule find_job_update) simp

lemma find_heartbeat: "find_job i (update_where (\<lambda>x. j_id x = k) (\<lambda>x. x\<lparr>j_heartbeat := Some t\<rparr>) db) =
    map_option (\<lambda>x. if j_id x = k then x\<lparr>j_heartbeat := Some t\<rparr> else x) (find_job i db)"
  by (rule find_job_update) simp

lemma claim_jobE:
  assumes "claim_job locked w db = (db', Some job)"
  obtains j where "j \<in> set (db_jobs db)" "j_status j = QUEUED"
    "db' = update_where (\<lambda>x. j_id x = j_id j) (claimed_row w (db_now db)) db" "find_job (j_id j) db' = Some job"
proof -
  obtain j where j: "List.find (\<lambda>j. j_status j = QUEUED \<and> j_id j \<notin> locked) (db_jobs db) = Some j"
    using assms by (auto simp: claim_job_def split: option.splits)
  with assms j have "db' = update_where (\<lambda>x. j_id x = j_id j) (claimed_row w (db_now db)) db" "find_job (j_id j) db' = Some job"
    by (auto simp: claim_job_def Let_def)
  with find_some [OF j] show ?thesis by (intro that) auto
qed

lemma find_claim:
  "find_job i (update_where (\<lambda>x. j_id x = k) (claimed_row w now) db) =
     map_option (\<lambda>x. if j_id x = k then claimed_row w now x else x) (find_job i db)"
  by (rule find_job_update) (simp add: claimed_row_def)

lemma find_enqueue:
  "find_job i (fst (enqueue t k r tg cfg dd db)) =
     (case find_job i db of Some j \<Rightarrow> Some j
      | None \<Rightarrow> if fst (enqueue t k r tg cfg dd db) \<noteq> db \<and> i = db_next db
               then Some (snd (enqueue t k r tg cfg dd db)) else None)"
proof -
  have "List.find P (xs @ [x]) = (case List.find P xs of Some y \<Rightarrow> Some y | None \<Rightarrow> if P x then Some x else None)"
    for P :: "copy_job \<Rightarrow> bool" and xs x by (induction xs) auto
  then show ?thesis by (auto simp: enqueue_def Let_def find_job_def split: option.split)
qed

section \<open>Ownership\<close>

definition jobs_ok :: "job_db \<Rightarrow> bool" where
  "jobs_ok db \<longleftrightarrow> distinct (map j_id (db_jobs db)) \<and> (\<forall>i \<in> set (map j_id (db_jobs db)). i < db_next db)"

definition owns :: "job_db \<Rightarrow> string \<Rightarrow> copy_job \<Rightarrow> bool" where
  "owns db w job \<longleftrightarrow> (\<exists>x. find_job (j_id job) db = Some x \<and> j_status x = RUNNING \<and> j_claimed x = Some w)"

definition sys_ok :: "job_sys \<Rightarrow> bool" where
  "sys_ok s \<longleftrightarrow> jobs_ok (sys_db s) \<and> distinct (map fst (sys_live s)) \<and>
     (\<forall>(w, job) \<in> set (sys_live s). owns (sys_db s) w job)"

text \<open>
  A state is timely when no job in the hands of a live worker has a stale heartbeat; the runs
  below are the ones in which every state is timely.
\<close>

definition timely :: "nat \<Rightarrow> job_sys \<Rightarrow> bool" where
  "timely staleMs s \<longleftrightarrow> (\<forall>(w, job) \<in> set (sys_live s). \<forall>x. find_job (j_id job) (sys_db s) = Some x \<longrightarrow>
     \<not> is_stale staleMs (sys_db s) x)"

inductive timely_run :: "nat \<Rightarrow> job_sys \<Rightarrow> job_sys \<Rightarrow> bool" for staleMs s0 where
  timely_start: "timely_run staleMs s0 s0"
| timely_step: "timely_run staleMs s0 s \<Longrightarrow> timely staleMs s \<Longrightarrow> job_step staleMs s s' \<Longrightarrow> timely_run staleMs s0 s'"

lemma jobs_ok_update: "(\<And>j. j_id (f j) = j_id j) \<Longrightarrow> jobs_ok (update_where P f db) = jobs_ok db"
  by (simp only: jobs_ok_def update_where_ids update_where_other)

lemma jobs_ok_enqueue: "jobs_ok db \<Longrightarrow> jobs_ok (fst (enqueue t k r tg cfg dd db))"
  by (auto simp: jobs_ok_def enqueue_def Let_def less_Suc_eq)

lemma jobs_ok_step:
  assumes "job_step staleMs s s'" "jobs_ok (sys_db s)"
  shows "jobs_ok (sys_db s')"
  using assms
proof (cases rule: job_step.cases)
  case (step_claim w locked db' job)
  from step_claim(3) obtain k where "db' = update_where (\<lambda>x. j_id x = k) (claimed_row w (db_now (sys_db s))) (sys_db s)"
    by (rule claim_jobE)
  then show ?thesis using assms(2) step_claim(1) by (simp add: jobs_ok_update claimed_row_def)
next
  case (step_tick n)
  then show ?thesis using assms(2) by (simp add: jobs_ok_def)
qed (use assms(2) in \<open>simp_all add: jobs_ok_enqueue pause_job_def resume_job_def reclaimStale_def finish_job_def
    jobs_ok_update Let_def\<close>)

text \<open>A job in a worker's hands that an operation on the database leaves running and claimed stays in its hands.\<close>

lemma owns_map:
  assumes "owns db w job" "find_job (j_id job) db' = map_option f (find_job (j_id job) db)"
    and "\<And>x. j_status x = RUNNING \<Longrightarrow> find_job (j_id job) db = Some x \<Longrightarrow> j_status (f x) = RUNNING \<and> j_claimed (f x) = j_claimed x"
  shows "owns db' w job"
  using assms by (auto simp: owns_def)

lemma sys_ok_step:
  assumes step: "job_step staleMs s s'" and ok: "sys_ok s" and tm: "timely staleMs s"
  shows "sys_ok s'"
proof -
  have db: "jobs_ok (sys_db s')" by (rule jobs_ok_step [OF step]) (use ok in \<open>simp add: sys_ok_def\<close>)
  have dl: "distinct (map fst (sys_live s))" and own: "\<And>w job. (w, job) \<in> set (sys_live s) \<Longrightarrow> owns (sys_db s) w job"
    using ok by (auto simp: sys_ok_def)
  have filt: "distinct (map fst (filter P (sys_live s)))" for P
    using dl by (rule distinct_map_filter)
  from step have "distinct (map fst (sys_live s')) \<and> (\<forall>(w, job) \<in> set (sys_live s'). owns (sys_db s') w job)"
  proof (cases rule: job_step.cases)
    case (step_enqueue t k r tg cfg dd)
    have "owns (fst (enqueue t k r tg cfg dd (sys_db s))) w job" if "(w, job) \<in> set (sys_live s)" for w job
      using own [OF that] by (auto simp: owns_def find_enqueue)
    then show ?thesis using dl step_enqueue by auto
  next
    case (step_pause t i)
    have "owns (fst (pause_job t i (sys_db s))) w job" if "(w, job) \<in> set (sys_live s)" for w job
      by (rule owns_map [OF own [OF that] find_pause]) simp
    then show ?thesis using dl step_pause by auto
  next
    case (step_resume t i)
    have "owns (fst (resume_job t i (sys_db s))) w job" if "(w, job) \<in> set (sys_live s)" for w job
      by (rule owns_map [OF own [OF that] find_resume]) (simp add: can_resume_job_def)
    then show ?thesis using dl step_resume by auto
  next
    case (step_claim w locked db' job)
    from step_claim(3) obtain j where j: "j \<in> set (db_jobs (sys_db s))" "j_status j = QUEUED"
      "db' = update_where (\<lambda>x. j_id x = j_id j) (claimed_row w (db_now (sys_db s))) (sys_db s)" "find_job (j_id j) db' = Some job"
      by (rule claim_jobE)
    have fj: "find_job (j_id j) (sys_db s) = Some j"
      using ok j(1) by (simp add: sys_ok_def jobs_ok_def find_job_mem)
    then have job: "job = claimed_row w (db_now (sys_db s)) j" using j(3,4) by (simp add: find_claim)
    then have "owns db' w job" using j(4) by (simp add: owns_def claimed_row_def)
    moreover have "owns db' w' job'" if "(w', job') \<in> set (sys_live s)" for w' job'
    proof -
      have "j_id job' \<noteq> j_id j" using own [OF that] fj j(2) by (auto simp: owns_def)
      then show ?thesis unfolding j(3)
        by (intro owns_map [OF own [OF that] find_claim]) (auto dest: find_job_id)
    qed
    ultimately show ?thesis using dl step_claim(1,2) by auto
  next
    case (step_heartbeat w job)
    have "owns (update_where (\<lambda>x. j_id x = j_id job) (\<lambda>x. x\<lparr>j_heartbeat := Some (db_now (sys_db s))\<rparr>) (sys_db s)) w' job'"
      if "(w', job') \<in> set (sys_live s)" for w' job'
      by (rule owns_map [OF own [OF that] find_heartbeat]) simp
    then show ?thesis using dl step_heartbeat by auto
  next
    case (step_finish w job fin)
    have "owns (finish_job job fin (sys_db s)) w' job'" if "(w', job') \<in> set (sys_live s)" "w' \<noteq> w" for w' job'
    proof -
      have "j_id job' \<noteq> j_id job" using own [OF that(1)] own [OF step_finish(2)] that(2) by (auto simp: owns_def)
      then show ?thesis
        by (intro owns_map [OF own [OF that(1)] find_finish]) (auto dest: find_job_id)
    qed
    then show ?thesis using filt step_finish by auto
  next
    case (step_die w)
    then show ?thesis using filt own by auto
  next
    case (step_tick n)
    then show ?thesis using dl own by (auto simp: owns_def find_job_def)
  next
    case step_reclaim
    have "owns (fst (reclaimStale staleMs (sys_db s))) w job" if "(w, job) \<in> set (sys_live s)" for w job
      by (rule owns_map [OF own [OF that] find_reclaim]) (use tm that in \<open>auto simp: timely_def\<close>)
    then show ?thesis using dl step_reclaim by auto
  qed
  with db show ?thesis by (simp add: sys_ok_def)
qed

definition sys_start :: "job_sys \<Rightarrow> bool" where
  "sys_start s \<longleftrightarrow> jobs_ok (sys_db s) \<and> sys_live s = []"

lemma timely_run_ok: "timely_run staleMs s0 s \<Longrightarrow> sys_start s0 \<Longrightarrow> sys_ok s"
proof (induction rule: timely_run.induct)
  case timely_start
  then show ?case by (simp add: sys_start_def sys_ok_def)
next
  case (timely_step s s')
  then show ?case by (blast intro: sys_ok_step)
qed

section \<open>The life of a job\<close>

text \<open>
  The abstract view of one job: absent, waiting, in the hands of one worker, or ended. A
  worker's end of a job moves it from that worker's hands only, a resume re-queues what was
  paused or failed.
\<close>

datatype job_view = Waiting | HeldBy string | Held_Up | Succeeded | Gave_Up

inductive view_step :: "job_view option \<Rightarrow> job_view option \<Rightarrow> bool" where
  view_create: "view_step None (Some Waiting)"
| view_take: "view_step (Some Waiting) (Some (HeldBy w))"
| view_end: "v \<in> {Waiting, Held_Up, Succeeded, Gave_Up} \<Longrightarrow> view_step (Some (HeldBy w)) (Some v)"
| view_resume: "v \<in> {Held_Up, Gave_Up} \<Longrightarrow> view_step (Some v) (Some Waiting)"

definition job_view_of :: "copy_job \<Rightarrow> job_view" where
  "job_view_of j = (case j_status j of QUEUED \<Rightarrow> Waiting
     | RUNNING \<Rightarrow> HeldBy (case j_claimed j of Some w \<Rightarrow> w | None \<Rightarrow> [])
     | PAUSED \<Rightarrow> Held_Up | COMPLETED \<Rightarrow> Succeeded | FAILED \<Rightarrow> Gave_Up)"

lemma job_view_of_fields [simp]:
  "job_view_of (x\<lparr>j_pause := b\<rparr>) = job_view_of x" "job_view_of (x\<lparr>j_heartbeat := h\<rparr>) = job_view_of x"
  by (cases "j_status x"; simp add: job_view_of_def)+

lemma job_view_of_claimed [simp]: "job_view_of (claimed_row w now x) = HeldBy w"
  by (simp add: job_view_of_def claimed_row_def)

definition sys_view :: "job_sys \<Rightarrow> nat \<Rightarrow> job_view option" where
  "sys_view s i = map_option job_view_of (find_job i (sys_db s))"

lemma view_of_map:
  assumes "find_job i db' = map_option f (find_job i db)"
    and "\<And>x. find_job i db = Some x \<Longrightarrow> job_view_of (f x) = job_view_of x \<or> view_step (Some (job_view_of x)) (Some (job_view_of (f x)))"
  shows "map_option job_view_of (find_job i db') = map_option job_view_of (find_job i db) \<or>
    view_step (map_option job_view_of (find_job i db)) (map_option job_view_of (find_job i db'))"
  using assms by (cases "find_job i db") auto

text \<open>
  C10: the queue refines the abstract life cycle: in a timely run every step of any party
  leaves each job as it is or takes it along one transition of the abstract job. In
  particular a finished job stays finished until it is resumed, and a worker's report only
  ends a job that worker still holds.
\<close>

theorem job_queue_refines_view:
  assumes run: "timely_run staleMs s0 s" "sys_start s0" and tm: "timely staleMs s" and step: "job_step staleMs s s'"
  shows "sys_view s' i = sys_view s i \<or> view_step (sys_view s i) (sys_view s' i)"
proof -
  have ok: "sys_ok s" by (rule timely_run_ok [OF run])
  have own: "\<And>w job. (w, job) \<in> set (sys_live s) \<Longrightarrow> owns (sys_db s) w job" using ok by (auto simp: sys_ok_def)
  from step show ?thesis
  proof (cases rule: job_step.cases)
    case (step_enqueue t k r tg cfg dd)
    have "job_view_of (snd (enqueue t k r tg cfg dd (sys_db s))) = Waiting"
      if "fst (enqueue t k r tg cfg dd (sys_db s)) \<noteq> sys_db s"
      using that by (auto simp: enqueue_def Let_def job_view_of_def split: if_splits)
    then show ?thesis
      by (auto simp: sys_view_def step_enqueue find_enqueue view_create split: option.split)
  next
    case (step_pause t k)
    then have db': "sys_db s' = fst (pause_job t k (sys_db s))" by simp
    show ?thesis unfolding sys_view_def db' by (rule view_of_map [OF find_pause]) simp
  next
    case (step_resume t k)
    then have db': "sys_db s' = fst (resume_job t k (sys_db s))" by simp
    show ?thesis unfolding sys_view_def db'
      by (rule view_of_map [OF find_resume]) (auto simp: job_view_of_def can_resume_job_def intro: view_step.intros)
  next
    case (step_claim w locked db1 job)
    from step_claim(3) obtain j where j: "j \<in> set (db_jobs (sys_db s))" "j_status j = QUEUED"
      "db1 = update_where (\<lambda>x. j_id x = j_id j) (claimed_row w (db_now (sys_db s))) (sys_db s)"
      by (rule claim_jobE)
    have fj: "find_job (j_id j) (sys_db s) = Some j"
      using ok j(1) by (simp add: sys_ok_def jobs_ok_def find_job_mem)
    have db': "sys_db s' = update_where (\<lambda>x. j_id x = j_id j) (claimed_row w (db_now (sys_db s))) (sys_db s)"
      using step_claim(1) j(3) by simp
    have w: "job_view_of x = Waiting" if "find_job i (sys_db s) = Some x" "j_id x = j_id j" for x
    proof -
      have "x = j" using that fj find_job_id [OF that(1)] by (metis option.inject)
      then show ?thesis by (simp add: job_view_of_def j(2))
    qed
    have "job_view_of (if j_id x = j_id j then claimed_row w (db_now (sys_db s)) x else x) = job_view_of x \<or>
        view_step (Some (job_view_of x)) (Some (job_view_of (if j_id x = j_id j then claimed_row w (db_now (sys_db s)) x else x)))"
      if "find_job i (sys_db s) = Some x" for x
      using w [OF that] by (cases "j_id x = j_id j") (simp_all add: view_take)
    then show ?thesis unfolding sys_view_def db' by (rule view_of_map [OF find_claim])
  next
    case (step_heartbeat w job)
    then have db': "sys_db s' = update_where (\<lambda>x. j_id x = j_id job) (\<lambda>x. x\<lparr>j_heartbeat := Some (db_now (sys_db s))\<rparr>) (sys_db s)"
      by simp
    show ?thesis unfolding sys_view_def db'
      by (rule view_of_map [OF find_heartbeat]) simp
  next
    case (step_finish w job fin)
    then have db': "sys_db s' = finish_job job fin (sys_db s)" by simp
    have "\<exists>w. job_view_of x = HeldBy w" if "find_job i (sys_db s) = Some x" "j_id x = j_id job" for x
    proof -
      have "find_job (j_id job) (sys_db s) = Some x" using that find_job_id [OF that(1)] by metis
      then have "j_status x = RUNNING" using own [OF step_finish(2)] by (simp add: owns_def)
      then show ?thesis by (simp add: job_view_of_def)
    qed
    then show ?thesis unfolding sys_view_def db'
      by (intro view_of_map [OF find_finish])
        (fastforce simp: job_view_of_def view_end split: exec_end.split)
  next
    case step_reclaim
    then have db': "sys_db s' = fst (reclaimStale staleMs (sys_db s))" by simp
    show ?thesis unfolding sys_view_def db'
      by (rule view_of_map [OF find_reclaim]) (auto simp: job_view_of_def is_stale_def intro: view_step.intros)
  qed (simp_all add: sys_view_def find_job_def)
qed

text \<open>A day in the queue: one job enqueued, claimed and completed.\<close>

definition day_start :: job_sys where
  "day_start = \<lparr>sys_db = \<lparr>db_jobs = [], db_now = 0, db_next = 7\<rparr>, sys_live = []\<rparr>"

definition day_queued :: job_sys where
  "day_queued = day_start\<lparr>sys_db := fst (enqueue ''t'' ''SYNC'' ''src'' None JNull False (sys_db day_start))\<rparr>"

definition day_claimed :: job_sys where
  "day_claimed = (case claim_job {} ''w1'' (sys_db day_queued) of
     (db, Some job) \<Rightarrow> day_queued\<lparr>sys_db := db, sys_live := sys_live day_queued @ [(''w1'', job)]\<rparr> | _ \<Rightarrow> day_queued)"

lemma day_claim: "claim_job {} ''w1'' (sys_db day_queued) = (sys_db day_claimed, Some (snd (hd (sys_live day_claimed))))"
  by (simp add: day_claimed_def day_queued_def day_start_def enqueue_def claim_job_def update_where_def find_job_def Let_def)

lemma day_run: "timely_run 60000 day_start day_claimed"
proof -
  have t: "timely 60000 day_start" "timely 60000 day_queued"
    by (simp_all add: timely_def day_start_def day_queued_def)
  have "job_step 60000 day_start day_queued" unfolding day_queued_def by (rule step_enqueue)
  moreover have "day_claimed = day_queued\<lparr>sys_db := sys_db day_claimed, sys_live := sys_live day_queued @ [(''w1'', snd (hd (sys_live day_claimed)))]\<rparr>"
    using day_claim by (simp add: day_claimed_def split: prod.splits option.splits)
  then have "job_step 60000 day_queued day_claimed"
    using step_claim [OF _ day_claim, of 60000] by (simp add: day_queued_def day_start_def)
  ultimately show ?thesis using t by (blast intro: timely_run.intros)
qed

lemma job_queue_refines_view_witness:
  "sys_view (day_claimed\<lparr>sys_db := finish_job (snd (hd (sys_live day_claimed))) (ExecResult []) (sys_db day_claimed), sys_live := []\<rparr>) 7
     \<noteq> sys_view day_claimed 7 \<and>
   view_step (sys_view day_claimed 7)
     (sys_view (day_claimed\<lparr>sys_db := finish_job (snd (hd (sys_live day_claimed))) (ExecResult []) (sys_db day_claimed), sys_live := []\<rparr>) 7)"
proof -
  let ?s = "day_claimed\<lparr>sys_db := finish_job (snd (hd (sys_live day_claimed))) (ExecResult []) (sys_db day_claimed), sys_live := []\<rparr>"
  obtain job where live: "sys_live day_claimed = [(''w1'', job)]"
    by (simp add: day_claimed_def day_queued_def day_start_def enqueue_def claim_job_def update_where_def find_job_def Let_def)
  have "job_step 60000 day_claimed (day_claimed\<lparr>sys_db := finish_job job (ExecResult []) (sys_db day_claimed),
      sys_live := filter (\<lambda>l. fst l \<noteq> ''w1'') (sys_live day_claimed)\<rparr>)"
    by (rule step_finish) (simp add: live)
  then have "job_step 60000 day_claimed ?s" by (simp add: live)
  moreover have "timely 60000 day_claimed" "sys_start day_start"
    by (simp_all add: timely_def sys_start_def jobs_ok_def day_claimed_def day_queued_def day_start_def enqueue_def claim_job_def
        update_where_def find_job_def is_stale_def Let_def)
  ultimately have "sys_view ?s 7 = sys_view day_claimed 7 \<or> view_step (sys_view day_claimed 7) (sys_view ?s 7)"
    by (intro job_queue_refines_view [OF day_run])
  moreover have "sys_view ?s 7 \<noteq> sys_view day_claimed 7"
    by (simp add: sys_view_def job_view_of_def finish_job_def day_claimed_def day_queued_def day_start_def enqueue_def claim_job_def
        update_where_def find_job_def Let_def)
  ultimately show ?thesis by blast
qed

text \<open>
  C28: mutual exclusion: in a timely run no two live workers hold the same job, whatever the
  interleaving of claims, ends, pauses, resumes, crashes and reclaims.
\<close>

theorem worker_exclusion:
  assumes "timely_run staleMs s0 s" "sys_start s0"
    and "(w1, job1) \<in> set (sys_live s)" "(w2, job2) \<in> set (sys_live s)" "j_id job1 = j_id job2"
  shows "w1 = w2 \<and> job1 = job2"
proof -
  have ok: "sys_ok s" by (rule timely_run_ok [OF assms(1,2)])
  then have "owns (sys_db s) w1 job1" "owns (sys_db s) w2 job2" using assms(3,4) by (auto simp: sys_ok_def)
  then have "w1 = w2" using assms(5) by (auto simp: owns_def)
  moreover have "distinct (map fst (sys_live s))" using ok by (simp add: sys_ok_def)
  ultimately show ?thesis using assms(3,4) by (meson eq_key_imp_eq_value)
qed

lemma worker_exclusion_witness:
  "{w. \<exists>job. (w, job) \<in> set (sys_live day_claimed) \<and> j_id job = 7} = {''w1''}"
proof -
  have live: "(''w1'', snd (hd (sys_live day_claimed))) \<in> set (sys_live day_claimed)" "j_id (snd (hd (sys_live day_claimed))) = 7"
    by (simp_all add: day_claimed_def day_queued_def day_start_def enqueue_def claim_job_def update_where_def find_job_def Let_def)
  have "sys_start day_start" by (simp add: sys_start_def jobs_ok_def day_start_def)
  then have "w = ''w1''" if "(w, job) \<in> set (sys_live day_claimed)" "j_id job = 7" for w job
    using worker_exclusion [OF day_run _ that(1) live(1)] that(2) live(2) by metis
  with live show ?thesis by blast
qed

section \<open>Draining the queue\<close>

fun process_n :: "nat \<Rightarrow> (nat \<Rightarrow> copy_job \<Rightarrow> exec_end) \<Rightarrow> string \<Rightarrow> job_db \<Rightarrow> job_db" where
  "process_n 0 outcome worker db = db"
| "process_n (Suc n) outcome worker db = fst (processOne (outcome n) worker (process_n n outcome worker db))"

text \<open>The number of calls a queued job can still take: its remaining attempts, one at least.\<close>

definition job_work :: "copy_job \<Rightarrow> nat" where
  "job_work j = (if j_status j = QUEUED then max 1 (j_max j - j_attempts j) else 0)"

definition queue_work :: "job_db \<Rightarrow> nat" where
  "queue_work db = sum_list (map job_work (db_jobs db))"

lemma sum_list_update_one:
  assumes "distinct (map f xs)" "j \<in> set xs" "h (g j) < (h j :: nat)"
  shows "sum_list (map h (map (\<lambda>x. if f x = f j then g x else x) xs)) < sum_list (map h xs)"
  using assms
proof (induction xs)
  case (Cons x xs)
  show ?case
  proof (cases "x = j")
    case True
    then have "map (\<lambda>x. if f x = f j then g x else x) xs = xs"
      using Cons.prems(1) by (intro map_idI) (auto simp: image_iff)
    with True Cons.prems(3) show ?thesis by simp
  next
    case False
    then have "f x \<noteq> f j" "j \<in> set xs" using Cons.prems(1,2) by auto
    with Cons show ?thesis by simp
  qed
qed simp

text \<open>One call takes the first queued job through its claim and its end, and no other.\<close>

lemma processOne_cases:
  assumes "distinct (map j_id (db_jobs db))"
  obtains (idle) "\<forall>j \<in> set (db_jobs db). j_status j \<noteq> QUEUED" "processOne outcome w db = (db, None)"
  | (work) j g where "j \<in> set (db_jobs db)" "j_status j = QUEUED" "job_work (g j) < job_work j"
      "\<And>x. j_id (g x) = j_id x"
      "db_jobs (fst (processOne outcome w db)) = map (\<lambda>x. if j_id x = j_id j then g x else x) (db_jobs db)"
proof (cases "List.find (\<lambda>j. j_status j = QUEUED \<and> j_id j \<notin> {}) (db_jobs db)")
  case None
  then have "claim_job {} w db = (db, None)" by (simp add: claim_job_def)
  moreover have "\<forall>j \<in> set (db_jobs db). j_status j \<noteq> QUEUED" using None by (auto simp: find_None_iff)
  ultimately show ?thesis by (intro idle) (simp_all add: processOne_def)
next
  case (Some j)
  have j: "j \<in> set (db_jobs db)" "j_status j = QUEUED" using find_some [OF Some] by auto
  define db1 where "db1 = update_where (\<lambda>x. j_id x = j_id j) (claimed_row w (db_now db)) db"
  have "find_job (j_id j) db = Some j" using j(1) assms by (simp add: find_job_mem)
  then have fj: "find_job (j_id j) db1 = Some (claimed_row w (db_now db) j)" by (simp add: db1_def find_claim)
  have c: "claim_job {} w db = (db1, Some (claimed_row w (db_now db) j))"
    using Some fj by (simp add: claim_job_def db1_def Let_def)
  define h :: "copy_job \<Rightarrow> copy_job" where "h = (\<lambda>x. case run_kind outcome (claimed_row w (db_now db) j) of
          ExecResult errors \<Rightarrow>
            (if errors \<noteq> [] then x\<lparr>j_status := FAILED, j_error := Some (js_join ''; '' errors), j_finished := Some (db_now db1)\<rparr>
             else x\<lparr>j_status := COMPLETED, j_error := None, j_finished := Some (db_now db1)\<rparr>)
        | ExecPaused \<Rightarrow> x\<lparr>j_status := PAUSED\<rparr>
        | ExecError msg \<Rightarrow>
            (if j_attempts (claimed_row w (db_now db) j) < j_max (claimed_row w (db_now db) j) then x\<lparr>j_status := QUEUED, j_error := Some msg\<rparr>
             else x\<lparr>j_status := FAILED, j_error := Some msg, j_finished := Some (db_now db1)\<rparr>))"
  define g where "g = (\<lambda>y. h (claimed_row w (db_now db) y))"
  have idg: "j_id (g x) = j_id x" for x by (simp add: g_def h_def)
  have "fst (processOne outcome w db) = update_where (\<lambda>x. j_id x = j_id j) h db1"
    unfolding processOne_def c prod.case option.case fst_conv finish_job_def h_def by simp
  then have jobs: "db_jobs (fst (processOne outcome w db)) = map (\<lambda>x. if j_id x = j_id j then g x else x) (db_jobs db)"
    by (auto simp: update_where_def db1_def g_def)
  have "job_work (g j) < job_work j"
    by (cases "run_kind outcome (claimed_row w (db_now db) j)") (auto simp: g_def h_def job_work_def j(2) claimed_row_def)
  from work [OF j this idg jobs] show ?thesis .
qed

lemma processOne_ids:
  assumes "distinct (map j_id (db_jobs db))"
  shows "map j_id (db_jobs (fst (processOne outcome w db))) = map j_id (db_jobs db)"
  using assms by (cases rule: processOne_cases [of db outcome w]) (auto simp: comp_def)

lemma processOne_keeps:
  assumes "distinct (map j_id (db_jobs db))" "x \<in> set (db_jobs db)" "j_status x \<noteq> QUEUED"
  shows "x \<in> set (db_jobs (fst (processOne outcome w db)))"
  using assms(1)
proof (cases rule: processOne_cases [of db outcome w])
  case (work j g)
  then have "j_id x \<noteq> j_id j" using assms by (metis find_job_mem option.inject)
  with work(5) assms(2) show ?thesis by force
qed (use assms in simp)

lemma processOne_work:
  assumes "distinct (map j_id (db_jobs db))" "j \<in> set (db_jobs db)" "j_status j = QUEUED"
  shows "queue_work (fst (processOne outcome w db)) < queue_work db"
  using assms(1)
proof (cases rule: processOne_cases [of db outcome w])
  case (work j g)
  show ?thesis unfolding queue_work_def work(5) by (rule sum_list_update_one [where f = j_id and g = g and h = job_work, OF assms(1) work(1,3)])
qed (use assms in auto)

lemma process_n_facts:
  assumes "distinct (map j_id (db_jobs db))"
  shows "map j_id (db_jobs (process_n n outcome w db)) = map j_id (db_jobs db) \<and>
    (\<forall>x \<in> set (db_jobs db). j_status x \<noteq> QUEUED \<longrightarrow> x \<in> set (db_jobs (process_n n outcome w db))) \<and>
    ((\<forall>j \<in> set (db_jobs (process_n n outcome w db)). j_status j \<noteq> QUEUED) \<or>
      queue_work (process_n n outcome w db) + n \<le> queue_work db)"
proof (induction n)
  case (Suc n)
  define d where "d = process_n n outcome w db"
  have ids: "distinct (map j_id (db_jobs d))" using Suc assms by (simp add: d_def)
  have "(\<forall>j \<in> set (db_jobs (fst (processOne (outcome n) w d))). j_status j \<noteq> QUEUED) \<or>
      queue_work (fst (processOne (outcome n) w d)) + Suc n \<le> queue_work db"
  proof (cases "\<forall>j \<in> set (db_jobs d). j_status j \<noteq> QUEUED")
    case True
    with ids show ?thesis by (cases rule: processOne_cases [of d "outcome n" w]) auto
  next
    case False
    then obtain j where j: "j \<in> set (db_jobs d)" "j_status j = QUEUED" by auto
    with Suc False processOne_work [OF ids j, of "outcome n" w] show ?thesis by (auto simp: d_def)
  qed
  with Suc processOne_ids [OF ids, of "outcome n" w] processOne_keeps [OF ids, of _ "outcome n" w] show ?case
    by (simp add: d_def [symmetric])
qed simp

text \<open>
  C29: the queue empties: a worker calling \<open>processOne\<close> often enough (the sum of the remaining
  attempts of the queued jobs) leaves no job queued, whatever the executions answer, and
  touches no job that was not queued.
\<close>

theorem queue_drains:
  assumes "distinct (map j_id (db_jobs db))" "queue_work db \<le> n"
  shows "(\<forall>j \<in> set (db_jobs (process_n n outcome w db)). j_status j \<noteq> QUEUED) \<and>
    {j \<in> set (db_jobs db). j_status j \<noteq> QUEUED} \<subseteq> set (db_jobs (process_n n outcome w db))"
proof -
  have "\<forall>j \<in> set (db_jobs d). j_status j \<noteq> QUEUED" if "queue_work d = 0" for d
  proof
    fix j assume j: "j \<in> set (db_jobs d)"
    have "job_work j \<le> queue_work d" unfolding queue_work_def using j by (simp add: member_le_sum_list)
    with that have "job_work j = 0" by simp
    then show "j_status j \<noteq> QUEUED" by (auto simp: job_work_def split: if_splits)
  qed
  note none = this [of "process_n n outcome w db"]
  note facts = process_n_facts [OF assms(1), of n outcome w]
  have "\<forall>j \<in> set (db_jobs (process_n n outcome w db)). j_status j \<noteq> QUEUED"
  proof (rule ccontr)
    assume a: "\<not> ?thesis"
    then have "queue_work (process_n n outcome w db) = 0" using facts assms(2) by linarith
    from none [OF this] a show False by blast
  qed
  with facts show ?thesis by blast
qed

lemma queue_drains_witness:
  "list_all (\<lambda>j. j_status j \<noteq> QUEUED) (db_jobs (process_n 3 (\<lambda>_ _. ExecError ''down'') ''w1'' (sys_db day_queued))) \<and>
   map j_status (db_jobs (process_n 2 (\<lambda>_ _. ExecError ''down'') ''w1'' (sys_db day_queued))) = [QUEUED]"
proof
  have "distinct (map j_id (db_jobs (sys_db day_queued)))" "queue_work (sys_db day_queued) \<le> 3"
    by code_simp+
  from queue_drains [OF this, of "\<lambda>_ _. ExecError ''down''" "''w1''"]
  show "list_all (\<lambda>j. j_status j \<noteq> QUEUED) (db_jobs (process_n 3 (\<lambda>_ _. ExecError ''down'') ''w1'' (sys_db day_queued)))"
    unfolding list_all_iff by blast
  show "map j_status (db_jobs (process_n 2 (\<lambda>_ _. ExecError ''down'') ''w1'' (sys_db day_queued))) = [QUEUED]" by code_simp
qed

section \<open>Where the queue falls short\<close>

text \<open>
  A pause requested while a job waits is acknowledged and then lost: the claim resets the
  flag, so the job runs with no pause pending.
\<close>

theorem queued_pause_is_lost:
  "map_option j_pause (snd (pause_job ''t'' 7 (sys_db day_queued))) = Some True \<and>
   map_option j_pause (snd (claim_job {} ''w1'' (fst (pause_job ''t'' 7 (sys_db day_queued))))) = Some False"
  by code_simp

text \<open>
  Timeliness is needed, and a CDC refresh cannot provide it, because it writes no
  checkpoint and so never renews its heartbeat: after the stale interval the job is queued
  again and a second worker holds the same job while the first still runs.
\<close>

definition cdc_after :: "job_db \<times> copy_job option" where
  "cdc_after =
     (let db0 = fst (enqueue ''t'' ''CDC'' ''src'' None JNull False (sys_db day_start));
          db1 = fst (claim_job {} ''w1'' db0);
          db2 = fst (reclaimStale 60000 (db1\<lparr>db_now := 60001\<rparr>))
      in claim_job {} ''w2'' db2)"

theorem cdc_job_claimed_twice:
  "\<not> writes_checkpoints ''CDC'' \<and>
   map_option (\<lambda>j. (j_id j, j_claimed j, j_status j)) (snd cdc_after) = Some (7, Some ''w2'', RUNNING) \<and>
   map_option (\<lambda>j. (j_id j, j_claimed j))
     (snd (claim_job {} ''w1'' (fst (enqueue ''t'' ''CDC'' ''src'' None JNull False (sys_db day_start))))) = Some (7, Some ''w1'')"
  by code_simp

end
