(* ===== verification/Pushdown.thy ===== *)
theory Pushdown
  imports Identifiers
begin

text \<open>
  \<open>modules/query-engine/pushdown.ts\<close>, first part: the compilation of a canonical query into a
  parameterized SQL statement or a MongoDB request. A statement is its text and the list of
  its parameters; a MongoDB request is a JavaScript value. Object keys keep insertion order.
\<close>

section \<open>The canonical query\<close>

datatype dialect = Postgres | Mysql | Snowflake | Oracle

record aggregate_spec =
  a_func :: string
  a_column :: "string option"
  a_alias :: string
  a_percent :: "rat option"

datatype group_by = GField string | GBucket string string

record canonical_query =
  q_select :: "string list"
  q_filter :: "(string \<times> jsval) list"
  q_orderBy :: "(string \<times> string) list"
  q_limit :: "rat option"
  q_offset :: "rat option"
  q_groupBy :: "group_by list"
  q_aggregates :: "aggregate_spec list"

type_synonym compiled_sql = "string \<times> jsval list"

section \<open>Identifiers\<close>

definition ident :: "string \<Rightarrow> string" where
  "ident name = filter is_word_chr name"

definition backtick :: char where
  "backtick = CHR 0x60"

definition quote_ident :: "dialect \<Rightarrow> string \<Rightarrow> string" where
  "quote_ident d name =
     (case d of
        Mysql \<Rightarrow> backtick # ident name @ [backtick]
      | Oracle \<Rightarrow> dquote # js_upper (ident name) @ [dquote]
      | _ \<Rightarrow> dquote # ident name @ [dquote])"

definition quoteColumn :: "dialect \<Rightarrow> string \<Rightarrow> string" where
  "quoteColumn d path =
     (if path = [] \<or> path = ''*'' then ''*''
      else js_join ''.'' (map (quote_ident d) (split_chr CHR ''.'' path)))"

section \<open>Filters\<close>

definition SQL_OPERATORS :: "(string \<times> string) list" where
  "SQL_OPERATORS = [(''$eq'', ''=''), (''$ne'', ''!=''), (''$gt'', ''>''), (''$gte'', ''>=''), (''$lt'', ''<''),
     (''$lte'', ''<=''), (''$like'', ''LIKE''), (''$ilike'', ''ILIKE''), (''$in'', ''IN''),
     (''$match'', ''MATCH''), (''$fuzzy'', ''MATCH'')]"

definition splitOp :: "jsval \<Rightarrow> string \<times> jsval" where
  "splitOp raw = (case raw of
     JObj ((k, v) # _) \<Rightarrow> if starts_with k ''$'' then (k, v) else (''$eq'', raw)
   | _ \<Rightarrow> (''$eq'', raw))"

definition splitOps :: "jsval \<Rightarrow> (string \<times> jsval) list" where
  "splitOps raw = (case raw of
     JObj kvs \<Rightarrow> if kvs \<noteq> [] \<and> list_all (\<lambda>(k, _). starts_with k ''$'') kvs then kvs else [(''$eq'', raw)]
   | _ \<Rightarrow> [(''$eq'', raw)])"

text \<open>\<open>placeholder(val)\<close> pushes the value and returns its marker.\<close>

definition marker :: "dialect \<Rightarrow> nat \<Rightarrow> string" where
  "marker d n = (case d of Postgres \<Rightarrow> ''$'' @ show_nat n | Oracle \<Rightarrow> '':'' @ show_nat n | _ \<Rightarrow> ''?'')"

fun placeholders :: "dialect \<Rightarrow> jsval list \<Rightarrow> jsval list \<Rightarrow> string list \<times> jsval list" where
  "placeholders d [] ps = ([], ps)"
| "placeholders d (v # vs) ps =
     (case placeholders d vs (ps @ [v]) of (ms, ps') \<Rightarrow> (marker d (length ps + 1) # ms, ps'))"

definition sql_operator :: "string \<Rightarrow> string" where
  "sql_operator oper = (case map_of SQL_OPERATORS oper of Some s \<Rightarrow> s | None \<Rightarrow> ''='')"

definition clause_sql :: "dialect \<Rightarrow> string \<Rightarrow> string \<times> jsval \<Rightarrow> jsval list \<Rightarrow> compiled_sql" where
  "clause_sql d col c ps = (case c of (oper, v) \<Rightarrow>
     if oper = ''$in'' \<and> is_arr v then
       (if arr_of v = [] then (''1 = 0'', ps)
        else (case placeholders d (arr_of v) ps of (ms, ps') \<Rightarrow> (col @ '' IN ('' @ js_join '', '' ms @ '')'', ps')))
     else if oper = ''$match'' \<or> oper = ''$fuzzy'' then
       (col @ '' '' @ (if d = Postgres then ''ILIKE'' else ''LIKE'') @ '' '' @ marker d (length ps + 1),
        ps @ [JStr (''%'' @ js_string v @ ''%'')])
     else if v = JNull \<and> (oper = ''$eq'' \<or> oper = ''$ne'') then
       (col @ '' IS '' @ (if oper = ''$ne'' then ''NOT '' else []) @ ''NULL'', ps)
     else (col @ '' '' @ sql_operator oper @ '' '' @ marker d (length ps + 1), ps @ [v]))"

fun clauses_sql :: "dialect \<Rightarrow> (string \<times> string \<times> jsval) list \<Rightarrow> jsval list \<Rightarrow> string list \<times> jsval list" where
  "clauses_sql d [] ps = ([], ps)"
| "clauses_sql d ((col, c) # cs) ps =
     (case clause_sql d col c ps of (t, ps1) \<Rightarrow>
        (case clauses_sql d cs ps1 of (ts, ps2) \<Rightarrow> (t # ts, ps2)))"

definition filter_clauses :: "dialect \<Rightarrow> (string \<times> jsval) list \<Rightarrow> (string \<times> string \<times> jsval) list" where
  "filter_clauses d f = concat (map (\<lambda>(k, raw). map (\<lambda>c. (quoteColumn d k, c)) (splitOps raw)) f)"

definition where_sql :: "dialect \<Rightarrow> (string \<times> jsval) list \<Rightarrow> jsval list \<Rightarrow> compiled_sql" where
  "where_sql d f ps =
     (if f = [] then ([], ps)
      else (case clauses_sql d (filter_clauses d f) ps of (ts, ps') \<Rightarrow> ('' WHERE '' @ js_join '' AND '' ts, ps')))"

section \<open>Aggregates and the statement\<close>

definition col_or_star :: "dialect \<Rightarrow> string option \<Rightarrow> string" where
  "col_or_star d c = (case c of Some x \<Rightarrow> if x = [] then ''*'' else quoteColumn d x | None \<Rightarrow> ''*'')"

definition aggExprSql :: "dialect \<Rightarrow> aggregate_spec \<Rightarrow> string" where
  "aggExprSql d a =
     (let col = col_or_star d (a_column a); f = a_func a in
      if f = ''COUNT'' then ''COUNT('' @ col @ '')''
      else if f = ''COUNT_DISTINCT'' then ''COUNT(DISTINCT '' @ col @ '')''
      else if f \<in> set [''SUM'', ''MIN'', ''MAX'', ''AVG''] then f @ ''('' @ col @ '')''
      else if f = ''PERCENTILE'' then
        (let p = (case a_percent a of Some q \<Rightarrow> q | None \<Rightarrow> 95) / 100 in
         if d = Mysql then ''AVG('' @ col @ '')''
         else ''percentile_cont('' @ show_rat p @ '') WITHIN GROUP (ORDER BY '' @ col @ '')'')
      else ''COUNT(*)'')"

definition quoted_text :: "string \<Rightarrow> string" where
  "quoted_text s = CHR 0x27 # s @ [CHR 0x27]"

fun groupBySql :: "dialect \<Rightarrow> group_by \<Rightarrow> string" where
  "groupBySql d (GBucket f i) =
     (case d of
        Mysql \<Rightarrow> ''DATE('' @ quoteColumn d f @ '')''
      | Oracle \<Rightarrow> ''TRUNC('' @ quoteColumn d f @ '')''
      | _ \<Rightarrow> ''date_trunc('' @ quoted_text i @ '', '' @ quoteColumn d f @ '')'')"
| "groupBySql d (GField f) = quoteColumn d f"

fun groupSelectSql :: "dialect \<Rightarrow> group_by \<Rightarrow> string" where
  "groupSelectSql d (GBucket f i) = groupBySql d (GBucket f i) @ '' AS '' @ quote_ident d f"
| "groupSelectSql d (GField f) = quoteColumn d f"

definition select_item :: "dialect \<Rightarrow> string \<Rightarrow> string" where
  "select_item d c =
     (if c = ''*'' \<or> CHR ''('' \<in> set c \<or> CHR '' '' \<in> set c then c else quoteColumn d c)"

definition select_list :: "dialect \<Rightarrow> canonical_query \<Rightarrow> string" where
  "select_list d q =
     (if q_aggregates q \<noteq> [] \<or> q_groupBy q \<noteq> [] then
        js_join '', '' (map (groupSelectSql d) (q_groupBy q)
          @ map (\<lambda>a. aggExprSql d a @ '' AS '' @ quote_ident d (a_alias a)) (q_aggregates q))
      else if q_select q \<noteq> [] then js_join '', '' (map (select_item d) (q_select q))
      else ''*'')"

definition order_sql :: "dialect \<Rightarrow> (string \<times> string) list \<Rightarrow> string" where
  "order_sql d os =
     (if os = [] then []
      else '' ORDER BY '' @ js_join '', ''
        (map (\<lambda>(f, dir). quoteColumn d f @ '' '' @ (if dir = ''DESC'' then ''DESC'' else ''ASC'')) os))"

definition limit_sql :: "dialect \<Rightarrow> rat option \<Rightarrow> rat option \<Rightarrow> string" where
  "limit_sql d lm off =
     (let skips = (case off of Some n \<Rightarrow> n > 0 | None \<Rightarrow> False);
          offn = (case off of Some n \<Rightarrow> show_int \<lfloor>n\<rfloor> | None \<Rightarrow> []);
          limits = (case lm of Some n \<Rightarrow> n \<ge> 0 | None \<Rightarrow> False);
          limn = (case lm of Some n \<Rightarrow> show_int \<lfloor>n\<rfloor> | None \<Rightarrow> [])
      in if d = Oracle then
           (if skips then '' OFFSET '' @ offn @ '' ROWS'' else [])
           @ (if limits then '' FETCH '' @ (if skips then ''NEXT'' else ''FIRST'') @ '' '' @ limn @ '' ROWS ONLY'' else [])
         else (if limits then '' LIMIT '' @ limn else []) @ (if skips then '' OFFSET '' @ offn else []))"

definition table_sql :: "dialect \<Rightarrow> string option \<Rightarrow> string \<Rightarrow> string" where
  "table_sql d schema table =
     (case schema of
        Some s \<Rightarrow> if s = [] then quote_ident d table else quote_ident d s @ ''.'' @ quote_ident d table
      | None \<Rightarrow> quote_ident d table)"

definition toSql :: "dialect \<Rightarrow> string option \<Rightarrow> string \<Rightarrow> canonical_query \<Rightarrow> compiled_sql" where
  "toSql d schema table q =
     (case where_sql d (q_filter q) [] of (w, params) \<Rightarrow>
        (''SELECT '' @ select_list d q @ '' FROM '' @ table_sql d schema table @ w
         @ (if q_groupBy q = [] then [] else '' GROUP BY '' @ js_join '', '' (map (groupBySql d) (q_groupBy q)))
         @ order_sql d (q_orderBy q) @ limit_sql d (q_limit q) (q_offset q), params))"

section \<open>MongoDB\<close>

definition MONGO_OPERATORS :: "string list" where
  "MONGO_OPERATORS = [''$eq'', ''$ne'', ''$gt'', ''$gte'', ''$lt'', ''$lte'', ''$in'']"

definition regex_special :: "char \<Rightarrow> bool" where
  "regex_special c \<longleftrightarrow> c \<in> set ''.*+?^${}()|[]'' \<or> c = CHR 0x5C"

definition escape_regex :: "string \<Rightarrow> string" where
  "escape_regex = replace_chrs regex_special (\<lambda>c. [CHR 0x5C, c])"

definition like_regex :: "string \<Rightarrow> string" where
  "like_regex s = ''^'' @ replace_chrs (\<lambda>c. c = CHR ''_'') (\<lambda>_. ''.'')
     (replace_chrs (\<lambda>c. c = CHR ''%'') (\<lambda>_. ''.*'') (escape_regex s)) @ ''$''"

definition mongo_op :: "(string \<times> jsval) list \<Rightarrow> string \<times> jsval \<Rightarrow> (string \<times> jsval) list" where
  "mongo_op sub c = (case c of (oper, v) \<Rightarrow>
     if oper \<in> set MONGO_OPERATORS then kv_set oper v sub
     else if oper = ''$like'' \<or> oper = ''$ilike'' then
       kv_set ''$options'' (JStr (if oper = ''$ilike'' then ''i'' else []))
         (kv_set ''$regex'' (JStr (like_regex (js_string v))) sub)
     else if oper = ''$match'' \<or> oper = ''$fuzzy'' then
       kv_set ''$options'' (JStr ''i'') (kv_set ''$regex'' (JStr (escape_regex (js_string v))) sub)
     else kv_set oper v sub)"

definition mongo_entry :: "jsval \<Rightarrow> jsval" where
  "mongo_entry raw = (case splitOps raw of
     [(oper, v)] \<Rightarrow> if oper = ''$eq'' then v else JObj (foldl mongo_op [] [(oper, v)])
   | ops \<Rightarrow> JObj (foldl mongo_op [] ops))"

definition mongoMatch :: "(string \<times> jsval) list \<Rightarrow> (string \<times> jsval) list" where
  "mongoMatch f = foldl (\<lambda>m (k, raw). kv_set k (mongo_entry raw) m) [] f"

definition jint :: "int \<Rightarrow> jsval" where
  "jint n = JNum (of_int n)"

definition mongo_projection :: "string list \<Rightarrow> (string \<times> jsval) list" where
  "mongo_projection select =
     (let p = foldl (\<lambda>p c. if CHR ''('' \<in> set c \<or> CHR '' '' \<in> set c then p else kv_set (ident c) (jint 1) p) [] select
      in if p \<noteq> [] \<and> kv_get ''_id'' p = None then kv_set ''_id'' (jint 0) p else p)"

definition mongo_sort :: "(string \<times> string) list \<Rightarrow> (string \<times> jsval) list" where
  "mongo_sort os = foldl (\<lambda>m (f, dir). kv_set f (jint (if dir = ''DESC'' then -1 else 1)) m) [] os"

definition toMongo :: "canonical_query \<Rightarrow> jsval" where
  "toMongo q = JObj
     ([(''filter'', JObj (mongoMatch (q_filter q)))]
      @ (if q_select q \<noteq> [] \<and> ''*'' \<notin> set (q_select q) then [(''projection'', JObj (mongo_projection (q_select q)))] else [])
      @ (if q_orderBy q \<noteq> [] then [(''sort'', JObj (mongo_sort (q_orderBy q)))] else [])
      @ (case q_limit q of Some n \<Rightarrow> if n \<ge> 0 then [(''limit'', jint \<lfloor>n\<rfloor>)] else [] | None \<Rightarrow> [])
      @ (case q_offset q of Some n \<Rightarrow> if n > 0 then [(''skip'', jint \<lfloor>n\<rfloor>)] else [] | None \<Rightarrow> []))"

definition dollar :: "string \<Rightarrow> jsval" where
  "dollar s = JStr (CHR ''$'' # s)"

definition obj1 :: "string \<Rightarrow> jsval \<Rightarrow> jsval" where
  "obj1 k v = JObj [(k, v)]"

text \<open>The state of the aggregate loop: the group stage and the two alias lists.\<close>

type_synonym group_state = "(string \<times> jsval) list \<times> string list \<times> string list"

definition null_str :: "string option \<Rightarrow> string" where
  "null_str c = (case c of Some s \<Rightarrow> s | None \<Rightarrow> ''null'')"

definition stddev_key :: "string \<Rightarrow> string" where
  "stddev_key alias = ''__'' @ alias @ ''_stddev''"

definition mongo_aggregate :: "group_state \<Rightarrow> aggregate_spec \<Rightarrow> group_state" where
  "mongo_aggregate st a = (case st of (g, distinctA, varA) \<Rightarrow>
     (let f = js_upper (a_func a); al = a_alias a; col = dollar (null_str (a_column a));
          numPath = (case a_column a of Some c \<Rightarrow> if c = [] then jint 1 else obj1 ''$toDouble'' (dollar c) | None \<Rightarrow> jint 1)
      in if f = ''COUNT'' then (kv_set al (obj1 ''$sum'' (jint 1)) g, distinctA, varA)
         else if f = ''SUM'' then (kv_set al (obj1 ''$sum'' numPath) g, distinctA, varA)
         else if f = ''MIN'' then (kv_set al (obj1 ''$min'' col) g, distinctA, varA)
         else if f = ''MAX'' then (kv_set al (obj1 ''$max'' col) g, distinctA, varA)
         else if f = ''AVG'' then (kv_set al (obj1 ''$avg'' numPath) g, distinctA, varA)
         else if f = ''COUNT_DISTINCT'' then (kv_set al (obj1 ''$addToSet'' col) g, distinctA @ [al], varA)
         else if f = ''STDDEV'' \<or> f = ''STDDEV_SAMP'' then (kv_set al (obj1 ''$stdDevSamp'' numPath) g, distinctA, varA)
         else if f = ''STDDEV_POP'' then (kv_set al (obj1 ''$stdDevPop'' numPath) g, distinctA, varA)
         else if f = ''VARIANCE'' \<or> f = ''VAR_SAMP''
           then (kv_set (stddev_key al) (obj1 ''$stdDevSamp'' numPath) g, distinctA, varA @ [al])
         else if f = ''VAR_POP'' then (kv_set (stddev_key al) (obj1 ''$stdDevPop'' numPath) g, distinctA, varA @ [al])
         else if f = ''ARRAY_AGG'' then (kv_set al (obj1 ''$push'' col) g, distinctA, varA)
         else (g, distinctA, varA)))"

fun group_field :: "group_by \<Rightarrow> string" where
  "group_field (GField f) = f"
| "group_field (GBucket f _) = f"

definition toMongoAggregate :: "canonical_query \<Rightarrow> jsval list" where
  "toMongoAggregate q =
     (let match = mongoMatch (q_filter q);
          fields = map group_field (q_groupBy q);
          gid = foldl (\<lambda>m g. kv_set (ident g) (dollar g) m) [] fields
      in case foldl mongo_aggregate ([(''_id'', if q_groupBy q = [] then JNull else JObj gid)], [], []) (q_aggregates q) of
           (grp, distinctA, varA) \<Rightarrow>
             (let proj0 = foldl (\<lambda>m g. kv_set g (dollar (''_id.'' @ ident g)) m) [(''_id'', jint 0)] fields;
                  proj = foldl (\<lambda>m a. let al = a_alias a in kv_set al
                     (if al \<in> set distinctA then obj1 ''$size'' (dollar al)
                      else if al \<in> set varA then obj1 ''$pow'' (JArr [dollar (stddev_key al), jint 2])
                      else dollar al) m) proj0 (q_aggregates q)
              in (if match = [] then [] else [obj1 ''$match'' (JObj match)])
                 @ [obj1 ''$group'' (JObj grp), obj1 ''$project'' (JObj proj)]
                 @ (if q_orderBy q = [] then [] else [obj1 ''$sort'' (JObj (mongo_sort (q_orderBy q)))])
                 @ (case q_limit q of Some n \<Rightarrow> if n \<ge> 0 then [obj1 ''$limit'' (jint \<lfloor>n\<rfloor>)] else [] | None \<Rightarrow> [])))"

section \<open>Values never reach the text\<close>

text \<open>
  Two values have the same shape when the compiler must treat them alike: both null, both
  lists of the same length, or both neither.
\<close>

definition same_shape :: "jsval \<Rightarrow> jsval \<Rightarrow> bool" where
  "same_shape a b \<longleftrightarrow> (a = JNull \<longleftrightarrow> b = JNull) \<and> is_arr a = is_arr b \<and> length (arr_of a) = length (arr_of b)"

definition same_ops :: "jsval \<Rightarrow> jsval \<Rightarrow> bool" where
  "same_ops a b \<longleftrightarrow> list_all2 (\<lambda>(o1, v1) (o2, v2). o1 = o2 \<and> same_shape v1 v2) (splitOps a) (splitOps b)"

definition clause_values :: "string \<times> jsval \<Rightarrow> jsval list" where
  "clause_values c = (case c of (oper, v) \<Rightarrow>
     if oper = ''$in'' \<and> is_arr v then arr_of v
     else if oper = ''$match'' \<or> oper = ''$fuzzy'' then [JStr (''%'' @ js_string v @ ''%'')]
     else if v = JNull \<and> (oper = ''$eq'' \<or> oper = ''$ne'') then []
     else [v])"

lemma placeholders_eq: "placeholders d vs ps = (map (\<lambda>i. marker d (length ps + 1 + i)) [0..<length vs], ps @ vs)"
proof (induction d vs ps rule: placeholders.induct)
  case (2 d v vs ps)
  have "map (\<lambda>i. marker d (length ps + 1 + i)) [0..<Suc (length vs)] =
      marker d (length ps + 1) # map (\<lambda>i. marker d (length (ps @ [v]) + 1 + i)) [0..<length vs]"
    by (subst upt_conv_Cons) (simp_all add: map_Suc_upt [symmetric] del: upt_Suc map_Suc_upt)
  with 2 show ?case by simp
qed simp

lemma clause_sql_params: "snd (clause_sql d col c ps) = ps @ clause_values c"
  by (cases c) (auto simp: clause_sql_def clause_values_def placeholders_eq)

lemma clause_sql_shape:
  assumes "same_shape v w" "length ps = length qs"
  shows "fst (clause_sql d col (oper, v) ps) = fst (clause_sql d col (oper, w) qs)"
    "length (clause_values (oper, v)) = length (clause_values (oper, w))"
  using assms by (auto simp: clause_sql_def clause_values_def placeholders_eq same_shape_def)

lemma clauses_sql_params: "snd (clauses_sql d cs ps) = ps @ concat (map (\<lambda>(_, c). clause_values c) cs)"
proof (induction d cs ps rule: clauses_sql.induct)
  case (2 d col c cs ps)
  obtain t ps1 where 1: "clause_sql d col c ps = (t, ps1)" by force
  with clause_sql_params [of d col c ps] have "ps1 = ps @ clause_values c" by simp
  with 2 [OF 1 [symmetric]] 1 show ?case by (cases "clauses_sql d cs ps1") simp
qed simp

lemma clauses_sql_shape:
  assumes "list_all2 (\<lambda>(c1, o1, v1) (c2, o2, v2). c1 = c2 \<and> o1 = o2 \<and> same_shape v1 v2) cs ds" "length ps = length qs"
  shows "fst (clauses_sql d cs ps) = fst (clauses_sql d ds qs)"
  using assms
proof (induction cs ds arbitrary: ps qs rule: list_all2_induct)
  case (Cons x xs y ys)
  obtain col oper v w where xy: "x = (col, oper, v)" "y = (col, oper, w)" and sh: "same_shape v w"
    using Cons.hyps(1) by (cases x, cases y) auto
  obtain t ps1 where 1: "clause_sql d col (oper, v) ps = (t, ps1)" by force
  obtain u qs1 where 2: "clause_sql d col (oper, w) qs = (u, qs1)" by force
  from clause_sql_shape(1) [OF sh Cons.prems, of d col oper] have "t = u" by (simp add: 1 2)
  moreover have "length ps1 = length qs1"
    using clause_sql_params [of d col "(oper, v)" ps] clause_sql_params [of d col "(oper, w)" qs]
      clause_sql_shape(2) [OF sh Cons.prems, of oper] Cons.prems
    by (simp add: 1 2)
  from Cons.IH [OF this] have "fst (clauses_sql d xs ps1) = fst (clauses_sql d ys qs1)" .
  ultimately show ?case
    by (cases "clauses_sql d xs ps1"; cases "clauses_sql d ys qs1") (simp add: xy 1 2)
qed simp

lemma filter_clauses_shape:
  "list_all2 (\<lambda>(k1, a) (k2, b). k1 = k2 \<and> same_ops a b) f g \<Longrightarrow>
   list_all2 (\<lambda>(c1, o1, v1) (c2, o2, v2). c1 = c2 \<and> o1 = o2 \<and> same_shape v1 v2) (filter_clauses d f) (filter_clauses d g)"
proof (induction rule: list_all2_induct)
  case (Cons x xs y ys)
  then show ?case
    by (auto simp: filter_clauses_def same_ops_def list_all2_map1 list_all2_map2 intro!: list_all2_appendI
        elim!: list_all2_mono)
qed (simp add: filter_clauses_def)

section \<open>LIKE patterns as regular expressions\<close>

text \<open>
  The meaning of the fragment of regular expressions \<open>like_regex\<close> produces: an escaped or
  ordinary character stands for itself, \<open>.\<close> for any character but a line feed, \<open>.*\<close> for any
  sequence of those.
\<close>

definition newline :: char where
  "newline = CHR 0x0A"

function frag_match :: "string \<Rightarrow> string \<Rightarrow> bool" where
  "frag_match [] s = (s = [])"
| "frag_match (c # r) s =
     (if c = bslash then
        (case r of [] \<Rightarrow> False | d # r' \<Rightarrow> (case s of [] \<Rightarrow> False | x # xs \<Rightarrow> x = d \<and> frag_match r' xs))
      else if c = CHR ''.'' \<and> starts_with r ''*'' then
        frag_match (drop 1 r) s \<or> (case s of [] \<Rightarrow> False | x # xs \<Rightarrow> x \<noteq> newline \<and> frag_match (c # r) xs)
      else (case s of [] \<Rightarrow> False | x # xs \<Rightarrow> (if c = CHR ''.'' then x \<noteq> newline else x = c) \<and> frag_match r xs))"
  by pat_completeness auto
termination
  by (relation "measure (\<lambda>(p, s). length p + length s)") auto

declare frag_match.simps [simp del]

definition regex_match :: "string \<Rightarrow> string \<Rightarrow> bool" where
  "regex_match r s \<longleftrightarrow> starts_with r ''^'' \<and> ends_with r ''$'' \<and> frag_match (butlast (drop 1 r)) s"

definition re_of :: "char \<Rightarrow> string" where
  "re_of c = (if c = CHR ''%'' then ''.*'' else if c = CHR ''_'' then ''.''
              else if regex_special c then [bslash, c] else [c])"

lemma re_of_wild: "re_of (CHR ''%'') = ''.*''" "re_of (CHR ''_'') = ''.''"
  by (simp_all add: re_of_def)

lemma re_of_other: "c \<noteq> CHR ''%'' \<Longrightarrow> c \<noteq> CHR ''_'' \<Longrightarrow>
    re_of c = (if regex_special c then [bslash, c] else [c])"
  by (simp add: re_of_def)

lemma special_facts:
  "regex_special bslash" "\<not> regex_special (CHR ''%'')" "\<not> regex_special (CHR ''_'')" "regex_special (CHR ''.'')"
  by (simp_all add: regex_special_def bslash_def)

lemma like_regex_eq: "like_regex p = ''^'' @ concat (map re_of p) @ ''$''"
proof -
  have "replace_chrs (\<lambda>c. c = CHR ''_'') (\<lambda>_. ''.'') (replace_chrs (\<lambda>c. c = CHR ''%'') (\<lambda>_. ''.*'') (escape_regex p))
      = concat (map re_of p)"
  proof (induction p)
    case (Cons c p)
    have "replace_chrs (\<lambda>c. c = CHR ''_'') (\<lambda>_. ''.'')
        (replace_chrs (\<lambda>c. c = CHR ''%'') (\<lambda>_. ''.*'') (escape_regex [c])) = re_of c"
      using special_facts by (auto simp: re_of_def escape_regex_def replace_chrs_def bslash_def)
    with Cons show ?case by (simp add: escape_regex_def replace_chrs_def)
  qed (simp add: escape_regex_def replace_chrs_def)
  then show ?thesis by (simp add: like_regex_def)
qed

lemma frag_escape [simp]:
  "frag_match (bslash # d # r) s = (case s of [] \<Rightarrow> False | x # xs \<Rightarrow> x = d \<and> frag_match r xs)"
  by (subst frag_match.simps(2)) simp

lemma frag_star [simp]:
  "frag_match (CHR ''.'' # CHR ''*'' # r) [] = frag_match r []"
  "frag_match (CHR ''.'' # CHR ''*'' # r) (x # xs) \<longleftrightarrow>
     frag_match r (x # xs) \<or> x \<noteq> newline \<and> frag_match (CHR ''.'' # CHR ''*'' # r) xs"
  by (subst frag_match.simps(2), simp add: bslash_def)+

lemma frag_dot: "\<not> starts_with r ''*'' \<Longrightarrow>
    frag_match (CHR ''.'' # r) s = (case s of [] \<Rightarrow> False | x # xs \<Rightarrow> x \<noteq> newline \<and> frag_match r xs)"
  by (subst frag_match.simps(2)) (simp add: bslash_def split: list.splits)

lemma frag_plain: "c \<noteq> bslash \<Longrightarrow> c \<noteq> CHR ''.'' \<Longrightarrow>
    frag_match (c # r) s = (case s of [] \<Rightarrow> False | x # xs \<Rightarrow> x = c \<and> frag_match r xs)"
  by (subst frag_match.simps(2)) (simp split: list.splits)

lemma frag_Nil [simp]: "frag_match [] s = (s = [])"
  by (simp add: frag_match.simps)

lemma no_leading_star: "\<not> starts_with (concat (map re_of p)) ''*''"
proof (cases p)
  case (Cons c q)
  have "regex_special (CHR ''*'')" by (simp add: regex_special_def)
  then show ?thesis unfolding Cons
    by (cases "c = CHR ''*''") (auto simp: re_of_def bslash_def starts_with_iff)
qed simp

lemma like_match_underscore:
  "like_match (CHR ''_'' # p) s = (case s of [] \<Rightarrow> False | x # xs \<Rightarrow> like_match p xs)"
  by (subst like_match.simps(2)) (simp split: list.splits)

lemma frag_match_like:
  "bslash \<notin> set p \<Longrightarrow> newline \<notin> set s \<Longrightarrow> frag_match (concat (map re_of p)) s = like_match p s"
proof (induction p arbitrary: s)
  case (Cons c p)
  consider "c = CHR ''%''" | "c = CHR ''_''" | "c \<noteq> CHR ''%''" "c \<noteq> CHR ''_''" by blast
  then show ?case
  proof cases
    case 1
    have "frag_match (CHR ''.'' # CHR ''*'' # concat (map re_of p)) t = like_match (CHR ''%'' # p) t"
      if "newline \<notin> set t" for t
      using that
    proof (induction t)
      case Nil
      with Cons show ?case by simp
    next
      case (Cons x t)
      with \<open>\<And>s. bslash \<notin> set p \<Longrightarrow> newline \<notin> set s \<Longrightarrow> _\<close> \<open>bslash \<notin> set (c # p)\<close> show ?case by auto
    qed
    with 1 Cons.prems show ?thesis by (simp add: re_of_wild)
  next
    case 2
    with Cons no_leading_star [of p] show ?thesis
      by (auto simp: re_of_wild frag_dot like_match_underscore split: list.splits)
  next
    case 3
    with Cons show ?thesis
      by (cases "c = CHR ''.''")
         (auto simp: re_of_other frag_plain like_match_literal special_facts split: list.splits)
  qed
qed simp

section \<open>Properties\<close>

text \<open>
  C11: the parameters of a compiled statement are the filter's values in clause order, and the
  text depends on the filter only through its columns, its operators and the shape of the
  values, so no value of a query ever becomes SQL text.
\<close>

theorem toSql_parameterized:
  assumes "list_all2 (\<lambda>(k1, a) (k2, b). k1 = k2 \<and> same_ops a b) f g"
  shows "fst (toSql d sch tb (q\<lparr>q_filter := f\<rparr>)) = fst (toSql d sch tb (q\<lparr>q_filter := g\<rparr>))
    \<and> snd (toSql d sch tb (q\<lparr>q_filter := f\<rparr>)) = concat (map (\<lambda>(_, c). clause_values c) (filter_clauses d f))"
proof -
  have fg: "f = [] \<longleftrightarrow> g = []" using assms by auto
  have t: "fst (clauses_sql d (filter_clauses d f) []) = fst (clauses_sql d (filter_clauses d g) [])"
    by (rule clauses_sql_shape [OF filter_clauses_shape [OF assms]]) simp
  have w: "fst (where_sql d f []) = fst (where_sql d g [])"
    using t fg
    by (cases "clauses_sql d (filter_clauses d f) []"; cases "clauses_sql d (filter_clauses d g) []")
       (auto simp: where_sql_def)
  have "snd (where_sql d f []) = concat (map (\<lambda>(_, c). clause_values c) (filter_clauses d f))"
    using clauses_sql_params [of d "filter_clauses d f" "[]"]
    by (cases "f = []") (auto simp: where_sql_def filter_clauses_def split: prod.splits)
  with w show ?thesis
    by (cases "where_sql d f []"; cases "where_sql d g []") (simp add: toSql_def select_list_def)
qed

definition plain_query :: canonical_query where
  "plain_query = \<lparr>q_select = [''id''], q_filter = [], q_orderBy = [], q_limit = Some 10, q_offset = None,
                  q_groupBy = [], q_aggregates = []\<rparr>"

lemma toSql_parameterized_witness:
  "snd (toSql Postgres (Some ''s'') ''t'' (plain_query\<lparr>q_filter := [(''name'', JStr ''x; DROP TABLE t'')]\<rparr>))
     = [JStr ''x; DROP TABLE t'']"
proof -
  have s: "list_all2 (\<lambda>(k1, a) (k2, b). k1 = k2 \<and> same_ops a b)
      [(''name'', JStr ''x; DROP TABLE t'')] [(''name'', JStr ''y'')]"
    by (simp add: same_ops_def splitOps_def same_shape_def)
  have "concat (map (\<lambda>(_, c). clause_values c) (filter_clauses Postgres [(''name'', JStr ''x; DROP TABLE t'')]))
      = [JStr ''x; DROP TABLE t'']"
    by (simp add: filter_clauses_def splitOps_def clause_values_def)
  with toSql_parameterized [OF s, of Postgres "Some ''s''" "''t''" plain_query] show ?thesis by simp
qed

text \<open>
  C25: the regular expression sent to MongoDB for a \<open>LIKE\<close> pattern accepts exactly the texts the
  pattern matches, whatever characters of the pattern are special in regular expressions; the
  pattern holds no backslash and the text no line feed.
\<close>

theorem like_regex_matches_like:
  assumes "bslash \<notin> set p" "newline \<notin> set s"
  shows "regex_match (like_regex p) s = like_match p s"
proof -
  have "starts_with (like_regex p) ''^''" "ends_with (like_regex p) ''$''"
    "butlast (drop 1 (like_regex p)) = concat (map re_of p)"
    by (auto simp: like_regex_eq starts_with_iff ends_with_iff butlast_append)
  with frag_match_like [OF assms] show ?thesis by (simp add: regex_match_def)
qed

lemma like_regex_matches_like_witness:
  "regex_match (like_regex ''a.b%'') ''a.bc'' \<and> \<not> regex_match (like_regex ''a.b%'') ''axbc''"
proof -
  have n: "bslash \<notin> set ''a.b%''" "newline \<notin> set ''a.bc''" "newline \<notin> set ''axbc''"
    by (simp_all add: bslash_def newline_def)
  have "like_match ''a.b%'' ''a.bc''" "\<not> like_match ''a.b%'' ''axbc''" by code_simp+
  with like_regex_matches_like [OF n(1,2)] like_regex_matches_like [OF n(1,3)] show ?thesis by simp
qed

end
