(* ===== verification/Policy.thy ===== *)
theory Policy
  imports Identifiers
begin

text \<open>
  \<open>modules/security/policy.service.ts\<close> and \<open>grant.service.ts\<close>: row policies compiled into a
  filter that is merged into the query sent to a source, column masks applied to the rows
  that come back, and the privilege decision. Policies and grants are rows of two catalogue
  tables; their JSON columns are kept as JavaScript values.
\<close>

section \<open>The policy catalogue\<close>

record session_ctx =
  s_tenant :: string
  s_role :: "string option"
  s_region :: "string option"
  s_username :: "string option"

record policy_row =
  p_id :: string
  p_tenant :: string
  p_schema :: string
  p_table :: string
  p_name :: string
  p_roles :: jsval
  p_filter :: jsval
  p_masking :: jsval
  p_source :: string
  p_updated :: nat

definition physicalSchema :: "string \<Rightarrow> string \<Rightarrow> string" where
  "physicalSchema tenantId schema =
     (let prefix = ''tenant_'' @ tenantId @ ''_'' in
      if starts_with schema prefix \<or> starts_with schema ''tenant_'' then schema else prefix @ schema)"

definition or_empty :: "jsval \<Rightarrow> jsval" where
  "or_empty v = (if truthy v then v else JArr [])"

definition same_key :: "string \<Rightarrow> string \<Rightarrow> string \<Rightarrow> string \<Rightarrow> policy_row \<Rightarrow> bool" where
  "same_key t s tb n r \<longleftrightarrow> p_tenant r = t \<and> p_schema r = s \<and> p_table r = tb \<and> p_name r = n"

text \<open>
  The arguments are the tenant, the policy (name, schema, table, and the three JSON parts), its
  origin, a fresh id and the time of the write. The unique key decides between insert and update.
\<close>

definition upsertPolicy ::
  "string \<Rightarrow> string \<Rightarrow> string \<Rightarrow> string \<Rightarrow> jsval \<Rightarrow> jsval \<Rightarrow> jsval \<Rightarrow> string \<Rightarrow> string \<Rightarrow> nat \<Rightarrow>
   policy_row list \<Rightarrow> policy_row list" where
  "upsertPolicy t name schema table roles rowFilter masking source fresh now rows =
     (if list_ex (same_key t schema table name) rows
      then map (\<lambda>r. if same_key t schema table name r
                    then r\<lparr>p_roles := or_empty roles, p_filter := or_empty rowFilter, p_masking := or_empty masking,
                           p_source := source, p_updated := now\<rparr>
                    else r) rows
      else rows @ [\<lparr>p_id = fresh, p_tenant = t, p_schema = schema, p_table = table, p_name = name,
                    p_roles = or_empty roles, p_filter = or_empty rowFilter, p_masking = or_empty masking,
                    p_source = source, p_updated = now\<rparr>])"

definition listPolicies :: "string \<Rightarrow> policy_row list \<Rightarrow> policy_row list" where
  "listPolicies t rows = js_sort (\<lambda>a b. p_updated a > p_updated b) (filter (\<lambda>r. p_tenant r = t) rows)"

definition deletePolicy :: "string \<Rightarrow> string \<Rightarrow> policy_row list \<Rightarrow> bool \<times> policy_row list" where
  "deletePolicy t i rows =
     (list_ex (\<lambda>r. p_tenant r = t \<and> p_id r = i) rows, filter (\<lambda>r. \<not> (p_tenant r = t \<and> p_id r = i)) rows)"

section \<open>Compiling row filters\<close>

definition opt_str :: "string option \<Rightarrow> jsval" where
  "opt_str v = (case v of Some s \<Rightarrow> JStr s | None \<Rightarrow> JNull)"

definition resolveValue :: "session_ctx \<Rightarrow> jsval \<Rightarrow> jsval" where
  "resolveValue session v =
     (if is_obj v \<and> kv_get ''session'' (obj_of v) \<noteq> None then
        (let k = js_string (js_get ''session'' v) in
         if k = ''tenant_id'' then JStr (s_tenant session)
         else if k = ''region'' then opt_str (s_region session)
         else if k = ''role'' then opt_str (s_role session)
         else if k = ''username'' then opt_str (s_username session)
         else JNull)
      else v)"

definition roleMatches :: "session_ctx \<Rightarrow> jsval \<Rightarrow> bool" where
  "roleMatches session roles =
     (if \<not> is_arr roles \<or> arr_of roles = [] then True
      else js_upper (case s_role session of Some r \<Rightarrow> r | None \<Rightarrow> [])
             \<in> set (map (\<lambda>x. js_upper (js_string x)) (arr_of roles)))"

definition CANON_OP :: "(string \<times> string) list" where
  "CANON_OP = [(''EQ'', ''$eq''), (''NEQ'', ''$ne''), (''GT'', ''$gt''), (''GTE'', ''$gte''), (''LT'', ''$lt''),
     (''LTE'', ''$lte''), (''IN'', ''$in''), (''LIKE'', ''$like'')]"

type_synonym js_filter = "(string \<times> jsval) list"

text \<open>\<open>filter[col] = { ...(typeof filter[col] === 'object' ? filter[col] : {}), ...frag }\<close>.\<close>

definition merge_cond :: "string \<Rightarrow> (string \<times> jsval) list \<Rightarrow> js_filter \<Rightarrow> js_filter" where
  "merge_cond col frag f =
     kv_set col (JObj (kv_merge (case kv_get col f of Some v \<Rightarrow> obj_of v | None \<Rightarrow> []) frag)) f"

text \<open>The operator and value a clause contributes, if any.\<close>

definition clause_cond :: "session_ctx \<Rightarrow> jsval \<Rightarrow> (string \<times> string \<times> jsval) option" where
  "clause_cond session c =
     (if \<not> truthy c \<or> \<not> truthy (js_get ''column'' c) then None
      else
        let opv = js_get ''operator'' c;
            oper = js_upper (js_string (if truthy opv then opv else JStr ''EQ''));
            col = js_string (js_get ''column'' c)
        in if oper = ''IS_NULL'' then Some (col, ''$eq'', JNull)
           else if oper = ''IS_NOT_NULL'' then Some (col, ''$ne'', JNull)
           else (case map_of CANON_OP oper of
               None \<Rightarrow> None
             | Some canon \<Rightarrow> Some (col, canon, resolveValue session (js_get ''value'' c))))"

fun compile_onto :: "session_ctx \<Rightarrow> jsval list \<Rightarrow> js_filter \<Rightarrow> js_filter" where
  "compile_onto session [] f = f"
| "compile_onto session (c # cs) f =
     compile_onto session cs
       (case clause_cond session c of None \<Rightarrow> f | Some (col, oper, v) \<Rightarrow> merge_cond col [(oper, v)] f)"

definition compileFilter :: "session_ctx \<Rightarrow> jsval list \<Rightarrow> js_filter" where
  "compileFilter session clauses = compile_onto session clauses []"

section \<open>Resolving and merging\<close>

record resolved =
  r_filter :: js_filter
  r_masks :: "jsval list"
  r_applied :: "string list"

fun merge_frags :: "js_filter \<Rightarrow> js_filter \<Rightarrow> js_filter" where
  "merge_frags f [] = f"
| "merge_frags f ((col, cond) # rest) = merge_frags (merge_cond col (obj_of cond) f) rest"

definition apply_policy :: "session_ctx \<Rightarrow> resolved \<Rightarrow> policy_row \<Rightarrow> resolved" where
  "apply_policy session acc row =
     (if \<not> roleMatches session (p_roles row) then acc
      else
        let clauses = arr_of (p_filter row);
            f = (if clauses = [] then r_filter acc else merge_frags (r_filter acc) (compileFilter session clauses));
            ms = filter (\<lambda>m. roleMatches session (js_get ''roles'' m)) (arr_of (p_masking row))
        in \<lparr>r_filter = f, r_masks = r_masks acc @ ms, r_applied = r_applied acc @ [p_name row]\<rparr>)"

definition resolve :: "policy_row list \<Rightarrow> string \<Rightarrow> string \<Rightarrow> string \<Rightarrow> session_ctx \<Rightarrow> resolved" where
  "resolve rows tenantId physical table session =
     foldl (apply_policy session) \<lparr>r_filter = [], r_masks = [], r_applied = []\<rparr>
       (filter (\<lambda>r. p_tenant r = tenantId \<and> p_schema r = physical \<and> p_table r = table) rows)"

text \<open>\<open>typeof v === 'object'\<close>; \<open>mergeIntoFilter\<close> for one column and for all of them.\<close>

fun typeof_object :: "jsval \<Rightarrow> bool" where
  "typeof_object JNull = True"
| "typeof_object (JArr _) = True"
| "typeof_object (JObj _) = True"
| "typeof_object _ = False"

definition merge_column :: "js_filter \<Rightarrow> string \<Rightarrow> jsval \<Rightarrow> js_filter" where
  "merge_column out col cond =
     (let prev = (case kv_get col out of Some v \<Rightarrow> v | None \<Rightarrow> JUndef) in
      if is_obj prev \<and> typeof_object cond then kv_set col (JObj (kv_merge (obj_of prev) (obj_of cond))) out
      else if prev \<noteq> JUndef \<and> (\<not> typeof_object prev \<or> is_arr prev)
        then kv_set col (JObj (kv_merge [(''$eq'', prev)] (obj_of cond))) out
      else kv_set col cond out)"

fun mergeIntoFilter :: "js_filter \<Rightarrow> js_filter \<Rightarrow> js_filter" where
  "mergeIntoFilter out [] = out"
| "mergeIntoFilter out ((col, cond) # rest) = mergeIntoFilter (merge_column out col cond) rest"

section \<open>Masking\<close>

definition hash_step :: "32 word \<Rightarrow> char \<Rightarrow> 32 word" where
  "hash_step h c = push_bit 5 h + h + of_nat (code_unit c)"

definition pad_start :: "nat \<Rightarrow> char \<Rightarrow> string \<Rightarrow> string" where
  "pad_start n c s = replicate (n - length s) c @ s"

definition cheapHash :: "string \<Rightarrow> string" where
  "cheapHash s = pad_start 8 (CHR ''0'') (show_base 16 (unat (foldl hash_step 5381 s)))"

definition maskValue :: "jsval \<Rightarrow> string \<Rightarrow> jsval" where
  "maskValue v strategy =
     (if nullish v then v
      else if strategy = ''NULL'' then JNull
      else if strategy = ''REDACT'' then JStr ''***REDACTED***''
      else if strategy = ''HASH'' then JStr (''sha256:'' @ cheapHash (js_string v))
      else if strategy = ''PARTIAL'' then
        (let s = js_string v in
         if length s \<le> 4 then JStr ''****''
         else JStr (replicate (length s - 4) CHR ''*'' @ drop (length s - 4) s))
      else v)"

text \<open>\<open>{ ...r }\<close>: the own properties of an object, or the indices of an array.\<close>

definition spread :: "jsval \<Rightarrow> (string \<times> jsval) list" where
  "spread r = (case r of
     JObj kvs \<Rightarrow> kvs
   | JArr xs \<Rightarrow> zip (map show_nat [0..<length xs]) xs
   | _ \<Rightarrow> [])"

definition mask_column :: "(string \<times> jsval) list \<Rightarrow> jsval \<Rightarrow> (string \<times> jsval) list" where
  "mask_column copy m =
     (let col = js_string (js_get ''column'' m) in
      case kv_get col copy of
        None \<Rightarrow> copy
      | Some v \<Rightarrow> kv_set col (maskValue v (str_of (js_get ''strategy'' m))) copy)"

definition applyMasks :: "jsval list \<Rightarrow> jsval list \<Rightarrow> jsval list" where
  "applyMasks masks rows =
     (if masks = [] then rows
      else map (\<lambda>r. if is_obj r \<or> is_arr r then JObj (foldl mask_column (spread r) masks) else r) rows)"

section \<open>Grants\<close>

record grant_row =
  g_tenant :: string
  g_schema :: string
  g_table :: string
  g_grants :: "jsval list"
  g_source :: string

definition upsertGrants ::
  "string \<Rightarrow> string \<Rightarrow> string \<Rightarrow> jsval list \<Rightarrow> string \<Rightarrow> grant_row list \<Rightarrow> grant_row list" where
  "upsertGrants t s tb grants source rows =
     (if list_ex (\<lambda>r. g_tenant r = t \<and> g_schema r = s \<and> g_table r = tb) rows
      then map (\<lambda>r. if g_tenant r = t \<and> g_schema r = s \<and> g_table r = tb
                    then r\<lparr>g_grants := grants, g_source := source\<rparr> else r) rows
      else rows @ [\<lparr>g_tenant = t, g_schema = s, g_table = tb, g_grants = grants, g_source = source\<rparr>])"

definition holds_privilege :: "string \<Rightarrow> string \<Rightarrow> jsval \<Rightarrow> bool" where
  "holds_privilege r privilege g \<longleftrightarrow>
     js_upper (js_string (if truthy (js_get ''role'' g) then js_get ''role'' g else JStr [])) = r
     \<and> privilege \<in> set (map (\<lambda>p. js_upper (js_string p)) (arr_of (js_get ''privileges'' g)))"

definition decide :: "jsval list \<Rightarrow> string option \<Rightarrow> string \<Rightarrow> bool \<times> bool" where
  "decide grants role privilege =
     (if grants = [] then (True, False)
      else
        let r = js_upper (case role of Some x \<Rightarrow> x | None \<Rightarrow> []) in
        if r = ''ADMIN'' \<or> r = ''SYSTEM'' then (True, True)
        else (list_ex (holds_privilege r privilege) grants, True))"

definition check_grant ::
  "grant_row list \<Rightarrow> string \<Rightarrow> string \<Rightarrow> string \<Rightarrow> string option \<Rightarrow> string \<Rightarrow> bool \<times> bool" where
  "check_grant rows t s tb role privilege =
     (let grants = (case List.find (\<lambda>r. g_tenant r = t \<and> g_schema r = s \<and> g_table r = tb) rows of
                      Some r \<Rightarrow> g_grants r | None \<Rightarrow> [])
      in decide grants role privilege)"

text \<open>The error carries \<open>accessDenied\<close> and no status.\<close>

definition enforce :: "grant_row list \<Rightarrow> string \<Rightarrow> string \<Rightarrow> string \<Rightarrow> string option \<Rightarrow> string \<Rightarrow> unit res" where
  "enforce rows t s tb role privilege =
     (case check_grant rows t s tb role privilege of (allowed, governed) \<Rightarrow>
        if governed \<and> \<not> allowed then Inl (Err 0 ''ACCESS_DENIED'') else Inr ())"

section \<open>Conditions of a filter\<close>

definition cond_of :: "js_filter \<Rightarrow> string \<Rightarrow> string \<Rightarrow> jsval option" where
  "cond_of f col oper = (case kv_get col f of Some v \<Rightarrow> kv_get oper (obj_of v) | None \<Rightarrow> None)"

text \<open>A compiled filter: one object of operators per column, no key twice.\<close>

definition wf_filter :: "js_filter \<Rightarrow> bool" where
  "wf_filter f \<longleftrightarrow> distinct (map fst f) \<and> (\<forall>(c, v) \<in> set f. is_obj v \<and> distinct (map fst (obj_of v)))"

lemma is_obj_iff: "is_obj v \<longleftrightarrow> (\<exists>kvs. v = JObj kvs)"
  by (cases v) auto

lemma kv_set_in: "(c, x) \<in> set (kv_set k v f) \<Longrightarrow> (c, x) \<in> set f \<or> c = k \<and> x = v"
  by (induction k v f rule: kv_set.induct) (auto split: if_splits)

lemma wf_merge_cond:
  assumes "wf_filter f"
  shows "wf_filter (merge_cond col frag f)"
proof -
  let ?base = "case kv_get col f of Some v \<Rightarrow> obj_of v | None \<Rightarrow> []"
  have "distinct (map fst ?base)"
    using assms kv_get_in [of col f] by (fastforce simp: wf_filter_def split: option.splits)
  then have "distinct (map fst (kv_merge ?base frag))" by (rule kv_merge_distinct)
  with assms show ?thesis
    unfolding wf_filter_def merge_cond_def
    by (auto simp: kv_set_distinct dest!: kv_set_in split: option.splits)
qed

lemma cond_of_merge:
  assumes "distinct (map fst frag)"
  shows "cond_of (merge_cond c frag f) col oper =
    (if c = col then (case kv_get oper frag of Some v \<Rightarrow> Some v | None \<Rightarrow> cond_of f col oper) else cond_of f col oper)"
  using assms by (auto simp: cond_of_def merge_cond_def kv_get_merge split: option.splits)

lemma wf_compile_onto: "wf_filter f \<Longrightarrow> wf_filter (compile_onto session cs f)"
  by (induction session cs f rule: compile_onto.induct) (auto simp: wf_merge_cond split: option.splits)

lemma wf_Nil [simp]: "wf_filter []"
  by (simp add: wf_filter_def)

text \<open>The conditions of a clause list in order; the last one on a column and operator.\<close>

definition clause_conds :: "session_ctx \<Rightarrow> jsval list \<Rightarrow> (string \<times> string \<times> jsval) list" where
  "clause_conds session cs = List.map_filter (clause_cond session) cs"

fun last_cond :: "(string \<times> string \<times> jsval) list \<Rightarrow> string \<Rightarrow> string \<Rightarrow> jsval option" where
  "last_cond [] col oper = None"
| "last_cond ((c, o', v) # cs) col oper =
     (case last_cond cs col oper of Some x \<Rightarrow> Some x | None \<Rightarrow> if c = col \<and> o' = oper then Some v else None)"

lemma last_cond_append:
  "last_cond (a @ b) col oper = (case last_cond b col oper of Some x \<Rightarrow> Some x | None \<Rightarrow> last_cond a col oper)"
  by (induction a col oper rule: last_cond.induct) (auto split: option.splits)

lemma last_cond_mem:
  assumes "(col, oper, v) \<in> set cs" "\<And>x. (col, oper, x) \<in> set cs \<Longrightarrow> x = v"
  shows "last_cond cs col oper = Some v"
proof -
  have none: "last_cond cs col oper = None \<longleftrightarrow> (\<forall>x. (col, oper, x) \<notin> set cs)" for cs
    by (induction cs) (auto split: option.splits)
  have some: "last_cond cs col oper = Some x \<Longrightarrow> (col, oper, x) \<in> set cs" for cs x
    by (induction cs) (auto split: option.splits if_splits)
  show ?thesis using assms none [of cs] some by (cases "last_cond cs col oper") auto
qed

lemma cond_of_compile_onto:
  "cond_of (compile_onto session cs f) col oper =
     (case last_cond (clause_conds session cs) col oper of Some x \<Rightarrow> Some x | None \<Rightarrow> cond_of f col oper)"
proof (induction session cs f rule: compile_onto.induct)
  case (2 session c cs f)
  show ?case
  proof (cases "clause_cond session c")
    case None
    with 2 [unfolded None option.case] show ?thesis by (simp add: clause_conds_def map_filter_simps)
  next
    case (Some t)
    obtain c' o' v where t: "t = (c', o', v)" by (cases t) auto
    with Some 2 show ?thesis
      by (auto simp: clause_conds_def map_filter_simps cond_of_merge split: option.splits)
  qed
qed (simp add: clause_conds_def map_filter_simps)

lemma cond_of_compileFilter: "cond_of (compileFilter session cs) = last_cond (clause_conds session cs)"
proof (intro ext)
  fix col oper
  show "cond_of (compileFilter session cs) col oper = last_cond (clause_conds session cs) col oper"
    unfolding compileFilter_def cond_of_compile_onto by (simp add: cond_of_def split: option.splits)
qed

lemma set_clause_conds:
  "t \<in> set (clause_conds session cs) \<longleftrightarrow> (\<exists>c \<in> set cs. clause_cond session c = Some t)"
  by (induction cs) (auto simp: clause_conds_def map_filter_simps split: option.splits)

lemma wf_compileFilter: "wf_filter (compileFilter session cs)"
  by (simp add: compileFilter_def wf_compile_onto)

lemma wf_filter_Cons:
  "wf_filter ((c, v) # f) \<longleftrightarrow> wf_filter f \<and> kv_get c f = None \<and> is_obj v \<and> distinct (map fst (obj_of v))"
  by (auto simp: wf_filter_def kv_get_None)

lemma cond_of_Cons: "cond_of ((c, v) # f) col oper = (if col = c then kv_get oper (obj_of v) else cond_of f col oper)"
  by (simp add: cond_of_def)

lemma cond_of_absent: "kv_get c f = None \<Longrightarrow> cond_of f c oper = None"
  by (simp add: cond_of_def)

lemma merge_frags_props:
  "wf_filter g \<Longrightarrow> wf_filter f \<Longrightarrow> wf_filter (merge_frags f g) \<and>
     cond_of (merge_frags f g) col oper =
       (case cond_of g col oper of Some x \<Rightarrow> Some x | None \<Rightarrow> cond_of f col oper)"
proof (induction f g rule: merge_frags.induct)
  case (2 f c cond rest)
  then have w: "wf_filter (merge_cond c (obj_of cond) f)" "wf_filter rest" "kv_get c rest = None"
    "distinct (map fst (obj_of cond))"
    by (auto simp: wf_merge_cond wf_filter_Cons)
  with 2 show ?case
    by (auto simp: cond_of_Cons cond_of_merge cond_of_absent split: option.splits)
qed (simp add: cond_of_def)

definition applicable :: "session_ctx \<Rightarrow> policy_row list \<Rightarrow> policy_row list" where
  "applicable session rows = filter (\<lambda>r. roleMatches session (p_roles r)) rows"

definition policy_conds :: "session_ctx \<Rightarrow> policy_row list \<Rightarrow> (string \<times> string \<times> jsval) list" where
  "policy_conds session rows = concat (map (\<lambda>r. clause_conds session (arr_of (p_filter r))) (applicable session rows))"

lemma foldl_apply_policy:
  assumes "wf_filter (r_filter acc)"
  shows "wf_filter (r_filter (foldl (apply_policy session) acc rows)) \<and>
    cond_of (r_filter (foldl (apply_policy session) acc rows)) col oper =
      (case last_cond (policy_conds session rows) col oper of Some x \<Rightarrow> Some x | None \<Rightarrow> cond_of (r_filter acc) col oper)"
  using assms
proof (induction rows arbitrary: acc)
  case Nil
  then show ?case by (simp add: policy_conds_def applicable_def)
next
  case (Cons r rows)
  let ?cs = "arr_of (p_filter r)"
  have m: "wf_filter (merge_frags (r_filter acc) (compileFilter session ?cs))"
    "cond_of (merge_frags (r_filter acc) (compileFilter session ?cs)) col oper =
       (case last_cond (clause_conds session ?cs) col oper of Some x \<Rightarrow> Some x | None \<Rightarrow> cond_of (r_filter acc) col oper)"
    using merge_frags_props [OF wf_compileFilter Cons.prems, of session ?cs] by (simp_all add: cond_of_compileFilter)
  show ?case
  proof (cases "roleMatches session (p_roles r)")
    case False
    then have "apply_policy session acc r = acc" "policy_conds session (r # rows) = policy_conds session rows"
      by (simp_all add: apply_policy_def policy_conds_def applicable_def)
    with Cons show ?thesis by simp
  next
    case True
    let ?acc = "apply_policy session acc r"
    have c: "policy_conds session (r # rows) = clause_conds session ?cs @ policy_conds session rows"
      using True by (simp add: policy_conds_def applicable_def)
    have a: "wf_filter (r_filter ?acc)"
      "cond_of (r_filter ?acc) col oper =
        (case last_cond (clause_conds session ?cs) col oper of Some x \<Rightarrow> Some x | None \<Rightarrow> cond_of (r_filter acc) col oper)"
      using True m Cons.prems
      by (auto simp: apply_policy_def Let_def clause_conds_def map_filter_simps split: option.splits)
    from Cons.IH [OF a(1)] show ?thesis
      by (auto simp: c last_cond_append a(2) split: option.splits)
  qed
qed

section \<open>Merging into the query's filter\<close>

lemma cond_of_merge_column:
  assumes "is_obj cond" "distinct (map fst (obj_of cond))" "kv_get oper (obj_of cond) = Some v"
  shows "cond_of (merge_column out c cond) c oper = Some v"
  using assms by (auto simp: merge_column_def cond_of_def Let_def kv_get_merge)

lemma merge_column_other: "col \<noteq> c \<Longrightarrow> kv_get col (merge_column out c cond) = kv_get col out"
  by (simp add: merge_column_def Let_def)

lemma mergeIntoFilter_other:
  "kv_get col pf = None \<Longrightarrow> kv_get col (mergeIntoFilter out pf) = kv_get col out"
  by (induction out pf rule: mergeIntoFilter.induct) (auto simp: merge_column_other split: if_splits)

lemma mergeIntoFilter_keeps:
  "wf_filter pf \<Longrightarrow> cond_of pf col oper = Some v \<Longrightarrow> cond_of (mergeIntoFilter out pf) col oper = Some v"
proof (induction out pf rule: mergeIntoFilter.induct)
  case (2 out c cond rest)
  show ?case
  proof (cases "col = c")
    case True
    with 2 have "cond_of (merge_column out c cond) c oper = Some v" "kv_get c rest = None"
      by (auto simp: wf_filter_Cons cond_of_Cons intro: cond_of_merge_column)
    with True show ?thesis by (simp add: cond_of_def mergeIntoFilter_other)
  next
    case False
    with 2 show ?thesis by (simp add: wf_filter_Cons cond_of_Cons)
  qed
qed (simp add: cond_of_def)

section \<open>Properties\<close>

text \<open>
  Whatever filter the query brings, the filter sent to the source carries the condition of
  every clause of every policy that applies to the session's role, as long as the applicable
  clauses on the same column and operator agree on the value.
\<close>

theorem row_policies_enforced:
  assumes "r \<in> set rows" "p_tenant r = t" "p_schema r = sch" "p_table r = tb" "roleMatches session (p_roles r)"
    and "c \<in> set (arr_of (p_filter r))" "clause_cond session c = Some (col, oper, v)"
    and "\<And>r' c' v'. r' \<in> set rows \<Longrightarrow> p_tenant r' = t \<Longrightarrow> p_schema r' = sch \<Longrightarrow> p_table r' = tb \<Longrightarrow>
           roleMatches session (p_roles r') \<Longrightarrow> c' \<in> set (arr_of (p_filter r')) \<Longrightarrow>
           clause_cond session c' = Some (col, oper, v') \<Longrightarrow> v' = v"
  shows "cond_of (mergeIntoFilter existing (r_filter (resolve rows t sch tb session))) col oper = Some v"
proof -
  let ?rows = "filter (\<lambda>r. p_tenant r = t \<and> p_schema r = sch \<and> p_table r = tb) rows"
  have in_conds: "(x, y, z) \<in> set (policy_conds session ?rows) \<longleftrightarrow>
      (\<exists>r' \<in> set ?rows. roleMatches session (p_roles r') \<and> (\<exists>c' \<in> set (arr_of (p_filter r')). clause_cond session c' = Some (x, y, z)))"
    for x y z
    by (simp add: policy_conds_def applicable_def set_clause_conds)
  have "last_cond (policy_conds session ?rows) col oper = Some v"
  proof (rule last_cond_mem)
    have "r \<in> set ?rows" using assms(1-4) by simp
    then show "(col, oper, v) \<in> set (policy_conds session ?rows)"
      unfolding in_conds using assms(5-7) by blast
  next
    fix x
    assume "(col, oper, x) \<in> set (policy_conds session ?rows)"
    then obtain r' c' where "r' \<in> set ?rows" "roleMatches session (p_roles r')" "c' \<in> set (arr_of (p_filter r'))"
      "clause_cond session c' = Some (col, oper, x)"
      unfolding in_conds by blast
    with assms(8) [of r' c' x] show "x = v" by simp
  qed
  then have "wf_filter (r_filter (resolve rows t sch tb session))"
    "cond_of (r_filter (resolve rows t sch tb session)) col oper = Some v"
    using foldl_apply_policy [of "\<lparr>r_filter = [], r_masks = [], r_applied = []\<rparr>" session ?rows col oper]
    by (simp_all add: resolve_def)
  then show ?thesis by (rule mergeIntoFilter_keeps)
qed

definition eu_session :: session_ctx where
  "eu_session = \<lparr>s_tenant = ''acme'', s_role = Some ''analyst'', s_region = Some ''EU'', s_username = None\<rparr>"

definition region_clause :: jsval where
  "region_clause = JObj [(''column'', JStr ''region''), (''operator'', JStr ''EQ''),
                         (''value'', JObj [(''session'', JStr ''region'')])]"

definition region_policy :: policy_row where
  "region_policy = \<lparr>p_id = ''1'', p_tenant = ''acme'', p_schema = ''s'', p_table = ''orders'', p_name = ''by_region'',
     p_roles = JArr [JStr ''ANALYST''], p_filter = JArr [region_clause], p_masking = JArr [],
     p_source = ''API'', p_updated = 0\<rparr>"

lemma row_policies_enforced_witness:
  "cond_of (mergeIntoFilter [(''region'', JStr ''US'')]
     (r_filter (resolve [region_policy] ''acme'' ''s'' ''orders'' eu_session))) ''region'' ''$eq'' = Some (JStr ''EU'')"
proof -
  have c: "clause_cond eu_session region_clause = Some (''region'', ''$eq'', JStr ''EU'')" by code_simp
  have r: "roleMatches eu_session (p_roles region_policy)" by code_simp
  show ?thesis
    by (rule row_policies_enforced [OF _ _ _ _ r _ c]) (auto simp: region_policy_def c)
qed

text \<open>
  Of several clauses with the same column and operator only the last one reaches the
  filter, in one policy and across policies, so \<open>amount <> 5\<close> and \<open>amount <> 6\<close> together
  filter only one of the two values although all conditions are meant to apply.
\<close>

definition neq_clause :: "rat \<Rightarrow> jsval" where
  "neq_clause n = JObj [(''column'', JStr ''amount''), (''operator'', JStr ''NEQ''), (''value'', JNum n)]"

theorem compileFilter_last_clause_wins:
  "cond_of (compileFilter session cs) col oper = last_cond (clause_conds session cs) col oper
   \<and> compileFilter session [neq_clause 5, neq_clause 6] = compileFilter session [neq_clause 6]
   \<and> compileFilter session [neq_clause 6] = [(''amount'', JObj [(''$ne'', JNum 6)])]"
proof -
  have cc: "clause_cond session (neq_clause n) = Some (''amount'', ''$ne'', JNum n)" for n
    unfolding clause_cond_def neq_clause_def
    by (simp add: js_get_def js_upper_def CANON_OP_def resolveValue_def upper_chr_def is_lower_chr_def)
  show ?thesis
    by (simp add: cond_of_compileFilter) (simp add: compileFilter_def cc merge_cond_def)
qed

text \<open>
  Masking treats every column on its own: a column of the result is the original value with
  the strategies of the masks on that column applied in order, and no column appears or vanishes.
\<close>

lemma applyMasks_by_column:
  assumes "masks \<noteq> []" "i < length rows" "is_obj (rows ! i)"
  shows "kv_get col (obj_of (applyMasks masks rows ! i)) =
    map_option (\<lambda>v. foldl (\<lambda>v m. maskValue v (str_of (js_get ''strategy'' m))) v
        (filter (\<lambda>m. js_string (js_get ''column'' m) = col) masks))
      (kv_get col (obj_of (rows ! i)))"
proof -
  have step: "kv_get col (mask_column cp m) =
      (if js_string (js_get ''column'' m) = col then map_option (\<lambda>v. maskValue v (str_of (js_get ''strategy'' m))) (kv_get col cp)
       else kv_get col cp)" for cp m
    by (auto simp: mask_column_def Let_def split: option.splits)
  have "kv_get col (foldl mask_column cp masks) =
      map_option (\<lambda>v. foldl (\<lambda>v m. maskValue v (str_of (js_get ''strategy'' m))) v
        (filter (\<lambda>m. js_string (js_get ''column'' m) = col) masks)) (kv_get col cp)" for cp
    by (induction masks arbitrary: cp) (auto simp: step option.map_comp o_def option.map_ident)
  with assms show ?thesis by (auto simp: applyMasks_def spread_def is_obj_iff)
qed

lemma applyMasks_by_column_witness:
  "kv_get ''ssn'' (obj_of (applyMasks [JObj [(''column'', JStr ''ssn''), (''strategy'', JStr ''PARTIAL'')]]
      [JObj [(''ssn'', JStr ''123456789'')]] ! 0)) = Some (JStr ''*****6789'')"
proof -
  let ?m = "JObj [(''column'', JStr ''ssn''), (''strategy'', JStr ''PARTIAL'')]"
  let ?r = "JObj [(''ssn'', JStr ''123456789'')]"
  have "maskValue (JStr ''123456789'') ''PARTIAL'' = JStr ''*****6789''" by code_simp
  then show ?thesis
    using applyMasks_by_column [of "[?m]" 0 "[?r]" "''ssn''"] by (simp add: js_get_def)
qed

text \<open>
  The privilege check passes exactly when the table has no declared grants, the role is
  ADMIN or SYSTEM in any case, or some grant of that role, compared without case, lists the
  privilege.
\<close>

theorem enforce_decision:
  "enforce rows t s tb role privilege = Inr () \<longleftrightarrow>
     (let grants = (case List.find (\<lambda>r. g_tenant r = t \<and> g_schema r = s \<and> g_table r = tb) rows of
                      Some r \<Rightarrow> g_grants r | None \<Rightarrow> []);
          r = js_upper (case role of Some x \<Rightarrow> x | None \<Rightarrow> [])
      in grants = [] \<or> r \<in> {''ADMIN'', ''SYSTEM''} \<or> (\<exists>g \<in> set grants. holds_privilege r privilege g))"
  by (auto simp: enforce_def check_grant_def decide_def Let_def list_ex_iff split: option.splits)

end
