(* ===== verification/PushdownJoin.thy ===== *)
theory PushdownJoin
  imports Pushdown Policy
begin

text \<open>
  \<open>modules/query-engine/pushdown.ts\<close>, second part: a whole query tree compiled into one SQL
  statement or one MongoDB pipeline, and the dispatch in \<open>query-engine.service.ts\<close> that decides
  when such a compiled query may run. The compiler pushes parameters as it goes; that is a
  state of the parameters so far, threaded in the order of evaluation, with the errors it throws.
\<close>

section \<open>Parameters as state\<close>

type_synonym 'a pm = "jsval list \<Rightarrow> ('a \<times> jsval list) res"

definition retP :: "'a \<Rightarrow> 'a pm" where
  "retP x ps = Inr (x, ps)"

definition failP :: "'a pm" where
  "failP ps = Inl (Err 0 ''PUSHDOWN'')"

definition bindP :: "'a pm \<Rightarrow> ('a \<Rightarrow> 'b pm) \<Rightarrow> 'b pm" where
  "bindP m f ps = bindR (m ps) (\<lambda>(x, ps'). f x ps')"

fun mapP :: "('a \<Rightarrow> 'b pm) \<Rightarrow> 'a list \<Rightarrow> 'b list pm" where
  "mapP f [] = retP []"
| "mapP f (x # xs) = bindP (f x) (\<lambda>y. bindP (mapP f xs) (\<lambda>ys. retP (y # ys)))"

definition pushP :: "dialect \<Rightarrow> jsval \<Rightarrow> string pm" where
  "pushP d v ps = Inr (marker d (length ps + 1), ps @ [v])"

definition guardP :: "bool \<Rightarrow> 'a pm \<Rightarrow> 'a pm" where
  "guardP b m = (if b then m else failP)"

section \<open>The SQL compiler of a query tree\<close>

definition AST_OPS :: "(string \<times> string) list" where
  "AST_OPS = [(''EQ'', ''=''), (''NE'', ''!=''), (''GT'', ''>''), (''LT'', ''<''), (''GTE'', ''>=''), (''LTE'', ''<=''),
     (''LIKE'', ''LIKE''), (''ILIKE'', ''ILIKE''), (''IN'', ''IN''), (''NIN'', ''NOT IN''),
     (''IS_NULL'', ''IS NULL''), (''IS_NOT_NULL'', ''IS NOT NULL'')]"

definition AGG_WHITELIST :: "string list" where
  "AGG_WHITELIST = [''COUNT'', ''SUM'', ''MIN'', ''MAX'', ''AVG'', ''COUNT_DISTINCT'']"

definition quoteColumnPath :: "dialect \<Rightarrow> string \<Rightarrow> string" where
  "quoteColumnPath d path =
     (if path = [] \<or> path = ''*'' then ''*''
      else if ends_with path ''.*'' then quoteColumn d (take (length path - 2) path) @ ''.*''
      else quoteColumn d path)"

definition bare_ident :: "string \<Rightarrow> bool" where
  "bare_ident s \<longleftrightarrow> s \<noteq> [] \<and> is_ident_start (hd s) \<and> list_all is_word_chr (tl s)"

text \<open>\<open>/^(\*|[A-Za-z_]\w*(\.[A-Za-z_]\w*)*(\.\*)?)$/\<close>.\<close>

definition assertIdentPath :: "string \<Rightarrow> bool" where
  "assertIdentPath p =
     (let parts = split_chr CHR ''.'' p in
      p = ''*'' \<or> list_all bare_ident parts
      \<or> (length parts > 1 \<and> last parts = ''*'' \<and> list_all bare_ident (butlast parts)))"

definition or_val :: "jsval \<Rightarrow> jsval \<Rightarrow> jsval" where
  "or_val a b = (if truthy a then a else b)"

definition colP :: "dialect \<Rightarrow> jsval \<Rightarrow> string pm" where
  "colP d v = guardP (assertIdentPath (js_string v)) (retP (quoteColumnPath d (js_string v)))"

definition qid :: "dialect \<Rightarrow> jsval \<Rightarrow> string" where
  "qid d v = quote_ident d (js_string v)"

text \<open>The common table expression names declared anywhere in the tree.\<close>

fun collectCtes :: "nat \<Rightarrow> jsval \<Rightarrow> string list" where
  "collectCtes 0 n = []"
| "collectCtes (Suc k) n =
     concat (map (\<lambda>c. (if truthy (js_get ''name'' c) then [js_string (js_get ''name'' c)] else [])
                       @ collectCtes k (js_get ''base'' c)
                       @ (if truthy (js_get ''unionAll'' c) then collectCtes k (js_get ''unionAll'' c) else []))
                 (arr_of (js_get ''with'' n)))
     @ concat (map (\<lambda>key. concat (map (collectCtes k) (arr_of (js_get key n)))) [''union'', ''intersect'', ''except''])"

text \<open>What the compiler needs besides the tree: the dialect, the CTE names and the leg resolver.\<close>

record join_env =
  e_dialect :: dialect
  e_ctes :: "string list"
  e_resolve :: "jsval \<Rightarrow> string \<Rightarrow> string option \<times> string"

definition with_alias :: "join_env \<Rightarrow> jsval \<Rightarrow> string \<Rightarrow> string" where
  "with_alias e r base =
     (if truthy (js_get ''alias'' r) then base @ '' '' @ qid (e_dialect e) (js_get ''alias'' r) else base)"

definition tableRef :: "join_env \<Rightarrow> (jsval \<Rightarrow> string pm) \<Rightarrow> jsval \<Rightarrow> string pm" where
  "tableRef e compile r =
     (if \<not> truthy r then failP
      else if truthy (js_get ''query'' r) then
        guardP (truthy (js_get ''alias'' r))
          (bindP (compile (js_get ''query'' r)) (\<lambda>q.
             retP (''('' @ q @ '') '' @ qid (e_dialect e) (js_get ''alias'' r))))
      else if \<not> truthy (js_get ''resource'' r) then failP
      else
        let res = js_string (js_get ''resource'' r) in
        if res \<in> set (e_ctes e) then retP (with_alias e r (quote_ident (e_dialect e) res))
        else (case e_resolve e (js_get ''source'' r) res of
            (schema, table) \<Rightarrow> retP (with_alias e r (table_sql (e_dialect e) schema table))))"

definition cte_part :: "join_env \<Rightarrow> (jsval \<Rightarrow> string pm) \<Rightarrow> jsval \<Rightarrow> string pm" where
  "cte_part e compile c =
     (if truthy (js_get ''unionAll'' c) then failP
      else
        let cs = arr_of (js_get ''columns'' c);
            cols = (if cs = [] then [] else ''('' @ js_join '', '' (map (qid (e_dialect e)) cs) @ '')'')
        in bindP (compile (js_get ''base'' c)) (\<lambda>b.
             retP (qid (e_dialect e) (js_get ''name'' c) @ cols @ '' AS ('' @ b @ '')'')))"

definition withPrefix :: "join_env \<Rightarrow> (jsval \<Rightarrow> string pm) \<Rightarrow> jsval \<Rightarrow> string pm" where
  "withPrefix e compile node =
     (let ctes = arr_of (js_get ''with'' node) in
      if ctes = [] then retP []
      else bindP (mapP (cte_part e compile) ctes)
        (\<lambda>parts. retP (''WITH '' @ js_join '', '' parts @ '' '')))"

definition selectSql :: "dialect \<Rightarrow> jsval \<Rightarrow> string pm" where
  "selectSql d c =
     (if is_str c then colP d c
      else if \<not> is_obj c then failP
      else if truthy (js_get ''aggregate'' c) then
        (let fn = js_upper (js_string (js_get ''aggregate'' c)); column = js_get ''column'' c in
         guardP (fn \<in> set AGG_WHITELIST)
           (bindP (if \<not> truthy column \<or> column = JStr ''*'' then retP ''*'' else colP d column) (\<lambda>inner.
              let expr = (if fn = ''COUNT_DISTINCT'' then ''COUNT(DISTINCT '' @ inner @ '')''
                          else fn @ ''('' @ inner @ '')'')
              in retP (if truthy (js_get ''alias'' c) then expr @ '' AS '' @ qid d (js_get ''alias'' c) else expr))))
      else if truthy (js_get ''column'' c) then
        bindP (colP d (js_get ''column'' c)) (\<lambda>t.
          retP (t @ (if truthy (js_get ''alias'' c) then '' AS '' @ qid d (js_get ''alias'' c) else [])))
      else failP)"

definition predSql :: "dialect \<Rightarrow> jsval \<Rightarrow> string pm" where
  "predSql d w =
     (if \<not> (is_obj w \<or> is_arr w) \<or> truthy (js_get ''expression'' w) \<or> truthy (js_get ''search'' w) then failP
      else
        let token = js_upper (js_string (or_val (js_get ''operator'' w) (JStr ''EQ''))); v = js_get ''value'' w in
        (case map_of AST_OPS token of
           None \<Rightarrow> failP
         | Some sqlOp \<Rightarrow>
             bindP (colP d (js_get ''column'' w)) (\<lambda>c.
               if token = ''IS_NULL'' \<or> token = ''IS_NOT_NULL'' then retP (c @ '' '' @ sqlOp)
               else if token = ''IN'' \<or> token = ''NIN'' then
                 (let arr = (if is_arr v then arr_of v else [v]) in
                  if arr = [] then retP (if token = ''IN'' then ''1 = 0'' else ''1 = 1'')
                  else bindP (mapP (pushP d) arr) (\<lambda>ms. retP (c @ '' '' @ sqlOp @ '' ('' @ js_join '', '' ms @ '')'')))
               else if v = JNull \<and> (token = ''EQ'' \<or> token = ''NE'') then
                 retP (c @ '' IS '' @ (if token = ''NE'' then ''NOT '' else []) @ ''NULL'')
               else if token = ''ILIKE'' \<and> d \<noteq> Postgres then
                 bindP (pushP d v) (\<lambda>m. retP (''LOWER('' @ c @ '') LIKE LOWER('' @ m @ '')''))
               else bindP (pushP d v) (\<lambda>m. retP (c @ '' '' @ sqlOp @ '' '' @ m)))))"

definition num_field :: "string \<Rightarrow> jsval \<Rightarrow> rat option" where
  "num_field k node = (case js_get k node of JNum q \<Rightarrow> Some q | _ \<Rightarrow> None)"

definition limitOffset :: "dialect \<Rightarrow> jsval \<Rightarrow> string" where
  "limitOffset d node =
     (let off = js_get ''offset'' node;
          nxt = (truthy off \<and> (case js_number off of Some q \<Rightarrow> q > 0 | None \<Rightarrow> False));
          offset_text = (case num_field ''offset'' node of Some q \<Rightarrow> if q > 0 then show_int \<lfloor>q\<rfloor> else [] | None \<Rightarrow> []);
          limit_text = (case num_field ''limit'' node of Some q \<Rightarrow> if q \<ge> 0 then show_int \<lfloor>q\<rfloor> else [] | None \<Rightarrow> [])
      in if d = Oracle then
           (if offset_text = [] then [] else '' OFFSET '' @ offset_text @ '' ROWS'')
           @ (if limit_text = [] then []
              else '' FETCH '' @ (if nxt then ''NEXT'' else ''FIRST'') @ '' '' @ limit_text @ '' ROWS ONLY'')
         else (if limit_text = [] then [] else '' LIMIT '' @ limit_text)
              @ (if offset_text = [] then [] else '' OFFSET '' @ offset_text))"

definition order_item :: "dialect \<Rightarrow> jsval \<Rightarrow> string pm" where
  "order_item d ob =
     bindP (colP d (or_val (js_get ''column'' ob) (js_get ''field'' ob))) (\<lambda>c.
       retP (c @ '' '' @ (if or_val (js_get ''direction'' ob) (js_get ''dir'' ob) = JStr ''DESC''
                          then ''DESC'' else ''ASC'')))"

definition clause_list :: "string \<Rightarrow> string \<Rightarrow> (jsval \<Rightarrow> string pm) \<Rightarrow> jsval list \<Rightarrow> string pm" where
  "clause_list kw sep f xs =
     (if xs = [] then retP [] else bindP (mapP f xs) (\<lambda>ts. retP (kw @ js_join sep ts)))"

definition join_sql :: "join_env \<Rightarrow> (jsval \<Rightarrow> string pm) \<Rightarrow> jsval \<Rightarrow> string pm" where
  "join_sql e compile j =
     (let jt = js_upper (js_string (or_val (js_get ''type'' j) (JStr ''INNER'')));
          on = js_get ''on'' j in
      guardP (jt \<in> set [''INNER'', ''LEFT'', ''RIGHT'', ''FULL''] \<and> truthy on
              \<and> truthy (js_get ''left'' on) \<and> truthy (js_get ''right'' on))
        (case map_of AST_OPS (js_upper (js_string (or_val (js_get ''operator'' on) (JStr ''EQ'')))) of
           None \<Rightarrow> failP
         | Some onOp \<Rightarrow>
             bindP (tableRef e compile j) (\<lambda>t.
             bindP (colP (e_dialect e) (js_get ''left'' on)) (\<lambda>l.
             bindP (colP (e_dialect e) (js_get ''right'' on)) (\<lambda>r.
               retP ('' '' @ jt @ (if jt = ''FULL'' then '' OUTER'' else []) @ '' JOIN '' @ t @ '' ON ''
                     @ l @ '' '' @ onOp @ '' '' @ r))))))"

definition set_op_sql :: "join_env \<Rightarrow> (jsval \<Rightarrow> string pm) \<Rightarrow> string \<Rightarrow> string \<Rightarrow> jsval \<Rightarrow> string \<Rightarrow> string pm" where
  "set_op_sql e compile key oper node pre =
     (let legs = arr_of (js_get key node) in
      guardP (2 \<le> length legs)
        (bindP (mapP (\<lambda>leg. bindP (compile leg) (\<lambda>t. retP (''('' @ t @ '')''))) legs) (\<lambda>bodies.
         bindP (clause_list '' ORDER BY '' '', '' (order_item (e_dialect e)) (arr_of (js_get ''orderBy'' node))) (\<lambda>ob.
           retP (pre @ js_join ('' '' @ oper @ '' '') bodies @ ob @ limitOffset (e_dialect e) node)))))"

definition select_sql :: "join_env \<Rightarrow> (jsval \<Rightarrow> string pm) \<Rightarrow> jsval \<Rightarrow> string \<Rightarrow> string pm" where
  "select_sql e compile node pre =
     (let d = e_dialect e; sel = arr_of (js_get ''select'' node) in
      bindP (if sel = [] then retP ''*'' else bindP (mapP (selectSql d) sel) (\<lambda>ts. retP (js_join '', '' ts))) (\<lambda>cols.
      bindP (tableRef e compile (js_get ''from'' node)) (\<lambda>tbl.
      bindP (mapP (join_sql e compile) (arr_of (js_get ''joins'' node))) (\<lambda>joins.
      bindP (clause_list '' WHERE '' '' AND '' (predSql d) (arr_of (js_get ''where'' node))) (\<lambda>wh.
      bindP (clause_list '' GROUP BY '' '', '' (\<lambda>g. colP d (JStr (js_string g))) (arr_of (js_get ''groupBy'' node))) (\<lambda>gb.
      bindP (clause_list '' HAVING '' '' AND '' (predSql d) (arr_of (js_get ''having'' node))) (\<lambda>hv.
      bindP (clause_list '' ORDER BY '' '', '' (order_item d) (arr_of (js_get ''orderBy'' node))) (\<lambda>ob.
        retP (pre @ ''SELECT '' @ (if truthy (js_get ''distinct'' node) then ''DISTINCT '' else []) @ cols
              @ '' FROM '' @ tbl @ concat joins @ wh @ gb @ hv @ ob @ limitOffset d node)))))))))"

definition compile_node :: "join_env \<Rightarrow> (jsval \<Rightarrow> string pm) \<Rightarrow> jsval \<Rightarrow> string pm" where
  "compile_node e compile node =
     (if \<not> (is_obj node \<or> is_arr node) then failP
      else bindP (withPrefix e compile node) (\<lambda>pre.
        if is_arr (js_get ''union'' node) then set_op_sql e compile ''union'' ''UNION'' node pre
        else if is_arr (js_get ''intersect'' node) then set_op_sql e compile ''intersect'' ''INTERSECT'' node pre
        else if is_arr (js_get ''except'' node) then set_op_sql e compile ''except'' ''EXCEPT'' node pre
        else if \<not> truthy (js_get ''from'' node) then failP
        else select_sql e compile node pre))"

text \<open>
  The recursion follows the tree. The fuel is the number of levels left; \<open>toJoinSql\<close> starts it
  at the size of the tree, which \<open>compileN_fuel\<close> below shows to be enough.
\<close>

primrec compileN :: "nat \<Rightarrow> join_env \<Rightarrow> jsval \<Rightarrow> string pm" where
  "compileN 0 e node = failP"
| "compileN (Suc n) e node = compile_node e (compileN n e) node"

definition toJoinSql :: "dialect \<Rightarrow> (jsval \<Rightarrow> string \<Rightarrow> string option \<times> string) \<Rightarrow> jsval \<Rightarrow> compiled_sql res" where
  "toJoinSql d resolver ast =
     compileN (Suc (size ast)) \<lparr>e_dialect = d, e_ctes = collectCtes (Suc (size ast)) ast, e_resolve = resolver\<rparr> ast []"

section \<open>The fuel is enough\<close>

lemma size_arr_mem: "x \<in> set (arr_of v) \<Longrightarrow> size x < size v"
  by (cases v) (auto dest: size_list_estimation' [of _ _ "size x" size])

lemma size_js_get: "is_obj v \<or> is_arr v \<Longrightarrow> size (js_get k v) < size v"
proof (cases v)
  case (JObj kvs)
  show ?thesis
  proof (cases "kv_get k kvs")
    case None
    then show ?thesis by (simp add: JObj js_get_def)
  next
    case (Some x)
    then have m: "(k, x) \<in> set kvs" by (rule kv_get_in)
    with Some show ?thesis
      using size_list_estimation [OF m, of "size x" "size_prod (\<lambda>_. 0) size"] by (simp add: JObj js_get_def)
  qed
qed (auto simp: js_get_def)

lemma mapP_cong: "(\<And>x. x \<in> set xs \<Longrightarrow> f x = g x) \<Longrightarrow> mapP f xs = mapP g xs"
  by (induction xs) auto

lemma truthy_get: "truthy (js_get k v) \<Longrightarrow> is_obj v"
  by (cases v) (auto simp: js_get_def)

lemma size_get_truthy: "truthy (js_get k v) \<Longrightarrow> size (js_get k v) < size v"
  by (rule size_js_get) (simp add: truthy_get)

lemma size_get_le: "size (js_get k v) \<le> size v"
proof (cases "is_obj v \<or> is_arr v")
  case True
  then show ?thesis using size_js_get [of v k] by simp
next
  case False
  then have "js_get k v = JUndef" by (cases v) (auto simp: js_get_def)
  then show ?thesis by simp
qed

lemma size_elem: "x \<in> set (arr_of (js_get k v)) \<Longrightarrow> size x < size v"
  using size_arr_mem [of x "js_get k v"] size_get_le [of k v] by simp

lemma tableRef_cong:
  assumes "\<And>x. size x < N \<Longrightarrow> f x = g x" "size r \<le> N"
  shows "tableRef e f r = tableRef e g r"
proof (cases "truthy (js_get ''query'' r)")
  case True
  then have "f (js_get ''query'' r) = g (js_get ''query'' r)"
    using assms size_get_truthy [OF True] by simp
  then show ?thesis by (simp add: tableRef_def)
qed (simp add: tableRef_def)

lemma withPrefix_cong:
  assumes "\<And>x. size x < N \<Longrightarrow> f x = g x" "size node \<le> N"
  shows "withPrefix e f node = withPrefix e g node"
proof -
  have "f (js_get ''base'' c) = g (js_get ''base'' c)" if "c \<in> set (arr_of (js_get ''with'' node))" for c
    using assms size_elem [OF that] size_get_le [of "''base''" c] by simp
  then have "mapP (cte_part e f) (arr_of (js_get ''with'' node)) = mapP (cte_part e g) (arr_of (js_get ''with'' node))"
    by (intro mapP_cong) (simp add: cte_part_def)
  then show ?thesis by (simp add: withPrefix_def Let_def)
qed

lemma join_sql_cong:
  assumes "\<And>x. size x < N \<Longrightarrow> f x = g x" "size j \<le> N"
  shows "join_sql e f j = join_sql e g j"
proof -
  have t: "tableRef e f j = tableRef e g j" by (rule tableRef_cong [OF assms])
  show ?thesis unfolding join_sql_def t ..
qed

lemma compile_node_cong:
  assumes "\<And>x. size x < size node \<Longrightarrow> f x = g x"
  shows "compile_node e f node = compile_node e g node"
proof (cases "is_obj node \<or> is_arr node")
  case True
  have legs: "mapP (\<lambda>leg. bindP (f leg) h) (arr_of (js_get k node)) = mapP (\<lambda>leg. bindP (g leg) h) (arr_of (js_get k node))"
    for k and h :: "string \<Rightarrow> string pm"
    by (rule mapP_cong) (use assms size_elem in simp)
  have ops: "set_op_sql e f k oper node pre = set_op_sql e g k oper node pre" for k oper pre
    by (simp add: set_op_sql_def legs)
  have "tableRef e f (js_get ''from'' node) = tableRef e g (js_get ''from'' node)"
    by (rule tableRef_cong [OF assms size_get_le])
  moreover have "mapP (join_sql e f) (arr_of (js_get ''joins'' node)) = mapP (join_sql e g) (arr_of (js_get ''joins'' node))"
    by (rule mapP_cong, rule join_sql_cong [OF assms]) (use size_elem in \<open>fastforce simp: less_imp_le\<close>)+
  ultimately have sel: "select_sql e f node pre = select_sql e g node pre" for pre
    by (simp add: select_sql_def)
  have pre: "withPrefix e f node = withPrefix e g node"
    by (rule withPrefix_cong [OF assms order_refl])
  show ?thesis unfolding compile_node_def pre ops sel ..
qed (simp add: compile_node_def)

lemma compileN_fuel: "size node < n \<Longrightarrow> size node < m \<Longrightarrow> compileN n e node = compileN m e node"
proof (induction n arbitrary: m node)
  case (Suc n)
  then obtain k where m: "m = Suc k" by (cases m) auto
  show ?case
    unfolding m compileN.simps
  proof (rule compile_node_cong)
    fix x :: jsval
    assume "size x < size node"
    with Suc.prems m have "size x < n" "size x < k" by simp_all
    then show "compileN n e x = compileN k e x" by (rule Suc.IH)
  qed
qed simp

section \<open>The MongoDB pipeline of a query tree\<close>

text \<open>A regular-expression object is written as the object of its source and its flags.\<close>

definition regexp :: "string \<Rightarrow> string \<Rightarrow> jsval" where
  "regexp src flags = JObj [(''source'', JStr src), (''flags'', JStr flags)]"

definition cte_map :: "jsval \<Rightarrow> (string \<times> jsval) list" where
  "cte_map ast = foldl (\<lambda>m c. if truthy c \<and> truthy (js_get ''name'' c) then kv_set (js_string (js_get ''name'' c)) c m else m)
     [] (arr_of (js_get ''with'' ast))"

text \<open>The resource a name stands for and the conditions its CTE adds.\<close>

definition expand_resource :: "(string \<times> jsval) list \<Rightarrow> jsval \<Rightarrow> jsval \<times> jsval list" where
  "expand_resource ctes r = (case kv_get (js_string r) ctes of
     None \<Rightarrow> (r, [])
   | Some cte \<Rightarrow>
       let inner = js_get ''resource'' (js_get ''from'' (js_get ''base'' cte))
       in (if truthy inner then inner else r, arr_of (js_get ''where'' (js_get ''base'' cte))))"

definition resolveField :: "string \<Rightarrow> string \<Rightarrow> string \<times> string" where
  "resolveField fromName raw =
     (let parts = split_chr CHR ''.'' raw in
      if length parts > 1 then
        (let col = js_join ''.'' (tl parts) in
         if hd parts = fromName then (col, CHR ''$'' # col) else (col, CHR ''$'' # hd parts @ ''.'' @ col))
      else (raw, CHR ''$'' # raw))"

definition mongo_join_stages :: "string \<Rightarrow> jsval \<Rightarrow> jsval \<Rightarrow> jsval list" where
  "mongo_join_stages fromName right j =
     (let alias = or_val (js_get ''alias'' j) right;
          on = or_val (js_get ''on'' j) (JObj []);
          l = js_get ''left'' on; r = js_get ''right'' on;
          ls = js_string (or_val l (JStr [])); rs = js_string (or_val r (JStr []));
          leftCol = (if starts_with ls (fromName @ ''.'') then JStr (drop (length fromName + 1) (js_string l)) else l);
          rightCol = (if CHR ''.'' \<in> set rs then JStr (js_join ''.'' (tl (split_chr CHR ''.'' (js_string r)))) else r)
      in [obj1 ''$lookup'' (JObj [(''from'', right), (''localField'', leftCol), (''foreignField'', rightCol), (''as'', alias)]),
          obj1 ''$unwind'' (JObj [(''path'', dollar (js_string alias)),
            (''preserveNullAndEmptyArrays'', JBool (js_get ''type'' j = JStr ''LEFT''))])])"

fun mongo_joins :: "(string \<times> jsval) list \<Rightarrow> string \<Rightarrow> jsval list \<Rightarrow> jsval list \<times> jsval list" where
  "mongo_joins ctes fromName [] = ([], [])"
| "mongo_joins ctes fromName (j # js) =
     (case expand_resource ctes (js_get ''resource'' j) of (right, extra) \<Rightarrow>
        (case mongo_joins ctes fromName js of (stages, extras) \<Rightarrow>
           (mongo_join_stages fromName right j @ stages, extra @ extras)))"

text \<open>\<open>s.split(/\s+/)\<close>.\<close>

fun split_ws :: "bool \<Rightarrow> string \<Rightarrow> string \<Rightarrow> string list" where
  "split_ws gap w [] = [w]"
| "split_ws gap w (c # s) =
     (if is_space c then (if gap then split_ws True w s else w # split_ws True [] s)
      else split_ws False (w @ [c]) s)"

definition search_regex :: "string \<Rightarrow> string" where
  "search_regex query =
     concat (map (\<lambda>w. ''(?=.*'' @ escape_regex w @ '')'') (split_ws False [] (js_trim query))) @ ''.*''"

definition MONGO_CMP :: "(string \<times> string) list" where
  "MONGO_CMP = [(''EQ'', ''$eq''), (''NE'', ''$ne''), (''GT'', ''$gt''), (''GTE'', ''$gte''), (''LT'', ''$lt''),
     (''LTE'', ''$lte'')]"

definition clean_column :: "string \<Rightarrow> string \<Rightarrow> string" where
  "clean_column fromName path =
     (let parts = split_chr CHR ''.'' path in
      if length parts > 1 \<and> hd parts = fromName then js_join ''.'' (tl parts) else path)"

definition match_entry :: "string \<Rightarrow> (string \<times> jsval) list \<Rightarrow> jsval \<Rightarrow> (string \<times> jsval) list" where
  "match_entry fromName m w =
     (if \<not> truthy w then m
      else if truthy (js_get ''search'' w) then
        (let q = js_string (or_val (js_get ''query'' (js_get ''search'' w)) (JStr [])) in
         kv_set (js_string (js_get ''column'' (js_get ''search'' w)))
                (obj1 ''$regex'' (regexp (search_regex q) ''i'')) m)
      else if \<not> truthy (js_get ''column'' w) then m
      else
        let col = clean_column fromName (js_string (js_get ''column'' w));
            rawOp = js_upper (js_string (or_val (js_get ''operator'' w) (JStr ''EQ'')))
        in (case map_of (MONGO_CMP @ [(''IN'', ''$in'')]) rawOp of
              Some oper \<Rightarrow> kv_set col (obj1 oper (js_get ''value'' w)) m
            | None \<Rightarrow>
                if rawOp = ''IS_NULL'' then kv_set col (obj1 ''$eq'' JNull) m
                else if rawOp = ''IS_NOT_NULL'' then kv_set col (obj1 ''$ne'' JNull) m
                else m))"

definition having_match :: "(string \<times> jsval) list \<Rightarrow> jsval \<Rightarrow> (string \<times> jsval) list" where
  "having_match m h =
     (if \<not> truthy h \<or> \<not> truthy (js_get ''column'' h) then m
      else (case map_of MONGO_CMP (js_upper (js_string (or_val (js_get ''operator'' h) (JStr ''EQ'')))) of
          Some oper \<Rightarrow> kv_set (js_string (js_get ''column'' h)) (obj1 oper (num_or_nan (js_number (js_get ''value'' h)))) m
        | None \<Rightarrow> m))"

definition match_stage :: "(string \<times> jsval) list \<Rightarrow> jsval list" where
  "match_stage m = (if m = [] then [] else [obj1 ''$match'' (JObj m)])"

definition is_aggregate :: "jsval \<Rightarrow> bool" where
  "is_aggregate s \<longleftrightarrow> is_obj s \<and> truthy (js_get ''aggregate'' s)"

definition join_group_agg :: "string \<Rightarrow> group_state \<Rightarrow> jsval \<Rightarrow> group_state" where
  "join_group_agg fromName st s = (if \<not> is_aggregate s then st else (case st of (g, distinctA, varA) \<Rightarrow>
     (let alias = js_string (or_val (or_val (js_get ''alias'' s) (js_get ''column'' s)) (JStr ''agg''));
          agg = js_upper (js_string (js_get ''aggregate'' s));
          src = (if truthy (js_get ''column'' s) then JStr (snd (resolveField fromName (js_string (js_get ''column'' s))))
                 else jint 1);
          num = obj1 ''$toDouble'' src
      in if agg = ''COUNT'' then (kv_set alias (obj1 ''$sum'' (jint 1)) g, distinctA, varA)
         else if agg = ''SUM'' then (kv_set alias (obj1 ''$sum'' num) g, distinctA, varA)
         else if agg = ''AVG'' then (kv_set alias (obj1 ''$avg'' num) g, distinctA, varA)
         else if agg = ''MAX'' then (kv_set alias (obj1 ''$max'' num) g, distinctA, varA)
         else if agg = ''MIN'' then (kv_set alias (obj1 ''$min'' num) g, distinctA, varA)
         else if agg = ''COUNT_DISTINCT''
           then (kv_set (''__'' @ alias @ ''_set'') (obj1 ''$addToSet'' src) g, distinctA @ [alias], varA)
         else if agg = ''STDDEV'' then (kv_set alias (obj1 ''$stdDevSamp'' num) g, distinctA, varA)
         else if agg = ''VARIANCE'' then (kv_set (stddev_key alias) (obj1 ''$stdDevSamp'' num) g, distinctA, varA @ [alias])
         else if agg = ''ARRAY_AGG'' then (kv_set alias (obj1 ''$push'' src) g, distinctA, varA)
         else (g, distinctA, varA))))"

text \<open>The \<open>$group\<close> stage with its \<open>_id\<close>, the clean-up projection and the having match.\<close>

definition group_stages :: "string \<Rightarrow> jsval \<Rightarrow> jsval list" where
  "group_stages fromName ast =
     (let gbs = map js_string (arr_of (js_get ''groupBy'' ast));
          gid = (if gbs = [] then JNull
                 else JObj (foldl (\<lambda>m g. case resolveField fromName g of (k, p) \<Rightarrow> kv_set k (JStr p) m) [] gbs));
          g0 = foldl (\<lambda>m g. case resolveField fromName g of (k, p) \<Rightarrow> kv_set k (obj1 ''$first'' (JStr p)) m) [(''_id'', gid)] gbs
      in case foldl (join_group_agg fromName) (g0, [], []) (arr_of (js_get ''select'' ast)) of (g, distinctA, varA) \<Rightarrow>
        (let p0 = foldl (\<lambda>m (k, _). if k = ''_id'' \<or> starts_with k ''__'' then m else kv_set k (jint 1) m) [] g;
             p1 = foldl (\<lambda>m a. kv_set a (obj1 ''$size'' (dollar (''__'' @ a @ ''_set''))) m) p0 distinctA;
             p2 = foldl (\<lambda>m v. kv_set v (obj1 ''$pow'' (JArr [dollar (stddev_key v), jint 2])) m) p1 varA
         in [obj1 ''$group'' (JObj g)]
            @ (if distinctA = [] \<and> varA = [] then [] else [obj1 ''$project'' (JObj p2)])
            @ match_stage (foldl having_match [] (arr_of (js_get ''having'' ast)))))"

definition distinct_stages :: "jsval \<Rightarrow> jsval list" where
  "distinct_stages ast =
     (let cols = map (\<lambda>s. js_string (if is_str s then s else or_val (js_get ''alias'' s) (js_get ''column'' s)))
                   (arr_of (js_get ''select'' ast))
      in [obj1 ''$group'' (obj1 ''_id'' (JObj (foldl (\<lambda>m c. kv_set c (dollar c) m) [] cols))),
          obj1 ''$project'' (JObj (foldl (\<lambda>m c. kv_set c (dollar (''_id.'' @ c)) m) [(''_id'', jint 0)] cols))])"

definition project_item :: "bool \<Rightarrow> string \<Rightarrow> (string \<times> jsval) list \<Rightarrow> jsval \<Rightarrow> (string \<times> jsval) list" where
  "project_item grouped fromName m s =
     (let by_column = (\<lambda>raw. case resolveField fromName raw of (key, path) \<Rightarrow>
            (let src = JStr (if grouped then CHR ''$'' # key else path); m1 = kv_set key src m
             in if raw = key then m1 else kv_set raw src m1))
      in if is_str s then by_column (str_of s)
         else if \<not> is_obj s then m
         else if truthy (js_get ''alias'' s)
           then kv_set (js_string (js_get ''alias'' s)) (dollar (js_string (js_get ''alias'' s))) m
         else if truthy (js_get ''column'' s) then by_column (js_string (js_get ''column'' s))
         else m)"

definition join_sort_key :: "bool \<Rightarrow> string \<Rightarrow> string \<Rightarrow> string" where
  "join_sort_key grouped fromName c =
     (let parts = split_chr CHR ''.'' c in
      if grouped then (if length parts > 1 then js_join ''.'' (tl parts) else c) else clean_column fromName c)"

definition toMongoJoin :: "jsval \<Rightarrow> jsval list res" where
  "toMongoJoin ast =
     (let from = js_get ''from'' ast; res = js_get ''resource'' from in
      if \<not> truthy res then Inl (Err 0 ''PUSHDOWN'')
      else
        let ctes = cte_map ast;
            extra0 = snd (expand_resource ctes res);
            fromName = js_string (or_val (js_get ''alias'' from) res);
            sel = arr_of (js_get ''select'' ast);
            grouped = (arr_of (js_get ''groupBy'' ast) \<noteq> [] \<or> list_ex is_aggregate sel);
            distinct_val = js_get ''distinct'' ast
        in case mongo_joins ctes fromName (arr_of (js_get ''joins'' ast)) of (joins, extra1) \<Rightarrow>
          (let conds = extra0 @ extra1 @ arr_of (js_get ''where'' ast);
               obs = arr_of (js_get ''orderBy'' ast)
           in Inr (joins
             @ match_stage (foldl (match_entry fromName) [] conds)
             @ (if grouped then group_stages fromName ast else [])
             @ (if distinct_val = JBool True \<and> is_arr (js_get ''select'' ast) then distinct_stages ast else [])
             @ (if \<not> truthy distinct_val \<and> sel \<noteq> [] \<and> JStr ''*'' \<notin> set sel
                then [obj1 ''$project'' (JObj (foldl (project_item grouped fromName) [(''_id'', jint 0)] sel))] else [])
             @ (if obs = [] then []
                else [obj1 ''$sort'' (JObj (foldl (\<lambda>m ob. kv_set (join_sort_key grouped fromName (js_string (js_get ''column'' ob)))
                        (jint (if js_get ''direction'' ob = JStr ''DESC'' then -1 else 1)) m) [] obs))])
             @ (case num_field ''limit'' ast of
                  Some n \<Rightarrow> if n > 0 then [obj1 ''$limit'' (jint \<lfloor>n\<rfloor>)] else []
                | None \<Rightarrow> []))))"

section \<open>When a compiled tree may run\<close>

text \<open>
  The co-located branch of \<open>QueryEngineService.executeQuery\<close>: the request it sends to the one
  source, or the fall-back to the federation executor.
\<close>

record plan_leg =
  l_schema :: "string option"
  l_table :: "string option"
  l_resource :: string

datatype dispatch = RunMongo "jsval list" | RunSql string "jsval list" | Federate

definition leg_schema :: "string \<Rightarrow> plan_leg \<Rightarrow> string" where
  "leg_schema schemaName l = (case l_schema l of Some s \<Rightarrow> if s = [] then schemaName else s | None \<Rightarrow> schemaName)"

definition leg_table :: "plan_leg \<Rightarrow> string" where
  "leg_table l = (case l_table l of Some t \<Rightarrow> if t = [] then l_resource l else t | None \<Rightarrow> l_resource l)"

fun gate_legs :: "grant_row list \<Rightarrow> policy_row list \<Rightarrow> session_ctx \<Rightarrow> string \<Rightarrow> plan_leg list \<Rightarrow> bool" where
  "gate_legs grants policies session schemaName [] = True"
| "gate_legs grants policies session schemaName (l # ls) =
     (let s = leg_schema schemaName l; t = leg_table l; tenant = s_tenant session in
      case enforce grants tenant s t (s_role session) ''SELECT'' of
        Inl _ \<Rightarrow> False
      | Inr _ \<Rightarrow>
          (let pol = resolve policies tenant s t session in
           if r_filter pol \<noteq> [] \<or> r_masks pol \<noteq> [] then False
           else gate_legs grants policies session schemaName ls))"

definition colocated_dispatch ::
  "grant_row list \<Rightarrow> policy_row list \<Rightarrow> session_ctx \<Rightarrow> string \<Rightarrow> string \<Rightarrow> dialect \<Rightarrow> bool \<Rightarrow>
   (jsval \<Rightarrow> string \<Rightarrow> string option \<times> string) \<Rightarrow> plan_leg list \<Rightarrow> jsval \<Rightarrow> dispatch" where
  "colocated_dispatch grants policies session schemaName engine d has_raw resolver legs ast =
     (if engine = ''MONGODB'' then
        (case toMongoJoin ast of Inr p \<Rightarrow> RunMongo p | Inl _ \<Rightarrow> Federate)
      else if \<not> has_raw \<or> \<not> gate_legs grants policies session schemaName legs then Federate
      else (case toJoinSql d resolver ast of Inr (text, params) \<Rightarrow> RunSql text params | Inl _ \<Rightarrow> Federate))"

section \<open>Properties\<close>

lemma bindP_Inr: "bindP m f ps = Inr r \<longleftrightarrow> (\<exists>x ps'. m ps = Inr (x, ps') \<and> f x ps' = Inr r)"
  by (auto simp: bindP_def)

lemma guardP_Inr: "guardP b m ps = Inr r \<longleftrightarrow> b \<and> m ps = Inr r"
  by (simp add: guardP_def failP_def)

lemma failP_Inr [simp]: "failP ps \<noteq> Inr r"
  by (simp add: failP_def)

lemma mapP_each: "mapP f xs ps = Inr r \<Longrightarrow> x \<in> set xs \<Longrightarrow> \<exists>qs a b. f x qs = Inr (a, b)"
  by (induction xs arbitrary: ps r) (fastforce simp: bindP_Inr)+

lemma clause_list_each: "clause_list kw sep f xs ps = Inr r \<Longrightarrow> x \<in> set xs \<Longrightarrow> \<exists>qs a b. f x qs = Inr (a, b)"
  by (auto simp: clause_list_def bindP_Inr split: if_splits dest: mapP_each)

definition safe_pred :: "jsval \<Rightarrow> bool" where
  "safe_pred w \<longleftrightarrow> \<not> truthy (js_get ''expression'' w) \<and> \<not> truthy (js_get ''search'' w)
     \<and> map_of AST_OPS (js_upper (js_string (or_val (js_get ''operator'' w) (JStr ''EQ'')))) \<noteq> None
     \<and> assertIdentPath (js_string (js_get ''column'' w))"

lemma predSql_safe: "predSql d w ps = Inr r \<Longrightarrow> safe_pred w"
  unfolding predSql_def
  by (auto simp: safe_pred_def bindP_Inr guardP_Inr colP_def Let_def split: if_splits option.splits)

lemma colP_path: "colP d v ps = Inr r \<Longrightarrow> assertIdentPath (js_string v)"
  by (simp add: colP_def guardP_Inr)

lemma selectSql_safe:
  "selectSql d c ps = Inr r \<Longrightarrow>
     (is_str c \<and> assertIdentPath (js_string c))
     \<or> (is_obj c \<and> (truthy (js_get ''aggregate'' c) \<longrightarrow> js_upper (js_string (js_get ''aggregate'' c)) \<in> set AGG_WHITELIST)
        \<and> (truthy (js_get ''aggregate'' c) \<or> truthy (js_get ''column'' c)))"
  unfolding selectSql_def
  by (cases "is_str c") (auto simp: guardP_Inr Let_def dest: colP_path split: if_splits)

lemma select_sql_parts:
  assumes "select_sql e f node pre ps = Inr r"
  shows "(\<forall>c \<in> set (arr_of (js_get ''select'' node)). \<exists>qs a b. selectSql (e_dialect e) c qs = Inr (a, b))
    \<and> (\<forall>w \<in> set (arr_of (js_get ''where'' node)). \<exists>qs a b. predSql (e_dialect e) w qs = Inr (a, b))
    \<and> (\<forall>h \<in> set (arr_of (js_get ''having'' node)). \<exists>qs a b. predSql (e_dialect e) h qs = Inr (a, b))"
proof -
  from assms obtain ps0 cols ps1 tbl ps2 js ps3 wh ps4 gb ps5 hv ps6 where
    1: "(if arr_of (js_get ''select'' node) = [] then retP ''*''
         else bindP (mapP (selectSql (e_dialect e)) (arr_of (js_get ''select'' node))) (\<lambda>ts. retP (js_join '', '' ts))) ps
        = Inr (cols, ps0)"
    and 2: "clause_list '' WHERE '' '' AND '' (predSql (e_dialect e)) (arr_of (js_get ''where'' node)) ps2 = Inr (wh, ps3)"
    and 3: "clause_list '' HAVING '' '' AND '' (predSql (e_dialect e)) (arr_of (js_get ''having'' node)) ps4 = Inr (hv, ps5)"
    unfolding select_sql_def Let_def bindP_Inr by blast
  have "\<exists>qs a b. selectSql (e_dialect e) c qs = Inr (a, b)" if "c \<in> set (arr_of (js_get ''select'' node))" for c
    using 1 that by (auto simp: bindP_Inr split: if_splits dest: mapP_each)
  with clause_list_each [OF 2] clause_list_each [OF 3] show ?thesis by blast
qed

text \<open>
  A select node is compiled only when every select item is an identifier path, a plain
  column or a whitelisted aggregate, and every condition of its where and having clauses has a
  known operator on an identifier path and carries no raw expression and no search.
\<close>

lemma compiled_select_is_safe:
  assumes "compileN n e node ps = Inr r"
    and "\<not> is_arr (js_get ''union'' node)" "\<not> is_arr (js_get ''intersect'' node)" "\<not> is_arr (js_get ''except'' node)"
  shows "(\<forall>c \<in> set (arr_of (js_get ''select'' node)).
            (is_str c \<and> assertIdentPath (js_string c))
            \<or> (is_obj c
               \<and> (truthy (js_get ''aggregate'' c) \<longrightarrow> js_upper (js_string (js_get ''aggregate'' c)) \<in> set AGG_WHITELIST)
               \<and> (truthy (js_get ''aggregate'' c) \<or> truthy (js_get ''column'' c))))
    \<and> (\<forall>w \<in> set (arr_of (js_get ''where'' node)) \<union> set (arr_of (js_get ''having'' node)). safe_pred w)"
proof -
  obtain k where "n = Suc k" using assms(1) by (cases n) auto
  with assms obtain pre qs where "select_sql e (compileN k e) node pre qs = Inr r"
    by (auto simp: compile_node_def bindP_Inr split: if_splits)
  from select_sql_parts [OF this] show ?thesis
    by (blast dest: selectSql_safe predSql_safe)
qed

definition colocated_ast :: jsval where
  "colocated_ast = JObj [(''select'', JArr [JStr ''o.id'']), (''from'', JObj [(''resource'', JStr ''orders''), (''alias'', JStr ''o'')]),
     (''where'', JArr [JObj [(''column'', JStr ''o.total''), (''operator'', JStr ''GT''), (''value'', JNum 5)]])]"

definition plain_env :: join_env where
  "plain_env = \<lparr>e_dialect = Postgres, e_ctes = [], e_resolve = (\<lambda>_ r. (Some ''shop'', r))\<rparr>"

lemma compiled_select_is_safe_witness:
  "safe_pred (JObj [(''column'', JStr ''o.total''), (''operator'', JStr ''GT''), (''value'', JNum 5)])"
proof -
  have "isOk (compileN 3 plain_env colocated_ast [])" by code_simp
  then obtain r where "compileN 3 plain_env colocated_ast [] = Inr r" by (auto simp: isOk_iff)
  from compiled_select_is_safe [OF this] show ?thesis
    by (simp add: colocated_ast_def js_get_def)
qed

text \<open>
  The compilation of a query tree ends and does not depend on the fuel: any fuel above the
  size of the tree gives the result of \<open>toJoinSql\<close>.
\<close>

lemma toJoinSql_any_fuel:
  assumes "size ast < n"
  shows "compileN n \<lparr>e_dialect = d, e_ctes = collectCtes (Suc (size ast)) ast, e_resolve = resolver\<rparr> ast []
    = toJoinSql d resolver ast"
  unfolding toJoinSql_def using compileN_fuel [of ast n "Suc (size ast)"] assms by simp

lemma toJoinSql_any_fuel_witness:
  "compileN 100 \<lparr>e_dialect = Postgres, e_ctes = collectCtes (Suc (size (JObj []))) (JObj []), e_resolve = (\<lambda>_ r. (None, r))\<rparr> (JObj []) []
    = toJoinSql Postgres (\<lambda>_ r. (None, r)) (JObj [])"
  by (rule toJoinSql_any_fuel) simp

text \<open>
  The match stage of a MongoDB pipeline keeps one condition per column and drops the
  conditions whose operator it does not know, so a price between 1 and 5 with a name pattern is
  sent as a price of at most 5.
\<close>

definition range_where :: "jsval list" where
  "range_where =
     [JObj [(''column'', JStr ''price''), (''operator'', JStr ''GTE''), (''value'', JNum 1)],
      JObj [(''column'', JStr ''price''), (''operator'', JStr ''LTE''), (''value'', JNum 5)],
      JObj [(''column'', JStr ''name''), (''operator'', JStr ''LIKE''), (''value'', JStr ''a%'')]]"

theorem mongo_join_drops_conditions:
  "toMongoJoin (JObj [(''from'', JObj [(''resource'', JStr ''items'')]), (''where'', JArr range_where)])
   = Inr [obj1 ''$match'' (JObj [(''price'', JObj [(''$lte'', JNum 5)])])]"
  by code_simp

text \<open>
  C12: on a SQL source a compiled tree runs only when, for the table of every leg, the session's
  role holds SELECT and no row policy and no mask applies to the session.
\<close>

theorem colocated_sql_is_gated:
  assumes "colocated_dispatch grants policies session schemaName engine d has_raw resolver legs ast = RunSql text params"
    and "l \<in> set legs"
  shows "enforce grants (s_tenant session) (leg_schema schemaName l) (leg_table l) (s_role session) ''SELECT'' = Inr ()
    \<and> r_filter (resolve policies (s_tenant session) (leg_schema schemaName l) (leg_table l) session) = []
    \<and> r_masks (resolve policies (s_tenant session) (leg_schema schemaName l) (leg_table l) session) = []"
proof -
  have "gate_legs grants policies session schemaName legs"
    using assms(1) by (auto simp: colocated_dispatch_def split: if_splits sum.splits)
  then show ?thesis
    using assms(2)
    by (induction legs) (auto simp: Let_def split: sum.splits if_splits)
qed

definition orders_leg :: plan_leg where
  "orders_leg = \<lparr>l_schema = Some ''shop'', l_table = None, l_resource = ''orders''\<rparr>"

lemma colocated_sql_is_gated_witness:
  "enforce [] ''acme'' ''shop'' ''orders'' (Some ''analyst'') ''SELECT'' = Inr ()"
proof -
  let ?d = "colocated_dispatch [] [region_policy] eu_session ''hub'' ''POSTGRES'' Postgres True (\<lambda>_ r. (Some ''shop'', r)) [orders_leg] colocated_ast"
  have "?d \<noteq> Federate \<and> (\<forall>p. ?d \<noteq> RunMongo p)"
  proof -
    have "case ?d of RunSql _ _ \<Rightarrow> True | _ \<Rightarrow> False" by code_simp
    then show ?thesis by (auto split: dispatch.splits)
  qed
  then obtain sql params where "?d = RunSql sql params" by (cases ?d) auto
  from colocated_sql_is_gated [OF this, of orders_leg] show ?thesis
    by (simp add: eu_session_def orders_leg_def leg_schema_def leg_table_def)
qed

text \<open>
  On a MongoDB source the pipeline is run before any gate, so a role without the privilege
  reads a governed table that carries a row policy.
\<close>

definition orders_grants :: "grant_row list" where
  "orders_grants = [\<lparr>g_tenant = ''acme'', g_schema = ''s'', g_table = ''orders'',
     g_grants = [JObj [(''role'', JStr ''FINANCE''), (''privileges'', JArr [JStr ''SELECT''])]], g_source = ''API''\<rparr>]"

theorem colocated_mongo_skips_gates:
  "\<exists>l p. leg_schema ''hub'' l = ''s'' \<and> leg_table l = ''orders''
     \<and> enforce orders_grants ''acme'' ''s'' ''orders'' (s_role eu_session) ''SELECT'' \<noteq> Inr ()
     \<and> r_filter (resolve [region_policy] ''acme'' ''s'' ''orders'' eu_session) \<noteq> []
     \<and> colocated_dispatch orders_grants [region_policy] eu_session ''hub'' ''MONGODB'' d has_raw resolver [l] colocated_ast
         = RunMongo p"
proof -
  let ?l = "\<lparr>l_schema = Some ''s'', l_table = None, l_resource = ''orders''\<rparr>"
  have "leg_schema ''hub'' ?l = ''s''" "leg_table ?l = ''orders''"
    by (simp_all add: leg_schema_def leg_table_def)
  moreover have "\<not> isOk (enforce orders_grants ''acme'' ''s'' ''orders'' (s_role eu_session) ''SELECT'')" by code_simp
  moreover have "r_filter (resolve [region_policy] ''acme'' ''s'' ''orders'' eu_session) \<noteq> []" by code_simp
  moreover obtain p where "toMongoJoin colocated_ast = Inr p"
  proof -
    have "isOk (toMongoJoin colocated_ast)" by code_simp
    with that show ?thesis by (auto simp: isOk_iff)
  qed
  ultimately show ?thesis
    by (intro exI [of _ ?l] exI [of _ p]) (auto simp: colocated_dispatch_def)
qed

end
