(* ===== verification/GroupFold.thy ===== *)
theory GroupFold
  imports JsValue
begin

text \<open>
  Grouping rows in a \<open>Map\<close>: the loop that looks a group up, creates it from its first row and
  folds every row into it. The map keeps its keys in the order of their first occurrence.
\<close>

definition group_step :: "('r \<Rightarrow> 'k) \<Rightarrow> ('r \<Rightarrow> 's) \<Rightarrow> ('s \<Rightarrow> 'r \<Rightarrow> 's) \<Rightarrow> ('k \<times> 's) list \<Rightarrow> 'r \<Rightarrow> ('k \<times> 's) list" where
  "group_step key mk f m row =
     (case map_of m (key row) of
        None \<Rightarrow> m @ [(key row, f (mk row) row)]
      | Some s \<Rightarrow> map (\<lambda>(k, a). (k, if k = key row then f s row else a)) m)"

definition group_rows :: "('r \<Rightarrow> 'k) \<Rightarrow> ('r \<Rightarrow> 's) \<Rightarrow> ('s \<Rightarrow> 'r \<Rightarrow> 's) \<Rightarrow> 'r list \<Rightarrow> ('k \<times> 's) list" where
  "group_rows key mk f rows = foldl (group_step key mk f) [] rows"

lemma map_of_map_upd:
  "map_of (map (\<lambda>(k', a). (k', if k' = k then g a else a)) m) k'' =
     (if k'' = k then map_option g (map_of m k'') else map_of m k'')"
  by (induction m) auto

lemma map_of_group_step:
  "map_of (group_step key mk f m row) k =
     (if k = key row then Some (f (case map_of m k of None \<Rightarrow> mk row | Some s \<Rightarrow> s) row) else map_of m k)"
proof (cases "map_of m (key row)")
  case None
  then show ?thesis by (auto simp: group_step_def map_add_def split: option.splits)
next
  case (Some s)
  have "map (\<lambda>(k, a). (k, if k = key row then f s row else a)) m =
      map (\<lambda>(k', a). (k', if k' = key row then (\<lambda>_. f s row) a else a)) m" by simp
  with Some show ?thesis
    by (auto simp: group_step_def map_of_map_upd simp del: map_eq_conv)
qed

text \<open>The state of a group is the fold over its rows, started from its first row.\<close>

definition fold_group :: "('r \<Rightarrow> 's) \<Rightarrow> ('s \<Rightarrow> 'r \<Rightarrow> 's) \<Rightarrow> 'r list \<Rightarrow> 's option" where
  "fold_group mk f rows = (case rows of [] \<Rightarrow> None | r # rs \<Rightarrow> Some (foldl f (mk r) (r # rs)))"

lemma fold_group_snoc:
  "fold_group mk f (rs @ [r]) = Some (f (case fold_group mk f rs of None \<Rightarrow> mk r | Some s \<Rightarrow> s) r)"
  by (cases rs) (auto simp: fold_group_def)

lemma map_of_group_rows:
  "map_of (group_rows key mk f rows) k = fold_group mk f (filter (\<lambda>r. key r = k) rows)"
proof (induction rows arbitrary: k rule: rev_induct)
  case Nil
  then show ?case by (simp add: group_rows_def fold_group_def)
next
  case (snoc r rs)
  then show ?case
    by (simp add: group_rows_def map_of_group_step fold_group_snoc)
qed

lemma keys_group_step:
  "map fst (group_step key mk f m row) = (if key row \<in> set (map fst m) then map fst m else map fst m @ [key row])"
proof (cases "map_of m (key row)")
  case None
  then have "group_step key mk f m row = m @ [(key row, f (mk row) row)]" by (simp add: group_step_def)
  moreover have "key row \<notin> set (map fst m)" using None by (metis map_of_eq_None_iff set_map)
  ultimately show ?thesis by simp
next
  case (Some s)
  then have "key row \<in> set (map fst m)" by (metis map_of_eq_None_iff option.distinct(1) set_map)
  with Some show ?thesis by (auto simp: group_step_def)
qed

lemma distinct_group_rows: "distinct (map fst (group_rows key mk f rows))"
  by (induction rows rule: rev_induct) (simp_all add: group_rows_def keys_group_step)

lemma keys_group_rows: "set (map fst (group_rows key mk f rows)) = key ` set rows"
  by (induction rows rule: rev_induct) (auto simp: group_rows_def keys_group_step)

lemma dedup_acc_snoc:
  "dedup_acc seen (xs @ [x]) = dedup_acc seen xs @ (if x \<in> set seen \<union> set xs then [] else [x])"
  by (induction seen xs rule: dedup_acc.induct) auto

lemma js_dedup_snoc: "js_dedup (xs @ [x]) = (if x \<in> set xs then js_dedup xs else js_dedup xs @ [x])"
  by (simp add: js_dedup_def dedup_acc_snoc)

lemma dedup_acc_cong: "set seen = set seen' \<Longrightarrow> dedup_acc seen xs = dedup_acc seen' xs"
proof (induction xs arbitrary: seen seen')
  case (Cons x xs)
  show ?case using Cons.prems Cons.IH [of seen seen'] Cons.IH [of "x # seen" "x # seen'"] by simp
qed simp

lemma dedup_acc_append: "dedup_acc seen (xs @ ys) = dedup_acc seen xs @ dedup_acc (rev xs @ seen) ys"
proof (induction xs arbitrary: seen)
  case (Cons x xs)
  have "x \<in> set seen \<Longrightarrow> dedup_acc (rev xs @ seen) ys = dedup_acc (rev xs @ x # seen) ys"
    by (rule dedup_acc_cong) auto
  with Cons show ?case by simp
qed simp

lemma dedup_acc_dedup: "dedup_acc seen (dedup_acc seen' xs) = dedup_acc (seen @ seen') xs"
proof (induction seen' xs arbitrary: seen rule: dedup_acc.induct)
  case (2 seen' x xs)
  have "dedup_acc (x # seen @ x # seen') xs = dedup_acc (x # seen @ seen') xs"
    and "x \<in> set seen \<Longrightarrow> dedup_acc (seen @ x # seen') xs = dedup_acc (seen @ seen') xs"
    by (rule dedup_acc_cong, auto)+
  with 2 show ?case by auto
qed simp

lemma js_dedup_concat: "js_dedup (concat (map js_dedup xss)) = js_dedup (concat xss)"
proof -
  have "dedup_acc seen (concat (map js_dedup xss)) = dedup_acc seen (concat xss)" for seen
  proof (induction xss arbitrary: seen)
    case (Cons xs xss)
    have "dedup_acc (rev (js_dedup xs) @ seen) zs = dedup_acc (rev xs @ seen) zs" for zs :: "'a list"
      by (rule dedup_acc_cong) simp
    with Cons show ?case
      by (simp add: dedup_acc_append) (simp add: js_dedup_def dedup_acc_dedup)
  qed simp
  then show ?thesis by (simp add: js_dedup_def [of "concat _"])
qed

text \<open>The keys come in the order of their first row; the whole map in closed form.\<close>

lemma map_fst_group_rows: "map fst (group_rows key mk f rows) = js_dedup (map key rows)"
proof (induction rows rule: rev_induct)
  case Nil
  then show ?case by (simp add: group_rows_def js_dedup_def)
next
  case (snoc r rs)
  then have "set (map fst (group_rows key mk f rs)) = key ` set rs" by simp
  with snoc show ?case by (simp add: group_rows_def keys_group_step js_dedup_snoc)
qed

lemma map_of_distinct_map: "distinct (map fst m) \<Longrightarrow> m = map (\<lambda>k. (k, the (map_of m k))) (map fst m)"
proof (induction m)
  case (Cons kv m)
  have "map (\<lambda>k. (k, the (map_of (kv # m) k))) (map fst m) = map (\<lambda>k. (k, the (map_of m k))) (map fst m)"
    using Cons.prems by (intro map_cong) (auto simp: image_iff)
  then have "map (\<lambda>k. (k, the (map_of (kv # m) k))) (map fst (kv # m)) =
      kv # map (\<lambda>k. (k, the (map_of m k))) (map fst m)" by (simp del: map_map)
  with Cons show ?case by simp
qed simp

definition rows_of :: "('r \<Rightarrow> 'k) \<Rightarrow> 'k \<Rightarrow> 'r list \<Rightarrow> 'r list" where
  "rows_of key k rows = filter (\<lambda>r. key r = k) rows"

lemma rows_of_nonempty: "k \<in> key ` set rows \<Longrightarrow> rows_of key k rows \<noteq> []"
  by (auto simp: rows_of_def filter_empty_conv)

lemma group_rows_closed:
  "group_rows key mk f rows =
     map (\<lambda>k. (k, foldl f (mk (hd (rows_of key k rows))) (rows_of key k rows))) (js_dedup (map key rows))"
proof -
  have "the (map_of (group_rows key mk f rows) k) = foldl f (mk (hd (rows_of key k rows))) (rows_of key k rows)"
    if "k \<in> set (js_dedup (map key rows))" for k
  proof (cases "rows_of key k rows")
    case Nil
    then show ?thesis using that rows_of_nonempty [of k key rows] by simp
  next
    case (Cons r rs)
    then show ?thesis by (simp add: map_of_group_rows fold_group_def rows_of_def)
  qed
  then have "map (\<lambda>k. (k, the (map_of (group_rows key mk f rows) k))) (js_dedup (map key rows)) =
      map (\<lambda>k. (k, foldl f (mk (hd (rows_of key k rows))) (rows_of key k rows))) (js_dedup (map key rows))"
    by (intro map_cong) auto
  then show ?thesis
    using map_of_distinct_map [OF distinct_group_rows [of key mk f rows]]
    by (simp only: map_fst_group_rows)
qed

lemma foldl_pair: "foldl (\<lambda>(c, s) r. (c, h s r)) (c, s0) xs = (c, foldl h s0 xs)"
  by (induction xs arbitrary: s0) auto

lemma group_rows_mem:
  "(k, s) \<in> set (group_rows key mk f rows) \<longleftrightarrow> fold_group mk f (filter (\<lambda>r. key r = k) rows) = Some s"
  by (metis map_of_group_rows map_of_is_SomeI map_of_SomeD distinct_group_rows)

end
