(* ===== verification/FedCore.thy ===== *)
theory FedCore
  imports PushdownJoin GroupFold
begin

text \<open>
  \<open>modules/query-engine/federation.ts\<close>, the pure part: what the federation executor computes
  on rows and on the query before and after it talks to a source. The limits of the
  environment, the translation of a leg into a canonical query, the predicates it evaluates in
  memory, the in-memory join, projection, ordering and the column requirements of a join.

  A row is the list of its columns in insertion order. A comparison of two objects is by
  reference in the language, and the two sides always come from different rows: it is false.
  \<open>rx\<close> is the engine's \<open>new RegExp(pattern, flags).test(text)\<close>, an error for a pattern that does
  not compile. An \<open>on\<close> clause without an operator has the empty one.
\<close>

section \<open>Limits of the environment\<close>

text \<open>\<open>Number(raw)\<close>, then the floor of a positive value or the default.\<close>

definition env_limit :: "string option \<Rightarrow> nat \<Rightarrow> nat" where
  "env_limit raw dflt =
     (case (case raw of None \<Rightarrow> None | Some s \<Rightarrow> number_of_string s) of
        Some q \<Rightarrow> if q > 0 then nat \<lfloor>q\<rfloor> else dflt
      | None \<Rightarrow> dflt)"

definition maxRowsPerLeg :: "string option \<Rightarrow> nat" where
  "maxRowsPerLeg raw = env_limit raw 50000"

definition bindMaxKeys :: "string option \<Rightarrow> nat" where
  "bindMaxKeys raw = env_limit raw 1000"

definition costProbeEnabled :: "string option \<Rightarrow> bool" where
  "costProbeEnabled raw =
     (let s = (case raw of None \<Rightarrow> ''1'' | Some s \<Rightarrow> if s = [] then ''1'' else s)
      in js_lower s \<notin> {''0'', ''false'', ''no'', ''off''})"

definition broadcastMaxRows :: "string option \<Rightarrow> nat" where
  "broadcastMaxRows raw = env_limit raw 5000"

text \<open>
  Chunks of at most \<open>n\<close> (\<open>size\<close> in the code): the loop \<open>for (i = 0; i < arr.length; i += size)\<close>. With \<open>n = 0\<close>
  it does not end on a non-empty array, so a call that does not return is \<open>None\<close>.
\<close>

partial_function (option) chunk :: "'a list \<Rightarrow> nat \<Rightarrow> 'a list list option" where
  "chunk arr n =
     (if arr = [] then Some []
      else Option.bind (chunk (drop n arr) n) (\<lambda>cs. Some (take n arr # cs)))"

declare chunk.simps [code, simp del]

section \<open>Column paths\<close>

definition AST_OP_TO_CANONICAL :: "(string \<times> string) list" where
  "AST_OP_TO_CANONICAL =
     [(''EQ'', ''$eq''), (''='', ''$eq''), (''NE'', ''$ne''), (''!='', ''$ne''), (''<>'', ''$ne''),
      (''GT'', ''$gt''), (''>'', ''$gt''), (''GTE'', ''$gte''), (''>='', ''$gte''),
      (''LT'', ''$lt''), (''<'', ''$lt''), (''LTE'', ''$lte''), (''<='', ''$lte''),
      (''LIKE'', ''$like''), (''ILIKE'', ''$ilike''), (''IN'', ''$in''),
      (''MATCH'', ''$match''), (''SEARCH'', ''$match''), (''CONTAINS'', ''$match''), (''FUZZY'', ''$fuzzy''),
      (''IS_NULL'', ''$eq''), (''IS_NOT_NULL'', ''$ne'')]"

definition canon_op :: "string \<Rightarrow> string" where
  "canon_op raw = (case map_of AST_OP_TO_CANONICAL raw of Some x \<Rightarrow> x | None \<Rightarrow> ''$eq'')"

text \<open>\<open>String(w.operator || 'EQ').toUpperCase()\<close>.\<close>

definition raw_op :: "jsval \<Rightarrow> string" where
  "raw_op w = js_upper (js_string (or_val (js_get ''operator'' w) (JStr ''EQ'')))"

definition baseColumn :: "string \<Rightarrow> string" where
  "baseColumn s = (if CHR ''.'' \<in> set s then last (split_chr CHR ''.'' s) else s)"

definition aliasOf :: "string \<Rightarrow> string option" where
  "aliasOf s = (if CHR ''.'' \<in> set s then Some (js_join ''.'' (butlast (split_chr CHR ''.'' s))) else None)"

type_synonym fed_row = "(string \<times> jsval) list"

definition col_val :: "fed_row \<Rightarrow> string \<Rightarrow> jsval" where
  "col_val row k = (case kv_get k row of Some v \<Rightarrow> v | None \<Rightarrow> JUndef)"

definition readColumn :: "fed_row \<Rightarrow> string \<Rightarrow> jsval" where
  "readColumn row path = (case kv_get path row of Some v \<Rightarrow> v | None \<Rightarrow> col_val row (baseColumn path))"

section \<open>From a leg to a canonical query\<close>

text \<open>The columns and the aggregates of a select list, \<open>None\<close> when an entry cannot be pushed.\<close>

definition lower_name :: "jsval \<Rightarrow> string" where
  "lower_name v = js_lower (js_string v)"

definition leg_agg :: "jsval \<Rightarrow> aggregate_spec" where
  "leg_agg c =
     \<lparr>a_func = js_string (js_get ''func'' c),
      a_column = (if truthy (js_get ''column'' c) then Some (js_string (js_get ''column'' c)) else None),
      a_alias = (if truthy (js_get ''alias'' c) then js_string (js_get ''alias'' c) else lower_name (js_get ''func'' c)),
      a_percent = (case js_get ''percent'' c of JNum q \<Rightarrow> Some q | _ \<Rightarrow> None)\<rparr>"

fun leg_select :: "jsval list \<Rightarrow> (string list \<times> aggregate_spec list) option" where
  "leg_select [] = Some ([], [])"
| "leg_select (c # cs) =
     (if is_str c then map_option (\<lambda>(cols, aggs). (str_of c # cols, aggs)) (leg_select cs)
      else if truthy (js_get ''column'' c) \<and> \<not> truthy (js_get ''func'' c) \<and> \<not> truthy (js_get ''aggregate'' c)
              \<and> \<not> truthy (js_get ''window'' c) \<and> \<not> truthy (js_get ''expression'' c)
        then map_option (\<lambda>(cols, aggs). (js_string (js_get ''column'' c) # cols, aggs)) (leg_select cs)
      else if truthy (js_get ''func'' c) then map_option (\<lambda>(cols, aggs). (cols, leg_agg c # aggs)) (leg_select cs)
      else None)"

text \<open>A predicate that can be pushed and the filter it adds to.\<close>

definition unpushable :: "jsval \<Rightarrow> bool" where
  "unpushable w \<longleftrightarrow> \<not> truthy w \<or> \<not> truthy (js_get ''column'' w)
     \<or> truthy (js_get ''expression'' w) \<or> truthy (js_get ''search'' w)"

definition add_where :: "js_filter \<Rightarrow> jsval \<Rightarrow> js_filter" where
  "add_where f w =
     (let op = raw_op w;
          val = (if op = ''IS_NULL'' \<or> op = ''IS_NOT_NULL'' then JNull else js_get ''value'' w)
      in merge_cond (js_string (js_get ''column'' w)) [(canon_op op, val)] f)"

definition leg_filter :: "jsval list \<Rightarrow> js_filter" where
  "leg_filter ws = (if list_ex unpushable ws then [] else foldl add_where [] ws)"

definition leg_order :: "jsval \<Rightarrow> (string \<times> string) list" where
  "leg_order legAst =
     map (\<lambda>o'. (js_string (js_get ''column'' o'), if js_get ''direction'' o' = JStr ''DESC'' then ''DESC'' else ''ASC''))
       (arr_of (js_get ''orderBy'' legAst))"

definition astLegToCanonical :: "jsval \<Rightarrow> canonical_query" where
  "astLegToCanonical legAst =
     (let sel = js_get ''select'' legAst;
          parts = (if is_arr sel \<and> JStr ''*'' \<notin> set (arr_of sel)
                   then (case leg_select (arr_of sel) of Some p \<Rightarrow> p | None \<Rightarrow> ([], [])) else ([], []))
      in \<lparr>q_select = fst parts, q_filter = leg_filter (arr_of (js_get ''where'' legAst)),
          q_orderBy = leg_order legAst, q_limit = num_field ''limit'' legAst, q_offset = num_field ''offset'' legAst,
          q_groupBy = (if truthy (js_get ''distinct'' legAst) then map GField (fst parts) else []),
          q_aggregates = snd parts\<rparr>)"

section \<open>Comparison in memory\<close>

definition is_ref :: "jsval \<Rightarrow> bool" where
  "is_ref v \<longleftrightarrow> is_obj v \<or> is_arr v"

text \<open>\<open>a == b\<close> and \<open>a <= b\<close>.\<close>

definition loose_eq :: "jsval \<Rightarrow> jsval \<Rightarrow> bool" where
  "loose_eq a b =
     (if nullish a \<or> nullish b then nullish a \<and> nullish b
      else if is_ref a \<and> is_ref b then False
      else
        let p = (\<lambda>v. if is_ref v then JStr (js_string v) else v) in
        if is_str (p a) \<and> is_str (p b) then p a = p b
        else (case (js_number (p a), js_number (p b)) of (Some x, Some y) \<Rightarrow> x = y | _ \<Rightarrow> False))"

definition js_le :: "jsval \<Rightarrow> jsval \<Rightarrow> bool" where
  "js_le a b =
     (if is_str a \<and> is_str b then \<not> str_less (str_of b) (str_of a)
      else (case (js_number a, js_number b) of (Some x, Some y) \<Rightarrow> x \<le> y | _ \<Rightarrow> False))"

definition compare_by :: "string \<Rightarrow> jsval \<Rightarrow> jsval \<Rightarrow> bool option" where
  "compare_by op a b =
     (if op \<in> {''NE'', ''!='', ''<>''} then Some (\<not> loose_eq a b)
      else if op \<in> {''GT'', ''>''} then Some (js_less b a)
      else if op \<in> {''GTE'', ''>=''} then Some (js_le b a)
      else if op \<in> {''LT'', ''<''} then Some (js_less a b)
      else if op \<in> {''LTE'', ''<=''} then Some (js_le a b)
      else None)"

definition evalOn :: "jsval \<Rightarrow> string \<Rightarrow> jsval \<Rightarrow> bool" where
  "evalOn left op right =
     (case compare_by (js_upper op) left right of Some b \<Rightarrow> b | None \<Rightarrow> loose_eq left right)"

type_synonym regex_engine = "string \<Rightarrow> string \<Rightarrow> string \<Rightarrow> bool res"

definition like_source :: "string \<Rightarrow> string" where
  "like_source p = ''^'' @ replace_chrs (\<lambda>c. c = CHR ''%'' \<or> c = CHR ''_'') (\<lambda>c. if c = CHR ''%'' then ''.*'' else ''.'') p @ ''$''"

definition where_passes :: "regex_engine \<Rightarrow> fed_row \<Rightarrow> jsval \<Rightarrow> bool res" where
  "where_passes rx row w =
     (if \<not> truthy w \<or> \<not> truthy (js_get ''column'' w) then Inr True
      else
        let actual = readColumn row (js_string (js_get ''column'' w)); expected = js_get ''value'' w; op = raw_op w
        in (case compare_by op actual expected of
              Some b \<Rightarrow> Inr b
            | None \<Rightarrow>
                if op = ''IN'' then Inr (is_arr expected \<and> actual \<in> set (arr_of expected) \<and> \<not> is_ref actual)
                else if op = ''LIKE'' \<or> op = ''ILIKE'' then
                  rx (like_source (js_string expected)) (if op = ''ILIKE'' then ''i'' else []) (js_string actual)
                else Inr (loose_eq actual expected)))"

fun where_all :: "regex_engine \<Rightarrow> fed_row \<Rightarrow> jsval list \<Rightarrow> bool res" where
  "where_all rx row [] = Inr True"
| "where_all rx row (w # ws) = bindR (where_passes rx row w) (\<lambda>b. if b then where_all rx row ws else Inr False)"

fun filterR :: "('a \<Rightarrow> bool res) \<Rightarrow> 'a list \<Rightarrow> 'a list res" where
  "filterR p [] = Inr []"
| "filterR p (x # xs) = bindR (p x) (\<lambda>b. mapR (\<lambda>ys. if b then x # ys else ys) (filterR p xs))"

definition applyWhere :: "regex_engine \<Rightarrow> fed_row list \<Rightarrow> jsval list \<Rightarrow> fed_row list res" where
  "applyWhere rx rows ws = (if ws = [] then Inr rows else filterR (\<lambda>row. where_all rx row ws) rows)"

section \<open>The in-memory join\<close>

record on_clause =
  on_left :: string
  on_op :: string
  on_right :: string

record leg_meta =
  lm_alias :: string
  lm_source :: string
  lm_resource :: string
  lm_type :: "string option"
  lm_on :: "on_clause option"

definition qualify :: "string \<Rightarrow> fed_row list \<Rightarrow> fed_row list" where
  "qualify alias rows = map (map (\<lambda>(k, v). (alias @ ''.'' @ k, v))) rows"

definition is_equi :: "string \<Rightarrow> bool" where
  "is_equi op \<longleftrightarrow> (let o' = js_upper (if op = [] then ''EQ'' else op) in o' = ''EQ'' \<or> o' = ''='')"

text \<open>The index of the right rows by join value; a reference is never found from the other side.\<close>

definition build_index :: "string \<Rightarrow> fed_row list \<Rightarrow> (jsval \<times> fed_row list) list" where
  "build_index k right = group_rows (\<lambda>r. col_val r k) (\<lambda>_. []) (\<lambda>b r. b @ [r]) right"

definition index_get :: "(jsval \<times> fed_row list) list \<Rightarrow> jsval \<Rightarrow> fed_row list" where
  "index_get ix v = (if is_ref v then [] else (case map_of ix v of Some b \<Rightarrow> b | None \<Rightarrow> []))"

definition mergeJoin :: "fed_row list \<Rightarrow> fed_row list \<Rightarrow> on_clause \<Rightarrow> bool \<Rightarrow> bool \<Rightarrow> fed_row list" where
  "mergeJoin left right on keepUnmatchedLeft isEquiJoin =
     (let ix = build_index (on_right on) right;
          matches = (\<lambda>l. if isEquiJoin then index_get ix (col_val l (on_left on))
                         else filter (\<lambda>r. evalOn (col_val l (on_left on)) (on_op on) (col_val r (on_right on))) right)
      in concat (map (\<lambda>l. if matches l = [] then (if keepUnmatchedLeft then [l] else [])
                          else map (kv_merge l) (matches l)) left))"

section \<open>Projection and order\<close>

definition select_path :: "jsval \<Rightarrow> string option" where
  "select_path c =
     (case c of JStr s \<Rightarrow> if s = [] then None else Some s
      | _ \<Rightarrow> if truthy (js_get ''column'' c) then Some (js_string (js_get ''column'' c)) else None)"

definition project_path :: "fed_row \<Rightarrow> fed_row \<Rightarrow> string \<Rightarrow> fed_row" where
  "project_path row out s =
     (case kv_get s row of
        Some v \<Rightarrow> kv_set s v out
      | None \<Rightarrow>
          (case List.find (\<lambda>(k, _). k = baseColumn s \<or> baseColumn k = baseColumn s) row of
             Some (_, v) \<Rightarrow> kv_set s v out
           | None \<Rightarrow> out))"

definition applyProjection :: "fed_row list \<Rightarrow> jsval \<Rightarrow> fed_row list" where
  "applyProjection rows sel =
     (let specs = List.map_filter select_path (arr_of sel) in
      if JStr ''*'' \<in> set (arr_of sel) \<or> specs = [] then rows
      else map (\<lambda>row. foldl (project_path row) [] specs) rows)"

text \<open>The comparison function of the sort: whether the first row comes strictly before the second.\<close>

fun order_before :: "jsval list \<Rightarrow> fed_row \<Rightarrow> fed_row \<Rightarrow> bool" where
  "order_before [] a b = False"
| "order_before (o' # os) a b =
     (let av = readColumn a (js_string (js_get ''column'' o')); bv = readColumn b (js_string (js_get ''column'' o'));
          desc = (js_get ''direction'' o' = JStr ''DESC'')
      in if js_less av bv then \<not> desc else if js_less bv av then desc else order_before os a b)"

definition applyOrderLimit :: "fed_row list \<Rightarrow> jsval \<Rightarrow> fed_row list" where
  "applyOrderLimit rows ast =
     (let os = arr_of (js_get ''orderBy'' ast);
          sorted_rows = (if os = [] then rows else js_sort (order_before os) rows);
          off = (case num_field ''offset'' ast of Some q \<Rightarrow> if q > 0 then nat \<lfloor>q\<rfloor> else 0 | None \<Rightarrow> 0)
      in (case num_field ''limit'' ast of
            Some q \<Rightarrow> if q \<ge> 0 then take (nat \<lfloor>q\<rfloor>) (drop off sorted_rows) else drop off sorted_rows
          | None \<Rightarrow> drop off sorted_rows))"

text \<open>A streamed row renamed to the aliases of the select list of its leg.\<close>

definition alias_entry :: "fed_row \<Rightarrow> fed_row \<Rightarrow> jsval \<Rightarrow> fed_row" where
  "alias_entry row out s =
     (let pick = (\<lambda>al col. if col_val row al = JUndef then col_val row col else col_val row al);
          av = js_get ''alias'' s
      in if is_str s then
           (let c = baseColumn (str_of s) in if c = [] then out else kv_set c (pick c c) out)
         else if truthy (js_get ''func'' s) then
           (let f = lower_name (js_get ''func'' s); al = (if truthy av then js_string av else f)
            in kv_set al (pick al f) out)
         else if truthy (js_get ''column'' s) then
           (let c = baseColumn (js_string (js_get ''column'' s)); al = (if truthy av then js_string av else c)
            in if c = [] then out else kv_set al (pick al c) out)
         else out)"

definition projectRowToAlias :: "fed_row \<Rightarrow> jsval \<Rightarrow> fed_row" where
  "projectRowToAlias row sel =
     (if arr_of sel = [] \<or> JStr ''*'' \<in> set (arr_of sel) then row
      else foldl (alias_entry row) [] (arr_of sel))"

section \<open>The columns a join needs\<close>

text \<open>\<open>need[alias]\<close>: the columns wanted so far, \<open>None\<close> for all of them. A bail is \<open>None\<close>.\<close>

type_synonym needs = "(string \<times> string list option) list"

definition add_need :: "string \<Rightarrow> string \<Rightarrow> needs \<Rightarrow> needs" where
  "add_need alias col need =
     (case kv_get alias need of
        Some (Some cols) \<Rightarrow> kv_set alias (Some (if col \<in> set cols then cols else cols @ [col])) need
      | _ \<Rightarrow> need)"

definition addRef :: "string list \<Rightarrow> jsval \<Rightarrow> needs \<Rightarrow> needs option" where
  "addRef aliases path need =
     (if \<not> is_str path \<or> str_of path = [] \<or> str_of path = ''*'' then None
      else
        let p = str_of path; alias = takeWhile (\<lambda>c. c \<noteq> CHR ''.'') p; col = drop (length alias + 1) p
        in if CHR ''.'' \<notin> set p then None
           else if alias \<notin> set aliases then None
           else if col = ''*'' then Some (kv_set alias None need)
           else Some (add_need alias (baseColumn col) need))"

fun addRefs :: "(jsval \<Rightarrow> needs \<Rightarrow> needs option) \<Rightarrow> jsval list \<Rightarrow> needs \<Rightarrow> needs option" where
  "addRefs f [] need = Some need"
| "addRefs f (x # xs) need = (case f x need of Some need' \<Rightarrow> addRefs f xs need' | None \<Rightarrow> None)"

definition select_ref :: "string list \<Rightarrow> jsval \<Rightarrow> needs \<Rightarrow> needs option" where
  "select_ref aliases c need =
     (if is_str c then addRef aliases c need
      else if \<not> is_ref c then None
      else if truthy (js_get ''aggregate'' c) then
        (if truthy (js_get ''column'' c) \<and> js_get ''column'' c \<noteq> JStr ''*'' then addRef aliases (js_get ''column'' c) need
         else Some need)
      else if truthy (js_get ''column'' c) \<and> \<not> truthy (js_get ''window'' c) \<and> \<not> truthy (js_get ''expression'' c)
        then addRef aliases (js_get ''column'' c) need
      else None)"

definition addColRef :: "string list \<Rightarrow> jsval list \<Rightarrow> jsval \<Rightarrow> needs \<Rightarrow> needs option" where
  "addColRef aliases selectAliases col need =
     (if is_str col \<and> CHR ''.'' \<notin> set (str_of col) \<and> col \<in> set selectAliases then Some need
      else addRef aliases col need)"

definition pred_ref :: "(jsval \<Rightarrow> needs \<Rightarrow> needs option) \<Rightarrow> jsval \<Rightarrow> needs \<Rightarrow> needs option" where
  "pred_ref f w need =
     (if truthy w \<and> truthy (js_get ''column'' w) then f (js_get ''column'' w) need
      else if truthy w \<and> (truthy (js_get ''expression'' w) \<or> truthy (js_get ''search'' w)) then None
      else Some need)"

definition join_ref :: "string list \<Rightarrow> jsval \<Rightarrow> needs \<Rightarrow> needs option" where
  "join_ref aliases j need =
     (if truthy (js_get ''on'' j)
      then Option.bind (addRef aliases (js_get ''left'' (js_get ''on'' j)) need)
             (addRef aliases (js_get ''right'' (js_get ''on'' j)))
      else Some need)"

definition joinLegProjections :: "jsval \<Rightarrow> leg_meta list \<Rightarrow> needs option" where
  "joinLegProjections ast legMetas =
     (let aliases = js_dedup (map lm_alias legMetas);
          sel = arr_of (js_get ''select'' ast);
          selectAliases = map (js_get ''alias'') (filter (\<lambda>c. is_ref c \<and> truthy (js_get ''alias'' c)) sel);
          col = addColRef aliases selectAliases;
          part = (\<lambda>k. arr_of (js_get k ast))
      in if sel = [] then None
         else Option.bind (addRefs (select_ref aliases) sel (map (\<lambda>a. (a, Some [])) aliases)) (\<lambda>n1.
              Option.bind (addRefs (join_ref aliases) (part ''joins'') n1) (\<lambda>n2.
              Option.bind (addRefs (pred_ref col) (part ''where'') n2) (\<lambda>n3.
              Option.bind (addRefs (\<lambda>o'. col (js_get ''column'' o')) (part ''orderBy'') n3) (\<lambda>n4.
              Option.bind (addRefs (\<lambda>g. col (if is_str g then g else js_get ''field'' g)) (part ''groupBy'') n4) (\<lambda>n5.
              addRefs (pred_ref col) (part ''having'') n5))))))"

text \<open>\<open>selectFor\<close>: the columns to request from a leg, the empty list for all of them.\<close>

definition selectFor :: "needs option \<Rightarrow> string \<Rightarrow> string list" where
  "selectFor proj alias = (case proj of None \<Rightarrow> [] | Some n \<Rightarrow> (case kv_get alias n of Some (Some cols) \<Rightarrow> cols | _ \<Rightarrow> []))"

end
