(* ===== verification/FedFilters.thy ===== *)
theory FedFilters
  imports FedCore
begin

text \<open>
  \<open>FederationExecutor.buildLegFilters\<close>: every qualified conjunct of the WHERE goes to the leg
  its column names, and a constant that an equijoin equates with another column goes to that
  column's leg too. The classes of equated columns are kept in a union-find forest with path
  compression, whose loop is a partial function here: \<open>uf_find_returns\<close> shows that it returns
  on every forest the code builds, and \<open>leg_filters_sound\<close> that no row of the answer is lost.
\<close>

section \<open>The union-find forest\<close>

type_synonym forest = "(string \<times> string) list"

text \<open>\<open>parent[x] ??= x\<close> and then the root of \<open>x\<close>, compressing the path to it.\<close>

definition with_node :: "string \<Rightarrow> forest \<Rightarrow> forest" where
  "with_node x p = (case kv_get x p of None \<Rightarrow> kv_set x x p | Some _ \<Rightarrow> p)"

definition parent_of :: "forest \<Rightarrow> string \<Rightarrow> string" where
  "parent_of p x = (case kv_get x p of None \<Rightarrow> x | Some y \<Rightarrow> y)"

partial_function (option) uf_find :: "string \<Rightarrow> forest \<Rightarrow> (string \<times> forest) option" where
  "uf_find x p =
     (if parent_of (with_node x p) x = x then Some (x, with_node x p)
      else Option.bind (uf_find (parent_of (with_node x p) x) (with_node x p))
             (\<lambda>(r, q). Some (r, kv_set x r q)))"

declare uf_find.simps [code, simp del]

text \<open>\<open>parent[find(a)] = find(b)\<close>.\<close>

definition uf_union :: "string \<Rightarrow> string \<Rightarrow> forest \<Rightarrow> forest option" where
  "uf_union a b p =
     Option.bind (uf_find a p) (\<lambda>(ra, q). Option.bind (uf_find b q) (\<lambda>(rb, q'). Some (kv_set ra rb q')))"

section \<open>The filters of the legs\<close>

type_synonym leg_filters = "(string \<times> js_filter) list"

definition filter_of :: "leg_filters \<Rightarrow> string \<Rightarrow> js_filter" where
  "filter_of pf alias = (case kv_get alias pf of Some f \<Rightarrow> f | None \<Rightarrow> [])"

definition attribute_where :: "string list \<Rightarrow> leg_filters \<Rightarrow> jsval \<Rightarrow> leg_filters" where
  "attribute_where aliases pf w =
     (let path = js_string (js_get ''column'' w) in
      if unpushable w then pf
      else (case aliasOf path of
          Some a \<Rightarrow>
            if a \<noteq> [] \<and> a \<in> set aliases then
              kv_set a (merge_cond (baseColumn path) [(canon_op (raw_op w), js_get ''value'' w)] (filter_of pf a)) pf
            else pf
        | None \<Rightarrow> pf))"

text \<open>Both sides of an equijoin clause, when both are qualified.\<close>

definition equated :: "leg_meta \<Rightarrow> (string \<times> string) option" where
  "equated lm =
     (case lm_on lm of
        Some on \<Rightarrow>
          if is_equi (on_op on) \<and> aliasOf (on_left on) \<notin> {None, Some []} \<and> aliasOf (on_right on) \<notin> {None, Some []}
          then Some (on_left on, on_right on) else None
      | None \<Rightarrow> None)"

fun unite_legs :: "leg_meta list \<Rightarrow> forest \<Rightarrow> forest option" where
  "unite_legs [] p = Some p"
| "unite_legs (lm # lms) p =
     (case equated lm of
        Some (a, b) \<Rightarrow> Option.bind (uf_union a b p) (unite_legs lms)
      | None \<Rightarrow> unite_legs lms p)"

type_synonym const_map = "(string \<times> jsval) list"

definition leg_consts :: "string \<Rightarrow> js_filter \<Rightarrow> const_map" where
  "leg_consts alias f =
     List.map_filter (\<lambda>(col, spec). map_option (\<lambda>v. (alias @ ''.'' @ col, v)) (kv_get ''$eq'' (obj_of spec))) f"

definition seed_consts :: "leg_filters \<Rightarrow> leg_meta list \<Rightarrow> const_map" where
  "seed_consts pf lms = kv_merge [] (concat (map (\<lambda>lm. leg_consts (lm_alias lm) (filter_of pf (lm_alias lm))) lms))"

fun class_consts :: "const_map \<Rightarrow> forest \<Rightarrow> const_map \<Rightarrow> (forest \<times> const_map) option" where
  "class_consts [] p cc = Some (p, cc)"
| "class_consts ((node, v) # ns) p cc =
     Option.bind (uf_find node p) (\<lambda>(r, q). class_consts ns q (kv_set r v cc))"

definition propagate_to :: "string list \<Rightarrow> string \<Rightarrow> jsval \<Rightarrow> leg_filters \<Rightarrow> leg_filters" where
  "propagate_to aliases node v pf =
     (case aliasOf node of
        Some a \<Rightarrow>
          if a \<noteq> [] \<and> a \<in> set aliases then
            (let f = filter_of pf a in
             kv_set a (case kv_get (baseColumn node) f of
                         Some _ \<Rightarrow> f
                       | None \<Rightarrow> kv_set (baseColumn node) (JObj [(''$eq'', v)]) f) pf)
          else pf
      | None \<Rightarrow> pf)"

fun propagate :: "string list \<Rightarrow> string list \<Rightarrow> const_map \<Rightarrow> forest \<Rightarrow> leg_filters \<Rightarrow> leg_filters option" where
  "propagate aliases [] cc p pf = Some pf"
| "propagate aliases (node # ns) cc p pf =
     Option.bind (uf_find node p) (\<lambda>(r, q).
       propagate aliases ns cc q
         (case kv_get r cc of Some v \<Rightarrow> propagate_to aliases node v pf | None \<Rightarrow> pf))"

definition buildLegFilters :: "leg_meta list \<Rightarrow> jsval list \<Rightarrow> leg_filters option" where
  "buildLegFilters lms ws =
     (let aliases = js_dedup (map lm_alias lms); pf = foldl (attribute_where aliases) [] ws in
      Option.bind (unite_legs lms []) (\<lambda>p.
        Option.bind (class_consts (seed_consts pf lms) p []) (\<lambda>(q, cc).
          propagate aliases (map fst q) cc q pf)))"

section \<open>The loop of find returns\<close>

text \<open>A step to a different parent; the forest is well-founded when every such walk ends.\<close>

definition steps :: "forest \<Rightarrow> (string \<times> string) set" where
  "steps p = {(y, x). kv_get x p = Some y \<and> y \<noteq> x}"

definition is_root :: "forest \<Rightarrow> string \<Rightarrow> bool" where
  "is_root p r \<longleftrightarrow> kv_get r p = Some r"

lemma parent_of_eq [simp]: "kv_get x p = Some y \<Longrightarrow> parent_of p x = y"
  by (simp add: parent_of_def)

lemma with_node_get: "kv_get y (with_node x p) = (if y = x \<and> kv_get x p = None then Some x else kv_get y p)"
  by (auto simp: with_node_def split: option.splits)

lemma with_node_same [simp]: "kv_get x p = Some y \<Longrightarrow> with_node x p = p"
  by (simp add: with_node_def)

lemma steps_with_node [simp]: "steps (with_node x p) = steps p"
  by (auto simp: steps_def with_node_get split: if_splits)

text \<open>Redirecting a node to a root keeps the forest well-founded.\<close>

lemma wf_redirect:
  assumes wf: "wf (steps p)" and root: "is_root p r"
  shows "wf (steps (kv_set x r p))"
proof (cases "x = r")
  case True
  then have "steps (kv_set x r p) \<subseteq> steps p" by (auto simp: steps_def split: if_splits)
  with wf show ?thesis by (rule wf_subset)
next
  case False
  have "steps (kv_set x r p) \<subseteq> insert (r, x) (steps p)"
    by (auto simp: steps_def split: if_splits)
  moreover have "(x, r) \<notin> (steps p)\<^sup>*"
  proof
    assume "(x, r) \<in> (steps p)\<^sup>*"
    then show False using False root by (cases rule: rtranclE) (auto simp: steps_def is_root_def)
  qed
  ultimately show ?thesis using wf by (meson wf_insert wf_subset)
qed

lemma is_root_redirect: "is_root p r \<Longrightarrow> is_root (kv_set x r p) r"
  by (auto simp: is_root_def)

lemma uf_find_returns:
  assumes "wf (steps p)"
  shows "\<exists>r q. uf_find x p = Some (r, q) \<and> is_root q r \<and> wf (steps q) \<and>
           (\<forall>s. is_root p s \<longrightarrow> is_root q s) \<and> (\<forall>y. kv_get y p \<noteq> None \<longrightarrow> kv_get y q \<noteq> None)"
  using assms
proof (induction x rule: wf_induct_rule)
  case (less x)
  show ?case
  proof (cases "parent_of (with_node x p) x = x")
    case True
    then have "uf_find x p = Some (x, with_node x p)" by (simp add: uf_find.simps)
    moreover have "is_root (with_node x p) x"
      using True by (auto simp: is_root_def with_node_get parent_of_def split: option.splits if_splits)
    ultimately show ?thesis
      using assms by (auto simp: is_root_def with_node_get)
  next
    case False
    then obtain y where y: "kv_get x p = Some y" "y \<noteq> x"
      by (cases "kv_get x p") (auto simp: parent_of_def with_node_get)
    then have "(y, x) \<in> steps p" by (simp add: steps_def)
    from less.IH [OF this] obtain r q where rq: "uf_find y p = Some (r, q)" "is_root q r" "wf (steps q)"
        and keep: "\<forall>s. is_root p s \<longrightarrow> is_root q s" "\<forall>y. kv_get y p \<noteq> None \<longrightarrow> kv_get y q \<noteq> None"
      by blast
    have "uf_find x p = Some (r, kv_set x r q)"
      using y rq by (simp add: uf_find.simps [of x])
    moreover have "\<forall>s. is_root p s \<longrightarrow> is_root (kv_set x r q) s"
      using keep y by (auto simp: is_root_def)
    ultimately show ?thesis
      using rq keep wf_redirect [OF rq(3,2)] is_root_redirect [OF rq(2)] by auto
  qed
qed

lemma uf_union_returns:
  assumes "wf (steps p)"
  shows "\<exists>q. uf_union a b p = Some q \<and> wf (steps q)"
proof -
  obtain ra q where a: "uf_find a p = Some (ra, q)" "is_root q ra" "wf (steps q)"
    using uf_find_returns [OF assms, of a] by blast
  obtain rb q' where b: "uf_find b q = Some (rb, q')" "is_root q' rb" "wf (steps q')"
    using uf_find_returns [OF a(3), of b] by blast
  then show ?thesis using a wf_redirect by (simp add: uf_union_def)
qed

lemma unite_legs_returns: "wf (steps p) \<Longrightarrow> \<exists>q. unite_legs lms p = Some q \<and> wf (steps q)"
proof (induction lms arbitrary: p)
  case (Cons lm lms)
  show ?case
  proof (cases "equated lm")
    case (Some ab)
    obtain a b where ab: "ab = (a, b)" by force
    obtain q where "uf_union a b p = Some q" "wf (steps q)"
      using uf_union_returns [OF Cons.prems] by blast
    with Some ab Cons.IH show ?thesis by simp
  qed (use Cons in simp)
qed simp

lemma class_consts_returns: "wf (steps p) \<Longrightarrow> \<exists>q cc'. class_consts ns p cc = Some (q, cc') \<and> wf (steps q)"
proof (induction ns arbitrary: p cc)
  case (Cons n ns)
  obtain node v where n: "n = (node, v)" by force
  obtain r q where "uf_find node p = Some (r, q)" "wf (steps q)"
    using uf_find_returns [OF Cons.prems] by blast
  with n Cons.IH show ?case by simp
qed simp

lemma propagate_returns: "wf (steps p) \<Longrightarrow> \<exists>pf'. propagate aliases ns cc p pf = Some pf'"
proof (induction ns arbitrary: p pf)
  case (Cons node ns)
  obtain r q where "uf_find node p = Some (r, q)" "wf (steps q)"
    using uf_find_returns [OF Cons.prems] by blast
  with Cons.IH show ?case by simp
qed simp

lemma steps_Nil [simp]: "steps [] = {}"
  by (auto simp: steps_def)

lemma buildLegFilters_returns: "\<exists>pf. buildLegFilters lms ws = Some pf"
proof -
  obtain p where p: "unite_legs lms [] = Some p" "wf (steps p)"
    using unite_legs_returns [of "[]" lms] by auto
  define pf where "pf = foldl (attribute_where (js_dedup (map lm_alias lms))) [] ws"
  obtain q cc where q: "class_consts (seed_consts pf lms) p [] = Some (q, cc)" "wf (steps q)"
    using class_consts_returns [OF p(2)] by blast
  show ?thesis
    using propagate_returns [OF q(2)] p q by (simp add: buildLegFilters_def Let_def pf_def)
qed

section \<open>Soundness\<close>

text \<open>The forest equates columns of equal value; a path is its alias and its base column.\<close>

definition same_vals :: "(string \<Rightarrow> 'v) \<Rightarrow> forest \<Rightarrow> bool" where
  "same_vals val p \<longleftrightarrow> (\<forall>x y. kv_get x p = Some y \<longrightarrow> val x = val y)"

lemma same_vals_Nil [simp]: "same_vals val []"
  by (simp add: same_vals_def)

lemma same_vals_set: "same_vals val p \<Longrightarrow> val x = val y \<Longrightarrow> same_vals val (kv_set x y p)"
  by (auto simp: same_vals_def split: if_splits)

lemma same_vals_node: "same_vals val p \<Longrightarrow> same_vals val (with_node x p)"
  by (auto simp: same_vals_def with_node_get split: if_splits)

lemma same_vals_parent: "same_vals val p \<Longrightarrow> val (parent_of p x) = val x"
  by (auto simp: same_vals_def parent_of_def split: option.splits)

lemma uf_find_sound:
  assumes "uf_find x p = Some rq"
  shows "same_vals val p \<longrightarrow> val (fst rq) = val x \<and> same_vals val (snd rq)"
proof -
  define Q where "Q = (\<lambda>x p rq. same_vals val p \<longrightarrow> val (fst rq) = val x \<and> same_vals val (snd (rq :: string \<times> forest)))"
  have step: "Q x p rq"
    if find: "\<And>x p rq. find x p = Some rq \<Longrightarrow> Q x p rq"
      and eq: "(if parent_of (with_node x p) x = x then Some (x, with_node x p)
        else Option.bind (find (parent_of (with_node x p) x) (with_node x p)) (\<lambda>(r, q). Some (r, kv_set x r q))) = Some rq"
    for find x p rq
    unfolding Q_def
  proof
    assume ok: "same_vals val p"
    show "val (fst rq) = val x \<and> same_vals val (snd rq)"
    proof (cases "parent_of (with_node x p) x = x")
      case True
      with eq ok show ?thesis by (auto simp: same_vals_node)
    next
      case False
      with eq obtain r q where rq: "find (parent_of (with_node x p) x) (with_node x p) = Some (r, q)" "rq = (r, kv_set x r q)"
        by (auto split: Option.bind_splits)
      from find [OF rq(1)] ok have "val r = val x" "same_vals val q"
        by (auto simp: Q_def same_vals_node same_vals_parent)
      with rq(2) show ?thesis by (simp add: same_vals_set)
    qed
  qed
  have "(case (x, p) of (x, p) \<Rightarrow> Q x p) rq"
    by (rule uf_find.raw_induct [where P = Q and xa = "(x, p)"]) (rule step, assumption, assumption, simp only: prod.case assms)
  then show ?thesis by (simp only: prod.case Q_def)
qed

lemma aliasOf_path: "aliasOf s = Some a \<Longrightarrow> s = a @ ''.'' @ baseColumn s"
proof -
  assume "aliasOf s = Some a"
  then have dot: "CHR ''.'' \<in> set s" and a: "a = js_join ''.'' (butlast (split_chr CHR ''.'' s))"
    by (auto simp: aliasOf_def split: if_splits)
  have snoc: "ps \<noteq> [] \<Longrightarrow> js_join ''.'' (ps @ [q]) = js_join ''.'' ps @ ''.'' @ q" for ps q
  proof (induction ps)
    case (Cons p ps)
    then show ?case by (cases "ps = []") (simp_all add: js_join_Cons)
  qed simp
  have split: "split_chr CHR ''.'' s = butlast (split_chr CHR ''.'' s) @ [last (split_chr CHR ''.'' s)]"
    by simp
  have "butlast (split_chr CHR ''.'' s) \<noteq> []"
  proof
    assume "butlast (split_chr CHR ''.'' s) = []"
    with split have "split_chr CHR ''.'' s = [last (split_chr CHR ''.'' s)]" by simp
    then have "s = last (split_chr CHR ''.'' s)" by (metis join_split js_join.simps(2))
    with dot show False
      by (metis split_chr_parts last_in_set split_chr_nonempty)
  qed
  from snoc [OF this, of "last (split_chr CHR ''.'' s)"] show ?thesis
    using a dot by (simp add: baseColumn_def flip: split) 
qed

text \<open>\<open>H op v x\<close>: the value \<open>x\<close> of a column satisfies the pushed condition \<open>op v\<close>.\<close>

definition filter_holds :: "(string \<Rightarrow> jsval \<Rightarrow> jsval \<Rightarrow> bool) \<Rightarrow> (string \<Rightarrow> jsval) \<Rightarrow> string \<Rightarrow> js_filter \<Rightarrow> bool" where
  "filter_holds H val a f \<longleftrightarrow>
     (\<forall>c cond op v. (c, cond) \<in> set f \<longrightarrow> (op, v) \<in> set (obj_of cond) \<longrightarrow> H op v (val (a @ ''.'' @ c)))"

definition filters_hold :: "(string \<Rightarrow> jsval \<Rightarrow> jsval \<Rightarrow> bool) \<Rightarrow> (string \<Rightarrow> jsval) \<Rightarrow> leg_filters \<Rightarrow> bool" where
  "filters_hold H val pf \<longleftrightarrow> (\<forall>a f. kv_get a pf = Some f \<longrightarrow> filter_holds H val a f)"

lemma filter_holds_Nil [simp]: "filter_holds H val a []"
  by (simp add: filter_holds_def)

lemma filters_hold_of: "filters_hold H val pf \<Longrightarrow> filter_holds H val a (filter_of pf a)"
  by (simp add: filters_hold_def filter_of_def split: option.splits)

lemma filters_hold_set: "filters_hold H val pf \<Longrightarrow> filter_holds H val a f \<Longrightarrow> filters_hold H val (kv_set a f pf)"
  by (simp add: filters_hold_def)

lemma filter_holds_cond:
  assumes "filter_holds H val a f" "H op v (val (a @ ''.'' @ col))"
  shows "filter_holds H val a (merge_cond col [(op, v)] f)"
proof -
  have "(c, cond) \<in> set (merge_cond col [(op, v)] f) \<Longrightarrow> (o', x) \<in> set (obj_of cond) \<Longrightarrow> H o' x (val (a @ ''.'' @ c))" for c cond o' x
    using assms kv_get_in [of col f]
    by (auto simp: merge_cond_def filter_holds_def dest!: kv_set_in split: option.splits)
  then show ?thesis unfolding filter_holds_def by blast
qed

lemma filter_holds_const:
  "filter_holds H val a f \<Longrightarrow> H ''$eq'' v (val (a @ ''.'' @ col)) \<Longrightarrow>
     filter_holds H val a (kv_set col (JObj [(''$eq'', v)]) f)"
  by (fastforce simp: filter_holds_def dest: kv_set_in)

text \<open>What the answer satisfies: the conjuncts the legs are given, and the equated columns.\<close>

definition where_holds :: "(string \<Rightarrow> jsval \<Rightarrow> jsval \<Rightarrow> bool) \<Rightarrow> (string \<Rightarrow> jsval) \<Rightarrow> string list \<Rightarrow> jsval list \<Rightarrow> bool" where
  "where_holds H val aliases ws \<longleftrightarrow>
     (\<forall>w a. w \<in> set ws \<longrightarrow> \<not> unpushable w \<longrightarrow> aliasOf (js_string (js_get ''column'' w)) = Some a \<longrightarrow> a \<in> set aliases \<longrightarrow>
        H (canon_op (raw_op w)) (js_get ''value'' w) (val (js_string (js_get ''column'' w))))"

definition on_holds :: "(string \<Rightarrow> jsval) \<Rightarrow> leg_meta list \<Rightarrow> bool" where
  "on_holds val lms \<longleftrightarrow> (\<forall>lm a b. lm \<in> set lms \<longrightarrow> equated lm = Some (a, b) \<longrightarrow> val a = val b)"

lemma attribute_where_holds:
  assumes "filters_hold H val pf" "where_holds H val aliases [w]"
  shows "filters_hold H val (attribute_where aliases pf w)"
proof -
  let ?path = "js_string (js_get ''column'' w)"
  have "H (canon_op (raw_op w)) (js_get ''value'' w) (val (a @ ''.'' @ baseColumn ?path))"
    if "\<not> unpushable w" "aliasOf ?path = Some a" "a \<in> set aliases" for a
    using assms(2) that aliasOf_path [OF that(2)] by (simp add: where_holds_def)
  with assms(1) show ?thesis
    by (auto simp: attribute_where_def Let_def intro!: filters_hold_set filter_holds_cond filters_hold_of split: option.splits)
qed

lemma attributed_holds:
  "filters_hold H val pf \<Longrightarrow> where_holds H val aliases ws \<Longrightarrow>
     filters_hold H val (foldl (attribute_where aliases) pf ws)"
proof (induction ws arbitrary: pf)
  case (Cons w ws)
  then have "where_holds H val aliases [w]" "where_holds H val aliases ws"
    by (auto simp: where_holds_def)
  with Cons attribute_where_holds show ?case by simp
qed simp

lemma uf_union_sound:
  assumes "uf_union a b p = Some q" "same_vals val p" "val a = val b"
  shows "same_vals val q"
proof -
  obtain ra q1 rb q2 where f: "uf_find a p = Some (ra, q1)" "uf_find b q1 = Some (rb, q2)" "q = kv_set ra rb q2"
    using assms(1) by (auto simp: uf_union_def split: Option.bind_splits)
  then show ?thesis
    using uf_find_sound [OF f(1), of val] uf_find_sound [OF f(2), of val] assms(2,3) by (simp add: same_vals_set)
qed

lemma unite_legs_sound: "unite_legs lms p = Some q \<Longrightarrow> same_vals val p \<Longrightarrow> on_holds val lms \<Longrightarrow> same_vals val q"
proof (induction lms arbitrary: p)
  case (Cons lm lms)
  then have "on_holds val lms" by (auto simp: on_holds_def)
  with Cons show ?case
    by (fastforce simp: on_holds_def dest: uf_union_sound split: option.splits prod.splits Option.bind_splits)
qed simp

definition consts_hold :: "(string \<Rightarrow> jsval \<Rightarrow> jsval \<Rightarrow> bool) \<Rightarrow> (string \<Rightarrow> jsval) \<Rightarrow> const_map \<Rightarrow> bool" where
  "consts_hold H val cc \<longleftrightarrow> (\<forall>n v. (n, v) \<in> set cc \<longrightarrow> H ''$eq'' v (val n))"

lemma kv_merge_in: "(k, v) \<in> set (kv_merge a b) \<Longrightarrow> (k, v) \<in> set a \<or> (k, v) \<in> set b"
proof (induction b arbitrary: a)
  case (Cons x b)
  obtain k' v' where x: "x = (k', v')" by force
  with Cons.prems have "(k, v) \<in> set (kv_merge (kv_set k' v' a) b)" by simp
  from Cons.IH [OF this] x show ?case by (auto dest: kv_set_in)
qed simp

lemma leg_consts_hold: "filter_holds H val a f \<Longrightarrow> consts_hold H val (leg_consts a f)"
  by (fastforce simp: leg_consts_def consts_hold_def filter_holds_def List.map_filter_def dest: kv_get_in)

lemma seed_consts_hold: "filters_hold H val pf \<Longrightarrow> consts_hold H val (seed_consts pf lms)"
  using leg_consts_hold filters_hold_of
  by (fastforce simp: seed_consts_def consts_hold_def dest!: kv_merge_in)

lemma class_consts_sound:
  "class_consts ns p cc = Some (q, cc') \<Longrightarrow> same_vals val p \<Longrightarrow> consts_hold H val ns \<Longrightarrow> consts_hold H val cc \<Longrightarrow>
     same_vals val q \<and> consts_hold H val cc'"
proof (induction ns arbitrary: p cc)
  case (Cons n ns)
  obtain node v where n: "n = (node, v)" by force
  with Cons.prems(1) obtain r p' where f: "uf_find node p = Some (r, p')"
      and rest: "class_consts ns p' (kv_set r v cc) = Some (q, cc')"
    by (auto split: Option.bind_splits)
  have "val r = val node" "same_vals val p'"
    using uf_find_sound [OF f, of val] Cons.prems(2) by simp_all
  moreover have "consts_hold H val (kv_set r v cc)"
    using Cons.prems(3,4) n calculation(1) by (auto simp: consts_hold_def dest: kv_set_in)
  ultimately show ?case
    using Cons.IH [OF rest] Cons.prems(3) by (simp add: consts_hold_def)
qed simp

lemma propagate_to_holds:
  assumes "filters_hold H val pf" "H ''$eq'' v (val node)"
  shows "filters_hold H val (propagate_to aliases node v pf)"
  using assms aliasOf_path [of node]
  by (auto simp: propagate_to_def Let_def intro!: filters_hold_set filter_holds_const filters_hold_of split: option.splits)

lemma propagate_sound:
  "propagate aliases ns cc p pf = Some pf' \<Longrightarrow> same_vals val p \<Longrightarrow> consts_hold H val cc \<Longrightarrow> filters_hold H val pf \<Longrightarrow>
     filters_hold H val pf'"
proof (induction ns arbitrary: p pf)
  case (Cons node ns)
  then obtain r q where f: "uf_find node p = Some (r, q)"
      and rest: "propagate aliases ns cc q (case kv_get r cc of Some v \<Rightarrow> propagate_to aliases node v pf | None \<Rightarrow> pf) = Some pf'"
    by (auto split: Option.bind_splits)
  have "val r = val node" "same_vals val q"
    using uf_find_sound [OF f, of val] Cons.prems(2) by simp_all
  moreover have "H ''$eq'' v (val node)" if "kv_get r cc = Some v" for v
    using Cons.prems(3) kv_get_in [OF that] calculation(1) unfolding consts_hold_def by metis
  then have "filters_hold H val (case kv_get r cc of Some v \<Rightarrow> propagate_to aliases node v pf | None \<Rightarrow> pf)"
    using Cons.prems(4) by (auto intro!: propagate_to_holds split: option.splits)
  ultimately show ?case using Cons.IH [OF rest] Cons.prems(3) by blast
qed simp

lemma leg_filters_sound:
  assumes build: "buildLegFilters lms ws = Some pf"
    and wh: "where_holds H val (map lm_alias lms) ws" and on: "on_holds val lms"
  shows "filters_hold H val pf"
proof -
  let ?aliases = "js_dedup (map lm_alias lms)"
  let ?pf = "foldl (attribute_where ?aliases) [] ws"
  obtain p q cc where p: "unite_legs lms [] = Some p" and c: "class_consts (seed_consts ?pf lms) p [] = Some (q, cc)"
      and r: "propagate ?aliases (map fst q) cc q ?pf = Some pf"
    using build by (auto simp: buildLegFilters_def Let_def split: Option.bind_splits)
  have pf: "filters_hold H val ?pf"
    by (rule attributed_holds) (use wh in \<open>simp_all add: filters_hold_def where_holds_def\<close>)
  have "same_vals val q \<and> consts_hold H val cc"
    by (rule class_consts_sound [OF c])
       (use unite_legs_sound [OF p _ on] seed_consts_hold [OF pf] in \<open>simp_all add: consts_hold_def\<close>)
  with propagate_sound [OF r] pf show ?thesis by blast
qed

section \<open>Every attributed conjunct leaves a condition\<close>

definition has_cond :: "leg_filters \<Rightarrow> string \<Rightarrow> string \<Rightarrow> bool" where
  "has_cond pf a col \<longleftrightarrow> (\<exists>op v. cond_of (filter_of pf a) col op = Some v)"

lemma filter_of_set [simp]: "filter_of (kv_set a f pf) b = (if b = a then f else filter_of pf b)"
  by (simp add: filter_of_def)

lemma has_cond_set: "has_cond (kv_set b f pf) a col = (if a = b then \<exists>op v. cond_of f col op = Some v else has_cond pf a col)"
  by (simp add: has_cond_def)

lemma has_cond_merge:
  "has_cond pf a col \<Longrightarrow> \<exists>op v. cond_of (merge_cond c [(o', x)] (filter_of pf a)) col op = Some v"
proof -
  assume "has_cond pf a col"
  then obtain op v where "cond_of (filter_of pf a) col op = Some v" by (auto simp: has_cond_def)
  then show ?thesis by (intro exI [of _ op]) (simp add: cond_of_merge)
qed

lemma attribute_keeps: "has_cond pf a col \<Longrightarrow> has_cond (attribute_where aliases pf w) a col"
  by (auto simp: attribute_where_def Let_def has_cond_set has_cond_merge split: option.split)

lemma attributed_keeps: "has_cond pf a col \<Longrightarrow> has_cond (foldl (attribute_where aliases) pf ws) a col"
  by (induction ws arbitrary: pf) (simp_all add: attribute_keeps)

lemma attribute_adds:
  assumes "\<not> unpushable w" "aliasOf (js_string (js_get ''column'' w)) = Some a" "a \<noteq> []" "a \<in> set aliases"
  shows "has_cond (attribute_where aliases pf w) a (baseColumn (js_string (js_get ''column'' w)))"
proof -
  let ?p = "js_string (js_get ''column'' w)"
  have "\<exists>op v. cond_of (merge_cond (baseColumn ?p) [(o', x)] f) (baseColumn ?p) op = Some v" for o' x f
    by (intro exI [of _ o'] exI [of _ x]) (simp add: cond_of_merge)
  with assms show ?thesis by (auto simp: attribute_where_def Let_def has_cond_set)
qed

lemma attributed_adds:
  assumes "w \<in> set ws" "\<not> unpushable w" "aliasOf (js_string (js_get ''column'' w)) = Some a" "a \<noteq> []" "a \<in> set aliases"
  shows "has_cond (foldl (attribute_where aliases) pf ws) a (baseColumn (js_string (js_get ''column'' w)))"
  using assms(1)
proof (induction ws arbitrary: pf)
  case (Cons x xs)
  show ?case
  proof (cases "w = x")
    case True
    with assms attribute_adds attributed_keeps show ?thesis by simp
  qed (use Cons in simp)
qed simp

lemma has_cond_const:
  "has_cond pf a col \<Longrightarrow> kv_get c (filter_of pf a) = None \<Longrightarrow>
     \<exists>op v. cond_of (kv_set c x (filter_of pf a)) col op = Some v"
proof -
  assume "has_cond pf a col" "kv_get c (filter_of pf a) = None"
  moreover from this obtain op v where "cond_of (filter_of pf a) col op = Some v"
    by (auto simp: has_cond_def)
  moreover from calculation have "c \<noteq> col" by (auto simp: cond_of_def)
  ultimately obtain op v where "cond_of (filter_of pf a) col op = Some v" "c \<noteq> col" by blast
  then show ?thesis by (intro exI [of _ op]) (simp add: cond_of_def)
qed

lemma propagate_to_keeps: "has_cond pf a col \<Longrightarrow> has_cond (propagate_to aliases node v pf) a col"
  by (auto simp: propagate_to_def Let_def has_cond_set has_cond_const has_cond_def split: option.split)

lemma propagate_keeps: "propagate aliases ns cc p pf = Some pf' \<Longrightarrow> has_cond pf a col \<Longrightarrow> has_cond pf' a col"
proof (induction ns arbitrary: p pf)
  case (Cons node ns)
  then obtain r q where
      rest: "propagate aliases ns cc q (case kv_get r cc of Some v \<Rightarrow> propagate_to aliases node v pf | None \<Rightarrow> pf) = Some pf'"
    by (auto split: Option.bind_splits)
  have "has_cond (case kv_get r cc of Some v \<Rightarrow> propagate_to aliases node v pf | None \<Rightarrow> pf) a col"
    using Cons.prems(2) by (simp add: propagate_to_keeps split: option.split)
  from Cons.IH [OF rest this] show ?case .
qed simp

lemma leg_filters_cover:
  assumes "buildLegFilters lms ws = Some pf" "w \<in> set ws" "\<not> unpushable w"
    "aliasOf (js_string (js_get ''column'' w)) = Some a" "a \<noteq> []" "a \<in> set (map lm_alias lms)"
  shows "has_cond pf a (baseColumn (js_string (js_get ''column'' w)))"
proof -
  let ?aliases = "js_dedup (map lm_alias lms)"
  let ?pf = "foldl (attribute_where ?aliases) [] ws"
  obtain q cc where r: "propagate ?aliases (map fst q) cc q ?pf = Some pf"
    using assms(1) by (auto simp: buildLegFilters_def Let_def split: Option.bind_splits)
  have "a \<in> set ?aliases" using assms(6) by simp
  from propagate_keeps [OF r attributed_adds [OF assms(2-5) this]] show ?thesis .
qed

section \<open>The filters are well formed\<close>

definition wf_legs :: "leg_filters \<Rightarrow> bool" where
  "wf_legs pf \<longleftrightarrow> (\<forall>a f. kv_get a pf = Some f \<longrightarrow> wf_filter f)"

lemma wf_legs_of: "wf_legs pf \<Longrightarrow> wf_filter (filter_of pf a)"
  by (simp add: wf_legs_def filter_of_def split: option.splits)

lemma wf_legs_set: "wf_legs pf \<Longrightarrow> wf_filter f \<Longrightarrow> wf_legs (kv_set a f pf)"
  by (simp add: wf_legs_def)

lemma wf_const: "wf_filter f \<Longrightarrow> wf_filter (kv_set col (JObj [(op, v)]) f)"
  by (auto simp: wf_filter_def kv_set_distinct dest!: kv_set_in)

lemma wf_attribute: "wf_legs pf \<Longrightarrow> wf_legs (attribute_where aliases pf w)"
  by (auto simp: attribute_where_def Let_def intro!: wf_legs_set wf_merge_cond wf_legs_of split: option.split)

lemma wf_attributed: "wf_legs pf \<Longrightarrow> wf_legs (foldl (attribute_where aliases) pf ws)"
  by (induction ws arbitrary: pf) (simp_all add: wf_attribute)

lemma wf_propagate_to: "wf_legs pf \<Longrightarrow> wf_legs (propagate_to aliases node v pf)"
  by (auto simp: propagate_to_def Let_def intro!: wf_legs_set wf_const wf_legs_of split: option.split)

lemma wf_propagate: "propagate aliases ns cc p pf = Some pf' \<Longrightarrow> wf_legs pf \<Longrightarrow> wf_legs pf'"
proof (induction ns arbitrary: p pf)
  case (Cons node ns)
  then obtain r q where
      rest: "propagate aliases ns cc q (case kv_get r cc of Some v \<Rightarrow> propagate_to aliases node v pf | None \<Rightarrow> pf) = Some pf'"
    by (auto split: Option.bind_splits)
  have "wf_legs (case kv_get r cc of Some v \<Rightarrow> propagate_to aliases node v pf | None \<Rightarrow> pf)"
    using Cons.prems(2) by (simp add: wf_propagate_to split: option.split)
  from Cons.IH [OF rest this] show ?case .
qed simp

lemma leg_filters_wf:
  assumes "buildLegFilters lms ws = Some pf"
  shows "wf_filter (filter_of pf a)"
proof -
  let ?aliases = "js_dedup (map lm_alias lms)"
  obtain q cc where "propagate ?aliases (map fst q) cc q (foldl (attribute_where ?aliases) [] ws) = Some pf"
    using assms by (auto simp: buildLegFilters_def Let_def split: Option.bind_splits)
  moreover have "wf_legs []" by (simp add: wf_legs_def)
  ultimately show ?thesis using wf_propagate wf_attributed wf_legs_of by blast
qed

end
