(* ===== verification/FedJoin.thy ===== *)
theory FedJoin
  imports FedFilters
begin

text \<open>
  \<open>FederationExecutor.executeJoin\<close> and \<open>joinChunk\<close>: the cross-source join. The driving leg is
  streamed in windows; for each window every other leg is asked only for the rows whose join
  column is among the keys of the window (a bind join), in batches, and is joined in memory;
  the WHERE is applied again at the end. Before that the order of the legs may be changed from
  cardinality estimates, and two small legs are fetched whole and hash-joined instead.

  The accesses to the sources (\<open>fetchLegDirect\<close>, \<open>fetchLegStream\<close>, \<open>estimateLegRows\<close>, see
  \<open>FedFetch\<close>) are fields of the environment, as are the limits and the regular expression
  engine. The texts of warnings and of the pushed-work log are not modelled. A loop that does
  not end and a property access on a missing \<open>on\<close> are error values.
\<close>

section \<open>The environment\<close>

record fed_env =
  fe_fetch :: "leg_meta \<Rightarrow> js_filter \<Rightarrow> string list \<Rightarrow> fed_row list res"
  fe_stream :: "leg_meta \<Rightarrow> js_filter \<Rightarrow> fed_row list res"
  fe_estimate :: "leg_meta \<Rightarrow> js_filter \<Rightarrow> rat option"
  fe_rx :: regex_engine
  fe_cap :: nat
  fe_bindMax :: nat
  fe_broadcast :: nat
  fe_probe :: bool

definition never_returns :: js_err where
  "never_returns = Err 0 ''DOES_NOT_RETURN''"

definition type_error :: js_err where
  "type_error = Err 0 ''TypeError''"

definition window_size :: nat where
  "window_size = 1000"

section \<open>One window\<close>

definition bind_keys :: "fed_row list \<Rightarrow> on_clause \<Rightarrow> jsval list" where
  "bind_keys acc on = js_dedup (filter (\<lambda>v. \<not> nullish v) (map (\<lambda>r. readColumn r (on_left on)) acc))"

definition bind_filter :: "string \<Rightarrow> jsval list \<Rightarrow> js_filter \<Rightarrow> js_filter" where
  "bind_filter col keys f = kv_set col (JObj [(''$in'', JArr keys)]) f"

definition fetch_right ::
  "fed_env \<Rightarrow> leg_filters \<Rightarrow> needs option \<Rightarrow> fed_row list \<Rightarrow> leg_meta \<Rightarrow> on_clause \<Rightarrow> fed_row list res" where
  "fetch_right env pf proj acc lm on =
     (let f = filter_of pf (lm_alias lm); cols = selectFor proj (lm_alias lm);
          canBind = is_equi (on_op on) \<and> lm_type lm \<in> Some ` {''INNER'', ''LEFT'', ''RIGHT'', ''FULL''};
          keys = bind_keys acc on
      in if canBind then
           (if keys = [] then Inr []
            else (case (if length keys \<le> fe_bindMax env then Some [keys] else chunk keys (fe_bindMax env)) of
                None \<Rightarrow> Inl never_returns
              | Some batches \<Rightarrow>
                  mapR (\<lambda>parts. qualify (lm_alias lm) (concat parts))
                    (mapMR (\<lambda>ks. fe_fetch env lm (bind_filter (baseColumn (on_right on)) ks f) cols) batches)))
         else mapR (qualify (lm_alias lm)) (fe_fetch env lm f cols))"

fun join_legs :: "fed_env \<Rightarrow> leg_filters \<Rightarrow> needs option \<Rightarrow> leg_meta list \<Rightarrow> fed_row list \<Rightarrow> fed_row list res" where
  "join_legs env pf proj [] acc = Inr acc"
| "join_legs env pf proj (lm # lms) acc =
     (case lm_on lm of
        None \<Rightarrow> Inl type_error
      | Some on \<Rightarrow>
          bindR (fetch_right env pf proj acc lm on) (\<lambda>right.
            join_legs env pf proj lms (mergeJoin acc right on (lm_type lm = Some ''LEFT'') (is_equi (on_op on)))))"

definition joinChunk ::
  "fed_env \<Rightarrow> leg_filters \<Rightarrow> needs option \<Rightarrow> string \<Rightarrow> leg_meta list \<Rightarrow> fed_row list \<Rightarrow> fed_row list res" where
  "joinChunk env pf proj drivingAlias lms drivingRows = join_legs env pf proj lms (qualify drivingAlias drivingRows)"

text \<open>
  The loop over the driving stream: a full window is joined and ends the loop when the output
  has reached the cap; the rest is joined if it has not, and cut at the cap.
\<close>

function join_windows :: "(fed_row list \<Rightarrow> fed_row list res) \<Rightarrow> nat \<Rightarrow> fed_row list \<Rightarrow> fed_row list \<Rightarrow> fed_row list res" where
  "join_windows J cap rows acc =
     (if length rows \<ge> window_size then
        bindR (J (take window_size rows)) (\<lambda>j.
          if length (acc @ j) \<ge> cap then Inr (acc @ j) else join_windows J cap (drop window_size rows) (acc @ j))
      else if rows \<noteq> [] \<and> length acc < cap then mapR (\<lambda>j. take cap (acc @ j)) (J rows)
      else Inr acc)"
  by pat_completeness auto
termination
  by (relation "measure (\<lambda>(J, cap, rows, acc). length rows)") (auto simp: window_size_def)

declare join_windows.simps [simp del]

section \<open>The order of the legs\<close>

definition inner_equi :: "leg_meta \<Rightarrow> bool" where
  "inner_equi lm \<longleftrightarrow> lm_type lm = Some ''INNER'' \<and> is_equi (case lm_on lm of Some on \<Rightarrow> on_op on | None \<Rightarrow> [])"

definition two_leg :: "leg_meta list \<Rightarrow> bool" where
  "two_leg lms \<longleftrightarrow> length lms = 2 \<and> inner_equi (lms ! 1)"

definition multi_leg :: "leg_meta list \<Rightarrow> bool" where
  "multi_leg lms \<longleftrightarrow> length lms > 2 \<and> list_all inner_equi (tl lms)"

definition leg_card :: "fed_env \<Rightarrow> leg_filters \<Rightarrow> leg_meta list \<Rightarrow> leg_meta \<Rightarrow> rat option" where
  "leg_card env pf lms lm =
     (if fe_probe env \<and> (two_leg lms \<or> multi_leg lms) then fe_estimate env lm (filter_of pf (lm_alias lm)) else None)"

text \<open>The first leg with the least known estimate: an unknown one counts as infinite.\<close>

fun best_leg :: "(leg_meta \<Rightarrow> rat option) \<Rightarrow> leg_meta list \<Rightarrow> nat \<Rightarrow> nat \<Rightarrow> rat option \<Rightarrow> nat" where
  "best_leg est [] i best least = best"
| "best_leg est (lm # lms) i best least =
     (case est lm of
        Some c \<Rightarrow>
          if (case least of Some m \<Rightarrow> c < m | None \<Rightarrow> True) then best_leg est lms (Suc i) i (Some c)
          else best_leg est lms (Suc i) best least
      | None \<Rightarrow> best_leg est lms (Suc i) best least)"

definition turn_on :: "on_clause \<Rightarrow> on_clause" where
  "turn_on on = \<lparr>on_left = on_right on, on_op = on_op on, on_right = on_left on\<rparr>"

text \<open>The chosen leg drives; the former first leg takes its place, with the clause turned.\<close>

definition drive_from :: "nat \<Rightarrow> leg_meta list \<Rightarrow> leg_meta list res" where
  "drive_from i lms =
     (case lm_on (lms ! i) of
        None \<Rightarrow> Inl type_error
      | Some on \<Rightarrow>
          Inr (lms[0 := (lms ! i)\<lparr>lm_type := None, lm_on := None\<rparr>,
                   i := (lms ! 0)\<lparr>lm_type := Some ''INNER'', lm_on := Some (turn_on on)\<rparr>]))"

definition order_legs :: "fed_env \<Rightarrow> leg_filters \<Rightarrow> leg_meta list \<Rightarrow> leg_meta list res" where
  "order_legs env pf lms =
     (let est = leg_card env pf lms in
      if two_leg lms then
        (case (est (lms ! 0), est (lms ! 1)) of
           (Some cl, Some cr) \<Rightarrow> if cr < cl then drive_from 1 lms else Inr lms
         | _ \<Rightarrow> Inr lms)
      else if multi_leg lms then
        (let best = best_leg est lms 0 0 (est (lms ! 0)) in if best \<noteq> 0 then drive_from best lms else Inr lms)
      else Inr lms)"

section \<open>The join\<close>

definition LOCAL_SOURCE :: string where
  "LOCAL_SOURCE = ''Fabric_Hub_Postgres''"

definition on_of :: "jsval \<Rightarrow> on_clause option" where
  "on_of v =
     (if truthy v then
        Some \<lparr>on_left = js_string (js_get ''left'' v), on_op = js_string (or_val (js_get ''operator'' v) (JStr [])),
              on_right = js_string (js_get ''right'' v)\<rparr>
      else None)"

definition leg_of :: "jsval \<Rightarrow> string option \<Rightarrow> on_clause option \<Rightarrow> leg_meta" where
  "leg_of v ty on =
     \<lparr>lm_alias = js_string (or_val (js_get ''alias'' v) (js_get ''resource'' v)),
      lm_source = js_string (or_val (js_get ''source'' v) (JStr LOCAL_SOURCE)),
      lm_resource = js_string (js_get ''resource'' v), lm_type = ty, lm_on = on\<rparr>"

definition join_kind_of :: "jsval \<Rightarrow> string" where
  "join_kind_of j = js_upper (js_string (or_val (js_get ''type'' j) (JStr ''INNER'')))"

definition join_metas :: "jsval \<Rightarrow> leg_meta list" where
  "join_metas ast =
     leg_of (js_get ''from'' ast) None None
     # map (\<lambda>j. leg_of j (Some (join_kind_of j)) (on_of (js_get ''on'' j))) (arr_of (js_get ''joins'' ast))"

definition broadcast_ok :: "fed_env \<Rightarrow> leg_filters \<Rightarrow> leg_meta list \<Rightarrow> leg_meta list \<Rightarrow> bool" where
  "broadcast_ok env pf lms0 lms \<longleftrightarrow> two_leg lms0 \<and>
     list_all (\<lambda>lm. case leg_card env pf lms0 lm of Some c \<Rightarrow> c \<le> of_nat (fe_broadcast env) | None \<Rightarrow> False) lms"

definition broadcast_join :: "fed_env \<Rightarrow> leg_filters \<Rightarrow> needs option \<Rightarrow> leg_meta list \<Rightarrow> fed_row list res" where
  "broadcast_join env pf proj lms =
     (let a0 = lms ! 0; a1 = lms ! 1; get = (\<lambda>lm. fe_fetch env lm (filter_of pf (lm_alias lm)) (selectFor proj (lm_alias lm)))
      in bindR (get a0) (\<lambda>r0. bindR (get a1) (\<lambda>r1.
           (case lm_on a1 of
              None \<Rightarrow> Inl type_error
            | Some on \<Rightarrow> Inr (mergeJoin (qualify (lm_alias a0) r0) (qualify (lm_alias a1) r1) on False True)))))"

definition windowed_join :: "fed_env \<Rightarrow> leg_filters \<Rightarrow> needs option \<Rightarrow> leg_meta list \<Rightarrow> fed_row list res" where
  "windowed_join env pf proj lms =
     (let driving = hd lms in
      bindR (fe_stream env driving (filter_of pf (lm_alias driving))) (\<lambda>rows.
        join_windows (joinChunk env pf proj (lm_alias driving) (tl lms)) (fe_cap env) rows []))"

definition executeJoin :: "fed_env \<Rightarrow> jsval \<Rightarrow> fed_row list res" where
  "executeJoin env ast =
     (let lms0 = join_metas ast; ws = arr_of (js_get ''where'' ast) in
      case buildLegFilters lms0 ws of
        None \<Rightarrow> Inl never_returns
      | Some pf \<Rightarrow>
          bindR (order_legs env pf lms0) (\<lambda>lms.
            let proj = joinLegProjections ast lms in
            bindR (if broadcast_ok env pf lms0 lms then broadcast_join env pf proj lms else windowed_join env pf proj lms)
              (\<lambda>acc. applyWhere (fe_rx env) acc ws)))"

section \<open>The hash join is the nested loop\<close>

lemma index_get_spec:
  "index_get (build_index k right) v = (if is_ref v then [] else filter (\<lambda>r. col_val r k = v) right)"
proof -
  have fold: "foldl (\<lambda>b r. b @ [r]) acc rs = acc @ rs" for acc rs :: "fed_row list"
    by (induction rs arbitrary: acc) auto
  have "fold_group (\<lambda>_. []) (\<lambda>b r. b @ [r]) rs = (if rs = [] then None else Some rs)" for rs :: "fed_row list"
    by (cases rs) (simp_all add: fold_group_def fold)
  then show ?thesis
    by (simp add: index_get_def build_index_def map_of_group_rows)
qed

definition key_match :: "on_clause \<Rightarrow> bool \<Rightarrow> fed_row \<Rightarrow> fed_row \<Rightarrow> bool" where
  "key_match on isEquiJoin l r =
     (let a = col_val l (on_left on); b = col_val r (on_right on)
      in if isEquiJoin then a = b \<and> \<not> is_ref a else evalOn a (on_op on) b)"

lemma mergeJoin_matches:
  "mergeJoin left right on keep isEquiJoin =
     concat (map (\<lambda>l. let ms = filter (key_match on isEquiJoin l) right in
       if ms = [] then (if keep then [l] else []) else map (kv_merge l) ms) left)"
proof -
  have "(if isEquiJoin then index_get (build_index (on_right on) right) (col_val l (on_left on))
         else filter (\<lambda>r. evalOn (col_val l (on_left on)) (on_op on) (col_val r (on_right on))) right)
        = filter (key_match on isEquiJoin l) right" for l
    by (auto simp: index_get_spec key_match_def Let_def filter_empty_conv intro!: filter_cong)
  then show ?thesis by (simp only: mergeJoin_def Let_def)
qed

end
