(* ===== verification/FedJoinSql.thy ===== *)
theory FedJoinSql
  imports FedJoinExact
begin

text \<open>
  From the chain of bind joins to the SQL join: the rows the pushed filters hold back are
  rows that no answer contains, and the rows the WHERE keeps in memory are those it keeps in SQL.
\<close>

section \<open>The chain as a product\<close>

fun chain_on :: "fed_row \<Rightarrow> leg_meta list \<Rightarrow> fed_row list \<Rightarrow> bool" where
  "chain_on l (lm # lms) (t # ts) =
     (sql_eq (col_val l (on_left (the (lm_on lm)))) (col_val t (on_right (the (lm_on lm)))) \<and> chain_on (kv_merge l t) lms ts)"
| "chain_on l _ _ = True"

lemma concat_filter_map: "concat (map F (filter P xs)) = concat (map (\<lambda>x. if P x then F x else []) xs)"
  by (induction xs) simp_all

lemma filter_product_Cons:
  "filter (chain_on l (lm # lms)) (product_lists (rows # rest)) =
     concat (map (\<lambda>x. map (Cons x) (filter (chain_on (kv_merge l x) lms) (product_lists rest)))
       (filter (\<lambda>x. sql_eq (col_val l (on_left (the (lm_on lm)))) (col_val x (on_right (the (lm_on lm))))) rows))"
  by (induction rows) (auto simp: filter_map o_def)

lemma ref_chain_product:
  "ref_chain T pf proj lms acc =
     concat (map (\<lambda>l. map (foldl kv_merge l)
       (filter (chain_on l lms) (product_lists (map (\<lambda>lm. kept_rows T pf proj lm (join_col lm)) lms)))) acc)"
proof (induction lms arbitrary: acc)
  case Nil
  then show ?case by (induction acc) simp_all
next
  case (Cons lm lms)
  let ?rest = "product_lists (map (\<lambda>lm. kept_rows T pf proj lm (join_col lm)) lms)"
  let ?rows = "kept_rows T pf proj lm (join_col lm)"
  let ?F = "\<lambda>l. map (foldl kv_merge l) (filter (chain_on l lms) ?rest)"
  have flat: "concat (map ?F (concat (map (\<lambda>l. map (kv_merge l) (A l)) acc))) =
      concat (map (\<lambda>l. concat (map (\<lambda>x. ?F (kv_merge l x)) (A l))) acc)" for A
    by (induction acc) (simp_all add: o_def)
  have "map (foldl kv_merge l) (filter (chain_on l (lm # lms)) (product_lists (?rows # map (\<lambda>lm. kept_rows T pf proj lm (join_col lm)) lms)))
      = concat (map (\<lambda>x. ?F (kv_merge l x))
          (filter (\<lambda>x. sql_eq (col_val l (on_left (the (lm_on lm)))) (col_val x (on_right (the (lm_on lm))))) ?rows))" for l
    unfolding filter_product_Cons by (simp add: map_concat o_def)
  with Cons.IH flat show ?case by (simp only: ref_chain.simps join_step_def list.map)
qed

section \<open>Reading a merged row\<close>

definition row_keys :: "string set \<Rightarrow> fed_row \<Rightarrow> bool" where
  "row_keys S l \<longleftrightarrow> (\<forall>k. kv_get k l \<noteq> None \<longrightarrow> (\<exists>a c. a \<in> S \<and> dot_free a \<and> k = a @ ''.'' @ c))"

definition owned :: "string \<Rightarrow> fed_row \<Rightarrow> bool" where
  "owned a t \<longleftrightarrow> row_keys {a} t \<and> distinct (map fst t)"

lemma kv_get_merge_owned: "owned a t \<Longrightarrow> kv_get k (kv_merge l t) = (case kv_get k t of Some v \<Rightarrow> Some v | None \<Rightarrow> kv_get k l)"
  by (simp add: owned_def kv_get_merge)

lemma row_keys_merge: "row_keys S l \<Longrightarrow> owned a t \<Longrightarrow> row_keys (insert a S) (kv_merge l t)"
proof -
  assume l: "row_keys S l" and t: "owned a t"
  have "\<exists>b c. b \<in> insert a S \<and> dot_free b \<and> k = b @ ''.'' @ c" if "kv_get k (kv_merge l t) \<noteq> None" for k
  proof (cases "kv_get k t")
    case None
    then have "kv_get k l \<noteq> None" using that kv_get_merge_owned [OF t, of k l] by simp
    with l show ?thesis unfolding row_keys_def by blast
  next
    case (Some v)
    then have "kv_get k t \<noteq> None" by simp
    with t show ?thesis unfolding row_keys_def owned_def by blast
  qed
  then show ?thesis unfolding row_keys_def by blast
qed

lemma row_keys_none:
  assumes "row_keys S l" "dot_free a" "a \<notin> S"
  shows "kv_get (a @ CHR ''.'' # c) l = None"
proof (rule ccontr)
  assume "kv_get (a @ CHR ''.'' # c) l \<noteq> None"
  then obtain b d where "b \<in> S" "dot_free b" "a @ CHR ''.'' # c = b @ CHR ''.'' # d"
    using assms(1) unfolding row_keys_def by auto
  with path_inj [OF assms(2)] assms(3) show False by blast
qed

lemma merged_other:
  assumes "list_all2 (\<lambda>lm t. owned (lm_alias lm) t) lms ts" "dot_free a" "a \<notin> lm_alias ` set lms"
  shows "col_val (foldl kv_merge l ts) (a @ CHR ''.'' # c) = col_val l (a @ CHR ''.'' # c)"
  using assms
proof (induction lms ts arbitrary: l rule: list_all2_induct)
  case (Cons lm lms t ts)
  have "kv_get (a @ CHR ''.'' # c) t = None"
    using Cons.hyps Cons.prems by (intro row_keys_none [of "{lm_alias lm}"]) (auto simp: owned_def)
  then have "col_val (kv_merge l t) (a @ CHR ''.'' # c) = col_val l (a @ CHR ''.'' # c)"
    using Cons.hyps by (simp add: col_val_def kv_get_merge_owned)
  with Cons show ?case by simp
qed simp

lemma join_chain_facts:
  "join_chain earlier lms \<Longrightarrow> lm \<in> set lms \<Longrightarrow>
     dot_free (lm_alias lm) \<and> lm_alias lm \<notin> set earlier \<and> lm_type lm = Some ''INNER''
     \<and> (\<exists>on a c rc. lm_on lm = Some on \<and> is_equi (on_op on) \<and> path_of (on_left on) = Some (a, c)
          \<and> path_of (on_right on) = Some (lm_alias lm, rc))"
proof (induction earlier lms rule: join_chain.induct)
  case (2 earlier x lms)
  then show ?case by (fastforce split: option.splits prod.splits)
qed simp

text \<open>Whatever is read through an alias comes from the row of that leg, and the chain's ON clauses hold of the result.\<close>

lemma merged_own:
  assumes "list_all2 (\<lambda>lm t. owned (lm_alias lm) t) lms ts" "join_chain earlier lms" "row_keys (set earlier) l"
    "(lm, t) \<in> set (zip lms ts)"
  shows "col_val (foldl kv_merge l ts) (lm_alias lm @ CHR ''.'' # c) = col_val t (lm_alias lm @ CHR ''.'' # c)"
  using assms
proof (induction lms ts arbitrary: l earlier rule: list_all2_induct)
  case (Cons x lms s ts)
  note chain = Cons.prems(1)
  have keys: "row_keys (set (lm_alias x # earlier)) (kv_merge l s)"
    using row_keys_merge [OF Cons.prems(2) Cons.hyps(1)] by simp
  show ?case
  proof (cases "(lm, t) = (x, s)")
    case True
    have "lm_alias x \<notin> lm_alias ` set lms"
      using chain join_chain_facts [of "lm_alias x # earlier" lms] by fastforce
    then have "col_val (foldl kv_merge (kv_merge l s) ts) (lm_alias x @ CHR ''.'' # c) = col_val (kv_merge l s) (lm_alias x @ CHR ''.'' # c)"
      using chain Cons.hyps(2) by (intro merged_other [of lms]) auto
    moreover have "kv_get (lm_alias x @ CHR ''.'' # c) l = None"
      using chain Cons.prems(2) by (intro row_keys_none [of "set earlier"]) auto
    ultimately show ?thesis
      using True Cons.hyps(1) by (simp add: col_val_def kv_get_merge_owned split: option.splits)
  next
    case False
    with Cons.prems(3) have "(lm, t) \<in> set (zip lms ts)" by auto
    moreover have "join_chain (lm_alias x # earlier) lms" using chain by simp
    ultimately show ?thesis unfolding foldl_Cons using Cons.IH keys by blast
  qed
qed simp

lemma chain_on_sql:
  assumes "list_all2 (\<lambda>lm t. owned (lm_alias lm) t) lms ts" "join_chain earlier lms" "row_keys (set earlier) l"
  shows "chain_on l lms ts \<longleftrightarrow> sql_on lms (foldl kv_merge l ts)"
  using assms
proof (induction lms ts arbitrary: l earlier rule: list_all2_induct)
  case (Cons x lms s ts)
  note chain = Cons.prems(1)
  obtain on a c rc where on: "lm_on x = Some on" "path_of (on_left on) = Some (a, c)" "path_of (on_right on) = Some (lm_alias x, rc)"
      and a: "a \<in> set earlier"
    using chain by (auto split: option.splits prod.splits)
  have all2: "list_all2 (\<lambda>lm t. owned (lm_alias lm) t) (x # lms) (s # ts)"
    using Cons.hyps by simp
  have later: "a \<notin> lm_alias ` set (x # lms)"
    using join_chain_facts [OF chain] a by fastforce
  have left: "col_val (foldl kv_merge l (s # ts)) (on_left on) = col_val l (on_left on)"
    using merged_other [OF all2 _ later] on(2) by (auto simp: path_of_iff)
  have right: "col_val (foldl kv_merge l (s # ts)) (on_right on) = col_val s (on_right on)"
    using merged_own [OF all2 chain Cons.prems(2), of x s] on(3) by (auto simp: path_of_iff)
  have "chain_on (kv_merge l s) lms ts \<longleftrightarrow> sql_on lms (foldl kv_merge (kv_merge l s) ts)"
    using chain row_keys_merge [OF Cons.prems(2) Cons.hyps(1)] by (intro Cons.IH) auto
  with left right on(1) show ?case by (simp add: sql_on_def)
qed (simp add: sql_on_def)

section \<open>The conditions of the pushed filters\<close>

definition leg_passes :: "string \<Rightarrow> js_filter \<Rightarrow> fed_row \<Rightarrow> bool" where
  "leg_passes a f t =
     list_all (\<lambda>(c, cond). list_all (\<lambda>(op, v). sql_test op v (col_val t (a @ CHR ''.'' # c))) (obj_of cond)) f"

definition cols_ok :: "needs option \<Rightarrow> string \<Rightarrow> js_filter \<Rightarrow> bool" where
  "cols_ok proj a f \<longleftrightarrow> (\<forall>c cond op v. (c, cond) \<in> set f \<longrightarrow> (op, v) \<in> set (obj_of cond) \<longrightarrow>
     selectFor proj a = [] \<or> c \<in> set (selectFor proj a))"

lemma leg_passes_iff:
  "leg_passes a f t \<longleftrightarrow> (\<forall>c cond op v. (c, cond) \<in> set f \<longrightarrow> (op, v) \<in> set (obj_of cond) \<longrightarrow> sql_test op v (col_val t (a @ CHR ''.'' # c)))"
  by (force simp: leg_passes_def list_all_iff)

lemma src_sat_iff:
  "src_sat f r \<longleftrightarrow> (\<forall>c cond op v. (c, cond) \<in> set f \<longrightarrow> (op, v) \<in> set (obj_of cond) \<longrightarrow> sql_test op v (col_val r c))"
  by (force simp: src_sat_def list_all_iff)

lemma set_kv_del: "(c, x) \<in> set (kv_del k f) \<longleftrightarrow> (c, x) \<in> set f \<and> c \<noteq> k"
  by (auto simp: kv_del_def)

lemma qualify_map: "qualify a rows = map (qualify_row a) rows"
  by (simp add: qualify_def)

lemma kept_rows_filter:
  assumes "cols_ok proj (lm_alias lm) (filter_of pf (lm_alias lm))"
  shows "kept_rows T pf proj lm col =
    filter (leg_passes (lm_alias lm) (kv_del col (filter_of pf (lm_alias lm)))) (leg_rows T proj lm)"
proof -
  let ?f = "kv_del col (filter_of pf (lm_alias lm))" and ?cols = "selectFor proj (lm_alias lm)"
  have "src_sat ?f r \<longleftrightarrow> leg_passes (lm_alias lm) ?f (qualify_row (lm_alias lm) (pick ?cols r))" for r
  proof -
    have "col_val (qualify_row (lm_alias lm) (pick ?cols r)) (lm_alias lm @ CHR ''.'' # c) = col_val r c"
      if "(c, cond) \<in> set ?f" "(op, v) \<in> set (obj_of cond)" for c cond op v
      using assms that unfolding col_val_qualify cols_ok_def set_kv_del by (intro col_val_pick) blast
    then show ?thesis unfolding src_sat_iff leg_passes_iff by metis
  qed
  then have "src_sat ?f = (\<lambda>r. leg_passes (lm_alias lm) ?f (qualify_row (lm_alias lm) (pick ?cols r)))" by blast
  then show ?thesis
    by (simp add: kept_rows_def leg_rows_def qualify_map filter_map o_def)
qed

lemma driving_filter:
  "qualify a (filter (src_sat f) rows) = filter (leg_passes a f) (qualify a rows)"
proof -
  have "src_sat f r \<longleftrightarrow> leg_passes a f (qualify_row a r)" for r
    unfolding src_sat_iff leg_passes_iff col_val_qualify ..
  then have "src_sat f = (\<lambda>r. leg_passes a f (qualify_row a r))" by blast
  then show ?thesis by (simp add: qualify_map filter_map o_def)
qed

lemma product_filter:
  "product_lists (map (\<lambda>lm. filter (P lm) (R lm)) lms) = filter (list_all2 P lms) (product_lists (map R lms))"
proof (induction lms)
  case (Cons lm lms)
  have "filter (list_all2 P (lm # lms)) (concat (map (\<lambda>x. map (Cons x) xss) rows)) =
      concat (map (\<lambda>x. map (Cons x) (filter (list_all2 P lms) xss)) (filter (P lm) rows))" for rows xss
    by (induction rows) (auto simp: filter_map o_def)
  with Cons show ?case by simp
qed simp

text \<open>The filters are basic, and on requested columns when the paths of the query are.\<close>

definition covered :: "needs option \<Rightarrow> string \<Rightarrow> bool" where
  "covered proj s =
     (let a = takeWhile (\<lambda>c. c \<noteq> CHR ''.'') s
      in selectFor proj a = [] \<or> drop (length a + 1) s \<in> set (selectFor proj a))"

lemma covered_path: "dot_free a \<Longrightarrow> covered proj (a @ CHR ''.'' # c) \<longleftrightarrow> selectFor proj a = [] \<or> c \<in> set (selectFor proj a)"
  by (simp add: covered_def takeWhile_alias)

lemma good_where_path:
  assumes "good_where aliases w"
  obtains a c where "js_string (js_get ''column'' w) = a @ CHR ''.'' # c" "dot_free a" "dot_free c" "a \<in> set aliases"
    "aliasOf (js_string (js_get ''column'' w)) = Some a" "baseColumn (js_string (js_get ''column'' w)) = c"
  using assms that
  by (auto simp: good_where_def path_of_iff path_aliasOf path_baseColumn split: option.splits)

lemma canon_basic: "op \<in> set where_ops \<Longrightarrow> canon_op op \<in> set basic_ops"
proof -
  have "list_all (\<lambda>op. List.member basic_ops (canon_op op)) where_ops" by code_simp
  then show "op \<in> set where_ops \<Longrightarrow> ?thesis" by (simp add: list_all_iff)
qed

lemma pf_basic:
  assumes "buildLegFilters lms ws = Some pf" "list_all (good_where aliases) ws"
  shows "basic_filter (filter_of pf a)"
proof -
  let ?H = "\<lambda>op v x. op \<in> set basic_ops \<and> \<not> nullish v"
  have "filters_hold ?H (\<lambda>_. JUndef) pf"
    by (rule leg_filters_sound [OF assms(1)])
       (use assms(2) canon_basic in \<open>auto simp: where_holds_def on_holds_def good_where_def list_all_iff\<close>)
  from filters_hold_of [OF this, of a] show ?thesis
    by (fastforce simp: filter_holds_def basic_filter_def list_all_iff)
qed

lemma pf_cols:
  assumes "buildLegFilters lms ws = Some pf" "list_all (\<lambda>w. covered proj (js_string (js_get ''column'' w))) ws"
    and "\<And>lm p q. lm \<in> set lms \<Longrightarrow> equated lm = Some (p, q) \<Longrightarrow> covered proj p \<and> covered proj q" and a: "dot_free a"
  shows "cols_ok proj a (filter_of pf a)"
proof -
  have "filters_hold (\<lambda>op v x. x = JBool True) (\<lambda>s. JBool (covered proj s)) pf"
    by (rule leg_filters_sound [OF assms(1)])
       (use assms(2,3) in \<open>auto simp: where_holds_def on_holds_def list_all_iff\<close>)
  from filters_hold_of [OF this, of a] show ?thesis
    by (fastforce simp: filter_holds_def cols_ok_def covered_path [OF a])
qed

section \<open>The WHERE in memory and in SQL\<close>

definition mem_test :: "jsval \<Rightarrow> fed_row \<Rightarrow> bool" where
  "mem_test w row =
     (let actual = col_val row (js_string (js_get ''column'' w)); expected = js_get ''value'' w; op = raw_op w
      in case compare_by op actual expected of
           Some b \<Rightarrow> b
         | None \<Rightarrow> if op = ''IN'' then is_arr expected \<and> actual \<in> set (arr_of expected) \<and> \<not> is_ref actual
                   else loose_eq actual expected)"

lemma sql_test_nonnull: "sql_test op v x \<Longrightarrow> op \<in> set basic_ops \<Longrightarrow> \<not> nullish v \<Longrightarrow> \<not> nullish x"
  by (auto simp: sql_test_def split: if_splits)

lemma sql_test_mem:
  assumes "good_where aliases w"
  shows "sql_test (canon_op (raw_op w)) (js_get ''value'' w) (col_val row (js_string (js_get ''column'' w))) \<longleftrightarrow>
    \<not> nullish (col_val row (js_string (js_get ''column'' w))) \<and> mem_test w row"
proof -
  have "raw_op w \<in> set where_ops" "\<not> nullish (js_get ''value'' w)" using assms by (auto simp: good_where_def)
  then show ?thesis
    by (auto simp: where_ops_def sql_test_def mem_test_def Let_def compare_by_def canon_op_def AST_OP_TO_CANONICAL_def)
qed

lemma readColumn_path:
  assumes "row_keys S row" "dot_free c" "dot_free a"
  shows "readColumn row (a @ CHR ''.'' # c) = col_val row (a @ CHR ''.'' # c)"
proof -
  have "kv_get c row = None"
  proof (rule ccontr)
    assume "kv_get c row \<noteq> None"
    then obtain b d where "c = b @ CHR ''.'' # d" using assms(1) unfolding row_keys_def by auto
    with assms(2) show False by (simp add: dot_free_def)
  qed
  then show ?thesis
    using assms(2,3) by (simp add: readColumn_def col_val_def path_baseColumn split: option.splits)
qed

lemma where_all_mem:
  assumes "list_all (good_where aliases) ws" "row_keys S row"
  shows "where_all rx row ws = Inr (list_all (\<lambda>w. mem_test w row) ws)"
  using assms(1)
proof (induction ws)
  case (Cons w ws)
  then have w: "good_where aliases w" by simp
  then obtain a c where p: "js_string (js_get ''column'' w) = a @ CHR ''.'' # c" "dot_free a" "dot_free c"
    by (rule good_where_path)
  have "readColumn row (js_string (js_get ''column'' w)) = col_val row (js_string (js_get ''column'' w))"
    using readColumn_path [OF assms(2) p(3,2)] p(1) by simp
  then have "where_passes rx row w = Inr (mem_test w row)"
    using w by (auto simp: where_passes_def mem_test_def Let_def good_where_def unpushable_def where_ops_def split: option.splits)
  with Cons show ?case by simp
qed simp

lemma filterR_total: "(\<And>x. x \<in> set xs \<Longrightarrow> p x = Inr (q x)) \<Longrightarrow> filterR p xs = Inr (filter q xs)"
  by (induction xs) auto

lemma applyWhere_mem:
  assumes "list_all (good_where aliases) ws" "\<And>row. row \<in> set rows \<Longrightarrow> row_keys S row"
  shows "applyWhere rx rows ws = Inr (filter (\<lambda>row. list_all (\<lambda>w. mem_test w row) ws) rows)"
proof -
  have "filterR (\<lambda>row. where_all rx row ws) rows = Inr (filter (\<lambda>row. list_all (\<lambda>w. mem_test w row) ws) rows)"
    by (rule filterR_total) (rule where_all_mem [OF assms])
  then show ?thesis by (cases "ws = []") (simp_all add: applyWhere_def)
qed

end
