(* ===== verification/FedProject.thy ===== *)
theory FedProject
  imports FedJoinSql
begin

text \<open>
  Projection pushdown is sound: when \<open>joinLegProjections\<close> restricts the columns of the legs,
  every column that the query reads through a qualified path is among those requested.
\<close>

definition need_ok :: "needs \<Rightarrow> string \<Rightarrow> string \<Rightarrow> bool" where
  "need_ok n a c \<longleftrightarrow> kv_get a n = Some None \<or> (\<exists>cols. kv_get a n = Some (Some cols) \<and> c \<in> set cols)"

definition needs_distinct :: "needs \<Rightarrow> bool" where
  "needs_distinct n \<longleftrightarrow> (\<forall>a cols. kv_get a n = Some (Some cols) \<longrightarrow> distinct cols)"

text \<open>A step only adds to the needs, and no column twice.\<close>

definition grows :: "needs \<Rightarrow> needs \<Rightarrow> bool" where
  "grows n n' \<longleftrightarrow> (\<forall>a. kv_get a n \<noteq> None \<longrightarrow> kv_get a n' \<noteq> None) \<and> (\<forall>a c. need_ok n a c \<longrightarrow> need_ok n' a c)
     \<and> (needs_distinct n \<longrightarrow> needs_distinct n')"

definition growing :: "('x \<Rightarrow> needs \<Rightarrow> needs option) \<Rightarrow> bool" where
  "growing f \<longleftrightarrow> (\<forall>x n n'. f x n = Some n' \<longrightarrow> grows n n')"

lemma grows_refl [simp]: "grows n n"
  by (simp add: grows_def)

lemma grows_trans: "grows a b \<Longrightarrow> grows b c \<Longrightarrow> grows a c"
  by (auto simp: grows_def)

lemma grows_all: "grows n (kv_set a None n)"
  by (auto simp: grows_def need_ok_def needs_distinct_def)

lemma grows_add: "grows n (add_need a c n)"
  by (auto simp: grows_def need_ok_def needs_distinct_def add_need_def split: option.splits if_splits)

lemma add_need_ok: "kv_get a n \<noteq> None \<Longrightarrow> need_ok (add_need a c n) a c"
  by (auto simp: need_ok_def add_need_def split: option.splits)

lemma growing_addRef: "growing (addRef aliases)"
  by (auto simp: growing_def addRef_def Let_def grows_all grows_add split: if_splits)

lemma addRef_covers:
  assumes "addRef aliases path n = Some n'" "path = JStr s" "path_of s = Some (a, c)"
    "\<And>a. a \<in> set aliases \<Longrightarrow> kv_get a n \<noteq> None"
  shows "a \<in> set aliases \<and> need_ok n' a c"
proof -
  have s: "s = a @ CHR ''.'' # c" "dot_free a" "dot_free c" using assms(3) by (auto simp: path_of_iff)
  have t: "takeWhile (\<lambda>c. c \<noteq> CHR ''.'') s = a"
    using takeWhile_alias [OF s(2)] s(1) by simp
  have d: "drop (Suc (length a)) s = c" by (simp add: s(1))
  have b: "baseColumn c = c" using s(3) by (simp add: baseColumn_def dot_free_def)
  show ?thesis
    using assms(1,4) add_need_ok [of a n c]
    by (auto simp: addRef_def assms(2) Let_def t b d need_ok_def split: if_splits)
qed

lemma growing_addRefs: "growing f \<Longrightarrow> addRefs f xs n = Some n' \<Longrightarrow> grows n n'"
proof (induction xs arbitrary: n)
  case (Cons x xs)
  then obtain m where m: "f x n = Some m" "addRefs f xs m = Some n'" by (auto split: option.splits)
  with Cons.prems(1) have "grows n m" by (auto simp: growing_def)
  with Cons.IH [OF Cons.prems(1) m(2)] show ?case by (rule grows_trans [rotated])
qed simp

lemma addRefs_member:
  assumes "growing f" "addRefs f xs n = Some n'" "x \<in> set xs"
  obtains m m' where "f x m = Some m'" "grows n m" "grows m' n'"
  using assms(2,3)
proof (induction xs arbitrary: n thesis)
  case (Cons y ys)
  then obtain m where m: "f y n = Some m" "addRefs f ys m = Some n'" by (auto split: option.splits)
  show ?case
  proof (cases "x = y")
    case True
    with m Cons.prems(1) growing_addRefs [OF assms(1) m(2)] show ?thesis by auto
  next
    case False
    then have "x \<in> set ys" using Cons.prems(3) by simp
    then obtain p p' where "f x p = Some p'" "grows m p" "grows p' n'" using Cons.IH [OF _ m(2)] by blast
    moreover have "grows n m" using assms(1) m(1) by (auto simp: growing_def)
    ultimately show ?thesis using Cons.prems(1) grows_trans by blast
  qed
qed simp

lemma growing_select: "growing (select_ref aliases)"
  using growing_addRef by (auto simp: growing_def select_ref_def split: if_splits)

lemma growing_join: "growing (join_ref aliases)"
proof -
  have "grows n n'" if "join_ref aliases j n = Some n'" for j n n'
    using that growing_addRef [of aliases]
    by (auto simp: join_ref_def growing_def split: if_splits Option.bind_splits intro: grows_trans)
  then show ?thesis by (simp add: growing_def)
qed

lemma growing_col: "growing (addColRef aliases sa)"
  using growing_addRef by (auto simp: growing_def addColRef_def split: if_splits)

lemma growing_pred: "growing (pred_ref (addColRef aliases sa))"
  using growing_col by (auto simp: growing_def pred_ref_def split: if_splits)

lemma growing_of_col: "growing (\<lambda>x. addColRef aliases sa (g x))"
  using growing_col by (auto simp: growing_def)

text \<open>The phases of \<open>joinLegProjections\<close>, of which the joins and the WHERE are used below.\<close>

lemma joinLegProjections_parts:
  assumes "joinLegProjections ast lms = Some n"
  obtains aliases sa n1 n2 n3 where "aliases = js_dedup (map lm_alias lms)"
    "addRefs (join_ref aliases) (arr_of (js_get ''joins'' ast)) n1 = Some n2"
    "addRefs (pred_ref (addColRef aliases sa)) (arr_of (js_get ''where'' ast)) n2 = Some n3"
    "grows (map (\<lambda>a. (a, Some [])) aliases) n1" "grows n3 n"
proof -
  define aliases where "aliases = js_dedup (map lm_alias lms)"
  define sel where "sel = arr_of (js_get ''select'' ast)"
  define sa where "sa = map (js_get ''alias'') (filter (\<lambda>c. is_ref c \<and> truthy (js_get ''alias'' c)) sel)"
  obtain n1 n2 n3 n4 n5 where
    n1: "addRefs (select_ref aliases) sel (map (\<lambda>a. (a, Some [])) aliases) = Some n1" and
    n2: "addRefs (join_ref aliases) (arr_of (js_get ''joins'' ast)) n1 = Some n2" and
    n3: "addRefs (pred_ref (addColRef aliases sa)) (arr_of (js_get ''where'' ast)) n2 = Some n3" and
    n4: "addRefs (\<lambda>o'. addColRef aliases sa (js_get ''column'' o')) (arr_of (js_get ''orderBy'' ast)) n3 = Some n4" and
    n5: "addRefs (\<lambda>g. addColRef aliases sa (if is_str g then g else js_get ''field'' g)) (arr_of (js_get ''groupBy'' ast)) n4 = Some n5" and
    n6: "addRefs (pred_ref (addColRef aliases sa)) (arr_of (js_get ''having'' ast)) n5 = Some n"
    using assms unfolding joinLegProjections_def Let_def aliases_def sel_def sa_def
    by (auto split: if_splits Option.bind_splits)
  have "grows n3 n"
    using growing_addRefs [OF growing_of_col n4] growing_addRefs [OF growing_of_col n5]
      growing_addRefs [OF growing_pred n6] grows_trans by blast
  with that [OF aliases_def n2 n3 growing_addRefs [OF growing_select n1]] show ?thesis by blast
qed

lemma selectFor_distinct:
  assumes "joinLegProjections ast lms = proj"
  shows "distinct (selectFor proj a)"
proof (cases proj)
  case (Some n)
  obtain al sa n1 n2 n3 where j: "addRefs (join_ref al) (arr_of (js_get ''joins'' ast)) n1 = Some n2"
      and w: "addRefs (pred_ref (addColRef al sa)) (arr_of (js_get ''where'' ast)) n2 = Some n3"
      and g: "grows (map (\<lambda>a. (a, Some [])) al) n1" "grows n3 n"
    using joinLegProjections_parts assms Some by metis
  have "grows (map (\<lambda>a. (a, Some [])) al) n"
    using growing_addRefs [OF growing_join j] growing_addRefs [OF growing_pred w] g grows_trans by blast
  moreover have "needs_distinct (map (\<lambda>a. (a, Some [])) al)"
    by (auto simp: needs_distinct_def dest!: kv_get_in)
  ultimately have "needs_distinct n" by (simp add: grows_def)
  then show ?thesis using Some by (auto simp: needs_distinct_def selectFor_def split: option.splits)
qed (simp add: selectFor_def)

lemma need_ok_covered: "need_ok n a c \<Longrightarrow> dot_free a \<Longrightarrow> covered (Some n) (a @ CHR ''.'' # c)"
  by (auto simp: covered_path need_ok_def selectFor_def)

lemma initial_needs: "grows (map (\<lambda>a. (a, Some [])) aliases) m \<Longrightarrow> a \<in> set aliases \<Longrightarrow> kv_get a m \<noteq> None"
proof -
  assume g: "grows (map (\<lambda>a. (a, Some [])) aliases) m" "a \<in> set aliases"
  have "kv_get a (map (\<lambda>a. (a, Some [])) aliases) \<noteq> None"
    using g(2) unfolding kv_get_None by force
  with g(1) show ?thesis unfolding grows_def by blast
qed

lemma projection_covers_where:
  assumes "joinLegProjections ast lms = proj" "w \<in> set (arr_of (js_get ''where'' ast))" "good_where aliases w"
  shows "covered proj (js_string (js_get ''column'' w))"
proof (cases proj)
  case None
  then show ?thesis by (simp add: covered_def selectFor_def)
next
  case (Some n)
  obtain al sa n1 n2 n3 where joins: "addRefs (join_ref al) (arr_of (js_get ''joins'' ast)) n1 = Some n2"
      and wheres: "addRefs (pred_ref (addColRef al sa)) (arr_of (js_get ''where'' ast)) n2 = Some n3"
      and g: "grows (map (\<lambda>a. (a, Some [])) al) n1" "grows n3 n"
    using joinLegProjections_parts assms(1) Some by metis
  obtain m m' where m: "pred_ref (addColRef al sa) w m = Some m'" "grows n2 m" "grows m' n3"
    using addRefs_member [OF growing_pred wheres assms(2)] by blast
  obtain a c where p: "js_string (js_get ''column'' w) = a @ CHR ''.'' # c" "dot_free a" "dot_free c"
    using assms(3) by (rule good_where_path)
  have col: "js_get ''column'' w = JStr (a @ CHR ''.'' # c)"
    using assms(3) p(1) by (cases "js_get ''column'' w") (auto simp: good_where_def)
  have "truthy w" using assms(3) by (auto simp: good_where_def unpushable_def)
  with m(1) col have "addRef al (JStr (a @ CHR ''.'' # c)) m = Some m'"
    by (auto simp: pred_ref_def addColRef_def)
  moreover have "kv_get b m \<noteq> None" if "b \<in> set al" for b
    using initial_needs [OF _ that, of m] g(1) growing_addRefs [OF growing_join joins] m(2) grows_trans by blast
  ultimately have "need_ok m' a c"
    using addRef_covers p(2,3) by (metis path_of_iff append_Cons append_Nil)
  then have "need_ok n a c" using m(3) g(2) unfolding grows_def by blast
  then show ?thesis using need_ok_covered p Some by simp
qed

lemma projection_covers_on:
  assumes "joinLegProjections ast lms = proj" "j \<in> set (arr_of (js_get ''joins'' ast))" "on_of (js_get ''on'' j) = Some on"
    and "path_of (on_left on) \<noteq> None" "path_of (on_right on) \<noteq> None"
  shows "covered proj (on_left on) \<and> covered proj (on_right on)"
proof (cases proj)
  case None
  then show ?thesis by (simp add: covered_def selectFor_def)
next
  case (Some n)
  obtain al sa n1 n2 n3 where joins: "addRefs (join_ref al) (arr_of (js_get ''joins'' ast)) n1 = Some n2"
      and wheres: "addRefs (pred_ref (addColRef al sa)) (arr_of (js_get ''where'' ast)) n2 = Some n3"
      and g: "grows (map (\<lambda>a. (a, Some [])) al) n1" "grows n3 n"
    using joinLegProjections_parts assms(1) Some by metis
  obtain m m' where m: "join_ref al j m = Some m'" "grows n1 m" "grows m' n2"
    using addRefs_member [OF growing_join joins assms(2)] by blast
  let ?l = "js_get ''left'' (js_get ''on'' j)" and ?r = "js_get ''right'' (js_get ''on'' j)"
  have on: "truthy (js_get ''on'' j)" "on_left on = js_string ?l" "on_right on = js_string ?r"
    using assms(3) by (auto simp: on_of_def split: if_splits)
  then obtain k where k: "addRef al ?l m = Some k" "addRef al ?r k = Some m'"
    using m(1) by (auto simp: join_ref_def split: Option.bind_splits)
  have "grows k m'" "grows m k" using k growing_addRef by (auto simp: growing_def)
  have "grows m' n" using m(3) growing_addRefs [OF growing_pred wheres] g(2) grows_trans by blast
  have covers: "covered proj (js_string v)"
    if v: "addRef al v p = Some q" "path_of (js_string v) \<noteq> None" "grows m p" "grows q m'" for v p q
  proof -
    obtain a c where ac: "path_of (js_string v) = Some (a, c)" using v(2) by force
    have str: "v = JStr (js_string v)" using v(1) by (cases v) (auto simp: addRef_def)
    have keys: "kv_get b p \<noteq> None" if "b \<in> set al" for b
      using initial_needs [OF _ that, of p] g(1) m(2) v(3) grows_trans by blast
    have "need_ok q a c" using addRef_covers [OF v(1) str ac keys] by blast
    then have "need_ok n a c" using v(4) \<open>grows m' n\<close> unfolding grows_def by blast
    then show ?thesis using need_ok_covered ac Some by (auto simp: path_of_iff)
  qed
  show ?thesis
    using covers [OF k(1)] covers [OF k(2)] assms(4,5) on \<open>grows k m'\<close> \<open>grows m k\<close> by simp
qed

end
