(* ===== verification/FedJoinCorrect.thy ===== *)
theory FedJoinCorrect
  imports FedProject
begin

text \<open>
  The exactness of the cross-source join, and what it does not cover.
\<close>

section \<open>A row of the product\<close>

lemma owned_qualify: "dot_free a \<Longrightarrow> distinct (map fst r) \<Longrightarrow> owned a (qualify_row a r)"
proof -
  assume a: "dot_free a" and d: "distinct (map fst r)"
  have keys: "map fst (qualify_row a r) = map (\<lambda>k. a @ CHR ''.'' # k) (map fst r)"
    by (induction r) auto
  have "distinct (map fst (qualify_row a r))"
    using d unfolding keys by (simp add: distinct_map inj_on_def)
  moreover have "row_keys {a} (qualify_row a r)"
    using a unfolding row_keys_def by (force dest!: kv_get_in)
  ultimately show ?thesis by (simp add: owned_def)
qed

lemma distinct_pick: "distinct (map fst r) \<Longrightarrow> distinct cols \<Longrightarrow> distinct (map fst (pick cols r))"
  by (simp add: pick_def o_def)

lemma leg_passes_val:
  assumes "filter_holds sql_test val a f" "\<And>c. val (a @ CHR ''.'' # c) = col_val t (a @ CHR ''.'' # c)"
  shows "leg_passes a f t" "leg_passes a (kv_del k f) t"
  using assms by (auto simp: filter_holds_def leg_passes_iff set_kv_del)

text \<open>A leg that passes has a value in every column with a pushed condition.\<close>

lemma leg_passes_nonnull:
  assumes "leg_passes a f t" "cond_of f c op = Some v" "basic_filter f"
  shows "\<not> nullish (col_val t (a @ CHR ''.'' # c))"
proof -
  obtain cond where c: "(c, cond) \<in> set f" "(op, v) \<in> set (obj_of cond)"
    using assms(2) kv_get_in [of c f] kv_get_in [of op] by (force simp: cond_of_def split: option.splits)
  then have "op \<in> set basic_ops" "\<not> nullish v"
    using assms(3) by (auto simp: basic_filter_def list_all_iff)
  with c assms(1) sql_test_nonnull show ?thesis unfolding leg_passes_iff by blast
qed

lemma cond_of_del: "c \<noteq> k \<Longrightarrow> cond_of (kv_del k f) c op = cond_of f c op"
  by (simp add: cond_of_def)

lemma basic_del: "basic_filter f \<Longrightarrow> basic_filter (kv_del k f)"
  by (auto simp: basic_filter_def list_all_iff kv_del_def)

section \<open>The legs and the query\<close>

text \<open>A row of the driving leg and one of every other leg, and the row they merge into.\<close>

definition leg_tuple :: "leg_meta \<Rightarrow> leg_meta list \<Rightarrow> fed_row \<Rightarrow> fed_row list \<Rightarrow> bool" where
  "leg_tuple d lms l ts \<longleftrightarrow> good_legs (d # lms) \<and> row_keys {lm_alias d} l \<and> list_all2 (\<lambda>lm t. owned (lm_alias lm) t) lms ts"

lemma tuple_driver:
  assumes "leg_tuple d lms l ts"
  shows "col_val (foldl kv_merge l ts) (lm_alias d @ CHR ''.'' # c) = col_val l (lm_alias d @ CHR ''.'' # c)"
proof -
  have g: "good_legs (d # lms)" and o: "list_all2 (\<lambda>lm t. owned (lm_alias lm) t) lms ts"
    using assms by (auto simp: leg_tuple_def)
  have "lm_alias d \<notin> lm_alias ` set lms" using g join_chain_facts [of "[lm_alias d]" lms] by force
  with merged_other [OF o] g show ?thesis by simp
qed

lemma tuple_own:
  assumes "leg_tuple d lms l ts" "(lm, t) \<in> set (zip lms ts)"
  shows "col_val (foldl kv_merge l ts) (lm_alias lm @ CHR ''.'' # c) = col_val t (lm_alias lm @ CHR ''.'' # c)"
  using assms merged_own [of lms ts "[lm_alias d]" l lm t] by (simp add: leg_tuple_def)

lemma tuple_on: "leg_tuple d lms l ts \<Longrightarrow> chain_on l lms ts \<longleftrightarrow> sql_on (d # lms) (foldl kv_merge l ts)"
  using chain_on_sql [of lms ts "[lm_alias d]" l] by (simp add: leg_tuple_def sql_on_def)

lemma tuple_keys:
  assumes "leg_tuple d lms l ts"
  shows "row_keys (lm_alias ` set (d # lms)) (foldl kv_merge l ts)"
proof -
  have "list_all2 (\<lambda>lm t. owned (lm_alias lm) t) lms ts \<Longrightarrow> row_keys S l \<Longrightarrow>
      row_keys (S \<union> lm_alias ` set lms) (foldl kv_merge l ts)" for S
  proof (induction lms ts arbitrary: l S rule: list_all2_induct)
    case (Cons lm lms t ts)
    from Cons.IH [OF row_keys_merge [OF Cons.prems Cons.hyps(1)]] show ?case by simp
  qed simp
  from this [of "{lm_alias d}"] assms show ?thesis by (simp add: leg_tuple_def)
qed

lemma on_sql_eq:
  assumes "sql_on lms row" "lm \<in> set lms" "lm_on lm = Some on"
  shows "sql_eq (col_val row (on_left on)) (col_val row (on_right on))"
  using assms by (auto simp: sql_on_def list_all_iff split: option.splits)

text \<open>The filters hold of every row of the answer.\<close>

lemma answer_filters:
  assumes "buildLegFilters lms ws = Some pf" "list_all (good_where aliases) ws" "sql_on lms row" "sql_where ws row"
  shows "filters_hold sql_test (col_val row) pf"
proof (rule leg_filters_sound [OF assms(1)])
  show "where_holds sql_test (col_val row) (map lm_alias lms) ws"
    using assms(4) by (auto simp: where_holds_def sql_where_def list_all_iff)
  show "on_holds (col_val row) lms"
    using on_sql_eq [OF assms(3)] by (fastforce simp: on_holds_def equated_def sql_eq_def split: option.splits if_splits)
qed

text \<open>The definition of the legs that pass, for the driving leg and for the others.\<close>

definition others_pass :: "leg_filters \<Rightarrow> leg_meta list \<Rightarrow> fed_row list \<Rightarrow> bool" where
  "others_pass pf lms ts \<longleftrightarrow>
     list_all2 (\<lambda>lm t. leg_passes (lm_alias lm) (kv_del (join_col lm) (filter_of pf (lm_alias lm))) t) lms ts"

lemma column_nonnull:
  assumes tup: "leg_tuple d lms l ts" and pf: "buildLegFilters (d # lms) ws = Some pf" and good: "list_all (good_where (map lm_alias (d # lms))) ws"
    and pass: "leg_passes (lm_alias d) (filter_of pf (lm_alias d)) l" "others_pass pf lms ts" "sql_on (d # lms) (foldl kv_merge l ts)"
    and w: "w \<in> set ws"
  shows "\<not> nullish (col_val (foldl kv_merge l ts) (js_string (js_get ''column'' w)))"
proof -
  let ?row = "foldl kv_merge l ts"
  have gw: "good_where (map lm_alias (d # lms)) w" using good w by (simp add: list_all_iff)
  then obtain a c where p: "js_string (js_get ''column'' w) = a @ CHR ''.'' # c" "dot_free a" "dot_free c"
      "a \<in> set (map lm_alias (d # lms))" "aliasOf (js_string (js_get ''column'' w)) = Some a"
      "baseColumn (js_string (js_get ''column'' w)) = c"
    by (rule good_where_path)
  have basic: "basic_filter (filter_of pf x)" for x by (rule pf_basic [OF pf good])
  have "has_cond pf a c"
    using leg_filters_cover [OF pf w _ p(5)] gw p by (auto simp: good_where_def dot_free_def)
  then obtain op v where cond: "cond_of (filter_of pf a) c op = Some v" by (auto simp: has_cond_def)
  consider "a = lm_alias d" | lm where "lm \<in> set lms" "a = lm_alias lm" using p(4) by auto
  then show ?thesis
  proof cases
    case 1
    with leg_passes_nonnull [OF pass(1)] cond basic tuple_driver [OF tup] p(1) show ?thesis by simp
  next
    case 2
    have chain: "join_chain [lm_alias d] lms" using tup by (simp add: leg_tuple_def)
    obtain on rc where on: "lm_on lm = Some on" "path_of (on_right on) = Some (lm_alias lm, rc)"
      using join_chain_facts [OF chain 2(1)] by blast
    have col: "join_col lm = rc" using on path_baseColumn by (auto simp: join_col_def path_of_iff)
    show ?thesis
    proof (cases "c = rc")
      case True
      have "sql_eq (col_val ?row (on_left on)) (col_val ?row (on_right on))"
        by (rule on_sql_eq [OF pass(3)]) (use 2(1) on(1) in simp_all)
      with True on(2) 2(2) p(1) show ?thesis by (auto simp: path_of_iff sql_eq_def)
    next
      case False
      obtain t where t: "(lm, t) \<in> set (zip lms ts)"
        using pass(2) 2(1) unfolding others_pass_def by (metis list_all2_lengthD in_set_impl_in_set_zip1)
      then have "leg_passes (lm_alias lm) (kv_del rc (filter_of pf (lm_alias lm))) t"
        using pass(2) col unfolding others_pass_def by (fastforce simp: list_all2_iff)
      from leg_passes_nonnull [OF this _ basic_del [OF basic]] cond cond_of_del [OF False] 2(2) tuple_own [OF tup t] p(1)
      show ?thesis by simp
    qed
  qed
qed

lemma answer_row:
  assumes tup: "leg_tuple d lms l ts" and pf: "buildLegFilters (d # lms) ws = Some pf"
    and good: "list_all (good_where (map lm_alias (d # lms))) ws"
  shows "leg_passes (lm_alias d) (filter_of pf (lm_alias d)) l \<and> chain_on l lms ts \<and> others_pass pf lms ts
      \<and> list_all (\<lambda>w. mem_test w (foldl kv_merge l ts)) ws
    \<longleftrightarrow> sql_on (d # lms) (foldl kv_merge l ts) \<and> sql_where ws (foldl kv_merge l ts)"
    (is "?L \<longleftrightarrow> ?R")
proof
  let ?row = "foldl kv_merge l ts"
  have test: "sql_test (canon_op (raw_op w)) (js_get ''value'' w) (col_val ?row (js_string (js_get ''column'' w))) \<longleftrightarrow>
      \<not> nullish (col_val ?row (js_string (js_get ''column'' w))) \<and> mem_test w ?row" if "w \<in> set ws" for w
  proof -
    have "good_where (map lm_alias (d # lms)) w" using good that by (simp only: list_all_iff)
    then show ?thesis by (rule sql_test_mem)
  qed
  {
    assume L: ?L
    then have on: "sql_on (d # lms) ?row" using tuple_on [OF tup] by blast
    moreover have "\<not> nullish (col_val ?row (js_string (js_get ''column'' w)))" if "w \<in> set ws" for w
      using column_nonnull [OF tup pf good _ _ on that] L by blast
    ultimately show ?R using L test by (simp add: sql_where_def list_all_iff)
  next
    assume R: ?R
    have hold: "filter_holds sql_test (col_val ?row) a (filter_of pf a)" for a
      using answer_filters [OF pf good] R filters_hold_of by blast
    have "leg_passes (lm_alias d) (filter_of pf (lm_alias d)) l"
      by (rule leg_passes_val [OF hold tuple_driver [OF tup]])
    moreover have "others_pass pf lms ts"
      using tup leg_passes_val(2) [OF hold tuple_own [OF tup]]
      by (auto simp: others_pass_def list_all2_iff leg_tuple_def)
    ultimately show ?L using R tuple_on [OF tup] test by (simp add: sql_where_def list_all_iff)
  }
qed

section \<open>The joined rows\<close>

lemma product_member: "ts \<in> set (product_lists xss) \<longleftrightarrow> list_all2 (\<lambda>xs t. t \<in> set xs) xss ts"
  by (auto simp: product_lists_set list_all2_conv_all_nth)

lemma length_filter_mono: "(\<And>x. x \<in> set xs \<Longrightarrow> A x \<Longrightarrow> B x) \<Longrightarrow> length (filter A xs) \<le> length (filter B xs)"
  by (induction xs) auto

lemma all_rows_concat:
  "all_rows T proj (d # lms) =
     concat (map (\<lambda>l. map (foldl kv_merge l) (product_lists (map (leg_rows T proj) lms))) (qualify (lm_alias d) (table_of T d)))"
  by (simp add: all_rows_def map_concat o_def)

definition chain_rows :: "tables \<Rightarrow> leg_filters \<Rightarrow> needs option \<Rightarrow> leg_meta \<Rightarrow> leg_meta list \<Rightarrow> fed_row list" where
  "chain_rows T pf proj d lms =
     ref_chain T pf proj lms (qualify (lm_alias d) (filter (src_sat (filter_of pf (lm_alias d))) (table_of T d)))"

lemma chain_rows_concat:
  assumes "\<And>lm. lm \<in> set lms \<Longrightarrow> cols_ok proj (lm_alias lm) (filter_of pf (lm_alias lm))"
  shows "chain_rows T pf proj d lms =
    concat (map (\<lambda>l. map (foldl kv_merge l)
      (filter (\<lambda>ts. leg_passes (lm_alias d) (filter_of pf (lm_alias d)) l \<and> chain_on l lms ts \<and> others_pass pf lms ts)
        (product_lists (map (leg_rows T proj) lms)))) (qualify (lm_alias d) (table_of T d)))"
proof -
  let ?R = "leg_rows T proj" and ?f = "filter_of pf (lm_alias d)"
  have others: "list_all2 (\<lambda>lm. leg_passes (lm_alias lm) (kv_del (join_col lm) (filter_of pf (lm_alias lm)))) lms = others_pass pf lms"
    by (simp add: fun_eq_iff others_pass_def)
  have kept: "product_lists (map (\<lambda>lm. kept_rows T pf proj lm (join_col lm)) lms) = filter (others_pass pf lms) (product_lists (map ?R lms))"
    using product_filter [of "\<lambda>lm. leg_passes (lm_alias lm) (kv_del (join_col lm) (filter_of pf (lm_alias lm)))" ?R lms]
    by (simp add: others kept_rows_filter [OF assms] cong: map_cong)
  have "(if leg_passes (lm_alias d) ?f l
         then map (foldl kv_merge l) (filter (chain_on l lms) (filter (others_pass pf lms) P)) else [])
      = map (foldl kv_merge l) (filter (\<lambda>ts. leg_passes (lm_alias d) ?f l \<and> chain_on l lms ts \<and> others_pass pf lms ts) P)" for l P
    by (simp add: conj_commute)
  then show ?thesis
    unfolding chain_rows_def ref_chain_product driving_filter concat_filter_map kept by simp
qed

lemma leg_tuple_member:
  assumes good: "good_legs (d # lms)" and T: "good_tables T" and dist: "\<And>a. distinct (selectFor proj a)"
    and l: "l \<in> set (qualify (lm_alias d) (table_of T d))" and ts: "ts \<in> set (product_lists (map (leg_rows T proj) lms))"
  shows "leg_tuple d lms l ts"
proof -
  have rows: "distinct (map fst r)" if "r \<in> set (table_of T lm)" for lm r
    using T that by (simp add: good_tables_def table_of_def)
  have "owned (lm_alias d) l"
    using l rows good by (auto simp: qualify_map intro: owned_qualify)
  moreover have "owned (lm_alias lm) t" if "lm \<in> set lms" "t \<in> set (leg_rows T proj lm)" for lm t
  proof -
    have "dot_free (lm_alias lm)" using good that(1) join_chain_facts [of "[lm_alias d]" lms lm] by simp
    then show ?thesis
      using that(2) distinct_pick [OF rows dist] by (auto simp: leg_rows_def qualify_map intro!: owned_qualify)
  qed
  then have "list_all2 (\<lambda>lm t. owned (lm_alias lm) t) lms ts"
    using ts unfolding product_member list_all2_map1 by (auto elim: list.rel_mono_strong)
  ultimately show ?thesis using good by (simp add: leg_tuple_def owned_def)
qed

lemma chain_rows_sql:
  assumes good: "good_legs (d # lms)" and T: "good_tables T" and dist: "\<And>a. distinct (selectFor proj a)"
    and pf: "buildLegFilters (d # lms) ws = Some pf" and gw: "list_all (good_where (map lm_alias (d # lms))) ws"
    and cols: "\<And>lm. lm \<in> set lms \<Longrightarrow> cols_ok proj (lm_alias lm) (filter_of pf (lm_alias lm))"
  shows "filter (\<lambda>row. list_all (\<lambda>w. mem_test w row) ws) (chain_rows T pf proj d lms) = sql_join T proj (d # lms) ws"
    and "length (chain_rows T pf proj d lms) \<le> length (filter (sql_on (d # lms)) (all_rows T proj (d # lms)))"
    and "row \<in> set (chain_rows T pf proj d lms) \<Longrightarrow> row_keys (lm_alias ` set (d # lms)) row"
proof -
  let ?P = "product_lists (map (leg_rows T proj) lms)" and ?D = "qualify (lm_alias d) (table_of T d)"
  let ?pass = "\<lambda>l ts. leg_passes (lm_alias d) (filter_of pf (lm_alias d)) l \<and> chain_on l lms ts \<and> others_pass pf lms ts"
  have chain: "chain_rows T pf proj d lms = concat (map (\<lambda>l. map (foldl kv_merge l) (filter (?pass l) ?P)) ?D)"
    by (rule chain_rows_concat) (rule cols)
  have tup: "leg_tuple d lms l ts" if "l \<in> set ?D" "ts \<in> set ?P" for l ts
    by (rule leg_tuple_member [OF good T dist that])
  have "filter (\<lambda>ts. ?pass l ts \<and> list_all (\<lambda>w. mem_test w (foldl kv_merge l ts)) ws) ?P
      = filter (\<lambda>ts. sql_on (d # lms) (foldl kv_merge l ts) \<and> sql_where ws (foldl kv_merge l ts)) ?P" if "l \<in> set ?D" for l
    using answer_row [OF tup [OF that] pf gw] by (intro filter_cong) blast+
  then show "filter (\<lambda>row. list_all (\<lambda>w. mem_test w row) ws) (chain_rows T pf proj d lms) = sql_join T proj (d # lms) ws"
    unfolding chain sql_join_def all_rows_concat filter_concat map_map
    by (intro arg_cong [where f = concat] map_cong) (auto simp: filter_map o_def conj_ac)
  have "length (filter (?pass l) ?P) \<le> length (filter (\<lambda>ts. sql_on (d # lms) (foldl kv_merge l ts)) ?P)" if "l \<in> set ?D" for l
    using tuple_on [OF tup [OF that]] by (intro length_filter_mono) blast
  then show "length (chain_rows T pf proj d lms) \<le> length (filter (sql_on (d # lms)) (all_rows T proj (d # lms)))"
    unfolding chain all_rows_concat filter_concat map_map length_concat
    by (intro sum_list_mono) (auto simp: filter_map o_def intro!: sum_list_mono)
  show "row \<in> set (chain_rows T pf proj d lms) \<Longrightarrow> row_keys (lm_alias ` set (d # lms)) row"
    unfolding chain using tuple_keys [OF tup] by auto
qed

section \<open>Without the cost probe\<close>

lemma best_leg_unknown: "best_leg (\<lambda>_. None) lms i best None = best"
  by (induction lms arbitrary: i) simp_all

lemma no_probe_card: "\<not> fe_probe env \<Longrightarrow> leg_card env pf lms = (\<lambda>_. None)"
  by (simp add: leg_card_def fun_eq_iff)

lemma no_probe_order: "\<not> fe_probe env \<Longrightarrow> order_legs env pf lms = Inr lms"
  by (simp add: order_legs_def no_probe_card best_leg_unknown)

lemma no_probe_broadcast: "\<not> fe_probe env \<Longrightarrow> \<not> broadcast_ok env pf lms lms"
  by (cases lms) (simp_all add: broadcast_ok_def no_probe_card two_leg_def)

text \<open>The queries: \<open>good_join\<close>. Their paths are requested from the legs.\<close>

definition good_join :: "jsval \<Rightarrow> bool" where
  "good_join ast \<longleftrightarrow> good_legs (join_metas ast)
     \<and> list_all (good_where (map lm_alias (join_metas ast))) (arr_of (js_get ''where'' ast))"

definition proj_of :: "jsval \<Rightarrow> needs option" where
  "proj_of ast = joinLegProjections ast (join_metas ast)"

lemma join_metas_on:
  assumes "lm \<in> set (tl (join_metas ast))" "lm_on lm = Some on"
  obtains j where "j \<in> set (arr_of (js_get ''joins'' ast))" "on_of (js_get ''on'' j) = Some on"
  using assms by (auto simp: join_metas_def leg_of_def)

lemma covered_on:
  assumes "good_join ast" "lm \<in> set (join_metas ast)" "lm_on lm = Some on"
  shows "covered (proj_of ast) (on_left on) \<and> covered (proj_of ast) (on_right on)"
proof -
  obtain d lms where legs: "join_metas ast = d # lms" by (simp add: join_metas_def)
  have g: "good_legs (d # lms)" using assms(1) legs by (simp add: good_join_def)
  have "lm \<in> set lms" using assms(2,3) g legs by auto
  then have "path_of (on_left on) \<noteq> None" "path_of (on_right on) \<noteq> None"
    using join_chain_facts [of "[lm_alias d]" lms lm] g assms(3) by auto
  moreover obtain j where "j \<in> set (arr_of (js_get ''joins'' ast))" "on_of (js_get ''on'' j) = Some on"
    using join_metas_on [of lm ast on] \<open>lm \<in> set lms\<close> legs assms(3) by auto
  ultimately show ?thesis using projection_covers_on [OF proj_of_def [symmetric]] by blast
qed

lemma join_cols_ok:
  assumes "good_join ast" "buildLegFilters (join_metas ast) (arr_of (js_get ''where'' ast)) = Some pf" "dot_free a"
  shows "cols_ok (proj_of ast) a (filter_of pf a)"
proof (rule pf_cols [OF assms(2) _ _ assms(3)])
  show "list_all (\<lambda>w. covered (proj_of ast) (js_string (js_get ''column'' w))) (arr_of (js_get ''where'' ast))"
    using projection_covers_where [OF proj_of_def [symmetric]] assms(1) by (auto simp: good_join_def list_all_iff)
  show "covered (proj_of ast) p \<and> covered (proj_of ast) q" if "lm \<in> set (join_metas ast)" "equated lm = Some (p, q)" for lm p q
    using that covered_on [OF assms(1)] by (auto simp: equated_def split: option.splits if_splits)
qed

lemma join_bind_ok:
  assumes "good_join ast" "buildLegFilters (join_metas ast) (arr_of (js_get ''where'' ast)) = Some pf"
  shows "list_all (bind_ok pf (proj_of ast)) (tl (join_metas ast))"
proof -
  obtain d lms where legs: "join_metas ast = d # lms" by (simp add: join_metas_def)
  have "bind_ok pf (proj_of ast) lm" if lm: "lm \<in> set lms" for lm
  proof -
    have "join_chain [lm_alias d] lms" using assms(1) legs by (simp add: good_join_def)
    then obtain on rc where on: "lm_on lm = Some on" "is_equi (on_op on)" "path_of (on_right on) = Some (lm_alias lm, rc)"
        and ty: "lm_type lm = Some ''INNER''" "dot_free (lm_alias lm)"
      using join_chain_facts lm by blast
    have "covered (proj_of ast) (on_right on)" using covered_on [OF assms(1) _ on(1)] lm legs by simp
    then have "selectFor (proj_of ast) (lm_alias lm) = [] \<or> rc \<in> set (selectFor (proj_of ast) (lm_alias lm))"
      using on(3) covered_path [OF ty(2)] by (auto simp: path_of_iff)
    moreover have "basic_filter (filter_of pf (lm_alias lm))"
      using pf_basic [OF assms(2)] assms(1) by (auto simp: good_join_def)
    moreover have "distinct (map fst (filter_of pf (lm_alias lm)))"
      using leg_filters_wf [OF assms(2)] by (simp add: wf_filter_def)
    ultimately show ?thesis using on ty by (auto simp: bind_ok_def)
  qed
  then show ?thesis using legs by (simp add: list_all_iff)
qed

text \<open>
  C1: for inner equijoins with plain WHERE conjuncts, on sources that answer as SQL does and
  while no cap is reached, the cross-source join returns exactly the rows, with their
  multiplicities, of the SQL join of the whole tables.
\<close>

theorem cross_engine_join_exact:
  assumes src: "answers env T" "good_tables T" and bm: "0 < fe_bindMax env" and probe: "\<not> fe_probe env"
    and good: "good_join ast"
    and cap: "length (filter (sql_on (join_metas ast)) (all_rows T (proj_of ast) (join_metas ast))) < fe_cap env"
  shows "\<exists>rows. executeJoin env ast = Inr rows \<and>
    mset rows = mset (sql_join T (proj_of ast) (join_metas ast) (arr_of (js_get ''where'' ast)))"
proof -
  define ws where "ws = arr_of (js_get ''where'' ast)"
  define proj where "proj = proj_of ast"
  obtain d lms where legs: "join_metas ast = d # lms" by (simp add: join_metas_def)
  obtain pf where pf: "buildLegFilters (d # lms) ws = Some pf" using buildLegFilters_returns by blast
  have g: "good_legs (d # lms)" and gw: "list_all (good_where (map lm_alias (d # lms))) ws"
    using good legs by (simp_all add: good_join_def ws_def)
  have cols: "cols_ok proj (lm_alias lm) (filter_of pf (lm_alias lm))" if "lm \<in> set lms" for lm
    using join_cols_ok [OF good] join_chain_facts [of "[lm_alias d]" lms lm] g that pf legs by (simp add: ws_def proj_def)
  have dist: "distinct (selectFor proj a)" for a
    using selectFor_distinct by (simp add: proj_def proj_of_def)
  note rows = chain_rows_sql [OF g src(2) dist pf gw cols]
  have bind: "list_all (bind_ok pf proj) (tl (d # lms))" using join_bind_ok [OF good] pf legs by (simp add: ws_def proj_def)
  have len: "length (chain_rows T pf proj d lms) < fe_cap env" using rows(2) cap legs by (simp add: proj_def)
  obtain out where out: "windowed_join env pf proj (d # lms) = Inr out" "mset out = mset (chain_rows T pf proj d lms)"
    using windowed_join_chain [OF src(1) bm bind] len pf_basic [OF pf gw] by (auto simp: chain_rows_def)
  have "set out = set (chain_rows T pf proj d lms)" using out(2) by (metis set_mset_mset)
  then have "applyWhere (fe_rx env) out ws = Inr (filter (\<lambda>row. list_all (\<lambda>w. mem_test w row) ws) out)"
    using rows(3) by (intro applyWhere_mem [OF gw]) blast
  moreover have "mset (filter (\<lambda>row. list_all (\<lambda>w. mem_test w row) ws) out) = mset (sql_join T proj (d # lms) ws)"
    using rows(1) out(2) by (metis mset_filter)
  ultimately show ?thesis
    using out(1) pf legs no_probe_order [OF probe] no_probe_broadcast [OF probe]
    by (simp add: executeJoin_def Let_def ws_def proj_def proj_of_def)
qed

section \<open>An example\<close>

text \<open>An environment whose sources are tables, and a query over orders and their customers.\<close>

definition sql_env :: "tables \<Rightarrow> bool \<Rightarrow> fed_env" where
  "sql_env T probe =
     \<lparr>fe_fetch = \<lambda>lm f cols. Inr (map (pick cols) (filter (src_sat f) (table_of T lm))),
      fe_stream = \<lambda>lm f. Inr (filter (src_sat f) (table_of T lm)),
      fe_estimate = \<lambda>lm f. Some (of_nat (length (filter (src_sat f) (table_of T lm)))),
      fe_rx = \<lambda>_ _ _. Inr False, fe_cap = 50000, fe_bindMax = 1000, fe_broadcast = 5000, fe_probe = probe\<rparr>"

lemma answers_sql_env: "answers (sql_env T probe) T"
  by (simp add: answers_def sql_env_def)

abbreviation jn :: "int \<Rightarrow> jsval" where
  "jn i \<equiv> JNum (of_int i)"

definition shop :: tables where
  "shop s t =
     (if t = ''orders'' then
        [[(''id'', jn 1), (''cid'', jn 7), (''amount'', jn 30)], [(''id'', jn 2), (''cid'', JNull), (''amount'', jn 50)],
         [(''id'', jn 3), (''cid'', jn 7), (''amount'', jn 5)]]
      else if t = ''customers'' then
        [[(''id'', jn 7), (''name'', JStr ''Ann''), (''region'', JStr ''EU'')], [(''id'', JNull), (''name'', JStr ''Bob''), (''region'', JStr ''EU'')],
         [(''id'', jn 8), (''name'', JStr ''Eve''), (''region'', JStr ''US'')]]
      else [])"

definition source_node :: "string \<Rightarrow> string \<Rightarrow> string \<Rightarrow> (string \<times> jsval) list" where
  "source_node alias source resource = [(''alias'', JStr alias), (''source'', JStr source), (''resource'', JStr resource)]"

definition on_node :: "string \<Rightarrow> string \<Rightarrow> string \<times> jsval" where
  "on_node l r = (''on'', JObj [(''left'', JStr l), (''operator'', JStr ''=''), (''right'', JStr r)])"

definition where_node :: "string \<Rightarrow> string \<Rightarrow> jsval \<Rightarrow> jsval" where
  "where_node col op v = JObj [(''column'', JStr col), (''operator'', JStr op), (''value'', v)]"

definition shop_query :: "jsval list \<Rightarrow> jsval" where
  "shop_query ws = JObj [(''select'', JArr [JStr ''o.id'', JStr ''c.name'']), (''from'', JObj (source_node ''o'' ''pg'' ''orders'')),
     (''joins'', JArr [JObj (source_node ''c'' ''mongo'' ''customers'' @ [on_node ''o.cid'' ''c.id''])]), (''where'', JArr ws)]"

lemma cross_engine_join_exact_witness:
  "(\<exists>rows. executeJoin (sql_env shop False) (shop_query [where_node ''o.amount'' ''GTE'' (jn 10)]) = Inr rows \<and>
     mset rows = mset [[(''o.id'', jn 1), (''o.cid'', jn 7), (''o.amount'', jn 30), (''c.name'', JStr ''Ann''), (''c.id'', jn 7)]])"
proof -
  let ?ast = "shop_query [where_node ''o.amount'' ''GTE'' (jn 10)]"
  have tables: "good_tables shop" by (auto simp: good_tables_def shop_def split: if_splits)
  have bm: "0 < fe_bindMax (sql_env shop False)" "\<not> fe_probe (sql_env shop False)" by (simp_all add: sql_env_def)
  have good: "good_join ?ast" by code_simp
  have cap: "length (filter (sql_on (join_metas ?ast)) (all_rows shop (proj_of ?ast) (join_metas ?ast))) < fe_cap (sql_env shop False)"
    by code_simp
  have sql: "sql_join shop (proj_of ?ast) (join_metas ?ast) (arr_of (js_get ''where'' ?ast)) =
      [[(''o.id'', jn 1), (''o.cid'', jn 7), (''o.amount'', jn 30), (''c.name'', JStr ''Ann''), (''c.id'', jn 7)]]"
    by code_simp
  show ?thesis
    using cross_engine_join_exact [OF answers_sql_env tables bm good cap] unfolding sql .
qed

section \<open>What the exactness does not cover\<close>

text \<open>
  Two small legs are fetched whole and hash-joined, and there NULL joins NULL: the same query on
  the same tables has an extra row when the cost probe is on.
\<close>

lemma broadcast_joins_nulls:
  "mapR length (executeJoin (sql_env shop True) (shop_query [where_node ''o.amount'' ''GTE'' (jn 10)])) = Inr 2"
  by code_simp

text \<open>
  \<open>IS_NOT_NULL\<close> is pushed as \<open>$ne\<close> but evaluated in memory as an equality with \<open>undefined\<close>: no row
  of a join passes both.
\<close>

lemma is_not_null_returns_nothing:
  "mapR length (executeJoin (sql_env shop False) (shop_query [where_node ''c.region'' ''IS_NOT_NULL'' JUndef])) = Inr 0 \<and>
   mapR length (executeJoin (sql_env shop False) (shop_query [])) = Inr 2"
  by code_simp

end
