(* ===== verification/JsonText.thy ===== *)
theory JsonText
  imports JsValue
begin

text \<open>
  \<open>JSON.stringify(v)\<close> without indentation: strings are escaped, an \<open>undefined\<close> member of an object is
  left out, \<open>undefined\<close> and NaN are written as \<open>null\<close> elsewhere. The text of a value contains no
  control character, which is what lets it be stored as a line of a file.
\<close>

definition hex2 :: "nat \<Rightarrow> string" where
  "hex2 n = [digit_chr (n div 16), digit_chr (n mod 16)]"

definition json_chr :: "char \<Rightarrow> string" where
  "json_chr c =
     (let n = code_unit c in
      if n = 34 then [CHR 0x5C, CHR 0x22]
      else if n = 92 then [CHR 0x5C, CHR 0x5C]
      else if n = 8 then [CHR 0x5C, CHR ''b'']
      else if n = 9 then [CHR 0x5C, CHR ''t'']
      else if n = 10 then [CHR 0x5C, CHR ''n'']
      else if n = 12 then [CHR 0x5C, CHR ''f'']
      else if n = 13 then [CHR 0x5C, CHR ''r'']
      else if n < 32 then CHR 0x5C # ''u00'' @ hex2 n
      else [c])"

definition json_quote :: "string \<Rightarrow> string" where
  "json_quote s = CHR 0x22 # concat (map json_chr s) @ [CHR 0x22]"

function json_text :: "jsval \<Rightarrow> string" where
  "json_text JUndef = ''null''"
| "json_text JNull = ''null''"
| "json_text (JBool b) = (if b then ''true'' else ''false'')"
| "json_text (JNum q) = show_rat q"
| "json_text JNaN = ''null''"
| "json_text (JStr s) = json_quote s"
| "json_text (JArr vs) = ''['' @ js_join '','' (map json_text vs) @ '']''"
| "json_text (JObj kvs) =
     ''{'' @ js_join '','' (map (\<lambda>kv. json_quote (fst kv) @ '':'' @ json_text (snd kv))
       (filter (\<lambda>kv. snd kv \<noteq> JUndef) kvs)) @ ''}''"
  by pat_completeness auto
termination
proof (relation "measure size")
  fix vs :: "jsval list" and v assume "v \<in> set vs"
  then show "(v, JArr vs) \<in> measure size"
    by (induction vs) auto
next
  fix kvs :: "(string \<times> jsval) list" and kv
  assume "kv \<in> set (filter (\<lambda>kv. snd kv \<noteq> JUndef) kvs)"
  then have "kv \<in> set kvs" by simp
  then show "(snd kv, JObj kvs) \<in> measure size"
    by (induction kvs) (auto split: prod.splits)
qed simp

section \<open>No control characters\<close>

definition printable :: "string \<Rightarrow> bool" where
  "printable s \<longleftrightarrow> (\<forall>c \<in> set s. 32 \<le> code_unit c)"

lemma printable_simps [simp]:
  "printable []"
  "printable (c # s) \<longleftrightarrow> 32 \<le> code_unit c \<and> printable s"
  "printable (s @ t) \<longleftrightarrow> printable s \<and> printable t"
  by (auto simp: printable_def)

lemma printable_join: "printable sep \<Longrightarrow> (\<And>p. p \<in> set ps \<Longrightarrow> printable p) \<Longrightarrow> printable (js_join sep ps)"
  by (induction sep ps rule: js_join.induct) auto

lemma printable_digit: "n < 16 \<Longrightarrow> 32 \<le> code_unit (digit_chr n)"
  by (simp add: digit_chr_def)

lemma printable_json_chr: "printable (json_chr c)"
proof -
  have "code_unit c < 32 \<Longrightarrow> code_unit c div 16 < 16 \<and> code_unit c mod 16 < 16" by auto
  then show ?thesis by (simp add: json_chr_def Let_def hex2_def printable_digit)
qed

lemma printable_quote: "printable (json_quote s)"
  using printable_json_chr by (force simp: json_quote_def printable_def)

lemma printable_show_nat: "printable (show_nat n)"
  using show_nat_digits [of _ n] by (fastforce simp: printable_def is_digit_def)

lemma printable_fraction: "0 \<le> q \<Longrightarrow> q < 1 \<Longrightarrow> printable (show_fraction n q)"
proof (induction n q rule: show_fraction.induct)
  case (2 n q)
  have "0 \<le> 10 * q - of_int \<lfloor>10 * q\<rfloor>" "10 * q - of_int \<lfloor>10 * q\<rfloor> < 1" by linarith+
  moreover have "nat \<lfloor>10 * q\<rfloor> < 16" using "2.prems" by linarith
  ultimately show ?case using 2 by (simp add: printable_digit)
qed simp

lemma printable_rat: "printable (show_rat q)"
proof -
  have "0 \<le> \<bar>q\<bar> - of_int \<lfloor>\<bar>q\<bar>\<rfloor>" "\<bar>q\<bar> - of_int \<lfloor>\<bar>q\<bar>\<rfloor> < 1" by linarith+
  then have "printable (show_fraction 17 (\<bar>q\<bar> - of_int \<lfloor>\<bar>q\<bar>\<rfloor>))" by (rule printable_fraction)
  moreover have "printable (show_int i)" for i
    by (simp add: show_int_def printable_show_nat)
  ultimately show ?thesis by (simp add: show_rat_def Let_def)
qed

lemma printable_json: "printable (json_text v)"
proof (induction v rule: json_text.induct)
  case (7 vs)
  then show ?case by (auto intro!: printable_join)
next
  case (8 kvs)
  then show ?case by (auto intro!: printable_join simp: printable_quote)
qed (simp_all add: printable_rat printable_quote)

end
