(* ===== verification/FedFetch.thy ===== *)
theory FedFetch
  imports FedJoin Policy JsonText
begin

text \<open>
  The accesses of the federation executor to one source: \<open>fetchLegDirect\<close> (a bounded request
  under the privileges, row policies and masks of the session), \<open>fetchLegStream\<close> (the stream of
  a driving leg or of a leg of a set operation) and \<open>estimateLegRows\<close> (a row count, cached for a
  minute). What lies behind them is the record \<open>world\<close>: the tables of the hub, the connectors,
  the grants and policies as stored, the catalogue. Reading the policies can fail.
\<close>

section \<open>The world of a query\<close>

record resolved_leg =
  rl_source :: string
  rl_resource :: string
  rl_engine :: string
  rl_sync :: string
  rl_reachable :: bool
  rl_schema :: "string option"
  rl_table :: "string option"
  rl_config :: jsval
  rl_rowCount :: "rat option"

text \<open>The key \<open>source::resource\<close> of the resolve map, and the session on the plan.\<close>

record fed_plan =
  fp_resolve :: "((string \<times> string) \<times> resolved_leg) list"
  fp_session :: session_ctx

record world =
  w_grants :: "grant_row list"
  w_policies :: "policy_row list res"
  w_columns :: "string \<Rightarrow> string \<Rightarrow> jsval list option"
  w_hub :: "string \<Rightarrow> jsval list \<Rightarrow> jsval list res"
  w_query :: "string \<Rightarrow> jsval \<Rightarrow> string \<Rightarrow> string \<Rightarrow> canonical_query \<Rightarrow> jsval list res"
  w_sql_stream :: "jsval \<Rightarrow> string \<Rightarrow> jsval list \<Rightarrow> jsval list res"
  w_stream :: "string \<Rightarrow> jsval \<Rightarrow> string \<Rightarrow> string \<Rightarrow> canonical_query \<Rightarrow> jsval list res"
  w_resolve :: "string \<Rightarrow> string \<Rightarrow> resolved_leg res"
  w_parse :: "string \<Rightarrow> jsval option"
  w_cap :: nat
  w_test :: bool

section \<open>MongoDB rows under the catalogue's types\<close>

text \<open>\<open>parseInt(v, 10)\<close>: the sign and the leading digits.\<close>

definition parse_int :: "string \<Rightarrow> rat option" where
  "parse_int s =
     (let t = dropWhile is_space s;
          (neg, u) = (case t of c # u \<Rightarrow> if c = CHR ''-'' then (True, u) else if c = CHR ''+'' then (False, u) else (False, t)
                              | [] \<Rightarrow> (False, t));
          ds = takeWhile is_digit u
      in if ds = [] then None
         else Some (if neg then - of_nat (num_val 10 ds) else of_nat (num_val 10 ds)))"

definition text_types :: "string list" where
  "text_types = [''STRING'', ''VARCHAR'', ''TEXT'', ''BIGINT'']"

definition int_types :: "string list" where
  "int_types = [''INTEGER'', ''INT'', ''SMALLINT'']"

definition float_types :: "string list" where
  "float_types = [''NUMERIC'', ''DECIMAL'', ''FLOAT'', ''DOUBLE'']"

definition bool_types :: "string list" where
  "bool_types = [''BOOLEAN'', ''BOOL'']"

definition coerce_bool :: "jsval \<Rightarrow> jsval" where
  "coerce_bool v =
     (case v of
        JStr s \<Rightarrow>
          (let t = js_lower (js_trim s) in
           if t = ''true'' \<or> t = ''1'' then JBool True
           else if t = ''false'' \<or> t = ''0'' then JBool False
           else JBool (truthy v))
      | JNum q \<Rightarrow> JBool (q \<noteq> 0)
      | JNaN \<Rightarrow> JBool True
      | _ \<Rightarrow> JBool (truthy v))"

definition coerce_value :: "(string \<Rightarrow> jsval option) \<Rightarrow> string \<Rightarrow> jsval \<Rightarrow> jsval" where
  "coerce_value parse ty v =
     (if nullish v then v
      else if ty \<in> set text_types then JStr (js_string v)
      else if ty \<in> set int_types then (case parse_int (js_string v) of Some q \<Rightarrow> JNum q | None \<Rightarrow> v)
      else if ty \<in> set float_types then (case parse_float (js_string v) of Some q \<Rightarrow> JNum q | None \<Rightarrow> v)
      else if ty \<in> set bool_types then coerce_bool v
      else if ty = ''JSON'' \<or> ty = ''JSONB'' then
        (case v of JStr s \<Rightarrow> (case parse s of Some x \<Rightarrow> x | None \<Rightarrow> v) | _ \<Rightarrow> v)
      else v)"

text \<open>\<open>colMap\<close>: the type of every column of the catalogue definition, the last entry of a name counting.\<close>

definition column_types :: "jsval list \<Rightarrow> (string \<times> string) list" where
  "column_types cols =
     foldl (\<lambda>m c. if truthy (js_get ''name'' c) \<and> truthy (js_get ''type'' c)
       then kv_set (js_string (js_get ''name'' c)) (js_upper (js_string (js_get ''type'' c))) m else m) [] cols"

definition coerce_column :: "(string \<Rightarrow> jsval option) \<Rightarrow> fed_row \<Rightarrow> string \<times> string \<Rightarrow> fed_row" where
  "coerce_column parse row ct =
     (case kv_get (fst ct) row of
        None \<Rightarrow> row
      | Some v \<Rightarrow> if nullish v then row else kv_set (fst ct) (coerce_value parse (snd ct) v) row)"

definition with_id :: "fed_row \<Rightarrow> fed_row" where
  "with_id row =
     (if truthy (col_val row ''_id'') \<and> \<not> truthy (col_val row ''id'')
      then kv_set ''id'' (JStr (js_string (col_val row ''_id''))) row else row)"

definition coerce_row :: "(string \<Rightarrow> jsval option) \<Rightarrow> (string \<times> string) list \<Rightarrow> fed_row \<Rightarrow> fed_row" where
  "coerce_row parse types row = foldl (coerce_column parse) (with_id row) types"

definition coerce_rows :: "world \<Rightarrow> string \<Rightarrow> resolved_leg \<Rightarrow> string \<Rightarrow> jsval list \<Rightarrow> jsval list" where
  "coerce_rows w tenantId leg table rows =
     (if rl_engine leg = ''MONGODB'' \<and> rows \<noteq> [] then
        (case w_columns w tenantId table of
           Some cols \<Rightarrow> map (\<lambda>r. JObj (coerce_row (w_parse w) (column_types cols) (obj_of r))) rows
         | None \<Rightarrow> rows)
      else rows)"

section \<open>One request\<close>

definition or_str :: "string option \<Rightarrow> string \<Rightarrow> string" where
  "or_str v dflt = (case v of Some s \<Rightarrow> if s = [] then dflt else s | None \<Rightarrow> dflt)"

definition is_local :: "resolved_leg \<Rightarrow> bool" where
  "is_local leg \<longleftrightarrow> rl_source leg = LOCAL_SOURCE \<or> rl_sync leg = ''SYNC'' \<or> rl_sync leg = ''CDC''"

definition local_schema :: "resolved_leg \<Rightarrow> string \<Rightarrow> string" where
  "local_schema leg tenantSchema =
     (if rl_source leg = LOCAL_SOURCE then tenantSchema else or_str (rl_schema leg) tenantSchema)"

datatype leg_request = HubSql string "jsval list" | ConnectorQuery string string string canonical_query

record leg_result =
  lr_rows :: "jsval list"
  lr_request :: leg_request
  lr_truncated :: bool

definition limited :: "nat \<Rightarrow> canonical_query \<Rightarrow> canonical_query" where
  "limited cap q = q\<lparr>q_limit := Some (min (of_nat cap) (case q_limit q of Some n \<Rightarrow> n | None \<Rightarrow> of_nat cap))\<rparr>"

definition hit_cap :: "nat \<Rightarrow> canonical_query \<Rightarrow> jsval list \<Rightarrow> bool" where
  "hit_cap cap q rows \<longleftrightarrow> length rows \<ge> cap \<and> \<not> (case q_limit q of Some n \<Rightarrow> n < of_nat cap | None \<Rightarrow> False)"

text \<open>The policy of a leg; a failure to resolve it is a warning only.\<close>

definition leg_policy :: "world \<Rightarrow> string \<Rightarrow> string \<Rightarrow> string \<Rightarrow> session_ctx \<Rightarrow> resolved" where
  "leg_policy w tenantId schema table session =
     (case w_policies w of
        Inr ps \<Rightarrow> resolve ps tenantId schema table session
      | Inl _ \<Rightarrow> \<lparr>r_filter = [], r_masks = [], r_applied = []\<rparr>)"

definition governed_query :: "canonical_query \<Rightarrow> js_filter \<Rightarrow> canonical_query" where
  "governed_query q f = (if f = [] then q else q\<lparr>q_filter := mergeIntoFilter (q_filter q) f\<rparr>)"

definition find_leg :: "world \<Rightarrow> fed_plan \<Rightarrow> string \<Rightarrow> string \<Rightarrow> resolved_leg res" where
  "find_leg w plan source resource =
     (case map_of (fp_resolve plan) (source, resource) of Some leg \<Rightarrow> Inr leg | None \<Rightarrow> w_resolve w source resource)"

definition fetch_local :: "world \<Rightarrow> resolved_leg \<Rightarrow> string \<Rightarrow> string \<Rightarrow> canonical_query \<Rightarrow> leg_result res" where
  "fetch_local w leg resource tenantSchema q =
     (case toSql Postgres (Some (local_schema leg tenantSchema)) (or_str (rl_table leg) resource) (limited (w_cap w) q) of
        (text, params) \<Rightarrow>
          mapR (\<lambda>rows. \<lparr>lr_rows = rows, lr_request = HubSql text params, lr_truncated = hit_cap (w_cap w) q rows\<rparr>)
            (w_hub w text params))"

definition fetch_connector ::
  "world \<Rightarrow> string \<Rightarrow> session_ctx \<Rightarrow> resolved_leg \<Rightarrow> string \<Rightarrow> string \<Rightarrow> canonical_query \<Rightarrow> leg_result res" where
  "fetch_connector w tenantId session leg resource tenantSchema q =
     (let schema = or_str (rl_schema leg) tenantSchema; table = or_str (rl_table leg) resource;
          pol = leg_policy w tenantId schema table session;
          sent = governed_query (limited (w_cap w) q) (r_filter pol)
      in bindR (enforce (w_grants w) tenantId schema table (s_role session) ''SELECT'') (\<lambda>_.
           mapR (\<lambda>rows. \<lparr>lr_rows = applyMasks (r_masks pol) (coerce_rows w tenantId leg table rows),
                         lr_request = ConnectorQuery (rl_engine leg) schema table sent,
                         lr_truncated = hit_cap (w_cap w) q rows\<rparr>)
             (w_query w (rl_engine leg) (rl_config leg) schema table sent)))"

definition fetchLegDirect ::
  "world \<Rightarrow> string \<Rightarrow> fed_plan \<Rightarrow> string \<Rightarrow> string \<Rightarrow> string \<Rightarrow> canonical_query \<Rightarrow> leg_result res" where
  "fetchLegDirect w tenantId plan tenantSchema source resource q =
     bindR (find_leg w plan source resource) (\<lambda>leg.
       if is_local leg then fetch_local w leg resource tenantSchema q
       else fetch_connector w tenantId (fp_session plan) leg resource tenantSchema q)"

section \<open>The stream of a leg\<close>

text \<open>\<open>{ ...canonical.filter, ...filter }\<close>.\<close>

definition stream_query :: "canonical_query \<Rightarrow> js_filter \<Rightarrow> canonical_query" where
  "stream_query q f = q\<lparr>q_filter := kv_merge (q_filter q) f\<rparr>"

definition production_stream :: "world \<Rightarrow> fed_plan \<Rightarrow> string \<Rightarrow> string \<Rightarrow> string \<Rightarrow> canonical_query \<Rightarrow> jsval list res" where
  "production_stream w plan tenantSchema source resource q =
     (case map_of (fp_resolve plan) (source, resource) of
        None \<Rightarrow> Inr []
      | Some leg \<Rightarrow>
          let table = or_str (rl_table leg) resource in
          if is_local leg then
            (case toSql Postgres (Some (local_schema leg tenantSchema)) table q of (text, params) \<Rightarrow> w_hub w text params)
          else
            (let schema = or_str (rl_schema leg) tenantSchema in
             if rl_engine leg = ''POSTGRES'' then
               (case toSql Postgres (Some schema) table q of (text, params) \<Rightarrow> w_sql_stream w (rl_config leg) text params)
             else w_stream w (rl_engine leg) (rl_config leg) schema table q))"

definition fetchLegStream ::
  "world \<Rightarrow> string \<Rightarrow> fed_plan \<Rightarrow> string \<Rightarrow> string \<Rightarrow> string \<Rightarrow> canonical_query \<Rightarrow> js_filter \<Rightarrow> jsval list res" where
  "fetchLegStream w tenantId plan tenantSchema source resource q f =
     (if w_test w then mapR lr_rows (fetchLegDirect w tenantId plan tenantSchema source resource (stream_query q f))
      else production_stream w plan tenantSchema source resource (stream_query q f))"

section \<open>The estimate of a leg\<close>

definition empty_query :: canonical_query where
  "empty_query = \<lparr>q_select = [], q_filter = [], q_orderBy = [], q_limit = None, q_offset = None, q_groupBy = [], q_aggregates = []\<rparr>"

text \<open>The probe cache: the count and its expiry in milliseconds by tenant, leg and filter text.\<close>

type_synonym probe_cache = "((string \<times> string \<times> string \<times> string) \<times> (rat \<times> nat)) list"

definition filter_key :: "js_filter option \<Rightarrow> string" where
  "filter_key f = (case f of None \<Rightarrow> [] | Some kvs \<Rightarrow> json_text (JObj kvs))"

definition count_query :: "js_filter option \<Rightarrow> canonical_query" where
  "count_query f = empty_query\<lparr>q_filter := (case f of None \<Rightarrow> [] | Some kvs \<Rightarrow> kvs),
     q_aggregates := [\<lparr>a_func = ''COUNT'', a_column = None, a_alias = ''__cnt'', a_percent = None\<rparr>]\<rparr>"

definition known_count :: "fed_plan \<Rightarrow> string \<Rightarrow> string \<Rightarrow> rat option" where
  "known_count plan source resource =
     Option.bind (map_of (fp_resolve plan) (source, resource)) rl_rowCount"

definition first_value :: "jsval \<Rightarrow> jsval" where
  "first_value row = (case obj_of row of kv # _ \<Rightarrow> snd kv | [] \<Rightarrow> JUndef)"

text \<open>The count pushed to the source; any failure, an empty answer or a non-number falls back.\<close>

definition probe_leg ::
  "world \<Rightarrow> string \<Rightarrow> fed_plan \<Rightarrow> string \<Rightarrow> string \<Rightarrow> string \<Rightarrow> js_filter option \<Rightarrow> rat option" where
  "probe_leg w tenantId plan tenantSchema source resource f =
     (case fetchLegDirect w tenantId plan tenantSchema source resource (count_query f) of
        Inl _ \<Rightarrow> None
      | Inr res \<Rightarrow> (case lr_rows res of [] \<Rightarrow> None | row # _ \<Rightarrow> js_number (first_value row)))"

definition warm_count :: "probe_cache \<Rightarrow> (string \<times> string \<times> string \<times> string) \<Rightarrow> nat \<Rightarrow> rat option" where
  "warm_count cache key now =
     (case map_of cache key of Some (n, expiry) \<Rightarrow> if expiry > now then Some n else None | None \<Rightarrow> None)"

definition estimateLegRows ::
  "world \<Rightarrow> string \<Rightarrow> fed_plan \<Rightarrow> string \<Rightarrow> nat \<Rightarrow> string \<Rightarrow> string \<Rightarrow> js_filter option \<Rightarrow> probe_cache \<Rightarrow> rat option \<times> probe_cache" where
  "estimateLegRows w tenantId plan tenantSchema now source resource f cache =
     (let known = known_count plan source resource; key = (tenantId, source, resource, filter_key f) in
      if (f = None \<or> f = Some []) \<and> known \<noteq> None then (known, cache)
      else (case warm_count cache key now of
          Some n \<Rightarrow> (Some n, cache)
        | None \<Rightarrow>
            (case probe_leg w tenantId plan tenantSchema source resource f of
               Some n \<Rightarrow> (Some n, (key, (n, now + 60000)) # cache)
             | None \<Rightarrow> (known, cache))))"

end
