(* ===== verification/FedGovern.thy ===== *)
theory FedGovern
  imports FedFetch
begin

text \<open>
  What the accesses of the federation executor guarantee: the privileges, row policies and masks
  on a connector leg, the types of the rows of a MongoDB leg, and what happens when the policies
  cannot be read or when a leg is streamed.
\<close>

section \<open>A direct fetch\<close>

lemma governed_filter: "q_filter (governed_query q f) = mergeIntoFilter (q_filter q) f"
  by (simp add: governed_query_def)

lemma governed_limit: "q_limit (governed_query q f) = q_limit q"
  by (simp add: governed_query_def)

lemma fetch_connector_Inr:
  assumes "fetch_connector w tenantId session leg resource tenantSchema q = Inr res"
  shows "enforce (w_grants w) tenantId (or_str (rl_schema leg) tenantSchema) (or_str (rl_table leg) resource) (s_role session) ''SELECT'' = Inr ()"
    and "\<exists>raw sent. sent = governed_query (limited (w_cap w) q)
             (r_filter (leg_policy w tenantId (or_str (rl_schema leg) tenantSchema) (or_str (rl_table leg) resource) session)) \<and>
           w_query w (rl_engine leg) (rl_config leg) (or_str (rl_schema leg) tenantSchema) (or_str (rl_table leg) resource) sent = Inr raw \<and>
           lr_request res = ConnectorQuery (rl_engine leg) (or_str (rl_schema leg) tenantSchema) (or_str (rl_table leg) resource) sent \<and>
           lr_rows res = applyMasks (r_masks (leg_policy w tenantId (or_str (rl_schema leg) tenantSchema) (or_str (rl_table leg) resource) session))
             (coerce_rows w tenantId leg (or_str (rl_table leg) resource) raw)"
  using assms by (auto simp: fetch_connector_def Let_def)

text \<open>
  C4: a fetch from a connector leg that returns rows was allowed by the table's grants; the one
  request it made is limited to the cap and carries the condition of every clause of every policy
  that applies to the session (clauses on the same column and operator agreeing on the value);
  and the rows are the answer, under the catalogue's types, masked by the applicable masks.
\<close>

theorem connector_leg_governed:
  assumes fetch: "fetchLegDirect w tenantId plan tenantSchema source resource q = Inr res"
    and leg: "find_leg w plan source resource = Inr leg" "\<not> is_local leg" and ps: "w_policies w = Inr ps"
    and loc: "sch = or_str (rl_schema leg) tenantSchema" "tb = or_str (rl_table leg) resource" "session = fp_session plan"
  shows "enforce (w_grants w) tenantId sch tb (s_role session) ''SELECT'' = Inr () \<and>
    (\<exists>sent raw. lr_request res = ConnectorQuery (rl_engine leg) sch tb sent \<and>
       (\<exists>n. q_limit sent = Some n \<and> n \<le> of_nat (w_cap w)) \<and>
       (\<forall>r c col oper v. r \<in> set ps \<longrightarrow> p_tenant r = tenantId \<longrightarrow> p_schema r = sch \<longrightarrow> p_table r = tb \<longrightarrow>
          roleMatches session (p_roles r) \<longrightarrow> c \<in> set (arr_of (p_filter r)) \<longrightarrow> clause_cond session c = Some (col, oper, v) \<longrightarrow>
          (\<forall>r' c' v'. r' \<in> set ps \<longrightarrow> p_tenant r' = tenantId \<longrightarrow> p_schema r' = sch \<longrightarrow> p_table r' = tb \<longrightarrow>
             roleMatches session (p_roles r') \<longrightarrow> c' \<in> set (arr_of (p_filter r')) \<longrightarrow>
             clause_cond session c' = Some (col, oper, v') \<longrightarrow> v' = v) \<longrightarrow>
          cond_of (q_filter sent) col oper = Some v) \<and>
       w_query w (rl_engine leg) (rl_config leg) sch tb sent = Inr raw \<and>
       lr_rows res = applyMasks (r_masks (resolve ps tenantId sch tb session)) (coerce_rows w tenantId leg tb raw))"
proof -
  have "fetch_connector w tenantId session leg resource tenantSchema q = Inr res"
    using fetch leg loc by (simp add: fetchLegDirect_def)
  note facts = fetch_connector_Inr [OF this, folded loc]
  have pol: "leg_policy w tenantId sch tb session = resolve ps tenantId sch tb session"
    using ps by (simp add: leg_policy_def)
  obtain raw sent where sent: "sent = governed_query (limited (w_cap w) q) (r_filter (resolve ps tenantId sch tb session))"
      and raw: "w_query w (rl_engine leg) (rl_config leg) sch tb sent = Inr raw"
        "lr_request res = ConnectorQuery (rl_engine leg) sch tb sent"
        "lr_rows res = applyMasks (r_masks (resolve ps tenantId sch tb session)) (coerce_rows w tenantId leg tb raw)"
    using facts(2) unfolding pol by blast
  have "\<exists>n. q_limit sent = Some n \<and> n \<le> of_nat (w_cap w)"
    unfolding sent governed_limit by (simp add: limited_def)
  moreover have "cond_of (q_filter sent) col oper = Some v"
    if "r \<in> set ps" "p_tenant r = tenantId" "p_schema r = sch" "p_table r = tb" "roleMatches session (p_roles r)"
      "c \<in> set (arr_of (p_filter r))" "clause_cond session c = Some (col, oper, v)"
      and "\<forall>r' c' v'. r' \<in> set ps \<longrightarrow> p_tenant r' = tenantId \<longrightarrow> p_schema r' = sch \<longrightarrow> p_table r' = tb \<longrightarrow>
             roleMatches session (p_roles r') \<longrightarrow> c' \<in> set (arr_of (p_filter r')) \<longrightarrow>
             clause_cond session c' = Some (col, oper, v') \<longrightarrow> v' = v" for r c col oper v
    unfolding sent governed_filter by (rule row_policies_enforced [OF that(1-7)]) (use that(8) in blast)
  ultimately show ?thesis using facts(1) raw by blast
qed

section \<open>When the policies cannot be read\<close>

lemma no_policies: "resolve [] tenantId sch tb session = \<lparr>r_filter = [], r_masks = [], r_applied = []\<rparr>"
  by (simp add: resolve_def)

text \<open>
  A failure to read the policies is no error: the fetch proceeds as if the tenant had none,
  with no row filter and no mask.
\<close>

lemma policy_failure_fails_open:
  "fetchLegDirect (w\<lparr>w_policies := Inl e\<rparr>) tenantId plan tenantSchema source resource q =
   fetchLegDirect (w\<lparr>w_policies := Inr []\<rparr>) tenantId plan tenantSchema source resource q"
proof -
  have "leg_policy (w\<lparr>w_policies := Inl e\<rparr>) = leg_policy (w\<lparr>w_policies := Inr []\<rparr>)"
    by (simp add: fun_eq_iff leg_policy_def no_policies)
  moreover have "coerce_rows (w\<lparr>w_policies := p\<rparr>) = coerce_rows w" for p
    by (intro ext, unfold coerce_rows_def, simp cong: if_cong option.case_cong)
  ultimately have "fetch_connector (w\<lparr>w_policies := Inl e\<rparr>) = fetch_connector (w\<lparr>w_policies := Inr []\<rparr>)"
    by (intro ext) (simp add: fetch_connector_def Let_def)
  moreover have "find_leg (w\<lparr>w_policies := p\<rparr>) = find_leg w" "fetch_local (w\<lparr>w_policies := p\<rparr>) = fetch_local w" for p
    by (simp_all add: fun_eq_iff find_leg_def fetch_local_def split: option.split)
  ultimately show ?thesis by (simp only: fetchLegDirect_def)
qed

section \<open>Streams\<close>

lemma production_stream_ungoverned:
  "production_stream (w\<lparr>w_grants := g, w_policies := p\<rparr>) (plan\<lparr>fp_session := s\<rparr>) = production_stream w plan"
  by (intro ext, unfold production_stream_def, simp add: Let_def split: option.split prod.split cong: if_cong)

text \<open>
  Outside the test environment the stream of a leg does not depend on the grants, the
  policies or the session: the driving leg of a join and every leg of a set operation are read
  without any of them.
\<close>

lemma stream_ignores_governance:
  assumes "\<not> w_test w"
  shows "fetchLegStream (w\<lparr>w_grants := g, w_policies := p\<rparr>) tenantId (plan\<lparr>fp_session := s\<rparr>) tenantSchema source resource q f =
    fetchLegStream w tenantId plan tenantSchema source resource q f"
  using assms by (simp add: fetchLegStream_def production_stream_ungoverned)

section \<open>The types of MongoDB rows\<close>






















section \<open>Examples\<close>

definition closed_table :: grant_row where
  "closed_table = \<lparr>g_tenant = ''acme'', g_schema = ''s'', g_table = ''orders'',
     g_grants = [JObj [(''role'', JStr ''ANALYST''), (''privileges'', JArr [JStr ''SELECT''])]], g_source = ''API''\<rparr>"

definition mongo_leg :: resolved_leg where
  "mongo_leg = \<lparr>rl_source = ''mongo'', rl_resource = ''orders'', rl_engine = ''MONGODB'',
     rl_sync = ''VIRTUAL'', rl_reachable = False, rl_schema = Some ''s'',
     rl_table = Some ''orders'', rl_config = JNull, rl_rowCount = None\<rparr>"

definition order_columns :: "jsval list" where
  "order_columns = [JObj [(''name'', JStr ''amount''), (''type'', JStr ''integer'')], JObj [(''name'', JStr ''paid''), (''type'', JStr ''bool'')]]"

definition mongo_world :: world where
  "mongo_world = \<lparr>w_grants = [closed_table], w_policies = Inr [region_policy], w_columns = \<lambda>_ _. Some order_columns,
     w_hub = \<lambda>_ _. Inr [], w_query = \<lambda>_ _ _ _ _. Inr [JObj [(''amount'', JStr ''12''), (''paid'', JStr ''TRUE '')]],
     w_sql_stream = \<lambda>_ _ _. Inr [], w_stream = \<lambda>_ _ _ _ _. Inr [JObj [(''amount'', JStr ''12'')]],
     w_resolve = \<lambda>_ _. Inr mongo_leg, w_parse = \<lambda>_. None, w_cap = 50000, w_test = False\<rparr>"

definition plan_for :: "session_ctx \<Rightarrow> fed_plan" where
  "plan_for session = \<lparr>fp_resolve = [((''mongo'', ''orders''), mongo_leg)], fp_session = session\<rparr>"

theorem connector_leg_governed_witness:
  "\<exists>sent raw. mapR lr_request (fetchLegDirect mongo_world ''acme'' (plan_for eu_session) ''t'' ''mongo'' ''orders'' empty_query)
       = Inr (ConnectorQuery ''MONGODB'' ''s'' ''orders'' sent) \<and>
     cond_of (q_filter sent) ''region'' ''$eq'' = Some (JStr ''EU'') \<and>
     w_query mongo_world ''MONGODB'' JNull ''s'' ''orders'' sent = Inr raw"
proof -
  have ok: "isOk (fetchLegDirect mongo_world ''acme'' (plan_for eu_session) ''t'' ''mongo'' ''orders'' empty_query)"
    by code_simp
  then obtain res where res: "fetchLegDirect mongo_world ''acme'' (plan_for eu_session) ''t'' ''mongo'' ''orders'' empty_query = Inr res"
    by (auto simp: isOk_iff)
  have leg: "find_leg mongo_world (plan_for eu_session) ''mongo'' ''orders'' = Inr mongo_leg" "\<not> is_local mongo_leg"
    by code_simp+
  have ps: "w_policies mongo_world = Inr [region_policy]" by (simp add: mongo_world_def)
  have loc: "''s'' = or_str (rl_schema mongo_leg) ''t''" "''orders'' = or_str (rl_table mongo_leg) ''orders''"
      "eu_session = fp_session (plan_for eu_session)"
    by code_simp+
  have c: "clause_cond eu_session region_clause = Some (''region'', ''$eq'', JStr ''EU'')"
      "roleMatches eu_session (p_roles region_policy)"
    by code_simp+
  have p: "p_tenant region_policy = ''acme''" "p_schema region_policy = ''s''" "p_table region_policy = ''orders''"
      "arr_of (p_filter region_policy) = [region_clause]"
    by (simp_all add: region_policy_def)
  have e: "rl_engine mongo_leg = ''MONGODB''" "rl_config mongo_leg = JNull" by (simp_all add: mongo_leg_def)
  from connector_leg_governed [OF res leg ps loc] show ?thesis
    unfolding res e mapR.simps using c p by (elim conjE exE) (intro exI conjI, auto)
qed

theorem stream_ignores_governance_witness:
  "fetchLegStream (mongo_world\<lparr>w_grants := [], w_policies := Inr []\<rparr>) ''acme'' ((plan_for eu_session)\<lparr>fp_session := eu_session\<rparr>) ''t'' ''mongo'' ''orders'' empty_query []
     = fetchLegStream mongo_world ''acme'' (plan_for eu_session) ''t'' ''mongo'' ''orders'' empty_query []"
  by (rule stream_ignores_governance) (simp add: mongo_world_def)


end
