(* ===== verification/FedSetOp.thy ===== *)
theory FedSetOp
  imports FedFetch
begin

text \<open>
  \<open>FederationExecutor.executeSetOp\<close>: UNION, INTERSECT and EXCEPT across sources. The rows of the
  legs are compared by their JSON text. They are distributed by a hash of that text over a
  number of partitions that depends on the estimated size, in memory or as the lines of one
  file per partition, and the operation is carried out partition by partition. The result is
  the set operation on the texts whatever the number and the place of the partitions.

  \<open>JSON.parse\<close> of a stored text is the field \<open>w_parse\<close>; a text it rejects is a \<open>SyntaxError\<close>.
\<close>

section \<open>The partitions\<close>

datatype set_op = SetUnion | SetIntersect | SetExcept

definition op_of :: "jsval \<Rightarrow> set_op" where
  "op_of ast = (if truthy (js_get ''union'' ast) then SetUnion else if truthy (js_get ''intersect'' ast) then SetIntersect else SetExcept)"

definition set_legs :: "jsval \<Rightarrow> jsval list" where
  "set_legs ast = arr_of (or_val (js_get ''union'' ast) (or_val (js_get ''intersect'' ast) (js_get ''except'' ast)))"

definition outer_limit :: "jsval \<Rightarrow> rat option" where
  "outer_limit ast = (case num_field ''limit'' ast of Some q \<Rightarrow> if q > 0 then Some q else None | None \<Rightarrow> None)"

definition num_partitions :: "rat \<Rightarrow> rat option \<Rightarrow> nat" where
  "num_partitions est bound =
     (if (case bound of Some n \<Rightarrow> n < 10000 | None \<Rightarrow> False) then 1
      else if est < 50000 then 1
      else if est < 2000000 then 16
      else if est < 10000000 then 64
      else 128)"

text \<open>\<open>hash = (hash << 5) - hash + code; hash |= 0\<close> in 32 bits, and \<open>Math.abs(hash) % n\<close>.\<close>

definition text_hash :: "string \<Rightarrow> 32 word" where
  "text_hash s = foldl (\<lambda>h c. push_bit 5 h - h + of_nat (code_unit c)) 0 s"

definition part_index :: "nat \<Rightarrow> string \<Rightarrow> nat" where
  "part_index n s = nat \<bar>sint (text_hash s)\<bar> mod n"

definition row_line :: "nat \<times> string \<Rightarrow> string" where
  "row_line it = show_nat (fst it) @ ''|'' @ snd it"

text \<open>Appending the rows to the partitions: lists of lines, or files of lines ended by a newline.\<close>

definition add_memory :: "nat \<Rightarrow> string list list \<Rightarrow> nat \<times> string \<Rightarrow> string list list" where
  "add_memory n parts it = parts[part_index n (snd it) := parts ! part_index n (snd it) @ [row_line it]]"

definition add_disk :: "nat \<Rightarrow> string option list \<Rightarrow> nat \<times> string \<Rightarrow> string option list" where
  "add_disk n files it =
     files[part_index n (snd it) :=
       Some ((case files ! part_index n (snd it) of Some s \<Rightarrow> s | None \<Rightarrow> []) @ row_line it @ [newline])]"

definition file_lines :: "string option \<Rightarrow> string list" where
  "file_lines f = (case f of None \<Rightarrow> [] | Some s \<Rightarrow> filter (\<lambda>l. l \<noteq> []) (split_chr newline s))"

definition partition_lines :: "bool \<Rightarrow> nat \<Rightarrow> (nat \<times> string) list \<Rightarrow> string list list" where
  "partition_lines disk n items =
     (if disk then map file_lines (foldl (add_disk n) (replicate n None) items)
      else foldl (add_memory n) (replicate n []) items)"

section \<open>One partition\<close>

text \<open>A line back to its leg and its text.\<close>

definition parse_line :: "string \<Rightarrow> (nat \<times> string) option" where
  "parse_line line =
     (let l = takeWhile (\<lambda>c. c \<noteq> CHR ''|'') line in
      if length l = length line then None else Some (num_val 10 l, drop (length l + 1) line))"

definition leg_texts :: "string list \<Rightarrow> nat \<Rightarrow> string list" where
  "leg_texts lines l = js_dedup (map snd (filter (\<lambda>it. fst it = l) (List.map_filter parse_line lines)))"

definition combine_partition :: "set_op \<Rightarrow> nat \<Rightarrow> string list \<Rightarrow> string list" where
  "combine_partition op k lines =
     (case op of
        SetUnion \<Rightarrow> js_dedup (concat (map (leg_texts lines) [0..<k]))
      | SetIntersect \<Rightarrow> filter (\<lambda>t. list_all (\<lambda>l. t \<in> set (leg_texts lines l)) [1..<k]) (leg_texts lines 0)
      | SetExcept \<Rightarrow> filter (\<lambda>t. \<not> list_ex (\<lambda>l. t \<in> set (leg_texts lines l)) [1..<k]) (leg_texts lines 0))"

definition setop_texts :: "set_op \<Rightarrow> nat \<Rightarrow> string list list \<Rightarrow> string list" where
  "setop_texts op n legs =
     (let items = concat (map (\<lambda>(i, ts). map (Pair i) ts) (enumerate 0 legs))
      in concat (map (combine_partition op (length legs)) (partition_lines (n > 1) n items)))"

section \<open>The operation\<close>

definition leg_cap :: "nat \<Rightarrow> rat option \<Rightarrow> nat" where
  "leg_cap envCap bound = (if envCap = 50000 then (case bound of Some q \<Rightarrow> nat \<lceil>q\<rceil> | None \<Rightarrow> 10000000) else envCap)"

definition leg_source :: "jsval \<Rightarrow> string" where
  "leg_source leg = js_string (or_val (js_get ''source'' (js_get ''from'' leg)) (JStr LOCAL_SOURCE))"

definition leg_resource :: "jsval \<Rightarrow> string" where
  "leg_resource leg = js_string (js_get ''resource'' (js_get ''from'' leg))"

text \<open>The estimates of the legs, one after the other; an unknown one counts for 50000 rows.\<close>

fun estimate_legs :: "world \<Rightarrow> string \<Rightarrow> fed_plan \<Rightarrow> string \<Rightarrow> nat \<Rightarrow> jsval list \<Rightarrow> probe_cache \<Rightarrow> rat \<times> probe_cache" where
  "estimate_legs w tenantId plan tenantSchema now [] cache = (0, cache)"
| "estimate_legs w tenantId plan tenantSchema now (leg # legs) cache =
     (let f = q_filter (astLegToCanonical leg) in
      case estimateLegRows w tenantId plan tenantSchema now (leg_source leg) (leg_resource leg)
             (if f = [] then None else Some f) cache of
        (n, cache1) \<Rightarrow>
          (case estimate_legs w tenantId plan tenantSchema now legs cache1 of
             (rest, cache2) \<Rightarrow> ((case n of Some q \<Rightarrow> q | None \<Rightarrow> 50000) + rest, cache2)))"

definition nested_join :: js_err where
  "nested_join = Err 0 ''NESTED_JOIN''"

definition syntax_error :: js_err where
  "syntax_error = Err 0 ''SyntaxError''"

definition stream_leg :: "world \<Rightarrow> string \<Rightarrow> fed_plan \<Rightarrow> string \<Rightarrow> nat \<Rightarrow> jsval \<Rightarrow> string list res" where
  "stream_leg w tenantId plan tenantSchema cap leg =
     (if arr_of (js_get ''joins'' leg) \<noteq> [] then Inl nested_join
      else mapR (\<lambda>rows. map (\<lambda>r. json_text (JObj (projectRowToAlias (obj_of r) (js_get ''select'' leg)))) (take cap rows))
        (fetchLegStream w tenantId plan tenantSchema (leg_source leg) (leg_resource leg) (astLegToCanonical leg) []))"

definition parse_text :: "(string \<Rightarrow> jsval option) \<Rightarrow> string \<Rightarrow> jsval res" where
  "parse_text parse t = (case parse t of Some v \<Rightarrow> Inr v | None \<Rightarrow> Inl syntax_error)"

definition executeSetOp :: "world \<Rightarrow> string \<Rightarrow> fed_plan \<Rightarrow> string \<Rightarrow> nat \<Rightarrow> probe_cache \<Rightarrow> jsval \<Rightarrow> jsval list res \<times> probe_cache" where
  "executeSetOp w tenantId plan tenantSchema now cache ast =
     (case estimate_legs w tenantId plan tenantSchema now (set_legs ast) cache of
        (est, cache') \<Rightarrow>
          (bindR (mapMR (stream_leg w tenantId plan tenantSchema (leg_cap (w_cap w) (outer_limit ast))) (set_legs ast)) (\<lambda>legs.
             bindR (if set_legs ast = [] \<and> op_of ast \<noteq> SetUnion then Inl type_error
                    else mapMR (parse_text (w_parse w)) (setop_texts (op_of ast) (num_partitions est (outer_limit ast)) legs)) (\<lambda>rows.
               Inr (map JObj (applyOrderLimit (map obj_of rows) ast)))), cache'))"

section \<open>The partitions hold the rows\<close>

lemma part_index_less: "0 < n \<Longrightarrow> part_index n s < n"
  by (simp add: part_index_def)

lemma memory_lines:
  "p < n \<Longrightarrow> foldl (add_memory n) (replicate n []) items ! p = map row_line (filter (\<lambda>it. part_index n (snd it) = p) items)"
  (is "_ \<Longrightarrow> ?parts items ! p = ?lines items")
proof (induction items rule: rev_induct)
  case (snoc it items)
  have "length (foldl (add_memory n) ps xs) = length ps" for ps xs
    by (induction xs arbitrary: ps) (simp_all add: add_memory_def)
  then have "length (?parts items) = n" by simp
  with snoc show ?case by (auto simp: add_memory_def nth_list_update)
qed simp

lemma line_text: "printable t \<Longrightarrow> newline \<notin> set (row_line (i, t))"
proof -
  assume "printable t"
  have "32 \<le> code_unit c" if "c \<in> set (row_line (i, t))" for c
    using that \<open>printable t\<close> printable_show_nat [of i] by (auto simp: row_line_def printable_def)
  moreover have "code_unit newline = 10" by (simp add: newline_def)
  ultimately show ?thesis by fastforce
qed

definition whole_lines :: "string option \<Rightarrow> bool" where
  "whole_lines f \<longleftrightarrow> (case f of Some s \<Rightarrow> s \<noteq> [] \<and> last s = newline | None \<Rightarrow> True)"

lemma file_lines_append:
  assumes "newline \<notin> set l" "l \<noteq> []" "whole_lines f"
  shows "file_lines (Some ((case f of Some s \<Rightarrow> s | None \<Rightarrow> []) @ l @ [newline])) = file_lines f @ [l]"
proof -
  have "filter (\<lambda>l. l \<noteq> []) (split_chr newline (s @ l @ [newline])) = filter (\<lambda>l. l \<noteq> []) (split_chr newline s) @ [l]"
    if "s = [] \<or> last s = newline" for s
    using that
  proof (induction "length s" arbitrary: s rule: less_induct)
    case less
    show ?case
    proof (cases "newline \<in> set s")
      case True
      then obtain a b where s: "s = a @ newline # b" "newline \<notin> set a" by (meson split_list_first)
      with less.prems have "b = [] \<or> last b = newline" by (cases b) auto
      with less.hyps [of b] s show ?thesis by (simp add: split_append_sep)
    next
      case False
      with less.prems have "s = []" by (metis last_in_set)
      with assms show ?thesis using split_append_sep [of newline l "[]"] by simp
    qed
  qed
  moreover have "file_lines None = []" by (simp add: file_lines_def)
  ultimately show ?thesis
    using assms split_append_sep [of newline l "[]"] by (cases f) (auto simp: file_lines_def whole_lines_def)
qed

lemma length_foldl_add: "length (foldl (add_disk n) ps xs) = length ps"
  by (induction xs arbitrary: ps) (simp_all add: add_disk_def)

lemma disk_lines:
  assumes "p < n" "\<And>it. it \<in> set items \<Longrightarrow> printable (snd it)"
  shows "file_lines (foldl (add_disk n) (replicate n None) items ! p) = map row_line (filter (\<lambda>it. part_index n (snd it) = p) items)
    \<and> whole_lines (foldl (add_disk n) (replicate n None) items ! p)"
    (is "file_lines (?files items ! p) = ?lines items \<and> _")
  using assms(2)
proof (induction items rule: rev_induct)
  case Nil
  then show ?case using assms(1) by (simp add: file_lines_def whole_lines_def)
next
  case (snoc it items)
  have IH: "file_lines (?files items ! p) = ?lines items" "whole_lines (?files items ! p)"
    using snoc by auto
  have line: "newline \<notin> set (row_line it)" "row_line it \<noteq> []"
    using snoc.prems [of it] line_text [of "snd it" "fst it"] by (simp_all add: row_line_def)
  have len: "p < length (?files items)" using assms(1) by (simp add: length_foldl_add)
  show ?case
  proof (cases "part_index n (snd it) = p")
    case True
    with IH len file_lines_append [OF line IH(2)] show ?thesis
      by (simp add: add_disk_def whole_lines_def)
  next
    case False
    with IH show ?thesis by (simp add: add_disk_def)
  qed
qed

lemma partition_lines_nth:
  assumes "0 < n" "\<And>it. it \<in> set items \<Longrightarrow> printable (snd it)"
  shows "partition_lines disk n items = map (\<lambda>p. map row_line (filter (\<lambda>it. part_index n (snd it) = p) items)) [0..<n]"
proof (rule nth_equalityI)
  have "length (foldl (add_memory n) ps items) = length ps" for ps
    by (induction items arbitrary: ps) (simp_all add: add_memory_def)
  then show len: "length (partition_lines disk n items) = length (map (\<lambda>p. map row_line (filter (\<lambda>it. part_index n (snd it) = p) items)) [0..<n])"
    by (simp add: partition_lines_def length_foldl_add)
  fix p assume "p < length (partition_lines disk n items)"
  then have p: "p < n" using len by simp
  with disk_lines [OF p assms(2)] memory_lines [OF p]
  show "partition_lines disk n items ! p = map (\<lambda>p. map row_line (filter (\<lambda>it. part_index n (snd it) = p) items)) [0..<n] ! p"
    by (simp add: partition_lines_def length_foldl_add)
qed

lemma parse_row_line: "parse_line (row_line it) = Some it"
proof -
  have "CHR ''|'' \<notin> set (show_nat i)" for i
    using show_nat_digits [of "CHR ''|''" i] by (auto simp: is_digit_def)
  then have "takeWhile (\<lambda>c. c \<noteq> CHR ''|'') (show_nat i @ ''|'' @ t) = show_nat i" for i t
    by (simp add: takeWhile_append1 takeWhile_tail) (metis append_Nil2 takeWhile_eq_all_conv takeWhile_append2 takeWhile.simps(2))
  then show ?thesis
    by (cases it) (simp add: parse_line_def row_line_def Let_def num_val_show)
qed

lemma leg_texts_lines: "set (leg_texts (map row_line items) l) = {t. (l, t) \<in> set items}"
proof -
  have "List.map_filter parse_line (map row_line items) = items"
    by (induction items) (simp_all add: map_filter_simps parse_row_line)
  then show ?thesis by (force simp: leg_texts_def)
qed

section \<open>The result is the set operation\<close>

definition op_set :: "set_op \<Rightarrow> 'a set list \<Rightarrow> 'a set" where
  "op_set op xs =
     (case op of
        SetUnion \<Rightarrow> \<Union>(set xs)
      | SetIntersect \<Rightarrow> \<Inter>(set xs)
      | SetExcept \<Rightarrow> hd xs - \<Union>(set (tl xs)))"

lemma set_enumerate_legs: "(l, t) \<in> set (concat (map (\<lambda>(i, ts). map (Pair i) ts) (enumerate 0 legs))) \<longleftrightarrow> l < length legs \<and> t \<in> set (legs ! l)"
proof -
  have "(l, t) \<in> set (concat (map (\<lambda>(i, ts). map (Pair i) ts) (enumerate n legs))) \<longleftrightarrow> n \<le> l \<and> l < n + length legs \<and> t \<in> set (legs ! (l - n))" for n
  proof (induction legs arbitrary: n)
    case (Cons x xs)
    then show ?case by (cases "l = n") (auto simp: Suc_diff_Suc nth_Cons')
  qed simp
  from this [of 0] show ?thesis by simp
qed

lemma combine_distinct: "distinct (combine_partition op k lines)"
  by (simp add: combine_partition_def leg_texts_def split: set_op.split)

lemma later_legs: "(\<forall>l \<in> {1..<length (x # xs)}. Q ((x # xs) ! l)) \<longleftrightarrow> (\<forall>ts \<in> set xs. Q ts)"
proof
  assume L: "\<forall>l \<in> {1..<length (x # xs)}. Q ((x # xs) ! l)"
  have "Q (xs ! i)" if "i < length xs" for i 
  proof -
    from that have "Suc i \<in> {1..<length (x # xs)}" by simp
    with L have "Q ((x # xs) ! Suc i)" by (rule bspec)
    then show ?thesis by simp
  qed
  then show "\<forall>ts \<in> set xs. Q ts" by (metis in_set_conv_nth)
next
  assume R: "\<forall>ts \<in> set xs. Q ts"
  have "Q ((x # xs) ! l)" if "1 \<le> l" "l < length (x # xs)" for l
    using R that by (cases l) auto
  then show "\<forall>l \<in> {1..<length (x # xs)}. Q ((x # xs) ! l)" by simp
qed

lemma combine_set:
  assumes "legs \<noteq> []" "\<And>l. set (leg_texts lines l) = {t. l < length legs \<and> t \<in> set (legs ! l) \<and> P t}"
  shows "set (combine_partition op (length legs) lines) = {t \<in> op_set op (map set legs). P t}"
proof -
  obtain x xs where legs: "legs = x # xs" using assms(1) by (cases legs) auto
  have first: "t \<in> set (leg_texts lines 0) \<longleftrightarrow> t \<in> set x \<and> P t" for t
    by (simp add: assms(2) legs)
  have rest: "(\<forall>l \<in> {1..<length legs}. t \<in> set (leg_texts lines l)) \<longleftrightarrow> (\<forall>ts \<in> set xs. t \<in> set ts)"
      "(\<forall>l \<in> {1..<length legs}. t \<notin> set (leg_texts lines l)) \<longleftrightarrow> (\<forall>ts \<in> set xs. t \<notin> set ts)" if "P t" for t
    using that later_legs [of x xs "\<lambda>ts. t \<in> set ts"] later_legs [of x xs "\<lambda>ts. t \<notin> set ts"]
    by (simp_all add: assms(2) legs)
  show ?thesis
  proof (cases op)
    case SetUnion
    have "t \<in> set (concat (map (leg_texts lines) [0..<length legs])) \<longleftrightarrow> (\<exists>ts \<in> set legs. t \<in> set ts) \<and> P t" for t
    proof -
      have "(\<exists>l < length legs. t \<in> set (legs ! l)) \<longleftrightarrow> (\<exists>ts \<in> set legs. t \<in> set ts)"
        by (metis in_set_conv_nth)
      then show ?thesis by (auto simp: assms(2))
    qed
    then show ?thesis using SetUnion by (auto simp: combine_partition_def op_set_def simp del: set_concat)
  next
    case SetIntersect
    then show ?thesis
      using first rest(1) by (auto simp: combine_partition_def op_set_def list_all_iff legs simp del: upt_Suc)
  next
    case SetExcept
    then show ?thesis
      using first rest(2) by (auto simp: combine_partition_def op_set_def list_ex_iff legs simp del: upt_Suc)
  qed
qed

lemma distinct_concat_disjoint:
  "(\<And>p. p < n \<Longrightarrow> distinct (f p)) \<Longrightarrow> (\<And>p q t. p < n \<Longrightarrow> t \<in> set (f p) \<Longrightarrow> h t = p) \<Longrightarrow>
     distinct (concat (map f [0..<n]))"
proof (induction n)
  case (Suc n)
  have "set (concat (map f [0..<n])) \<inter> set (f n) = {}"
  proof (intro equals0I)
    fix t assume "t \<in> set (concat (map f [0..<n])) \<inter> set (f n)"
    then obtain p where "p < n" "t \<in> set (f p)" "t \<in> set (f n)" by auto
    then have "h t = p" "h t = n" using Suc.prems(2) [of p t] Suc.prems(2) [of n t] by simp_all
    with \<open>p < n\<close> show False by simp
  qed
  with Suc show ?case by simp
qed simp

lemma setop_texts_parts:
  assumes "0 < n" "legs \<noteq> []" "\<And>ts t. ts \<in> set legs \<Longrightarrow> t \<in> set ts \<Longrightarrow> printable t"
  shows "\<exists>f. setop_texts op n legs = concat (map f [0..<n]) \<and>
    (\<forall>p < n. distinct (f p) \<and> set (f p) = {t \<in> op_set op (map set legs). part_index n t = p})"
proof -
  define items where "items = concat (map (\<lambda>(i, ts). map (Pair i) ts) (enumerate 0 legs))"
  have items: "(l, t) \<in> set items \<longleftrightarrow> l < length legs \<and> t \<in> set (legs ! l)" for l t
    unfolding items_def by (rule set_enumerate_legs)
  then have print: "printable (snd it)" if "it \<in> set items" for it
  proof -
    have "fst it < length legs" "snd it \<in> set (legs ! fst it)"
      using that items [of "fst it" "snd it"] by simp_all
    then show ?thesis using assms(3) nth_mem by blast
  qed
  let ?lines = "\<lambda>p. map row_line (filter (\<lambda>it. part_index n (snd it) = p) items)"
  let ?f = "\<lambda>p. combine_partition op (length legs) (?lines p)"
  have "setop_texts op n legs = concat (map ?f [0..<n])"
  proof -
    have "partition_lines (n > 1) n items = map ?lines [0..<n]"
      by (rule partition_lines_nth [OF assms(1)]) (rule print)
    then show ?thesis unfolding setop_texts_def items_def [symmetric] Let_def by (simp add: o_def)
  qed
  moreover have "set (?f p) = {t \<in> op_set op (map set legs). part_index n t = p}" for p
    by (rule combine_set [OF assms(2)]) (auto simp: leg_texts_lines items)
  ultimately show ?thesis using combine_distinct by (intro exI [of _ ?f]) blast
qed

text \<open>
  C6: whatever the estimated size, and so the number of partitions and whether they are files,
  the rows a set operation returns are the set operation on the rows of the legs, each once.
\<close>

theorem set_operation_exact:
  assumes "legs \<noteq> []"
  shows "distinct (setop_texts op (num_partitions est bound) (map (map json_text) legs)) \<and>
    set (setop_texts op (num_partitions est bound) (map (map json_text) legs)) = op_set op (map (\<lambda>rows. json_text ` set rows) legs)"
proof -
  let ?n = "num_partitions est bound" and ?legs = "map (map json_text) legs"
  have n: "0 < ?n" by (simp add: num_partitions_def)
  obtain f where f: "setop_texts op ?n ?legs = concat (map f [0..<?n])"
      "\<forall>p < ?n. distinct (f p) \<and> set (f p) = {t \<in> op_set op (map set ?legs). part_index ?n t = p}"
  proof -
    have "printable t" if "ts \<in> set ?legs" "t \<in> set ts" for ts t using that printable_json by auto
    then have "\<exists>f. setop_texts op ?n ?legs = concat (map f [0..<?n]) \<and>
      (\<forall>p < ?n. distinct (f p) \<and> set (f p) = {t \<in> op_set op (map set ?legs). part_index ?n t = p})"
      using assms by (intro setop_texts_parts [OF n]) simp
    then show thesis using that by blast
  qed
  have "distinct (concat (map f [0..<?n]))"
    by (rule distinct_concat_disjoint [where h = "part_index ?n"]) (use f(2) in auto)
  moreover have "set (concat (map f [0..<?n])) = op_set op (map set ?legs)"
    using f(2) part_index_less [OF n] by auto
  moreover have "map set ?legs = map (\<lambda>rows. json_text ` set rows) legs" by simp
  ultimately show ?thesis unfolding f(1) by argo
qed

definition int_rows :: "int list \<Rightarrow> jsval list" where
  "int_rows is = map (\<lambda>i. JObj [(''id'', JNum (of_int i))]) is"

theorem set_operation_exact_witness:
  "setop_texts SetExcept (num_partitions 60000 None) (map (map json_text) [int_rows [1, 2, 3], int_rows [2], int_rows [3, 4]])
     = [json_text (JObj [(''id'', JNum 1)])] \<and>
   op_set SetExcept (map (\<lambda>rows. json_text ` set rows) [int_rows [1, 2, 3], int_rows [2], int_rows [3, 4]])
     = {json_text (JObj [(''id'', JNum 1)])}"
proof -
  have r: "setop_texts SetExcept (num_partitions 60000 None) (map (map json_text) [int_rows [1, 2, 3], int_rows [2], int_rows [3, 4]])
     = [json_text (JObj [(''id'', JNum 1)])]" by code_simp
  then show ?thesis
    using set_operation_exact [of "[int_rows [1, 2, 3], int_rows [2], int_rows [3, 4]]" SetExcept 60000 None]
    unfolding r by simp
qed

end
