(* ===== verification/Aggregate.thy ===== *)
theory Aggregate
  imports GroupFold Pushdown
begin

text \<open>
  \<open>modules/query-engine/aggregate.ts\<close>: the parsing of an aggregate select list, the partial
  aggregates each source computes, and their merge; and the aggregation of raw rows. A group
  key is the list of its column values, which its JSON text determines.
\<close>

section \<open>Parsing\<close>

definition base_name :: "string \<Rightarrow> string" where
  "base_name path = last (split_chr CHR ''.'' path)"

fun gName :: "group_by \<Rightarrow> string" where
  "gName (GField f) = f"
| "gName (GBucket f _) = f"

type_synonym agg_plan = "group_by list \<times> aggregate_spec list"

definition ci_word :: "string \<Rightarrow> string \<Rightarrow> string option" where
  "ci_word w s = (if js_lower (take (length w) s) = w then Some (drop (length w) s) else None)"

fun first_word :: "string list \<Rightarrow> string \<Rightarrow> (string \<times> string) option" where
  "first_word [] s = None"
| "first_word (w # ws) s = (case ci_word w s of Some r \<Rightarrow> Some (w, r) | None \<Rightarrow> first_word ws s)"

definition skip_ws :: "string \<Rightarrow> string" where
  "skip_ws s = dropWhile is_space s"

text \<open>\<open>([\w.*]+)\s*\)\s*(?:as\s+([\w]+))?\s*$\<close>: the column and the alias.\<close>

definition agg_tail :: "string \<Rightarrow> (string \<times> string option) option" where
  "agg_tail s = (case span (\<lambda>c. is_word_chr c \<or> c = CHR ''.'' \<or> c = CHR ''*'') s of (col, r) \<Rightarrow>
     if col = [] then None
     else (case skip_ws r of
         [] \<Rightarrow> None
       | p # r1 \<Rightarrow>
           if p \<noteq> CHR '')'' then None
           else let r2 = skip_ws r1 in
             if r2 = [] then Some (col, None)
             else (case ci_word ''as'' r2 of
                 None \<Rightarrow> None
               | Some r3 \<Rightarrow>
                   if r3 = [] \<or> \<not> is_space (hd r3) then None
                   else (case span is_word_chr (skip_ws r3) of (al, r4) \<Rightarrow>
                     if al = [] \<or> skip_ws r4 \<noteq> [] then None else Some (col, Some al)))))"

text \<open>The whole pattern: function, \<open>distinct\<close> flag, column, alias.\<close>

definition agg_call :: "string \<Rightarrow> (string \<times> bool \<times> string \<times> string option) option" where
  "agg_call s =
     (case first_word [''count'', ''sum'', ''min'', ''max'', ''avg''] (skip_ws s) of
        None \<Rightarrow> None
      | Some (f, r) \<Rightarrow>
          (case skip_ws r of
             [] \<Rightarrow> None
           | p # r1 \<Rightarrow>
               if p \<noteq> CHR ''('' then None
               else let r2 = skip_ws r1;
                        plain = map_option (\<lambda>(c, al). (f, False, c, al)) (agg_tail r2)
                 in (case ci_word ''distinct'' r2 of
                       Some r3 \<Rightarrow>
                         if r3 \<noteq> [] \<and> is_space (hd r3) then
                           (case agg_tail (skip_ws r3) of Some (c, al) \<Rightarrow> Some (f, True, c, al) | None \<Rightarrow> plain)
                         else plain
                     | None \<Rightarrow> plain)))"

definition default_alias :: "string \<Rightarrow> string option \<Rightarrow> string" where
  "default_alias func col =
     js_lower func @ ''_'' @ (case col of Some c \<Rightarrow> if c = [] then ''all'' else c | None \<Rightarrow> ''all'')"

datatype select_entry_kind = AggEntry aggregate_spec | GroupEntry group_by | OtherEntry

definition agg_of_object :: "jsval \<Rightarrow> aggregate_spec" where
  "agg_of_object c =
     (let func = js_upper (js_string (js_get ''aggregate'' c));
          isDist = (truthy (js_get ''distinct'' c) \<or> func = ''COUNT_DISTINCT'');
          cv = js_get ''column'' c;
          col = (if truthy cv \<and> cv \<noteq> JStr ''*'' then Some (base_name (js_string cv)) else None);
          av = js_get ''alias'' c; pv = js_get ''percent'' c
      in \<lparr>a_func = (if isDist then ''COUNT_DISTINCT'' else func), a_column = col,
          a_alias = (if truthy av then js_string av else default_alias func col),
          a_percent = (if pv = JUndef then None else js_number pv)\<rparr>)"

definition classify_entry :: "jsval \<Rightarrow> select_entry_kind" where
  "classify_entry c =
     (if (is_obj c \<or> is_arr c) \<and> truthy (js_get ''aggregate'' c) then AggEntry (agg_of_object c)
      else (case c of
          JStr s \<Rightarrow>
            (case agg_call s of
               Some (f, isDist, raw, al) \<Rightarrow>
                 (let func = js_upper f; col = (if raw = ''*'' then None else Some (base_name raw)) in
                  AggEntry \<lparr>a_func = (if isDist then ''COUNT_DISTINCT'' else func), a_column = col,
                            a_alias = (case al of Some x \<Rightarrow> x | None \<Rightarrow> default_alias func col), a_percent = None\<rparr>)
             | None \<Rightarrow> if s = ''*'' then OtherEntry else GroupEntry (GField (base_name s)))
        | _ \<Rightarrow> OtherEntry))"

definition parseAggregates :: "jsval list \<Rightarrow> group_by list \<Rightarrow> agg_plan option" where
  "parseAggregates sel groupBy =
     (if sel = [] then (if groupBy = [] then None else Some (groupBy, []))
      else
        let kinds = map classify_entry sel;
            aggs = concat (map (\<lambda>k. case k of AggEntry a \<Rightarrow> [a] | _ \<Rightarrow> []) kinds);
            cols = groupBy @ concat (map (\<lambda>k. case k of GroupEntry g \<Rightarrow> [g] | _ \<Rightarrow> []) kinds)
        in if aggs = [] \<and> groupBy = [] then None else Some (js_dedup cols, aggs))"

definition isAggregateQuery :: "jsval list \<Rightarrow> group_by list \<Rightarrow> bool" where
  "isAggregateQuery sel groupBy \<longleftrightarrow> parseAggregates sel groupBy \<noteq> None"

section \<open>Partial aggregates\<close>

definition sum_key :: "string \<Rightarrow> string" where
  "sum_key alias = ''__sum__'' @ alias"

definition cnt_key :: "string \<Rightarrow> string" where
  "cnt_key alias = ''__cnt__'' @ alias"

definition set_key :: "string \<Rightarrow> string" where
  "set_key alias = ''__set__'' @ alias"

definition partialSpec :: "agg_plan \<Rightarrow> agg_plan" where
  "partialSpec plan =
     (fst plan, concat (map (\<lambda>a. if a_func a = ''AVG''
        then [\<lparr>a_func = ''SUM'', a_column = a_column a, a_alias = sum_key (a_alias a), a_percent = None\<rparr>,
              \<lparr>a_func = ''COUNT'', a_column = a_column a, a_alias = cnt_key (a_alias a), a_percent = None\<rparr>]
        else [a]) (snd plan)))"

definition numeric :: "jsval \<Rightarrow> rat" where
  "numeric v = (case v of
     JNum q \<Rightarrow> q
   | JNaN \<Rightarrow> 0
   | _ \<Rightarrow> (case parse_float (js_string v) of Some q \<Rightarrow> q | None \<Rightarrow> 0))"

definition json_key :: "jsval \<Rightarrow> jsval" where
  "json_key v = (case v of JNaN \<Rightarrow> JNull | JUndef \<Rightarrow> JNull | _ \<Rightarrow> v)"

definition row_value :: "jsval \<Rightarrow> string \<Rightarrow> jsval" where
  "row_value row n = coalesce (coalesce (js_get n row) (js_get (base_name n) row)) JNull"

text \<open>The accumulator of a group: its row so far and the distinct sets by alias.\<close>

type_synonym acc_state = "(string \<times> jsval) list \<times> (string \<times> jsval list) list"

definition acc_get :: "string \<Rightarrow> (string \<times> jsval) list \<Rightarrow> jsval" where
  "acc_get k acc = js_get k (JObj acc)"

definition add_numeric :: "string \<Rightarrow> jsval \<Rightarrow> (string \<times> jsval) list \<Rightarrow> (string \<times> jsval) list" where
  "add_numeric k row acc = kv_set k (JNum (numeric (acc_get k acc) + numeric (js_get k row))) acc"

definition merge_one :: "jsval \<Rightarrow> acc_state \<Rightarrow> aggregate_spec \<Rightarrow> acc_state" where
  "merge_one row st a = (case st of (acc, sets) \<Rightarrow>
     (let al = a_alias a; f = a_func a; cur = acc_get al acc; v = js_get al row in
      if f = ''AVG'' then (add_numeric (cnt_key al) row (add_numeric (sum_key al) row acc), sets)
      else if f = ''COUNT'' \<or> f = ''SUM'' \<or> f = ''COUNT_DISTINCT'' then
        (if f = ''COUNT_DISTINCT'' \<and> is_arr (js_get (set_key al) row)
         then (acc, kv_set al (js_dedup ((case kv_get al sets of Some vs \<Rightarrow> vs | None \<Rightarrow> []) @ arr_of (js_get (set_key al) row))) sets)
         else (add_numeric al row acc, sets))
      else if f = ''MIN'' then
        (kv_set al (if cur = JUndef then v else JNum (min (numeric cur) (numeric v))) acc, sets)
      else if f = ''MAX'' then
        (kv_set al (if cur = JUndef then v else JNum (max (numeric cur) (numeric v))) acc, sets)
      else (acc, sets)))"

definition new_group :: "group_by list \<Rightarrow> jsval \<Rightarrow> (string \<times> jsval) list" where
  "new_group cols row = foldl (\<lambda>acc g. kv_set (gName g) (row_value row (gName g)) acc) [] cols"

definition merge_key :: "group_by list \<Rightarrow> jsval \<Rightarrow> jsval list" where
  "merge_key cols row = map (\<lambda>g. json_key (row_value row (gName g))) cols"

definition merge_row :: "agg_plan \<Rightarrow> acc_state \<Rightarrow> jsval \<Rightarrow> acc_state" where
  "merge_row plan st row = foldl (merge_one row) st (snd plan)"

definition finish_one :: "(string \<times> jsval list) list \<Rightarrow> (string \<times> jsval) list \<Rightarrow> aggregate_spec \<Rightarrow> (string \<times> jsval) list" where
  "finish_one sets acc a =
     (let al = a_alias a in
      if a_func a = ''AVG'' then
        (let s = numeric (acc_get (sum_key al) acc); c = numeric (acc_get (cnt_key al) acc)
         in kv_del (cnt_key al) (kv_del (sum_key al) (kv_set al (if c > 0 then JNum (s / c) else JNull) acc)))
      else if a_func a = ''COUNT_DISTINCT'' then
        (case kv_get al sets of Some vs \<Rightarrow> kv_set al (JNum (of_nat (length vs))) acc | None \<Rightarrow> acc)
      else acc)"

definition finish_group :: "agg_plan \<Rightarrow> acc_state \<Rightarrow> jsval" where
  "finish_group plan st = (case st of (acc, sets) \<Rightarrow> JObj (foldl (finish_one sets) acc (snd plan)))"

definition merge_groups :: "jsval list \<Rightarrow> agg_plan \<Rightarrow> (jsval list \<times> acc_state) list" where
  "merge_groups rows plan =
     group_rows (merge_key (fst plan)) (\<lambda>row. (new_group (fst plan) row, [])) (merge_row plan) rows"

definition mergePartials :: "jsval list \<Rightarrow> agg_plan \<Rightarrow> jsval list" where
  "mergePartials rows plan = map (\<lambda>(_, st). finish_group plan st) (merge_groups rows plan)"

section \<open>Raw rows\<close>

definition readCol :: "jsval \<Rightarrow> string \<Rightarrow> jsval" where
  "readCol row name =
     (if nullish row then JUndef
      else if kv_get name (obj_of row) \<noteq> None then js_get name row
      else if kv_get (base_name name) (obj_of row) \<noteq> None then js_get (base_name name) row
      else (case List.find (\<lambda>(k, _). base_name k = base_name name) (obj_of row) of
          Some (_, v) \<Rightarrow> v | None \<Rightarrow> JUndef))"

definition or_zero :: "string \<Rightarrow> (string \<times> jsval) list \<Rightarrow> rat" where
  "or_zero k st = (case kv_get k st of Some (JNum q) \<Rightarrow> q | _ \<Rightarrow> 0)"

definition agg_arg :: "jsval \<Rightarrow> aggregate_spec \<Rightarrow> jsval" where
  "agg_arg row a =
     (case a_column a of Some c \<Rightarrow> if c = [] then JNum 1 else readCol row c | None \<Rightarrow> JNum 1)"

definition raw_one :: "jsval \<Rightarrow> acc_state \<Rightarrow> aggregate_spec \<Rightarrow> acc_state" where
  "raw_one row st a = (case st of (s, sets) \<Rightarrow>
     (let k = a_alias a; f = a_func a;
          v = agg_arg row a;
          upd = (\<lambda>pick. (kv_set k (JNum (case kv_get k s of Some (JNum q) \<Rightarrow> pick q (numeric v) | _ \<Rightarrow> numeric v)) s, sets))
      in if f = ''COUNT'' then
           (if a_column a = None \<or> \<not> nullish v then (kv_set k (JNum (or_zero k s + 1)) s, sets) else (s, sets))
         else if f = ''SUM'' then (kv_set k (JNum (or_zero k s + numeric v)) s, sets)
         else if f = ''MIN'' then upd min
         else if f = ''MAX'' then upd max
         else if f = ''AVG'' then
           (kv_set (k @ ''__c'') (JNum (or_zero (k @ ''__c'') s + 1))
             (kv_set (k @ ''__s'') (JNum (or_zero (k @ ''__s'') s + numeric v)) s), sets)
         else if f = ''COUNT_DISTINCT'' then
           (s, kv_set k (js_dedup ((case kv_get k sets of Some vs \<Rightarrow> vs | None \<Rightarrow> []) @ [v])) sets)
         else (s, sets)))"

definition raw_value :: "acc_state \<Rightarrow> aggregate_spec \<Rightarrow> jsval" where
  "raw_value st a = (case st of (s, sets) \<Rightarrow>
     (let k = a_alias a in
      if a_func a = ''AVG'' then
        (let c = or_zero (k @ ''__c'') s in if c > 0 then JNum (or_zero (k @ ''__s'') s / c) else JNull)
      else if a_func a = ''COUNT_DISTINCT'' then
        JNum (of_nat (length (case kv_get k sets of Some vs \<Rightarrow> vs | None \<Rightarrow> [])))
      else (case kv_get k s of Some v \<Rightarrow> v | None \<Rightarrow> if a_func a = ''COUNT'' then JNum 0 else JNull)))"

definition raw_finish :: "agg_plan \<Rightarrow> (string \<times> jsval) list \<times> acc_state \<Rightarrow> jsval" where
  "raw_finish plan g =
     JObj (foldl (\<lambda>acc a. kv_set (a_alias a) (raw_value (snd g) a) acc) (fst g) (snd plan))"

definition raw_cell :: "jsval \<Rightarrow> string \<Rightarrow> jsval" where
  "raw_cell row n = coalesce (readCol row n) JNull"

definition raw_key :: "group_by list \<Rightarrow> jsval \<Rightarrow> jsval list" where
  "raw_key cols row = map (\<lambda>g. json_key (raw_cell row (gName g))) cols"

definition raw_group :: "group_by list \<Rightarrow> jsval \<Rightarrow> (string \<times> jsval) list" where
  "raw_group cols row = foldl (\<lambda>acc g. kv_set (gName g) (raw_cell row (gName g)) acc) [] cols"

definition aggregateRaw :: "jsval list \<Rightarrow> agg_plan \<Rightarrow> jsval list" where
  "aggregateRaw rows plan =
     map (\<lambda>(_, st). raw_finish plan st)
       (group_rows (raw_key (fst plan)) (\<lambda>row. (raw_group (fst plan) row, [], []))
          (\<lambda>(cols, st) row. (cols, foldl (raw_one row) st (snd plan))) rows)"

end
