(* ===== verification/AggregateFed.thy ===== *)
theory AggregateFed
  imports Aggregate
begin

text \<open>
  Federated aggregation computes what a single pass over all rows computes: each aggregate's
  running cell evolves independently of the others, has a closed form over the rows of the
  group, and the closed form over a union is the merge of the closed forms.
\<close>

section \<open>Independent cells\<close>

text \<open>
  A row updates the cells of all aggregates in turn. Where an update of one aggregate leaves
  the cells of the others alone, each cell can be followed on its own.
\<close>

locale cell_steps =
  fixes step :: "'r \<Rightarrow> 's \<Rightarrow> 'a \<Rightarrow> 's"
    and cell :: "'a \<Rightarrow> 's \<Rightarrow> 'c"
    and vstep :: "'a \<Rightarrow> 'r \<Rightarrow> 'c \<Rightarrow> 'c"
    and ok :: "'a list \<Rightarrow> bool"
  assumes own: "\<And>as a r st. ok as \<Longrightarrow> a \<in> set as \<Longrightarrow> cell a (step r st a) = vstep a r (cell a st)"
    and other: "\<And>as a b r st. ok as \<Longrightarrow> a \<in> set as \<Longrightarrow> b \<in> set as \<Longrightarrow> a \<noteq> b \<Longrightarrow> cell a (step r st b) = cell a st"
    and ok_distinct: "\<And>as. ok as \<Longrightarrow> distinct as"
begin

lemma cell_untouched:
  "ok as \<Longrightarrow> a \<in> set as \<Longrightarrow> set bs \<subseteq> set as - {a} \<Longrightarrow> cell a (foldl (step r) st bs) = cell a st"
  by (induction bs arbitrary: st) (auto simp: other)

lemma cell_row:
  assumes "ok as" "a \<in> set as"
  shows "cell a (foldl (step r) st as) = vstep a r (cell a st)"
proof -
  obtain xs ys where as: "as = xs @ a # ys" using assms(2) by (auto simp: in_set_conv_decomp)
  have "a \<notin> set xs" "a \<notin> set ys" using ok_distinct [OF assms(1)] as by auto
  then have "cell a (foldl (step r) st' ys) = cell a st'" "cell a (foldl (step r) st' xs) = cell a st'" for st'
    by (auto intro: cell_untouched [OF assms] simp: as)
  then show ?thesis by (simp add: as own [OF assms, unfolded as])
qed

lemma cell_rows:
  assumes "ok as" "a \<in> set as"
  shows "cell a (foldl (\<lambda>st r. foldl (step r) st as) st rows) = foldl (\<lambda>c r. vstep a r c) (cell a st) rows"
  by (induction rows arbitrary: st) (simp_all add: cell_row [OF assms])

end

section \<open>Names\<close>

definition cell_names :: "aggregate_spec \<Rightarrow> string list" where
  "cell_names a = [a_alias a, sum_key (a_alias a), cnt_key (a_alias a), a_alias a @ ''__s'', a_alias a @ ''__c'']"

definition decomposable :: "string \<Rightarrow> bool" where
  "decomposable f \<longleftrightarrow> f \<in> {''COUNT'', ''SUM'', ''MIN'', ''MAX'', ''AVG''}"

lemma decomposable_cases [consumes 1, case_names COUNT SUM MIN MAX AVG]:
  "decomposable f \<Longrightarrow> (f = ''COUNT'' \<Longrightarrow> P) \<Longrightarrow> (f = ''SUM'' \<Longrightarrow> P) \<Longrightarrow> (f = ''MIN'' \<Longrightarrow> P) \<Longrightarrow>
     (f = ''MAX'' \<Longrightarrow> P) \<Longrightarrow> (f = ''AVG'' \<Longrightarrow> P) \<Longrightarrow> P"
  unfolding decomposable_def by blast

definition raw_names :: "aggregate_spec \<Rightarrow> string list" where
  "raw_names a = a_alias a # (if a_func a = ''AVG'' then [a_alias a @ ''__s'', a_alias a @ ''__c''] else [])"

definition names_ok :: "(aggregate_spec \<Rightarrow> string list) \<Rightarrow> aggregate_spec list \<Rightarrow> bool" where
  "names_ok nm as \<longleftrightarrow> distinct (concat (map nm as)) \<and> list_all (\<lambda>a. decomposable (a_func a)) as"

abbreviation aggs_ok :: "aggregate_spec list \<Rightarrow> bool" where
  "aggs_ok \<equiv> names_ok cell_names"

abbreviation raw_ok :: "aggregate_spec list \<Rightarrow> bool" where
  "raw_ok \<equiv> names_ok raw_names"

text \<open>
  The plans the theorem covers: the five decomposable functions; no two aggregates, and no
  aggregate and group column, use the same name (the hidden names included); group columns
  are plain names.
\<close>

definition plan_names_ok :: "agg_plan \<Rightarrow> bool" where
  "plan_names_ok plan \<longleftrightarrow> aggs_ok (snd plan) \<and>
     list_all (\<lambda>g. base_name (gName g) = gName g \<and> gName g \<notin> set (concat (map cell_names (snd plan)))) (fst plan)"

lemma distinct_concat_parts:
  "distinct (concat (map f xs)) \<Longrightarrow> a \<in> set xs \<Longrightarrow> b \<in> set xs \<Longrightarrow> a \<noteq> b \<Longrightarrow> set (f a) \<inter> set (f b) = {}"
  by (induction xs) auto

lemma distinct_concat_part: "distinct (concat (map f xs)) \<Longrightarrow> a \<in> set xs \<Longrightarrow> distinct (f a)"
  by (induction xs) auto

lemma distinct_concat_distinct: "distinct (concat (map f xs)) \<Longrightarrow> (\<And>x. f x \<noteq> []) \<Longrightarrow> distinct xs"
proof (induction xs)
  case (Cons x xs)
  have "x \<notin> set xs"
  proof
    assume "x \<in> set xs"
    then have "set (f x) \<subseteq> set (concat (map f xs))" by auto
    moreover have "set (f x) \<inter> set (concat (map f xs)) = {}" using Cons.prems(1) by simp
    moreover have "set (f x) \<noteq> {}" using Cons.prems(2) by simp
    ultimately show False by (metis inf.absorb1)
  qed
  with Cons show ?case by simp
qed simp

lemma aggs_ok_distinct: "aggs_ok as \<Longrightarrow> distinct as"
  unfolding names_ok_def by (erule conjE, erule distinct_concat_distinct) (simp add: cell_names_def)

lemma raw_ok_distinct: "raw_ok as \<Longrightarrow> distinct as"
  unfolding names_ok_def by (erule conjE, erule distinct_concat_distinct) (simp add: raw_names_def)

lemma aggs_ok_names:
  "names_ok nm as \<Longrightarrow> a \<in> set as \<Longrightarrow> b \<in> set as \<Longrightarrow> a \<noteq> b \<Longrightarrow> set (nm a) \<inter> set (nm b) = {}"
  unfolding names_ok_def by (erule conjE, rule distinct_concat_parts)

lemma aggs_ok_name: "names_ok nm as \<Longrightarrow> a \<in> set as \<Longrightarrow> distinct (nm a)"
  unfolding names_ok_def by (erule conjE, rule distinct_concat_part)

lemma aggs_ok_func: "names_ok nm as \<Longrightarrow> a \<in> set as \<Longrightarrow> decomposable (a_func a)"
  unfolding names_ok_def list_all_iff by blast

lemma distinct_concat_mono:
  "distinct (concat (map f xs)) \<Longrightarrow> (\<And>x. x \<in> set xs \<Longrightarrow> distinct (f x) \<Longrightarrow> distinct (g x)) \<Longrightarrow>
     (\<And>x. x \<in> set xs \<Longrightarrow> set (g x) \<subseteq> set (f x)) \<Longrightarrow> distinct (concat (map g xs))"
proof (induction xs)
  case (Cons x xs)
  have "set (g y) \<subseteq> set (f y)" if "y \<in> set xs" for y using Cons.prems(3) [of y] that by simp
  then have sub: "set (concat (map g xs)) \<subseteq> set (concat (map f xs))" unfolding set_concat set_map by blast
  have d: "set (f x) \<inter> set (concat (map f xs)) = {}" using Cons.prems(1) by simp
  have "set (g x) \<subseteq> set (f x)" using Cons.prems(3) by simp
  with sub d have "set (g x) \<inter> set (concat (map g xs)) = {}" by blast
  with Cons show ?case by simp
qed simp

lemma aggs_ok_raw_ok: "aggs_ok as \<Longrightarrow> raw_ok as"
  unfolding names_ok_def
  by (elim conjE, intro conjI, erule distinct_concat_mono) (auto simp: cell_names_def raw_names_def)

section \<open>Cells of the two loops\<close>

type_synonym agg_cell = "jsval option \<times> jsval option"

fun zero_of :: "jsval option \<Rightarrow> rat" where
  "zero_of (Some (JNum q)) = q"
| "zero_of _ = 0"

lemma or_zero_eq: "or_zero k s = zero_of (kv_get k s)"
  by (auto simp: or_zero_def split: option.splits jsval.splits)

definition raw_slot :: "aggregate_spec \<Rightarrow> acc_state \<Rightarrow> agg_cell" where
  "raw_slot a st =
     (if a_func a = ''AVG'' then (kv_get (a_alias a @ ''__s'') (fst st), kv_get (a_alias a @ ''__c'') (fst st))
      else (kv_get (a_alias a) (fst st), kv_get (a_alias a) (fst st)))"

definition counted :: "aggregate_spec \<Rightarrow> jsval \<Rightarrow> bool" where
  "counted a row \<longleftrightarrow> a_column a = None \<or> \<not> nullish (agg_arg row a)"

definition arg_num :: "aggregate_spec \<Rightarrow> jsval \<Rightarrow> rat" where
  "arg_num a row = numeric (agg_arg row a)"

definition twice :: "jsval \<Rightarrow> agg_cell" where
  "twice v = (Some v, Some v)"

definition raw_vstep :: "aggregate_spec \<Rightarrow> jsval \<Rightarrow> agg_cell \<Rightarrow> agg_cell" where
  "raw_vstep a row c =
     (if a_func a = ''COUNT'' then (if counted a row then twice (JNum (zero_of (fst c) + 1)) else c)
      else if a_func a = ''SUM'' then twice (JNum (zero_of (fst c) + arg_num a row))
      else if a_func a = ''MIN'' then twice (JNum (case fst c of Some (JNum q) \<Rightarrow> min q (arg_num a row) | _ \<Rightarrow> arg_num a row))
      else if a_func a = ''MAX'' then twice (JNum (case fst c of Some (JNum q) \<Rightarrow> max q (arg_num a row) | _ \<Rightarrow> arg_num a row))
      else (Some (JNum (zero_of (fst c) + arg_num a row)), Some (JNum (zero_of (snd c) + 1))))"

definition merge_slot :: "aggregate_spec \<Rightarrow> acc_state \<Rightarrow> agg_cell" where
  "merge_slot a st =
     (if a_func a = ''AVG'' then (kv_get (sum_key (a_alias a)) (fst st), kv_get (cnt_key (a_alias a)) (fst st))
      else (kv_get (a_alias a) (fst st), kv_get (a_alias a) (fst st)))"

definition num_of :: "jsval option \<Rightarrow> rat" where
  "num_of c = numeric (case c of Some v \<Rightarrow> v | None \<Rightarrow> JUndef)"

definition merge_pick :: "(rat \<Rightarrow> rat \<Rightarrow> rat) \<Rightarrow> jsval option \<Rightarrow> jsval \<Rightarrow> jsval" where
  "merge_pick pick c v = (case c of None \<Rightarrow> v | Some JUndef \<Rightarrow> v | Some x \<Rightarrow> JNum (pick (numeric x) (numeric v)))"

definition merge_vstep :: "aggregate_spec \<Rightarrow> jsval \<Rightarrow> agg_cell \<Rightarrow> agg_cell" where
  "merge_vstep a row c =
     (if a_func a = ''AVG'' then
        (Some (JNum (num_of (fst c) + numeric (js_get (sum_key (a_alias a)) row))),
         Some (JNum (num_of (snd c) + numeric (js_get (cnt_key (a_alias a)) row))))
      else if a_func a = ''MIN'' then twice (merge_pick min (fst c) (js_get (a_alias a) row))
      else if a_func a = ''MAX'' then twice (merge_pick max (fst c) (js_get (a_alias a) row))
      else twice (JNum (num_of (fst c) + numeric (js_get (a_alias a) row))))"

lemma acc_get_kv: "acc_get k acc = (case kv_get k acc of Some v \<Rightarrow> v | None \<Rightarrow> JUndef)"
  by (simp add: acc_get_def js_get_def)

lemma raw_one_own:
  assumes "raw_ok as" "a \<in> set as"
  shows "raw_slot a (raw_one row st a) = raw_vstep a row (raw_slot a st)"
proof -
  have "a_alias a @ ''__s'' \<noteq> a_alias a @ ''__c''" by simp
  with aggs_ok_func [OF assms] show ?thesis
    unfolding raw_vstep_def arg_num_def
    by (cases st; cases "a_func a" rule: decomposable_cases)
      (simp_all add: raw_one_def raw_slot_def or_zero_eq counted_def twice_def Let_def)
qed

lemma raw_one_kv:
  "decomposable (a_func b) \<Longrightarrow> k \<notin> set (raw_names b) \<Longrightarrow> kv_get k (fst (raw_one row st b)) = kv_get k (fst st)"
  by (cases st; cases "a_func b" rule: decomposable_cases)
    (simp_all add: raw_one_def raw_names_def Let_def)

lemma raw_one_other:
  assumes "raw_ok as" "a \<in> set as" "b \<in> set as" "a \<noteq> b"
  shows "raw_slot a (raw_one row st b) = raw_slot a st"
proof -
  have "k \<notin> set (raw_names b)" if "k \<in> set (raw_names a)" for k
    using aggs_ok_names [OF assms] that by blast
  then have "k \<in> set (raw_names a) \<Longrightarrow> kv_get k (fst (raw_one row st b)) = kv_get k (fst st)" for k
    using raw_one_kv aggs_ok_func [OF assms(1,3)] by blast
  then show ?thesis by (simp add: raw_slot_def raw_names_def)
qed

interpretation rawc: cell_steps raw_one raw_slot raw_vstep raw_ok
  by unfold_locales (rule raw_one_own raw_one_other raw_ok_distinct; assumption)+

lemma merge_one_own:
  assumes "aggs_ok as" "a \<in> set as"
  shows "merge_slot a (merge_one row st a) = merge_vstep a row (merge_slot a st)"
proof -
  have "sum_key (a_alias a) \<noteq> cnt_key (a_alias a)" by (simp add: sum_key_def cnt_key_def)
  with aggs_ok_func [OF assms] show ?thesis
    by (cases st; cases "a_func a" rule: decomposable_cases)
      (simp_all add: merge_one_def merge_slot_def merge_vstep_def add_numeric_def acc_get_kv num_of_def
        merge_pick_def twice_def Let_def split: option.split jsval.split)
qed

lemma merge_one_kv:
  "decomposable (a_func b) \<Longrightarrow> k \<notin> set (cell_names b) \<Longrightarrow> kv_get k (fst (merge_one row st b)) = kv_get k (fst st)"
  by (cases st; cases "a_func b" rule: decomposable_cases)
    (simp_all add: merge_one_def add_numeric_def cell_names_def Let_def)

lemma merge_one_other:
  assumes "aggs_ok as" "a \<in> set as" "b \<in> set as" "a \<noteq> b"
  shows "merge_slot a (merge_one row st b) = merge_slot a st"
proof -
  have "k \<notin> set (cell_names b)" if "k \<in> set (cell_names a)" for k
    using aggs_ok_names [OF assms] that by blast
  then have "k \<in> set (cell_names a) \<Longrightarrow> kv_get k (fst (merge_one row st b)) = kv_get k (fst st)" for k
    using merge_one_kv aggs_ok_func [OF assms(1,3)] by blast
  then show ?thesis by (simp add: merge_slot_def cell_names_def)
qed

interpretation mergec: cell_steps merge_one merge_slot merge_vstep aggs_ok
  by unfold_locales (rule merge_one_own merge_one_other aggs_ok_distinct; assumption)+

section \<open>Closed forms\<close>

definition agg_sum :: "aggregate_spec \<Rightarrow> jsval list \<Rightarrow> rat" where
  "agg_sum a rows = sum_list (map (arg_num a) rows)"

definition agg_cnt :: "aggregate_spec \<Rightarrow> jsval list \<Rightarrow> rat" where
  "agg_cnt a rows = of_nat (length (filter (counted a) rows))"

text \<open>The value of an aggregate over the (non-empty) rows of a group.\<close>

definition agg_value :: "aggregate_spec \<Rightarrow> jsval list \<Rightarrow> jsval" where
  "agg_value a rows =
     (if a_func a = ''COUNT'' then JNum (agg_cnt a rows)
      else if a_func a = ''SUM'' then JNum (agg_sum a rows)
      else if a_func a = ''MIN'' then JNum (Min (arg_num a ` set rows))
      else if a_func a = ''MAX'' then JNum (Max (arg_num a ` set rows))
      else JNum (agg_sum a rows / of_nat (length rows)))"

lemma agg_sum_append [simp]: "agg_sum a (xs @ ys) = agg_sum a xs + agg_sum a ys"
  by (simp add: agg_sum_def)

lemma agg_cnt_append [simp]: "agg_cnt a (xs @ ys) = agg_cnt a xs + agg_cnt a ys"
  by (simp add: agg_cnt_def)

lemma agg_empty [simp]: "agg_sum a [] = 0" "agg_cnt a [] = 0"
  by (simp_all add: agg_sum_def agg_cnt_def)

lemma agg_single [simp]: "agg_sum a [r] = arg_num a r" "agg_cnt a [r] = (if counted a r then 1 else 0)"
  by (simp_all add: agg_sum_def agg_cnt_def)

lemma agg_cnt_nonneg [simp]: "0 \<le> agg_cnt a rows"
  by (simp add: agg_cnt_def)

lemma zero_of_twice [simp]: "fst (twice v) = Some v" "snd (twice v) = Some v"
  by (simp_all add: twice_def)

definition raw_run :: "aggregate_spec \<Rightarrow> jsval list \<Rightarrow> agg_cell" where
  "raw_run a rows = foldl (\<lambda>c r. raw_vstep a r c) (None, None) rows"

lemma raw_run_snoc: "raw_run a (rows @ [r]) = raw_vstep a r (raw_run a rows)"
  by (simp add: raw_run_def)

lemma raw_run_single: "raw_run a [r] = raw_vstep a r (None, None)"
  by (simp add: raw_run_def)

lemma raw_run_Nil [simp]: "raw_run a [] = (None, None)"
  by (simp add: raw_run_def)

lemma raw_run_count:
  "a_func a = ''COUNT'' \<Longrightarrow> raw_run a rows = (if agg_cnt a rows = 0 then (None, None) else twice (JNum (agg_cnt a rows)))"
proof (induction rows rule: rev_induct)
  case (snoc r rows)
  have "agg_cnt a rows + 1 \<noteq> 0" using agg_cnt_nonneg [of a rows] by linarith
  with snoc show ?case by (auto simp: raw_run_snoc raw_vstep_def)
qed simp

lemma raw_run_sum:
  "a_func a = ''SUM'' \<Longrightarrow> raw_run a rows = (if rows = [] then (None, None) else twice (JNum (agg_sum a rows)))"
  by (induction rows rule: rev_induct) (auto simp: raw_run_snoc raw_vstep_def)

lemma raw_run_avg:
  "a_func a = ''AVG'' \<Longrightarrow>
     raw_run a rows = (if rows = [] then (None, None) else (Some (JNum (agg_sum a rows)), Some (JNum (of_nat (length rows)))))"
  by (induction rows rule: rev_induct) (auto simp: raw_run_snoc raw_vstep_def)

lemma raw_run_min:
  "a_func a = ''MIN'' \<Longrightarrow>
     raw_run a rows = (if rows = [] then (None, None) else twice (JNum (Min (arg_num a ` set rows))))"
proof (induction rows rule: rev_induct)
  case (snoc r rows)
  then show ?case by (cases "rows = []") (simp_all add: raw_run_snoc raw_run_single raw_vstep_def min.commute)
qed simp

lemma raw_run_max:
  "a_func a = ''MAX'' \<Longrightarrow>
     raw_run a rows = (if rows = [] then (None, None) else twice (JNum (Max (arg_num a ` set rows))))"
proof (induction rows rule: rev_induct)
  case (snoc r rows)
  then show ?case by (cases "rows = []") (simp_all add: raw_run_snoc raw_run_single raw_vstep_def max.commute)
qed simp

lemmas raw_run_closed = raw_run_count raw_run_sum raw_run_avg raw_run_min raw_run_max

text \<open>
  The merge of one aggregate over partial rows \<open>f x\<close> that carry the partial values of the row
  lists \<open>g x\<close> gives the value over their union.
\<close>

definition partial_of :: "aggregate_spec \<Rightarrow> jsval \<Rightarrow> jsval list \<Rightarrow> bool" where
  "partial_of a p rows \<longleftrightarrow> rows \<noteq> [] \<and>
     (if a_func a = ''AVG''
      then js_get (sum_key (a_alias a)) p = JNum (agg_sum a rows) \<and> js_get (cnt_key (a_alias a)) p = JNum (agg_cnt a rows)
      else js_get (a_alias a) p = agg_value a rows)"

definition merge_run :: "aggregate_spec \<Rightarrow> jsval list \<Rightarrow> agg_cell" where
  "merge_run a ps = foldl (\<lambda>c r. merge_vstep a r c) (None, None) ps"

lemma merge_run_snoc: "merge_run a (ps @ [p]) = merge_vstep a p (merge_run a ps)"
  by (simp add: merge_run_def)

lemma merge_run_Nil [simp]: "merge_run a [] = (None, None)"
  by (simp add: merge_run_def)

lemma opt_num_simps [simp]: "num_of None = 0" "num_of (Some (JNum q)) = q"
  by (simp_all add: num_of_def numeric_def parse_float_def read_decimal_def read_mantissa_def is_space_def is_digit_def)

lemma numeric_num [simp]: "numeric (JNum q) = q"
  by (simp add: numeric_def)

lemma merge_pick_simps [simp]:
  "merge_pick pick None v = v"
  "merge_pick pick (Some (JNum q)) v = JNum (pick q (numeric v))"
  by (simp_all add: merge_pick_def)

lemma merge_run_closed:
  assumes "decomposable (a_func a)" "\<And>x. x \<in> set xs \<Longrightarrow> partial_of a (f x) (g x)" "xs \<noteq> []"
  shows "merge_run a (map f xs) =
    (if a_func a = ''AVG'' then (Some (JNum (agg_sum a (concat (map g xs)))), Some (JNum (agg_cnt a (concat (map g xs)))))
     else twice (agg_value a (concat (map g xs))))"
  using assms(2,3)
proof (induction xs rule: rev_induct)
  case (snoc x xs)
  have p: "partial_of a (f x) (g x)" using snoc.prems by simp
  show ?case
  proof (cases "xs = []")
    case True
    from assms(1) p True show ?thesis
      by (cases "a_func a" rule: decomposable_cases)
        (simp_all add: merge_run_def merge_vstep_def partial_of_def agg_value_def)
  next
    case False
    then have ne: "concat (map g xs) \<noteq> []" "g x \<noteq> []"
      using snoc.prems p by (auto simp: partial_of_def neq_Nil_conv)
    from assms(1) False snoc p ne show ?thesis
      by (cases "a_func a" rule: decomposable_cases)
        (simp_all add: merge_run_snoc merge_vstep_def partial_of_def agg_value_def image_Un Min_Un Max_Un)
  qed
qed simp

section \<open>The single pass\<close>

lemma aggregateRaw_closed:
  "aggregateRaw rows plan =
     map (\<lambda>k. let grp = rows_of (raw_key (fst plan)) k rows in
            raw_finish plan (raw_group (fst plan) (hd grp), foldl (\<lambda>st r. foldl (raw_one r) st (snd plan)) ([], []) grp))
       (js_dedup (map (raw_key (fst plan)) rows))"
  by (simp add: aggregateRaw_def group_rows_closed Let_def foldl_pair)

lemma raw_slot_rows:
  assumes "raw_ok as" "a \<in> set as"
  shows "raw_slot a (foldl (\<lambda>st r. foldl (raw_one r) st as) ([], []) rows) = raw_run a rows"
  unfolding rawc.cell_rows [OF assms] by (simp add: raw_run_def raw_slot_def)

lemma raw_value_slot:
  assumes "decomposable (a_func a)" "raw_slot a st = raw_run a rows" "rows \<noteq> []"
  shows "raw_value st a = agg_value a rows"
proof -
  have len: "0 < (of_nat (length rows) :: rat)" using assms(3) by simp
  from assms show ?thesis
    by (cases st; cases "a_func a" rule: decomposable_cases)
      (auto simp: raw_value_def raw_slot_def raw_run_closed agg_value_def or_zero_eq twice_def len Let_def split: if_splits)
qed

text \<open>
  One output row of the single pass: every aggregate has its value over the rows of the
  group, and every group column the value of the group's first row.
\<close>

definition group_row :: "agg_plan \<Rightarrow> jsval list \<Rightarrow> jsval \<Rightarrow> bool" where
  "group_row plan grp out \<longleftrightarrow>
     list_all (\<lambda>a. js_get (a_alias a) out = agg_value a grp) (snd plan) \<and>
     list_all (\<lambda>g. js_get (gName g) out = raw_cell (hd grp) (gName g)) (fst plan)"

lemma raw_group_get: "n \<in> gName ` set cols \<Longrightarrow> kv_get n (raw_group cols row) = Some (raw_cell row n)"
  unfolding raw_group_def by (rule kv_get_fold_set) auto

lemma raw_finish_row:
  assumes "raw_ok (snd plan)" "gName ` set (fst plan) \<inter> a_alias ` set (snd plan) = {}" "grp \<noteq> []"
  shows "group_row plan grp
    (raw_finish plan (raw_group (fst plan) (hd grp), foldl (\<lambda>st r. foldl (raw_one r) st (snd plan)) ([], []) grp))"
proof -
  have inj: "x = a" if "x \<in> set (snd plan)" "a \<in> set (snd plan)" "a_alias x = a_alias a" for x a
    using aggs_ok_names [OF assms(1) that(1,2)] that(3) by (auto simp: raw_names_def)
  have val: "raw_value (foldl (\<lambda>st r. foldl (raw_one r) st (snd plan)) ([], []) grp) a = agg_value a grp"
    if "a \<in> set (snd plan)" for a
    by (rule raw_value_slot [OF aggs_ok_func [OF assms(1) that] raw_slot_rows [OF assms(1) that] assms(3)])
  show ?thesis
    unfolding group_row_def list_all_iff raw_finish_def js_get_def fst_conv snd_conv obj_of.simps
  proof (intro conjI ballI)
    fix a assume a: "a \<in> set (snd plan)"
    show "(case kv_get (a_alias a) (foldl (\<lambda>acc x. kv_set (a_alias x)
        (raw_value (foldl (\<lambda>st r. foldl (raw_one r) st (snd plan)) ([], []) grp) x) acc)
        (raw_group (fst plan) (hd grp)) (snd plan)) of None \<Rightarrow> JUndef | Some x \<Rightarrow> x) = agg_value a grp"
      using a inj by (subst kv_get_fold_set [where w = "agg_value a grp"]) (auto simp: val)
  next
    fix g assume g: "g \<in> set (fst plan)"
    then have "gName g \<notin> a_alias ` set (snd plan)" using assms(2) by blast
    with g show "(case kv_get (gName g) (foldl (\<lambda>acc x. kv_set (a_alias x)
        (raw_value (foldl (\<lambda>st r. foldl (raw_one r) st (snd plan)) ([], []) grp) x) acc)
        (raw_group (fst plan) (hd grp)) (snd plan)) of None \<Rightarrow> JUndef | Some x \<Rightarrow> x) = raw_cell (hd grp) (gName g)"
      by (simp add: kv_get_fold_other raw_group_get)
  qed
qed

section \<open>The merge\<close>

lemma finish_one_kv:
  "decomposable (a_func b) \<Longrightarrow> k \<notin> set (cell_names b) \<Longrightarrow> kv_get k (finish_one sets acc b) = kv_get k acc"
  by (cases "a_func b" rule: decomposable_cases) (simp_all add: finish_one_def cell_names_def Let_def)

lemma finish_untouched:
  "\<forall>b \<in> set bs. decomposable (a_func b) \<and> k \<notin> set (cell_names b) \<Longrightarrow>
     kv_get k (foldl (finish_one sets) acc bs) = kv_get k acc"
  by (induction bs arbitrary: acc) (simp_all add: finish_one_kv)

lemma finish_own:
  assumes "aggs_ok as" "a \<in> set as"
  shows "kv_get (a_alias a) (foldl (finish_one sets) acc as) =
    (if a_func a = ''AVG'' then
       Some (let c = num_of (kv_get (cnt_key (a_alias a)) acc)
             in if c > 0 then JNum (num_of (kv_get (sum_key (a_alias a)) acc) / c) else JNull)
     else kv_get (a_alias a) acc)"
proof -
  obtain xs ys where as: "as = xs @ a # ys" using assms(2) by (auto simp: in_set_conv_decomp)
  have "a \<notin> set xs" "a \<notin> set ys" using aggs_ok_distinct [OF assms(1)] as by auto
  then have ne: "b \<noteq> a" if "b \<in> set xs \<union> set ys" for b using that by auto
  have nm: "decomposable (a_func b) \<and> k \<notin> set (cell_names b)"
    if "b \<in> set xs \<union> set ys" "k \<in> set (cell_names a)" for b k
  proof -
    have b: "b \<in> set as" using that(1) as by auto
    show ?thesis using aggs_ok_func [OF assms(1) b] aggs_ok_names [OF assms(1,2) b] ne [OF that(1)] that(2) by blast
  qed
  have xs: "kv_get k (foldl (finish_one sets) acc' xs) = kv_get k acc'" if "k \<in> set (cell_names a)" for k acc'
    by (rule finish_untouched) (use nm that in blast)
  have ys: "kv_get k (foldl (finish_one sets) acc' ys) = kv_get k acc'" if "k \<in> set (cell_names a)" for k acc'
    by (rule finish_untouched) (use nm that in blast)
  have mem: "a_alias a \<in> set (cell_names a)" "sum_key (a_alias a) \<in> set (cell_names a)"
    "cnt_key (a_alias a) \<in> set (cell_names a)" by (simp_all add: cell_names_def)
  have d: "sum_key (a_alias a) \<noteq> cnt_key (a_alias a)" "a_alias a \<noteq> sum_key (a_alias a)" "a_alias a \<noteq> cnt_key (a_alias a)"
    using aggs_ok_name [OF assms] by (simp_all add: cell_names_def)
  show ?thesis
    using aggs_ok_func [OF assms]
    by (cases "a_func a" rule: decomposable_cases)
      (simp_all add: as finish_one_def ys mem xs acc_get_kv num_of_def d Let_def)
qed

lemma merge_row_kv:
  assumes "\<forall>b \<in> set as. decomposable (a_func b) \<and> k \<notin> set (cell_names b)"
  shows "kv_get k (fst (foldl (\<lambda>st r. foldl (merge_one r) st as) st ps)) = kv_get k (fst st)"
proof -
  have "kv_get k (fst (foldl (merge_one r) st' bs)) = kv_get k (fst st')"
    if "set bs \<subseteq> set as" for r st' bs
    using that assms by (induction bs arbitrary: st') (auto simp: merge_one_kv)
  then show ?thesis by (induction ps arbitrary: st) auto
qed

definition merge_out :: "agg_plan \<Rightarrow> jsval list \<Rightarrow> jsval" where
  "merge_out plan ps =
     finish_group plan (foldl (\<lambda>st r. foldl (merge_one r) st (snd plan)) (new_group (fst plan) (hd ps), []) ps)"

lemma mergePartials_closed:
  "mergePartials ps plan =
     map (\<lambda>k. merge_out plan (rows_of (merge_key (fst plan)) k ps)) (js_dedup (map (merge_key (fst plan)) ps))"
proof -
  have "merge_row plan = (\<lambda>st r. foldl (merge_one r) st (snd plan))" by (simp add: merge_row_def fun_eq_iff)
  then show ?thesis by (simp add: mergePartials_def merge_groups_def group_rows_closed merge_out_def)
qed

lemma plan_names:
  assumes "plan_names_ok plan"
  shows "aggs_ok (snd plan)"
    and "g \<in> set (fst plan) \<Longrightarrow> base_name (gName g) = gName g"
    and "g \<in> set (fst plan) \<Longrightarrow> a \<in> set (snd plan) \<Longrightarrow> gName g \<notin> set (cell_names a)"
  using assms unfolding plan_names_ok_def list_all_iff by auto

lemma new_group_get:
  "kv_get n (new_group cols row) = (if n \<in> gName ` set cols then Some (row_value row n) else None)"
proof (cases "n \<in> gName ` set cols")
  case True
  then show ?thesis unfolding new_group_def by (simp add: kv_get_fold_set [where w = "row_value row n"])
next
  case False
  then show ?thesis unfolding new_group_def by (simp add: kv_get_fold_other)
qed

lemma merge_out_value:
  assumes ok: "plan_names_ok plan" and a: "a \<in> set (snd plan)"
  shows "js_get (a_alias a) (merge_out plan ps) =
    (case merge_run a ps of (x, y) \<Rightarrow>
       if a_func a = ''AVG'' then (if num_of y > 0 then JNum (num_of x / num_of y) else JNull)
       else (case x of Some v \<Rightarrow> v | None \<Rightarrow> JUndef))"
proof -
  note aok = plan_names(1) [OF ok]
  define st where "st = foldl (\<lambda>st r. foldl (merge_one r) st (snd plan)) (new_group (fst plan) (hd ps), []) ps"
  have "n \<notin> gName ` set (fst plan)" if "n \<in> set (cell_names a)" for n
    using plan_names(3) [OF ok _ a] that by auto
  then have "merge_slot a (new_group (fst plan) (hd ps), []) = (None, None)"
    by (simp add: merge_slot_def new_group_get cell_names_def)
  then have slot: "merge_slot a st = merge_run a ps"
    unfolding st_def mergec.cell_rows [OF aok a] merge_run_def by simp
  have "merge_out plan ps = JObj (foldl (finish_one (snd st)) (fst st) (snd plan))"
    unfolding merge_out_def finish_group_def st_def [symmetric] by (simp add: case_prod_beta)
  then show ?thesis
    unfolding slot [symmetric] merge_slot_def
    by (simp add: js_get_def finish_own [OF aok a] Let_def)
qed

lemma merge_out_group:
  assumes ok: "plan_names_ok plan" and g: "g \<in> set (fst plan)"
  shows "js_get (gName g) (merge_out plan ps) = row_value (hd ps) (gName g)"
proof -
  have nm: "\<forall>b \<in> set (snd plan). decomposable (a_func b) \<and> gName g \<notin> set (cell_names b)"
    using plan_names(3) [OF ok g] aggs_ok_func [OF plan_names(1) [OF ok]] by blast
  from g show ?thesis
    by (simp add: merge_out_def finish_group_def case_prod_beta js_get_def finish_untouched [OF nm]
        merge_row_kv [OF nm] new_group_get)
qed

section \<open>The partial plan\<close>

definition partials :: "aggregate_spec \<Rightarrow> aggregate_spec list" where
  "partials a = (if a_func a = ''AVG''
     then [\<lparr>a_func = ''SUM'', a_column = a_column a, a_alias = sum_key (a_alias a), a_percent = None\<rparr>,
           \<lparr>a_func = ''COUNT'', a_column = a_column a, a_alias = cnt_key (a_alias a), a_percent = None\<rparr>]
     else [a])"

lemma partialSpec_eq: "partialSpec plan = (fst plan, concat (map partials (snd plan)))"
  by (simp add: partialSpec_def partials_def [abs_def])

lemma partials_mem: "a \<in> set (snd plan) \<Longrightarrow> b \<in> set (partials a) \<Longrightarrow> b \<in> set (snd (partialSpec plan))"
  by (auto simp: partialSpec_eq)

lemma raw_ok_partials:
  assumes "aggs_ok as"
  shows "raw_ok (concat (map partials as))"
proof -
  have "concat (map raw_names (concat (map partials as))) = concat (map (\<lambda>a. concat (map raw_names (partials a))) as)"
    by (induction as) auto
  moreover have "distinct (concat (map (\<lambda>a. concat (map raw_names (partials a))) as))"
    using assms unfolding names_ok_def
    by (elim conjE, elim distinct_concat_mono) (auto simp: cell_names_def raw_names_def partials_def)
  moreover have "list_all (\<lambda>a. decomposable (a_func a)) (concat (map partials as))"
    using assms unfolding names_ok_def by (auto simp: list_all_iff partials_def decomposable_def)
  ultimately show ?thesis unfolding names_ok_def by simp
qed

lemma partials_alias: "b \<in> set (partials a) \<Longrightarrow> a_alias b \<in> set (cell_names a)"
  by (auto simp: partials_def cell_names_def split: if_splits)

lemma group_row_partial:
  assumes "group_row (partialSpec plan) grp out" "a \<in> set (snd plan)" "grp \<noteq> []"
  shows "partial_of a out grp"
proof -
  have v: "js_get (a_alias b) out = agg_value b grp" if "b \<in> set (partials a)" for b
    using assms(1) partials_mem [OF assms(2) that] by (simp add: group_row_def list_all_iff)
  show ?thesis
  proof (cases "a_func a = ''AVG''")
    case True
    let ?s = "\<lparr>a_func = ''SUM'', a_column = a_column a, a_alias = sum_key (a_alias a), a_percent = None\<rparr>"
    let ?c = "\<lparr>a_func = ''COUNT'', a_column = a_column a, a_alias = cnt_key (a_alias a), a_percent = None\<rparr>"
    have "arg_num ?s = arg_num a" "counted ?c = counted a"
      by (simp_all add: arg_num_def counted_def agg_arg_def fun_eq_iff)
    then have "agg_sum ?s grp = agg_sum a grp" "agg_cnt ?c grp = agg_cnt a grp"
      by (simp_all add: agg_sum_def agg_cnt_def)
    with v [of ?s] v [of ?c] True assms(3) show ?thesis
      by (simp add: partial_of_def partials_def agg_value_def)
  next
    case False
    with v [of a] assms(3) show ?thesis by (simp add: partial_of_def partials_def)
  qed
qed

text \<open>What a source sends for one of its groups, and its key at the merge.\<close>

definition value_row :: "agg_plan \<Rightarrow> jsval list \<Rightarrow> jsval list \<Rightarrow> jsval" where
  "value_row plan k rows =
     (let grp = rows_of (raw_key (fst plan)) k rows; pp = partialSpec plan in
      raw_finish pp (raw_group (fst pp) (hd grp), foldl (\<lambda>st r. foldl (raw_one r) st (snd pp)) ([], []) grp))"

lemma source_rows:
  "aggregateRaw rows (partialSpec plan) =
     map (\<lambda>k. value_row plan k rows) (js_dedup (map (raw_key (fst plan)) rows))"
  by (simp add: aggregateRaw_closed value_row_def partialSpec_eq Let_def)

lemma source_row_group:
  assumes ok: "plan_names_ok plan" and k: "k \<in> raw_key (fst plan) ` set rows"
  shows "group_row (partialSpec plan) (rows_of (raw_key (fst plan)) k rows) (value_row plan k rows)"
  unfolding value_row_def Let_def
proof (rule raw_finish_row)
  show "raw_ok (snd (partialSpec plan))"
    using raw_ok_partials [OF plan_names(1) [OF ok]] by (simp add: partialSpec_eq)
  show "gName ` set (fst (partialSpec plan)) \<inter> a_alias ` set (snd (partialSpec plan)) = {}"
    using plan_names(3) [OF ok] partials_alias by (fastforce simp: partialSpec_eq)
  show "rows_of (raw_key (fst plan)) k rows \<noteq> []" by (rule rows_of_nonempty [OF k])
qed

lemma raw_cell_defined: "raw_cell row n \<noteq> JUndef"
  by (cases "readCol row n") (simp_all add: raw_cell_def coalesce_def)

lemma row_value_plain: "base_name n = n \<Longrightarrow> js_get n row = raw_cell r n \<Longrightarrow> row_value row n = raw_cell r n"
  using raw_cell_defined [of r n] by (cases "raw_cell r n") (simp_all add: row_value_def coalesce_def)

lemma source_row_value:
  assumes ok: "plan_names_ok plan" and k: "k \<in> raw_key (fst plan) ` set rows" and g: "g \<in> set (fst plan)"
  shows "row_value (value_row plan k rows) (gName g) = raw_cell (hd (rows_of (raw_key (fst plan)) k rows)) (gName g)"
  using source_row_group [OF ok k] g plan_names(2) [OF ok g]
  by (intro row_value_plain) (simp_all add: group_row_def list_all_iff partialSpec_eq)

lemma rows_of_key: "r \<in> set (rows_of key k rows) \<Longrightarrow> key r = k"
  by (simp add: rows_of_def)

lemma source_row_key:
  assumes ok: "plan_names_ok plan" and k: "k \<in> raw_key (fst plan) ` set rows"
  shows "merge_key (fst plan) (value_row plan k rows) = k"
proof -
  have "hd (rows_of (raw_key (fst plan)) k rows) \<in> set (rows_of (raw_key (fst plan)) k rows)"
    by (rule hd_in_set [OF rows_of_nonempty [OF k]])
  then have "raw_key (fst plan) (hd (rows_of (raw_key (fst plan)) k rows)) = k" by (rule rows_of_key)
  moreover have "merge_key (fst plan) (value_row plan k rows) = raw_key (fst plan) (hd (rows_of (raw_key (fst plan)) k rows))"
    unfolding merge_key_def raw_key_def [of "fst plan" "hd _"]
    by (rule map_cong [OF refl]) (simp add: source_row_value [OF ok k])
  ultimately show ?thesis by simp
qed

text \<open>The partial rows of a key: one from each source that has the group.\<close>

lemma partial_rows_of_key:
  assumes ok: "plan_names_ok plan"
  shows "rows_of (merge_key (fst plan)) k (concat (map (\<lambda>rows. aggregateRaw rows (partialSpec plan)) sources)) =
    map (value_row plan k) (filter (\<lambda>rows. k \<in> raw_key (fst plan) ` set rows) sources)"
proof (induction sources)
  case (Cons rows sources)
  define ks where "ks = js_dedup (map (raw_key (fst plan)) rows)"
  have key: "merge_key (fst plan) (value_row plan j rows) = j" if "j \<in> set ks" for j
    using that by (intro source_row_key [OF ok]) (auto simp: ks_def)
  have "filter (\<lambda>r. merge_key (fst plan) r = k) (map (\<lambda>j. value_row plan j rows) js) =
      (if k \<in> set js then [value_row plan k rows] else [])" if "distinct js" "set js \<subseteq> set ks" for js
    using that
  proof (induction js)
    case (Cons j js)
    then show ?case by (cases "j = k") (simp_all add: key)
  qed simp
  from this [of ks] have "rows_of (merge_key (fst plan)) k (aggregateRaw rows (partialSpec plan)) =
      (if k \<in> raw_key (fst plan) ` set rows then [value_row plan k rows] else [])"
    by (simp add: rows_of_def source_rows ks_def)
  then show ?case using Cons.IH by (simp add: rows_of_def)
qed (simp add: rows_of_def)

lemma rows_of_concat:
  "rows_of key k (concat xss) = concat (map (rows_of key k) (filter (\<lambda>xs. k \<in> key ` set xs) xss))"
proof (induction xss)
  case (Cons xs xss)
  have "k \<notin> key ` set xs \<Longrightarrow> rows_of key k xs = []" by (auto simp: rows_of_def filter_empty_conv)
  with Cons show ?case by (cases "k \<in> key ` set xs") (simp_all add: rows_of_def)
qed (simp add: rows_of_def)

lemma merge_keys:
  assumes ok: "plan_names_ok plan"
  shows "js_dedup (map (merge_key (fst plan)) (concat (map (\<lambda>rows. aggregateRaw rows (partialSpec plan)) sources))) =
    js_dedup (map (raw_key (fst plan)) (concat sources))"
proof -
  have "map (merge_key (fst plan)) (aggregateRaw rows (partialSpec plan)) = js_dedup (map (raw_key (fst plan)) rows)" for rows
    unfolding source_rows map_map
    by (rule map_idI) (simp add: source_row_key [OF ok])
  then have "map (merge_key (fst plan)) (concat (map (\<lambda>rows. aggregateRaw rows (partialSpec plan)) sources)) =
      concat (map js_dedup (map (map (raw_key (fst plan))) sources))"
    by (simp add: map_concat comp_def)
  then show ?thesis by (simp only: js_dedup_concat map_concat)
qed

lemma federated_group:
  assumes ok: "plan_names_ok plan" and k: "k \<in> raw_key (fst plan) ` set (concat sources)"
    and avg: "\<forall>a \<in> set (snd plan). a_func a = ''AVG'' \<longrightarrow> list_all (counted a) (concat sources)"
  defines "grp \<equiv> rows_of (raw_key (fst plan)) k (concat sources)"
  shows "group_row plan grp
    (merge_out plan (map (value_row plan k) (filter (\<lambda>rows. k \<in> raw_key (fst plan) ` set rows) sources)))"
proof -
  define srcs where "srcs = filter (\<lambda>rows. k \<in> raw_key (fst plan) ` set rows) sources"
  have src: "k \<in> raw_key (fst plan) ` set rows" if "rows \<in> set srcs" for rows
    using that by (simp add: srcs_def)
  have grp: "grp = concat (map (rows_of (raw_key (fst plan)) k) srcs)"
    by (simp add: grp_def srcs_def rows_of_concat)
  have ne: "srcs \<noteq> []" "grp \<noteq> []"
    using k rows_of_nonempty [OF k] by (auto simp: srcs_def filter_empty_conv grp_def)
  have len: "0 < (of_nat (length grp) :: rat)" using ne by simp
  have gv: "js_get (gName g) (merge_out plan (map (value_row plan k) srcs)) = raw_cell (hd grp) (gName g)"
    if g: "g \<in> set (fst plan)" for g
  proof -
    obtain s ss where ss: "srcs = s # ss" using ne by (cases srcs) auto
    have "rows_of (raw_key (fst plan)) k s \<noteq> []" by (rule rows_of_nonempty) (simp add: src ss)
    then have "hd grp = hd (rows_of (raw_key (fst plan)) k s)" by (simp add: grp ss)
    then show ?thesis
      by (simp add: merge_out_group [OF ok g] ss source_row_value [OF ok src g])
  qed
  have av: "js_get (a_alias a) (merge_out plan (map (value_row plan k) srcs)) = agg_value a grp"
    if a: "a \<in> set (snd plan)" for a
  proof -
    have f: "decomposable (a_func a)" by (rule aggs_ok_func [OF plan_names(1) [OF ok] a])
    have "partial_of a (value_row plan k rows) (rows_of (raw_key (fst plan)) k rows)" if "rows \<in> set srcs" for rows
      by (rule group_row_partial [OF source_row_group [OF ok src [OF that]] a rows_of_nonempty [OF src [OF that]]])
    then have run: "merge_run a (map (value_row plan k) srcs) =
        (if a_func a = ''AVG'' then (Some (JNum (agg_sum a grp)), Some (JNum (agg_cnt a grp))) else twice (agg_value a grp))"
      unfolding grp by (rule merge_run_closed [OF f _ ne(1)])
    have "agg_cnt a grp = of_nat (length grp)" if "a_func a = ''AVG''"
    proof -
      have "\<forall>r \<in> set grp. counted a r"
        using avg a that unfolding grp_def rows_of_def list_all_iff set_filter by blast
      then show ?thesis by (simp add: agg_cnt_def)
    qed
    then show ?thesis
      using len by (simp add: merge_out_value [OF ok a] run twice_def agg_value_def)
  qed
  show ?thesis using av gv unfolding group_row_def list_all_iff srcs_def by blast
qed

section \<open>Properties\<close>

text \<open>
  Aggregating in two phases is exact. When every source computes the partial plan over
  its own rows and the fabric merges what they send, the result has one row per group, in
  the same order, with the same group columns and the same value of every requested
  aggregate as a single pass over the rows of all sources, provided an averaged column holds
  no null.
\<close>

theorem federated_aggregate_exact:
  assumes "plan_names_ok plan"
    and "\<forall>a \<in> set (snd plan). a_func a = ''AVG'' \<longrightarrow> list_all (counted a) (concat sources)"
  shows "list_all2 (\<lambda>m r. \<forall>n \<in> gName ` set (fst plan) \<union> a_alias ` set (snd plan). js_get n m = js_get n r)
    (mergePartials (concat (map (\<lambda>rows. aggregateRaw rows (partialSpec plan)) sources)) plan)
    (aggregateRaw (concat sources) plan)"
proof -
  have dis: "gName ` set (fst plan) \<inter> a_alias ` set (snd plan) = {}"
    using plan_names(3) [OF assms(1)] by (fastforce simp: cell_names_def)
  have "\<forall>n \<in> gName ` set (fst plan) \<union> a_alias ` set (snd plan). js_get n x = js_get n y"
    if "group_row plan grp x" "group_row plan grp y" for grp x y
    using that unfolding group_row_def list_all_iff by auto
  from this [OF federated_group [OF assms(1) _ assms(2)]
      raw_finish_row [OF aggs_ok_raw_ok [OF plan_names(1) [OF assms(1)]] dis rows_of_nonempty]]
  show ?thesis
    unfolding mergePartials_closed merge_keys [OF assms(1)] partial_rows_of_key [OF assms(1)]
      aggregateRaw_closed [of "concat sources"] Let_def
    by (simp add: list_all2_map1 list_all2_map2 list_all2_same)
qed

definition sales_plan :: agg_plan where
  "sales_plan = ([GField ''region''],
     [\<lparr>a_func = ''AVG'', a_column = Some ''amount'', a_alias = ''mean'', a_percent = None\<rparr>,
      \<lparr>a_func = ''MAX'', a_column = Some ''amount'', a_alias = ''top'', a_percent = None\<rparr>,
      \<lparr>a_func = ''COUNT'', a_column = None, a_alias = ''n'', a_percent = None\<rparr>])"

definition sale :: "string \<Rightarrow> jsval \<Rightarrow> jsval" where
  "sale r v = JObj [(''region'', JStr r), (''amount'', v)]"

definition sales :: "jsval list list" where
  "sales = [[sale ''eu'' (JNum 10), sale ''us'' (JNum 4)], [sale ''eu'' (JNum 20)]]"

lemma federated_aggregate_exact_witness:
  "list_all2 (\<lambda>m r. \<forall>n \<in> gName ` set (fst sales_plan) \<union> a_alias ` set (snd sales_plan). js_get n m = js_get n r)
    (mergePartials (concat (map (\<lambda>rows. aggregateRaw rows (partialSpec sales_plan)) sales)) sales_plan)
    (aggregateRaw (concat sales) sales_plan) \<and>
   js_get ''mean'' (hd (aggregateRaw (concat sales) sales_plan)) = JNum 15"
proof
  show "list_all2 (\<lambda>m r. \<forall>n \<in> gName ` set (fst sales_plan) \<union> a_alias ` set (snd sales_plan). js_get n m = js_get n r)
    (mergePartials (concat (map (\<lambda>rows. aggregateRaw rows (partialSpec sales_plan)) sales)) sales_plan)
    (aggregateRaw (concat sales) sales_plan)"
    by (rule federated_aggregate_exact; code_simp)
qed code_simp

text \<open>
  The hypothesis on averaged columns is needed. Over one source holding 10 and a null,
  the single pass counts the null as a zero (average 5), the two phases leave it out
  (average 10): the same query has two answers, according to whether it was pushed down.
\<close>

theorem average_depends_on_path:
  "js_get ''mean'' (hd (aggregateRaw [sale ''eu'' (JNum 10), sale ''eu'' JNull] sales_plan)) = JNum 5 \<and>
   js_get ''mean'' (hd (mergePartials (aggregateRaw [sale ''eu'' (JNum 10), sale ''eu'' JNull] (partialSpec sales_plan)) sales_plan)) = JNum 10"
  by code_simp

end
