(* ===== verification/Federation.thy ===== *)
theory Federation
  imports FedJoin FedSetOp AggregateFed
begin

text \<open>
  \<open>FederationExecutor.execute\<close>, the entry point: a union whose legs are all aggregate queries is
  computed by partial aggregates (\<open>fanAggregate\<close>), any other set operation by \<open>executeSetOp\<close>, a
  join by \<open>executeJoin\<close> over the accesses of \<open>FedFetch\<close>, a single leg by one request. The limits
  of the environment and the regular expression engine are a record of their own; the probe
  cache is threaded through.
\<close>

section \<open>The accesses of a join\<close>

record fed_limits =
  fl_bindMax :: nat
  fl_broadcast :: nat
  fl_probe :: bool
  fl_rx :: regex_engine

definition leg_canonical :: "js_filter \<Rightarrow> string list \<Rightarrow> canonical_query" where
  "leg_canonical f cols = empty_query\<lparr>q_filter := f, q_select := cols\<rparr>"

text \<open>A leg without pushed predicates has no filter at all.\<close>

definition opt_filter :: "js_filter \<Rightarrow> js_filter option" where
  "opt_filter f = (if f = [] then None else Some f)"

definition fed_join_env :: "world \<Rightarrow> fed_limits \<Rightarrow> string \<Rightarrow> fed_plan \<Rightarrow> string \<Rightarrow> nat \<Rightarrow> probe_cache \<Rightarrow> fed_env" where
  "fed_join_env w lims tenantId plan tenantSchema now cache =
     \<lparr>fe_fetch = \<lambda>lm f cols. mapR (\<lambda>res. map obj_of (lr_rows res))
        (fetchLegDirect w tenantId plan tenantSchema (lm_source lm) (lm_resource lm) (leg_canonical f cols)),
      fe_stream = \<lambda>lm f. mapR (map obj_of)
        (fetchLegStream w tenantId plan tenantSchema (lm_source lm) (lm_resource lm) empty_query f),
      fe_estimate = \<lambda>lm f. fst (estimateLegRows w tenantId plan tenantSchema now (lm_source lm) (lm_resource lm) (opt_filter f) cache),
      fe_rx = fl_rx lims, fe_cap = w_cap w, fe_bindMax = fl_bindMax lims, fe_broadcast = fl_broadcast lims,
      fe_probe = fl_probe lims\<rparr>"

text \<open>The counts the estimates of a join leave in the cache; the legs are probed at once.\<close>

definition new_probe :: "world \<Rightarrow> string \<Rightarrow> fed_plan \<Rightarrow> string \<Rightarrow> nat \<Rightarrow> probe_cache \<Rightarrow> leg_filters \<Rightarrow> leg_meta \<Rightarrow> probe_cache" where
  "new_probe w tenantId plan tenantSchema now cache pf lm =
     (let c = snd (estimateLegRows w tenantId plan tenantSchema now (lm_source lm) (lm_resource lm)
                     (opt_filter (filter_of pf (lm_alias lm))) cache)
      in take (length c - length cache) c)"

definition join_probes :: "world \<Rightarrow> fed_limits \<Rightarrow> string \<Rightarrow> fed_plan \<Rightarrow> string \<Rightarrow> nat \<Rightarrow> probe_cache \<Rightarrow> jsval \<Rightarrow> probe_cache" where
  "join_probes w lims tenantId plan tenantSchema now cache ast =
     (let lms = join_metas ast in
      case buildLegFilters lms (arr_of (js_get ''where'' ast)) of
        None \<Rightarrow> cache
      | Some pf \<Rightarrow>
          if fl_probe lims \<and> (two_leg lms \<or> multi_leg lms)
          then concat (map (new_probe w tenantId plan tenantSchema now cache pf) lms) @ cache else cache)"

section \<open>The partial aggregates of a union\<close>

definition group_of :: "jsval \<Rightarrow> group_by" where
  "group_of g =
     (case g of JStr s \<Rightarrow> GField s
      | _ \<Rightarrow> GBucket (js_string (js_get ''field'' g)) (js_string (js_get ''dateInterval'' g)))"

definition ast_plan :: "jsval \<Rightarrow> agg_plan option" where
  "ast_plan q = parseAggregates (arr_of (js_get ''select'' q)) (map group_of (arr_of (js_get ''groupBy'' q)))"

definition partial_query :: "agg_plan \<Rightarrow> jsval \<Rightarrow> canonical_query" where
  "partial_query aplan leg =
     empty_query\<lparr>q_filter := q_filter (astLegToCanonical leg), q_groupBy := fst (partialSpec aplan),
       q_aggregates := snd (partialSpec aplan)\<rparr>"

definition partial_leg :: "world \<Rightarrow> string \<Rightarrow> fed_plan \<Rightarrow> string \<Rightarrow> agg_plan \<Rightarrow> jsval \<Rightarrow> jsval list res" where
  "partial_leg w tenantId plan tenantSchema aplan leg =
     mapR lr_rows (fetchLegDirect w tenantId plan tenantSchema (leg_source leg) (leg_resource leg) (partial_query aplan leg))"

definition order_rows :: "jsval list \<Rightarrow> jsval \<Rightarrow> jsval list" where
  "order_rows rows ast = map JObj (applyOrderLimit (map obj_of rows) ast)"

definition fanAggregate :: "world \<Rightarrow> string \<Rightarrow> fed_plan \<Rightarrow> string \<Rightarrow> jsval \<Rightarrow> jsval list \<Rightarrow> agg_plan \<Rightarrow> jsval list res" where
  "fanAggregate w tenantId plan tenantSchema ast legs aplan =
     mapR (\<lambda>parts. order_rows (mergePartials (concat parts) aplan) ast)
       (mapMR (partial_leg w tenantId plan tenantSchema aplan) legs)"

section \<open>The entry point\<close>

text \<open>\<open>distinctRows\<close>: the first row of each JSON text.\<close>

fun distinct_by_text :: "string list \<Rightarrow> fed_row list \<Rightarrow> fed_row list" where
  "distinct_by_text seen [] = []"
| "distinct_by_text seen (r # rs) =
     (let k = json_text (JObj r) in
      if k \<in> set seen then distinct_by_text seen rs else r # distinct_by_text (k # seen) rs)"

definition distinctRows :: "fed_row list \<Rightarrow> fed_row list" where
  "distinctRows rows = distinct_by_text [] rows"

definition all_aggregates :: "jsval list \<Rightarrow> bool" where
  "all_aggregates legs \<longleftrightarrow> legs \<noteq> [] \<and> list_all (\<lambda>l. case ast_plan l of Some p \<Rightarrow> snd p \<noteq> [] | None \<Rightarrow> False) legs"

definition finish_setop :: "jsval \<Rightarrow> jsval list \<Rightarrow> jsval list" where
  "finish_setop ast rows = (case ast_plan ast of Some p \<Rightarrow> order_rows (aggregateRaw rows p) ast | None \<Rightarrow> rows)"

definition finish_join :: "jsval \<Rightarrow> fed_row list \<Rightarrow> jsval list" where
  "finish_join ast joined =
     (case ast_plan ast of
        Some p \<Rightarrow> order_rows (aggregateRaw (map JObj joined) p) ast
      | None \<Rightarrow>
          (let rows = applyProjection joined (js_get ''select'' ast)
           in map JObj (applyOrderLimit (if truthy (js_get ''distinct'' ast) then distinctRows rows else rows) ast)))"

definition single_query :: "jsval \<Rightarrow> canonical_query" where
  "single_query ast =
     (case ast_plan ast of
        Some p \<Rightarrow>
          if snd p \<noteq> [] \<or> fst p \<noteq> []
          then (astLegToCanonical ast)\<lparr>q_groupBy := fst p, q_aggregates := snd p, q_select := []\<rparr> else astLegToCanonical ast
      | None \<Rightarrow> astLegToCanonical ast)"

text \<open>The rows of a single leg are sorted again, but neither limited nor offset a second time.\<close>

definition order_only :: "jsval \<Rightarrow> jsval" where
  "order_only ast = JObj (kv_set ''offset'' JUndef (kv_set ''limit'' JUndef (obj_of ast)))"

definition execute :: "world \<Rightarrow> fed_limits \<Rightarrow> string \<Rightarrow> fed_plan \<Rightarrow> string \<Rightarrow> nat \<Rightarrow> probe_cache \<Rightarrow> jsval \<Rightarrow> jsval list res \<times> probe_cache" where
  "execute w lims tenantId plan tenantSchema now cache ast =
     (if truthy (js_get ''union'' ast) \<or> truthy (js_get ''intersect'' ast) \<or> truthy (js_get ''except'' ast) then
        (let legs = set_legs ast in
         if truthy (js_get ''union'' ast) \<and> all_aggregates legs then
           (mapR (finish_setop ast) (fanAggregate w tenantId plan tenantSchema ast legs (the (ast_plan (hd legs)))), cache)
         else
           (case executeSetOp w tenantId plan tenantSchema now cache ast of
              (r, cache') \<Rightarrow> (mapR (finish_setop ast) r, cache')))
      else if arr_of (js_get ''joins'' ast) \<noteq> [] then
        (mapR (finish_join ast) (executeJoin (fed_join_env w lims tenantId plan tenantSchema now cache) ast),
         join_probes w lims tenantId plan tenantSchema now cache ast)
      else
        (mapR (\<lambda>res. order_rows (lr_rows res) (order_only ast))
           (fetchLegDirect w tenantId plan tenantSchema (leg_source ast) (leg_resource ast) (single_query ast)), cache))"

section \<open>Aggregates over several sources\<close>

text \<open>
  C2: a union of aggregate queries asks every source for one partial aggregate under the leg's
  own predicates. When each source answers with the aggregates of its matching rows, the result
  has, group by group, the group columns and the aggregate values of one pass over the matching
  rows of all sources, ordered and limited as the query says.
\<close>

theorem fan_aggregate_exact:
  assumes ast: "truthy (js_get ''union'' ast)" "all_aggregates (set_legs ast)" "ast_plan ast = None"
      and plan: "ast_plan (hd (set_legs ast)) = Some aplan" "plan_names_ok aplan"
      and answers: "list_all2 (\<lambda>leg rows. mapR lr_rows (fetchLegDirect w tenantId plan tenantSchema (leg_source leg) (leg_resource leg)
                      (partial_query aplan leg)) = Inr (aggregateRaw rows (partialSpec aplan))) (set_legs ast) sources"
      and counted: "\<forall>a \<in> set (snd aplan). a_func a = ''AVG'' \<longrightarrow> list_all (counted a) (concat sources)"
  shows "\<exists>merged. fst (execute w lims tenantId plan tenantSchema now cache ast) = Inr (order_rows merged ast) \<and>
    list_all2 (\<lambda>m r. \<forall>n \<in> gName ` set (fst aplan) \<union> a_alias ` set (snd aplan). js_get n m = js_get n r)
      merged (aggregateRaw (concat sources) aplan)"
proof -
  let ?parts = "map (\<lambda>rows. aggregateRaw rows (partialSpec aplan)) sources"
  have "mapMR (partial_leg w tenantId plan tenantSchema aplan) (set_legs ast) = Inr ?parts"
    using answers unfolding mapMR_Inr partial_leg_def by (simp add: list_all2_map2)
  then have "fst (execute w lims tenantId plan tenantSchema now cache ast) = Inr (order_rows (mergePartials (concat ?parts) aplan) ast)"
    using ast plan(1) by (simp add: execute_def fanAggregate_def finish_setop_def)
  with federated_aggregate_exact [OF plan(2) counted] show ?thesis by blast
qed

section \<open>Examples\<close>

definition leg_at :: "string \<Rightarrow> resolved_leg" where
  "leg_at src = \<lparr>rl_source = src, rl_resource = src, rl_engine = ''MONGODB'',
     rl_sync = ''VIRTUAL'', rl_reachable = False, rl_schema = Some ''s'',
     rl_table = Some src, rl_config = JNull, rl_rowCount = Some 3\<rparr>"

text \<open>Two collections of numbered rows, in production.\<close>

definition two_collections :: "(string \<Rightarrow> jsval list) \<Rightarrow> world" where
  "two_collections rows = \<lparr>w_grants = [], w_policies = Inr [], w_columns = \<lambda>_ _. None, w_hub = \<lambda>_ _. Inr [],
     w_query = \<lambda>_ _ _ table _. Inr (rows table), w_sql_stream = \<lambda>_ _ _. Inr [], w_stream = \<lambda>_ _ _ table _. Inr (rows table),
     w_resolve = \<lambda>src _. Inr (leg_at src), w_parse = \<lambda>t. map_of (map (\<lambda>r. (json_text r, r)) (int_rows [1, 2])) t,
     w_cap = 50000, w_test = False\<rparr>"

definition plan_at :: "string list \<Rightarrow> fed_plan" where
  "plan_at srcs = \<lparr>fp_resolve = map (\<lambda>s. ((s, s), leg_at s)) srcs, fp_session = eu_session\<rparr>"

definition select_from :: "string \<Rightarrow> (string \<times> jsval) list \<Rightarrow> jsval" where
  "select_from src rest =
     JObj ([(''from'', JObj [(''source'', JStr src), (''resource'', JStr src)])] @ rest)"

definition no_limits :: fed_limits where
  "no_limits = \<lparr>fl_bindMax = 1000, fl_broadcast = 5000, fl_probe = True, fl_rx = \<lambda>_ _ _. Inr False\<rparr>"

text \<open>
  The rows of the second leg are cut at the outer limit before they are subtracted: row 1 is in
  both collections, and is returned by their difference with a limit of one.
\<close>

lemma except_with_limit_keeps_excluded:
  defines "ast \<equiv> JObj [(''except'', JArr [select_from ''a'' [], select_from ''b'' []]), (''limit'', JNum 1)]"
  shows "fst (execute (two_collections (\<lambda>t. if t = ''a'' then int_rows [1] else int_rows [2, 1])) no_limits ''acme''
      (plan_at [''a'', ''b'']) ''t'' 0 [] ast) = Inr (int_rows [1])"
  unfolding ast_def by code_simp

definition mean_query :: "string \<Rightarrow> jsval" where
  "mean_query src = select_from src [(''select'', JArr [JStr ''region'',
     JObj [(''aggregate'', JStr ''AVG''), (''column'', JStr ''amount''), (''alias'', JStr ''mean'')],
     JObj [(''aggregate'', JStr ''MAX''), (''column'', JStr ''amount''), (''alias'', JStr ''top'')],
     JObj [(''aggregate'', JStr ''COUNT''), (''column'', JStr ''*''), (''alias'', JStr ''n'')]])]"

definition mean_union :: jsval where
  "mean_union = JObj [(''union'', JArr [mean_query ''a'', mean_query ''b''])]"

definition sales_world :: world where
  "sales_world = two_collections (\<lambda>t. aggregateRaw (if t = ''a'' then sales ! 0 else sales ! 1) (partialSpec sales_plan))"

theorem fan_aggregate_exact_witness:
  "\<exists>merged. fst (execute sales_world no_limits ''acme'' (plan_at [''a'', ''b'']) ''t'' 0 [] mean_union) = Inr (order_rows merged mean_union) \<and>
    list_all2 (\<lambda>m r. list_all (\<lambda>n. js_get n m = js_get n r) [''region'', ''mean'', ''top'', ''n''])
      merged (aggregateRaw (concat sales) sales_plan)"
proof -
  have h: "truthy (js_get ''union'' mean_union)" "all_aggregates (set_legs mean_union)" "ast_plan mean_union = None"
      "ast_plan (hd (set_legs mean_union)) = Some sales_plan" "plan_names_ok sales_plan"
      "list_all2 (\<lambda>leg rows. mapR lr_rows (fetchLegDirect sales_world ''acme'' (plan_at [''a'', ''b'']) ''t'' (leg_source leg) (leg_resource leg)
         (partial_query sales_plan leg)) = Inr (aggregateRaw rows (partialSpec sales_plan))) (set_legs mean_union) sales"
      "\<forall>a \<in> set (snd sales_plan). a_func a = ''AVG'' \<longrightarrow> list_all (counted a) (concat sales)"
    by code_simp+
  have names: "gName ` set (fst sales_plan) \<union> a_alias ` set (snd sales_plan) = set [''region'', ''mean'', ''top'', ''n'']"
    by (auto simp: sales_plan_def)
  show ?thesis
    using fan_aggregate_exact [OF h, of no_limits 0 "[]"] unfolding names list_all_iff [symmetric] .
qed

end
