(* ===== verification/Planner.thy ===== *)
theory Planner
  imports FedFetch
begin

text \<open>
  \<open>modules/query-engine/planner.ts\<close>: which physical source every table reference of a query
  resolves to, and how the query is executed. The catalogue is a parameter: the rows of the
  join of \<open>catalog_tables\<close>, \<open>catalog_schemas\<close> and \<open>data_sources\<close>, in the order the database
  returns them, and the rows of \<open>data_sources\<close>. Resolved legs are cached for a minute.
\<close>

section \<open>The catalogue\<close>

record cat_row =
  ct_tenant :: string
  ct_source :: string
  ct_engine :: string
  ct_sync :: "string option"
  ct_config :: jsval
  ct_schema :: string
  ct_name :: string
  ct_table :: string
  ct_kind :: "string option"
  ct_rows :: "rat option"

record source_row =
  ds_tenant :: string
  ds_name :: string
  ds_engine :: string
  ds_sync :: "string option"
  ds_config :: jsval

text \<open>\<open>cat_override\<close> is the environment's \<open>FABRIC_TARGET_SOURCE_OVERRIDE\<close>, empty when unset.\<close>

record catalogue =
  cat_tables :: "cat_row list"
  cat_sources :: "source_row list"
  cat_override :: string

section \<open>The tables a query refers to\<close>

definition ref_of :: "jsval \<Rightarrow> string \<times> string" where
  "ref_of v = (js_string (or_val (js_get ''source'' v) (JStr LOCAL_SOURCE)), js_string (js_get ''resource'' v))"

lemma size_get_get: "truthy (js_get k (js_get l v)) \<Longrightarrow> size (js_get k (js_get l v)) < size v"
  using size_get_truthy [of k "js_get l v"] size_get_le [of l v] by simp

lemma size_get_elem: "x \<in> set (arr_of (js_get l v)) \<Longrightarrow> size (js_get k x) < size v"
  using size_get_le [of k x] size_elem [of x l v] by simp

function collectRefs :: "jsval \<Rightarrow> (string \<times> string) list" where
  "collectRefs ast =
     (if \<not> is_ref ast then []
      else
        (if truthy (js_get ''query'' (js_get ''from'' ast)) then collectRefs (js_get ''query'' (js_get ''from'' ast))
         else if truthy (js_get ''resource'' (js_get ''from'' ast)) then [ref_of (js_get ''from'' ast)] else [])
        @ concat (map (\<lambda>j. if truthy (js_get ''query'' j) then collectRefs (js_get ''query'' j)
                           else if truthy (js_get ''resource'' j) then [ref_of j] else []) (arr_of (js_get ''joins'' ast)))
        @ concat (map (\<lambda>k. concat (map collectRefs (arr_of (js_get k ast)))) [''union'', ''intersect'', ''except''])
        @ concat (map (\<lambda>c. collectRefs (js_get ''base'' c)
                         @ (if truthy (js_get ''unionAll'' c) then collectRefs (js_get ''unionAll'' c) else []))
            (arr_of (js_get ''with'' ast))))"
  by pat_completeness auto

termination
  by (relation "measure size") (auto intro: size_get_get size_get_elem size_elem)

declare collectRefs.simps [simp del]

text \<open>The entries of every WITH the walk of \<open>classify\<close> reaches.\<close>

function with_entries :: "jsval \<Rightarrow> jsval list" where
  "with_entries n =
     (if \<not> is_ref n then []
      else
        concat (map (\<lambda>c. c # with_entries (js_get ''base'' c) @ with_entries (js_get ''unionAll'' c)) (arr_of (js_get ''with'' n)))
        @ concat (map (\<lambda>k. concat (map with_entries (arr_of (js_get k n)))) [''union'', ''intersect'', ''except'']))"
  by pat_completeness auto

termination
  by (relation "measure size") (auto intro: size_get_elem size_elem)

declare with_entries.simps [simp del]

definition cte_names :: "jsval \<Rightarrow> string list" where
  "cte_names ast = map (\<lambda>c. js_string (js_get ''name'' c)) (filter (\<lambda>c. truthy (js_get ''name'' c)) (with_entries ast))"

definition hasRecursiveCte :: "jsval \<Rightarrow> bool" where
  "hasRecursiveCte ast \<longleftrightarrow> list_ex (\<lambda>c. truthy (js_get ''unionAll'' c)) (with_entries ast)"

section \<open>Resolving a reference\<close>

definition hub_leg :: "string \<Rightarrow> cat_row option \<Rightarrow> resolved_leg" where
  "hub_leg resource r =
     \<lparr>rl_source = LOCAL_SOURCE, rl_resource = resource, rl_engine = ''POSTGRES'', rl_sync = ''VIRTUAL'', rl_reachable = True,
      rl_schema = Option.bind r (\<lambda>x. if ct_schema x = [] then None else Some (ct_schema x)),
      rl_table = Some (case r of Some x \<Rightarrow> if ct_table x = [] then resource else ct_table x | None \<Rightarrow> resource),
      rl_config = JObj [(''local'', JBool True)], rl_rowCount = Option.bind r ct_rows\<rparr>"

definition is_matview :: "cat_row \<Rightarrow> bool" where
  "is_matview r \<longleftrightarrow> ct_kind r = Some ''MATERIALIZED_VIEW''"

definition sync_of :: "string option \<Rightarrow> string" where
  "sync_of s = js_upper (or_str s ''VIRTUAL'')"

definition config_of :: "jsval \<Rightarrow> jsval" where
  "config_of v = or_val v (JObj [])"

text \<open>\<open>ORDER BY (ds.type != 'POSTGRES') DESC LIMIT 1\<close>: a source of another engine comes first.\<close>

definition first_foreign :: "cat_row list \<Rightarrow> cat_row option" where
  "first_foreign rows =
     (case List.find (\<lambda>r. ct_engine r \<noteq> ''POSTGRES'') rows of
        Some r \<Rightarrow> Some r | None \<Rightarrow> (case rows of r # _ \<Rightarrow> Some r | [] \<Rightarrow> None))"

definition resolve_unlabelled :: "catalogue \<Rightarrow> string \<Rightarrow> string \<Rightarrow> resolved_leg" where
  "resolve_unlabelled cat tenantId resource =
     (case first_foreign (filter (\<lambda>r. ct_tenant r = tenantId \<and> ct_name r = resource) (cat_tables cat)) of
        None \<Rightarrow> hub_leg resource None
      | Some r \<Rightarrow>
          if ct_engine r = ''POSTGRES'' \<or> is_matview r then hub_leg resource (Some r)
          else \<lparr>rl_source = ct_source r, rl_resource = resource, rl_engine = js_upper (ct_engine r), rl_sync = sync_of (ct_sync r),
                rl_reachable = (ct_sync r \<in> {Some ''SYNC'', Some ''CDC''}), rl_schema = Some (ct_schema r),
                rl_table = Some (if ct_table r = [] then resource else ct_table r), rl_config = config_of (ct_config r),
                rl_rowCount = ct_rows r\<rparr>)"

definition engine_of :: "string \<Rightarrow> string" where
  "engine_of e = js_upper (if e = [] then ''POSTGRES'' else e)"

definition in_hub :: "string \<Rightarrow> bool" where
  "in_hub sync \<longleftrightarrow> sync = ''SYNC'' \<or> sync = ''CDC''"

definition source_not_found :: js_err where
  "source_not_found = Err 404 ''NOT_FOUND''"

definition resolve_labelled :: "catalogue \<Rightarrow> string \<Rightarrow> string \<Rightarrow> string \<Rightarrow> resolved_leg res" where
  "resolve_labelled cat tenantId src resource =
     (case List.find (\<lambda>r. ct_tenant r = tenantId \<and> ct_source r = src \<and> ct_name r = resource) (cat_tables cat) of
        Some r \<Rightarrow>
          if is_matview r then Inr (hub_leg resource (Some r))
          else Inr \<lparr>rl_source = src, rl_resource = resource, rl_engine = engine_of (ct_engine r), rl_sync = sync_of (ct_sync r),
                 rl_reachable = in_hub (sync_of (ct_sync r)),
                 rl_schema = (if ct_schema r = [] then None else Some (ct_schema r)),
                 rl_table = Some (if ct_table r = [] then resource else ct_table r), rl_config = config_of (ct_config r),
                 rl_rowCount = ct_rows r\<rparr>
      | None \<Rightarrow>
          (case List.find (\<lambda>d. ds_tenant d = tenantId \<and> ds_name d = src) (cat_sources cat) of
             None \<Rightarrow> Inl source_not_found
           | Some d \<Rightarrow>
               Inr \<lparr>rl_source = src, rl_resource = resource, rl_engine = engine_of (ds_engine d), rl_sync = sync_of (ds_sync d),
                 rl_reachable = in_hub (sync_of (ds_sync d)), rl_schema = None, rl_table = Some resource,
                 rl_config = config_of (ds_config d), rl_rowCount = None\<rparr>))"

definition effective_source :: "catalogue \<Rightarrow> string \<Rightarrow> string" where
  "effective_source cat src =
     (if src = [] \<or> src = LOCAL_SOURCE then (if cat_override cat = [] then src else cat_override cat) else src)"

definition resolveLegUncached :: "catalogue \<Rightarrow> string \<Rightarrow> string \<Rightarrow> string \<Rightarrow> resolved_leg res" where
  "resolveLegUncached cat tenantId src resource =
     (let eff = effective_source cat src in
      if eff = [] \<or> eff = LOCAL_SOURCE then Inr (resolve_unlabelled cat tenantId resource)
      else resolve_labelled cat tenantId eff resource)"

text \<open>The cache by tenant, source, resource and override, with the time an entry expires.\<close>

type_synonym leg_cache = "((string \<times> string \<times> string \<times> string) \<times> (resolved_leg \<times> nat)) list"

definition leg_ttl :: nat where
  "leg_ttl = 60000"

definition resolveLeg :: "catalogue \<Rightarrow> nat \<Rightarrow> string \<Rightarrow> string \<times> string \<Rightarrow> leg_cache \<Rightarrow> resolved_leg res \<times> leg_cache" where
  "resolveLeg cat now tenantId ref cache =
     (let key = (tenantId, fst ref, snd ref, cat_override cat) in
      case map_of cache key of
        Some (leg, expiry) \<Rightarrow>
          if expiry > now then (Inr leg, cache)
          else (case resolveLegUncached cat tenantId (fst ref) (snd ref) of
                  Inl e \<Rightarrow> (Inl e, cache) | Inr l \<Rightarrow> (Inr l, (key, (l, now + leg_ttl)) # cache))
      | None \<Rightarrow>
          (case resolveLegUncached cat tenantId (fst ref) (snd ref) of
             Inl e \<Rightarrow> (Inl e, cache) | Inr l \<Rightarrow> (Inr l, (key, (l, now + leg_ttl)) # cache)))"

definition clearLegCache :: "leg_cache \<Rightarrow> leg_cache" where
  "clearLegCache cache = []"

section \<open>The same database\<close>

definition normEngine :: "string \<Rightarrow> string" where
  "normEngine engine =
     (let e = js_upper engine in
      if e = ''POSTGRESQL'' \<or> e = ''PG'' then ''POSTGRES'' else if e = ''ORACLEDB'' then ''ORACLE''
      else if e = ''MARIADB'' then ''MYSQL'' else e)"

definition SQL_RELATIONAL :: "string list" where
  "SQL_RELATIONAL = [''POSTGRES'', ''MYSQL'', ''ORACLE'', ''SNOWFLAKE'']"

definition dialectOf :: "string \<Rightarrow> dialect" where
  "dialectOf engine =
     (let e = normEngine engine in
      if e = ''MYSQL'' then Mysql else if e = ''ORACLE'' then Oracle else if e = ''SNOWFLAKE'' then Snowflake else Postgres)"

text \<open>\<open>c.a || c.b || ...\<close>\<close>

fun first_of :: "string list \<Rightarrow> jsval \<Rightarrow> jsval" where
  "first_of [] c = JUndef"
| "first_of [k] c = js_get k c"
| "first_of (k # ks) c = or_val (js_get k c) (first_of ks c)"

definition connFingerprint :: "resolved_leg \<Rightarrow> string" where
  "connFingerprint leg =
     (let c = rl_config leg;
          cs = first_of [''connectionString'', ''connectionUri'', ''uri'', ''url'', ''dsn''] c;
          host = js_lower (js_string (or_val (first_of [''host'', ''server'', ''account''] c) (JStr [])));
          port = (if nullish (js_get ''port'' c) then [] else js_string (js_get ''port'' c));
          db = js_lower (js_string (or_val (first_of [''database'', ''db'', ''serviceName'', ''sid'', ''schema''] c) (JStr [])))
      in if truthy cs then normEngine (rl_engine leg) @ ''|'' @ js_lower (js_trim (js_string cs))
         else normEngine (rl_engine leg) @ ''|'' @ host @ '':'' @ port @ ''/'' @ db)"

section \<open>The plan\<close>

datatype strategy = SingleLocal | SingleConnector | CrossEngine

text \<open>The legs by reference in the order of the query; the source and dialect of a co-located query.\<close>

record query_plan =
  qp_strategy :: strategy
  qp_legs :: "((string \<times> string) \<times> resolved_leg) list"
  qp_colocated :: "(string \<times> dialect) option"

definition is_cte_ref :: "jsval \<Rightarrow> string \<times> string \<Rightarrow> bool" where
  "is_cte_ref ast ref \<longleftrightarrow> snd ref \<in> set (cte_names ast) \<and> (fst ref = [] \<or> fst ref = LOCAL_SOURCE)"

fun resolve_refs :: "catalogue \<Rightarrow> nat \<Rightarrow> string \<Rightarrow> (string \<times> string) list \<Rightarrow>
    ((string \<times> string) \<times> resolved_leg) list \<Rightarrow> leg_cache \<Rightarrow> ((string \<times> string) \<times> resolved_leg) list res \<times> leg_cache" where
  "resolve_refs cat now tenantId [] m cache = (Inr m, cache)"
| "resolve_refs cat now tenantId (ref # refs) m cache =
     (if map_of m ref \<noteq> None then resolve_refs cat now tenantId refs m cache
      else (case resolveLeg cat now tenantId ref cache of
              (Inl e, c) \<Rightarrow> (Inl e, c)
            | (Inr leg, c) \<Rightarrow> resolve_refs cat now tenantId refs (m @ [(ref, leg)]) c))"

definition has_setops :: "jsval \<Rightarrow> bool" where
  "has_setops ast \<longleftrightarrow> is_arr (js_get ''union'' ast) \<or> is_arr (js_get ''intersect'' ast) \<or> is_arr (js_get ''except'' ast)"

definition has_joins :: "jsval \<Rightarrow> bool" where
  "has_joins ast \<longleftrightarrow> arr_of (js_get ''joins'' ast) \<noteq> []"

definition has_with :: "jsval \<Rightarrow> bool" where
  "has_with ast \<longleftrightarrow> arr_of (js_get ''with'' ast) \<noteq> [] \<and> \<not> hasRecursiveCte ast"

definition has_derived :: "jsval \<Rightarrow> bool" where
  "has_derived ast \<longleftrightarrow> truthy (js_get ''query'' (js_get ''from'' ast))
     \<or> list_ex (\<lambda>j. truthy (js_get ''query'' j)) (arr_of (js_get ''joins'' ast))"

definition connector_legs :: "((string \<times> string) \<times> resolved_leg) list \<Rightarrow> resolved_leg list" where
  "connector_legs m = filter (\<lambda>l. \<not> rl_reachable l) (map snd m)"

definition coLocatable :: "((string \<times> string) \<times> resolved_leg) list \<Rightarrow> bool" where
  "coLocatable m \<longleftrightarrow> m \<noteq> [] \<and> length (connector_legs m) = length m
     \<and> length (js_dedup (map connFingerprint (connector_legs m))) = 1
     \<and> length (js_dedup (map (\<lambda>l. normEngine (rl_engine l)) (connector_legs m))) = 1
     \<and> (normEngine (rl_engine (hd (connector_legs m))) \<in> set SQL_RELATIONAL
        \<or> normEngine (rl_engine (hd (connector_legs m))) = ''MONGODB'')"

definition named_sources :: "((string \<times> string) \<times> resolved_leg) list \<Rightarrow> string list" where
  "named_sources m = js_dedup (map rl_source (filter (\<lambda>l. rl_source l \<noteq> LOCAL_SOURCE) (map snd m)))"

definition nested_query_error :: js_err where
  "nested_query_error = Err 0 ''NESTED_QUERY''"

definition choose_plan :: "jsval \<Rightarrow> ((string \<times> string) \<times> resolved_leg) list \<Rightarrow> query_plan res" where
  "choose_plan ast m =
     (let cl = connector_legs m; nested = has_with ast \<or> has_derived ast in
      if nested \<and> cl \<noteq> [] \<and> \<not> coLocatable m then Inl nested_query_error
      else if coLocatable m \<and> (has_joins ast \<or> has_setops ast \<or> nested) then
        Inr \<lparr>qp_strategy = SingleConnector, qp_legs = m, qp_colocated = Some (rl_source (hd cl), dialectOf (rl_engine (hd cl)))\<rparr>
      else
        Inr \<lparr>qp_strategy =
               (if cl = [] \<and> length (named_sources m) \<le> 1 then SingleLocal
                else if length cl = 1 \<and> length m = 1 \<and> \<not> has_setops ast \<and> \<not> has_joins ast then SingleConnector
                else CrossEngine),
             qp_legs = m, qp_colocated = None\<rparr>)"

definition classify :: "catalogue \<Rightarrow> nat \<Rightarrow> string \<Rightarrow> jsval \<Rightarrow> leg_cache \<Rightarrow> query_plan res \<times> leg_cache" where
  "classify cat now tenantId ast cache =
     (case resolve_refs cat now tenantId (filter (\<lambda>r. \<not> is_cte_ref ast r) (collectRefs ast)) [] cache of
        (m, cache') \<Rightarrow> (bindR m (choose_plan ast), cache'))"

section \<open>Legs of the tenant, at most a minute old\<close>

text \<open>The hub, or a source registered for the tenant with the configuration it is registered with.\<close>

definition tenant_leg :: "catalogue \<Rightarrow> string \<Rightarrow> resolved_leg \<Rightarrow> bool" where
  "tenant_leg cat tenantId leg \<longleftrightarrow>
     rl_source leg = LOCAL_SOURCE \<and> rl_config leg = JObj [(''local'', JBool True)]
     \<or> (\<exists>r \<in> set (cat_tables cat). ct_tenant r = tenantId \<and> ct_source r = rl_source leg \<and> config_of (ct_config r) = rl_config leg)
     \<or> (\<exists>d \<in> set (cat_sources cat). ds_tenant d = tenantId \<and> ds_name d = rl_source leg \<and> config_of (ds_config d) = rl_config leg)"

lemma find_mem: "List.find P xs = Some x \<Longrightarrow> P x \<and> x \<in> set xs"
  by (induction xs) (auto split: if_splits)

lemma first_foreign_mem: "first_foreign rows = Some r \<Longrightarrow> r \<in> set rows"
  by (auto simp: first_foreign_def dest: find_mem split: option.splits list.splits)

lemma resolved_tenant_leg:
  assumes "resolveLegUncached cat tenantId src resource = Inr leg"
  shows "tenant_leg cat tenantId leg"
proof -
  let ?eff = "effective_source cat src"
  show ?thesis
  proof (cases "?eff = [] \<or> ?eff = LOCAL_SOURCE")
    case True
    then have leg: "leg = resolve_unlabelled cat tenantId resource"
      using assms by (simp add: resolveLegUncached_def Let_def)
    show ?thesis
      unfolding leg resolve_unlabelled_def
      by (auto simp: tenant_leg_def hub_leg_def dest!: first_foreign_mem split: option.split)
  next
    case False
    then have "resolve_labelled cat tenantId ?eff resource = Inr leg"
      using assms by (simp add: resolveLegUncached_def Let_def)
    then show ?thesis
      by (auto simp: resolve_labelled_def tenant_leg_def hub_leg_def dest!: find_mem split: option.splits if_splits)
  qed
qed

text \<open>
  The catalogue \<open>H t\<close> changes with the time \<open>t\<close> in milliseconds; the cache is written by the plans
  of all tenants and cleared at any moment.
\<close>

inductive leg_run :: "(nat \<Rightarrow> catalogue) \<Rightarrow> nat \<Rightarrow> leg_cache \<Rightarrow> bool" for H where
  run_start: "leg_run H now []"
| run_tick: "leg_run H now cache \<Longrightarrow> leg_run H (now + n) cache"
| run_plan: "leg_run H now cache \<Longrightarrow> leg_run H now (snd (classify (H now) now tenantId ast cache))"
| run_clear: "leg_run H now cache \<Longrightarrow> leg_run H now (clearLegCache cache)"

definition fresh_at :: "(nat \<Rightarrow> catalogue) \<Rightarrow> nat \<Rightarrow> string \<Rightarrow> string \<times> string \<Rightarrow> resolved_leg \<Rightarrow> bool" where
  "fresh_at H t tenantId ref leg \<longleftrightarrow> resolveLegUncached (H t) tenantId (fst ref) (snd ref) = Inr leg"

definition cache_fresh :: "(nat \<Rightarrow> catalogue) \<Rightarrow> nat \<Rightarrow> leg_cache \<Rightarrow> bool" where
  "cache_fresh H now cache \<longleftrightarrow> (\<forall>tenantId src res ovr leg expiry. ((tenantId, src, res, ovr), (leg, expiry)) \<in> set cache \<longrightarrow>
     (\<exists>t \<le> now. expiry = t + leg_ttl \<and> fresh_at H t tenantId (src, res) leg))"

lemma resolveLeg_fresh:
  assumes "cache_fresh H now cache" "resolveLeg (H now) now tenantId ref cache = (r, cache')"
  shows "cache_fresh H now cache'"
    and "r = Inr leg \<Longrightarrow> \<exists>t \<le> now. now < t + leg_ttl \<and> fresh_at H t tenantId ref leg"
proof -
  let ?key = "(tenantId, fst ref, snd ref, cat_override (H now))"
  consider (hit) l e where "map_of cache ?key = Some (l, e)" "e > now" "r = Inr l" "cache' = cache"
    | (miss) l where "resolveLegUncached (H now) tenantId (fst ref) (snd ref) = Inr l" "r = Inr l" "cache' = (?key, (l, now + leg_ttl)) # cache"
    | (failed) "\<nexists>l. r = Inr l" "cache' = cache"
  proof -
    define u where "u = resolveLegUncached (H now) tenantId (fst ref) (snd ref)"
    note u = assms(2) [unfolded resolveLeg_def Let_def u_def [symmetric]]
    show thesis
      using u hit miss failed unfolding u_def [symmetric] by (cases u) (auto split: option.splits if_splits)
  qed
  then have "cache_fresh H now cache' \<and> (r = Inr leg \<longrightarrow> (\<exists>t \<le> now. now < t + leg_ttl \<and> fresh_at H t tenantId ref leg))"
  proof cases
    case hit
    then have "(?key, (l, e)) \<in> set cache" by (simp add: map_of_SomeD)
    then have "\<exists>t \<le> now. e = t + leg_ttl \<and> fresh_at H t tenantId (fst ref, snd ref) l"
      using assms(1) unfolding cache_fresh_def by blast
    with hit assms(1) show ?thesis by auto
  next
    case miss
    then have "cache_fresh H now cache'"
      using assms(1) by (auto simp: cache_fresh_def fresh_at_def)
    moreover have "now < now + leg_ttl" by (simp add: leg_ttl_def)
    ultimately show ?thesis using miss by (auto simp: fresh_at_def)
  next
    case failed
    with assms(1) show ?thesis by simp
  qed
  then show "cache_fresh H now cache'" "r = Inr leg \<Longrightarrow> \<exists>t \<le> now. now < t + leg_ttl \<and> fresh_at H t tenantId ref leg"
    by simp_all
qed

text \<open>The legs resolved for a list of references, after those there already.\<close>

lemma resolve_refs_fresh:
  assumes "cache_fresh H now cache" "resolve_refs (H now) now tenantId refs m cache = (r, cache')"
    and "\<And>ref leg. (ref, leg) \<in> set m \<Longrightarrow> \<exists>t \<le> now. now < t + leg_ttl \<and> fresh_at H t tenantId ref leg"
  shows "cache_fresh H now cache'"
    and "r = Inr m' \<Longrightarrow> (ref, leg) \<in> set m' \<Longrightarrow> \<exists>t \<le> now. now < t + leg_ttl \<and> fresh_at H t tenantId ref leg"
proof -
  have "cache_fresh H now cache' \<and> (r = Inr m' \<longrightarrow> (\<forall>ref leg. (ref, leg) \<in> set m' \<longrightarrow>
      (\<exists>t \<le> now. now < t + leg_ttl \<and> fresh_at H t tenantId ref leg)))"
    using assms
  proof (induction refs arbitrary: m cache)
    case Nil
    then have "r = Inr m" "cache' = cache" by auto
    with Nil show ?case by blast
  next
    case (Cons rf refs)
    show ?case
    proof (cases "map_of m rf = None")
      case True
      obtain x c where x: "resolveLeg (H now) now tenantId rf cache = (x, c)" by force
      note fr = resolveLeg_fresh [OF Cons.prems(1) x]
      show ?thesis
      proof (cases x)
        case (Inl e)
        with True x fr(1) Cons.prems(2) show ?thesis by auto
      next
        case (Inr l)
        then have step: "resolve_refs (H now) now tenantId refs (m @ [(rf, l)]) c = (r, cache')"
          using True x Cons.prems(2) by simp
        have "\<exists>t \<le> now. now < t + leg_ttl \<and> fresh_at H t tenantId ref leg" if "(ref, leg) \<in> set (m @ [(rf, l)])" for ref leg
        proof -
          from that have "(ref, leg) \<in> set m \<or> ref = rf \<and> leg = l" by auto
          then show ?thesis using fr(2) [OF Inr] Cons.prems(3) by blast
        qed
        from Cons.IH [OF fr(1) step this] show ?thesis .
      qed
    next
      case False
      then have "resolve_refs (H now) now tenantId refs m cache = (r, cache')"
        using Cons.prems(2) by auto
      from Cons.IH [OF Cons.prems(1) this Cons.prems(3)] show ?thesis .
    qed
  qed
  then show "cache_fresh H now cache'"
    "r = Inr m' \<Longrightarrow> (ref, leg) \<in> set m' \<Longrightarrow> \<exists>t \<le> now. now < t + leg_ttl \<and> fresh_at H t tenantId ref leg"
    by blast+
qed

lemma choose_plan_legs: "choose_plan ast m = Inr plan \<Longrightarrow> qp_legs plan = m"
  by (auto simp: choose_plan_def Let_def split: if_splits)

lemma leg_run_fresh: "leg_run H now cache \<Longrightarrow> cache_fresh H now cache"
proof (induction rule: leg_run.induct)
  case (run_start now)
  then show ?case by (simp add: cache_fresh_def)
next
  case (run_tick now cache n)
  then show ?case unfolding cache_fresh_def by (meson trans_le_add1)
next
  case (run_plan now cache tenantId ast)
  obtain m c where m: "resolve_refs (H now) now tenantId (filter (\<lambda>r. \<not> is_cte_ref ast r) (collectRefs ast)) [] cache = (m, c)"
    by force
  from resolve_refs_fresh(1) [OF run_plan.IH m] m show ?case by (simp add: classify_def)
next
  case (run_clear now cache)
  then show ?case by (simp add: clearLegCache_def cache_fresh_def)
qed

text \<open>
  C32: whatever was planned and cached before, for whichever tenants, every leg of a plan is what
  the catalogue gave for this tenant at some moment of the last minute: the hub, or a source
  registered for the tenant, with the configuration it was registered with.
\<close>

theorem planned_legs_fresh_and_own:
  assumes "leg_run H now cache" "fst (classify (H now) now tenantId ast cache) = Inr plan" "(ref, leg) \<in> set (qp_legs plan)"
  shows "\<exists>t \<le> now. now < t + 60000 \<and> resolveLegUncached (H t) tenantId (fst ref) (snd ref) = Inr leg \<and> tenant_leg (H t) tenantId leg"
proof -
  obtain m c where m: "resolve_refs (H now) now tenantId (filter (\<lambda>r. \<not> is_cte_ref ast r) (collectRefs ast)) [] cache = (m, c)"
    by force
  then obtain ms where ms: "m = Inr ms" "choose_plan ast ms = Inr plan"
    using assms(2) by (auto simp: classify_def)
  then have "(ref, leg) \<in> set ms" using assms(3) choose_plan_legs by blast
  with resolve_refs_fresh(2) [OF leg_run_fresh [OF assms(1)] m _ ms(1)] have "\<exists>t \<le> now. now < t + leg_ttl \<and> fresh_at H t tenantId ref leg"
    by simp
  then show ?thesis using resolved_tenant_leg by (auto simp: fresh_at_def leg_ttl_def)
qed

section \<open>The plan covers the query\<close>












section \<open>Examples\<close>

definition orders_row :: "string \<Rightarrow> string \<Rightarrow> jsval \<Rightarrow> cat_row" where
  "orders_row tenantId engine cfg = \<lparr>ct_tenant = tenantId, ct_source = ''shop'', ct_engine = engine, ct_sync = Some ''VIRTUAL'',
     ct_config = cfg, ct_schema = ''public'', ct_name = ''orders'', ct_table = ''orders'', ct_kind = None, ct_rows = Some 0\<rparr>"

definition shop_config :: "string \<Rightarrow> jsval" where
  "shop_config db = JObj [(''host'', JStr ''db1''), (''port'', JNum 5432), (''database'', JStr db)]"

definition shop_catalogue :: catalogue where
  "shop_catalogue = \<lparr>cat_tables = [orders_row ''beta'' ''MYSQL'' JNull, orders_row ''acme'' ''MYSQL'' (shop_config ''sales'')],
     cat_sources = [], cat_override = []\<rparr>"

definition orders_query :: jsval where
  "orders_query = JObj [(''from'', JObj [(''source'', JStr ''shop''), (''resource'', JStr ''orders'')])]"

definition orders_plan :: query_plan where
  "orders_plan = \<lparr>qp_strategy = SingleConnector, qp_legs = [((''shop'', ''orders''), \<lparr>rl_source = ''shop'', rl_resource = ''orders'',
     rl_engine = ''MYSQL'', rl_sync = ''VIRTUAL'', rl_reachable = False, rl_schema = Some ''public'', rl_table = Some ''orders'',
     rl_config = shop_config ''sales'', rl_rowCount = Some 0\<rparr>)], qp_colocated = None\<rparr>"

lemma orders_classified:
  "fst (classify shop_catalogue now ''acme'' orders_query []) = Inr orders_plan"
  by code_simp

theorem planned_legs_fresh_and_own_witness:
  "\<exists>t \<le> (5::nat). 5 < t + 60000 \<and> resolveLegUncached shop_catalogue ''acme'' ''shop'' ''orders'' = Inr (snd (hd (qp_legs orders_plan)))
     \<and> tenant_leg shop_catalogue ''acme'' (snd (hd (qp_legs orders_plan)))"
  using planned_legs_fresh_and_own [OF run_start orders_classified, of "(''shop'', ''orders'')" "snd (hd (qp_legs orders_plan))" 5]
  by (simp add: orders_plan_def)


text \<open>
  Names that differ in case are one database for the planner, so a query over both runs with the
  configuration of the first.
\<close>

lemma fingerprint_folds_case:
  "connFingerprint (snd (hd (qp_legs orders_plan))) = connFingerprint ((snd (hd (qp_legs orders_plan)))\<lparr>rl_config := shop_config ''Sales''\<rparr>)"
  by code_simp

text \<open>A reference labelled with the hub resolves to a source of another engine that has a table of the name.\<close>

lemma hub_label_yields_to_foreign_table:
  "mapR rl_source (resolveLegUncached shop_catalogue ''acme'' LOCAL_SOURCE ''orders'') = Inr ''shop''"
  by code_simp

end
