(* ===== verification/Windows.thy ===== *)
theory Windows
  imports Aggregate JsonText
begin

text \<open>
  \<open>modules/query-engine/compensate.ts\<close>: the window functions the fabric computes over the rows
  of a source that has none. A partition is a list of positions in the row list, sorted by the
  order of the window; each function writes its value into the rows at those positions, one
  window specification after the other.
\<close>

section \<open>The specifications\<close>

text \<open>An order column with its direction: \<open>True\<close> for descending.\<close>

record window_spec =
  ws_fn :: string
  ws_column :: "string option"
  ws_partition :: "string list"
  ws_order :: "(string \<times> bool) list"
  ws_alias :: string
  ws_offset :: "rat option"

definition has_window :: "jsval \<Rightarrow> bool" where
  "has_window c \<longleftrightarrow> (is_obj c \<or> is_arr c) \<and> truthy (js_get ''window'' c)"

definition window_of :: "jsval \<Rightarrow> window_spec" where
  "window_of c =
     \<lparr>ws_fn = js_upper (js_string (js_get ''window'' c)),
      ws_column = (if truthy (js_get ''column'' c) then Some (base_name (js_string (js_get ''column'' c))) else None),
      ws_partition = map (\<lambda>p. base_name (js_string p)) (arr_of (js_get ''partitionBy'' c)),
      ws_order = map (\<lambda>o'. (base_name (js_string (js_get ''column'' o')), js_get ''direction'' o' = JStr ''DESC''))
        (arr_of (js_get ''orderBy'' c)),
      ws_alias = (if truthy (js_get ''alias'' c) then js_string (js_get ''alias'' c) else js_lower (js_string (js_get ''window'' c))),
      ws_offset = (case js_get ''offset'' c of JNum q \<Rightarrow> Some q | _ \<Rightarrow> None)\<rparr>"

definition extractWindows :: "jsval \<Rightarrow> window_spec list" where
  "extractWindows sel = map window_of (filter has_window (arr_of sel))"

definition hasWindows :: "jsval \<Rightarrow> bool" where
  "hasWindows sel \<longleftrightarrow> extractWindows sel \<noteq> []"

lemma dropWhile_shorter: "t = dropWhile q s \<Longrightarrow> t \<noteq> [] \<Longrightarrow> p (hd t) \<Longrightarrow> length (dropWhile p t) < length s"
proof -
  assume t: "t = dropWhile q s" "t \<noteq> []" "p (hd t)"
  then have "dropWhile p t = dropWhile p (tl t)" using dropWhile.simps(2) [of p "hd t" "tl t"] by simp
  then have "length (dropWhile p t) \<le> length (tl t)" using length_dropWhile_le [of p "tl t"] by simp
  also have "\<dots> < length t" using t(2) by simp
  also have "\<dots> \<le> length s" unfolding t(1) by (rule length_dropWhile_le)
  finally show ?thesis .
qed

text \<open>The names in an expression: \<open>/[a-zA-Z_][a-zA-Z0-9_.]*/g\<close>.\<close>

function expr_words :: "string \<Rightarrow> string list" where
  "expr_words s =
     (let t = dropWhile (\<lambda>c. \<not> is_ident_start c) s; p = (\<lambda>c. is_word_chr c \<or> c = CHR ''.'') in
      if t = [] then [] else takeWhile p t # expr_words (dropWhile p t))"
  by pat_completeness auto

termination
proof (relation "measure length", goal_cases)
  case (2 s t p)
  then have "is_ident_start (hd t)" using hd_dropWhile [of "\<lambda>c. \<not> is_ident_start c" s] by simp
  then have "p (hd t)" using 2 ident_start_word by simp
  with 2 show ?case by (auto intro: dropWhile_shorter)
qed simp

declare expr_words.simps [simp del]

definition base_entry :: "jsval \<Rightarrow> string list" where
  "base_entry c =
     (case c of JStr s \<Rightarrow> [s]
      | _ \<Rightarrow>
        if has_window c then
          (if truthy (js_get ''column'' c) then [js_string (js_get ''column'' c)] else [])
          @ map js_string (arr_of (js_get ''partitionBy'' c))
          @ map (\<lambda>o'. js_string (js_get ''column'' o')) (arr_of (js_get ''orderBy'' c))
        else if truthy (js_get ''expression'' c) then expr_words (js_string (js_get ''expression'' c))
        else if truthy (js_get ''column'' c) then [js_string (js_get ''column'' c)] else [])"

definition windowBaseColumns :: "jsval list \<Rightarrow> string list" where
  "windowBaseColumns sel =
     (if JStr ''*'' \<in> set sel then [] else js_dedup (concat (map base_entry sel)))"

section \<open>Partitions and their order\<close>

definition as_num :: "jsval \<Rightarrow> jsval" where
  "as_num v = (case v of JStr s \<Rightarrow> if decimal_text (js_trim s) then num_or_nan (number_of_string s) else v | _ \<Rightarrow> v)"

definition partitionKey :: "string list \<Rightarrow> jsval \<Rightarrow> string" where
  "partitionKey cols row = json_text (JArr (map (raw_cell row) cols))"

fun before :: "(string \<times> bool) list \<Rightarrow> jsval \<Rightarrow> jsval \<Rightarrow> bool" where
  "before [] a b = False"
| "before ((c, desc) # os) a b =
     (let av = as_num (readCol a c); bv = as_num (readCol b c) in
      if js_less av bv then \<not> desc else if js_less bv av then desc else before os a b)"

definition order_key :: "(string \<times> bool) list \<Rightarrow> jsval \<Rightarrow> string" where
  "order_key os row = json_text (JArr (map (\<lambda>(c, _). as_num (raw_cell row c)) os))"

definition partitions :: "window_spec \<Rightarrow> jsval list \<Rightarrow> nat list list" where
  "partitions spec rows =
     map snd (group_rows (\<lambda>i. partitionKey (ws_partition spec) (rows ! i)) (\<lambda>_. []) (\<lambda>b i. b @ [i]) [0..<length rows])"

definition sort_part :: "window_spec \<Rightarrow> jsval list \<Rightarrow> nat list \<Rightarrow> nat list" where
  "sort_part spec rows part =
     (if ws_order spec = [] then part else js_sort (\<lambda>i j. before (ws_order spec) (rows ! i) (rows ! j)) part)"

section \<open>The functions\<close>

text \<open>The ranks and dense ranks along a sorted partition, from the order keys.\<close>

definition rank_step :: "string option \<times> nat \<times> nat \<times> (nat \<times> nat) list \<Rightarrow> string \<Rightarrow> string option \<times> nat \<times> nat \<times> (nat \<times> nat) list" where
  "rank_step st k = (case st of (prev, rank, dense, out) \<Rightarrow>
     if Some k \<noteq> prev then (Some k, length out + 1, dense + 1, out @ [(length out + 1, dense + 1)])
     else (prev, rank, dense, out @ [(rank, dense)]))"

definition ranks_of :: "string list \<Rightarrow> (nat \<times> nat) list" where
  "ranks_of keys = snd (snd (snd (foldl rank_step (None, 0, 0, []) keys)))"

definition last_peer :: "(nat \<times> nat) list \<Rightarrow> nat \<Rightarrow> nat" where
  "last_peer rs i = i + length (takeWhile (\<lambda>r. fst r = fst (rs ! i)) (drop (Suc i) rs))"

definition ranking_value :: "string \<Rightarrow> (nat \<times> nat) list \<Rightarrow> nat \<Rightarrow> rat" where
  "ranking_value fn rs i =
     (let n = length rs in
      if fn = ''ROW_NUMBER'' then of_nat (i + 1)
      else if fn = ''DENSE_RANK'' then of_nat (snd (rs ! i))
      else if fn = ''RANK'' then of_nat (fst (rs ! i))
      else if fn = ''PERCENT_RANK'' then (if n \<le> 1 then 0 else (of_nat (fst (rs ! i)) - 1) / (of_nat n - 1))
      else of_nat (last_peer rs i + 1) / of_nat n)"

definition put :: "string \<Rightarrow> jsval \<Rightarrow> jsval \<Rightarrow> jsval" where
  "put k v row = JObj (kv_set k v (obj_of row))"

definition write_at :: "string \<Rightarrow> jsval list \<Rightarrow> nat \<times> jsval \<Rightarrow> jsval list" where
  "write_at alias rows iv = rows[fst iv := put alias (snd iv) (rows ! fst iv)]"

definition RANKING :: "string list" where
  "RANKING = [''RANK'', ''DENSE_RANK'', ''ROW_NUMBER'', ''PERCENT_RANK'', ''CUME_DIST'']"

definition RUNNING :: "string list" where
  "RUNNING = [''SUM'', ''AVG'', ''COUNT'', ''MIN'', ''MAX'']"

definition rank_values :: "window_spec \<Rightarrow> jsval list \<Rightarrow> jsval list" where
  "rank_values spec rows =
     (let rs = ranks_of (map (order_key (ws_order spec)) rows)
      in map (\<lambda>i. JNum (ranking_value (ws_fn spec) rs i)) [0..<length rs])"

definition rank_part :: "window_spec \<Rightarrow> jsval list \<Rightarrow> nat list \<Rightarrow> jsval list" where
  "rank_part spec rows part =
     (let s = sort_part spec rows part
      in foldl (write_at (ws_alias spec)) rows (zip s (rank_values spec (map (\<lambda>i. rows ! i) s))))"

text \<open>LAG and LEAD read the rows as already written by the steps before.\<close>

definition nav_value :: "window_spec \<Rightarrow> jsval list \<Rightarrow> nat list \<Rightarrow> nat \<Rightarrow> jsval" where
  "nav_value spec rows part i =
     (let off = (case ws_offset spec of Some q \<Rightarrow> q | None \<Rightarrow> 1);
          j = (if ws_fn spec = ''LAG'' then of_nat i - off else of_nat i + off)
      in if j \<ge> 0 \<and> j < of_nat (length part) \<and> is_int_rat j
         then coalesce (readCol (rows ! (part ! nat \<lfloor>j\<rfloor>)) (case ws_column spec of Some c \<Rightarrow> c | None \<Rightarrow> [])) JNull
         else JNull)"

definition nav_part :: "window_spec \<Rightarrow> jsval list \<Rightarrow> nat list \<Rightarrow> jsval list" where
  "nav_part spec rows part =
     (let s = sort_part spec rows part
      in foldl (\<lambda>rs i. write_at (ws_alias spec) rs (s ! i, nav_value spec rs s i)) rows [0..<length s])"

text \<open>The running frame: from the first row of the partition to the current one.\<close>

record run_state =
  run_sum :: rat
  run_cnt :: nat
  run_min :: "rat option"
  run_max :: "rat option"

definition run_start :: run_state where
  "run_start = \<lparr>run_sum = 0, run_cnt = 0, run_min = None, run_max = None\<rparr>"

definition run_add :: "window_spec \<Rightarrow> jsval \<Rightarrow> run_state \<Rightarrow> run_state" where
  "run_add spec row st =
     (let cell = (case ws_column spec of Some c \<Rightarrow> if c = [] then JNum 1 else readCol row c | None \<Rightarrow> JNum 1); v = numeric cell
      in if nullish cell then st
         else \<lparr>run_sum = run_sum st + v, run_cnt = run_cnt st + 1,
               run_min = Some (case run_min st of None \<Rightarrow> v | Some m \<Rightarrow> min m v),
               run_max = Some (case run_max st of None \<Rightarrow> v | Some m \<Rightarrow> max m v)\<rparr>)"

definition opt_num :: "rat option \<Rightarrow> jsval" where
  "opt_num q = (case q of Some x \<Rightarrow> JNum x | None \<Rightarrow> JNull)"

definition run_value :: "string \<Rightarrow> run_state \<Rightarrow> jsval" where
  "run_value fn st =
     (if fn = ''SUM'' then JNum (run_sum st)
      else if fn = ''COUNT'' then JNum (of_nat (run_cnt st))
      else if fn = ''AVG'' then (if run_cnt st = 0 then JNull else JNum (run_sum st / of_nat (run_cnt st)))
      else if fn = ''MIN'' then opt_num (run_min st) else opt_num (run_max st))"

fun run_values :: "window_spec \<Rightarrow> run_state \<Rightarrow> jsval list \<Rightarrow> jsval list" where
  "run_values spec st [] = []"
| "run_values spec st (row # rows) =
     (let st' = run_add spec row st in run_value (ws_fn spec) st' # run_values spec st' rows)"

definition run_part :: "window_spec \<Rightarrow> jsval list \<Rightarrow> nat list \<Rightarrow> jsval list" where
  "run_part spec rows part =
     (let s = sort_part spec rows part
      in foldl (write_at (ws_alias spec)) rows (zip s (run_values spec run_start (map (\<lambda>i. rows ! i) s))))"

definition window_part :: "window_spec \<Rightarrow> jsval list \<Rightarrow> nat list \<Rightarrow> jsval list" where
  "window_part spec rows part =
     (if ws_fn spec \<in> set RANKING then rank_part spec rows part
      else if ws_fn spec = ''LAG'' \<or> ws_fn spec = ''LEAD'' then nav_part spec rows part
      else if ws_fn spec \<in> set RUNNING then run_part spec rows part else rows)"

definition apply_window :: "jsval list \<Rightarrow> window_spec \<Rightarrow> jsval list" where
  "apply_window rows spec = foldl (window_part spec) rows (partitions spec rows)"

definition applyWindows :: "jsval list \<Rightarrow> window_spec list \<Rightarrow> jsval list" where
  "applyWindows rows specs = foldl apply_window rows specs"

section \<open>The projection\<close>

definition eval_op :: "char \<Rightarrow> rat \<Rightarrow> rat option \<Rightarrow> jsval" where
  "eval_op oper v operand =
     (case operand of
        None \<Rightarrow> JNaN
      | Some q \<Rightarrow>
          if oper = CHR ''*'' then JNum (v * q) else if oper = CHR ''+'' then JNum (v + q)
          else if oper = CHR ''-'' then JNum (v - q) else if q \<noteq> 0 then JNum (v / q) else JUndef)"

definition evalSimpleExpr :: "jsval \<Rightarrow> string \<Rightarrow> jsval" where
  "evalSimpleExpr row expr =
     (let p = (\<lambda>c. is_word_chr c \<or> c = CHR ''.''); col = takeWhile p expr; r1 = dropWhile is_space (dropWhile p expr) in
      case r1 of
        [] \<Rightarrow> JUndef
      | oper # r2 \<Rightarrow>
          let arg = dropWhile is_space r2 in
          if col \<noteq> [] \<and> oper \<in> set ''*+-/'' \<and> arg \<noteq> [] \<and> list_all (\<lambda>c. is_digit c \<or> c = CHR ''.'') arg
          then eval_op oper (case js_number (readCol row col) of Some q \<Rightarrow> q | None \<Rightarrow> 0) (number_of_string arg)
          else JUndef)"

definition out_entry :: "jsval \<Rightarrow> (string \<times> string option) option" where
  "out_entry c =
     (case c of JStr s \<Rightarrow> if base_name s = [] then None else Some (base_name s, None)
      | _ \<Rightarrow>
        let al = js_get ''alias'' c in
        if truthy (js_get ''window'' c) then (if truthy al then Some (js_string al, None) else None)
        else if truthy (js_get ''expression'' c) \<and> truthy al then Some (js_string al, Some (js_string (js_get ''expression'' c)))
        else if truthy (js_get ''column'' c) then
          (let k = (if truthy al then js_string al else base_name (js_string (js_get ''column'' c)))
           in if k = [] then None else Some (k, None))
        else None)"

definition project_entry :: "jsval \<Rightarrow> (string \<times> jsval) list \<Rightarrow> string \<times> string option \<Rightarrow> (string \<times> jsval) list" where
  "project_entry row out e =
     kv_set (fst e) (case snd e of Some x \<Rightarrow> evalSimpleExpr row x | None \<Rightarrow> readCol row (fst e)) out"

definition projectWithWindows :: "jsval list \<Rightarrow> jsval list \<Rightarrow> jsval list" where
  "projectWithWindows rows sel =
     (if JStr ''*'' \<in> set sel then rows
      else map (\<lambda>r. JObj (foldl (project_entry r) [] (List.map_filter out_entry sel))) rows)"

section \<open>Writing at positions\<close>

lemma length_write_all [simp]: "length (foldl (write_at alias) rows ivs) = length rows"
  by (induction ivs arbitrary: rows) (simp_all add: write_at_def)

lemma write_all_nth:
  "distinct (map fst ivs) \<Longrightarrow> x < length rows \<Longrightarrow>
     foldl (write_at alias) rows ivs ! x = (case map_of ivs x of Some v \<Rightarrow> put alias v (rows ! x) | None \<Rightarrow> rows ! x)"
proof (induction ivs arbitrary: rows)
  case (Cons iv ivs)
  obtain i v where iv: "iv = (i, v)" by force
  have "map_of ivs i = None" using Cons.prems(1) iv by (simp add: map_of_eq_None_iff)
  with Cons iv show ?case by (simp add: write_at_def nth_list_update split: option.split)
qed simp

lemma js_sort_cong:
  assumes "\<And>x y. x \<in> set xs \<Longrightarrow> y \<in> set xs \<Longrightarrow> lt x y = lt' x y"
  shows "js_sort lt xs = js_sort lt' xs"
proof -
  have ins: "ins_by lt x ys = ins_by lt' x ys" if "\<And>y. y \<in> set ys \<Longrightarrow> lt y x = lt' y x" for x ys
    using that by (induction ys) auto
  show ?thesis
    using assms
  proof (induction xs)
    case (Cons x xs)
    then have "js_sort lt xs = js_sort lt' xs" by simp
    moreover have "ins_by lt x (js_sort lt' xs) = ins_by lt' x (js_sort lt' xs)"
      by (rule ins) (use Cons.prems in simp)
    ultimately show ?case by (simp add: js_sort_def)
  qed (simp add: js_sort_def)
qed

lemma sorted_js_sort_on:
  assumes tr: "\<And>a b c. a \<in> A \<Longrightarrow> b \<in> A \<Longrightarrow> c \<in> A \<Longrightarrow> \<not> lt b a \<Longrightarrow> \<not> lt c b \<Longrightarrow> \<not> lt c a"
    and as: "\<And>a b. a \<in> A \<Longrightarrow> b \<in> A \<Longrightarrow> lt a b \<Longrightarrow> \<not> lt b a"
    and xs: "set xs \<subseteq> A"
  shows "sorted_wrt (\<lambda>a b. \<not> lt b a) (js_sort lt xs)"
proof -
  have ins: "sorted_wrt (\<lambda>a b. \<not> lt b a) (ins_by lt x ys)"
    if "x \<in> A" "set ys \<subseteq> A" "sorted_wrt (\<lambda>a b. \<not> lt b a) ys" for x ys
    using that
  proof (induction ys)
    case (Cons y ys)
    have A: "y \<in> A" "set ys \<subseteq> A" and y: "\<And>z. z \<in> set ys \<Longrightarrow> \<not> lt z y" and s: "sorted_wrt (\<lambda>a b. \<not> lt b a) ys"
      using Cons.prems by simp_all
    show ?case
    proof (cases "lt y x")
      case True
      have "\<not> lt x y" by (rule as [OF A(1) Cons.prems(1) True])
      with True y Cons.IH [OF Cons.prems(1) A(2) s] show ?thesis by simp
    next
      case False
      have "\<not> lt z x" if "z \<in> set ys" for z
        by (rule tr [OF Cons.prems(1) A(1) _ False y [OF that]]) (use A(2) that in blast)
      with False y s show ?thesis by simp
    qed
  qed simp
  have "set (js_sort lt xs) \<subseteq> A \<and> sorted_wrt (\<lambda>a b. \<not> lt b a) (js_sort lt xs)"
    using xs by (induction xs) (auto simp: js_sort_def intro!: ins)
  then show ?thesis ..
qed

section \<open>The ranks along a sorted partition\<close>

text \<open>Equal keys stand together.\<close>

definition contiguous :: "'a list \<Rightarrow> bool" where
  "contiguous ks \<longleftrightarrow> (\<forall>i j k. i < j \<longrightarrow> j < k \<longrightarrow> k < length ks \<longrightarrow> ks ! i = ks ! k \<longrightarrow> ks ! j = ks ! k)"

lemma contiguous_snoc:
  assumes "contiguous (ks @ [k])"
  shows "contiguous ks" "ks \<noteq> [] \<Longrightarrow> last ks \<noteq> k \<Longrightarrow> k \<notin> set ks"
proof -
  show "contiguous ks"
    unfolding contiguous_def
  proof (intro allI impI)
    fix i j l assume "i < j" "j < l" "l < length ks" "ks ! i = ks ! l"
    with assms [unfolded contiguous_def, rule_format, of i j l] show "ks ! j = ks ! l"
      by (simp add: nth_append)
  qed
  show "k \<notin> set ks" if "ks \<noteq> []" "last ks \<noteq> k"
  proof
    assume "k \<in> set ks"
    then obtain i where i: "i < length ks" "ks ! i = k" by (auto simp: in_set_conv_nth)
    have lst: "ks ! (length ks - 1) \<noteq> k" using that last_conv_nth [OF that(1)] by metis
    have "i \<noteq> length ks - 1" using i(2) lst by blast
    with i(1) have a: "i < length ks - 1" by linarith
    have b: "length ks - 1 < length ks" using that(1) by simp
    have e: "(ks @ [k]) ! i = (ks @ [k]) ! length ks" using i by (simp add: nth_append)
    have "(ks @ [k]) ! (length ks - 1) = (ks @ [k]) ! length ks"
      by (rule assms [unfolded contiguous_def, rule_format, OF a b _ e]) simp
    then show False using lst b by (simp add: nth_append)
  qed
qed

definition rank_at :: "'a list \<Rightarrow> nat \<Rightarrow> nat \<times> nat" where
  "rank_at ks i = (1 + length (filter (\<lambda>k. k \<noteq> ks ! i) (take i ks)), card (set (take (Suc i) ks)))"

lemma rank_at_snoc: "i < length ks \<Longrightarrow> rank_at (ks @ [k]) i = rank_at ks i"
  by (simp add: rank_at_def nth_append)

lemma rank_fold:
  "contiguous ks \<Longrightarrow> foldl rank_step (None, 0, 0, []) ks =
     (if ks = [] then (None, 0, 0, [])
      else (Some (last ks), fst (rank_at ks (length ks - 1)), card (set ks), map (rank_at ks) [0..<length ks]))"
proof (induction ks rule: rev_induct)
  case (snoc k ks)
  note con = contiguous_snoc [OF snoc.prems]
  have old: "map (rank_at (ks @ [k])) [0..<length ks] = map (rank_at ks) [0..<length ks]"
    by (intro map_cong) (simp_all add: rank_at_snoc)
  show ?case
  proof (cases "ks = []")
    case True
    then show ?thesis by (simp add: rank_step_def rank_at_def)
  next
    case False
    show ?thesis
    proof (cases "last ks = k")
      case True
      have lst: "ks ! (length ks - 1) = k" using False True by (simp add: last_conv_nth)
      have "ks = take (length ks - 1) ks @ [k]" using False True append_butlast_last_id [of ks] by (simp add: butlast_conv_take)
      then have "filter (\<lambda>x. x \<noteq> k) ks = filter (\<lambda>x. x \<noteq> k) (take (length ks - 1) ks)"
        by (metis (mono_tags, lifting) append_Nil2 filter.simps filter_append)
      moreover have "k \<in> set ks" using False True last_in_set by blast
      then have "insert k (set ks) = set ks" by blast
      ultimately show ?thesis
        using snoc.IH [OF con(1)] False True lst old by (simp add: rank_step_def rank_at_def nth_append)
    next
      case 2: False
      have "k \<notin> set ks" by (rule con(2) [OF False 2])
      then have "filter (\<lambda>x. x \<noteq> k) ks = ks" "card (insert k (set ks)) = Suc (card (set ks))"
        by (auto simp: filter_id_conv)
      then show ?thesis
        using snoc.IH [OF con(1)] False 2 old by (simp add: rank_step_def rank_at_def nth_append)
    qed
  qed
qed simp

lemma ranks_of_at: "contiguous ks \<Longrightarrow> ranks_of ks = map (rank_at ks) [0..<length ks]"
  by (simp add: ranks_of_def rank_fold)

section \<open>Partitions of one window\<close>

definition peer_rows :: "window_spec \<Rightarrow> jsval list \<Rightarrow> nat \<Rightarrow> nat list" where
  "peer_rows spec rows x =
     filter (\<lambda>i. partitionKey (ws_partition spec) (rows ! i) = partitionKey (ws_partition spec) (rows ! x)) [0..<length rows]"

lemma partitions_closed:
  "partitions spec rows =
     map (\<lambda>k. filter (\<lambda>i. partitionKey (ws_partition spec) (rows ! i) = k) [0..<length rows])
       (js_dedup (map (\<lambda>i. partitionKey (ws_partition spec) (rows ! i)) [0..<length rows]))"
proof -
  have "foldl (\<lambda>b i. b @ [i]) acc xs = acc @ xs" for acc xs :: "nat list"
    by (induction xs arbitrary: acc) simp_all
  then show ?thesis by (simp add: partitions_def group_rows_closed rows_of_def)
qed

lemma partitions_parts:
  "p \<in> set (partitions spec rows) \<Longrightarrow> distinct p \<and> set p \<subseteq> {..<length rows}"
  by (auto simp: partitions_closed)

lemma peer_rows_in: "x < length rows \<Longrightarrow> peer_rows spec rows x \<in> set (partitions spec rows)"
  by (auto simp: partitions_closed peer_rows_def)

lemma partitions_split:
  assumes "x < length rows"
  obtains A B where "partitions spec rows = A @ peer_rows spec rows x # B"
    and "\<And>p. p \<in> set A \<union> set B \<Longrightarrow> set p \<inter> set (peer_rows spec rows x) = {}"
proof -
  let ?key = "\<lambda>i. partitionKey (ws_partition spec) (rows ! i)"
  let ?part = "\<lambda>k. filter (\<lambda>i. ?key i = k) [0..<length rows]"
  let ?ks = "js_dedup (map ?key [0..<length rows])"
  have "?key x \<in> set ?ks" using assms by simp
  then obtain u v where ks: "?ks = u @ ?key x # v" by (meson split_list)
  have "distinct ?ks" by simp
  then have nin: "?key x \<notin> set u \<union> set v" unfolding ks by auto
  have "partitions spec rows = map ?part u @ peer_rows spec rows x # map ?part v"
    by (simp add: partitions_closed ks peer_rows_def)
  moreover have "set p \<inter> set (peer_rows spec rows x) = {}" if "p \<in> set (map ?part u) \<union> set (map ?part v)" for p
    using that nin by (auto simp: peer_rows_def)
  ultimately show ?thesis by (rule that)
qed

section \<open>One partition does not touch another\<close>

lemma sort_part_set [simp]: "set (sort_part spec rows p) = set p"
  and sort_part_length [simp]: "length (sort_part spec rows p) = length p"
  and sort_part_mset: "mset (sort_part spec rows p) = mset p"
  by (simp_all add: sort_part_def)

lemma sort_part_js_sort: "sort_part spec rows p = js_sort (\<lambda>i j. before (ws_order spec) (rows ! i) (rows ! j)) p"
proof (cases "ws_order spec = []")
  case True
  have "sorted_wrt (\<lambda>a b. True) p" by (simp add: sorted_wrt_iff_nth_less)
  then have "js_sort (\<lambda>i j. False) p = p" by (intro js_sort_sorted) simp
  with True show ?thesis by (simp add: sort_part_def)
qed (simp add: sort_part_def)

lemma length_ranks_of [simp]: "length (ranks_of ks) = length ks"
proof -
  have "length (snd (snd (snd (foldl rank_step st ks)))) = length (snd (snd (snd st))) + length ks" for st
  proof (induction ks arbitrary: st)
    case (Cons k ks)
    then show ?case by (cases st) (simp add: rank_step_def)
  qed simp
  then show ?thesis by (simp add: ranks_of_def)
qed

lemma length_rank_values [simp]: "length (rank_values spec rows) = length rows"
  by (simp add: rank_values_def Let_def)

lemma length_rank_part [simp]: "length (rank_part spec rows p) = length rows"
  by (simp add: rank_part_def Let_def)

lemma distinct_sort_part: "distinct p \<Longrightarrow> distinct (sort_part spec rows p)"
  by (metis sort_part_mset mset_eq_imp_distinct_iff)

lemma rank_part_nth:
  assumes "distinct p" "x < length rows"
  shows "rank_part spec rows p ! x =
    (case map_of (zip (sort_part spec rows p) (rank_values spec (map (\<lambda>i. rows ! i) (sort_part spec rows p)))) x of
       Some v \<Rightarrow> put (ws_alias spec) v (rows ! x) | None \<Rightarrow> rows ! x)"
proof -
  have "distinct (map fst (zip (sort_part spec rows p) (rank_values spec (map (\<lambda>i. rows ! i) (sort_part spec rows p)))))"
    using distinct_sort_part [OF assms(1)] by (simp add: map_fst_zip)
  then show ?thesis using assms(2) by (simp add: rank_part_def Let_def write_all_nth)
qed

lemma rank_part_other:
  assumes "distinct p" "x < length rows" "x \<notin> set p"
  shows "rank_part spec rows p ! x = rows ! x"
proof -
  have "x \<notin> fst ` set (zip (sort_part spec rows p) vs)" for vs :: "jsval list"
    using assms(3) by (auto dest: set_zip_leftD)
  then show ?thesis using assms(1,2) by (simp add: rank_part_nth map_of_eq_None_iff [THEN iffD2])
qed

lemma rank_part_cong:
  assumes "\<And>i. i \<in> set p \<Longrightarrow> rows' ! i = rows ! i" "distinct p" "x \<in> set p" "x < length rows" "length rows' = length rows"
  shows "rank_part spec rows' p ! x = rank_part spec rows p ! x"
proof -
  have "sort_part spec rows' p = sort_part spec rows p"
    unfolding sort_part_js_sort by (rule js_sort_cong) (simp add: assms(1))
  moreover have m: "map (\<lambda>i. rows' ! i) (sort_part spec rows p) = map (\<lambda>i. rows ! i) (sort_part spec rows p)"
    by (intro map_cong) (simp_all add: assms(1))
  moreover have "rows' ! x = rows ! x" by (rule assms(1) [OF assms(3)])
  ultimately show ?thesis using assms(2,4,5) by (simp only: rank_part_nth m)
qed

lemma rank_parts_other:
  "(\<And>p. p \<in> set ps \<Longrightarrow> distinct p \<and> x \<notin> set p) \<Longrightarrow> x < length rows \<Longrightarrow> foldl (rank_part spec) rows ps ! x = rows ! x"
  by (induction ps arbitrary: rows) (simp_all add: rank_part_other)

lemma length_rank_parts [simp]: "length (foldl (rank_part spec) rows ps) = length rows"
  by (induction ps arbitrary: rows) simp_all

lemma apply_rank_nth:
  assumes "ws_fn spec \<in> set RANKING" "x < length rows"
  shows "apply_window rows spec ! x = rank_part spec rows (peer_rows spec rows x) ! x"
proof -
  let ?p = "peer_rows spec rows x"
  obtain A B where AB: "partitions spec rows = A @ ?p # B" "\<And>p. p \<in> set A \<union> set B \<Longrightarrow> set p \<inter> set ?p = {}"
    using partitions_split [OF assms(2)] by metis
  have dist: "distinct p" if "p \<in> set A \<union> set B" for p using partitions_parts [of p spec rows] that AB(1) by auto
  have x: "x \<in> set ?p" using assms(2) by (simp add: peer_rows_def)
  have bound: "set ?p \<subseteq> {..<length rows}" and dp: "distinct ?p" by (auto simp: peer_rows_def)
  define rows' where "rows' = foldl (rank_part spec) rows A"
  have fn: "window_part spec = rank_part spec" using assms(1) by (intro ext) (simp add: window_part_def)
  have "rows' ! i = rows ! i" if "i \<in> set ?p" for i
    unfolding rows'_def by (rule rank_parts_other) (use that AB(2) dist bound in blast)+
  then have same: "rank_part spec rows' ?p ! x = rank_part spec rows ?p ! x"
    by (rule rank_part_cong [OF _ dp x assms(2)]) (simp_all add: rows'_def)
  have "foldl (rank_part spec) (rank_part spec rows' ?p) B ! x = rank_part spec rows' ?p ! x"
    by (rule rank_parts_other) (use x AB(2) dist assms(2) in \<open>auto simp: rows'_def\<close>)
  then show ?thesis using same by (simp add: apply_window_def AB(1) fn rows'_def)
qed

section \<open>The rank of a row\<close>

text \<open>The order keys of the rows tell the rows apart exactly where the comparison does, and the
comparison is a strict weak order on them: numbers with numbers, texts with texts.\<close>

definition orderly :: "(string \<times> bool) list \<Rightarrow> jsval list \<Rightarrow> bool" where
  "orderly os rows \<longleftrightarrow>
     list_all (\<lambda>a. list_all (\<lambda>b.
       (order_key os a = order_key os b) = (\<not> before os a b \<and> \<not> before os b a) \<and>
       \<not> (before os a b \<and> before os b a) \<and>
       list_all (\<lambda>c. before os b a \<or> before os c b \<or> \<not> before os c a) rows) rows) rows"

definition ahead :: "window_spec \<Rightarrow> jsval list \<Rightarrow> jsval \<Rightarrow> jsval list" where
  "ahead spec rows row =
     filter (\<lambda>r. partitionKey (ws_partition spec) r = partitionKey (ws_partition spec) row \<and> before (ws_order spec) r row) rows"

definition sql_rank :: "window_spec \<Rightarrow> jsval list \<Rightarrow> jsval \<Rightarrow> nat" where
  "sql_rank spec rows row =
     (if ws_fn spec = ''RANK'' then 1 + length (ahead spec rows row)
      else 1 + card (order_key (ws_order spec) ` set (ahead spec rows row)))"

lemma orderlyD:
  assumes "orderly os rows" "a \<in> set rows" "b \<in> set rows"
  shows "order_key os a = order_key os b \<longleftrightarrow> \<not> before os a b \<and> \<not> before os b a"
    and "before os a b \<Longrightarrow> \<not> before os b a"
    and "c \<in> set rows \<Longrightarrow> \<not> before os b a \<Longrightarrow> \<not> before os c b \<Longrightarrow> \<not> before os c a"
  using assms by (auto simp: orderly_def list_all_iff)

lemma rank_at_sorted:
  assumes ord: "orderly os rows" and S: "set S \<subseteq> set rows" and srt: "sorted_wrt (\<lambda>a b. \<not> before os b a) S"
    and k: "k < length S"
  shows "rank_at (map (order_key os) S) k =
    (1 + length (filter (\<lambda>r. before os r (S ! k)) S), 1 + card (order_key os ` set (filter (\<lambda>r. before os r (S ! k)) S)))"
proof -
  let ?x = "S ! k"
  note od = orderlyD [OF ord]
  have mem: "r \<in> set rows" if "r \<in> set S" for r using that S by blast
  have x: "?x \<in> set rows" by (rule mem) (use k in simp)
  have up: "\<not> before os ?x r" if r: "r \<in> set (take k S)" for r
  proof -
    obtain j where "j < k" "S ! j = r" using r k by (auto simp: in_set_conv_nth)
    then show ?thesis using sorted_wrt_nth_less [OF srt, of j k] k by simp
  qed
  have down: "\<not> before os r ?x" if r: "r \<in> set (drop k S)" for r
  proof -
    obtain j where "j < length S - k" "S ! (k + j) = r" using r k by (auto simp: in_set_conv_nth)
    then show ?thesis
      using sorted_wrt_nth_less [OF srt, of k "k + j"] od(2) [OF x x] by (cases "j = 0") auto
  qed
  have pre: "order_key os r \<noteq> order_key os ?x \<longleftrightarrow> before os r ?x" if "r \<in> set (take k S)" for r
    using od(1) [OF mem x, of r] up [OF that] that by (auto dest: in_set_takeD)
  have flt: "filter (\<lambda>r. before os r ?x) S = filter (\<lambda>r. order_key os r \<noteq> order_key os ?x) (take k S)"
  proof -
    have "filter (\<lambda>r. before os r ?x) S = filter (\<lambda>r. before os r ?x) (take k S) @ filter (\<lambda>r. before os r ?x) (drop k S)"
      by (simp flip: filter_append)
    also have "filter (\<lambda>r. before os r ?x) (drop k S) = []" using down by (simp add: filter_empty_conv)
    also have "filter (\<lambda>r. before os r ?x) (take k S) = filter (\<lambda>r. order_key os r \<noteq> order_key os ?x) (take k S)"
      by (rule filter_cong) (simp_all add: pre)
    finally show ?thesis by simp
  qed
  have "set (take (Suc k) (map (order_key os) S)) = insert (order_key os ?x) (order_key os ` set (take k S))"
    using k by (simp add: take_map take_Suc_conv_app_nth)
  also have "\<dots> = insert (order_key os ?x) (order_key os ` set (filter (\<lambda>r. before os r ?x) S))"
    unfolding flt by auto
  finally have "card (set (take (Suc k) (map (order_key os) S))) = 1 + card (order_key os ` set (filter (\<lambda>r. before os r ?x) S))"
    by (simp only:) (subst card_insert_disjoint, auto simp: flt)
  moreover have "length (filter (\<lambda>v. v \<noteq> map (order_key os) S ! k) (take k (map (order_key os) S))) = length (filter (\<lambda>r. before os r ?x) S)"
    using k by (simp add: take_map filter_map o_def flt)
  ultimately show ?thesis by (simp add: rank_at_def)
qed

lemma sorted_keys_contiguous:
  assumes ord: "orderly os rows" and S: "set S \<subseteq> set rows" and srt: "sorted_wrt (\<lambda>a b. \<not> before os b a) S"
  shows "contiguous (map (order_key os) S)"
  unfolding contiguous_def
proof (intro allI impI)
  fix i j k
  assume ij: "i < j" and jk: "j < k" and k: "k < length (map (order_key os) S)"
    and e: "map (order_key os) S ! i = map (order_key os) S ! k"
  have mem: "S ! i \<in> set rows" "S ! j \<in> set rows" "S ! k \<in> set rows" using ij jk k S by auto
  have "\<not> before os (S ! j) (S ! i)" "\<not> before os (S ! k) (S ! j)"
    using sorted_wrt_nth_less [OF srt] ij jk k by auto
  moreover have "\<not> before os (S ! i) (S ! k)"
    using e ij jk k orderlyD(1) [OF ord mem(1,3)] by simp
  ultimately have "\<not> before os (S ! j) (S ! k)" using orderlyD(3) [OF ord mem(3,1,2)] by blast
  then show "map (order_key os) S ! j = map (order_key os) S ! k"
    using \<open>\<not> before os (S ! k) (S ! j)\<close> orderlyD(1) [OF ord mem(2,3)] ij jk k by simp
qed

lemma rank_value_at:
  assumes ord: "orderly (ws_order spec) rows" and fn: "ws_fn spec = ''RANK'' \<or> ws_fn spec = ''DENSE_RANK''"
    and S: "set S \<subseteq> set rows" and srt: "sorted_wrt (\<lambda>a b. \<not> before (ws_order spec) b a) S" and k: "k < length S"
  shows "rank_values spec S ! k =
    JNum (of_nat (if ws_fn spec = ''RANK'' then 1 + length (filter (\<lambda>r. before (ws_order spec) r (S ! k)) S)
       else 1 + card (order_key (ws_order spec) ` set (filter (\<lambda>r. before (ws_order spec) r (S ! k)) S))))"
proof -
  let ?keys = "map (order_key (ws_order spec)) S"
  have "ranks_of ?keys ! k = rank_at ?keys k"
    using ranks_of_at [OF sorted_keys_contiguous [OF ord S srt]] k by simp
  then have "ranks_of ?keys ! k =
      (1 + length (filter (\<lambda>r. before (ws_order spec) r (S ! k)) S), 1 + card (order_key (ws_order spec) ` set (filter (\<lambda>r. before (ws_order spec) r (S ! k)) S)))"
    by (simp only: rank_at_sorted [OF ord S srt k])
  then show ?thesis using k fn by (auto simp: rank_values_def Let_def ranking_value_def)
qed

lemma ahead_peers:
  fixes rows :: "jsval list" and x :: nat and spec :: window_spec
  defines "R \<equiv> map (\<lambda>i. rows ! i) (peer_rows spec rows x)"
  shows "filter (\<lambda>r. before (ws_order spec) r (rows ! x)) R = ahead spec rows (rows ! x)"
proof -
  have "ahead spec rows (rows ! x) = ahead spec (map (\<lambda>i. rows ! i) [0..<length rows]) (rows ! x)"
    by (simp add: map_nth)
  also have "\<dots> = filter (\<lambda>r. before (ws_order spec) r (rows ! x)) R"
    by (simp add: ahead_def R_def peer_rows_def filter_map o_def conj_commute)
  finally show ?thesis by simp
qed

text \<open>
  C40: the RANK or DENSE_RANK column the fabric computes for a row is one more than the number of rows of its partition
  ordered strictly before it, or one more than the number of different order keys before it, as SQL defines it.
  Before is the order of the code's own \<open>comparator\<close>, not the order SQL gives to nulls and mixed types; rows
  it cannot order are left out by the first condition.
\<close>

theorem window_rank_exact:
  assumes ord: "orderly (ws_order spec) rows" and fn: "ws_fn spec = ''RANK'' \<or> ws_fn spec = ''DENSE_RANK''"
    and x: "x < length rows"
  shows "apply_window rows spec ! x = put (ws_alias spec) (JNum (of_nat (sql_rank spec rows (rows ! x)))) (rows ! x)"
proof -
  let ?os = "ws_order spec" and ?p = "peer_rows spec rows x"
  define S where "S = sort_part spec rows ?p"
  define T where "T = map (\<lambda>i. rows ! i) S"
  have S: "distinct S" "x \<in> set S" "set S \<subseteq> {..<length rows}" "mset S = mset ?p"
    using x by (auto simp: S_def distinct_sort_part peer_rows_def sort_part_mset)
  obtain k where k: "k < length S" "S ! k = x" using S(2) by (auto simp: in_set_conv_nth)
  have T: "set T \<subseteq> set rows" "k < length T" "T ! k = rows ! x" using S(3) k by (auto simp: T_def)
  have "sorted_wrt (\<lambda>i j. \<not> before ?os (rows ! j) (rows ! i)) S"
    unfolding S_def sort_part_js_sort
  proof (rule sorted_js_sort_on [where A = "{..<length rows}"])
    fix a b c assume "a \<in> {..<length rows}" "b \<in> {..<length rows}" "c \<in> {..<length rows}"
      "\<not> before ?os (rows ! b) (rows ! a)" "\<not> before ?os (rows ! c) (rows ! b)"
    then show "\<not> before ?os (rows ! c) (rows ! a)"
      using orderlyD(3) [OF ord, of "rows ! a" "rows ! b" "rows ! c"] by simp
  next
    fix a b assume "a \<in> {..<length rows}" "b \<in> {..<length rows}" "before ?os (rows ! a) (rows ! b)"
    then show "\<not> before ?os (rows ! b) (rows ! a)"
      using orderlyD(2) [OF ord, of "rows ! a" "rows ! b"] by simp
  qed (auto simp: peer_rows_def)
  then have srt: "sorted_wrt (\<lambda>a b. \<not> before ?os b a) T" by (simp add: T_def sorted_wrt_map)
  have "mset (filter (\<lambda>r. before ?os r (rows ! x)) T) = mset (ahead spec rows (rows ! x))"
    unfolding ahead_peers [symmetric] mset_filter T_def mset_map S(4) ..
  then have "length (filter (\<lambda>r. before ?os r (rows ! x)) T) = length (ahead spec rows (rows ! x))"
    "set (filter (\<lambda>r. before ?os r (rows ! x)) T) = set (ahead spec rows (rows ! x))"
    by (metis mset_eq_length, metis mset_eq_setD)
  then have "rank_values spec T ! k = JNum (of_nat (sql_rank spec rows (rows ! x)))"
    using rank_value_at [OF ord fn T(1) srt T(2)] by (simp only: T(3) sql_rank_def)
  then have "map_of (zip S (rank_values spec T)) x = Some (JNum (of_nat (sql_rank spec rows (rows ! x))))"
    using map_of_zip_nth [of S "rank_values spec T" k] S(1) k by (simp add: T_def)
  moreover have "ws_fn spec \<in> set RANKING" using fn by (auto simp: RANKING_def)
  moreover have "distinct ?p" by (simp add: peer_rows_def)
  ultimately show ?thesis using x by (simp add: apply_rank_nth rank_part_nth S_def T_def)
qed

definition shop_sales :: "jsval list" where
  "shop_sales = [JObj [(''r'', JStr ''n''), (''v'', JNum 3)], JObj [(''r'', JStr ''s''), (''v'', JNum 1)],
     JObj [(''r'', JStr ''n''), (''v'', JNum 9)], JObj [(''r'', JStr ''n''), (''v'', JNum 9)]]"

definition sales_rank :: window_spec where
  "sales_rank = \<lparr>ws_fn = ''RANK'', ws_column = None, ws_partition = [''r''], ws_order = [(''v'', True)],
     ws_alias = ''k'', ws_offset = None\<rparr>"

lemma window_rank_exact_witness:
  "orderly (ws_order sales_rank) shop_sales \<and> sql_rank sales_rank shop_sales (shop_sales ! 0) = 3 \<and>
   apply_window shop_sales sales_rank ! 0 = JObj [(''r'', JStr ''n''), (''v'', JNum 3), (''k'', JNum 3)]"
proof -
  have o: "orderly (ws_order sales_rank) shop_sales" by code_simp
  have r: "sql_rank sales_rank shop_sales (shop_sales ! 0) = 3" by code_simp
  have "apply_window shop_sales sales_rank ! 0 = put (ws_alias sales_rank) (JNum (of_nat (sql_rank sales_rank shop_sales (shop_sales ! 0)))) (shop_sales ! 0)"
    by (rule window_rank_exact [OF o]) (simp_all add: sales_rank_def shop_sales_def)
  then have "apply_window shop_sales sales_rank ! 0 = put ''k'' (JNum (of_nat (3::nat))) (shop_sales ! 0)"
    unfolding r by (simp add: sales_rank_def)
  also have "\<dots> = JObj [(''r'', JStr ''n''), (''v'', JNum 3), (''k'', JNum 3)]"
    by (simp add: put_def shop_sales_def)
  finally show ?thesis using o r by simp
qed

end
