(* ===== verification/AsyncJobs.thy ===== *)
theory AsyncJobs
  imports JsValue
begin

text \<open>
  The asynchronous queries of \<open>query-engine.service.ts\<close>: \<open>executeAsyncQuery\<close> registers a job for
  the tenant and the user who asked and settles it when the query ends; \<open>getJobStatus\<close> shows it
  to nobody else. Job ids are fresh (\<open>randomUUID\<close>); the outcome of a query is an input.
\<close>

section \<open>The jobs\<close>

record job_base =
  jb_tenant :: string
  jb_user :: string
  jb_created :: nat

datatype job_state = Pending | Completed jsval | Failed string

type_synonym jobs = "(string \<times> (job_state \<times> job_base)) list"

definition set_job :: "string \<Rightarrow> job_state \<times> job_base \<Rightarrow> jobs \<Rightarrow> jobs" where
  "set_job jobId j js = (jobId, j) # filter (\<lambda>(i, _). i \<noteq> jobId) js"

text \<open>Jobs older than an hour are dropped when another one is started.\<close>

definition evict :: "nat \<Rightarrow> jobs \<Rightarrow> jobs" where
  "evict now js = filter (\<lambda>(_, (_, b)). jb_created b + 3600000 \<ge> now) js"

definition owner_of :: "jsval \<Rightarrow> string" where
  "owner_of userId = (if nullish userId then [] else js_string userId)"

definition executeAsyncQuery :: "string \<Rightarrow> string \<Rightarrow> jsval \<Rightarrow> nat \<Rightarrow> jobs \<Rightarrow> jobs" where
  "executeAsyncQuery jobId tenantId userId now js =
     set_job jobId (Pending, \<lparr>jb_tenant = tenantId, jb_user = owner_of userId, jb_created = now\<rparr>) (evict now js)"

text \<open>The continuation of the query sets the job again, with the owner it was started for.\<close>

definition settle :: "string \<Rightarrow> job_base \<Rightarrow> (string + jsval) \<Rightarrow> jobs \<Rightarrow> jobs" where
  "settle jobId base outcome js =
     set_job jobId (case outcome of Inr data \<Rightarrow> Completed data | Inl msg \<Rightarrow> Failed msg, base) js"

definition getJobStatus :: "string \<Rightarrow> jsval \<Rightarrow> jsval \<Rightarrow> jobs \<Rightarrow> job_state option" where
  "getJobStatus jobId tenantId userId js =
     (case map_of js jobId of
        None \<Rightarrow> None
      | Some (s, b) \<Rightarrow> if tenantId \<noteq> JStr (jb_tenant b) \<or> jb_user b \<noteq> owner_of userId then None else Some s)"

section \<open>A job is seen by its owner only\<close>

datatype job_event = Start string string jsval nat | Settled string "string + jsval"

text \<open>\<open>pend\<close> holds the continuations of the queries under way.\<close>

inductive job_run :: "job_event list \<Rightarrow> (string \<times> job_base) list \<Rightarrow> jobs \<Rightarrow> bool" where
  jobs_none: "job_run [] [] []"
| jobs_start: "job_run es pend js \<Longrightarrow> (\<And>t u n. Start jobId t u n \<notin> set es) \<Longrightarrow>
    job_run (es @ [Start jobId t u now]) ((jobId, \<lparr>jb_tenant = t, jb_user = owner_of u, jb_created = now\<rparr>) # pend)
      (executeAsyncQuery jobId t u now js)"
| jobs_settle: "job_run es (pend1 @ (jobId, base) # pend2) js \<Longrightarrow>
    job_run (es @ [Settled jobId outcome]) (pend1 @ pend2) (settle jobId base outcome js)"

inductive_cases job_runE: "job_run es pend js"

definition started_by :: "job_event list \<Rightarrow> string \<Rightarrow> job_base \<Rightarrow> bool" where
  "started_by es jobId b \<longleftrightarrow> (\<exists>u. Start jobId (jb_tenant b) u (jb_created b) \<in> set es \<and> owner_of u = jb_user b)"

definition outcome_in :: "job_event list \<Rightarrow> string \<Rightarrow> job_state \<Rightarrow> bool" where
  "outcome_in es jobId s = (case s of Pending \<Rightarrow> True
     | Completed v \<Rightarrow> Settled jobId (Inr v) \<in> set es | Failed m \<Rightarrow> Settled jobId (Inl m) \<in> set es)"

lemma set_job_mem: "(i, j) \<in> set (set_job jobId x js) \<Longrightarrow> (i, j) = (jobId, x) \<or> (i, j) \<in> set js"
  by (auto simp: set_job_def)

lemma started_by_append: "started_by es i b \<Longrightarrow> started_by (es @ es') i b"
  by (auto simp: started_by_def)

lemma outcome_in_append: "outcome_in es i s \<Longrightarrow> outcome_in (es @ es') i s"
  by (auto simp: outcome_in_def split: job_state.splits)

lemma job_run_inv:
  "job_run es pend js \<Longrightarrow>
     (\<forall>i b. (i, b) \<in> set pend \<longrightarrow> started_by es i b) \<and> (\<forall>i s b. (i, (s, b)) \<in> set js \<longrightarrow> started_by es i b \<and> outcome_in es i s)"
proof (induction rule: job_run.induct)
  case (jobs_start es pend js jobId t u now)
  let ?b = "\<lparr>jb_tenant = t, jb_user = owner_of u, jb_created = now\<rparr>"
  have "started_by (es @ [Start jobId t u now]) jobId ?b" by (auto simp: started_by_def)
  moreover have "outcome_in (es @ [Start jobId t u now]) jobId Pending" by (simp add: outcome_in_def)
  ultimately show ?case
    using jobs_start.IH
    by (auto simp: executeAsyncQuery_def evict_def dest!: set_job_mem) (blast intro: started_by_append outcome_in_append)+
next
  case (jobs_settle es pend1 jobId base pend2 js outcome)
  have "started_by (es @ [Settled jobId outcome]) jobId base" using jobs_settle.IH by (auto intro: started_by_append)
  moreover have "outcome_in (es @ [Settled jobId outcome]) jobId (case outcome of Inr data \<Rightarrow> Completed data | Inl msg \<Rightarrow> Failed msg)"
    by (auto simp: outcome_in_def split: sum.split)
  ultimately show ?case
    using jobs_settle.IH
    by (auto simp: settle_def dest!: set_job_mem) (blast intro: started_by_append outcome_in_append)+
qed simp

text \<open>
  C39: in every history of asynchronous queries, whoever asks for the status of a job and gets an
  answer is the tenant and the user who started the job with that id, and the result or the
  error shown is the outcome of that job's own query.
\<close>

theorem job_visible_to_owner:
  assumes "job_run es pend js" "getJobStatus jobId tenantId userId js = Some s"
  shows "\<exists>t u now. Start jobId t u now \<in> set es \<and> tenantId = JStr t \<and> owner_of u = owner_of userId \<and> outcome_in es jobId s"
proof -
  obtain b where b: "map_of js jobId = Some (s, b)" "tenantId = JStr (jb_tenant b)" "jb_user b = owner_of userId"
    using assms(2) by (auto simp: getJobStatus_def split: option.splits if_splits)
  then have "started_by es jobId b \<and> outcome_in es jobId s"
    using job_run_inv [OF assms(1)] map_of_SomeD [OF b(1)] by blast
  then show ?thesis using b(2,3) by (auto simp: started_by_def)
qed

definition one_job :: jobs where
  "one_job = executeAsyncQuery ''j1'' ''acme'' (JStr ''ann'') 0 []"

lemma one_job_run: "job_run [Start ''j1'' ''acme'' (JStr ''ann'') 0] [(''j1'', \<lparr>jb_tenant = ''acme'', jb_user = ''ann'', jb_created = 0\<rparr>)] one_job"
  using jobs_start [OF jobs_none, of "''j1''" "''acme''" "JStr ''ann''" 0] by (simp add: one_job_def owner_of_def)

theorem job_visible_to_owner_witness:
  "Start ''j1'' ''acme'' (JStr ''ann'') 0 \<in> set [Start ''j1'' ''acme'' (JStr ''ann'') 0] \<and>
   getJobStatus ''j1'' (JStr ''acme'') (JStr ''ann'') one_job = Some Pending \<and>
   getJobStatus ''j1'' (JStr ''zeta'') (JStr ''ann'') one_job = None"
proof -
  have s: "getJobStatus ''j1'' (JStr ''acme'') (JStr ''ann'') one_job = Some Pending"
    "getJobStatus ''j1'' (JStr ''zeta'') (JStr ''ann'') one_job = None" by code_simp+
  then show ?thesis using job_visible_to_owner [OF one_job_run s(1)] by auto
qed

text \<open>Eviction does not look at the state of a job: one that still runs after an hour is gone until it settles.\<close>

lemma running_job_evicted:
  "getJobStatus ''j1'' (JStr ''acme'') (JStr ''ann'') (executeAsyncQuery ''j2'' ''acme'' (JStr ''ann'') 3600001 one_job) = None"
  by code_simp

end
