(* ===== verification/HubTarget.thy ===== *)
theory HubTarget
  imports Planner TenantScope SqlGuard
begin

text \<open>
  \<open>modules/query-engine/query-engine.service.ts\<close>, the part that decides which schema and table of
  the hub a request may reach: the physical name of a logical schema, the target of a CALL, the
  target of a plain request resolved against the catalogue, and the asynchronous jobs of a user.
\<close>

section \<open>Names\<close>

definition accessDenied :: js_err where
  "accessDenied = Err 403 ''ACCESS_DENIED''"

definition typeError :: js_err where
  "typeError = Err 500 ''TypeError''"

definition only_word :: "string \<Rightarrow> string" where
  "only_word s = filter is_word_chr s"

text \<open>\<open>/^(public|pg_[a-z0-9_]*|information_schema|fabric_[a-z0-9_]*|citus[a-z0-9_]*|metadata_catalog|admin_functions|cron)$/i\<close>\<close>

definition RESERVED_SCHEMA_RE :: "string \<Rightarrow> bool" where
  "RESERVED_SCHEMA_RE s \<longleftrightarrow>
     (let l = js_lower s; open_ended = (\<lambda>p. starts_with l p \<and> list_all is_word_chr (drop (length p) l)) in
      l \<in> {''public'', ''information_schema'', ''metadata_catalog'', ''admin_functions'', ''cron''}
      \<or> open_ended ''pg_'' \<or> open_ended ''fabric_'' \<or> open_ended ''citus'')"

definition toTenantSchemaName :: "jsval \<Rightarrow> jsval \<Rightarrow> string res" where
  "toTenantSchemaName tenantId schema =
     bindR (assertTenantIdSafe tenantId) (\<lambda>tid.
       if nullish schema \<or> schema = JStr [] then Inr (''tenant_'' @ tid)
       else (let safe = only_word (js_string schema) in
             if safe = [] then Inl sqlGuardError
             else if belongsToTenant safe tid then Inr safe
             else if RESERVED_SCHEMA_RE safe then Inl accessDenied
             else Inr (''tenant_'' @ tid @ ''_'' @ safe)))"

definition hubSchemaFor :: "jsval \<Rightarrow> string \<Rightarrow> string res" where
  "hubSchemaFor tenantId physical =
     bindR (assertTenantIdSafe tenantId) (\<lambda>tid.
       let clean = only_word physical in
       Inr (if clean = [] then ''tenant_'' @ tid
            else if belongsToTenant clean tid then clean else ''tenant_'' @ tid @ ''_'' @ clean))"

text \<open>\<open>/^tenant_/i\<close>\<close>

definition tenant_like :: "string \<Rightarrow> bool" where
  "tenant_like s \<longleftrightarrow> starts_with (js_lower s) ''tenant_''"

definition call_schema :: "jsval \<Rightarrow> string list \<Rightarrow> jsval \<Rightarrow> string res" where
  "call_schema tenantId parts schema =
     (if length parts = 2 then
        (let qual = parts ! 0 in
         if RESERVED_SCHEMA_RE qual then Inl accessDenied
         else bindR (assertTenantIdSafe tenantId) (\<lambda>tid.
           if tenant_like qual \<and> \<not> belongsToTenant qual tid then Inl accessDenied
           else toTenantSchemaName tenantId (JStr qual)))
      else toTenantSchemaName tenantId (if truthy schema then schema else JUndef))"

definition resolveCallTarget :: "jsval \<Rightarrow> string \<Rightarrow> jsval \<Rightarrow> string res" where
  "resolveCallTarget tenantId rawName schema =
     (let parts = split_chr CHR ''.'' rawName in
      if length parts > 2 then Inl accessDenied
      else bindR (eachR (\<lambda>p. mapR (\<lambda>_. ()) (assertIdent (JStr p))) parts) (\<lambda>_.
        bindR (call_schema tenantId parts schema) (\<lambda>physical.
        bindR (assertTenantIdSafe tenantId) (\<lambda>tid.
          if \<not> belongsToTenant physical tid then Inl accessDenied
          else bindR (quoteAnyIdent (JStr physical)) (\<lambda>q.
            mapR (\<lambda>f. q @ ''.'' @ f) (quoteIdent (JStr (last parts))))))))"

section \<open>Source labels\<close>

definition drop_source :: "jsval \<Rightarrow> jsval" where
  "drop_source v = (case v of JObj kvs \<Rightarrow> if truthy (js_get ''source'' v) then JObj (kv_del ''source'' kvs) else v | _ \<Rightarrow> v)"

definition map_entries :: "(string \<Rightarrow> jsval \<Rightarrow> jsval) \<Rightarrow> jsval \<Rightarrow> jsval" where
  "map_entries f v = (case v of JObj kvs \<Rightarrow> JObj (map (\<lambda>kv. (fst kv, f (fst kv) (snd kv))) kvs) | _ \<Rightarrow> v)"

definition map_array :: "(jsval \<Rightarrow> jsval) \<Rightarrow> jsval \<Rightarrow> jsval" where
  "map_array f v = (case v of JArr xs \<Rightarrow> JArr (map f xs) | _ \<Rightarrow> v)"

text \<open>The walk ends at the depth of the query, which its size bounds.\<close>

primrec strip_sources :: "nat \<Rightarrow> jsval \<Rightarrow> jsval" where
  "strip_sources 0 v = v"
| "strip_sources (Suc n) v =
     map_entries (\<lambda>k x.
       if k = ''from'' then drop_source x
       else if k = ''joins'' then map_array drop_source x
       else if k \<in> {''union'', ''intersect'', ''except''} then map_array (strip_sources n) x
       else if k = ''with'' then map_array (map_entries (\<lambda>k' y.
              if k' = ''base'' \<or> k' = ''unionAll'' \<and> truthy y then strip_sources n y else y)) x
       else x) v"

definition stripSources :: "jsval \<Rightarrow> jsval" where
  "stripSources ast = strip_sources (size ast) ast"

section \<open>The target of a plain request\<close>

text \<open>
  A row of the join of \<open>catalog_tables\<close> and \<open>catalog_schemas\<close>, with the row of \<open>data_sources\<close> the
  schema belongs to, if it has a source.
\<close>

record hub_row =
  hr_table_id :: string
  hr_schema_id :: string
  hr_source :: "source_row option"
  hr_schema_name :: string
  hr_schema :: string
  hr_name :: string
  hr_table :: string
  hr_kind :: "string option"

record schema_row =
  sr_id :: string
  sr_source :: "source_row option"
  sr_physical :: string

record hub_catalogue =
  hc_tables :: "hub_row list"
  hc_schemas :: "schema_row list"
  hc_sources :: "source_row list"
  hc_override :: string

record target_cfg =
  tc_tableId :: jsval
  tc_schemaId :: jsval
  tc_source :: jsval
  tc_schema :: jsval
  tc_table :: jsval
  tc_resource :: jsval

record hub_target =
  tg_schema :: string
  tg_table :: string
  tg_engine :: string
  tg_source :: string
  tg_config :: jsval

text \<open>\<open>catalogSchemaScope\<close> on a schema: of a source of the tenant, or of no source and named like the tenant.\<close>

definition in_scope :: "string \<Rightarrow> source_row option \<Rightarrow> string \<Rightarrow> bool" where
  "in_scope tenantId src physical =
     (case src of Some d \<Rightarrow> ds_tenant d = tenantId | None \<Rightarrow> belongsToTenant physical tenantId)"

definition text_or_empty :: "jsval \<Rightarrow> jsval \<Rightarrow> string res" where
  "text_or_empty a b =
     (case or_val a b of JStr s \<Rightarrow> Inr (only_word s) | v \<Rightarrow> if truthy v then Inl typeError else Inr [])"

definition hub_only :: "string \<Rightarrow> string \<Rightarrow> hub_target" where
  "hub_only schema table = \<lparr>tg_schema = schema, tg_table = table, tg_engine = ''POSTGRES'', tg_source = LOCAL_SOURCE, tg_config = JObj []\<rparr>"

definition target_by_id :: "hub_catalogue \<Rightarrow> jsval \<Rightarrow> string \<Rightarrow> jsval \<Rightarrow> hub_target res" where
  "target_by_id cat tenantId tid i =
     (if \<not> isUuid i then Inl source_not_found
      else (case List.find (\<lambda>r. hr_table_id r = js_lower (js_string i) \<and> in_scope tid (hr_source r) (hr_schema r)) (hc_tables cat) of
              None \<Rightarrow> Inl source_not_found
            | Some r \<Rightarrow> mapR (\<lambda>s. hub_only s (only_word (last (split_chr CHR ''.'' (hr_table r))))) (hubSchemaFor tenantId (hr_schema r))))"

definition schema_by_id :: "hub_catalogue \<Rightarrow> jsval \<Rightarrow> string \<Rightarrow> jsval \<Rightarrow> string res" where
  "schema_by_id cat tenantId tid i =
     (if \<not> isUuid i then Inl source_not_found
      else (case List.find (\<lambda>r. sr_id r = js_lower (js_string i) \<and> in_scope tid (sr_source r) (sr_physical r)) (hc_schemas cat) of
              None \<Rightarrow> Inl source_not_found | Some r \<Rightarrow> hubSchemaFor tenantId (sr_physical r)))"

text \<open>The rows of the tenant's sources for a table name; another engine than POSTGRES comes first.\<close>

definition named_rows :: "hub_catalogue \<Rightarrow> string \<Rightarrow> string \<Rightarrow> (hub_row \<Rightarrow> source_row \<Rightarrow> bool) \<Rightarrow> (hub_row \<times> source_row) list" where
  "named_rows cat tid table P =
     List.map_filter (\<lambda>r. case hr_source r of
        Some d \<Rightarrow> if ds_tenant d = tid \<and> hr_name r = table \<and> P r d then Some (r, d) else None | None \<Rightarrow> None) (hc_tables cat)"

definition foreign_first :: "(hub_row \<times> source_row) list \<Rightarrow> (hub_row \<times> source_row) option" where
  "foreign_first rows =
     (case List.find (\<lambda>(r, d). ds_engine d \<noteq> ''POSTGRES'') rows of
        Some x \<Rightarrow> Some x | None \<Rightarrow> (case rows of x # _ \<Rightarrow> Some x | [] \<Rightarrow> None))"

definition find_named :: "hub_catalogue \<Rightarrow> string \<Rightarrow> string \<Rightarrow> target_cfg \<Rightarrow> string \<Rightarrow> (hub_row \<times> source_row) option" where
  "find_named cat tid table cfg schemaName =
     (let by = (\<lambda>r d. (truthy (tc_source cfg) \<longrightarrow> JStr (ds_name d) = tc_source cfg) \<and> (truthy (tc_schema cfg) \<longrightarrow> JStr (hr_schema_name r) = tc_schema cfg))
      in case foreign_first (named_rows cat tid table by) of
           Some x \<Rightarrow> Some x
         | None \<Rightarrow>
             (case (if truthy (tc_schema cfg) then foreign_first (named_rows cat tid table (\<lambda>r d. hr_schema r = schemaName)) else None) of
                Some x \<Rightarrow> Some x | None \<Rightarrow> foreign_first (named_rows cat tid table (\<lambda>r d. True))))"

definition named_target :: "hub_row \<Rightarrow> source_row \<Rightarrow> string \<Rightarrow> string \<Rightarrow> hub_target" where
  "named_target r d schemaName table =
     (let mv = hr_kind r = Some ''MATERIALIZED_VIEW'' in
      \<lparr>tg_schema = (if hr_schema r = [] then schemaName else hr_schema r),
       tg_table = (if hr_table r = [] then table else hr_table r),
       tg_engine = (if mv then ''POSTGRES'' else js_upper (ds_engine d)),
       tg_source = (if mv then LOCAL_SOURCE else ds_name d), tg_config = config_of (ds_config d)\<rparr>)"

text \<open>The override is looked up by name alone.\<close>

definition override_target :: "hub_catalogue \<Rightarrow> string \<Rightarrow> string \<Rightarrow> hub_target" where
  "override_target cat schemaName table =
     (case (if hc_override cat = [] then None else List.find (\<lambda>d. ds_name d = hc_override cat) (hc_sources cat)) of
        None \<Rightarrow> hub_only schemaName table
      | Some d \<Rightarrow> \<lparr>tg_schema = schemaName, tg_table = table, tg_engine = js_upper (ds_engine d), tg_source = ds_name d,
                   tg_config = config_of (ds_config d)\<rparr>)"

definition resolveTarget :: "hub_catalogue \<Rightarrow> jsval \<Rightarrow> target_cfg \<Rightarrow> hub_target res" where
  "resolveTarget cat tenantId cfg =
     bindR (toTenantSchemaName tenantId (tc_schema cfg)) (\<lambda>base.
     bindR (text_or_empty (tc_table cfg) (tc_resource cfg)) (\<lambda>table.
     bindR (assertTenantIdSafe tenantId) (\<lambda>tid.
       if truthy (tc_tableId cfg) then target_by_id cat tenantId tid (tc_tableId cfg)
       else bindR (if truthy (tc_schemaId cfg) then schema_by_id cat tenantId tid (tc_schemaId cfg) else Inr base) (\<lambda>schemaName.
         if table = [] then Inr (hub_only schemaName table)
         else (case find_named cat tid table cfg schemaName of
                 Some (r, d) \<Rightarrow> Inr (named_target r d schemaName table)
               | None \<Rightarrow> Inr (override_target cat schemaName table))))))"

section \<open>Where a request can go\<close>



lemma tenant_id_same: "assertTenantIdSafe v = Inr tid \<Longrightarrow> v = JStr tid"
  by (cases v) (auto simp: assertTenantIdSafe_def split: if_splits)







text \<open>The target of a CALL is a quoted name in a schema of the tenant.\<close>

lemma call_target_confined:
  assumes "resolveCallTarget (JStr tid) rawName schema = Inr call"
  shows "\<exists>s q f. belongsToTenant s tid \<and> quoteAnyIdent (JStr s) = Inr q
     \<and> quoteIdent (JStr (last (split_chr CHR ''.'' rawName))) = Inr f \<and> call = q @ ''.'' @ f"
  using assms by (auto simp: resolveCallTarget_def Let_def dest!: tenant_id_same split: if_splits)




definition shop_source :: source_row where
  "shop_source = \<lparr>ds_tenant = ''acme'', ds_name = ''shop'', ds_engine = ''MYSQL'', ds_sync = None, ds_config = JNull\<rparr>"

definition shop_hub :: hub_catalogue where
  "shop_hub = \<lparr>hc_tables = [\<lparr>hr_table_id = ''t'', hr_schema_id = ''s'', hr_source = Some shop_source, hr_schema_name = ''main'',
      hr_schema = ''tenant_zeta'', hr_name = ''orders'', hr_table = ''orders'', hr_kind = None\<rparr>],
     hc_schemas = [], hc_sources = [shop_source], hc_override = []\<rparr>"

definition plain_cfg :: "string \<Rightarrow> target_cfg" where
  "plain_cfg table = \<lparr>tc_tableId = JUndef, tc_schemaId = JUndef, tc_source = JUndef, tc_schema = JUndef, tc_table = JStr table, tc_resource = JUndef\<rparr>"

text \<open>The name of a table of a remote source resolves to a schema of another tenant on the hub, which the
resolution by id is written to prevent.\<close>

lemma name_reaches_foreign_schema:
  "mapR tg_schema (resolveTarget shop_hub (JStr ''acme'') (plain_cfg ''orders'')) = Inr ''tenant_zeta''"
  by code_simp

text \<open>The source that overrides the hub is taken by its name: here that of another tenant, with its connection.\<close>

lemma override_takes_foreign_source:
  "resolveTarget (shop_hub\<lparr>hc_override := ''shop''\<rparr>) (JStr ''zeta'') (plain_cfg ''orders'') =
   Inr \<lparr>tg_schema = ''tenant_zeta'', tg_table = ''orders'', tg_engine = ''MYSQL'', tg_source = ''shop'', tg_config = config_of (ds_config shop_source)\<rparr>"
  "ds_tenant shop_source = ''acme''"
  by code_simp+


end
