(* ===== verification/QueryTranspile.thy ===== *)
theory QueryTranspile
  imports HubTarget JsonText
begin

text \<open>
  \<open>modules/metadata/query_transpiler.ts\<close>: the compiler from the query language of the manifests to the
  text of a view. Values are quoted, names are checked, and a raw \<open>expression\<close> is refused when it holds a
  separator or a comment. The theorem of this theory is that the text of a query that compiles is one
  statement whose quotes are closed: outside quotes it holds no separator, no comment opener and no NUL.
\<close>

section \<open>Templates\<close>

text \<open>A template literal and \<open>xs.map(f).join(sep)\<close>: the parts are evaluated in order, the first failure wins.\<close>

definition catR :: "string res list \<Rightarrow> string res" where
  "catR rs = mapR concat (mapMR (\<lambda>r. r) rs)"

definition joinR :: "string \<Rightarrow> string res list \<Rightarrow> string res" where
  "joinR sep rs = mapR (js_join sep) (mapMR (\<lambda>r. r) rs)"

definition dq :: "string \<Rightarrow> string" where
  "dq s = dquote # s @ [dquote]"

section \<open>Names, values and operands\<close>

definition fragmentError :: js_err where
  "fragmentError = Err 400 ''INVALID_SQL_FRAGMENT''"

definition valueError :: js_err where
  "valueError = Err 400 ''INVALID_VALUE''"

text \<open>\<open>/^[A-Za-z]([A-Za-z0-9 _-]{0,46}[A-Za-z0-9_-])?$/\<close> and \<open>/^[A-Za-z_][A-Za-z0-9_]*$/\<close>.\<close>

definition SOURCE_RE :: "string \<Rightarrow> bool" where
  "SOURCE_RE s \<longleftrightarrow> (case s of [] \<Rightarrow> False
     | c # cs \<Rightarrow> is_alpha c \<and> (cs = [] \<or> length cs \<le> 47 \<and> list_all (\<lambda>d. is_word_chr d \<or> d = CHR ''-'' \<or> d = CHR '' '') cs
                               \<and> last cs \<noteq> CHR '' ''))"

definition plain_word :: "string \<Rightarrow> bool" where
  "plain_word s \<longleftrightarrow> (case s of [] \<Rightarrow> False | c # cs \<Rightarrow> is_ident_start c \<and> list_all is_word_chr cs)"

definition VIEW_AGGREGATES :: "string list" where
  "VIEW_AGGREGATES = [''COUNT'', ''SUM'', ''AVG'', ''MIN'', ''MAX'', ''STDDEV'', ''VARIANCE'', ''ARRAY_AGG'', ''BOOL_AND'', ''BOOL_OR'', ''COUNT_DISTINCT'']"

definition VIEW_WINDOWS :: "string list" where
  "VIEW_WINDOWS = [''ROW_NUMBER'', ''RANK'', ''DENSE_RANK'', ''PERCENT_RANK'', ''CUME_DIST'']"

definition VIEW_JOINS :: "string list" where
  "VIEW_JOINS = [''INNER'', ''LEFT'', ''RIGHT'', ''FULL'', ''CROSS'']"

definition pathOf :: "jsval \<Rightarrow> string res" where
  "pathOf v =
     (case v of
        JStr s \<Rightarrow>
          (if s = ''*'' then Inr s
           else (let parts = split_chr CHR ''.'' s; n = length parts in
             if n > 3 then Inl identifierError
             else mapR (\<lambda>_. s) (eachR (\<lambda>i. if parts ! i = ''*'' \<and> i = n - 1 \<and> n > 1 then Inr ()
                                            else mapR (\<lambda>_. ()) (assertIdent (JStr (parts ! i)))) [0..<n])))
      | _ \<Rightarrow> Inl identifierError)"

function literal :: "jsval \<Rightarrow> string res" where
  "literal v =
     (if nullish v then Inr ''NULL''
      else if is_arr v then catR [Inr ''('', joinR '', '' (map literal (arr_of v)), Inr '')'']
      else (let s = (if is_obj v then json_text v else js_string v) in
            if CHR 0x00 \<in> set s then Inl valueError
            else Inr (squote_chr # double_single s @ [squote_chr])))"
  by pat_completeness auto

termination
  by (relation "measure size") (auto elim!: is_arr.elims intro: size_list_estimation [of _ _ _ size] simp: less_Suc_eq_le size_list_estimation')

declare literal.simps [simp del]

text \<open>\<open>/\$[A-Za-z0-9_]*\$/\<close>\<close>

fun dollar_tag :: "string \<Rightarrow> bool" where
  "dollar_tag [] = False"
| "dollar_tag (c # s) = (c = CHR ''$'' \<and> (case dropWhile is_word_chr s of [] \<Rightarrow> False | d # _ \<Rightarrow> d = CHR ''$'') \<or> dollar_tag s)"

definition fragment :: "jsval \<Rightarrow> string res" where
  "fragment v =
     (let s = js_string (coalesce v (JStr [])) in
      if js_trim s = [] \<or> CHR 0x00 \<in> set s \<or> CHR '';'' \<in> set s
         \<or> str_includes s ''--'' \<or> str_includes s ''/*'' \<or> str_includes s ''*/'' \<or> dollar_tag s
      then Inl fragmentError else Inr s)"

definition nonNegInt :: "jsval \<Rightarrow> nat res" where
  "nonNegInt v =
     (let n = (case v of
                 JStr s \<Rightarrow> (let t = js_trim s in
                   if t \<noteq> [] \<and> length t \<le> 12 \<and> list_all is_digit t then num_or_nan (js_number v) else v)
               | _ \<Rightarrow> v)
      in case n of
           JNum q \<Rightarrow> if is_int_rat q \<and> 0 \<le> q \<and> q \<le> 1000000000 then Inr (nat \<lfloor>q\<rfloor>) else Inl fragmentError
         | _ \<Rightarrow> Inl fragmentError)"

definition dir :: "jsval \<Rightarrow> string res" where
  "dir d = (let x = js_upper (js_string (coalesce d (JStr ''ASC''))) in
            if x \<noteq> ''ASC'' \<and> x \<noteq> ''DESC'' then Inl fragmentError else Inr x)"

text \<open>The physical schema in scope; absent or empty means that names stay as they are.\<close>

definition prefixed :: "string option \<Rightarrow> bool" where
  "prefixed p \<longleftrightarrow> p \<noteq> None \<and> p \<noteq> Some []"

definition view_qualify :: "string option \<Rightarrow> jsval \<Rightarrow> jsval res" where
  "view_qualify prefix path =
     (if \<not> truthy path \<or> path = JStr ''*'' then Inr path
      else bindR (pathOf path) (\<lambda>s.
        Inr (JStr (if CHR ''.'' \<in> set s
                   then js_join ''.'' (map (\<lambda>p. if starts_with p [dquote] \<and> ends_with p [dquote] then p else dq p) (split_chr CHR ''.'' s))
                   else if \<not> prefixed prefix then s
                   else dq (filter (\<lambda>c. c \<noteq> dquote) s)))))"

text \<open>Inside a template the path is converted to text; \<open>join\<close> writes a missing one as nothing.\<close>

definition qualified_text :: "string option \<Rightarrow> jsval \<Rightarrow> string res" where
  "qualified_text prefix path = mapR js_string (view_qualify prefix path)"

definition joined_text :: "string option \<Rightarrow> jsval \<Rightarrow> string res" where
  "joined_text prefix path = mapR (\<lambda>v. if nullish v then [] else js_string v) (view_qualify prefix path)"

definition OPERATOR_MAP :: "(string \<times> string) list" where
  "OPERATOR_MAP =
     [(''EQ'', ''=''), (''NE'', ''!=''), (''NEQ'', ''!=''), (''GT'', ''>''), (''LT'', ''<''), (''GTE'', ''>=''), (''LTE'', ''<=''),
      (''LIKE'', ''LIKE''), (''ILIKE'', ''ILIKE''), (''IN'', ''IN''), (''NIN'', ''NOT IN''), (''NOT_IN'', ''NOT IN''),
      (''NOT_LIKE'', ''NOT LIKE''), (''IS_NULL'', ''IS NULL''), (''IS_NOT_NULL'', ''IS NOT NULL''),
      (''='', ''=''), (''!='', ''!=''), (''<>'', ''<>''), (''>'', ''>''), (''<'', ''<''), (''>='', ''>=''), (''<='', ''<='')]"

definition mapOp :: "jsval \<Rightarrow> string res" where
  "mapOp op' = (case kv_get (js_upper (js_string (coalesce op' (JStr [])))) OPERATOR_MAP of
                  Some m \<Rightarrow> Inr m | None \<Rightarrow> Inl fragmentError)"

section \<open>Columns and conditions\<close>

text \<open>\<open>AS "alias"\<close>, nothing when there is no alias.\<close>

definition alias_sql :: "string \<Rightarrow> jsval \<Rightarrow> string res" where
  "alias_sql pre v =
     (if truthy (js_get ''alias'' v) then mapR (\<lambda>a. pre @ ''AS '' @ dq a) (assertIdent (js_get ''alias'' v)) else Inr [])"

definition aggregateExpr :: "string option \<Rightarrow> jsval \<Rightarrow> string res" where
  "aggregateExpr prefix c =
     (let agg = js_upper (js_string (js_get ''aggregate'' c)) in
      if agg \<notin> set VIEW_AGGREGATES then Inl fragmentError
      else bindR (if truthy (js_get ''column'' c) then qualified_text prefix (js_get ''column'' c) else Inr ''*'') (\<lambda>col.
        Inr (if agg = ''COUNT_DISTINCT'' then ''COUNT(DISTINCT '' @ col @ '')'' else agg @ ''('' @ col @ '')'')))"

definition order_items :: "string option \<Rightarrow> jsval list \<Rightarrow> string res" where
  "order_items prefix os =
     joinR '', '' (map (\<lambda>p. if nullish p then Inl typeError
       else catR [qualified_text prefix (js_get ''column'' p), Inr '' '', dir (js_get ''direction'' p)]) os)"

definition array_then :: "(jsval list \<Rightarrow> string res) \<Rightarrow> jsval \<Rightarrow> string res" where
  "array_then f v = (case v of JArr xs \<Rightarrow> f xs | _ \<Rightarrow> Inl typeError)"

definition windowSql :: "string option \<Rightarrow> jsval \<Rightarrow> string res" where
  "windowSql prefix c =
     (let win = js_upper (js_string (js_get ''window'' c)) in
      if win \<notin> set VIEW_WINDOWS then Inl fragmentError
      else catR
        [Inr (win @ ''() OVER (''),
         if truthy (js_get ''partitionBy'' c)
         then array_then (\<lambda>ps. catR [Inr ''PARTITION BY '', joinR '', '' (map (joined_text prefix) ps), Inr '' '']) (js_get ''partitionBy'' c)
         else Inr [],
         if truthy (js_get ''orderBy'' c)
         then array_then (\<lambda>os. catR [Inr ''ORDER BY '', order_items prefix os]) (js_get ''orderBy'' c)
         else Inr [],
         Inr '')'', alias_sql '' '' c])"

definition columnToSql :: "string option \<Rightarrow> jsval \<Rightarrow> string res" where
  "columnToSql prefix c =
     (if is_str c then joined_text prefix c
      else if nullish c then Inl typeError
      else if truthy (js_get ''expression'' c) then catR [fragment (js_get ''expression'' c), alias_sql '' '' c]
      else if truthy (js_get ''window'' c) then windowSql prefix c
      else if truthy (js_get ''aggregate'' c) then catR [aggregateExpr prefix c, alias_sql '' '' c]
      else if truthy (js_get ''column'' c) then catR [qualified_text prefix (js_get ''column'' c), alias_sql '' '' c]
      else Inr [])"

definition comparison :: "string option \<Rightarrow> jsval \<Rightarrow> jsval \<Rightarrow> jsval \<Rightarrow> string res" where
  "comparison prefix column operator value =
     bindR (mapOp operator) (\<lambda>op'.
     bindR (qualified_text prefix column) (\<lambda>col.
       if op' = ''IS NULL'' \<or> op' = ''IS NOT NULL'' then Inr (col @ '' '' @ op')
       else if nullish value \<and> op' \<in> {''='', ''!='', ''<>''}
       then Inr (col @ '' IS '' @ (if op' = ''='' then [] else ''NOT '') @ ''NULL'')
       else if op' = ''IN'' \<or> op' = ''NOT IN'' then
         (let arr = (case value of JArr xs \<Rightarrow> xs | _ \<Rightarrow> [value]) in
          if arr = [] then Inr (if op' = ''IN'' then ''1 = 0'' else ''1 = 1'')
          else mapR (\<lambda>t. col @ '' '' @ op' @ '' '' @ t) (literal (JArr arr)))
       else mapR (\<lambda>t. col @ '' '' @ op' @ '' '' @ t) (literal value)))"

definition whereToSql :: "string option \<Rightarrow> jsval \<Rightarrow> string res" where
  "whereToSql prefix w =
     (if nullish w then Inl typeError
      else if truthy (js_get ''expression'' w) then fragment (js_get ''expression'' w)
      else if truthy (js_get ''search'' w) then
        catR [Inr (''to_tsvector('' @ [squote_chr] @ ''english'' @ [squote_chr] @ '', ''),
              qualified_text prefix (js_get ''column'' (js_get ''search'' w)),
              Inr ('') @@ plainto_tsquery('' @ [squote_chr] @ ''english'' @ [squote_chr] @ '', ''),
              literal (JStr (js_string (coalesce (js_get ''query'' (js_get ''search'' w)) (JStr [])))), Inr '')'']
      else comparison prefix (js_get ''column'' w) (js_get ''operator'' w) (js_get ''value'' w))"

definition havingToSql :: "string option \<Rightarrow> jsval \<Rightarrow> jsval \<Rightarrow> string res" where
  "havingToSql prefix select h =
     (if nullish h then Inl typeError
      else (let operator = or_val (js_get ''operator'' h) (JStr ''EQ'') in
        case List.find (\<lambda>c. truthy (js_get ''aggregate'' c) \<and> \<not> is_str c \<and> strict_eq (js_get ''alias'' c) (js_get ''column'' h)) (arr_of select) of
          Some hit \<Rightarrow>
            bindR (mapOp operator) (\<lambda>op'. bindR (aggregateExpr prefix hit) (\<lambda>e.
              if op' = ''IS NULL'' \<or> op' = ''IS NOT NULL'' then Inr (e @ '' '' @ op')
              else mapR (\<lambda>t. e @ '' '' @ op' @ '' '' @ t) (literal (js_get ''value'' h))))
        | None \<Rightarrow> comparison prefix (js_get ''column'' h) operator (js_get ''value'' h)))"

section \<open>Statements\<close>

definition table_text :: "string option \<Rightarrow> string list \<Rightarrow> string \<Rightarrow> string" where
  "table_text prefix scope r =
     (if r \<in> set scope then dq r
      else (case prefix of None \<Rightarrow> dq r | Some p \<Rightarrow> if p = [] then dq r else dq p @ ''.'' @ dq r))"

definition schema_check :: "string option \<Rightarrow> string res" where
  "schema_check prefix = (case prefix of None \<Rightarrow> Inr [] | Some p \<Rightarrow> mapR (\<lambda>_. []) (assertIdent (JStr p)))"

definition from_table :: "string option \<Rightarrow> string list \<Rightarrow> jsval \<Rightarrow> string res" where
  "from_table prefix scope f =
     bindR (assertIdent (js_get ''resource'' f)) (\<lambda>r.
       (let src = js_get ''source'' f; st = js_string src in
        if \<not> nullish src \<and> \<not> SOURCE_RE st then Inl identifierError
        else catR
          [Inr (''FROM '' @ (if truthy src then (if plain_word st then st else dq st) @ ''.'' @ r else table_text prefix scope r) @ '' ''),
           alias_sql [] f, Inr '' '']))"

definition view_join_sql :: "string option \<Rightarrow> string list \<Rightarrow> jsval \<Rightarrow> string res" where
  "view_join_sql prefix scope j =
     (if nullish j then Inl typeError
      else bindR (assertIdent (js_get ''resource'' j)) (\<lambda>r.
        (let ty = js_upper (js_string (or_val (js_get ''type'' j) (JStr ''INNER''))); cond = js_get ''on'' j in
         if ty \<notin> set VIEW_JOINS then Inl fragmentError
         else catR
           [Inr (ty @ '' JOIN '' @ table_text prefix scope r @ '' ''), alias_sql [] j, Inr '' '',
            if nullish cond then Inl typeError else Inr [],
            Inr ''ON '', qualified_text prefix (js_get ''left'' cond), Inr '' '', mapOp (js_get ''operator'' cond), Inr '' '',
            qualified_text prefix (js_get ''right'' cond), Inr '' ''])))"

text \<open>\<open>for (const join of ast.joins)\<close>: a string is iterated by character, another value has no iterator.\<close>

definition joins_sql :: "string option \<Rightarrow> string list \<Rightarrow> jsval \<Rightarrow> string res" where
  "joins_sql prefix scope v =
     (if \<not> truthy v then Inr []
      else case v of
        JArr xs \<Rightarrow> catR (map (view_join_sql prefix scope) xs)
      | JStr s \<Rightarrow> catR (map (\<lambda>c. view_join_sql prefix scope (JStr [c])) s)
      | _ \<Rightarrow> Inl typeError)"

text \<open>\<open>if (v && v.length) \<dots> v.map\<close>: \<open>P\<close> is the test on the length.\<close>

definition length_of :: "jsval \<Rightarrow> jsval" where
  "length_of v = (case v of JArr xs \<Rightarrow> JNum (of_nat (length xs)) | JStr s \<Rightarrow> JNum (of_nat (length s)) | _ \<Rightarrow> js_get ''length'' v)"

definition clause :: "(jsval \<Rightarrow> bool) \<Rightarrow> (jsval list \<Rightarrow> string res) \<Rightarrow> jsval \<Rightarrow> string res" where
  "clause P f v = (if truthy v \<and> P (length_of v) then array_then f v else Inr [])"

definition view_where_sql :: "string option \<Rightarrow> jsval \<Rightarrow> string res" where
  "view_where_sql prefix = clause (js_less (JNum 0)) (\<lambda>ws. catR [Inr ''WHERE '', joinR '' AND '' (map (whereToSql prefix) ws), Inr '' ''])"

definition group_sql :: "string option \<Rightarrow> jsval \<Rightarrow> string res" where
  "group_sql prefix = clause truthy (\<lambda>gs. catR [Inr ''GROUP BY '', joinR '', '' (map (joined_text prefix) gs), Inr '' ''])"

definition having_sql :: "string option \<Rightarrow> jsval \<Rightarrow> jsval \<Rightarrow> string res" where
  "having_sql prefix select v =
     (case v of JArr (h # hs) \<Rightarrow> catR [Inr ''HAVING '', joinR '' AND '' (map (havingToSql prefix select) (h # hs)), Inr '' '']
              | _ \<Rightarrow> Inr [])"

definition view_order_sql :: "string option \<Rightarrow> jsval \<Rightarrow> string res" where
  "view_order_sql prefix = clause truthy (\<lambda>os. catR [Inr ''ORDER BY '', order_items prefix os])"

definition view_limit_sql :: "jsval \<Rightarrow> string res" where
  "view_limit_sql v = (if nullish v then Inr [] else mapR (\<lambda>n. ''LIMIT '' @ show_nat n) (nonNegInt v))"

definition offset_sql :: "jsval \<Rightarrow> string res" where
  "offset_sql v =
     (if nullish v \<or> \<not> (case js_number v of Some n \<Rightarrow> n > 0 | None \<Rightarrow> False) then Inr []
      else mapR (\<lambda>n. ''OFFSET '' @ show_nat n) (nonNegInt v))"

definition spaced :: "string \<Rightarrow> string \<Rightarrow> string res \<Rightarrow> string res" where
  "spaced pre post r = mapR (\<lambda>t. if t = [] then [] else pre @ t @ post) r"

definition view_select_sql :: "string option \<Rightarrow> jsval \<Rightarrow> string res" where
  "view_select_sql prefix v =
     (if nullish v then Inr ''*''
      else mapR (\<lambda>t. if t = [] then ''*'' else t) (array_then (\<lambda>cs. joinR '', '' (map (columnToSql prefix) cs)) v))"

text \<open>The keyword of a set operation and its branches.\<close>

definition set_clause_key :: "jsval \<Rightarrow> string" where
  "set_clause_key ast = (if truthy (js_get ''union'' ast) then ''union'' else if truthy (js_get ''intersect'' ast) then ''intersect'' else ''except'')"

text \<open>The entries of a WITH, each with the names in scope of its bodies: its own and those before it.\<close>

fun scoped :: "string list \<Rightarrow> jsval list \<Rightarrow> (jsval \<times> string list) list" where
  "scoped names [] = []"
| "scoped names (c # cs) = (let ns = js_string (js_get ''name'' c) # names in (c, ns) # scoped ns cs)"

definition with_scope :: "string list \<Rightarrow> jsval \<Rightarrow> string list" where
  "with_scope names w = map (\<lambda>c. js_string (js_get ''name'' c)) (arr_of w) @ names"

definition cte_columns :: "jsval \<Rightarrow> string res" where
  "cte_columns v = (if truthy v then array_then (\<lambda>cs. joinR '', '' (map (\<lambda>c. mapR dq (assertIdent c)) cs)) v else Inr [])"

lemma scoped_mem: "p \<in> set (scoped names cs) \<Longrightarrow> fst p \<in> set cs"
  by (induction names cs rule: scoped.induct) (auto simp: Let_def)

lemma size_scoped: "p \<in> set (scoped names (arr_of (js_get k v))) \<Longrightarrow> size (js_get l (fst p)) < size v"
  by (blast dest: scoped_mem intro: size_get_elem)

function view_toSql :: "string option \<Rightarrow> string list \<Rightarrow> jsval \<Rightarrow> string res" where
  "view_toSql prefix names ast =
     (if nullish ast then Inl typeError
      else if truthy (js_get ''union'' ast) \<or> truthy (js_get ''intersect'' ast) \<or> truthy (js_get ''except'' ast) then
        (let items = js_get (set_clause_key ast) ast in
         catR
           [if is_arr items
            then joinR ('' '' @ js_upper (set_clause_key ast) @ '' '') (map (\<lambda>i. catR [Inr ''('', view_toSql prefix names i, Inr '')'']) (arr_of items))
            else bindR (if is_str items then schema_check prefix else Inr []) (\<lambda>_. Inl typeError),
            spaced '' '' [] (view_order_sql None (js_get ''orderBy'' ast)),
            spaced '' '' [] (view_limit_sql (js_get ''limit'' ast)),
            spaced '' '' [] (offset_sql (js_get ''offset'' ast))])
      else
        (let w = js_get ''with'' ast; scope = (if truthy w then with_scope names w else names);
             select = js_get ''select'' ast; f = js_get ''from'' ast in
         mapR js_trim (catR
           [if \<not> truthy w then Inr []
            else if \<not> is_arr w then Inl typeError
            else catR [Inr ''WITH RECURSIVE '', joinR '', '' (map (\<lambda>p.
                if nullish (fst p) then Inl typeError
                else bindR (assertIdent (js_get ''name'' (fst p))) (\<lambda>n.
                  bindR (view_toSql prefix (snd p) (js_get ''base'' (fst p))) (\<lambda>b. catR
                    [Inr (dq n @ ''(''), cte_columns (js_get ''columns'' (fst p)), Inr ('') AS ('' @ b),
                     if truthy (js_get ''unionAll'' (fst p))
                     then mapR (\<lambda>u. '' UNION ALL '' @ u) (view_toSql prefix (snd p) (js_get ''unionAll'' (fst p))) else Inr [],
                     Inr '')'']))) (scoped names (arr_of w))), Inr '' ''],
            mapR (\<lambda>t. ''SELECT '' @ (if truthy (js_get ''distinct'' ast) then ''DISTINCT '' else []) @ t @ '' '') (view_select_sql prefix select),
            schema_check prefix,
            if nullish f then Inl typeError
            else if truthy (js_get ''query'' f) then
              (if \<not> truthy (js_get ''alias'' f) then Inl fragmentError
               else catR [Inr ''FROM ('', view_toSql prefix scope (js_get ''query'' f), Inr '') '', alias_sql [] f, Inr '' ''])
            else from_table prefix scope f,
            joins_sql prefix scope (js_get ''joins'' ast),
            view_where_sql prefix (js_get ''where'' ast),
            group_sql prefix (js_get ''groupBy'' ast),
            having_sql prefix select (js_get ''having'' ast),
            spaced [] '' '' (view_order_sql prefix (js_get ''orderBy'' ast)),
            spaced [] '' '' (view_limit_sql (js_get ''limit'' ast)),
            spaced [] '' '' (offset_sql (js_get ''offset'' ast))])))"
  by pat_completeness auto

termination
  by (relation "measure (\<lambda>(_, _, v). size v)") (auto intro: size_get_get size_scoped size_elem)

declare view_toSql.simps [simp del]

section \<open>Reading the text\<close>

text \<open>
  How a SQL reader goes through a text: outside quotes (\<open>LDash\<close> and \<open>LSlash\<close> after a character that could
  open a comment), in a string, in a quoted name. A separator or a comment opener outside quotes and a
  NUL anywhere end the reading.
\<close>

datatype lex = LTop | LDash | LSlash | LStr | LId

definition lex_step :: "lex \<Rightarrow> char \<Rightarrow> lex option" where
  "lex_step q c =
     (if c = CHR 0x00 then None
      else if q = LStr then Some (if c = squote_chr then LTop else LStr)
      else if q = LId then Some (if c = dquote then LTop else LId)
      else if c = squote_chr then Some LStr
      else if c = dquote then Some LId
      else if c = CHR '';'' \<or> q = LDash \<and> c = CHR ''-'' \<or> q = LSlash \<and> c = CHR ''*'' then None
      else Some (if c = CHR ''-'' then LDash else if c = CHR ''/'' then LSlash else LTop))"

fun scan :: "lex \<Rightarrow> string \<Rightarrow> bool" where
  "scan q [] = (q \<noteq> LStr \<and> q \<noteq> LId)"
| "scan q (c # s) = (case lex_step q c of None \<Rightarrow> False | Some q' \<Rightarrow> scan q' s)"

abbreviation single_statement :: "string \<Rightarrow> bool" where
  "single_statement s \<equiv> scan LTop s"

text \<open>A part that leaves the reader where it was.\<close>

definition neutral :: "string \<Rightarrow> bool" where
  "neutral s \<longleftrightarrow> (\<forall>r. scan LTop (s @ r) = scan LTop r)"

text \<open>A raw text whose quotes are closed; the texts of an AST under a key \<open>expression\<close>.\<close>

fun quotes :: "lex \<Rightarrow> string \<Rightarrow> bool" where
  "quotes q [] = (q \<noteq> LStr \<and> q \<noteq> LId)"
| "quotes q (c # s) =
     (if q = LStr then quotes (if c = squote_chr then LTop else LStr) s
      else if q = LId then quotes (if c = dquote then LTop else LId) s
      else quotes (if c = squote_chr then LStr else if c = dquote then LId else LTop) s)"

abbreviation balanced :: "string \<Rightarrow> bool" where
  "balanced s \<equiv> quotes LTop s"

lemma size_obj_mem: "kv \<in> set (obj_of v) \<Longrightarrow> size (snd kv) < size v"
proof (cases v)
  case (JObj kvs)
  moreover assume "kv \<in> set (obj_of v)"
  then have "kv \<in> set kvs" using JObj by simp
  then have "size (snd kv) < size (JObj kvs)" by (induction kvs) (auto split: prod.splits)
  ultimately show ?thesis by simp
qed simp_all

function raw_texts :: "jsval \<Rightarrow> string list" where
  "raw_texts v =
     (if \<not> is_obj v \<and> \<not> is_arr v then []
      else concat (map raw_texts (arr_of v))
        @ concat (map (\<lambda>kv. (if fst kv = ''expression'' then [js_string (snd kv)] else []) @ raw_texts (snd kv)) (obj_of v)))"
  by pat_completeness auto

termination
  by (relation "measure size") (auto intro: size_arr_mem size_obj_mem)

declare raw_texts.simps [simp del]

definition tame :: "jsval \<Rightarrow> bool" where
  "tame v \<longleftrightarrow> list_all balanced (raw_texts v)"

subsection \<open>Characters and parts\<close>

lemma word_steps: "is_word_chr c \<Longrightarrow> c \<noteq> CHR 0x00 \<and> c \<noteq> squote_chr \<and> c \<noteq> dquote \<and> c \<noteq> CHR '';'' \<and> c \<noteq> CHR ''-'' \<and> c \<noteq> CHR ''/'' \<and> c \<noteq> CHR ''*''"
  by (auto simp: js_chr squote_chr_def dquote_def)

lemma space_steps: "is_space c \<Longrightarrow> c \<noteq> CHR 0x00 \<and> c \<noteq> squote_chr \<and> c \<noteq> dquote \<and> c \<noteq> CHR '';'' \<and> c \<noteq> CHR ''-'' \<and> c \<noteq> CHR ''/'' \<and> c \<noteq> CHR ''*''"
  by (auto simp: js_chr squote_chr_def dquote_def)

lemma neutral_Nil [simp]: "neutral []"
  by (simp add: neutral_def)

lemma neutral_append: "neutral s \<Longrightarrow> neutral t \<Longrightarrow> neutral (s @ t)"
  by (simp add: neutral_def)

lemma neutral_concat: "(\<And>s. s \<in> set ss \<Longrightarrow> neutral s) \<Longrightarrow> neutral (concat ss)"
  by (induction ss) (auto intro: neutral_append)

lemma scan_neutral: "neutral s \<Longrightarrow> scan LTop (s @ r) = scan LTop r"
  by (simp add: neutral_def)

lemma neutral_single: "neutral s \<Longrightarrow> single_statement s"
  using scan_neutral [of s "[]"] by simp

text \<open>After a part whose quotes are closed, a character that ends no comment opener starts afresh.\<close>

lemma scan_single: "scan q s \<Longrightarrow> c \<noteq> CHR ''-'' \<Longrightarrow> c \<noteq> CHR ''*'' \<Longrightarrow> scan q (s @ c # r) = scan LTop (c # r)"
proof (induction q s rule: scan.induct)
  case (1 q)
  then show ?case by (cases q) (simp_all add: lex_step_def)
next
  case (2 q d s)
  then show ?case by (cases "lex_step q d") simp_all
qed

lemma scan_word: "list_all is_word_chr s \<Longrightarrow> scan LTop (s @ r) = scan LTop r"
  by (induction s) (auto simp: lex_step_def dest: word_steps)

lemma scan_in_id: "dquote \<notin> set s \<Longrightarrow> CHR 0x00 \<notin> set s \<Longrightarrow> scan LId (s @ dquote # r) = scan LTop r"
proof (induction s)
  case Nil
  then show ?case by (simp add: lex_step_def dquote_def)
qed (auto simp: lex_step_def)

lemma scan_in_str: "CHR 0x00 \<notin> set s \<Longrightarrow> scan LStr (double_single s @ squote_chr # r) = scan LTop r"
  by (induction s) (auto simp: lex_step_def double_single_def replace_chrs_def squote_chr_def)

lemma neutral_dq: "dquote \<notin> set s \<Longrightarrow> CHR 0x00 \<notin> set s \<Longrightarrow> neutral (dq s)"
proof -
  assume s: "dquote \<notin> set s" "CHR 0x00 \<notin> set s"
  have "scan LTop (dquote # s @ dquote # r) = scan LId (s @ dquote # r)" for r
    by (simp add: lex_step_def dquote_def squote_chr_def)
  with scan_in_id [OF s] show ?thesis by (simp add: neutral_def dq_def)
qed

lemma neutral_literal: "CHR 0x00 \<notin> set s \<Longrightarrow> neutral (squote_chr # double_single s @ [squote_chr])"
proof -
  assume s: "CHR 0x00 \<notin> set s"
  have "scan LTop (squote_chr # t) = scan LStr t" for t
    by (simp add: lex_step_def squote_chr_def)
  with scan_in_str [OF s] show ?thesis by (simp add: neutral_def)
qed

lemma neutral_word: "list_all is_word_chr s \<Longrightarrow> neutral s"
  by (simp add: neutral_def scan_word)

lemma ident_word: "assertIdent v = Inr s \<Longrightarrow> list_all is_word_chr s"
  by (cases v) (auto dest: ident_re_chars split: if_splits)

lemma word_no_quote: "list_all is_word_chr s \<Longrightarrow> dquote \<notin> set s \<and> CHR 0x00 \<notin> set s"
  using word_steps by (fastforce simp: list_all_iff)

lemma neutral_dq_word: "list_all is_word_chr s \<Longrightarrow> neutral (dq s)"
  by (rule neutral_dq) (simp_all add: word_no_quote)

lemma neutral_digits: "neutral (show_nat n)"
  using show_nat_digits [of _ n] by (intro neutral_word) (auto simp: list_all_iff js_chr)

lemma neutral_separator: "neutral '', ''" "neutral '' AND ''" "neutral ''.''" "neutral '' UNION ''" "neutral '' INTERSECT ''" "neutral '' EXCEPT ''"
  by (simp_all add: neutral_def lex_step_def squote_chr_def dquote_def)

text \<open>Joining, trimming and concatenating.\<close>

lemma single_join:
  assumes "\<And>s. s \<in> set ss \<Longrightarrow> single_statement s" "neutral (c # sep)" "c \<noteq> CHR ''-''" "c \<noteq> CHR ''*''"
  shows "single_statement (js_join (c # sep) ss)"
  using assms(1)
proof (induction "c # sep" ss rule: js_join.induct)
  case (3 p q ps)
  have "scan LTop (p @ c # sep @ js_join (c # sep) (q # ps)) = scan LTop (c # sep @ js_join (c # sep) (q # ps))"
    using 3 assms by (intro scan_single) simp_all
  also have "\<dots> = scan LTop (js_join (c # sep) (q # ps))"
    using scan_neutral [OF assms(2)] by (simp only: append_Cons [symmetric])
  finally show ?case using 3 by simp
qed simp_all

lemma scan_drop_spaces: "scan LTop (dropWhile is_space s) = scan LTop s"
proof (induction s)
  case (Cons c s)
  show ?case
  proof (cases "is_space c")
    case True
    with space_steps [OF True] have "lex_step LTop c = Some LTop" by (simp add: lex_step_def)
    with True Cons show ?thesis by simp
  qed simp
qed simp

lemma scan_spaces_in: "list_all is_space s \<Longrightarrow> q = LStr \<or> q = LId \<Longrightarrow> \<not> scan q s"
  by (induction s arbitrary: q) (auto simp: lex_step_def dest: space_steps)

lemma scan_cut_spaces: "scan q (s @ t) \<Longrightarrow> list_all is_space t \<Longrightarrow> scan q s"
proof (induction q s rule: scan.induct)
  case (1 q)
  then show ?case using scan_spaces_in [of t q] by auto
next
  case (2 q c s)
  then show ?case by (cases "lex_step q c") simp_all
qed

lemma single_trim: "single_statement s \<Longrightarrow> single_statement (js_trim s)"
proof -
  assume s: "single_statement s"
  define t where "t = dropWhile is_space s"
  have "rev t = takeWhile is_space (rev t) @ dropWhile is_space (rev t)" by simp
  then have "t = js_trim s @ rev (takeWhile is_space (rev t))"
    unfolding js_trim_def t_def by (metis rev_append rev_rev_ident)
  moreover have "scan LTop t" using s by (simp add: t_def scan_drop_spaces)
  moreover have "list_all is_space (rev (takeWhile is_space (rev t)))"
    by (auto simp: list_all_iff dest: set_takeWhileD)
  ultimately show ?thesis by (metis scan_cut_spaces)
qed

lemma catR_Inr: "catR rs = Inr t \<longleftrightarrow> (\<exists>ss. list_all2 (\<lambda>r s. r = Inr s) rs ss \<and> t = concat ss)"
  by (auto simp: catR_def mapMR_Inr)

lemma catR_neutral: "catR rs = Inr t \<Longrightarrow> (\<And>r s. r \<in> set rs \<Longrightarrow> r = Inr s \<Longrightarrow> neutral s) \<Longrightarrow> neutral t"
  by (force simp: catR_Inr list_all2_conv_all_nth in_set_conv_nth intro!: neutral_concat)

lemma joinR_single:
  "joinR (c # sep) (map f xs) = Inr t \<Longrightarrow> neutral (c # sep) \<Longrightarrow> c \<noteq> CHR ''-'' \<Longrightarrow> c \<noteq> CHR ''*'' \<Longrightarrow>
   (\<And>x s. x \<in> set xs \<Longrightarrow> f x = Inr s \<Longrightarrow> single_statement s) \<Longrightarrow> single_statement t"
  by (force simp: joinR_def mapMR_Inr list_all2_conv_all_nth in_set_conv_nth intro!: single_join)

subsection \<open>Names, values and raw texts\<close>

lemma quotes_scan:
  assumes "quotes (if q = LDash \<or> q = LSlash then LTop else q) s" "CHR 0x00 \<notin> set s" "CHR '';'' \<notin> set s"
    "\<not> str_includes s ''--''" "\<not> str_includes s ''/*''"
    "q = LDash \<longrightarrow> \<not> starts_with s ''-''" "q = LSlash \<longrightarrow> \<not> starts_with s ''*''"
  shows "scan q s"
  using assms
proof (induction s arbitrary: q)
  case Nil
  then show ?case by (cases q) simp_all
next
  case (Cons c s)
  from Cons.prems have c: "c \<noteq> CHR 0x00" "c \<noteq> CHR '';''" and rest: "CHR 0x00 \<notin> set s" "CHR '';'' \<notin> set s" "\<not> str_includes s ''--''" "\<not> str_includes s ''/*''"
    and open_: "c = CHR ''-'' \<longrightarrow> \<not> starts_with s ''-''" "c = CHR ''/'' \<longrightarrow> \<not> starts_with s ''*''"
    and pre: "q = LDash \<longrightarrow> c \<noteq> CHR ''-''" "q = LSlash \<longrightarrow> c \<noteq> CHR ''*''"
    by auto
  have "lex_step q c \<noteq> None" using c pre by (auto simp: lex_step_def)
  then obtain q' where q': "lex_step q c = Some q'" by auto
  have "q' = LDash \<longrightarrow> \<not> starts_with s ''-''" "q' = LSlash \<longrightarrow> \<not> starts_with s ''*''"
    using q' open_ by (auto simp: lex_step_def split: if_splits)
  moreover have "quotes (if q' = LDash \<or> q' = LSlash then LTop else q') s"
    using q' Cons.prems(1) c pre by (cases q) (auto simp: lex_step_def squote_chr_def dquote_def split: if_splits)
  ultimately have "scan q' s" using rest by (intro Cons.IH)
  with q' show ?case by simp
qed

lemma fragment_single: "fragment v = Inr s \<Longrightarrow> balanced (js_string (coalesce v (JStr []))) \<Longrightarrow> single_statement s"
  by (auto simp: fragment_def Let_def intro!: quotes_scan split: if_splits)

lemma tame_get: "tame v \<Longrightarrow> tame (js_get k v)"
proof (cases "\<exists>x. v = JObj x \<and> kv_get k x \<noteq> None")
  case True
  then obtain kvs x where v: "v = JObj kvs" "kv_get k kvs = Some x" by auto
  then have "(k, x) \<in> set kvs" by (simp add: kv_get_in)
  moreover assume "tame v"
  ultimately show ?thesis using v
    by (fastforce simp: tame_def raw_texts.simps [of "JObj kvs"] list_all_iff js_get_def)
next
  case False
  then have "js_get k v = JUndef" by (cases v) (auto simp: js_get_def split: option.splits)
  then show ?thesis by (simp add: tame_def raw_texts.simps [of JUndef])
qed

lemma tame_elem: "tame v \<Longrightarrow> x \<in> set (arr_of v) \<Longrightarrow> tame x"
  by (cases "is_arr v") (fastforce simp: tame_def raw_texts.simps [of v] list_all_iff arr_of_not_arr)+

lemma tame_raw:
  assumes "tame v" "truthy (js_get ''expression'' v)"
  shows "balanced (js_string (coalesce (js_get ''expression'' v) (JStr [])))"
proof -
  obtain kvs where v: "v = JObj kvs" using truthy_get [OF assms(2)] by (cases v) simp_all
  obtain x where x: "kv_get ''expression'' kvs = Some x" using assms(2) v by (cases "kv_get ''expression'' kvs") (simp_all add: js_get_def)
  then have "(''expression'', x) \<in> set kvs" by (rule kv_get_in)
  with assms(1) v have "balanced (js_string x)" by (fastforce simp: tame_def raw_texts.simps [of "JObj kvs"] list_all_iff)
  with v x assms(2) show ?thesis by (cases x) (simp_all add: js_get_def coalesce_def)
qed

lemma qualify_single:
  assumes "view_qualify prefix path = Inr v"
  shows "single_statement (js_string v)"
proof (cases "\<not> truthy path \<or> path = JStr ''*''")
  case True
  then have "v = path" using assms by (auto simp: view_qualify_def split: if_splits)
  moreover have "show_rat 0 = ''0''" by code_simp
  ultimately show ?thesis using True by (cases path) (auto simp: lex_step_def squote_chr_def dquote_def)
next
  case False
  then obtain s where s: "path = JStr s" "pathOf path = Inr s" "s \<noteq> ''*''"
    and v: "v = JStr (if CHR ''.'' \<in> set s
                   then js_join ''.'' (map (\<lambda>p. if starts_with p [dquote] \<and> ends_with p [dquote] then p else dq p) (split_chr CHR ''.'' s))
                   else if \<not> prefixed prefix then s
                   else dq (filter (\<lambda>c. c \<noteq> dquote) s))"
    using assms by (cases path) (auto simp: view_qualify_def pathOf_def Let_def split: if_splits)
  let ?ps = "split_chr CHR ''.'' s"
  have parts: "dquote \<notin> set p \<and> CHR 0x00 \<notin> set p \<and> (length ?ps = 1 \<longrightarrow> list_all is_word_chr p)" if "p \<in> set ?ps" for p
  proof -
    from that obtain i where i: "i < length ?ps" "p = ?ps ! i" by (auto simp: in_set_conv_nth)
    with s have "?ps ! i = ''*'' \<and> length ?ps > 1 \<or> ident_re (?ps ! i)"
      by (fastforce simp: pathOf_def Let_def eachR_Inr assertIdent_Inr split: if_splits)
    then show ?thesis using i word_no_quote [of p] ident_re_chars [of p] by (auto simp: dquote_def)
  qed
  show ?thesis
  proof (cases "CHR ''.'' \<in> set s")
    case True
    have "map (\<lambda>p. if starts_with p [dquote] \<and> ends_with p [dquote] then p else dq p) ?ps = map dq ?ps"
      using parts by (force simp: starts_with_iff)
    moreover have "single_statement t" if "t \<in> set (map dq ?ps)" for t
      using that parts by (auto intro: neutral_single neutral_dq)
    ultimately have "single_statement (js_join ''.'' (map (\<lambda>p. if starts_with p [dquote] \<and> ends_with p [dquote] then p else dq p) ?ps))"
      using neutral_separator(3) by (simp only:) (rule single_join, simp_all)
    with v True show ?thesis by simp
  next
    case False
    then have "list_all is_word_chr s" using parts [of s] by (simp add: split_no_sep)
    then have "neutral s" "neutral (dq (filter (\<lambda>c. c \<noteq> dquote) s))"
      by (auto simp: list_all_iff intro!: neutral_word neutral_dq_word)
    with v False show ?thesis by (simp add: neutral_single)
  qed
qed

lemma qualified_single: "qualified_text prefix path = Inr s \<Longrightarrow> single_statement s"
  by (auto simp: qualified_text_def dest: qualify_single)

lemma joined_single: "joined_text prefix path = Inr s \<Longrightarrow> single_statement s"
  by (auto simp: joined_text_def dest: qualify_single)

lemma dir_neutral: "dir d = Inr s \<Longrightarrow> neutral s"
  by (rule neutral_word) (auto simp: dir_def Let_def js_chr split: if_splits)

lemma list_neutral: "list_all (list_all is_word_chr) ws \<Longrightarrow> w \<in> set ws \<Longrightarrow> neutral w"
  by (auto simp: list_all_iff intro!: neutral_word)

lemma keyword_neutral:
  "w \<in> set VIEW_AGGREGATES \<Longrightarrow> neutral w" "w \<in> set VIEW_WINDOWS \<Longrightarrow> neutral w" "w \<in> set VIEW_JOINS \<Longrightarrow> neutral w"
  by (erule list_neutral [rotated], code_simp)+

lemma mapOp_neutral: "mapOp v = Inr s \<Longrightarrow> neutral s"
proof -
  assume "mapOp v = Inr s"
  then have "s \<in> snd ` set OPERATOR_MAP" by (force simp: mapOp_def dest: kv_get_in split: option.splits)
  then show ?thesis by (auto simp: OPERATOR_MAP_def neutral_def lex_step_def squote_chr_def dquote_def)
qed

lemma literal_single: "literal v = Inr s \<Longrightarrow> single_statement s"
proof (induction v arbitrary: s rule: literal.induct)
  case (1 v)
  consider "nullish v" | "\<not> nullish v" "is_arr v" | "\<not> nullish v" "\<not> is_arr v" by blast
  then show ?case
  proof cases
    case 2
    with "1.prems" obtain t where t: "joinR '', '' (map literal (arr_of v)) = Inr t" "s = ''('' @ t @ '')''"
      by (auto simp: literal.simps [of v] catR_def)
    have "single_statement t"
      by (rule joinR_single [OF t(1)]) (use 2 "1.IH" in \<open>auto simp: neutral_separator\<close>)
    then show ?thesis by (simp add: t(2) lex_step_def squote_chr_def dquote_def scan_single)
  next
    case 3
    with "1.prems" show ?thesis
      by (auto simp: literal.simps [of v] Let_def split: if_splits intro!: neutral_single neutral_literal)
  next
    case 1
    with "1.prems" have "s = ''NULL''" by (simp add: literal.simps)
    then show ?thesis by (simp add: lex_step_def squote_chr_def dquote_def)
  qed
qed

subsection \<open>Clauses\<close>

text \<open>The reader steps over the constants of a template.\<close>

lemmas reader_steps = lex_step_def squote_chr_def dquote_def scan_single scan_neutral

lemma alias_neutral: "alias_sql pre v = Inr s \<Longrightarrow> neutral pre \<Longrightarrow> neutral s"
proof -
  assume pre: "neutral pre" and "alias_sql pre v = Inr s"
  then consider "s = []" | a where "assertIdent (js_get ''alias'' v) = Inr a" "s = pre @ ''AS '' @ dq a"
    by (auto simp: alias_sql_def split: if_splits)
  then show "neutral s"
  proof cases
    case 2
    have "neutral ''AS ''" by (simp add: neutral_def reader_steps)
    with 2 pre show ?thesis by (metis neutral_append neutral_dq_word ident_word)
  qed simp
qed

lemma neutral_space: "neutral '' ''"
  by (simp add: neutral_def reader_steps)

lemma single_alias:
  assumes "single_statement e" "alias_sql '' '' v = Inr a"
  shows "single_statement (e @ a)"
proof -
  have "a = [] \<or> (\<exists>b. a = CHR '' '' # b)" using assms(2) by (auto simp: alias_sql_def split: if_splits)
  moreover have "single_statement a" using alias_neutral [OF assms(2) neutral_space] by (rule neutral_single)
  ultimately show ?thesis using assms(1) by (auto simp: scan_single)
qed

lemma aggregate_single: "aggregateExpr prefix c = Inr s \<Longrightarrow> single_statement s"
  by (auto simp: aggregateExpr_def Let_def reader_steps keyword_neutral dest!: qualified_single split: if_splits)

lemma order_items_single: "order_items prefix ps = Inr s \<Longrightarrow> single_statement s"
  unfolding order_items_def
  by (erule joinR_single [OF _ neutral_separator(1)])
    (auto simp: catR_def reader_steps neutral_single dest!: qualified_single dir_neutral split: if_splits)

lemma joined_list_single: "joinR '', '' (map (joined_text prefix) ps) = Inr s \<Longrightarrow> single_statement s"
  by (erule joinR_single [OF _ neutral_separator(1)]) (auto dest: joined_single)

lemma optional_list:
  "(if b then array_then (\<lambda>ps. catR (Inr k # f ps # rs)) v else Inr []) = Inr t \<Longrightarrow>
   t = [] \<or> (\<exists>ps u e. f ps = Inr u \<and> catR rs = Inr e \<and> t = k @ u @ e)"
  by (auto simp: array_then_def catR_def split: if_splits jsval.splits)

lemma window_single:
  assumes "windowSql prefix c = Inr s"
  shows "single_statement s"
proof -
  let ?win = "js_upper (js_string (js_get ''window'' c))"
  from assms have win: "?win \<in> set VIEW_WINDOWS" by (auto simp: windowSql_def Let_def split: if_splits)
  with assms obtain part ord a where
    part: "(if truthy (js_get ''partitionBy'' c)
        then array_then (\<lambda>ps. catR [Inr ''PARTITION BY '', joinR '', '' (map (joined_text prefix) ps), Inr '' '']) (js_get ''partitionBy'' c)
        else Inr []) = Inr part"
    and ord: "(if truthy (js_get ''orderBy'' c)
         then array_then (\<lambda>os. catR [Inr ''ORDER BY '', order_items prefix os]) (js_get ''orderBy'' c)
         else Inr []) = Inr ord"
    and a: "alias_sql '' '' c = Inr a" and s: "s = (?win @ ''() OVER ('' @ part @ ord @ '')'') @ a"
    by (auto simp: windowSql_def Let_def catR_def [of "_ # _ # _ # _ # _ # []"])
  have "scan LTop (ord @ '')'')"
    using optional_list [OF ord] by (auto simp: catR_def reader_steps dest!: order_items_single)
  moreover from this have "scan LTop (part @ ord @ '')'')"
    using optional_list [OF part] by (auto simp: catR_def reader_steps dest!: joined_list_single)
  ultimately have "single_statement (?win @ ''() OVER ('' @ part @ ord @ '')'')"
    using keyword_neutral(2) [OF win] by (simp add: reader_steps)
  then show ?thesis unfolding s using a by (rule single_alias)
qed

lemma column_single: "columnToSql prefix c = Inr s \<Longrightarrow> tame c \<Longrightarrow> single_statement s"
  by (auto simp: columnToSql_def catR_def split: if_splits
      intro: joined_single window_single aggregate_single qualified_single fragment_single [OF _ tame_raw]
      intro!: single_alias [rotated])

lemma operator_single:
  assumes "mapOp v = Inr op'" "single_statement e"
  shows "single_statement (e @ '' '' @ op')" "single_statement t \<Longrightarrow> single_statement (e @ '' '' @ op' @ '' '' @ t)"
  using assms mapOp_neutral [OF assms(1)] by (simp_all add: reader_steps neutral_single)

lemma if_Inr: "(if b then Inr x else r) = Inr s \<Longrightarrow> single_statement x \<Longrightarrow> (r = Inr s \<Longrightarrow> single_statement s) \<Longrightarrow> single_statement s"
  by (cases b) auto

lemma if_either: "(if b then x else y) = Inr s \<Longrightarrow> (x = Inr s \<Longrightarrow> Q) \<Longrightarrow> (y = Inr s \<Longrightarrow> Q) \<Longrightarrow> Q"
  by (cases b) auto

lemma comparison_single:
  assumes "comparison prefix column operator value = Inr s"
  shows "single_statement s"
proof -
  obtain op' col where op': "mapOp operator = Inr op'" and col: "qualified_text prefix column = Inr col"
    using assms by (auto simp: comparison_def)
  have lit: "mapR (\<lambda>t. col @ '' '' @ op' @ '' '' @ t) r = Inr s \<Longrightarrow> (\<And>t. r = Inr t \<Longrightarrow> single_statement t) \<Longrightarrow> single_statement s" for r
    using operator_single(2) [OF op' qualified_single [OF col]] by auto
  have eq: "(if op' = ''IS NULL'' \<or> op' = ''IS NOT NULL'' then Inr (col @ '' '' @ op')
       else if nullish value \<and> op' \<in> {''='', ''!='', ''<>''}
       then Inr (col @ '' IS '' @ (if op' = ''='' then [] else ''NOT '') @ ''NULL'')
       else if op' = ''IN'' \<or> op' = ''NOT IN'' then
         (let arr = (case value of JArr xs \<Rightarrow> xs | _ \<Rightarrow> [value]) in
          if arr = [] then Inr (if op' = ''IN'' then ''1 = 0'' else ''1 = 1'')
          else mapR (\<lambda>t. col @ '' '' @ op' @ '' '' @ t) (literal (JArr arr)))
       else mapR (\<lambda>t. col @ '' '' @ op' @ '' '' @ t) (literal value)) = Inr s"
    using assms unfolding comparison_def op' col bindR.simps .
  have parts: "single_statement (col @ '' '' @ op')" "single_statement (col @ '' IS '' @ (if op' = ''='' then [] else ''NOT '') @ ''NULL'')"
    "single_statement (if op' = ''IN'' then ''1 = 0'' else ''1 = 1'')"
    using operator_single(1) [OF op' qualified_single [OF col]] qualified_single [OF col] by (simp_all add: reader_steps)
  from eq show ?thesis
    unfolding Let_def
    by (elim if_Inr if_either) (use parts in \<open>blast intro: lit literal_single\<close>)+
qed

lemma where_single:
  assumes "whereToSql prefix w = Inr s" "tame w"
  shows "single_statement s"
proof (cases "\<not> truthy (js_get ''expression'' w) \<and> truthy (js_get ''search'' w)")
  case True
  with assms obtain col t where "qualified_text prefix (js_get ''column'' (js_get ''search'' w)) = Inr col"
      "literal (JStr (js_string (coalesce (js_get ''query'' (js_get ''search'' w)) (JStr [])))) = Inr t"
    and s: "s = (''to_tsvector('' @ [squote_chr] @ ''english'' @ [squote_chr] @ '', '') @ col
        @ ('') @@ plainto_tsquery('' @ [squote_chr] @ ''english'' @ [squote_chr] @ '', '') @ t @ '')''"
    by (auto simp: whereToSql_def catR_def split: if_splits)
  then have "single_statement col" "single_statement t" by (auto dest: qualified_single literal_single)
  then show ?thesis unfolding s by (simp add: reader_steps)
next
  case False
  with assms show ?thesis
    by (auto simp: whereToSql_def split: if_splits intro: fragment_single [OF _ tame_raw] comparison_single)
qed

lemma having_single:
  assumes "havingToSql prefix select h = Inr s"
  shows "single_statement s"
proof -
  from assms show ?thesis
    by (auto simp: havingToSql_def Let_def split: if_splits option.splits
        intro: operator_single [unfolded append.simps] aggregate_single literal_single comparison_single)
qed

definition checked :: "string option \<Rightarrow> bool" where
  "checked prefix \<longleftrightarrow> (\<forall>p. prefix = Some p \<longrightarrow> list_all is_word_chr p)"

lemma schema_checked: "schema_check prefix = Inr s \<Longrightarrow> checked prefix \<and> s = []"
  by (auto simp: schema_check_def checked_def dest: ident_re_chars split: option.splits if_splits)

lemma neutral_dot: "neutral (CHR ''.'' # s) = neutral s"
  by (simp add: neutral_def reader_steps)

lemma table_neutral: "checked prefix \<Longrightarrow> list_all is_word_chr r \<Longrightarrow> neutral (table_text prefix scope r)"
  by (auto simp: table_text_def checked_def neutral_dot neutral_dq_word intro!: neutral_append split: option.splits)

lemma source_neutral: "SOURCE_RE s \<Longrightarrow> neutral (dq s)"
  using word_no_quote by (intro neutral_dq) (fastforce simp: SOURCE_RE_def list_all_iff js_chr dquote_def split: list.splits)+

lemma from_neutral:
  assumes "from_table prefix scope f = Inr s" "checked prefix"
  shows "neutral s"
proof -
  let ?st = "js_string (js_get ''source'' f)"
  obtain r where r: "assertIdent (js_get ''resource'' f) = Inr r" using assms(1) by (auto simp: from_table_def)
  define t where "t = (if truthy (js_get ''source'' f) then (if plain_word ?st then ?st else dq ?st) @ ''.'' @ r else table_text prefix scope r)"
  have "truthy (js_get ''source'' f) \<Longrightarrow> SOURCE_RE ?st"
    using assms(1) r by (cases "js_get ''source'' f") (auto simp: from_table_def Let_def split: if_splits)
  moreover have "plain_word ?st \<Longrightarrow> neutral ?st"
    by (rule neutral_word) (auto simp: plain_word_def ident_start_word split: list.splits)
  ultimately have t: "neutral t"
    using assms(2) ident_word [OF r] neutral_word [OF ident_word [OF r]]
    by (simp add: t_def table_neutral source_neutral neutral_append neutral_dot)
  obtain a where a: "alias_sql [] f = Inr a" and s: "s = ''FROM '' @ t @ '' '' @ a @ '' ''"
    using assms(1) r by (auto simp: from_table_def Let_def catR_def t_def split: if_splits)
  show ?thesis using t alias_neutral [OF a] unfolding s neutral_def by (simp add: reader_steps)
qed

lemma join_neutral:
  assumes "view_join_sql prefix scope j = Inr s" "checked prefix"
  shows "neutral s"
proof -
  obtain r where r: "assertIdent (js_get ''resource'' j) = Inr r" using assms(1) by (auto simp: view_join_sql_def split: if_splits)
  define t where "t = table_text prefix scope r"
  obtain ty a x op' y where ty: "ty \<in> set VIEW_JOINS" and a: "alias_sql [] j = Inr a"
    and x: "qualified_text prefix (js_get ''left'' (js_get ''on'' j)) = Inr x" and op': "mapOp (js_get ''operator'' (js_get ''on'' j)) = Inr op'"
    and y: "qualified_text prefix (js_get ''right'' (js_get ''on'' j)) = Inr y"
    and s: "s = ty @ '' JOIN '' @ t @ '' '' @ a @ '' ON '' @ x @ '' '' @ op' @ '' '' @ y @ '' ''"
    using assms(1) r by (auto simp: view_join_sql_def Let_def catR_def t_def split: if_splits)
  have "neutral t" using assms(2) r by (auto simp: t_def dest!: ident_word intro: table_neutral)
  then show ?thesis
    using alias_neutral [OF a neutral_Nil] qualified_single [OF x] qualified_single [OF y] mapOp_neutral [OF op'] keyword_neutral(3) [OF ty]
    unfolding s neutral_def by (simp add: reader_steps)
qed

lemma catR_map_neutral: "catR (map f xs) = Inr t \<Longrightarrow> (\<And>x s. x \<in> set xs \<Longrightarrow> f x = Inr s \<Longrightarrow> neutral s) \<Longrightarrow> neutral t"
  by (erule catR_neutral) auto

lemma joins_neutral: "joins_sql prefix scope v = Inr s \<Longrightarrow> checked prefix \<Longrightarrow> neutral s"
  by (auto simp: joins_sql_def split: if_splits jsval.splits elim!: catR_map_neutral intro: join_neutral)

lemma clause_cases: "clause P f v = Inr s \<Longrightarrow> s = [] \<or> (\<exists>xs. v = JArr xs \<and> f xs = Inr s)"
  by (auto simp: clause_def array_then_def split: if_splits jsval.splits)

lemma keyword_list:
  "catR [Inr k, joinR (c # sep) (map f xs), Inr '' ''] = Inr s \<Longrightarrow> neutral k \<Longrightarrow> neutral (c # sep) \<Longrightarrow> c \<noteq> CHR ''-'' \<Longrightarrow> c \<noteq> CHR ''*'' \<Longrightarrow>
   (\<And>x t. x \<in> set xs \<Longrightarrow> f x = Inr t \<Longrightarrow> single_statement t) \<Longrightarrow> neutral s"
  by (auto simp: catR_def neutral_def [of "_ @ _"] reader_steps dest!: joinR_single)

lemma neutral_keywords: "neutral ''WHERE ''" "neutral ''GROUP BY ''" "neutral ''HAVING ''"
  by (simp_all add: neutral_def reader_steps)

lemma tame_arr: "tame (JArr xs) \<Longrightarrow> x \<in> set xs \<Longrightarrow> tame x"
  using tame_elem [of "JArr xs"] by simp

lemma where_neutral: "view_where_sql prefix v = Inr s \<Longrightarrow> tame v \<Longrightarrow> neutral s"
  unfolding view_where_sql_def
  by (drule clause_cases)
    (auto elim!: keyword_list [OF _ neutral_keywords(1) neutral_separator(2)] intro: where_single tame_arr)

lemma group_neutral: "group_sql prefix v = Inr s \<Longrightarrow> neutral s"
  unfolding group_sql_def
  by (drule clause_cases)
    (auto elim!: keyword_list [OF _ neutral_keywords(2) neutral_separator(1)] intro: joined_single)

lemma having_neutral: "having_sql prefix select v = Inr s \<Longrightarrow> neutral s"
  unfolding having_sql_def
  by (auto elim!: keyword_list [OF _ neutral_keywords(3) neutral_separator(2)] intro: having_single
      simp del: list.map split: jsval.splits list.splits)

lemma order_single: "view_order_sql prefix v = Inr s \<Longrightarrow> single_statement s"
  unfolding view_order_sql_def
  by (drule clause_cases) (auto simp: catR_def reader_steps dest!: order_items_single)

lemma limit_single: "view_limit_sql v = Inr s \<Longrightarrow> single_statement s" "offset_sql v = Inr s \<Longrightarrow> single_statement s"
  using neutral_single [OF neutral_digits] by (auto simp: view_limit_sql_def offset_sql_def reader_steps split: if_splits)

lemma spaced_neutral: "spaced [] '' '' r = Inr s \<Longrightarrow> (\<And>t. r = Inr t \<Longrightarrow> single_statement t) \<Longrightarrow> neutral s"
  by (auto simp: spaced_def neutral_def reader_steps)

lemma spaced_after: "spaced '' '' [] r = Inr s \<Longrightarrow> (\<And>t. r = Inr t \<Longrightarrow> single_statement t) \<Longrightarrow> single_statement e \<Longrightarrow> single_statement (e @ s)"
  by (auto simp: spaced_def reader_steps)

lemma select_neutral: "view_select_sql prefix v = Inr t \<Longrightarrow> tame v \<Longrightarrow> neutral (''SELECT '' @ (if d then ''DISTINCT '' else []) @ t @ '' '')"
proof -
  assume t: "view_select_sql prefix v = Inr t" and v: "tame v"
  have "single_statement t" if "joinR '', '' (map (columnToSql prefix) xs) = Inr t" "v = JArr xs" for t xs
    using that(1) by (rule joinR_single [OF _ neutral_separator(1)]) (use v that(2) in \<open>auto intro: column_single tame_arr\<close>)
  then have "single_statement t"
    using t by (auto simp: view_select_sql_def array_then_def reader_steps split: if_splits jsval.splits)
  then show ?thesis by (simp add: neutral_def reader_steps)
qed

lemma columns_single: "cte_columns v = Inr s \<Longrightarrow> single_statement s"
proof -
  have "single_statement t" if "mapR dq (assertIdent c) = Inr t" for c t
    using that by (auto dest!: ident_word intro: neutral_single neutral_dq_word)
  moreover assume "cte_columns v = Inr s"
  ultimately show ?thesis
    by (auto simp: cte_columns_def array_then_def simp del: mapR_Inr split: if_splits jsval.splits
        elim!: joinR_single [OF _ neutral_separator(1)])
qed

subsection \<open>A compiled query is one statement\<close>

lemma set_separator:
  "joinR ('' '' @ js_upper (set_clause_key ast) @ '' '') (map f xs) = Inr t \<Longrightarrow>
   (\<And>x s. x \<in> set xs \<Longrightarrow> f x = Inr s \<Longrightarrow> single_statement s) \<Longrightarrow> single_statement t"
proof -
  have "'' '' @ js_upper (set_clause_key ast) @ '' '' \<in> {'' UNION '', '' INTERSECT '', '' EXCEPT ''}"
  proof -
    have "js_upper ''union'' = ''UNION''" "js_upper ''intersect'' = ''INTERSECT''" "js_upper ''except'' = ''EXCEPT''" by code_simp+
    then show ?thesis by (simp add: set_clause_key_def)
  qed
  then show "joinR ('' '' @ js_upper (set_clause_key ast) @ '' '') (map f xs) = Inr t \<Longrightarrow>
     (\<And>x s. x \<in> set xs \<Longrightarrow> f x = Inr s \<Longrightarrow> single_statement s) \<Longrightarrow> single_statement t"
    using neutral_separator(4-6) by (auto elim!: joinR_single)
qed

lemma bracketed: "single_statement t \<Longrightarrow> single_statement (''('' @ t @ '')'')"
  by (simp add: reader_steps)

lemma cte_neutral:
  assumes "single_statement b" "single_statement cols" "u = [] \<or> (\<exists>t. single_statement t \<and> u = '' UNION ALL '' @ t)" "list_all is_word_chr n"
  shows "single_statement (dq n @ ''('' @ cols @ '') AS ('' @ b @ u @ '')'')"
proof -
  have "scan LTop (b @ u @ '')'')" using assms(1,3) by (auto simp: reader_steps)
  then show ?thesis using assms(2) scan_neutral [OF neutral_dq_word [OF assms(4)]] by (simp add: reader_steps)
qed

lemma set_operation_single:
  assumes "\<And>i t. i \<in> set (arr_of (js_get (set_clause_key ast) ast)) \<Longrightarrow> view_toSql prefix names i = Inr t \<Longrightarrow> single_statement t"
    and "view_toSql prefix names ast = Inr s" "truthy (js_get ''union'' ast) \<or> truthy (js_get ''intersect'' ast) \<or> truthy (js_get ''except'' ast)"
  shows "single_statement s"
proof -
  let ?items = "js_get (set_clause_key ast) ast"
  have "\<not> nullish ast" using assms(3) by (cases ast) (auto simp: js_get_def)
  with assms(2,3) obtain a b c d where
    a: "(if is_arr ?items
          then joinR ('' '' @ js_upper (set_clause_key ast) @ '' '') (map (\<lambda>i. catR [Inr ''('', view_toSql prefix names i, Inr '')'']) (arr_of ?items))
          else bindR (if is_str ?items then schema_check prefix else Inr []) (\<lambda>_. Inl typeError)) = Inr a"
    and b: "spaced '' '' [] (view_order_sql None (js_get ''orderBy'' ast)) = Inr b"
    and c: "spaced '' '' [] (view_limit_sql (js_get ''limit'' ast)) = Inr c"
    and d: "spaced '' '' [] (offset_sql (js_get ''offset'' ast)) = Inr d"
    and s: "s = ((a @ b) @ c) @ d"
    by (auto simp: view_toSql.simps [of prefix names ast] Let_def catR_def [of "_ # _ # _ # _ # []"])
  have "single_statement t" if "catR [Inr ''('', view_toSql prefix names i, Inr '')''] = Inr t" "i \<in> set (arr_of ?items)" for i t
    using that assms(1) bracketed by (auto simp: catR_def)
  moreover have "is_arr ?items" using a by (auto split: if_splits)
  then have "joinR ('' '' @ js_upper (set_clause_key ast) @ '' '') (map (\<lambda>i. catR [Inr ''('', view_toSql prefix names i, Inr '')'']) (arr_of ?items)) = Inr a"
    using a by (simp only: if_True)
  ultimately have "single_statement a" by (rule set_separator [rotated])
  then have "single_statement (a @ b)" using order_single by (rule spaced_after [OF b, rotated])
  then have "single_statement ((a @ b) @ c)" using limit_single(1) by (rule spaced_after [OF c, rotated])
  then show ?thesis unfolding s using limit_single(2) by (rule spaced_after [OF d, rotated])
qed

lemma with_neutral:
  assumes "\<And>k sc p t. p \<in> set (scoped names (arr_of w)) \<Longrightarrow> view_toSql prefix sc (js_get k (fst p)) = Inr t \<Longrightarrow> single_statement t"
    and "(if \<not> truthy w then Inr []
            else if \<not> is_arr w then Inl typeError
            else catR [Inr ''WITH RECURSIVE '', joinR '', '' (map (\<lambda>p.
                if nullish (fst p) then Inl typeError
                else bindR (assertIdent (js_get ''name'' (fst p))) (\<lambda>n.
                  bindR (view_toSql prefix (snd p) (js_get ''base'' (fst p))) (\<lambda>b. catR
                    [Inr (dq n @ ''(''), cte_columns (js_get ''columns'' (fst p)), Inr ('') AS ('' @ b),
                     if truthy (js_get ''unionAll'' (fst p))
                     then mapR (\<lambda>u. '' UNION ALL '' @ u) (view_toSql prefix (snd p) (js_get ''unionAll'' (fst p))) else Inr [],
                     Inr '')'']))) (scoped names (arr_of w))), Inr '' '']) = Inr s"
  shows "neutral s"
proof -
  let ?cte = "\<lambda>p. if nullish (fst p) then Inl typeError
                else bindR (assertIdent (js_get ''name'' (fst p))) (\<lambda>n.
                  bindR (view_toSql prefix (snd p) (js_get ''base'' (fst p))) (\<lambda>b. catR
                    [Inr (dq n @ ''(''), cte_columns (js_get ''columns'' (fst p)), Inr ('') AS ('' @ b),
                     if truthy (js_get ''unionAll'' (fst p))
                     then mapR (\<lambda>u. '' UNION ALL '' @ u) (view_toSql prefix (snd p) (js_get ''unionAll'' (fst p))) else Inr [],
                     Inr '')'']))"
  have cte: "single_statement t" if p: "p \<in> set (scoped names (arr_of w))" and t: "?cte p = Inr t" for p t
  proof -
    obtain n b cols u where n: "assertIdent (js_get ''name'' (fst p)) = Inr n" and b: "view_toSql prefix (snd p) (js_get ''base'' (fst p)) = Inr b"
      and cols: "cte_columns (js_get ''columns'' (fst p)) = Inr cols"
      and u: "(if truthy (js_get ''unionAll'' (fst p))
               then mapR (\<lambda>u. '' UNION ALL '' @ u) (view_toSql prefix (snd p) (js_get ''unionAll'' (fst p))) else Inr []) = Inr u"
      and t': "t = dq n @ ''('' @ cols @ '') AS ('' @ b @ u @ '')''"
      using t by (auto simp: catR_def [of "_ # _ # _ # _ # _ # []"] split: if_splits)
    have "u = [] \<or> (\<exists>t. single_statement t \<and> u = '' UNION ALL '' @ t)"
      using u assms(1) [OF p] by (auto split: if_splits)
    then show ?thesis unfolding t' using assms(1) [OF p b] columns_single [OF cols] ident_word [OF n] by (intro cte_neutral)
  qed
  have "neutral ''WITH RECURSIVE ''" by (simp add: neutral_def reader_steps)
  then show ?thesis
    using assms(2) keyword_list [OF _ _ neutral_separator(1), of "''WITH RECURSIVE ''" ?cte "scoped names (arr_of w)" s] cte
    by (simp split: if_splits)
qed

lemma derived_neutral: "single_statement t \<Longrightarrow> neutral a \<Longrightarrow> neutral (''FROM ('' @ t @ '') '' @ a @ '' '')"
  unfolding neutral_def by (simp add: reader_steps)

lemma select_single:
  assumes sub: "\<And>ns v t. size v < size ast \<Longrightarrow> tame v \<Longrightarrow> view_toSql prefix ns v = Inr t \<Longrightarrow> single_statement t"
    and s: "view_toSql prefix names ast = Inr s" and ast: "tame ast"
    and no_set: "\<not> (truthy (js_get ''union'' ast) \<or> truthy (js_get ''intersect'' ast) \<or> truthy (js_get ''except'' ast))"
  shows "single_statement s"
proof -
  let ?w = "js_get ''with'' ast" and ?f = "js_get ''from'' ast" and ?select = "js_get ''select'' ast"
  let ?scope = "if truthy ?w then with_scope names ?w else names"
  have "\<not> nullish ast" using s by (auto simp: view_toSql.simps [of prefix names ast] split: if_splits)
  with s no_set obtain w sel sch f js wh gr hv od li off where
    w: "(if \<not> truthy ?w then Inr []
            else if \<not> is_arr ?w then Inl typeError
            else catR [Inr ''WITH RECURSIVE '', joinR '', '' (map (\<lambda>p.
                if nullish (fst p) then Inl typeError
                else bindR (assertIdent (js_get ''name'' (fst p))) (\<lambda>n.
                  bindR (view_toSql prefix (snd p) (js_get ''base'' (fst p))) (\<lambda>b. catR
                    [Inr (dq n @ ''(''), cte_columns (js_get ''columns'' (fst p)), Inr ('') AS ('' @ b),
                     if truthy (js_get ''unionAll'' (fst p))
                     then mapR (\<lambda>u. '' UNION ALL '' @ u) (view_toSql prefix (snd p) (js_get ''unionAll'' (fst p))) else Inr [],
                     Inr '')'']))) (scoped names (arr_of ?w))), Inr '' '']) = Inr w"
    and sel: "view_select_sql prefix ?select = Inr sel" and sch: "schema_check prefix = Inr sch"
    and f: "(if nullish ?f then Inl typeError
            else if truthy (js_get ''query'' ?f) then
              (if \<not> truthy (js_get ''alias'' ?f) then Inl fragmentError
               else catR [Inr ''FROM ('', view_toSql prefix ?scope (js_get ''query'' ?f), Inr '') '', alias_sql [] ?f, Inr '' ''])
            else from_table prefix ?scope ?f) = Inr f"
    and js: "joins_sql prefix ?scope (js_get ''joins'' ast) = Inr js" and wh: "view_where_sql prefix (js_get ''where'' ast) = Inr wh"
    and gr: "group_sql prefix (js_get ''groupBy'' ast) = Inr gr" and hv: "having_sql prefix ?select (js_get ''having'' ast) = Inr hv"
    and od: "spaced [] '' '' (view_order_sql prefix (js_get ''orderBy'' ast)) = Inr od"
    and li: "spaced [] '' '' (view_limit_sql (js_get ''limit'' ast)) = Inr li" and off: "spaced [] '' '' (offset_sql (js_get ''offset'' ast)) = Inr off"
    and s': "s = js_trim (w @ (''SELECT '' @ (if truthy (js_get ''distinct'' ast) then ''DISTINCT '' else []) @ sel @ '' '')
        @ sch @ f @ js @ wh @ gr @ hv @ od @ li @ off)"
    by (auto simp: view_toSql.simps [of prefix names ast] Let_def catR_def [of "_ # _ # _ # _ # _ # _ # _ # _ # _ # _ # _ # []"])
  have "single_statement t" if "p \<in> set (scoped names (arr_of ?w))" "view_toSql prefix sc (js_get k (fst p)) = Inr t" for k sc p t
    using sub [OF size_scoped [OF that(1)] _ that(2)] tame_elem [OF tame_get [OF ast] scoped_mem [OF that(1)]] by (simp add: tame_get)
  then have "neutral w" using w by (rule with_neutral)
  moreover define z where "z = ''SELECT '' @ (if truthy (js_get ''distinct'' ast) then ''DISTINCT '' else []) @ sel @ '' ''"
  moreover have "neutral (''SELECT '' @ (if truthy (js_get ''distinct'' ast) then ''DISTINCT '' else []) @ sel @ '' '')"
    using select_neutral [OF sel tame_get [OF ast]] .
  moreover have "checked prefix" "sch = []" using schema_checked [OF sch] by auto
  moreover have "neutral f"
  proof (cases "truthy (js_get ''query'' ?f)")
    case True
    then obtain t a where t: "view_toSql prefix ?scope (js_get ''query'' ?f) = Inr t" and a: "alias_sql [] ?f = Inr a"
      and "f = ''FROM ('' @ t @ '') '' @ a @ '' ''"
      using f by (auto simp: catR_def split: if_splits)
    moreover have "single_statement t" using sub [OF size_get_get [OF True] _ t] ast by (simp add: tame_get)
    ultimately show ?thesis using alias_neutral [OF a neutral_Nil] by (simp only: derived_neutral)
  next
    case False
    then show ?thesis using f \<open>checked prefix\<close> by (auto intro: from_neutral split: if_splits)
  qed
  moreover have "neutral js" "neutral wh" "neutral gr" "neutral hv"
    using joins_neutral [OF js \<open>checked prefix\<close>] where_neutral [OF wh] group_neutral [OF gr] having_neutral [OF hv] ast by (auto intro: tame_get)
  moreover have "neutral od" "neutral li" "neutral off"
    using spaced_neutral [OF od order_single] spaced_neutral [OF li limit_single(1)] spaced_neutral [OF off limit_single(2)] by auto
  ultimately show ?thesis unfolding s' z_def [symmetric] by (intro single_trim neutral_single neutral_append) simp_all
qed

lemma view_toSql_single: "view_toSql prefix names ast = Inr s \<Longrightarrow> tame ast \<Longrightarrow> single_statement s"
proof (induction "size ast" arbitrary: names ast s rule: less_induct)
  case less
  show ?case
  proof (cases "truthy (js_get ''union'' ast) \<or> truthy (js_get ''intersect'' ast) \<or> truthy (js_get ''except'' ast)")
    case True
    have "single_statement t" if "i \<in> set (arr_of (js_get (set_clause_key ast) ast))" "view_toSql prefix names i = Inr t" for i t
      using less.hyps [OF size_elem [OF that(1)] that(2)] tame_elem [OF tame_get [OF less.prems(2)] that(1)] by blast
    then show ?thesis using less.prems(1) True by (rule set_operation_single)
  next
    case False
    show ?thesis by (rule select_single [OF _ less.prems False]) (rule less.hyps)
  qed
qed

text \<open>
  C24: the text compiled from a query whose raw expressions close their quotes is a single statement:
  every quote it opens it closes, and outside quotes it has no separator and no comment opener,
  whatever the names, values, operators and nesting of the query.
\<close>

theorem compiled_view_is_one_statement:
  assumes "view_toSql prefix names ast = Inr sql" "list_all balanced (raw_texts ast)"
  shows "single_statement sql"
  using assms by (intro view_toSql_single) (simp_all add: tame_def)

definition late_orders :: jsval where
  "late_orders = JObj
     [(''with'', JArr [JObj [(''name'', JStr ''late''), (''columns'', JArr [JStr ''id'']),
         (''base'', JObj [(''select'', JArr [JStr ''id'']), (''from'', JObj [(''resource'', JStr ''orders'')]),
            (''where'', JArr [JObj [(''column'', JStr ''note''), (''operator'', JStr ''eq''), (''value'', JStr (CHR 0x27 # ''; DROP TABLE x; --''))]])])]]),
      (''select'', JArr [JObj [(''aggregate'', JStr ''count''), (''alias'', JStr ''n'')], JObj [(''expression'', JStr ''1 - 2'')]]),
      (''from'', JObj [(''resource'', JStr ''late'')]),
      (''having'', JArr [JObj [(''column'', JStr ''n''), (''operator'', JStr ''gt''), (''value'', JNum 3)]]), (''limit'', JStr ''10'')]"

lemma compiled_view_is_one_statement_witness:
  "single_statement (case view_toSql (Some ''tenant_acme'') [] late_orders of Inr sql \<Rightarrow> sql | Inl _ \<Rightarrow> [CHR '';''])"
proof -
  have "isOk (view_toSql (Some ''tenant_acme'') [] late_orders)" by code_simp
  then obtain sql where sql: "view_toSql (Some ''tenant_acme'') [] late_orders = Inr sql" by (auto simp: isOk_iff)
  have "list_all balanced (raw_texts late_orders)" by code_simp
  with sql show ?thesis using compiled_view_is_one_statement [of "Some ''tenant_acme''" "[]" late_orders sql] by simp
qed

section \<open>What the compiler does not do\<close>

text \<open>The WITH of a set operation is dropped: its branches read a name that nothing defines.\<close>

lemma with_of_set_operation_dropped:
  "view_toSql None [] (JObj [(''with'', js_get ''with'' late_orders), (''union'', JArr [JObj [(''from'', JObj [(''resource'', JStr ''late'')])]])]) =
   Inr (''(SELECT * FROM '' @ dq ''late'' @ '')'')"
  by code_simp

text \<open>\<open>a.*\<close> becomes the quoted column \<open>"*"\<close>, and a CROSS JOIN always gets an ON.\<close>

lemma star_is_quoted: "view_qualify None (JStr ''a.*'') = Inr (JStr (dq ''a'' @ ''.'' @ dq ''*''))"
  by code_simp

lemma cross_join_needs_on:
  "view_join_sql None [] (JObj [(''resource'', JStr ''b''), (''type'', JStr ''CROSS'')]) = Inl typeError"
  by code_simp

text \<open>A dollar quote whose tag is not ASCII passes the check of a raw expression.\<close>

lemma dollar_quote_passes: "fragment (JStr [CHR ''$'', CHR 0xE9, CHR ''$'', CHR 0x27, CHR ''$'', CHR 0xE9, CHR ''$'']) =
   Inr [CHR ''$'', CHR 0xE9, CHR ''$'', CHR 0x27, CHR ''$'', CHR 0xE9, CHR ''$'']"
  by code_simp

end
