(* ===== verification/SqlSafety.thy ===== *)
theory SqlSafety
  imports QueryTranspile
begin

text \<open>
  The checks of SQL text in a manifest, \<open>modules/metadata/sql_safety.ts\<close>: column types, literals, defaults and
  expressions. The tokenizer and the loop over the tokens are translated as they are; the theorem reads the
  accepted text with an independent reader of SQL.
\<close>

section \<open>Types\<close>

definition manifestError :: "string \<Rightarrow> js_err" where
  "manifestError code = Err 400 code"

definition BASE_TYPES :: "string list" where
  "BASE_TYPES =
     [''STRING'', ''TEXT'', ''INTEGER'', ''INT'', ''BIGINT'', ''SMALLINT'', ''BOOLEAN'', ''BOOL'', ''TIMESTAMP'', ''TIMESTAMPTZ'', ''DATE'', ''TIME'', ''TIMETZ'',
      ''UUID'', ''JSON'', ''JSONB'', ''NUMERIC'', ''DECIMAL'', ''REAL'', ''DOUBLE'', ''FLOAT'', ''SERIAL'', ''BIGSERIAL'', ''SMALLSERIAL'', ''BYTEA'', ''INTERVAL'',
      ''VARCHAR'', ''CHAR'', ''CHARACTER'', ''BPCHAR'', ''INT2'', ''INT4'', ''INT8'', ''FLOAT4'', ''FLOAT8'', ''MONEY'', ''INET'', ''CIDR'', ''MACADDR'', ''CITEXT'',
      ''TSVECTOR'', ''TSQUERY'', ''LTREE'', ''HSTORE'', ''XML'', ''OID'', ''TSRANGE'', ''TSTZRANGE'', ''DATERANGE'', ''INT4RANGE'', ''INT8RANGE'', ''NUMRANGE'',
      ''VOID'', ''TRIGGER'', ''RECORD'']"

definition MULTI_WORD_TYPES :: "string list" where
  "MULTI_WORD_TYPES =
     [''DOUBLE PRECISION'', ''CHARACTER VARYING'', ''TIMESTAMP WITHOUT TIME ZONE'', ''TIMESTAMP WITH TIME ZONE'',
      ''TIME WITHOUT TIME ZONE'', ''TIME WITH TIME ZONE'', ''BIT VARYING'']"

abbreviation cut_ws :: "string \<Rightarrow> string" where
  "cut_ws s \<equiv> dropWhile is_space s"

text \<open>\<open>\s*\d{lo,5}\s*\<close> at the start of a text: what follows it.\<close>

definition after_number :: "nat \<Rightarrow> string \<Rightarrow> string option" where
  "after_number lo s =
     (let r = cut_ws s; n = length (takeWhile is_digit r) in
      if lo \<le> n \<and> n \<le> 5 then Some (cut_ws (drop n r)) else None)"

lemma length_after_number: "after_number lo s = Some r \<Longrightarrow> length r \<le> length s"
  using length_dropWhile_le [of is_space s]
    length_dropWhile_le [of is_space "drop (length (takeWhile is_digit (cut_ws s))) (cut_ws s)"]
  by (auto simp: after_number_def Let_def split: if_splits)

text \<open>\<open>(\(\s*\d{1,5}\s*(,\s*\d{1,5}\s*)?\))?\<close>\<close>

definition after_precision :: "string \<Rightarrow> string option" where
  "after_precision s =
     (case s of
        c # r \<Rightarrow>
          if c \<noteq> CHR ''('' then Some s
          else (case after_number 1 r of
            Some (CHR '')'' # t) \<Rightarrow> Some t
          | Some (CHR '','' # t) \<Rightarrow> (case after_number 1 t of Some (CHR '')'' # u) \<Rightarrow> Some u | _ \<Rightarrow> None)
          | _ \<Rightarrow> None)
      | [] \<Rightarrow> Some s)"

text \<open>\<open>((\[\s*\d{0,5}\s*\]\s*)*)$\<close>\<close>

function array_suffix :: "string \<Rightarrow> bool" where
  "array_suffix s =
     (if s = [] then True
      else if hd s \<noteq> CHR ''['' then False
      else (case after_number 0 (tl s) of
        None \<Rightarrow> False
      | Some r \<Rightarrow> if r \<noteq> [] \<and> hd r = CHR '']'' then array_suffix (cut_ws (tl r)) else False))"
  by pat_completeness auto

termination
proof (relation "measure length")
  fix s r
  assume s: "s \<noteq> []" and n: "after_number 0 (tl s) = Some r" and r: "r \<noteq> [] \<and> hd r = CHR '']''"
  have "length (cut_ws (tl r)) \<le> length (tl r)" by (rule length_dropWhile_le)
  also have "\<dots> < length r" using r by (cases r) simp_all
  also have "\<dots> \<le> length (tl s)" using n by (rule length_after_number)
  also have "\<dots> < length s" using s by (cases s) simp_all
  finally show "(cut_ws (tl r), s) \<in> measure length" by simp
qed simp

declare array_suffix.simps [simp del]

text \<open>The base of the type, its white space made single blanks, in upper case.\<close>

definition squeeze :: "string \<Rightarrow> string" where
  "squeeze s = js_join '' '' (filter (\<lambda>w. w \<noteq> []) (split_chr CHR '' '' s))"

definition type_base :: "string \<Rightarrow> string option" where
  "type_base s =
     (let name = takeWhile (\<lambda>c. is_alnum c \<or> c = CHR '' '') s; rest = cut_ws (drop (length name) s) in
      if name = [] \<or> \<not> is_alpha (hd name) then None
      else (case after_precision rest of
        None \<Rightarrow> None
      | Some r \<Rightarrow> if array_suffix (cut_ws r) then Some (js_upper (squeeze name)) else None))"

definition assertColumnType :: "string list \<Rightarrow> jsval \<Rightarrow> string res" where
  "assertColumnType custom v =
     (case v of
        JStr s \<Rightarrow>
          if js_trim s = [] \<or> length s > 64 then Inl (manifestError ''INVALID_COLUMN_TYPE'')
          else if s \<in> set custom then Inr s
          else (case type_base (js_trim s) of
            None \<Rightarrow> Inl (manifestError ''INVALID_COLUMN_TYPE'')
          | Some base \<Rightarrow> if base \<in> set BASE_TYPES \<or> base \<in> set MULTI_WORD_TYPES then Inr s else Inl (manifestError ''INVALID_COLUMN_TYPE''))
      | _ \<Rightarrow> Inl (manifestError ''INVALID_COLUMN_TYPE''))"

definition isEnumPlaceholderType :: "jsval \<Rightarrow> bool" where
  "isEnumPlaceholderType v = (case v of JStr s \<Rightarrow> js_upper s = ''ENUM'' | _ \<Rightarrow> False)"

section \<open>Literals\<close>

definition sqlLiteral :: "jsval \<Rightarrow> string res" where
  "sqlLiteral v =
     (let s = js_string (coalesce v (JStr [])) in
      if CHR 0x00 \<in> set s then Inl (manifestError ''INVALID_LITERAL'') else Inr (squote_chr # double_single s @ [squote_chr]))"

definition sqlNumber :: "jsval \<Rightarrow> rat res" where
  "sqlNumber v =
     (case v of
        JNum q \<Rightarrow> Inr q
      | JStr s \<Rightarrow> (case (if js_trim s = [] then None else number_of_string s) of Some q \<Rightarrow> Inr q | None \<Rightarrow> Inl (manifestError ''INVALID_NUMBER''))
      | _ \<Rightarrow> Inl (manifestError ''INVALID_NUMBER''))"

section \<open>Tokens\<close>

definition FORBIDDEN_WORDS :: "string list" where
  "FORBIDDEN_WORDS =
     [''SELECT'', ''INSERT'', ''UPDATE'', ''DELETE'', ''DROP'', ''ALTER'', ''CREATE'', ''TRUNCATE'', ''GRANT'', ''REVOKE'', ''COPY'', ''EXECUTE'', ''CALL'', ''DO'',
      ''WITH'', ''UNION'', ''INTERSECT'', ''EXCEPT'', ''VALUES'', ''RETURNING'', ''EXISTS'', ''LATERAL'', ''JOIN'', ''INTO'', ''RECURSIVE'']"

definition EXPR_KEYWORDS :: "string list" where
  "EXPR_KEYWORDS =
     [''AND'', ''OR'', ''NOT'', ''IS'', ''NULL'', ''TRUE'', ''FALSE'', ''IN'', ''LIKE'', ''ILIKE'', ''BETWEEN'', ''SIMILAR'', ''TO'', ''ESCAPE'', ''CASE'', ''WHEN'', ''THEN'', ''ELSE'', ''END'',
      ''DISTINCT'', ''FROM'', ''ANY'', ''ALL'', ''ARRAY'', ''AT'', ''TIME'', ''ZONE'', ''INTERVAL'', ''CURRENT_TIMESTAMP'', ''CURRENT_DATE'', ''CURRENT_TIME'', ''LOCALTIMESTAMP'',
      ''LOCALTIME'', ''CURRENT_USER'', ''AS'', ''ASC'', ''DESC'', ''COLLATE'', ''UNKNOWN'', ''NEW'', ''OLD'', ''ISNULL'', ''NOTNULL'', ''ONLY'', ''NULLS'', ''FIRST'', ''LAST'']"

definition FORBIDDEN_FUNCTION_PREFIX :: "string list" where
  "FORBIDDEN_FUNCTION_PREFIX = [''pg_'', ''lo_'', ''dblink'', ''query_to_'', ''xpath'', ''ts_debug'', ''to_regclass'']"

definition FORBIDDEN_FUNCTIONS :: "string list" where
  "FORBIDDEN_FUNCTIONS =
     [''setval'', ''set_config'', ''lastval'', ''dblink'', ''pg_sleep'', ''version'', ''current_database'', ''current_schema'', ''current_schemas'', ''current_catalog'',
      ''inet_server_addr'', ''inet_server_port'', ''inet_client_addr'', ''inet_client_port'', ''txid_current'', ''xmlparse'', ''table_to_xml'', ''database_to_xml'', ''schema_to_xml'']"

definition SEQUENCE_FUNCTIONS :: "string list" where
  "SEQUENCE_FUNCTIONS = [''nextval'', ''currval'']"

datatype etok = EWs string | EWord string | EQident string | EStr string | ENum string | ESym char

definition SYMBOLS :: "string" where
  "SYMBOLS = ''(),+-*/%^=<>!~|&:[].#@''"

definition banned_chr :: "char \<Rightarrow> bool" where
  "banned_chr c \<longleftrightarrow> c = CHR 0x00 \<or> c \<in> set '';$`{}?'' \<or> c = CHR 0x5C"

definition control_chr :: "char \<Rightarrow> bool" where
  "control_chr c \<longleftrightarrow> code_unit c < 32 \<or> code_unit c = 127"

definition comment_at :: "string \<Rightarrow> bool" where
  "comment_at s \<longleftrightarrow> starts_with s ''--'' \<or> starts_with s ''/*'' \<or> starts_with s ''*/''"

text \<open>The rest of a string literal after its opening quote, up to and with the closing quote, and what follows.\<close>

fun string_end :: "string \<Rightarrow> (string \<times> string) option" where
  "string_end [] = None"
| "string_end (c # s) =
     (if c = squote_chr
      then (case s of
              d # r \<Rightarrow> if d = squote_chr then map_option (\<lambda>(l, t). (c # d # l, t)) (string_end r) else Some ([c], s)
            | [] \<Rightarrow> Some ([c], []))
      else if c = CHR 0x00 then None
      else map_option (\<lambda>(l, t). (c # l, t)) (string_end s))"

definition quoted_name :: "string \<Rightarrow> (string \<times> string) option" where
  "quoted_name s =
     (let n = takeWhile (\<lambda>c. c \<noteq> dquote) s in
      if length n < length s \<and> ident_re n then Some (n @ [dquote], drop (Suc (length n)) s) else None)"

text \<open>\<open>/^(\d+(\.\d+)?([eE][+-]?\d+)?)/\<close>: the length of the match.\<close>

definition number_length :: "string \<Rightarrow> nat" where
  "number_length s =
     (let n = length (takeWhile is_digit s); r = drop n s;
          f = (if r \<noteq> [] \<and> hd r = CHR ''.'' \<and> tl r \<noteq> [] \<and> is_digit (hd (tl r)) then Suc (length (takeWhile is_digit (tl r))) else 0);
          t = drop f r;
          sgn = (if t \<noteq> [] \<and> tl t \<noteq> [] \<and> (hd (tl t) = CHR ''+'' \<or> hd (tl t) = CHR ''-'') then 1 else 0);
          ds = takeWhile is_digit (drop (Suc sgn) t);
          e = (if t \<noteq> [] \<and> (hd t = CHR ''e'' \<or> hd t = CHR ''E'') \<and> ds \<noteq> [] then Suc sgn + length ds else 0)
      in n + f + e)"

definition word_length :: "string \<Rightarrow> nat" where
  "word_length s = length (takeWhile is_word_chr s)"

definition literal_prefix :: "etok option \<Rightarrow> bool" where
  "literal_prefix prev = (case prev of Some (EWord w) \<Rightarrow> js_upper w \<in> {''E'', ''B'', ''X'', ''N''} | _ \<Rightarrow> False)"

text \<open>One step of the scanner: the next token and the rest, or a refusal.\<close>

definition etok_step :: "etok option \<Rightarrow> string \<Rightarrow> (etok \<times> string) option" where
  "etok_step prev s =
     (case s of
        [] \<Rightarrow> None
      | c # r \<Rightarrow>
          if banned_chr c then None
          else if c = CHR '' '' \<or> c = CHR 0x09 then Some (EWs [c], r)
          else if control_chr c \<or> comment_at s then None
          else if c = squote_chr then (case string_end r of
                 Some (l, t) \<Rightarrow> if literal_prefix prev then None else Some (EStr (c # l), t) | None \<Rightarrow> None)
          else if c = dquote then (case quoted_name r of Some (n, t) \<Rightarrow> Some (EQident (c # n), t) | None \<Rightarrow> None)
          else if is_digit c then Some (ENum (take (number_length s) s), drop (number_length s) s)
          else if is_ident_start c then Some (EWord (take (word_length s) s), drop (word_length s) s)
          else if c \<in> set SYMBOLS then Some (ESym c, r) else None)"

lemma string_end_split: "string_end s = Some (l, t) \<Longrightarrow> s = l @ t \<and> l \<noteq> []"
  by (induction s arbitrary: l t rule: string_end.induct) (auto split: if_splits list.splits)

lemma quoted_name_split:
  assumes "quoted_name s = Some (l, t)" shows "\<exists>n. l = n @ [dquote] \<and> s = l @ t \<and> ident_re n"
proof -
  let ?n = "takeWhile (\<lambda>c. c \<noteq> dquote) s"
  from assms have l: "length ?n < length s" "l = ?n @ [dquote]" "t = drop (Suc (length ?n)) s" "ident_re ?n"
    by (auto simp: quoted_name_def Let_def split: if_splits)
  have "s ! length ?n = dquote" using nth_length_takeWhile [OF l(1)] by simp
  then have "s = ?n @ dquote # drop (Suc (length ?n)) s"
    using id_take_nth_drop [OF l(1)] takeWhile_eq_take [of "\<lambda>c. c \<noteq> dquote" s] by (metis length_take min_less_iff_conj take_all_iff linorder_not_less order_less_imp_le min_def)
  with l show ?thesis by auto
qed

lemma number_length_pos: "s \<noteq> [] \<Longrightarrow> is_digit (hd s) \<Longrightarrow> 0 < number_length s"
  by (cases s) (auto simp: number_length_def Let_def)

lemma word_length_pos: "s \<noteq> [] \<Longrightarrow> is_ident_start (hd s) \<Longrightarrow> 0 < word_length s"
  by (cases s) (auto simp: word_length_def ident_start_word)

lemma etok_step_shorter: "etok_step prev s = Some (t, r) \<Longrightarrow> length r < length s"
proof -
  assume a: "etok_step prev s = Some (t, r)"
  then obtain c u where s: "s = c # u" by (cases s) (auto simp: etok_step_def)
  show ?thesis
    using a number_length_pos [of s] word_length_pos [of s]
    by (auto simp: s etok_step_def split: if_splits option.splits prod.splits dest!: string_end_split quoted_name_split)
qed

function tokenize_expr :: "etok option \<Rightarrow> string \<Rightarrow> etok list option" where
  "tokenize_expr prev s =
     (if s = [] then Some []
      else (case etok_step prev s of
        None \<Rightarrow> None
      | Some (t, r) \<Rightarrow> map_option ((#) t) (tokenize_expr (Some t) r)))"
  by pat_completeness auto

termination
  by (relation "measure (length \<circ> snd)") (auto dest: etok_step_shorter)

declare tokenize_expr.simps [simp del]

section \<open>Expressions\<close>

record expr_options =
  eo_setting :: bool
  eo_max :: nat

definition default_opts :: expr_options where
  "default_opts = \<lparr>eo_setting = True, eo_max = 1000\<rparr>"

definition word_of :: "etok \<Rightarrow> string option" where
  "word_of t = (case t of EWord w \<Rightarrow> Some w | _ \<Rightarrow> None)"

text \<open>The words of a cast: at most five, of which the longest known multi-word type is taken.\<close>

definition cast_words :: "etok list \<Rightarrow> string list" where
  "cast_words ts = map (\<lambda>t. case t of EWord w \<Rightarrow> w | _ \<Rightarrow> []) (takeWhile (\<lambda>t. word_of t \<noteq> None) (take 5 ts))"

definition cast_take :: "string list \<Rightarrow> nat" where
  "cast_take ws =
     (case List.find (\<lambda>n. n \<le> length ws \<and> js_upper (js_join '' '' (take n ws)) \<in> set MULTI_WORD_TYPES) [5, 4, 3, 2] of
        Some n \<Rightarrow> n | None \<Rightarrow> 1)"

definition cast_ok :: "string list \<Rightarrow> bool" where
  "cast_ok ws \<longleftrightarrow> ws \<noteq> [] \<and> isOk (assertColumnType [] (JStr (js_join '' '' (take (cast_take ws) ws))))"

definition call_ok :: "bool \<Rightarrow> string \<Rightarrow> etok list \<Rightarrow> bool" where
  "call_ok allowSetting w rest \<longleftrightarrow>
     (let lower = js_lower w in
        \<not> (lower \<in> set FORBIDDEN_FUNCTIONS \<or> list_ex (starts_with lower) FORBIDDEN_FUNCTION_PREFIX)
        \<and> \<not> (lower = ''current_setting'' \<and> \<not> allowSetting)
        \<and> (lower \<in> set SEQUENCE_FUNCTIONS \<longrightarrow>
             (case rest of _ # EStr q # _ \<Rightarrow> CHR ''.'' \<notin> set q | _ \<Rightarrow> False)))"

definition row_prefix :: "etok option \<Rightarrow> bool" where
  "row_prefix prev = (case prev of Some (EWord w) \<Rightarrow> js_upper w \<in> {''NEW'', ''OLD''} | _ \<Rightarrow> False)"

definition word_ok :: "bool \<Rightarrow> etok option \<Rightarrow> string \<Rightarrow> etok list \<Rightarrow> bool" where
  "word_ok allowSetting prev w rest \<longleftrightarrow>
     js_upper w \<notin> set FORBIDDEN_WORDS
     \<and> (if rest \<noteq> [] \<and> hd rest = ESym CHR ''('' then call_ok allowSetting w rest
        else prev = Some (ESym CHR ''.'') \<or> js_upper w \<in> set EXPR_KEYWORDS \<or> ident_re w)"

text \<open>The loop over the tokens without the blanks, with the token before and the depth of the parentheses.\<close>

function expr_loop :: "bool \<Rightarrow> nat \<Rightarrow> etok option \<Rightarrow> etok list \<Rightarrow> bool" where
  "expr_loop setting depth prev ts =
     (if ts = [] then depth = 0
      else (let t = hd ts; rest = tl ts in
        case t of
          ESym c \<Rightarrow>
            if c = CHR '':'' then
              (if rest \<noteq> [] \<and> hd rest = ESym CHR '':''
               then (let ws = cast_words (tl rest) in
                     cast_ok ws \<and> expr_loop setting depth (Some (EWord (ws ! (cast_take ws - 1)))) (drop (cast_take ws) (tl rest)))
               else False)
            else if c = CHR '')'' then depth \<noteq> 0 \<and> expr_loop setting (depth - 1) (Some t) rest
            else if c = CHR ''.'' then row_prefix prev \<and> expr_loop setting depth (Some t) rest
            else expr_loop setting (if c = CHR ''('' then Suc depth else depth) (Some t) rest
        | EWord w \<Rightarrow> word_ok setting prev w rest \<and> expr_loop setting depth (Some t) rest
        | _ \<Rightarrow> expr_loop setting depth (Some t) rest))"
  by pat_completeness auto

termination
  by (relation "measure (\<lambda>(_, _, _, ts). length ts)") (auto simp: neq_Nil_conv)

declare expr_loop.simps [simp del]

text \<open>\<open>/\$[A-Za-z0-9_]*\$/\<close> somewhere in the text.\<close>

fun dollar_pair :: "string \<Rightarrow> bool" where
  "dollar_pair [] = False"
| "dollar_pair (c # s) =
     (c = CHR ''$'' \<and> (case dropWhile is_word_chr s of d # _ \<Rightarrow> d = CHR ''$'' | [] \<Rightarrow> False) \<or> dollar_pair s)"

definition is_ws :: "etok \<Rightarrow> bool" where
  "is_ws t = (case t of EWs _ \<Rightarrow> True | _ \<Rightarrow> False)"

definition checkExpression :: "expr_options \<Rightarrow> string \<Rightarrow> jsval \<Rightarrow> string res" where
  "checkExpression opts code v =
     (case v of
        JStr s \<Rightarrow>
          let text = js_trim s in
          if text = [] \<or> length text > eo_max opts \<or> dollar_pair text then Inl (manifestError code)
          else (case tokenize_expr None text of
            None \<Rightarrow> Inl (manifestError code)
          | Some ts \<Rightarrow> if expr_loop (eo_setting opts) 0 None (filter (\<lambda>t. \<not> is_ws t) ts) then Inr text else Inl (manifestError code))
      | _ \<Rightarrow> Inl (manifestError code))"

definition plain_number :: "string \<Rightarrow> bool" where
  "plain_number d \<longleftrightarrow>
     (let b = (if starts_with d ''-'' then tl d else d); n = takeWhile is_digit b; r = drop (length n) b in
      n \<noteq> [] \<and> (r = [] \<or> hd r = CHR ''.'' \<and> tl r \<noteq> [] \<and> list_all is_digit (tl r)))"

definition renderDefault :: "expr_options \<Rightarrow> jsval \<Rightarrow> string res" where
  "renderDefault opts v =
     (case v of
        JNum q \<Rightarrow> Inr (js_string v)
      | JBool b \<Rightarrow> Inr (if b then ''TRUE'' else ''FALSE'')
      | JStr raw \<Rightarrow>
          let d = js_trim raw in
          if d = [] \<or> length d > 500 \<or> CHR 0x00 \<in> set d then Inl (manifestError ''UNSAFE_DEFAULT'')
          else if number_of_string d \<noteq> None \<and> plain_number d then Inr d
          else if js_lower d \<in> {''true'', ''false'', ''null'', ''now()'', ''current_timestamp'', ''current_date''} then Inr (js_upper d)
          else if CHR ''('' \<notin> set d \<and> \<not> starts_with d [squote_chr] then sqlLiteral (JStr d)
          else checkExpression opts ''UNSAFE_DEFAULT'' (JStr d)
      | JNaN \<Rightarrow> Inl (manifestError ''INVALID_NUMBER'')
      | _ \<Rightarrow> Inl (manifestError ''UNSAFE_DEFAULT''))"

definition assertDollarSafe :: "string \<Rightarrow> jsval \<Rightarrow> string res" where
  "assertDollarSafe tag v =
     (case v of
        JStr s \<Rightarrow> if CHR 0x00 \<in> set s \<or> str_includes s tag \<or> str_includes s ''$$'' then Inl (manifestError ''INVALID_BODY'') else Inr s
      | _ \<Rightarrow> Inl (manifestError ''INVALID_BODY''))"

section \<open>An accepted expression stays inside its parentheses\<close>

text \<open>
  An independent reader: quotes are closed, and outside quotes the text has no separator, no comment, no character that
  could switch the quoting rules, no line break, and its parentheses are balanced without ever going below where
  they began.
\<close>

definition quote_switch :: "char \<Rightarrow> bool" where
  "quote_switch c \<longleftrightarrow> c \<in> set ''$`{}?'' \<or> c = CHR 0x5C \<or> c = CHR 0x0A \<or> c = CHR 0x0D"

fun sealed :: "lex \<Rightarrow> nat \<Rightarrow> string \<Rightarrow> bool" where
  "sealed q d [] = (q \<noteq> LStr \<and> q \<noteq> LId \<and> d = 0)"
| "sealed q d (c # s) =
     (case lex_step q c of
        None \<Rightarrow> False
      | Some q' \<Rightarrow>
          if q = LStr \<or> q = LId then sealed q' d s
          else if quote_switch c then False
          else if c = CHR ''('' then sealed q' (Suc d) s
          else if c = CHR '')'' then d \<noteq> 0 \<and> sealed q' (d - 1) s
          else sealed q' d s)"

text \<open>The parentheses of a token list.\<close>

fun tok_depth :: "nat \<Rightarrow> etok list \<Rightarrow> bool" where
  "tok_depth d [] = (d = 0)"
| "tok_depth d (t # ts) =
     (if t = ESym CHR ''('' then tok_depth (Suc d) ts
      else if t = ESym CHR '')'' then d \<noteq> 0 \<and> tok_depth (d - 1) ts else tok_depth d ts)"

lemma tok_depth_skip: "\<forall>t \<in> set us. \<exists>w. t = EWord w \<Longrightarrow> tok_depth d (us @ ts) = tok_depth d ts"
  by (induction us) auto

lemma tok_depth_ws: "tok_depth d (filter (\<lambda>t. \<not> is_ws t) ts) = tok_depth d ts"
  by (induction d ts rule: tok_depth.induct) (auto simp: is_ws_def split: etok.splits)

lemma cast_take_words:
  assumes "cast_ok (cast_words ts)"
  shows "cast_take (cast_words ts) \<le> length (cast_words ts)" and "\<forall>t \<in> set (take (cast_take (cast_words ts)) ts). \<exists>w. t = EWord w"
proof -
  let ?ws = "cast_words ts" and ?pre = "takeWhile (\<lambda>t. word_of t \<noteq> None) (take 5 ts)"
  have ne: "?ws \<noteq> []" using assms by (simp add: cast_ok_def)
  show le: "cast_take ?ws \<le> length ?ws"
    using ne by (auto simp: cast_take_def find_Some_iff Suc_le_eq split: option.splits)
  have len: "length ?ws = length ?pre" by (simp add: cast_words_def)
  have "take (length ?pre) ts = ?pre"
    using takeWhile_eq_take [of "\<lambda>t. word_of t \<noteq> None" "take 5 ts"] length_takeWhile_le [of "\<lambda>t. word_of t \<noteq> None" "take 5 ts"]
    by (simp add: min_def split: if_splits)
  then have "set (take (cast_take ?ws) ts) \<subseteq> set ?pre"
    using le len set_take_subset_set_take [of "cast_take ?ws" "length ?pre" ts] by simp
  moreover have "\<exists>w. t = EWord w" if "t \<in> set ?pre" for t
    using set_takeWhileD [OF that] by (auto simp: word_of_def split: etok.splits)
  ultimately show "\<forall>t \<in> set (take (cast_take ?ws) ts). \<exists>w. t = EWord w" by blast
qed

lemma expr_loop_depth: "expr_loop setting d prev ts \<Longrightarrow> tok_depth d ts"
proof (induction "length ts" arbitrary: d prev ts rule: less_induct)
  case less
  show ?case
  proof (cases ts)
    case Nil
    with less.prems show ?thesis by (simp add: expr_loop.simps)
  next
    case (Cons t rest)
    show ?thesis
    proof (cases "t = ESym CHR '':''")
      case True
      with Cons less.prems obtain us where us: "rest = ESym CHR '':'' # us" and ok: "cast_ok (cast_words us)"
        and l: "expr_loop setting d (Some (EWord (cast_words us ! (cast_take (cast_words us) - 1)))) (drop (cast_take (cast_words us)) us)"
        by (cases rest) (auto simp: expr_loop.simps [of setting d prev] Let_def split: if_splits)
      have "tok_depth d (drop (cast_take (cast_words us)) us)"
        by (rule less.hyps [OF _ l]) (simp add: Cons us)
      then have "tok_depth d us"
        using tok_depth_skip [OF cast_take_words(2) [OF ok], of d "drop (cast_take (cast_words us)) us"] by simp
      then show ?thesis by (simp add: Cons True us)
    next
      case False
      have shorter: "length rest < length ts" by (simp add: Cons)
      note ih = less.hyps [OF shorter]
      show ?thesis
        using less.prems False ih
        by (cases t) (auto simp: Cons expr_loop.simps [of setting d prev] Let_def split: if_splits)
    qed
  qed
qed

definition follows :: "lex \<Rightarrow> string \<Rightarrow> bool" where
  "follows q s \<longleftrightarrow> q \<noteq> LStr \<and> q \<noteq> LId \<and> (q = LDash \<longrightarrow> \<not> starts_with s ''-'') \<and> (q = LSlash \<longrightarrow> \<not> starts_with s ''*'')"

lemma follows_top [simp]: "follows LTop s"
  by (simp add: follows_def)

definition harmless :: "char \<Rightarrow> bool" where
  "harmless c \<longleftrightarrow> c \<noteq> CHR 0x00 \<and> c \<noteq> squote_chr \<and> c \<noteq> dquote \<and> c \<noteq> CHR '';'' \<and> c \<noteq> CHR ''-'' \<and> c \<noteq> CHR ''/'' \<and> c \<noteq> CHR ''*''
     \<and> \<not> quote_switch c \<and> c \<noteq> CHR ''('' \<and> c \<noteq> CHR '')''"

lemma word_harmless: "is_word_chr c \<Longrightarrow> harmless c"
  by (auto simp: harmless_def quote_switch_def js_chr squote_chr_def dquote_def)

lemma digit_harmless: "is_digit c \<Longrightarrow> harmless c"
  by (auto simp: harmless_def quote_switch_def js_chr squote_chr_def dquote_def)

lemma sealed_harmless: "harmless c \<Longrightarrow> q \<noteq> LStr \<Longrightarrow> q \<noteq> LId \<Longrightarrow> sealed q d (c # s) = sealed LTop d s"
  by (auto simp: harmless_def lex_step_def)

lemma sealed_run: "list_all harmless w \<Longrightarrow> sealed LTop d (w @ s) = sealed LTop d s"
  by (induction w) (auto simp: sealed_harmless simp del: sealed.simps)

lemma sealed_string: "string_end s = Some (l, t) \<Longrightarrow> sealed LStr d s = sealed LTop d t"
proof (induction s arbitrary: l t rule: string_end.induct)
  case (2 c s)
  show ?case
  proof (cases "c = squote_chr")
    case True
    show ?thesis
    proof (cases s)
      case Nil
      with 2 True show ?thesis by (auto simp: lex_step_def squote_chr_def)
    next
      case (Cons e r)
      with 2 True show ?thesis
        by (cases "e = squote_chr") (auto simp: lex_step_def squote_chr_def quote_switch_def)
    qed
  next
    case False
    with 2 show ?thesis by (auto simp: lex_step_def split: if_splits)
  qed
qed simp

lemma sealed_name: "list_all is_word_chr n \<Longrightarrow> sealed LId d (n @ dquote # t) = sealed LTop d t"
proof (induction n)
  case Nil
  then show ?case by (simp add: lex_step_def dquote_def)
next
  case (Cons c n)
  then show ?case using word_steps [of c] by (auto simp: lex_step_def)
qed

lemma takeWhile_all: "list_all P (takeWhile P s)"
  by (induction s) auto

lemma takeWhile_rest: "takeWhile P s @ drop (length (takeWhile P s)) s = s"
  by (simp add: dropWhile_eq_drop [symmetric])

text \<open>A number is a run of digits, a fraction and an exponent, each of which may be missing.\<close>

lemma sealed_digits: "list_all is_digit w \<Longrightarrow> sealed LTop d (w @ s) = sealed LTop d s"
  by (rule sealed_run) (auto simp: list_all_iff digit_harmless)

lemma sealed_dash: "sealed LTop d (CHR ''-'' # s) = sealed LDash d s"
  by (simp add: lex_step_def squote_chr_def dquote_def quote_switch_def)

lemma sealed_exponent:
  assumes "x = CHR ''e'' \<or> x = CHR ''E''" "sg \<in> {[], ''+'', ''-''}" "ds \<noteq> []" "list_all is_digit ds"
  shows "sealed LTop d (x # sg @ ds @ s) = sealed LTop d s"
proof -
  obtain e es where ds: "ds = e # es" using assms(3) by (cases ds) auto
  have e: "harmless e" "list_all is_digit es" using assms(4) digit_harmless by (auto simp: ds)
  have "sealed LTop d (x # sg @ ds @ s) = sealed LTop d (sg @ ds @ s)"
    using assms(1) by (intro sealed_harmless) (auto simp: harmless_def quote_switch_def squote_chr_def dquote_def)
  also have "\<dots> = sealed LTop d (ds @ s)"
  proof -
    have plus: "harmless CHR ''+''" by (simp add: harmless_def quote_switch_def squote_chr_def dquote_def)
    note dash = sealed_dash [of d "e # es @ s"]
    consider "sg = []" | "sg = ''+''" | "sg = ''-''" using assms(2) by blast
    then show ?thesis
    proof cases
      case 2
      then show ?thesis using sealed_harmless [OF plus, of LTop] by (simp del: sealed.simps)
    next
      case 3
      then show ?thesis using dash sealed_harmless [OF e(1), of LTop] sealed_harmless [OF e(1), of LDash] by (simp add: ds del: sealed.simps)
    qed simp
  qed
  finally show ?thesis using sealed_digits [OF assms(4)] by simp
qed

lemma sealed_number: "s \<noteq> [] \<Longrightarrow> is_digit (hd s) \<Longrightarrow> q \<noteq> LStr \<Longrightarrow> q \<noteq> LId \<Longrightarrow> sealed q d s = sealed LTop d (drop (number_length s) s)"
proof -
  assume s: "s \<noteq> []" "is_digit (hd s)" and q: "q \<noteq> LStr" "q \<noteq> LId"
  let ?n = "takeWhile is_digit s" and ?r = "drop (length (takeWhile is_digit s)) s"
  define f where "f = (if ?r \<noteq> [] \<and> hd ?r = CHR ''.'' \<and> tl ?r \<noteq> [] \<and> is_digit (hd (tl ?r)) then Suc (length (takeWhile is_digit (tl ?r))) else 0)"
  define t where "t = drop f ?r"
  define sgn where "sgn = (if t \<noteq> [] \<and> tl t \<noteq> [] \<and> (hd (tl t) = CHR ''+'' \<or> hd (tl t) = CHR ''-'') then 1 else (0 :: nat))"
  define ds where "ds = takeWhile is_digit (drop (Suc sgn) t)"
  define e where "e = (if t \<noteq> [] \<and> (hd t = CHR ''e'' \<or> hd t = CHR ''E'') \<and> ds \<noteq> [] then Suc sgn + length ds else 0)"
  have n: "number_length s = length ?n + f + e"
    unfolding number_length_def Let_def e_def ds_def sgn_def t_def f_def by (rule refl)
  obtain c cs where cs: "s = c # cs" using s(1) by (cases s) auto
  have "harmless c" using s(2) by (simp add: cs digit_harmless)
  then have "sealed q d s = sealed LTop d cs" "sealed LTop d s = sealed LTop d cs" using q by (simp_all add: cs sealed_harmless del: sealed.simps)
  then have "sealed q d s = sealed LTop d (?n @ ?r)" unfolding takeWhile_rest by simp
  also have "\<dots> = sealed LTop d ?r" by (rule sealed_digits [OF takeWhile_all])
  also have "\<dots> = sealed LTop d t"
  proof (cases "f = 0")
    case False
    then obtain us where us: "?r = CHR ''.'' # us" "f = Suc (length (takeWhile is_digit us))"
      by (cases ?r) (auto simp: f_def split: if_splits)
    have "t = drop (length (takeWhile is_digit us)) us" unfolding t_def us by (simp add: us(2))
    then have "takeWhile is_digit us @ t = us" by (simp add: takeWhile_rest)
    then have "sealed LTop d us = sealed LTop d t" using sealed_digits [OF takeWhile_all, of d us t] by simp
    moreover have "sealed LTop d (CHR ''.'' # us) = sealed LTop d us"
      by (rule sealed_harmless) (simp_all add: harmless_def quote_switch_def squote_chr_def dquote_def)
    ultimately show ?thesis by (simp add: us del: sealed.simps)
  qed (simp add: t_def)
  also have "\<dots> = sealed LTop d (drop e t)"
  proof (cases "e = 0")
    case False
    then obtain x xs where x: "t = x # xs" "x = CHR ''e'' \<or> x = CHR ''E''" "ds \<noteq> []" "e = Suc sgn + length ds"
      by (cases t) (auto simp: e_def split: if_splits)
    have sg: "take sgn xs \<in> {[], ''+'', ''-''}" by (cases xs) (auto simp: sgn_def x)
    have dsx: "ds = takeWhile is_digit (drop sgn xs)" by (simp add: ds_def x)
    have "drop e t = drop (length ds) (drop sgn xs)" by (simp add: x add.commute)
    then have "ds @ drop e t = drop sgn xs" using takeWhile_rest [of is_digit "drop sgn xs"] by (simp add: dsx)
    then have "t = x # take sgn xs @ ds @ drop e t" by (simp add: x)
    moreover have "list_all is_digit ds" by (simp add: dsx takeWhile_all)
    ultimately show ?thesis using sealed_exponent [OF x(2) sg x(3), of d "drop e t"] by metis
  qed simp
  also have "drop e t = drop (number_length s) s" by (simp add: n t_def add.commute add.left_commute)
  finally show ?thesis .
qed

lemma sealed_symbol:
  assumes "c \<in> set SYMBOLS" "follows q (c # r)" "\<not> comment_at (c # r)"
  shows "\<exists>q'. follows q' r \<and> (sealed q d (c # r) \<longleftrightarrow>
    (if c = CHR ''('' then sealed q' (Suc d) r else if c = CHR '')'' then d \<noteq> 0 \<and> sealed q' (d - 1) r else sealed q' d r))"
proof -
  have sym: "c \<noteq> CHR 0x00" "c \<noteq> squote_chr" "c \<noteq> dquote" "c \<noteq> CHR '';''" "\<not> quote_switch c"
    using assms(1) by (auto simp: SYMBOLS_def squote_chr_def dquote_def quote_switch_def)
  obtain q' where q': "lex_step q c = Some q'" "follows q' r"
    using assms(2,3) sym by (auto simp: lex_step_def follows_def comment_at_def)
  with assms(2) sym have "sealed q d (c # r) \<longleftrightarrow>
    (if c = CHR ''('' then sealed q' (Suc d) r else if c = CHR '')'' then d \<noteq> 0 \<and> sealed q' (d - 1) r else sealed q' d r)"
    by (auto simp: follows_def)
  with q'(2) show ?thesis by blast
qed

lemma if_Some: "(if b then x else y) = Some z \<Longrightarrow> (b \<Longrightarrow> x = Some z \<Longrightarrow> P) \<Longrightarrow> (\<not> b \<Longrightarrow> y = Some z \<Longrightarrow> P) \<Longrightarrow> P"
  by (cases b) simp_all

lemma etok_cases:
  assumes "etok_step prev (c # u) = Some (t, r)"
  shows "t = EWs [c] \<and> r = u \<and> (c = CHR '' '' \<or> c = CHR 0x09)
    \<or> (\<exists>l. t = EStr (c # l) \<and> c = squote_chr \<and> string_end u = Some (l, r))
    \<or> (\<exists>n. t = EQident (c # n) \<and> c = dquote \<and> quoted_name u = Some (n, r))
    \<or> t = ENum (take (number_length (c # u)) (c # u)) \<and> r = drop (number_length (c # u)) (c # u) \<and> is_digit c
    \<or> t = EWord (take (word_length (c # u)) (c # u)) \<and> r = drop (word_length (c # u)) (c # u) \<and> is_ident_start c
    \<or> t = ESym c \<and> r = u \<and> c \<in> set SYMBOLS \<and> \<not> comment_at (c # u)"
proof -
  have pairs: "(case x of None \<Rightarrow> None | Some (l, s) \<Rightarrow> Some (f l, s)) = Some (t, r) \<Longrightarrow> \<exists>l. x = Some (l, r) \<and> t = f l" for x :: "(string \<times> string) option" and f
    by (cases x) auto
  have guarded: "(case x of None \<Rightarrow> None | Some (l, s) \<Rightarrow> if b then None else Some (f l, s)) = Some (t, r) \<Longrightarrow> \<exists>l. x = Some (l, r) \<and> t = f l" for x :: "(string \<times> string) option" and f b
    by (cases x) (auto split: if_splits)
  from assms show ?thesis
    unfolding etok_step_def list.case
    by (elim if_Some) (blast | drule pairs guarded, blast)+
qed

lemma sealed_step:
  assumes "etok_step prev s = Some (t, r)" "follows q s"
  shows "\<exists>q'. follows q' r \<and> (sealed q d s \<longleftrightarrow>
    (if t = ESym CHR ''('' then sealed q' (Suc d) r else if t = ESym CHR '')'' then d \<noteq> 0 \<and> sealed q' (d - 1) r else sealed q' d r))"
proof -
  obtain c u where s: "s = c # u" using assms(1) by (cases s) (auto simp: etok_step_def)
  have q: "q \<noteq> LStr" "q \<noteq> LId" using assms(2) by (simp_all add: follows_def)
  have top: ?thesis if "sealed q d s = sealed LTop d r" "\<forall>x. t \<noteq> ESym x"
    using that by (intro exI [of _ LTop]) simp
  consider (ws) "t = EWs [c]" "r = u" "c = CHR '' '' \<or> c = CHR 0x09"
    | (str) l where "t = EStr (c # l)" "c = squote_chr" "string_end u = Some (l, r)"
    | (name) n where "t = EQident (c # n)" "c = dquote" "quoted_name u = Some (n, r)"
    | (num) "t = ENum (take (number_length s) s)" "r = drop (number_length s) s" "is_digit c"
    | (word) "t = EWord (take (word_length s) s)" "r = drop (word_length s) s" "is_ident_start c"
    | (sym) "t = ESym c" "r = u" "c \<in> set SYMBOLS" "\<not> comment_at s"
    using etok_cases [OF assms(1) [unfolded s]] unfolding s [symmetric] by (elim disjE exE conjE) blast+
  then show ?thesis
  proof cases
    case ws
    have "harmless c" using ws(3) by (auto simp: harmless_def quote_switch_def squote_chr_def dquote_def)
    then show ?thesis using ws q by (intro top) (simp_all add: s sealed_harmless del: sealed.simps)
  next
    case str
    have "sealed q d (squote_chr # u) = sealed LStr d u" using q by (simp add: lex_step_def squote_chr_def quote_switch_def)
    then show ?thesis using str sealed_string [OF str(3)] by (intro top) (simp_all add: s del: sealed.simps)
  next
    case name
    from quoted_name_split [OF name(3)] obtain m where m: "n = m @ [dquote]" "u = n @ r" "ident_re m" by blast
    have "sealed q d (dquote # u) = sealed LId d u" using q by (simp add: lex_step_def squote_chr_def dquote_def quote_switch_def)
    moreover have "sealed LId d u = sealed LTop d r" using sealed_name [of m d r] ident_re_chars [OF m(3)] m by (simp del: sealed.simps)
    ultimately show ?thesis using name by (intro top) (simp_all add: s del: sealed.simps)
  next
    case num
    then show ?thesis using sealed_number [of s q d] q by (intro top) (simp_all add: s del: sealed.simps)
  next
    case word
    have "takeWhile is_word_chr s @ r = c # u" unfolding word(2) word_length_def takeWhile_rest s by (rule refl)
    moreover obtain w where w: "takeWhile is_word_chr s = c # w" using word(3) by (simp add: s ident_start_word)
    ultimately have u: "u = w @ r" by simp
    have "harmless c" "list_all harmless w"
      using takeWhile_all [of is_word_chr s] word_harmless by (auto simp: w list_all_iff)
    then have "sealed q d (c # w @ r) = sealed LTop d r" using sealed_harmless [of c q d "w @ r"] q sealed_run [of w d r] by (simp del: sealed.simps)
    moreover have "\<forall>x. t \<noteq> ESym x" unfolding word(1) by simp
    ultimately show ?thesis unfolding s u by (intro top [unfolded s u]) simp_all
  next
    case sym
    from sealed_symbol [OF sym(3) assms(2) [unfolded s] sym(4) [unfolded s]] show ?thesis unfolding sym(1,2) s etok.inject .
  qed
qed

lemma tokenize_sealed: "tokenize_expr prev s = Some ts \<Longrightarrow> follows q s \<Longrightarrow> sealed q d s = tok_depth d ts"
proof (induction prev s arbitrary: q d ts rule: tokenize_expr.induct)
  case (1 prev s)
  show ?case
  proof (cases "s = []")
    case True
    with "1.prems" show ?thesis by (simp add: tokenize_expr.simps follows_def)
  next
    case False
    with "1.prems" obtain t r us where t: "etok_step prev s = Some (t, r)" "tokenize_expr (Some t) r = Some us" "ts = t # us"
      by (auto simp: tokenize_expr.simps [of prev] split: option.splits)
    note ih = "1.IH" [OF False t(1) refl t(2)]
    obtain q' where q': "follows q' r" "sealed q d s \<longleftrightarrow>
      (if t = ESym CHR ''('' then sealed q' (Suc d) r else if t = ESym CHR '')'' then d \<noteq> 0 \<and> sealed q' (d - 1) r else sealed q' d r)"
      using sealed_step [OF t(1) "1.prems"(2)] by blast
    show ?thesis using q' ih [OF q'(1)] by (simp add: t(3))
  qed
qed

lemma accepted_sealed:
  assumes "checkExpression opts code v = Inr text" shows "sealed LTop 0 text \<and> length text \<le> eo_max opts \<and> text \<noteq> []"
proof -
  from assms obtain s ts where s: "v = JStr s" "text = js_trim s" "text \<noteq> []" "length text \<le> eo_max opts" "tokenize_expr None text = Some ts"
    "expr_loop (eo_setting opts) 0 None (filter (\<lambda>t. \<not> is_ws t) ts)"
    by (auto simp: checkExpression_def Let_def split: jsval.splits if_splits option.splits)
  have "tok_depth 0 ts" using expr_loop_depth [OF s(6)] by (simp add: tok_depth_ws)
  then show ?thesis using tokenize_sealed [OF s(5), of LTop 0] s(3,4) by simp
qed

text \<open>
  C22: an accepted expression stays inside the parentheses it is put in: read by an independent reader it closes its
  quotes, has no statement separator, comment opener, dollar sign, backslash, placeholder or line break outside quotes, and never closes a
  parenthesis it did not open.
\<close>

theorem accepted_expression_sealed:
  assumes "checkExpression opts code v = Inr text" shows "sealed LTop 0 text \<and> length text \<le> eo_max opts \<and> text \<noteq> []"
  using assms by (rule accepted_sealed)

definition sample_check :: string where
  "sample_check = ''(total >= 0.5e-3) AND status::text IN (note, '' @ [squote_chr] @ ''); DROP TABLE x; --'' @ [squote_chr] @ '')''"

lemma accepted_expression_sealed_witness:
  "sealed LTop 0 sample_check \<and> length sample_check \<le> eo_max default_opts \<and> sample_check \<noteq> []"
proof -
  have "checkExpression default_opts ''UNSAFE_EXPRESSION'' (JStr sample_check) = Inr sample_check" by code_simp
  then show ?thesis by (rule accepted_expression_sealed)
qed

lemma sealed_scan: "sealed q d s \<Longrightarrow> scan q s"
  by (induction q d s rule: sealed.induct) (auto split: option.splits if_splits)

text \<open>A default is one literal, one keyword or an accepted expression; none of them ends the statement.\<close>

lemma plain_number_word: "plain_number d \<Longrightarrow> single_statement d"
proof -
  assume p: "plain_number d"
  let ?b = "if starts_with d ''-'' then tl d else d"
  let ?n = "takeWhile is_digit ?b" and ?r = "drop (length (takeWhile is_digit ?b)) ?b"
  have dig: "scan LTop (w @ t) = scan LTop t" if "list_all is_digit w" for w t
    using that by (intro scan_word) (auto simp: list_all_iff js_chr)
  have r: "?r = [] \<or> (\<exists>u. ?r = CHR ''.'' # u \<and> list_all is_digit u)" and n: "?n \<noteq> []"
    using p by (cases ?r; auto simp: plain_number_def Let_def)+
  have "scan LTop ?r"
    using r dig [of _ "[]"] by (auto simp: lex_step_def squote_chr_def dquote_def)
  then have b: "scan LTop ?b" using dig [OF takeWhile_all, of ?b ?r] unfolding takeWhile_rest by simp
  show ?thesis
  proof (cases "starts_with d ''-''")
    case True
    then obtain e where e: "d = CHR ''-'' # e" by (cases d) auto
    obtain c u where c: "e = c # u" "is_digit c" using n True by (cases e) (auto simp: e split: if_splits)
    have "lex_step LDash c = lex_step LTop c" using c(2) by (auto simp: lex_step_def js_chr)
    then show ?thesis using b True by (simp add: e c lex_step_def squote_chr_def dquote_def)
  qed (use b in simp)
qed

lemma upper_lower_chr: "upper_chr (lower_chr c) = upper_chr c"
  by (simp add: chr_eq_code code_unit_upper code_unit_lower js_chr)

lemma default_cases:
  "(if a then Inl e else if b \<and> p then Inr d else if m then Inr u else if n then x else y) = Inr s \<Longrightarrow>
   s = d \<and> p \<or> m \<and> s = u \<or> x = Inr s \<or> y = Inr s"
  by (auto split: if_splits)

lemma default_is_single:
  assumes "renderDefault opts (JStr raw) = Inr s" shows "single_statement s"
proof -
  let ?d = "js_trim raw"
  consider "s = ?d" "plain_number ?d" | "js_lower ?d \<in> {''true'', ''false'', ''null'', ''now()'', ''current_timestamp'', ''current_date''}" "s = js_upper ?d"
    | "sqlLiteral (JStr ?d) = Inr s" | "checkExpression opts ''UNSAFE_DEFAULT'' (JStr ?d) = Inr s"
    using assms unfolding renderDefault_def jsval.case Let_def by (rule default_cases [elim_format]) (elim disjE conjE; assumption)
  then show ?thesis
  proof cases
    case 1
    then show ?thesis by (simp add: plain_number_word)
  next
    case 2
    have up: "js_upper ?d = js_upper (js_lower ?d)" by (simp add: js_upper_def js_lower_def upper_lower_chr)
    from 2(1) show ?thesis unfolding 2(2) up
      by (elim insertE emptyE) (simp_all, code_simp+)
  next
    case 3
    then show ?thesis by (auto simp: sqlLiteral_def Let_def split: if_splits intro!: neutral_single neutral_literal)
  next
    case 4
    then show ?thesis using sealed_scan accepted_sealed by blast
  qed
qed

section \<open>What the checks let through\<close>

text \<open>A quoted name is not looked at: any function can be called by quoting its name.\<close>

lemma quoted_call_accepted:
  "isOk (checkExpression default_opts ''UNSAFE_EXPRESSION'' (JStr (dquote # ''pg_read_file'' @ [dquote] @ ''('' @ [squote_chr] @ ''/etc/passwd'' @ [squote_chr] @ '')'')))"
  "\<not> isOk (checkExpression default_opts ''UNSAFE_EXPRESSION'' (JStr (''pg_read_file('' @ [squote_chr] @ ''/etc/passwd'' @ [squote_chr] @ '')'')))"
  by code_simp+

text \<open>Only the cast written with colons has its type checked.\<close>

lemma written_cast_unchecked:
  "isOk (checkExpression default_opts ''UNSAFE_EXPRESSION'' (JStr ''CAST(a AS regclass)''))"
  "\<not> isOk (checkExpression default_opts ''UNSAFE_EXPRESSION'' (JStr ''a::regclass''))"
  by code_simp+

text \<open>The precision of a cast is outside the checked type: it is read as parentheses of its own.\<close>

lemma sized_cast: "isOk (checkExpression default_opts ''UNSAFE_EXPRESSION'' (JStr ''a::varchar(5)''))"
  by code_simp

end
