(* ===== verification/HubSql.thy ===== *)
theory HubSql
  imports HubTarget JsonText
begin

text \<open>
  \<open>QueryEngineService.generateSql\<close>: the statement of a plain request on the hub. Values become
  numbered parameters, or literals when a statement takes none; every other part is quoted, or
  goes through the guard of \<open>SqlGuard\<close>. The list of the json columns of a table is a parameter.
\<close>

section \<open>Values\<close>

definition formatInline :: "jsval \<Rightarrow> string" where
  "formatInline v =
     (if nullish v then ''NULL''
      else case v of
        JStr s \<Rightarrow> squote_chr # double_single s @ [squote_chr]
      | JBool b \<Rightarrow> (if b then ''TRUE'' else ''FALSE'')
      | _ \<Rightarrow> js_string v)"

text \<open>One value: its literal, or the next parameter.\<close>

definition slot :: "bool \<Rightarrow> jsval \<Rightarrow> jsval list \<Rightarrow> string \<times> jsval list" where
  "slot inl v ps = (if inl then (formatInline v, ps) else (''$'' @ show_nat (length ps + 1), ps @ [v]))"

fun slots :: "bool \<Rightarrow> jsval list \<Rightarrow> jsval list \<Rightarrow> string list \<times> jsval list" where
  "slots inl [] ps = ([], ps)"
| "slots inl (v # vs) ps =
     (case slot inl v ps of (s, ps1) \<Rightarrow> (case slots inl vs ps1 of (ss, ps2) \<Rightarrow> (s # ss, ps2)))"

text \<open>The names of the json columns among the given ones: schema, table, columns.\<close>

type_synonym json_columns = "string \<Rightarrow> string \<Rightarrow> string list \<Rightarrow> string list"

definition json_value :: "string list \<Rightarrow> string \<Rightarrow> jsval \<Rightarrow> jsval" where
  "json_value jsonCols col v = (if col \<in> set jsonCols \<and> is_arr v then JStr (json_text v) else v)"

section \<open>INSERT and UPDATE\<close>

definition data_error :: js_err where
  "data_error = Err 400 ''INVALID_DATA''"

definition query_error :: js_err where
  "query_error = Err 400 ''INVALID_QUERY''"

definition insert_rows :: "jsval \<Rightarrow> (string \<times> jsval) list list" where
  "insert_rows data = map obj_of (filter is_obj (if is_arr data then arr_of data else [data]))"

definition insert_columns :: "(string \<times> jsval) list list \<Rightarrow> string list" where
  "insert_columns rows = js_dedup (concat (map (map fst) rows))"

fun row_cells :: "bool \<Rightarrow> string list \<Rightarrow> (string \<times> jsval) list \<Rightarrow> string list \<Rightarrow> jsval list \<Rightarrow> string list \<times> jsval list" where
  "row_cells inl jsonCols row [] ps = ([], ps)"
| "row_cells inl jsonCols row (c # cs) ps =
     (case kv_get c row of
        None \<Rightarrow> (case row_cells inl jsonCols row cs ps of (ss, ps2) \<Rightarrow> (''DEFAULT'' # ss, ps2))
      | Some v \<Rightarrow>
          (case slot inl (if inl then v else json_value jsonCols c v) ps of
             (s, ps1) \<Rightarrow> (case row_cells inl jsonCols row cs ps1 of (ss, ps2) \<Rightarrow> (s # ss, ps2))))"

fun tuples :: "bool \<Rightarrow> string list \<Rightarrow> string list \<Rightarrow> (string \<times> jsval) list list \<Rightarrow> jsval list \<Rightarrow> string list \<times> jsval list" where
  "tuples inl jsonCols cols [] ps = ([], ps)"
| "tuples inl jsonCols cols (r # rs) ps =
     (case row_cells inl jsonCols r cols ps of
        (ss, ps1) \<Rightarrow> (case tuples inl jsonCols cols rs ps1 of (ts, ps2) \<Rightarrow> ((''('' @ js_join '', '' ss @ '')'') # ts, ps2)))"

definition insert_sql :: "bool \<Rightarrow> json_columns \<Rightarrow> string res \<Rightarrow> string \<Rightarrow> string \<Rightarrow> jsval \<Rightarrow> (string \<times> jsval list) res" where
  "insert_sql inl jc target schema table data =
     (let rows = insert_rows data; cols = insert_columns rows in
      if rows = [] \<or> cols = [] then Inl data_error
      else case tuples inl (jc schema table cols) cols rows [] of (ts, ps) \<Rightarrow>
        bindR target (\<lambda>t. mapR (\<lambda>qs.
          (''INSERT INTO '' @ t @ '' ('' @ js_join '', '' qs @ '') VALUES '' @ js_join '', '' ts @ '' RETURNING *'', ps))
          (mapMR (\<lambda>c. quoteAnyIdent (JStr c)) cols)))"

fun set_list :: "bool \<Rightarrow> string list \<Rightarrow> (string \<times> jsval) list \<Rightarrow> jsval list \<Rightarrow> (string list \<times> jsval list) res" where
  "set_list inl jsonCols [] ps = Inr ([], ps)"
| "set_list inl jsonCols ((c, v) # kvs) ps =
     bindR (quoteAnyIdent (JStr c)) (\<lambda>q.
       case slot inl (if inl then v else json_value jsonCols c v) ps of
         (s, ps1) \<Rightarrow> mapR (\<lambda>(ss, ps2). ((q @ '' = '' @ s) # ss, ps2)) (set_list inl jsonCols kvs ps1))"

definition update_sql :: "bool \<Rightarrow> json_columns \<Rightarrow> string res \<Rightarrow> string \<Rightarrow> string \<Rightarrow> jsval \<Rightarrow> (string \<times> jsval list) res" where
  "update_sql inl jc target schema table data =
     (if nullish data then Inl typeError
      else bindR (set_list inl (jc schema table (map fst (obj_of data))) (obj_of data) []) (\<lambda>(ss, ps).
        mapR (\<lambda>t. (''UPDATE '' @ t @ '' SET '' @ js_join '', '' ss, ps)) target))"

section \<open>WHERE\<close>

text \<open>The first key of the condition names the operator, if it starts with a dollar sign.\<close>

definition filter_op :: "jsval \<Rightarrow> string \<times> jsval" where
  "filter_op v =
     (case v of JObj ((k, x) # _) \<Rightarrow> if starts_with k ''$'' then (k, x) else (''$eq'', v) | _ \<Rightarrow> (''$eq'', v))"

definition FILTER_OPS :: "(string \<times> string) list" where
  "FILTER_OPS = [(''$eq'', ''=''), (''$gt'', ''>''), (''$gte'', ''>=''), (''$lt'', ''<''), (''$lte'', ''<=''), (''$ne'', ''!=''),
     (''$like'', ''ILIKE''), (''$ilike'', ''ILIKE''), (''$in'', ''IN'')]"

definition operator_error :: js_err where
  "operator_error = Err 400 ''INVALID_OPERATOR''"

definition safe_key :: "string \<Rightarrow> string" where
  "safe_key key = js_join ''.'' (map (\<lambda>p. dquote # only_word p @ [dquote]) (split_chr CHR ''.'' key))"

definition hub_clause :: "bool \<Rightarrow> string \<Rightarrow> jsval \<Rightarrow> jsval list \<Rightarrow> (string \<times> jsval list) res" where
  "hub_clause inl key cond ps =
     (case filter_op cond of (oper, v) \<Rightarrow>
        (case map_of FILTER_OPS oper of
           None \<Rightarrow> Inl operator_error
         | Some sqlOp \<Rightarrow>
             if oper = ''$in'' \<and> v = JArr [] then Inr (''1 = 0'', ps)
             else if oper = ''$in'' \<and> is_arr v then
               (case slots inl (arr_of v) ps of (ss, ps1) \<Rightarrow> Inr (safe_key key @ '' IN ('' @ js_join '', '' ss @ '')'', ps1))
             else if v = JNull \<and> (sqlOp = ''='' \<or> sqlOp = ''!='') then
               Inr (safe_key key @ '' IS '' @ (if sqlOp = ''='' then [] else ''NOT '') @ ''NULL'', ps)
             else (case slot inl v ps of (s, ps1) \<Rightarrow> Inr (safe_key key @ '' '' @ sqlOp @ '' '' @ s, ps1))))"

fun hub_clauses :: "bool \<Rightarrow> (string \<times> jsval) list \<Rightarrow> jsval list \<Rightarrow> (string list \<times> jsval list) res" where
  "hub_clauses inl [] ps = Inr ([], ps)"
| "hub_clauses inl ((k, c) # kvs) ps =
     bindR (hub_clause inl k c ps) (\<lambda>(s, ps1). mapR (\<lambda>(ss, ps2). (s # ss, ps2)) (hub_clauses inl kvs ps1))"

definition where_part :: "bool \<Rightarrow> jsval \<Rightarrow> jsval list \<Rightarrow> (string \<times> jsval list) res" where
  "where_part inl flt ps =
     (if \<not> truthy flt then Inr ([], ps)
      else mapR (\<lambda>(ss, ps1). (if ss = [] then [] else '' WHERE '' @ js_join '' AND '' ss, ps1)) (hub_clauses inl (obj_of flt) ps))"

section \<open>SELECT and the definition of objects\<close>

definition target_of :: "jsval \<Rightarrow> target_cfg" where
  "target_of c = \<lparr>tc_tableId = js_get ''tableId'' c, tc_schemaId = js_get ''schemaId'' c, tc_source = js_get ''source'' c,
     tc_schema = js_get ''schema'' c, tc_table = js_get ''table'' c, tc_resource = js_get ''resource'' c\<rparr>"

definition join_target :: "jsval \<Rightarrow> target_cfg" where
  "join_target j = (target_of j)\<lparr>tc_schemaId := JUndef\<rparr>"

definition qualified_name :: "string \<Rightarrow> string \<Rightarrow> string res" where
  "qualified_name schema table =
     bindR (quoteAnyIdent (JStr schema)) (\<lambda>s. mapR (\<lambda>t. s @ ''.'' @ t) (quoteAnyIdent (JStr table)))"

definition hub_join_sql :: "hub_catalogue \<Rightarrow> string \<Rightarrow> jsval \<Rightarrow> string res" where
  "hub_join_sql cat tid j =
     bindR (resolveTarget cat (JStr tid) (join_target j)) (\<lambda>t.
       let table = (if tg_table t = [] then js_string (or_val (js_get ''table'' j) (js_get ''resource'' j)) else tg_table t);
           kind = js_upper (js_string (or_val (js_get ''type'' j) (JStr ''INNER'')))
       in if kind \<notin> {''INNER'', ''LEFT'', ''RIGHT'', ''FULL'', ''CROSS''} then Inl sqlGuardError
          else bindR (qualified_name (tg_schema t) (only_word table)) (\<lambda>q.
            if kind \<noteq> ''CROSS'' \<or> truthy (js_get ''on'' j)
            then mapR (\<lambda>e. '' '' @ kind @ '' JOIN '' @ q @ '' ON '' @ e) (assertSafeExpression (expr_opts (Some tid)) (js_get ''on'' j))
            else Inr ('' '' @ kind @ '' JOIN '' @ q)))"

definition hub_select_sql :: "hub_catalogue \<Rightarrow> string \<Rightarrow> jsval \<Rightarrow> string \<Rightarrow> string \<Rightarrow> string res" where
  "hub_select_sql cat tid c schema table =
     bindR (if arr_of (js_get ''select'' c) = [] then Inr ''*''
            else mapR (js_join '', '') (mapMR (fieldToSql (Some tid)) (arr_of (js_get ''select'' c)))) (\<lambda>fields.
     bindR (if truthy (js_get ''withRecursive'' c) \<and> strict_eq (js_get ''table'' c) (js_get ''name'' (js_get ''withRecursive'' c))
            then quoteAnyIdent (JStr table) else qualified_name schema table) (\<lambda>t.
     mapR (\<lambda>js. ''SELECT '' @ fields @ '' FROM '' @ t @ concat js) (mapMR (hub_join_sql cat tid) (arr_of (js_get ''joins'' c)))))"

definition pad12 :: string where
  "pad12 = CHR 0x0A # replicate 12 CHR '' ''"

definition cte_sql :: "string \<Rightarrow> jsval \<Rightarrow> string res" where
  "cte_sql tid w =
     (if \<not> truthy w then Inr []
      else bindR (assertIdent (js_get ''name'' w)) (\<lambda>n.
        bindR (assertSafeSelectQuery (js_get ''baseQuery'' w) tid) (\<lambda>b.
        mapR (\<lambda>r. ''WITH RECURSIVE '' @ [dquote] @ n @ [dquote] @ '' AS ('' @ pad12 @ b @ pad12 @ ''UNION ALL'' @ pad12 @ r
                  @ [CHR 0x0A] @ replicate 8 CHR '' '' @ '') '')
          (assertSafeSelectQuery (js_get ''recursiveQuery'' w) tid))))"

definition column_def :: "string \<Rightarrow> jsval \<Rightarrow> string res" where
  "column_def tid c =
     bindR (assertSafeExpression (expr_opts (Some tid)) (js_get ''type'' c)) (\<lambda>ty.
     bindR (if truthy (js_get ''constraints'' c) then mapR ((#) CHR '' '') (assertSafeExpression (expr_opts (Some tid)) (js_get ''constraints'' c))
            else Inr []) (\<lambda>cs.
     mapR (\<lambda>n. n @ '' '' @ ty @ cs) (quoteAnyIdent (js_get ''name'' c))))"

definition seq_number :: "jsval \<Rightarrow> string res" where
  "seq_number v = (if v = JUndef then Inr ''1'' else mapR show_int (safeInt (- 1000000000) 1000000000 v))"

definition ddl_sql :: "string \<Rightarrow> jsval \<Rightarrow> string \<Rightarrow> string \<Rightarrow> string res \<Rightarrow> string res" where
  "ddl_sql tid c ty qSchema target =
     (let idx = js_get ''indexDef'' c; view = js_get ''viewDef'' c; sq = js_get ''sequenceDef'' c; alt = js_get ''alterDef'' c in
      if ty = ''CREATE_TABLE'' then
        bindR (mapMR (column_def tid) (arr_of (js_get ''columns'' (js_get ''schemaDef'' c)))) (\<lambda>cols.
          mapR (\<lambda>t. ''CREATE TABLE '' @ t @ '' ('' @ js_join '', '' cols @ '')'') target)
      else if ty = ''DROP_TABLE'' then mapR (\<lambda>t. ''DROP TABLE IF EXISTS '' @ t) target
      else if ty = ''CREATE_INDEX'' then
        if nullish idx then Inl typeError else bindR (quoteAnyIdent (js_get ''name'' idx)) (\<lambda>n. bindR target (\<lambda>t.
          mapR (\<lambda>cs. ''CREATE '' @ (if truthy (js_get ''unique'' idx) then ''UNIQUE '' else []) @ ''INDEX '' @ n @ '' ON '' @ t @ '' ('' @ js_join '', '' cs @ '')'')
            (mapMR (fieldToSql (Some tid)) (arr_of (js_get ''columns'' idx)))))
      else if ty = ''CREATE_VIEW'' then
        if nullish view then Inl typeError else bindR (quoteAnyIdent (js_get ''name'' view)) (\<lambda>n.
          mapR (\<lambda>q. ''CREATE '' @ (if truthy (js_get ''materialized'' view) then ''MATERIALIZED '' else []) @ ''VIEW '' @ qSchema @ ''.'' @ n @ '' AS '' @ q)
            (assertSafeSelectQuery (js_get ''query'' view) tid))
      else if ty = ''CREATE_SCHEMA'' then Inr (''CREATE SCHEMA IF NOT EXISTS '' @ qSchema)
      else if ty = ''CREATE_SEQUENCE'' then
        if nullish sq then Inl typeError else bindR (quoteAnyIdent (js_get ''name'' sq)) (\<lambda>n. bindR (seq_number (js_get ''start'' sq)) (\<lambda>a.
          mapR (\<lambda>b. ''CREATE SEQUENCE IF NOT EXISTS '' @ qSchema @ ''.'' @ n @ '' START WITH '' @ a @ '' INCREMENT BY '' @ b)
            (seq_number (js_get ''increment'' sq))))
      else if ty = ''ALTER_TABLE'' \<and> nullish alt then Inl typeError
      else if ty = ''ALTER_TABLE'' \<and> js_get ''action'' alt = JStr ''ADD_COLUMN'' then
        bindR target (\<lambda>t. bindR (quoteAnyIdent (js_get ''columnName'' alt)) (\<lambda>n.
          mapR (\<lambda>e. ''ALTER TABLE '' @ t @ '' ADD COLUMN '' @ n @ '' '' @ e) (assertSafeExpression (expr_opts (Some tid)) (js_get ''columnType'' alt))))
      else if ty = ''ALTER_TABLE'' \<and> js_get ''action'' alt = JStr ''DROP_COLUMN'' then
        bindR target (\<lambda>t. mapR (\<lambda>n. ''ALTER TABLE '' @ t @ '' DROP COLUMN '' @ n) (quoteAnyIdent (js_get ''columnName'' alt)))
      else Inr [])"

definition hub_order_item :: "string \<Rightarrow> jsval \<Rightarrow> string res" where
  "hub_order_item tid o' =
     mapR (\<lambda>f. f @ '' '' @ (if coalesce (js_get ''dir'' o') (js_get ''direction'' o') = JStr ''DESC'' then ''DESC'' else ''ASC''))
       (fieldToSql (Some tid) (coalesce (js_get ''field'' o') (js_get ''column'' o')))"

definition select_tail :: "string \<Rightarrow> jsval \<Rightarrow> string res" where
  "select_tail tid c =
     bindR (if truthy (js_get ''groupBy'' c)
            then mapR (\<lambda>gs. '' GROUP BY '' @ js_join '', '' gs) (mapMR (fieldToSql (Some tid)) (arr_of (js_get ''groupBy'' c))) else Inr []) (\<lambda>g.
     bindR (mapMR (hub_order_item tid) (filter (\<lambda>o'. truthy (coalesce (js_get ''field'' o') (js_get ''column'' o'))) (arr_of (js_get ''orderBy'' c)))) (\<lambda>os.
     bindR (if truthy (js_get ''limit'' c) then mapR (\<lambda>n. '' LIMIT '' @ show_int n) (safeInt 0 1000000000 (js_get ''limit'' c)) else Inr []) (\<lambda>l.
     mapR (\<lambda>off. g @ (if os = [] then [] else '' ORDER BY '' @ js_join '', '' os) @ l @ off)
       (if truthy (js_get ''offset'' c) then mapR (\<lambda>n. '' OFFSET '' @ show_int n) (safeInt 0 1000000000 (js_get ''offset'' c)) else Inr []))))"

section \<open>The statement\<close>

definition no_tenant :: js_err where
  "no_tenant = Err 0 ''INTERNAL''"

text \<open>The statement up to its WHERE.\<close>

definition head_sql :: "hub_catalogue \<Rightarrow> json_columns \<Rightarrow> bool \<Rightarrow> string \<Rightarrow> jsval \<Rightarrow> string \<Rightarrow> string \<Rightarrow> string \<Rightarrow> string \<Rightarrow> string res \<Rightarrow> (string \<times> jsval list) res" where
  "head_sql cat jc inl tid c ty cte schema table target =
     (if ty = ''SELECT'' then mapR (\<lambda>s. (cte @ s, [])) (hub_select_sql cat tid c schema table)
      else if ty = ''INSERT'' then insert_sql inl jc target schema table (js_get ''data'' c)
      else if ty = ''UPDATE'' then update_sql inl jc target schema table (js_get ''data'' c)
      else if ty = ''DELETE'' then mapR (\<lambda>t. (''DELETE FROM '' @ t, [])) target
      else bindR (quoteAnyIdent (JStr schema)) (\<lambda>q. mapR (\<lambda>s. (if s = [] then cte else s, [])) (ddl_sql tid c ty q target)))"

definition generateSql :: "hub_catalogue \<Rightarrow> json_columns \<Rightarrow> bool \<Rightarrow> jsval \<Rightarrow> jsval \<Rightarrow> (string \<times> jsval list) res" where
  "generateSql cat jc inl tenantId c =
     (let ty = js_string (js_get ''type'' c) in
      if \<not> truthy tenantId then Inl no_tenant else
      bindR (assertTenantIdSafe tenantId) (\<lambda>tid.
      bindR (resolveTarget cat tenantId (target_of c)) (\<lambda>t.
      let table = (if tg_table t = [] then only_word (js_string (or_val (js_get ''table'' c) (JStr []))) else tg_table t);
          target = (if table = [] then Inl query_error else qualified_name (tg_schema t) table)
      in
      bindR (quoteAnyIdent (JStr (tg_schema t))) (\<lambda>_.
      bindR (if table = [] then Inr [] else target) (\<lambda>_.
      bindR (cte_sql tid (js_get ''withRecursive'' c)) (\<lambda>cte.
      bindR (head_sql cat jc inl tid c ty cte (tg_schema t) table target) (\<lambda>(sql, ps).
      bindR (if ty \<in> {''SELECT'', ''UPDATE'', ''DELETE''} then where_part inl (js_get ''filter'' c) ps else Inr ([], ps)) (\<lambda>(wh, ps1).
      mapR (\<lambda>tl'. (sql @ wh @ (if ty \<in> {''UPDATE'', ''DELETE''} then '' RETURNING *'' else []) @ tl', ps1))
        (if ty = ''SELECT'' then select_tail tid c else Inr [])))))))))"

section \<open>No value is part of the statement\<close>

text \<open>The shape of a request: its keys, operators and lists, without the values it writes or compares with.\<close>

definition same_cond :: "jsval \<Rightarrow> jsval \<Rightarrow> bool" where
  "same_cond c d \<longleftrightarrow> fst (filter_op c) = fst (filter_op d) \<and> same_shape (snd (filter_op c)) (snd (filter_op d))"

definition same_filter :: "jsval \<Rightarrow> jsval \<Rightarrow> bool" where
  "same_filter f g \<longleftrightarrow> truthy f = truthy g \<and> list_all2 (\<lambda>a b. fst a = fst b \<and> same_cond (snd a) (snd b)) (obj_of f) (obj_of g)"

definition same_data :: "jsval \<Rightarrow> jsval \<Rightarrow> bool" where
  "same_data d e \<longleftrightarrow> nullish d = nullish e \<and> map fst (obj_of d) = map fst (obj_of e)
     \<and> map (map fst) (insert_rows d) = map (map fst) (insert_rows e)"

definition shape_of :: "(string \<times> jsval list) res \<Rightarrow> (string \<times> nat) res" where
  "shape_of r = mapR (\<lambda>(s, ps). (s, length ps)) r"

lemma shape_of_bind:
  assumes "shape_of r = shape_of r'" "\<And>s ps qs. length ps = length qs \<Longrightarrow> f (s, ps) = g (s, qs)"
  shows "bindR r f = bindR r' g"
  using assms by (cases r; cases r') (auto simp: shape_of_def)

lemma shape_of_bind_same: "(\<And>x. shape_of (f x) = shape_of (g x)) \<Longrightarrow> shape_of (bindR r f) = shape_of (bindR r g)"
  by (cases r) (auto simp: shape_of_def)

lemma slots_shape:
  "length vs = length ws \<Longrightarrow> length ps = length qs \<Longrightarrow>
     fst (slots False vs ps) = fst (slots False ws qs) \<and> length (snd (slots False vs ps)) = length (snd (slots False ws qs))"
proof (induction vs arbitrary: ws ps qs)
  case (Cons v vs)
  then obtain w ws' where "ws = w # ws'" "length vs = length ws'" by (cases ws) auto
  with Cons.IH [of ws' "ps @ [v]" "qs @ [w]"] Cons.prems show ?case by (auto simp: slot_def split: prod.splits)
qed simp

lemma row_cells_shape:
  "map fst r = map fst r' \<Longrightarrow> length ps = length qs \<Longrightarrow>
     fst (row_cells False jc r cs ps) = fst (row_cells False jc r' cs qs) \<and>
     length (snd (row_cells False jc r cs ps)) = length (snd (row_cells False jc r' cs qs))"
proof (induction cs arbitrary: ps qs)
  case (Cons c cs)
  have "fst ` set r = fst ` set r'" by (metis Cons.prems(1) list.set_map)
  then have "kv_get c r = None \<longleftrightarrow> kv_get c r' = None" by (simp only: kv_get_None)
  then consider "kv_get c r = None" "kv_get c r' = None" | v v' where "kv_get c r = Some v" "kv_get c r' = Some v'"
    by (cases "kv_get c r"; cases "kv_get c r'") auto
  then show ?case
  proof cases
    case 1
    with Cons.IH [OF Cons.prems] show ?thesis by (auto split: prod.splits)
  next
    case 2
    with Cons.IH [of "ps @ [json_value jc c v]" "qs @ [json_value jc c v']"] Cons.prems show ?thesis
      by (auto simp: slot_def split: prod.splits)
  qed
qed simp

lemma tuples_shape:
  "map (map fst) rs = map (map fst) rs' \<Longrightarrow> length ps = length qs \<Longrightarrow>
     fst (tuples False jc cs rs ps) = fst (tuples False jc cs rs' qs) \<and>
     length (snd (tuples False jc cs rs ps)) = length (snd (tuples False jc cs rs' qs))"
proof (induction rs arbitrary: rs' ps qs)
  case (Cons r rs)
  then obtain r' rs2 where rs': "rs' = r' # rs2" "map fst r = map fst r'" "map (map fst) rs = map (map fst) rs2"
    by (cases rs') simp_all
  note row = row_cells_shape [OF rs'(2) Cons.prems(2), of jc cs]
  with Cons.IH [OF rs'(3), of "snd (row_cells False jc r cs ps)" "snd (row_cells False jc r' cs qs)"] rs'(1)
  show ?case by (simp split: prod.splits) (metis fst_conv snd_conv)
qed simp

lemma set_list_shape:
  "map fst kvs = map fst kvs' \<Longrightarrow> length ps = length qs \<Longrightarrow>
     mapR (\<lambda>(ss, rs). (ss, length rs)) (set_list False jc kvs ps) = mapR (\<lambda>(ss, rs). (ss, length rs)) (set_list False jc kvs' qs)"
proof (induction kvs arbitrary: kvs' ps qs)
  case (Cons kv kvs)
  obtain c v where kv: "kv = (c, v)" by force
  then obtain v' kvs2 where k': "kvs' = (c, v') # kvs2" "map fst kvs = map fst kvs2" using Cons.prems(1) by (cases kvs') auto
  have "mapR (\<lambda>(ss, rs). (ss, length rs)) (set_list False jc kvs (ps @ [json_value jc c v])) =
      mapR (\<lambda>(ss, rs). (ss, length rs)) (set_list False jc kvs2 (qs @ [json_value jc c v']))"
    by (rule Cons.IH [OF k'(2)]) (use Cons.prems(2) in simp)
  then show ?case
    using kv k'(1) Cons.prems(2)
    by (cases "quoteAnyIdent (JStr c)"; cases "set_list False jc kvs (ps @ [json_value jc c v])";
        cases "set_list False jc kvs2 (qs @ [json_value jc c v'])") (auto simp: slot_def)
qed simp

lemma hub_clause_shape:
  assumes "same_cond c d" "length ps = length qs"
  shows "shape_of (hub_clause False k c ps) = shape_of (hub_clause False k d qs)"
proof -
  obtain oper v w where op: "filter_op c = (oper, v)" "filter_op d = (oper, w)" "same_shape v w"
    using assms(1) by (cases "filter_op c"; cases "filter_op d") (auto simp: same_cond_def)
  then have sh: "v = JNull \<longleftrightarrow> w = JNull" "is_arr v = is_arr w" "length (arr_of v) = length (arr_of w)"
    by (auto simp: same_shape_def)
  then have emp: "v = JArr [] \<longleftrightarrow> w = JArr []" by (cases v; cases w) auto
  have "fst (slots False (arr_of v) ps) = fst (slots False (arr_of w) qs)"
    "length (snd (slots False (arr_of v) ps)) = length (snd (slots False (arr_of w) qs))"
    using slots_shape [OF sh(3) assms(2)] by simp_all
  then show ?thesis
    using op(1,2) sh emp assms(2)
    by (auto simp: hub_clause_def shape_of_def slot_def Let_def split: option.splits prod.splits)
qed

lemma hub_clauses_shape:
  "list_all2 (\<lambda>a b. fst a = fst b \<and> same_cond (snd a) (snd b)) kvs kvs' \<Longrightarrow> length ps = length qs \<Longrightarrow>
     mapR (\<lambda>(ss, rs). (ss, length rs)) (hub_clauses False kvs ps) = mapR (\<lambda>(ss, rs). (ss, length rs)) (hub_clauses False kvs' qs)"
proof (induction kvs kvs' arbitrary: ps qs rule: list_all2_induct)
  case (Cons a kvs b kvs')
  obtain k c d where ab: "a = (k, c)" "b = (k, d)" "same_cond c d" using Cons.hyps(1) by (cases a; cases b) auto
  note one = hub_clause_shape [OF ab(3) Cons.prems, of k]
  show ?case
  proof (cases "hub_clause False k c ps")
    case (Inl e)
    then show ?thesis using one ab by (cases "hub_clause False k d qs") (auto simp: shape_of_def)
  next
    case (Inr x)
    obtain s ps1 where x: "x = (s, ps1)" by force
    then obtain qs1 where y: "hub_clause False k d qs = Inr (s, qs1)" "length ps1 = length qs1"
      using one Inr by (cases "hub_clause False k d qs") (auto simp: shape_of_def)
    note rest = Cons.IH [OF y(2)]
    show ?thesis
      using rest ab Inr x y(1)
      by (cases "hub_clauses False kvs ps1"; cases "hub_clauses False kvs' qs1") auto
  qed
qed simp

lemma where_part_shape:
  assumes "same_filter f g" "length ps = length qs"
  shows "shape_of (where_part False f ps) = shape_of (where_part False g qs)"
proof -
  have "mapR (\<lambda>(ss, rs). (ss, length rs)) (hub_clauses False (obj_of f) ps) = mapR (\<lambda>(ss, rs). (ss, length rs)) (hub_clauses False (obj_of g) qs)"
    using assms by (intro hub_clauses_shape) (simp_all add: same_filter_def)
  moreover have "truthy f = truthy g" using assms(1) by (simp add: same_filter_def)
  ultimately show ?thesis using assms(2)
    by (cases "hub_clauses False (obj_of f) ps"; cases "hub_clauses False (obj_of g) qs") (auto simp: where_part_def shape_of_def)
qed

lemma insert_shape:
  assumes "same_data d e"
  shows "shape_of (insert_sql False jc target schema table d) = shape_of (insert_sql False jc target schema table e)"
proof -
  have rows: "map (map fst) (insert_rows d) = map (map fst) (insert_rows e)" using assms by (simp add: same_data_def)
  then have cols: "insert_columns (insert_rows d) = insert_columns (insert_rows e)" by (simp add: insert_columns_def)
  define cs where "cs = insert_columns (insert_rows e)"
  have emp: "insert_rows d = [] \<longleftrightarrow> insert_rows e = []" using rows by (metis map_is_Nil_conv)
  have "fst (tuples False (jc schema table cs) cs (insert_rows d) []) = fst (tuples False (jc schema table cs) cs (insert_rows e) [])"
    "length (snd (tuples False (jc schema table cs) cs (insert_rows d) [])) = length (snd (tuples False (jc schema table cs) cs (insert_rows e) []))"
    using tuples_shape [OF rows refl, of "jc schema table cs" cs "[]"] by simp_all
  moreover have "\<And>rs. insert_columns rs = insert_columns rs" ..
  ultimately show ?thesis
    unfolding insert_sql_def Let_def cols emp cs_def [symmetric]
    by (cases target; cases "mapMR (\<lambda>c. quoteAnyIdent (JStr c)) cs") (auto simp: shape_of_def split: prod.splits)
qed

lemma update_shape:
  assumes "same_data d e"
  shows "shape_of (update_sql False jc target schema table d) = shape_of (update_sql False jc target schema table e)"
proof -
  have keys: "map fst (obj_of d) = map fst (obj_of e)" "nullish d = nullish e" using assms by (simp_all add: same_data_def)
  define cs where "cs = jc schema table (map fst (obj_of e))"
  have "mapR (\<lambda>(ss, rs). (ss, length rs)) (set_list False cs (obj_of d) []) = mapR (\<lambda>(ss, rs). (ss, length rs)) (set_list False cs (obj_of e) [])"
    by (rule set_list_shape [OF keys(1)]) simp
  then show ?thesis
    unfolding update_sql_def keys cs_def [symmetric]
    by (cases "set_list False cs (obj_of d) []"; cases "set_list False cs (obj_of e) []"; cases target) (auto simp: shape_of_def)
qed

text \<open>
  C37: two requests that differ only in the values they write and compare with, under the same
  keys and operators, give the same statement, the same number of parameters, or the same error:
  no value is ever part of the text of a parameterized statement.
\<close>

theorem generateSql_parameterized:
  assumes other: "\<forall>k. k \<noteq> ''data'' \<and> k \<noteq> ''filter'' \<longrightarrow> js_get k a = js_get k b"
    and data: "same_data (js_get ''data'' a) (js_get ''data'' b)" and flt: "same_filter (js_get ''filter'' a) (js_get ''filter'' b)"
  shows "mapR (\<lambda>(sql, ps). (sql, length ps)) (generateSql cat jc False tenantId a) =
    mapR (\<lambda>(sql, ps). (sql, length ps)) (generateSql cat jc False tenantId b)"
proof -
  have eq: "js_get k a = js_get k b" if "k \<noteq> ''data''" "k \<noteq> ''filter''" for k using other that by blast
  have keys: "js_get ''tableId'' a = js_get ''tableId'' b" "js_get ''schemaId'' a = js_get ''schemaId'' b" "js_get ''source'' a = js_get ''source'' b"
      "js_get ''schema'' a = js_get ''schema'' b" "js_get ''table'' a = js_get ''table'' b" "js_get ''resource'' a = js_get ''resource'' b"
      "js_get ''select'' a = js_get ''select'' b" "js_get ''withRecursive'' a = js_get ''withRecursive'' b" "js_get ''joins'' a = js_get ''joins'' b"
      "js_get ''indexDef'' a = js_get ''indexDef'' b" "js_get ''viewDef'' a = js_get ''viewDef'' b" "js_get ''sequenceDef'' a = js_get ''sequenceDef'' b"
      "js_get ''alterDef'' a = js_get ''alterDef'' b" "js_get ''schemaDef'' a = js_get ''schemaDef'' b" "js_get ''groupBy'' a = js_get ''groupBy'' b"
      "js_get ''orderBy'' a = js_get ''orderBy'' b" "js_get ''limit'' a = js_get ''limit'' b" "js_get ''offset'' a = js_get ''offset'' b"
      "js_get ''type'' a = js_get ''type'' b"
    by (simp_all add: eq)
  have parts: "target_of a = target_of b" "select_tail tid a = select_tail tid b" "hub_select_sql cat tid a s t = hub_select_sql cat tid b s t"
      "ddl_sql tid a ty q tg = ddl_sql tid b ty q tg" for tid s t ty q tg
    unfolding target_of_def select_tail_def hub_select_sql_def ddl_sql_def keys by (rule refl)+
  have head: "shape_of (head_sql cat jc False tid a ty cte s t tg) = shape_of (head_sql cat jc False tid b ty cte s t tg)" for tid ty cte s t tg
    unfolding head_sql_def parts by (simp add: insert_shape [OF data] update_shape [OF data])
  have rest: "shape_of (bindR (if ty \<in> {''SELECT'', ''UPDATE'', ''DELETE''} then where_part False (js_get ''filter'' a) ps else Inr ([], ps)) (\<lambda>(wh, ps1).
        mapR (\<lambda>tl'. (sql @ wh @ r @ tl', ps1)) u)) =
      shape_of (bindR (if ty \<in> {''SELECT'', ''UPDATE'', ''DELETE''} then where_part False (js_get ''filter'' b) qs else Inr ([], qs)) (\<lambda>(wh, ps1).
        mapR (\<lambda>tl'. (sql @ wh @ r @ tl', ps1)) u))" if "length ps = length qs" for ty :: string and sql ps qs r u
    using where_part_shape [OF flt that] that
    by (cases "where_part False (js_get ''filter'' a) ps"; cases "where_part False (js_get ''filter'' b) qs"; cases u) (auto simp: shape_of_def)
  have all: "shape_of (bindR (head_sql cat jc False tid a ty cte s t tg) (\<lambda>(sql, ps).
        bindR (if ty \<in> {''SELECT'', ''UPDATE'', ''DELETE''} then where_part False (js_get ''filter'' a) ps else Inr ([], ps)) (\<lambda>(wh, ps1).
        mapR (\<lambda>tl'. (sql @ wh @ r @ tl', ps1)) u))) =
      shape_of (bindR (head_sql cat jc False tid b ty cte s t tg) (\<lambda>(sql, ps).
        bindR (if ty \<in> {''SELECT'', ''UPDATE'', ''DELETE''} then where_part False (js_get ''filter'' b) ps else Inr ([], ps)) (\<lambda>(wh, ps1).
        mapR (\<lambda>tl'. (sql @ wh @ r @ tl', ps1)) u)))" for tid and ty :: string and cte s t tg r u
    using head [of tid ty cte s t tg] rest
    by (cases "head_sql cat jc False tid a ty cte s t tg"; cases "head_sql cat jc False tid b ty cte s t tg") (auto simp: shape_of_def)
  show ?thesis
  proof (cases "truthy tenantId")
    case True
    then show ?thesis
      unfolding shape_of_def [symmetric] generateSql_def Let_def parts keys
      by (simp only: not_True_eq_False if_False) (intro shape_of_bind_same all)
  qed (simp add: generateSql_def)
qed

definition rename_request :: "string \<Rightarrow> nat \<Rightarrow> jsval" where
  "rename_request name age = JObj [(''type'', JStr ''UPDATE''), (''table'', JStr ''items''), (''data'', JObj [(''name'', JStr name)]),
     (''filter'', JObj [(''age'', JObj [(''$gt'', JNum (of_nat age))])])]"

definition plain_hub :: hub_catalogue where
  "plain_hub = \<lparr>hc_tables = [], hc_schemas = [], hc_sources = [], hc_override = []\<rparr>"

definition rename_sql :: string where
  "rename_sql = ''UPDATE '' @ [dquote] @ ''tenant_acme'' @ [dquote] @ ''.'' @ [dquote] @ ''items'' @ [dquote] @ '' SET '' @ [dquote] @ ''name''
     @ [dquote] @ '' = $1 WHERE '' @ [dquote] @ ''age'' @ [dquote] @ '' > $2 RETURNING *''"

theorem generateSql_parameterized_witness:
  "mapR (\<lambda>(sql, ps). (sql, length ps)) (generateSql plain_hub (\<lambda>_ _ _. []) False (JStr ''acme'') (rename_request ''a; DROP TABLE b'' 7)) =
   Inr (rename_sql, 2)"
proof -
  have d: "same_data (js_get ''data'' (rename_request ''a; DROP TABLE b'' 7)) (js_get ''data'' (rename_request ''x'' 0))"
    and f: "same_filter (js_get ''filter'' (rename_request ''a; DROP TABLE b'' 7)) (js_get ''filter'' (rename_request ''x'' 0))"
    by code_simp+
  have o: "\<forall>k. k \<noteq> ''data'' \<and> k \<noteq> ''filter'' \<longrightarrow> js_get k (rename_request ''a; DROP TABLE b'' 7) = js_get k (rename_request ''x'' 0)"
    by (simp add: rename_request_def js_get_def)
  have "mapR (\<lambda>(sql, ps). (sql, length ps)) (generateSql plain_hub (\<lambda>_ _ _. []) False (JStr ''acme'') (rename_request ''x'' 0)) = Inr (rename_sql, 2)"
    by code_simp
  then show ?thesis using generateSql_parameterized [OF o d f] by (rule trans [rotated])
qed

text \<open>Only the first operator of a condition is compiled: a DELETE bounded on both sides loses its upper bound.\<close>

lemma second_operator_dropped:
  "where_part False (JObj [(''age'', JObj [(''$gte'', JNum 18), (''$lt'', JNum 20)])]) [] =
   where_part False (JObj [(''age'', JObj [(''$gte'', JNum 18)])]) []"
  by code_simp

end
