(* ===== verification/Sequences.thy ===== *)
theory Sequences
  imports Identifiers JsValue
begin

text \<open>
  \<open>modules/query-engine/sequence.service.ts\<close> and \<open>write_generators.ts\<close>: the sequences the
  fabric keeps for sources that have none, and the values generated for a write. An allocation
  is one statement, so the calls of all clients are a list in the order of their statements.
  The bounds of the \<open>bigint\<close> and \<open>integer\<close> columns are checked as PostgreSQL does, and what the code computes in
  numbers is rounded to a double where it can exceed the integers a double has.
\<close>

section \<open>The sequence table\<close>

record seq_row =
  sq_current :: int
  sq_increment :: int

type_synonym seq_db = "string \<times> string \<Rightarrow> seq_row option"

definition in_bigint :: "int \<Rightarrow> bool" where
  "in_bigint x \<longleftrightarrow> - (2 ^ 63) \<le> x \<and> x < 2 ^ 63"

definition in_integer :: "int \<Rightarrow> bool" where
  "in_integer x \<longleftrightarrow> - (2 ^ 31) \<le> x \<and> x < 2 ^ 31"

definition out_of_range :: js_err where
  "out_of_range = Err 500 ''22003''"

definition not_a_number :: js_err where
  "not_a_number = Err 500 ''22P02''"

text \<open>The double next to an integer, ties to even.\<close>

fun bit_count :: "nat \<Rightarrow> nat" where
  "bit_count n = (if n = 0 then 0 else Suc (bit_count (n div 2)))"

declare bit_count.simps [simp del]

definition to_double :: "int \<Rightarrow> int" where
  "to_double x =
     (if \<bar>x\<bar> \<le> 2 ^ 53 then x
      else let u = 2 ^ (bit_count (nat \<bar>x\<bar>) - 53); q = \<bar>x\<bar> div u; r = \<bar>x\<bar> mod u;
               m = (if 2 * r > u \<or> 2 * r = u \<and> odd q then q + 1 else q)
           in sgn x * (m * u))"

text \<open>A number that is sent as a parameter: from \<open>10 ^ 21\<close> on its text has an exponent, which no integer column reads.\<close>

definition range_error :: "int \<Rightarrow> js_err" where
  "range_error x = (if \<bar>x\<bar> \<ge> 10 ^ 21 then not_a_number else out_of_range)"

definition seq_name_ok :: "string \<Rightarrow> bool" where
  "seq_name_ok s \<longleftrightarrow> s \<noteq> [] \<and> length s \<le> 63 \<and> list_all is_word_chr s"

section \<open>The options\<close>

definition math_trunc :: "rat \<Rightarrow> int" where
  "math_trunc q = (if q \<ge> 0 then \<lfloor>q\<rfloor> else \<lceil>q\<rceil>)"

text \<open>\<open>Number.isFinite(v) ? Math.trunc(v) : 1\<close>\<close>

definition finite_or_one :: "jsval \<Rightarrow> int" where
  "finite_or_one v = (case v of JNum q \<Rightarrow> math_trunc q | _ \<Rightarrow> 1)"

definition seq_inc :: "jsval \<Rightarrow> int" where
  "seq_inc opts = finite_or_one (js_get ''increment'' opts)"

definition seq_start :: "jsval \<Rightarrow> int" where
  "seq_start opts = finite_or_one (js_get ''start'' opts)"

text \<open>No count is NaN after the clamp unless the option is not numeric.\<close>

definition seq_count :: "jsval \<Rightarrow> nat option" where
  "seq_count opts =
     map_option (\<lambda>q. nat (max 1 (min 100000 (math_trunc q))))
       (js_number (if truthy (js_get ''count'' opts) then js_get ''count'' opts else JNum 1))"

section \<open>Allocation\<close>

datatype seq_result = Value int | Values "int list"

fun drawn :: "seq_result \<Rightarrow> int list" where
  "drawn (Value v) = [v]"
| "drawn (Values vs) = vs"

definition seq_result_of :: "nat \<Rightarrow> seq_row \<Rightarrow> seq_result" where
  "seq_result_of n r =
     (let latest = to_double (sq_current r); step = sq_increment r in
      if n = 1 then Value latest else Values (map (\<lambda>i. to_double (latest - step * int i)) (rev [0..<n])))"

text \<open>The row the upsert returns.\<close>

definition seq_upsert :: "int \<Rightarrow> int \<Rightarrow> nat \<Rightarrow> seq_row option \<Rightarrow> seq_row res" where
  "seq_upsert start inc n old =
     (let first = to_double (start + inc * (int n - 1)) in
      if \<not> in_bigint first then Inl (range_error first)
      else if \<not> in_integer inc then Inl (range_error inc)
      else case old of
        None \<Rightarrow> Inr \<lparr>sq_current = first, sq_increment = inc\<rparr>
      | Some r \<Rightarrow>
          if in_integer (sq_increment r * int n) \<and> in_bigint (sq_current r + sq_increment r * int n)
          then Inr (r\<lparr>sq_current := sq_current r + sq_increment r * int n\<rparr>) else Inl out_of_range)"

definition nextval :: "string \<Rightarrow> jsval \<Rightarrow> jsval \<Rightarrow> seq_db \<Rightarrow> seq_result res \<times> seq_db" where
  "nextval tenantId name opts db =
     (case name of
        JStr s \<Rightarrow>
          if \<not> seq_name_ok s then (Inl identifierError, db)
          else (case seq_count opts of
              None \<Rightarrow> (Inl not_a_number, db)
            | Some n \<Rightarrow>
                (case seq_upsert (seq_start opts) (seq_inc opts) n (db (tenantId, s)) of
                   Inl e \<Rightarrow> (Inl e, db)
                 | Inr r \<Rightarrow> (Inr (seq_result_of n r), db((tenantId, s) \<mapsto> r))))
      | _ \<Rightarrow> (Inl identifierError, db))"

definition currval :: "string \<Rightarrow> string \<Rightarrow> seq_db \<Rightarrow> int option" where
  "currval tenantId name db = map_option (\<lambda>r. to_double (sq_current r)) (db (tenantId, name))"

section \<open>Generated values\<close>

text \<open>
  The hub as the generators use it: \<open>uuid_generate_v7\<close> if it is installed, the random fallback,
  and the answer of a statement under the search path of its connection. \<open>gen_path\<close> is the search
  path each pooled connection was left with.
\<close>

record gen_hub =
  gh_uuid :: "string option"
  gh_random :: string
  gh_query :: "string option \<Rightarrow> string \<Rightarrow> jsval list \<Rightarrow> jsval res"

record gen_state =
  gen_seqs :: seq_db
  gen_path :: "nat \<Rightarrow> string option"

definition word_only :: "string \<Rightarrow> string" where
  "word_only s = filter is_word_chr s"

definition generator_error :: js_err where
  "generator_error = Err 500 ''GENERATOR''"

definition call_sql :: "string \<Rightarrow> nat \<Rightarrow> string" where
  "call_sql fn n =
     ''SELECT '' @ fn @ ''('' @ js_join '', '' (map (\<lambda>i. ''$'' @ show_int (int i + 1)) [0..<n]) @ '') AS v''"

definition gen_schema :: "string \<Rightarrow> jsval \<Rightarrow> jsval \<Rightarrow> string option" where
  "gen_schema tenantId rule fallback =
     (let logical = (if truthy (js_get ''schema'' rule) then js_get ''schema'' rule else fallback) in
      if truthy logical then Some (''tenant_'' @ word_only tenantId @ ''_'' @ word_only (js_string logical)) else None)"

text \<open>The connection \<open>conn\<close> the pool hands out keeps the search path that is set on it.\<close>

definition call_function :: "gen_hub \<Rightarrow> nat \<Rightarrow> string \<Rightarrow> jsval \<Rightarrow> jsval \<Rightarrow> gen_state \<Rightarrow> jsval res \<times> gen_state" where
  "call_function hub conn tenantId rule fallback st =
     (let fn = word_only (js_string (js_get ''function'' rule));
          args = arr_of (js_get ''args'' rule);
          path = (case gen_schema tenantId rule fallback of Some s \<Rightarrow> Some s | None \<Rightarrow> gen_path st conn)
      in (gh_query hub path (call_sql fn (length args)) args, st\<lparr>gen_path := (gen_path st)(conn := path)\<rparr>))"

definition resolve_rule :: "gen_hub \<Rightarrow> nat \<Rightarrow> string \<Rightarrow> jsval \<Rightarrow> jsval \<Rightarrow> gen_state \<Rightarrow> jsval res \<times> gen_state" where
  "resolve_rule hub conn tenantId rule fallback st =
     (if \<not> (is_obj rule \<or> is_arr rule) then (Inl generator_error, st)
      else if js_get ''strategy'' rule = JStr ''UUID_V7'' \<or> js_get ''uuid'' rule = JBool True then
        (Inr (JStr (case gh_uuid hub of Some v \<Rightarrow> v | None \<Rightarrow> gh_random hub)), st)
      else if truthy (js_get ''sequence'' rule) then
        (case nextval tenantId (JStr (js_string (js_get ''sequence'' rule)))
                (JObj [(''start'', js_get ''start'' rule), (''increment'', js_get ''increment'' rule)]) (gen_seqs st) of
           (Inl e, db) \<Rightarrow> (Inl e, st\<lparr>gen_seqs := db\<rparr>)
         | (Inr (Value v), db) \<Rightarrow> (Inr (JNum (of_int v)), st\<lparr>gen_seqs := db\<rparr>)
         | (Inr (Values _), db) \<Rightarrow> (Inr JUndef, st\<lparr>gen_seqs := db\<rparr>))
      else if truthy (js_get ''function'' rule) then call_function hub conn tenantId rule fallback st
      else (Inl generator_error, st))"

text \<open>The fields of \<open>generate\<close> in order; \<open>conn\<close> gives the connection of each step.\<close>

fun apply_fields :: "gen_hub \<Rightarrow> (nat \<Rightarrow> nat) \<Rightarrow> string \<Rightarrow> jsval \<Rightarrow> (string \<times> jsval) list \<Rightarrow> jsval \<Rightarrow> gen_state \<Rightarrow> jsval res \<times> gen_state" where
  "apply_fields hub conn tenantId doc [] fallback st = (Inr doc, st)"
| "apply_fields hub conn tenantId doc ((f, rule) # fs) fallback st =
     (case resolve_rule hub (conn (length fs)) tenantId rule
             (if truthy (js_get ''schema'' rule) then js_get ''schema'' rule else fallback) st of
        (Inl e, st') \<Rightarrow> (Inl e, st')
      | (Inr v, st') \<Rightarrow> apply_fields hub conn tenantId (JObj (kv_set f v (obj_of doc))) fs fallback st')"

definition apply_generators :: "gen_hub \<Rightarrow> (nat \<Rightarrow> nat) \<Rightarrow> string \<Rightarrow> jsval \<Rightarrow> jsval \<Rightarrow> jsval \<Rightarrow> gen_state \<Rightarrow> jsval res \<times> gen_state" where
  "apply_generators hub conn tenantId doc generate fallback st =
     apply_fields hub conn tenantId doc (obj_of generate) fallback st"

section \<open>Every value once\<close>

record seq_call =
  sc_tenant :: string
  sc_name :: jsval
  sc_opts :: jsval

definition call_key :: "seq_call \<Rightarrow> string \<times> jsval" where
  "call_key c = (sc_tenant c, sc_name c)"

definition do_call :: "seq_call \<Rightarrow> seq_db \<Rightarrow> seq_result res \<times> seq_db" where
  "do_call c db = nextval (sc_tenant c) (sc_name c) (sc_opts c) db"

text \<open>The table after the calls, and the values they drew from one sequence.\<close>

definition after_calls :: "seq_call list \<Rightarrow> seq_db" where
  "after_calls cs = foldl (\<lambda>db c. snd (do_call c db)) (\<lambda>_. None) cs"

definition values_of :: "seq_result res \<Rightarrow> int list" where
  "values_of r = (case r of Inr x \<Rightarrow> drawn x | Inl e \<Rightarrow> [])"

fun drawn_from :: "string \<times> string \<Rightarrow> seq_db \<Rightarrow> seq_call list \<Rightarrow> int list" where
  "drawn_from k db [] = []"
| "drawn_from k db (c # cs) =
     (if call_key c = (fst k, JStr (snd k)) then values_of (fst (do_call c db)) else [])
     @ drawn_from k (snd (do_call c db)) cs"

definition progression :: "int \<Rightarrow> int \<Rightarrow> nat \<Rightarrow> int list" where
  "progression a d n = map (\<lambda>i. a + d * int i) [0..<n]"

lemma progression_append: "progression a d (m + n) = progression a d m @ progression (a + d * int m) d n"
proof -
  have "[m..<m + n] = map (\<lambda>i. m + i) [0..<n]" by (simp add: map_add_upt add.commute)
  then show ?thesis
    unfolding progression_def upt_add_eq_append [OF le0, of m n] by (simp add: algebra_simps o_def)
qed

lemma progression_length [simp]: "length (progression a d n) = n"
  by (simp add: progression_def)

lemma progression_distinct: "d \<noteq> 0 \<Longrightarrow> distinct (progression a d n)"
  by (simp add: progression_def distinct_map inj_on_def)

lemma bit_count_bound: "n \<noteq> 0 \<Longrightarrow> 2 ^ (bit_count n - 1) \<le> n"
proof (induction n rule: bit_count.induct)
  case (1 n)
  show ?case
  proof (cases "n div 2 = 0")
    case False
    then have ih: "2 ^ (bit_count (n div 2) - 1) \<le> n div 2" using 1 by blast
    have "bit_count (n div 2) = Suc (bit_count (n div 2) - 1)" using False by (subst (1 2) bit_count.simps) simp
    then have "2 ^ bit_count (n div 2) = 2 * (2 :: nat) ^ (bit_count (n div 2) - 1)" by (metis power_Suc)
    also have "\<dots> \<le> n" using ih by linarith
    finally show ?thesis using 1 by (subst bit_count.simps) simp
  qed (use 1 in \<open>simp add: bit_count.simps [of n] bit_count.simps [of 0]\<close>)
qed

lemma bit_count_upper: "n < 2 ^ bit_count n"
proof (induction n rule: bit_count.induct)
  case (1 n)
  show ?case
  proof (cases "n = 0")
    case False
    then have "n div 2 < 2 ^ bit_count (n div 2)" using 1 by blast
    then show ?thesis using False by (subst bit_count.simps) (simp add: div_less_iff_less_mult mult.commute)
  qed simp
qed

text \<open>Below \<open>2 ^ 53\<close> a double is the integer it stands for, and no larger integer is read as a smaller one.\<close>

definition below53 :: "int \<Rightarrow> bool" where
  "below53 x \<longleftrightarrow> \<bar>x\<bar> < 2 ^ 53"

lemma to_double_large: "\<bar>x\<bar> > 2 ^ 53 \<Longrightarrow> \<bar>to_double x\<bar> \<ge> 2 ^ 53"
proof -
  assume x: "\<bar>x\<bar> > 2 ^ 53"
  define n where "n = nat \<bar>x\<bar>"
  have n: "2 ^ 53 < n" "\<bar>x\<bar> = int n" using x by (simp_all add: n_def)
  have "(2::nat) ^ 53 < 2 ^ bit_count n" using n(1) bit_count_upper [of n] by linarith
  then have b: "53 < bit_count n" by (rule power_less_imp_less_exp [rotated]) simp
  define u where "u = (2::nat) ^ (bit_count n - 53)"
  have "52 + (bit_count n - 53) = bit_count n - 1" using b by simp
  then have "(2::nat) ^ 52 * u = 2 ^ (bit_count n - 1)" unfolding u_def by (metis power_add)
  also have "\<dots> \<le> n" using bit_count_bound [of n] n(1) by simp
  finally have q: "2 ^ 52 \<le> n div u" by (simp add: u_def less_eq_div_iff_mult_less_eq)
  have u: "2 \<le> u" using b by (simp add: u_def self_le_power [of 2 "bit_count n - 53"])
  have "(2::nat) ^ 53 = 2 ^ 52 * 2" by simp
  also have "\<dots> \<le> (n div u) * u" using q u by (rule mult_le_mono)
  finally have low: "2 ^ 53 \<le> (n div u) * u" .
  define v where "v = int u"
  have v: "v = 2 ^ (bit_count (nat \<bar>x\<bar>) - 53)" by (simp add: v_def u_def n_def)
  have low': "2 ^ 53 \<le> \<bar>x\<bar> div v * v" "0 < v"
    using low u by (simp_all add: n(2) v_def flip: zdiv_int of_nat_mult)
  have "2 ^ 53 \<le> (\<bar>x\<bar> div v + 1) * v" using low' by (simp add: algebra_simps)
  define m where "m = (if 2 * (\<bar>x\<bar> mod v) > v \<or> 2 * (\<bar>x\<bar> mod v) = v \<and> odd (\<bar>x\<bar> div v) then \<bar>x\<bar> div v + 1 else \<bar>x\<bar> div v)"
  have "\<bar>x\<bar> div v * v \<le> m * v" using low'(2) by (simp add: m_def)
  then have mv: "2 ^ 53 \<le> m * v" using low'(1) by linarith
  have "to_double x = sgn x * (m * v)" using x unfolding to_double_def Let_def m_def v by simp
  then have "\<bar>to_double x\<bar> = \<bar>sgn x\<bar> * \<bar>m * v\<bar>" by (simp only: abs_mult)
  moreover have "\<bar>sgn x\<bar> = 1" using x by (simp add: abs_sgn_eq)
  ultimately show ?thesis using mv by simp
qed

lemma to_double_below [simp]: "below53 (to_double x) \<longleftrightarrow> below53 x"
  using to_double_large [of x] by (cases "\<bar>x\<bar> > 2 ^ 53") (auto simp: below53_def to_double_def)

lemma to_double_exact [simp]: "below53 x \<Longrightarrow> to_double x = x"
  by (simp add: below53_def to_double_def)

lemma seq_result_drawn:
  assumes "n \<ge> 1" and "list_all below53 (drawn (seq_result_of n r))"
  shows "drawn (seq_result_of n r) = progression (sq_current r - sq_increment r * (int n - 1)) (sq_increment r) n \<and> below53 (sq_current r)"
proof (cases "n = 1")
  case False
  have top: "below53 (sq_current r)"
  proof -
    have "0 \<in> set (rev [0..<n])" using assms(1) by simp
    then have "below53 (to_double (to_double (sq_current r) - sq_increment r * int 0))"
      using assms(2) False unfolding seq_result_of_def Let_def list_all_iff if_not_P [OF False] drawn.simps set_map by blast
    then show ?thesis by simp
  qed
  have "to_double (sq_current r - sq_increment r * int i) = sq_current r - sq_increment r * int i" if "i < n" for i
    using assms(2) False top that by (auto simp: seq_result_of_def Let_def list_all_iff)
  then have "drawn (seq_result_of n r) = map (\<lambda>i. sq_current r - sq_increment r * int i) (rev [0..<n])"
    using False top by (simp add: seq_result_of_def Let_def)
  also have "rev [0..<n] = map (\<lambda>i. n - 1 - i) [0..<n]"
    by (intro nth_equalityI) (simp_all add: rev_nth)
  also have "map (\<lambda>i. sq_current r - sq_increment r * int i) \<dots> = progression (sq_current r - sq_increment r * (int n - 1)) (sq_increment r) n"
    unfolding progression_def map_map by (intro map_cong refl) (auto simp: algebra_simps of_nat_diff)
  finally show ?thesis using top by simp
qed (use assms in \<open>simp add: seq_result_of_def progression_def Let_def\<close>)

lemma seq_count_pos: "seq_count opts = Some n \<Longrightarrow> n \<ge> 1"
  by (auto simp: seq_count_def)

text \<open>One call on the sequence either fails and changes nothing, or draws the next values.\<close>

lemma call_other: "call_key c \<noteq> (fst k, JStr (snd k)) \<Longrightarrow> snd (do_call c db) k = db k"
  by (cases k) (auto simp: do_call_def nextval_def call_key_def split: jsval.split option.split sum.split)

lemma call_own:
  assumes "call_key c = (fst k, JStr (snd k))"
  shows "values_of (fst (do_call c db)) = [] \<and> snd (do_call c db) k = db k
    \<or> (\<exists>n r. n \<ge> 1 \<and> seq_upsert (seq_start (sc_opts c)) (seq_inc (sc_opts c)) n (db k) = Inr r
         \<and> values_of (fst (do_call c db)) = drawn (seq_result_of n r) \<and> snd (do_call c db) k = Some r)"
proof -
  have name: "sc_name c = JStr (snd k)" "sc_tenant c = fst k" using assms by (simp_all add: call_key_def)
  show ?thesis
  proof (cases "seq_name_ok (snd k)")
    case True
    show ?thesis
    proof (cases "seq_count (sc_opts c)")
      case (Some n)
      then show ?thesis
        using True name seq_count_pos [OF Some]
        by (cases "seq_upsert (seq_start (sc_opts c)) (seq_inc (sc_opts c)) n (db k)")
          (auto simp: do_call_def nextval_def values_of_def)
    qed (use True name in \<open>simp add: do_call_def nextval_def values_of_def\<close>)
  qed (use name in \<open>simp add: do_call_def nextval_def values_of_def\<close>)
qed

lemma upsert_new:
  assumes "seq_upsert a d n None = Inr r" "n \<ge> 1" "list_all below53 (drawn (seq_result_of n r))"
  shows "drawn (seq_result_of n r) = progression a d n \<and> sq_increment r = d \<and> sq_current r = a + d * (int n - 1)"
proof -
  note d = seq_result_drawn [OF assms(2,3)]
  have r: "r = \<lparr>sq_current = to_double (a + d * (int n - 1)), sq_increment = d\<rparr>"
    using assms(1) by (auto simp: seq_upsert_def Let_def split: if_splits)
  with d have "below53 (a + d * (int n - 1))" by simp
  then show ?thesis using d r by simp
qed

lemma upsert_old:
  assumes "seq_upsert a d n (Some old) = Inr r" "n \<ge> 1" "list_all below53 (drawn (seq_result_of n r))"
  shows "drawn (seq_result_of n r) = progression (sq_current old + sq_increment old) (sq_increment old) n \<and>
    sq_increment r = sq_increment old \<and> sq_current r = sq_current old + sq_increment old * int n"
  using assms seq_result_drawn [OF assms(2,3)] by (auto simp: seq_upsert_def Let_def algebra_simps split: if_splits)

text \<open>From an existing row the values go on where it stands.\<close>

lemma drawn_from_row:
  "db k = Some r \<Longrightarrow> list_all below53 (drawn_from k db cs) \<Longrightarrow>
     drawn_from k db cs = progression (sq_current r + sq_increment r) (sq_increment r) (length (drawn_from k db cs)) \<and>
     foldl (\<lambda>db c. snd (do_call c db)) db cs k =
       Some (r\<lparr>sq_current := sq_current r + sq_increment r * int (length (drawn_from k db cs))\<rparr>)"
proof (induction cs arbitrary: db r)
  case (Cons c cs)
  let ?db = "snd (do_call c db)"
  show ?case
  proof (cases "call_key c = (fst k, JStr (snd k))")
    case False
    then show ?thesis using Cons.IH [of ?db r] Cons.prems call_other [OF False, of db] by simp
  next
    case True
    from call_own [OF True, of db] show ?thesis
    proof (elim disjE exE conjE)
      assume "values_of (fst (do_call c db)) = []" "?db k = db k"
      then show ?thesis using Cons.IH [of ?db r] Cons.prems True by simp
    next
      fix n r'
      assume n: "n \<ge> 1" and up: "seq_upsert (seq_start (sc_opts c)) (seq_inc (sc_opts c)) n (db k) = Inr r'"
        and vs: "values_of (fst (do_call c db)) = drawn (seq_result_of n r')" and db': "?db k = Some r'"
      have small: "list_all below53 (drawn (seq_result_of n r'))" "list_all below53 (drawn_from k ?db cs)"
        using Cons.prems(2) True vs by simp_all
      note u = upsert_old [OF up [unfolded Cons.prems(1)] n small(1)]
      define m where "m = length (drawn_from k ?db cs)"
      have ih: "drawn_from k ?db cs = progression (sq_current r + sq_increment r + sq_increment r * int n) (sq_increment r) m"
        "foldl (\<lambda>db c. snd (do_call c db)) ?db cs k = Some (r'\<lparr>sq_current := sq_current r' + sq_increment r' * int m\<rparr>)"
        using Cons.IH [of ?db r', OF db' small(2)] u unfolding m_def by (simp_all add: algebra_simps)
      have "drawn_from k db (c # cs) = progression (sq_current r + sq_increment r) (sq_increment r) (n + m)"
        using True vs u ih(1) by (simp add: progression_append)
      moreover have "r'\<lparr>sq_current := sq_current r' + sq_increment r' * int m\<rparr> =
          r\<lparr>sq_current := sq_current r + sq_increment r * int (n + m)\<rparr>"
        using u by (cases r; cases r') (simp add: algebra_simps)
      ultimately show ?thesis using ih(2) by simp
    qed
  qed
qed (simp add: progression_def)

lemma progression_last: "n \<ge> 1 \<Longrightarrow> last (progression a d n) = a + d * (int n - 1)"
  by (cases n) (simp_all add: progression_def)

lemma drawn_from_new:
  "db k = None \<Longrightarrow> list_all below53 (drawn_from k db cs) \<Longrightarrow>
     drawn_from k db cs = [] \<and> foldl (\<lambda>db c. snd (do_call c db)) db cs k = None \<or>
     (\<exists>c \<in> set cs. call_key c = (fst k, JStr (snd k)) \<and> drawn_from k db cs \<noteq> [] \<and>
        drawn_from k db cs = progression (seq_start (sc_opts c)) (seq_inc (sc_opts c)) (length (drawn_from k db cs)) \<and>
        map_option sq_current (foldl (\<lambda>db c. snd (do_call c db)) db cs k) = Some (last (drawn_from k db cs)))"
proof (induction cs arbitrary: db)
  case (Cons c cs)
  let ?db = "snd (do_call c db)"
  show ?case
  proof (cases "call_key c = (fst k, JStr (snd k))")
    case False
    then show ?thesis using Cons.IH [of ?db] Cons.prems call_other [OF False, of db] by auto
  next
    case True
    from call_own [OF True, of db] show ?thesis
    proof (elim disjE exE conjE)
      assume "values_of (fst (do_call c db)) = []" "?db k = db k"
      then show ?thesis using Cons.IH [of ?db] Cons.prems True by auto
    next
      fix n r
      assume n: "n \<ge> 1" and up: "seq_upsert (seq_start (sc_opts c)) (seq_inc (sc_opts c)) n (db k) = Inr r"
        and vs: "values_of (fst (do_call c db)) = drawn (seq_result_of n r)" and db': "?db k = Some r"
      have small: "list_all below53 (drawn (seq_result_of n r))" "list_all below53 (drawn_from k ?db cs)"
        using Cons.prems(2) True vs by simp_all
      note u = upsert_new [OF up [unfolded Cons.prems(1)] n small(1)]
      define m where "m = length (drawn_from k ?db cs)"
      define a d where "a = seq_start (sc_opts c)" and "d = seq_inc (sc_opts c)"
      have rest: "drawn_from k ?db cs = progression (a + d * int n) d m"
        "foldl (\<lambda>db c. snd (do_call c db)) ?db cs k = Some (r\<lparr>sq_current := sq_current r + sq_increment r * int m\<rparr>)"
        using drawn_from_row [of ?db k r cs, OF db' small(2)] u unfolding m_def a_def d_def by (simp_all add: algebra_simps)
      have all: "drawn_from k db (c # cs) = progression a d (n + m)"
        using True vs u rest(1) unfolding a_def d_def by (simp add: progression_append)
      have "last (progression a d (n + m)) = sq_current r + sq_increment r * int m"
        using n u unfolding a_def d_def by (simp add: progression_last algebra_simps)
      then have "map_option sq_current (foldl (\<lambda>db c. snd (do_call c db)) db (c # cs) k) = Some (last (drawn_from k db (c # cs)))"
        using rest(2) all by simp
      moreover have "drawn_from k db (c # cs) = progression a d (length (drawn_from k db (c # cs)))"
        using all by simp
      moreover have "drawn_from k db (c # cs) \<noteq> []" using all n by (simp add: progression_def)
      ultimately show ?thesis using True unfolding a_def d_def by (metis list.set_intros(1))
    qed
  qed
qed simp

text \<open>
  C34: whatever the order in which clients call \<open>nextval\<close>, with any tenants, names, starts, block
  sizes and failures, the values drawn from one sequence of one tenant are the arithmetic
  progression its first successful call opened, without gap or repetition, and \<open>currval\<close> is the
  last value drawn. Later calls cannot change the step. Two conditions: no call has an increment of zero, which the
  code accepts, and the values drawn stay below \<open>2 ^ 53\<close>, from where on they are rounded to doubles; without either
  values repeat, as the two lemmas below show.
\<close>

theorem sequence_values_unique:
  assumes "list_all (\<lambda>c. seq_inc (sc_opts c) \<noteq> 0) calls"
    and "list_all below53 (drawn_from (tenantId, name) (\<lambda>_. None) calls)"
  shows "(\<exists>a d n. drawn_from (tenantId, name) (\<lambda>_. None) calls = progression a d n \<and> d \<noteq> 0)
    \<and> distinct (drawn_from (tenantId, name) (\<lambda>_. None) calls)
    \<and> currval tenantId name (after_calls calls) =
       (case drawn_from (tenantId, name) (\<lambda>_. None) calls of [] \<Rightarrow> None | v # vs \<Rightarrow> Some (last (v # vs)))"
proof (cases "drawn_from (tenantId, name) (\<lambda>_. None) calls")
  case Nil
  then have "after_calls calls (tenantId, name) = None"
    using drawn_from_new [of "\<lambda>_. None" "(tenantId, name)" calls] by (auto simp: after_calls_def)
  moreover have "drawn_from (tenantId, name) (\<lambda>_. None) calls = progression 0 1 0 \<and> (1::int) \<noteq> 0" using Nil by (simp add: progression_def)
  ultimately show ?thesis using Nil unfolding currval_def by (metis distinct.simps(1) list.simps(4) option.map(1))
next
  case (Cons v vs)
  let ?k = "(tenantId, name)" and ?ds = "drawn_from (tenantId, name) (\<lambda>_. None) calls"
  have ne: "?ds \<noteq> []" using Cons by simp
  with drawn_from_new [of "\<lambda>_. None" ?k calls, OF refl assms(2)] obtain c where c: "c \<in> set calls"
    "?ds = progression (seq_start (sc_opts c)) (seq_inc (sc_opts c)) (length ?ds)"
    "map_option sq_current (foldl (\<lambda>db c. snd (do_call c db)) (\<lambda>_. None) calls ?k) = Some (last ?ds)"
    by blast
  have inc: "seq_inc (sc_opts c) \<noteq> 0" using assms(1) c(1) by (auto simp: list_all_iff)
  have "below53 (last ?ds)" using assms(2) ne by (simp add: list_all_iff)
  then have "currval tenantId name (after_calls calls) = Some (last ?ds)"
    using c(3) unfolding currval_def after_calls_def by (cases "foldl (\<lambda>db c. snd (do_call c db)) (\<lambda>_. None) calls ?k") simp_all
  moreover have "distinct ?ds" using progression_distinct [OF inc] c(2) by metis
  ultimately show ?thesis using c(2) inc Cons by (metis list.simps(5))
qed

definition two_clients :: "seq_call list" where
  "two_clients =
     [\<lparr>sc_tenant = ''acme'', sc_name = JStr ''inv'', sc_opts = JObj [(''start'', JNum 100), (''count'', JNum 3)]\<rparr>,
      \<lparr>sc_tenant = ''zeta'', sc_name = JStr ''inv'', sc_opts = JObj []\<rparr>,
      \<lparr>sc_tenant = ''acme'', sc_name = JStr ''no good'', sc_opts = JObj []\<rparr>,
      \<lparr>sc_tenant = ''acme'', sc_name = JStr ''inv'', sc_opts = JObj [(''increment'', JNum 10)]\<rparr>]"

theorem sequence_values_unique_witness:
  "drawn_from (''acme'', ''inv'') (\<lambda>_. None) two_clients = [100, 101, 102, 103] \<and>
   distinct (drawn_from (''acme'', ''inv'') (\<lambda>_. None) two_clients) \<and>
   currval ''acme'' ''inv'' (after_calls two_clients) = Some 103"
proof -
  have h: "list_all (\<lambda>c. seq_inc (sc_opts c) \<noteq> 0) two_clients" by code_simp
  have d: "drawn_from (''acme'', ''inv'') (\<lambda>_. None) two_clients = [100, 101, 102, 103]" by code_simp
  have b: "list_all below53 (drawn_from (''acme'', ''inv'') (\<lambda>_. None) two_clients)" unfolding d by code_simp
  show ?thesis using sequence_values_unique [OF h b] by (simp add: d)
qed

text \<open>From \<open>2 ^ 53\<close> on two draws give one number, and so does an increment of zero.\<close>

lemma large_values_repeat:
  fixes first :: jsval
  defines "first \<equiv> JObj [(''start'', JNum (2 ^ 53))]"
  shows "fst (nextval ''acme'' (JStr ''inv'') first (\<lambda>_. None)) = Inr (Value (2 ^ 53))"
    and "fst (nextval ''acme'' (JStr ''inv'') first (snd (nextval ''acme'' (JStr ''inv'') first (\<lambda>_. None)))) = Inr (Value (2 ^ 53))"
  unfolding first_def by code_simp+

lemma zero_increment_repeats:
  fixes opts :: jsval
  defines "opts \<equiv> JObj [(''increment'', JNum 0)]"
  shows "drawn_from (''acme'', ''inv'') (\<lambda>_. None)
    [\<lparr>sc_tenant = ''acme'', sc_name = JStr ''inv'', sc_opts = opts\<rparr>, \<lparr>sc_tenant = ''acme'', sc_name = JStr ''inv'', sc_opts = opts\<rparr>] = [1, 1]"
  unfolding opts_def by code_simp

text \<open>A block can be allocated when the sequence is new and fail with the same arguments afterwards:
the product of increment and count is an \<open>integer\<close> in the update.\<close>

lemma block_overflows_on_second_call:
  fixes opts :: jsval
  defines "opts \<equiv> JObj [(''increment'', JNum 100000), (''count'', JNum 100000)]"
  shows "isOk (fst (nextval ''acme'' (JStr ''inv'') opts (\<lambda>_. None)))"
    and "fst (nextval ''acme'' (JStr ''inv'') opts (snd (nextval ''acme'' (JStr ''inv'') opts (\<lambda>_. None)))) = Inl out_of_range"
  by (simp_all add: opts_def nextval_def seq_name_ok_def js_chr seq_count_def js_get_def seq_upsert_def seq_inc_def seq_start_def
      finite_or_one_def math_trunc_def in_bigint_def in_integer_def to_double_def range_error_def Let_def)

section \<open>The search path of a pooled connection\<close>

text \<open>A generator with a schema leaves the search path of its tenant on the connection, and the
next generator without a schema runs under it, whoever its tenant is.\<close>

lemma search_path_leaks:
  assumes "truthy (js_get ''function'' rule)" "truthy (js_get ''schema'' rule)"
  shows "gen_path (snd (call_function hub conn tenantId rule fb st)) conn = gen_schema tenantId rule fb"
    and "\<not> truthy (js_get ''schema'' rule') \<Longrightarrow>
      fst (call_function hub conn other rule' JUndef (snd (call_function hub conn tenantId rule fb st))) =
      gh_query hub (gen_schema tenantId rule fb)
        (call_sql (word_only (js_string (js_get ''function'' rule'))) (length (arr_of (js_get ''args'' rule')))) (arr_of (js_get ''args'' rule'))"
  using assms by (simp_all add: call_function_def gen_schema_def Let_def)

end
