(* ===== verification/Constraints.thy ===== *)
theory Constraints
  imports FedCore
begin

text \<open>
  \<open>modules/query-engine/constraint.service.ts\<close>: the constraints the fabric checks before a write
  to a store that has none. A specification is a JSON value, as it is stored. The regular
  expression engine and the look-ups at the source are parameters; the texts of the violations
  are not modelled.
\<close>

section \<open>The store\<close>

text \<open>The rows of \<open>fabric_constraints\<close> by tenant, schema and table.\<close>

type_synonym constraint_db = "((string \<times> string \<times> string) \<times> jsval) list"

definition upsert_spec :: "string \<Rightarrow> string \<Rightarrow> string \<Rightarrow> jsval \<Rightarrow> constraint_db \<Rightarrow> constraint_db" where
  "upsert_spec tenantId schema table spec db =
     (if (tenantId, schema, table) \<in> fst ` set db
      then map (\<lambda>(k, s). (k, if k = (tenantId, schema, table) then spec else s)) db
      else db @ [((tenantId, schema, table), spec)])"

definition list_specs :: "string \<Rightarrow> constraint_db \<Rightarrow> constraint_db" where
  "list_specs tenantId db = filter (\<lambda>(k, s). fst k = tenantId) db"

definition resolve_spec :: "string \<Rightarrow> string \<Rightarrow> string \<Rightarrow> constraint_db \<Rightarrow> jsval option" where
  "resolve_spec tenantId phys table db =
     (case map_of db (tenantId, phys, table) of
        None \<Rightarrow> None
      | Some spec \<Rightarrow>
          if truthy spec \<and> (arr_of (js_get ''columns'' spec) \<noteq> [] \<or> arr_of (js_get ''checks'' spec) \<noteq> []) then Some spec else None)"

section \<open>Checks from a manifest\<close>

text \<open>The rest of the text after \<open>\s+AND\s+\<close>, ignoring case.\<close>

definition after_and :: "string \<Rightarrow> string option" where
  "after_and s =
     (let r = dropWhile is_space s in
      if s \<noteq> [] \<and> is_space (hd s) \<and> js_upper (take 3 r) = ''AND'' \<and> drop 3 r \<noteq> [] \<and> is_space (hd (drop 3 r))
      then Some (dropWhile is_space (drop 3 r)) else None)"

lemma after_and_shorter: "after_and s = Some t \<Longrightarrow> length t < length s"
proof -
  assume a: "after_and s = Some t"
  then have t: "t = dropWhile is_space (drop 3 (dropWhile is_space s))" "s \<noteq> []"
    and "drop 3 (dropWhile is_space s) \<noteq> []"
    by (auto simp: after_and_def Let_def split: if_splits)
  then have "length t \<le> length (drop 3 (dropWhile is_space s))" by (metis t(1) length_dropWhile_le)
  also have "\<dots> < length (dropWhile is_space s)" using \<open>drop 3 (dropWhile is_space s) \<noteq> []\<close> by simp
  also have "\<dots> \<le> length s" by (rule length_dropWhile_le)
  finally show ?thesis .
qed

text \<open>\<open>expression.split(/\s+AND\s+/i)\<close>\<close>

function split_and :: "string \<Rightarrow> string list" where
  "split_and s =
     (case s of
        [] \<Rightarrow> [[]]
      | c # cs \<Rightarrow>
          (case after_and s of
             Some t \<Rightarrow> [] # split_and t
           | None \<Rightarrow> (case split_and cs of [] \<Rightarrow> [[c]] | p # ps \<Rightarrow> (c # p) # ps)))"
  by pat_completeness auto

termination
  by (relation "measure length") (auto dest: after_and_shorter)

declare split_and.simps [simp del]

definition check_rule :: "string \<Rightarrow> string \<Rightarrow> string \<Rightarrow> jsval \<Rightarrow> jsval" where
  "check_rule name col op v = JObj [(''name'', JStr name), (''column'', JStr col), (''op'', JStr op), (''value'', v)]"

definition comparison_ops :: "(string \<times> string) list" where
  "comparison_ops = [(''>='', ''GTE''), (''<='', ''LTE''), (''<>'', ''NEQ''), (''!='', ''NEQ''), (''>'', ''GT''), (''<'', ''LT''), (''='', ''EQ'')]"

text \<open>\<open>'(.+)'$\<close> where the dot matches no line terminator.\<close>

definition quoted_pattern :: "string \<Rightarrow> string option" where
  "quoted_pattern r =
     (if length r \<ge> 3 \<and> hd r = CHR 0x27 \<and> last r = CHR 0x27 \<and> list_all (\<lambda>c. code_unit c \<noteq> 10 \<and> code_unit c \<noteq> 13) (butlast (tl r))
      then Some (butlast (tl r)) else None)"

definition parseCheckExpression :: "string \<Rightarrow> string \<Rightarrow> jsval option" where
  "parseCheckExpression name expr =
     (let s = js_trim expr; col = takeWhile is_word_chr s; r = dropWhile is_space (dropWhile is_word_chr s) in
      if col = [] \<or> \<not> is_ident_start (hd col) then None
      else if r \<noteq> [] \<and> hd r = CHR ''~'' then
        (let r1 = tl r; r2 = (if r1 \<noteq> [] \<and> hd r1 = CHR ''*'' then tl r1 else r1)
         in map_option (\<lambda>p. check_rule name col ''REGEX'' (JStr p)) (quoted_pattern (dropWhile is_space r2)))
      else (case List.find (\<lambda>(lit, op). starts_with r lit) comparison_ops of
              None \<Rightarrow> None
            | Some (lit, op) \<Rightarrow>
                let d = dropWhile is_space (drop (length lit) r)
                in if decimal_text d then Some (check_rule name col op (num_or_nan (number_of_string d))) else None))"

definition is_enum_type :: "jsval \<Rightarrow> bool" where
  "is_enum_type ty \<longleftrightarrow> js_upper (js_string ty) = ''ENUM''"

text \<open>The constraints of one column; \<open>None\<close> when it has none.\<close>

definition column_spec :: "(string \<times> jsval) list \<Rightarrow> jsval list \<Rightarrow> jsval \<Rightarrow> jsval option" where
  "column_spec enums fks c =
     (let nn = (if js_get ''nullable'' c = JBool False \<or> truthy (js_get ''primaryKey'' c) then [(''notNull'', JBool True)] else []);
          un = (if truthy (js_get ''unique'' c) \<or> truthy (js_get ''primaryKey'' c) then [(''unique'', JBool True)] else []);
          en = (if is_enum_type (js_get ''type'' c) \<and> truthy (js_get ''ref'' c)
                then (case kv_get (js_string (js_get ''ref'' c)) enums of Some vs \<Rightarrow> if truthy vs then [(''enum'', vs)] else [] | None \<Rightarrow> []) else []);
          fk = (case List.find (\<lambda>f. strict_eq (js_get ''column'' f) (js_get ''name'' c)) fks of Some f \<Rightarrow> [(''fk'', f)] | None \<Rightarrow> [])
      in if nn @ un @ en @ fk = [] then None else Some (JObj ((''name'', js_get ''name'' c) # nn @ un @ en @ fk)))"

definition constraint_checks :: "jsval \<Rightarrow> jsval list" where
  "constraint_checks con =
     (if js_get ''type'' con = JStr ''CHECK'' \<and> truthy (js_get ''expression'' con)
      then List.map_filter (\<lambda>part. parseCheckExpression (js_string (js_get ''name'' con)) (js_trim part))
             (split_and (js_string (js_get ''expression'' con)))
      else [])"

definition specFromManifestTable :: "jsval \<Rightarrow> (string \<times> jsval) list \<Rightarrow> jsval list \<Rightarrow> jsval" where
  "specFromManifestTable resource enums fks =
     JObj [(''columns'', JArr (List.map_filter (column_spec enums fks) (arr_of (js_get ''columns'' resource)))),
           (''checks'', JArr (concat (map constraint_checks (arr_of (js_get ''constraints'' resource)))
                              @ arr_of (js_get ''checks'' resource)))]"

section \<open>Evaluation\<close>

text \<open>\<open>===\<close> between values of different documents: objects and arrays are never the same.\<close>

definition same_value :: "jsval \<Rightarrow> jsval \<Rightarrow> bool" where
  "same_value a b \<longleftrightarrow> \<not> is_ref a \<and> strict_eq a b"

definition includes_value :: "jsval list \<Rightarrow> jsval \<Rightarrow> bool" where
  "includes_value xs v \<longleftrightarrow> list_ex (\<lambda>x. same_value x v \<or> x = JNaN \<and> v = JNaN) xs"

definition num_cmp :: "(rat \<Rightarrow> rat \<Rightarrow> bool) \<Rightarrow> jsval \<Rightarrow> jsval \<Rightarrow> bool" where
  "num_cmp f a b = (case (js_number a, js_number b) of (Some x, Some y) \<Rightarrow> f x y | _ \<Rightarrow> False)"

type_synonym pattern_test = "string \<Rightarrow> string \<Rightarrow> bool res"

definition pattern_of :: "jsval \<Rightarrow> string" where
  "pattern_of v = (case v of JUndef \<Rightarrow> ''(?:)'' | _ \<Rightarrow> js_string v)"

definition evalCheck :: "pattern_test \<Rightarrow> jsval \<Rightarrow> jsval \<Rightarrow> bool" where
  "evalCheck rx rule v =
     (let op = js_get ''op'' rule; arg = js_get ''value'' rule in
      if nullish v then op \<noteq> JStr ''NOT_NULL''
      else if op = JStr ''REGEX'' then (case rx (pattern_of arg) (js_string v) of Inr b \<Rightarrow> b | Inl e \<Rightarrow> True)
      else if op = JStr ''GT'' then num_cmp (>) v arg
      else if op = JStr ''GTE'' then num_cmp (\<ge>) v arg
      else if op = JStr ''LT'' then num_cmp (<) v arg
      else if op = JStr ''LTE'' then num_cmp (\<le>) v arg
      else if op = JStr ''EQ'' then same_value v arg
      else if op = JStr ''NEQ'' then \<not> same_value v arg
      else if op = JStr ''IN'' then is_arr arg \<and> includes_value (arr_of arg) v
      else if op = JStr ''LEN_LTE'' then num_cmp (\<le>) (JNum (of_nat (length (js_string v)))) arg
      else True)"

section \<open>Validation\<close>

datatype write_op = Create | Update

record violation =
  vi_constraint :: string
  vi_column :: string
  vi_rule :: string

record lookups =
  lk_count :: "(string \<Rightarrow> jsval \<Rightarrow> nat res) option"
  lk_fk :: "(jsval \<Rightarrow> jsval \<Rightarrow> bool res) option"

definition has_key :: "string \<Rightarrow> jsval \<Rightarrow> bool" where
  "has_key k row \<longleftrightarrow> kv_get k (obj_of row) \<noteq> None"

definition violate :: "string \<Rightarrow> string \<Rightarrow> string \<Rightarrow> violation" where
  "violate name suffix rule = \<lparr>vi_constraint = name @ suffix, vi_column = name, vi_rule = rule\<rparr>"

definition not_null_check :: "write_op \<Rightarrow> jsval \<Rightarrow> jsval \<Rightarrow> violation list" where
  "not_null_check op col row =
     (let n = js_string (js_get ''name'' col) in
      if truthy (js_get ''notNull'' col) \<and> nullish (js_get n row) \<and> (op = Create \<or> has_key n row)
      then [violate n ''_not_null'' ''NOT_NULL''] else [])"

definition enum_check :: "jsval \<Rightarrow> jsval \<Rightarrow> violation list" where
  "enum_check col row =
     (let n = js_string (js_get ''name'' col); v = js_get n row in
      if truthy (js_get ''enum'' col) \<and> \<not> nullish v \<and> \<not> includes_value (arr_of (js_get ''enum'' col)) v
      then [violate n ''_enum'' ''ENUM''] else [])"

definition unique_check :: "lookups \<Rightarrow> jsval \<Rightarrow> jsval \<Rightarrow> violation list res" where
  "unique_check lk col row =
     (let n = js_string (js_get ''name'' col); v = js_get n row in
      if truthy (js_get ''unique'' col) \<and> \<not> nullish v
      then (case lk_count lk of
              None \<Rightarrow> Inr []
            | Some countWhere \<Rightarrow> mapR (\<lambda>k. if k > 0 then [violate n ''_unique'' ''UNIQUE''] else []) (countWhere n v))
      else Inr [])"

definition fk_check :: "lookups \<Rightarrow> jsval \<Rightarrow> jsval \<Rightarrow> violation list res" where
  "fk_check lk col row =
     (let n = js_string (js_get ''name'' col); v = js_get n row in
      if truthy (js_get ''fk'' col) \<and> \<not> nullish v
      then (case lk_fk lk of
              None \<Rightarrow> Inr []
            | Some fkExists \<Rightarrow> mapR (\<lambda>ok. if ok then [] else [violate n ''_fk'' ''FOREIGN_KEY'']) (fkExists (js_get ''fk'' col) v))
      else Inr [])"

definition column_violations :: "write_op \<Rightarrow> lookups \<Rightarrow> jsval \<Rightarrow> jsval \<Rightarrow> violation list res" where
  "column_violations op lk row col =
     bindR (unique_check lk col row) (\<lambda>u. mapR (\<lambda>f. not_null_check op col row @ enum_check col row @ u @ f) (fk_check lk col row))"

definition check_violations :: "pattern_test \<Rightarrow> write_op \<Rightarrow> jsval \<Rightarrow> jsval \<Rightarrow> violation list" where
  "check_violations rx op row chk =
     (let c = js_string (js_get ''column'' chk) in
      if op = Update \<and> \<not> has_key c row then []
      else if evalCheck rx chk (js_get c row) then []
      else [\<lparr>vi_constraint = js_string (js_get ''name'' chk), vi_column = c, vi_rule = ''CHECK('' @ js_string (js_get ''op'' chk) @ '')''\<rparr>])"

definition row_violations :: "pattern_test \<Rightarrow> jsval \<Rightarrow> write_op \<Rightarrow> lookups \<Rightarrow> jsval \<Rightarrow> violation list res" where
  "row_violations rx spec op lk row =
     mapR (\<lambda>vs. concat vs @ concat (map (check_violations rx op row) (arr_of (js_get ''checks'' spec))))
       (mapMR (column_violations op lk row) (arr_of (js_get ''columns'' spec)))"

definition validate :: "pattern_test \<Rightarrow> jsval list \<Rightarrow> jsval \<Rightarrow> write_op \<Rightarrow> lookups \<Rightarrow> violation list res" where
  "validate rx rows spec op lk = mapR concat (mapMR (row_violations rx spec op lk) rows)"

section \<open>What an accepted write keeps\<close>

definition cell :: "jsval \<Rightarrow> jsval \<Rightarrow> jsval" where
  "cell col row = js_get (js_string (js_get ''name'' col)) row"

text \<open>
  The meaning of a check for a value, stated apart from its evaluation: a null value fails \<open>NOT_NULL\<close> only, the
  comparisons are of numbers, equality is of primitive values, and a pattern that is no regular expression forbids nothing.
\<close>

definition check_holds :: "pattern_test \<Rightarrow> jsval \<Rightarrow> jsval \<Rightarrow> bool" where
  "check_holds rx rule v \<longleftrightarrow>
     (let op = js_get ''op'' rule; arg = js_get ''value'' rule in
      (op = JStr ''NOT_NULL'' \<longrightarrow> \<not> nullish v) \<and>
      (op = JStr ''REGEX'' \<longrightarrow> nullish v \<or> rx (pattern_of arg) (js_string v) \<noteq> Inr False) \<and>
      (op = JStr ''GT'' \<longrightarrow> nullish v \<or> (\<exists>x y. js_number v = Some x \<and> js_number arg = Some y \<and> y < x)) \<and>
      (op = JStr ''GTE'' \<longrightarrow> nullish v \<or> (\<exists>x y. js_number v = Some x \<and> js_number arg = Some y \<and> y \<le> x)) \<and>
      (op = JStr ''LT'' \<longrightarrow> nullish v \<or> (\<exists>x y. js_number v = Some x \<and> js_number arg = Some y \<and> x < y)) \<and>
      (op = JStr ''LTE'' \<longrightarrow> nullish v \<or> (\<exists>x y. js_number v = Some x \<and> js_number arg = Some y \<and> x \<le> y)) \<and>
      (op = JStr ''EQ'' \<longrightarrow> nullish v \<or> v = arg \<and> \<not> is_ref v \<and> v \<noteq> JNaN) \<and>
      (op = JStr ''NEQ'' \<longrightarrow> nullish v \<or> v \<noteq> arg \<or> is_ref v \<or> v = JNaN) \<and>
      (op = JStr ''IN'' \<longrightarrow> nullish v \<or> (\<exists>xs. arg = JArr xs \<and> v \<in> set xs \<and> \<not> is_ref v)) \<and>
      (op = JStr ''LEN_LTE'' \<longrightarrow> nullish v \<or> (\<exists>y. js_number arg = Some y \<and> of_nat (length (js_string v)) \<le> y)))"

definition row_ok :: "pattern_test \<Rightarrow> jsval \<Rightarrow> jsval \<Rightarrow> bool" where
  "row_ok rx spec row \<longleftrightarrow>
     (\<forall>col \<in> set (arr_of (js_get ''columns'' spec)).
       (truthy (js_get ''notNull'' col) \<longrightarrow> \<not> nullish (cell col row)) \<and>
       (truthy (js_get ''enum'' col) \<longrightarrow> nullish (cell col row) \<or> cell col row \<in> set (arr_of (js_get ''enum'' col)) \<and> \<not> is_ref (cell col row))) \<and>
     (\<forall>chk \<in> set (arr_of (js_get ''checks'' spec)). check_holds rx chk (js_get (js_string (js_get ''column'' chk)) row))"

lemma same_value_iff: "same_value a b \<longleftrightarrow> a = b \<and> \<not> is_ref a \<and> a \<noteq> JNaN"
  by (cases a; cases b) (auto simp: same_value_def is_ref_def)

lemma includes_value_iff: "includes_value xs v \<longleftrightarrow> v \<in> set xs \<and> \<not> is_ref v"
  by (auto simp: includes_value_def list_ex_iff same_value_iff is_ref_def)

lemma num_cmp_iff: "num_cmp f a b \<longleftrightarrow> (\<exists>x y. js_number a = Some x \<and> js_number b = Some y \<and> f x y)"
  by (auto simp: num_cmp_def split: option.splits)

lemma evalCheck_holds: "evalCheck rx rule v \<longleftrightarrow> check_holds rx rule v"
proof (cases "nullish v")
  case False
  have "is_arr a \<and> x \<in> set (arr_of a) \<longleftrightarrow> (\<exists>xs. a = JArr xs \<and> x \<in> set xs)" for a x by (cases a) auto
  then show ?thesis using False
    by (simp add: evalCheck_def check_holds_def Let_def num_cmp_iff same_value_iff includes_value_iff split: sum.splits) blast
qed (auto simp: evalCheck_def check_holds_def Let_def)

text \<open>The same, as the code evaluates it.\<close>

definition row_checked :: "pattern_test \<Rightarrow> jsval \<Rightarrow> jsval \<Rightarrow> bool" where
  "row_checked rx spec row \<longleftrightarrow>
     list_all (\<lambda>col. (truthy (js_get ''notNull'' col) \<longrightarrow> \<not> nullish (cell col row)) \<and>
       (truthy (js_get ''enum'' col) \<longrightarrow> nullish (cell col row) \<or> includes_value (arr_of (js_get ''enum'' col)) (cell col row)))
       (arr_of (js_get ''columns'' spec)) \<and>
     list_all (\<lambda>chk. evalCheck rx chk (js_get (js_string (js_get ''column'' chk)) row)) (arr_of (js_get ''checks'' spec))"

lemma row_ok_checked: "row_ok rx spec row = row_checked rx spec row"
  by (simp add: row_ok_def row_checked_def list_all_iff evalCheck_holds includes_value_iff)

definition unique_columns :: "jsval \<Rightarrow> jsval list" where
  "unique_columns spec = filter (\<lambda>col. truthy (js_get ''unique'' col)) (arr_of (js_get ''columns'' spec))"

definition apart :: "jsval \<Rightarrow> jsval \<Rightarrow> jsval \<Rightarrow> bool" where
  "apart col a b \<longleftrightarrow> nullish (cell col a) \<or> is_ref (cell col a) \<or> cell col a = JNaN \<or> cell col a \<noteq> cell col b"

lemma apart_same: "apart col a b \<longleftrightarrow> nullish (cell col a) \<or> \<not> same_value (cell col a) (cell col b)"
  by (auto simp: apart_def same_value_iff)

definition unique_ok :: "jsval \<Rightarrow> jsval list \<Rightarrow> bool" where
  "unique_ok spec rows \<longleftrightarrow> list_all (\<lambda>col. sorted_wrt (apart col) rows) (unique_columns spec)"

definition table_ok :: "pattern_test \<Rightarrow> jsval \<Rightarrow> jsval list \<Rightarrow> bool" where
  "table_ok rx spec rows \<longleftrightarrow> list_all (row_ok rx spec) rows \<and> unique_ok spec rows"

text \<open>The look-up of \<open>mutate\<close> at the target table, with its limit of one row.\<close>

definition count_at :: "jsval list \<Rightarrow> string \<Rightarrow> jsval \<Rightarrow> nat res" where
  "count_at table c v = Inr (length (take 1 (filter (\<lambda>r. same_value (js_get c r) v) table)))"

text \<open>
  Setting a field: the script for Elasticsearch assigns the key as it is; \<open>$set\<close> of MongoDB reads a key with dots as a
  path and makes the objects that are missing on it. A path through another value is refused by MongoDB, or indexes an
  array of the document: here it changes nothing.
\<close>

datatype doc_store = MongoStore | ElasticStore

fun set_path :: "string list \<Rightarrow> jsval \<Rightarrow> (string \<times> jsval) list \<Rightarrow> (string \<times> jsval) list" where
  "set_path [] v kvs = kvs"
| "set_path [k] v kvs = kv_set k v kvs"
| "set_path (k # k' # ks) v kvs =
     (case kv_get k kvs of
        None \<Rightarrow> kv_set k (JObj (set_path (k' # ks) v [])) kvs
      | Some (JObj o1) \<Rightarrow> kv_set k (JObj (set_path (k' # ks) v o1)) kvs
      | Some _ \<Rightarrow> kvs)"

definition set_field :: "doc_store \<Rightarrow> (string \<times> jsval) list \<Rightarrow> string \<times> jsval \<Rightarrow> (string \<times> jsval) list" where
  "set_field st kvs f = (case st of ElasticStore \<Rightarrow> kv_set (fst f) (snd f) kvs | MongoStore \<Rightarrow> set_path (split_chr CHR ''.'' (fst f)) (snd f) kvs)"

definition set_fields :: "doc_store \<Rightarrow> jsval \<Rightarrow> jsval \<Rightarrow> jsval" where
  "set_fields st d r = JObj (foldl (set_field st) (obj_of r) (obj_of d))"

text \<open>Documents are appended, or the fields of the first document are set in the matching ones.\<close>

fun apply_write :: "doc_store \<Rightarrow> write_op \<Rightarrow> (jsval \<Rightarrow> bool) \<Rightarrow> jsval list \<Rightarrow> jsval list \<Rightarrow> jsval list" where
  "apply_write st Create P docs table = table @ docs"
| "apply_write st Update P docs table = map (\<lambda>r. if P r then set_fields st (hd docs) r else r) table"

text \<open>The columns a specification speaks of, and the documents whose dotted keys do not reach into one of them.\<close>

definition constrained :: "jsval \<Rightarrow> string set" where
  "constrained spec = (\<lambda>col. js_string (js_get ''name'' col)) ` set (arr_of (js_get ''columns'' spec))
     \<union> (\<lambda>chk. js_string (js_get ''column'' chk)) ` set (arr_of (js_get ''checks'' spec))"

definition keys_apart :: "jsval \<Rightarrow> jsval \<Rightarrow> bool" where
  "keys_apart spec d \<longleftrightarrow> list_all (\<lambda>(k, v). CHR ''.'' \<in> set k \<longrightarrow> hd (split_chr CHR ''.'' k) \<notin> constrained spec \<and> k \<notin> constrained spec) (obj_of d)"

text \<open>The documents of an insert do not clash with each other; an update of a unique column has one target.\<close>

fun one_target :: "jsval \<Rightarrow> write_op \<Rightarrow> (jsval \<Rightarrow> bool) \<Rightarrow> jsval list \<Rightarrow> jsval list \<Rightarrow> bool" where
  "one_target spec Create P docs table = unique_ok spec docs"
| "one_target spec Update P docs table =
     (list_all (\<lambda>d. distinct (map fst (obj_of d)) \<and> keys_apart spec d) docs \<and> length docs = 1 \<and>
      (length (filter P table) \<le> 1 \<or> list_all (\<lambda>col. nullish (cell col (hd docs))) (unique_columns spec)))"

lemma mapMR_at: "mapMR f xs = Inr ys \<Longrightarrow> x \<in> set xs \<Longrightarrow> \<exists>y \<in> set ys. f x = Inr y"
  by (induction xs arbitrary: ys) auto

lemma validate_rows:
  assumes "validate rx rows spec op lk = Inr []" "row \<in> set rows"
  shows "row_violations rx spec op lk row = Inr []"
proof -
  obtain vss where vss: "mapMR (row_violations rx spec op lk) rows = Inr vss" "concat vss = []"
    using assms(1) by (auto simp: validate_def)
  with mapMR_at [OF vss(1) assms(2)] show ?thesis by auto
qed

lemma row_violations_empty:
  assumes "row_violations rx spec op lk row = Inr []"
  shows "col \<in> set (arr_of (js_get ''columns'' spec)) \<Longrightarrow>
      not_null_check op col row = [] \<and> enum_check col row = [] \<and> unique_check lk col row = Inr []"
    and "chk \<in> set (arr_of (js_get ''checks'' spec)) \<Longrightarrow> check_violations rx op row chk = []"
proof -
  obtain vss where vss: "mapMR (column_violations op lk row) (arr_of (js_get ''columns'' spec)) = Inr vss"
      "concat vss = []" "concat (map (check_violations rx op row) (arr_of (js_get ''checks'' spec))) = []"
    using assms by (auto simp: row_violations_def)
  show "not_null_check op col row = [] \<and> enum_check col row = [] \<and> unique_check lk col row = Inr []"
    if c: "col \<in> set (arr_of (js_get ''columns'' spec))"
  proof -
    have "column_violations op lk row col = Inr []" using mapMR_at [OF vss(1) c] vss(2) by auto
    then show ?thesis by (auto simp: column_violations_def)
  qed
  show "check_violations rx op row chk = []" if "chk \<in> set (arr_of (js_get ''checks'' spec))"
    using vss(3) that by simp
qed

text \<open>An accepted document of an insert satisfies the row constraints.\<close>

lemma created_row_ok:
  assumes "row_violations rx spec Create lk row = Inr []"
  shows "row_ok rx spec row"
proof -
  note col = row_violations_empty(1) [OF assms] and chk = row_violations_empty(2) [OF assms]
  have "(truthy (js_get ''notNull'' c) \<longrightarrow> \<not> nullish (cell c row)) \<and>
      (truthy (js_get ''enum'' c) \<longrightarrow> nullish (cell c row) \<or> includes_value (arr_of (js_get ''enum'' c)) (cell c row))"
    if "c \<in> set (arr_of (js_get ''columns'' spec))" for c
    using col [OF that] by (auto simp: not_null_check_def enum_check_def cell_def Let_def split: if_splits)
  moreover have "evalCheck rx c (js_get (js_string (js_get ''column'' c)) row)" if "c \<in> set (arr_of (js_get ''checks'' spec))" for c
    using chk [OF that] by (auto simp: check_violations_def Let_def split: if_splits)
  ultimately show ?thesis by (simp add: row_ok_checked row_checked_def list_all_iff)
qed

lemma set_path_other: "ks \<noteq> [] \<Longrightarrow> c \<noteq> hd ks \<Longrightarrow> kv_get c (set_path ks v kvs) = kv_get c kvs"
  by (cases "(ks, v, kvs)" rule: set_path.cases) (auto split: option.splits jsval.splits)

lemma set_field_get:
  assumes "CHR ''.'' \<in> set k \<longrightarrow> hd (split_chr CHR ''.'' k) \<noteq> c \<and> k \<noteq> c"
  shows "kv_get c (set_field st kvs (k, v)) = (if c = k then Some v else kv_get c kvs)"
proof (cases "CHR ''.'' \<in> set k")
  case True
  then show ?thesis using assms set_path_other [of "split_chr CHR ''.'' k" c v kvs]
    by (auto simp: set_field_def split: doc_store.split)
next
  case False
  then have "split_chr CHR ''.'' k = [k]" by (rule split_no_sep)
  then show ?thesis by (simp add: set_field_def split: doc_store.split)
qed

lemma set_field_fold:
  assumes "distinct (map fst fs)" and "\<And>k v. (k, v) \<in> set fs \<Longrightarrow> CHR ''.'' \<in> set k \<Longrightarrow> hd (split_chr CHR ''.'' k) \<noteq> c \<and> k \<noteq> c"
  shows "kv_get c (foldl (set_field st) kvs fs) = (case kv_get c fs of Some v \<Rightarrow> Some v | None \<Rightarrow> kv_get c kvs)"
  using assms
proof (induction fs arbitrary: kvs)
  case (Cons f fs)
  obtain k v where f: "f = (k, v)" by force
  have head: "kv_get c (set_field st kvs (k, v)) = (if c = k then Some v else kv_get c kvs)"
    using Cons.prems(2) [of k v] by (intro set_field_get) (simp add: f)
  have tail: "kv_get c (foldl (set_field st) (set_field st kvs (k, v)) fs) =
      (case kv_get c fs of Some v \<Rightarrow> Some v | None \<Rightarrow> kv_get c (set_field st kvs (k, v)))"
    using Cons.prems by (intro Cons.IH) (auto simp: f)
  have "c = k \<Longrightarrow> kv_get c fs = None" using Cons.prems(1) by (simp add: f kv_get_None)
  show ?case
  proof (cases "c = k")
    case True
    then show ?thesis using tail head \<open>c = k \<Longrightarrow> kv_get c fs = None\<close> by (simp add: f)
  next
    case False
    then have "kv_get c (set_field st kvs (k, v)) = kv_get c kvs" using head by simp
    with tail False show ?thesis unfolding f foldl_Cons by (cases "kv_get c fs") simp_all
  qed
qed simp

lemma js_get_set_fields:
  assumes "distinct (map fst (obj_of d))" "keys_apart spec d" "c \<in> constrained spec"
  shows "js_get c (set_fields st d r) = (if has_key c d then js_get c d else js_get c r)"
proof -
  have "hd (split_chr CHR ''.'' k) \<noteq> c \<and> k \<noteq> c" if "(k, v) \<in> set (obj_of d)" "CHR ''.'' \<in> set k" for k v
    using assms(2,3) that by (auto simp: keys_apart_def list_all_iff)
  then have "kv_get c (foldl (set_field st) (obj_of r) (obj_of d)) =
      (case kv_get c (obj_of d) of Some v \<Rightarrow> Some v | None \<Rightarrow> kv_get c (obj_of r))"
    by (rule set_field_fold [OF assms(1)])
  then show ?thesis
    by (auto simp: js_get_def set_fields_def has_key_def split: option.splits)
qed

lemma constrained_mem:
  "col \<in> set (arr_of (js_get ''columns'' spec)) \<Longrightarrow> js_string (js_get ''name'' col) \<in> constrained spec"
  "chk \<in> set (arr_of (js_get ''checks'' spec)) \<Longrightarrow> js_string (js_get ''column'' chk) \<in> constrained spec"
  by (simp_all add: constrained_def)

text \<open>Setting accepted fields keeps the row constraints of a row.\<close>

lemma updated_row_ok:
  assumes v: "row_violations rx spec Update lk d = Inr []" and d: "distinct (map fst (obj_of d))" "keys_apart spec d" and r: "row_ok rx spec r"
  shows "row_ok rx spec (set_fields st d r)"
proof -
  let ?r = "set_fields st d r"
  note col = row_violations_empty(1) [OF v] and chk = row_violations_empty(2) [OF v]
  note get = js_get_set_fields [OF d]
  have "(truthy (js_get ''notNull'' c) \<longrightarrow> \<not> nullish (cell c ?r)) \<and>
      (truthy (js_get ''enum'' c) \<longrightarrow> nullish (cell c ?r) \<or> includes_value (arr_of (js_get ''enum'' c)) (cell c ?r))"
    if c: "c \<in> set (arr_of (js_get ''columns'' spec))" for c
  proof (cases "has_key (js_string (js_get ''name'' c)) d")
    case True
    with col [OF c] show ?thesis
      by (auto simp: not_null_check_def enum_check_def cell_def Let_def get [OF constrained_mem(1) [OF c]] split: if_splits)
  next
    case False
    with r c show ?thesis by (auto simp: row_ok_checked row_checked_def list_all_iff cell_def get [OF constrained_mem(1) [OF c]])
  qed
  moreover have "evalCheck rx c (js_get (js_string (js_get ''column'' c)) ?r)" if c: "c \<in> set (arr_of (js_get ''checks'' spec))" for c
  proof (cases "has_key (js_string (js_get ''column'' c)) d")
    case True
    with chk [OF c] show ?thesis by (auto simp: check_violations_def Let_def get [OF constrained_mem(2) [OF c]] split: if_splits)
  next
    case False
    with r c show ?thesis by (auto simp: row_ok_checked row_checked_def list_all_iff get [OF constrained_mem(2) [OF c]])
  qed
  ultimately show ?thesis by (simp add: row_ok_checked row_checked_def list_all_iff)
qed

text \<open>An accepted value of a unique column occurs in no row of the table.\<close>

lemma accepted_value_new:
  assumes v: "row_violations rx spec op \<lparr>lk_count = Some (count_at table), lk_fk = fk\<rparr> row = Inr []"
    and col: "col \<in> set (unique_columns spec)" and val: "\<not> nullish (cell col row)" and r: "r \<in> set table"
  shows "\<not> same_value (cell col r) (cell col row)"
proof
  let ?P = "\<lambda>r. same_value (cell col r) (cell col row)"
  assume "?P r"
  with r have "filter ?P table \<noteq> []" by (auto simp: filter_empty_conv)
  then have ne: "take 1 (filter ?P table) \<noteq> []" by simp
  have "unique_check \<lparr>lk_count = Some (count_at table), lk_fk = fk\<rparr> col row = Inr []" "truthy (js_get ''unique'' col)"
    using row_violations_empty(1) [OF v, of col] col by (simp_all add: unique_columns_def)
  with val ne show False
    by (simp add: unique_check_def count_at_def cell_def Let_def split: if_splits)
qed

lemma same_value_sym: "same_value a b \<Longrightarrow> same_value b a"
  by (cases a) (auto simp: same_value_def is_ref_def)

lemma same_value_nullish: "nullish b \<Longrightarrow> \<not> nullish a \<Longrightarrow> \<not> same_value a b"
  by (cases a; cases b) (auto simp: same_value_def)

lemma one_match: "length (filter P xs) \<le> 1 \<Longrightarrow> i < k \<Longrightarrow> k < length xs \<Longrightarrow> \<not> (P (xs ! i) \<and> P (xs ! k))"
proof (induction xs arbitrary: i k)
  case (Cons x xs)
  show ?case
  proof
    assume p: "P ((x # xs) ! i) \<and> P ((x # xs) ! k)"
    obtain k' where k: "k = Suc k'" "k' < length xs" using Cons.prems by (cases k) auto
    show False
    proof (cases i)
      case 0
      then have "P x" "xs ! k' \<in> set (filter P xs)" using p k by auto
      then show False using Cons.prems(1) by (cases "filter P xs") auto
    next
      case (Suc i')
      then show False using Cons.IH [of i' k'] Cons.prems p k by (auto split: if_splits)
    qed
  qed
qed simp

lemma inserted_unique:
  assumes T: "unique_ok spec table" "unique_ok spec docs"
    and v: "\<And>d. d \<in> set docs \<Longrightarrow> row_violations rx spec op \<lparr>lk_count = Some (count_at table), lk_fk = fk\<rparr> d = Inr []"
  shows "unique_ok spec (table @ docs)"
proof -
  have "apart col t d" if "col \<in> set (unique_columns spec)" "t \<in> set table" "d \<in> set docs" for col t d
    using accepted_value_new [OF v [OF that(3)] that(1) _ that(2)] same_value_nullish [of "cell col d" "cell col t"]
    by (auto simp: apart_same)
  then show ?thesis using T by (auto simp: unique_ok_def list_all_iff sorted_wrt_append)
qed

lemma updated_unique:
  assumes T: "unique_ok spec table" and d: "distinct (map fst (obj_of d))" "keys_apart spec d"
    and v: "row_violations rx spec op \<lparr>lk_count = Some (count_at table), lk_fk = fk\<rparr> d = Inr []"
    and one: "length (filter P table) \<le> 1 \<or> list_all (\<lambda>col. nullish (cell col d)) (unique_columns spec)"
  shows "unique_ok spec (map (\<lambda>r. if P r then set_fields st d r else r) table)"
  unfolding unique_ok_def list_all_iff sorted_wrt_map
proof
  let ?f = "\<lambda>r. if P r then set_fields st d r else r"
  fix col assume col: "col \<in> set (unique_columns spec)"
  then have old: "sorted_wrt (apart col) table" using T by (simp add: unique_ok_def list_all_iff)
  let ?has = "has_key (js_string (js_get ''name'' col)) d"
  have new: "cell col (?f r) = (if P r \<and> ?has then cell col d else cell col r)" for r
    using col by (simp add: cell_def js_get_set_fields [OF d constrained_mem(1)] unique_columns_def)
  show "sorted_wrt (\<lambda>a b. apart col (?f a) (?f b)) table"
    unfolding sorted_wrt_iff_nth_less
  proof (intro allI impI)
    fix i k assume ik: "i < k" "k < length table"
    then have ap: "apart col (table ! i) (table ! k)" using old by (simp add: sorted_wrt_iff_nth_less)
    have mem: "table ! i \<in> set table" "table ! k \<in> set table" using ik by auto
    show "apart col (?f (table ! i)) (?f (table ! k))"
    proof (cases "nullish (cell col d)")
      case True
      with ap show ?thesis unfolding apart_same new using same_value_nullish [OF True] by auto
    next
      case False
      then have "\<not> (P (table ! i) \<and> P (table ! k))" using one col one_match [OF _ ik] by (auto simp: list_all_iff)
      with ap accepted_value_new [OF v col False mem(1)] accepted_value_new [OF v col False mem(2)]
      show ?thesis unfolding apart_same new using same_value_sym by auto
    qed
  qed
qed

text \<open>
  C35: a write that \<open>validate\<close> accepts, of single documents or of documents that agree with each other, keeps the table
  within its constraints: when the look-ups are made at the table itself and nothing else writes in between, the rows after
  the insert or the update satisfy every NOT NULL, ENUM and CHECK by their meaning (\<open>check_holds\<close>) and no two share the
  value of a unique column. Conditions: the documents of one insert do not clash in a unique column among themselves; an
  update that sets a unique column has one target; no dotted key of an update reaches into a constrained column. The lemmas
  \<open>batch_duplicates_accepted\<close> and \<open>dotted_key_breaks_enum\<close> show that \<open>validate\<close> itself demands neither
  the first nor the last.
\<close>

theorem validated_write_keeps_constraints:
  assumes table: "table_ok rx spec table"
    and valid: "validate rx docs spec op \<lparr>lk_count = Some (count_at table), lk_fk = fk\<rparr> = Inr []"
    and one: "one_target spec op P docs table"
  shows "table_ok rx spec (apply_write st op P docs table)"
proof -
  note row = validate_rows [OF valid]
  have T: "list_all (row_ok rx spec) table" "unique_ok spec table" using table by (simp_all add: table_ok_def)
  show ?thesis
  proof (cases op)
    case Create
    have "list_all (row_ok rx spec) docs" using created_row_ok row unfolding Create list_all_iff by blast
    with T inserted_unique [OF T(2) _ row] one show ?thesis by (simp add: Create table_ok_def)
  next
    case Update
    then obtain d where docs: "docs = [d]" "distinct (map fst (obj_of d))" "keys_apart spec d"
      "length (filter P table) \<le> 1 \<or> list_all (\<lambda>col. nullish (cell col d)) (unique_columns spec)"
      using one by (cases docs) auto
    have v: "row_violations rx spec Update \<lparr>lk_count = Some (count_at table), lk_fk = fk\<rparr> d = Inr []"
      using row [of d] by (simp add: Update docs(1))
    have "list_all (row_ok rx spec) (apply_write st Update P docs table)"
      using T(1) updated_row_ok [OF v docs(2,3)] by (auto simp: docs(1) list_all_iff)
    moreover have "unique_ok spec (apply_write st Update P docs table)"
      using updated_unique [OF T(2) docs(2,3) v docs(4)] unfolding docs(1) apply_write.simps list.sel .
    ultimately show ?thesis by (simp add: Update table_ok_def)
  qed
qed

definition user_spec :: jsval where
  "user_spec = specFromManifestTable (JObj
     [(''columns'', JArr [JObj [(''name'', JStr ''email''), (''unique'', JBool True), (''nullable'', JBool False)],
        JObj [(''name'', JStr ''plan''), (''type'', JStr ''ENUM''), (''ref'', JStr ''plans'')]]),
      (''constraints'', JArr [JObj [(''name'', JStr ''ages''), (''type'', JStr ''CHECK''), (''expression'', JStr ''age >= 18 and age < 120'')]])])
     [(''plans'', JArr [JStr ''free'', JStr ''pro''])] []"

definition user_row :: "string \<Rightarrow> string \<Rightarrow> nat \<Rightarrow> jsval" where
  "user_row email plan age = JObj [(''email'', JStr email), (''plan'', JStr plan), (''age'', JNum (of_nat age))]"

theorem validated_write_keeps_constraints_witness:
  "table_ok (\<lambda>_ _. Inr True) user_spec [user_row ''a'' ''free'' 30, user_row ''b'' ''pro'' 18] \<and>
   validate (\<lambda>_ _. Inr True) [user_row ''b'' ''gold'' 17] user_spec Create \<lparr>lk_count = None, lk_fk = None\<rparr> =
     Inr [\<lparr>vi_constraint = ''plan_enum'', vi_column = ''plan'', vi_rule = ''ENUM''\<rparr>,
          \<lparr>vi_constraint = ''ages'', vi_column = ''age'', vi_rule = ''CHECK(GTE)''\<rparr>]"
proof
  have h: "table_ok (\<lambda>_ _. Inr True) user_spec [user_row ''a'' ''free'' 30]"
    unfolding table_ok_def row_ok_checked [abs_def] by code_simp
  have h': "validate (\<lambda>_ _. Inr True) [user_row ''b'' ''pro'' 18] user_spec Create
       \<lparr>lk_count = Some (count_at [user_row ''a'' ''free'' 30]), lk_fk = None\<rparr> = Inr []"
    "one_target user_spec Create (\<lambda>_. False) [user_row ''b'' ''pro'' 18] [user_row ''a'' ''free'' 30]"
    by code_simp+
  show "table_ok (\<lambda>_ _. Inr True) user_spec [user_row ''a'' ''free'' 30, user_row ''b'' ''pro'' 18]"
    using validated_write_keeps_constraints [OF h h', of MongoStore] by simp
qed code_simp

text \<open>The documents of one insert are not compared with each other.\<close>

lemma batch_duplicates_accepted:
  "validate (\<lambda>_ _. Inr True) [user_row ''b'' ''pro'' 18, user_row ''b'' ''free'' 40] user_spec Create
     \<lparr>lk_count = Some (count_at []), lk_fk = None\<rparr> = Inr []"
  "\<not> unique_ok user_spec (apply_write MongoStore Create (\<lambda>_. True) [user_row ''b'' ''pro'' 18, user_row ''b'' ''free'' 40] [])"
  by code_simp+

text \<open>
  A dotted key is an allowed field name, and \<open>validate\<close> knows no column of that name: the update of \<open>plan.x\<close> is
  accepted, and MongoDB makes the column \<open>plan\<close> an object, which is no value of its enumeration.
\<close>

definition bare_row :: jsval where
  "bare_row = JObj [(''email'', JStr ''a''), (''age'', JNum 30)]"

lemma dotted_key_breaks_enum:
  "validate (\<lambda>_ _. Inr True) [JObj [(''plan.x'', JNum 1)]] user_spec Update
     \<lparr>lk_count = Some (count_at [bare_row]), lk_fk = None\<rparr> = Inr []"
  "row_ok (\<lambda>_ _. Inr True) user_spec bare_row"
  "\<not> list_all (row_ok (\<lambda>_ _. Inr True) user_spec)
       (apply_write MongoStore Update (\<lambda>_. True) [JObj [(''plan.x'', JNum 1)]] [bare_row])"
  unfolding row_ok_checked [abs_def] by code_simp+

text \<open>A document that is updated with its own unique value is refused: the look-up counts it.\<close>

lemma unchanged_value_refused:
  "validate (\<lambda>_ _. Inr True) [user_row ''a'' ''pro'' 31] user_spec Update
     \<lparr>lk_count = Some (count_at [user_row ''a'' ''free'' 30]), lk_fk = None\<rparr> =
   Inr [\<lparr>vi_constraint = ''email_unique'', vi_column = ''email'', vi_rule = ''UNIQUE''\<rparr>]"
  by code_simp

text \<open>The split at AND ignores OR: of \<open>a > 5 OR b = 1 AND c < 3\<close> the last part alone is enforced.\<close>

lemma or_check_becomes_and:
  "constraint_checks (JObj [(''name'', JStr ''k''), (''type'', JStr ''CHECK''), (''expression'', JStr ''a > 5 OR b = 1 AND c < 3'')]) =
   [check_rule ''k'' ''c'' ''LT'' (JNum 3)]"
  by code_simp

text \<open>\<open>~*\<close> ignores case in PostgreSQL; the rule that is made of it does not record it.\<close>

lemma case_flag_lost:
  "parseCheckExpression ''k'' (''code ~* '' @ [CHR 0x27] @ ''^ab'' @ [CHR 0x27]) =
   parseCheckExpression ''k'' (''code ~ '' @ [CHR 0x27] @ ''^ab'' @ [CHR 0x27])"
  by code_simp

end
