(* ===== verification/Mutations.thy ===== *)
theory Mutations
  imports HubSql Sequences Constraints
begin

text \<open>
  The simple write interface of \<open>query-engine.service.ts\<close>: \<open>mutate\<close> decides what a create, an
  update or a delete does - a plain request to the hub, a parameterized statement for a SQL
  source, or documents for a store that has no SQL - after the generated values, the checks of
  the field names, the plan limit, the privileges and the constraints. The connectors, the plan
  limits and the count of the hub table are parameters.
\<close>

section \<open>Names and conditions\<close>

definition qIdent :: "string \<Rightarrow> string" where
  "qIdent name = dquote # only_word name @ [dquote]"

text \<open>What \<open>Object.keys\<close> sees with its values: the fields of an object, the positions of an array or a text.\<close>

definition entries_of :: "jsval \<Rightarrow> (string \<times> jsval) list" where
  "entries_of v =
     (case v of JObj kvs \<Rightarrow> kvs
      | JArr xs \<Rightarrow> zip (map show_nat [0..<length xs]) xs
      | JStr s \<Rightarrow> zip (map show_nat [0..<length s]) (map (\<lambda>c. JStr [c]) s)
      | _ \<Rightarrow> [])"

definition entry :: "string \<Rightarrow> jsval \<Rightarrow> jsval" where
  "entry k v = (case kv_get k (entries_of v) of Some x \<Rightarrow> x | None \<Rightarrow> JUndef)"

definition safe_field_name :: "string \<Rightarrow> bool" where
  "safe_field_name k \<longleftrightarrow> list_all (\<lambda>p. p \<noteq> [] \<and> list_all is_word_chr p) (split_chr CHR ''.'' k)"

definition unsafe_key :: js_err where
  "unsafe_key = Err 0 ''SAFETY''"

definition assertSafeKeys :: "jsval \<Rightarrow> unit res" where
  "assertSafeKeys obj = unlessR (list_all safe_field_name (map fst (entries_of obj))) unsafe_key"

definition SQL_OPS :: "(string \<times> string) list" where
  "SQL_OPS = [(''$eq'', ''=''), (''$ne'', ''!=''), (''$gt'', ''>''), (''$gte'', ''>=''), (''$lt'', ''<''), (''$lte'', ''<=''),
     (''$like'', ''LIKE''), (''$ilike'', ''ILIKE''), (''$in'', ''IN'')]"

definition where_column :: "dialect \<Rightarrow> string \<Rightarrow> string" where
  "where_column d p =
     (case d of Mysql \<Rightarrow> backtick # only_word p @ [backtick]
      | Oracle \<Rightarrow> dquote # js_upper (only_word p) @ [dquote] | _ \<Rightarrow> dquote # only_word p @ [dquote])"

definition where_marker :: "dialect \<Rightarrow> nat \<Rightarrow> string" where
  "where_marker d n = (case d of Mysql \<Rightarrow> ''?'' | Oracle \<Rightarrow> '':'' @ show_nat n | _ \<Rightarrow> ''$'' @ show_nat n)"

fun in_markers :: "dialect \<Rightarrow> jsval list \<Rightarrow> jsval list \<Rightarrow> string list \<times> jsval list" where
  "in_markers d [] ps = ([], ps)"
| "in_markers d (v # vs) ps =
     (case in_markers d vs (ps @ [v]) of (ms, ps') \<Rightarrow> (where_marker d (length ps + 1) # ms, ps'))"

definition where_clause :: "dialect \<Rightarrow> string \<Rightarrow> jsval \<Rightarrow> jsval list \<Rightarrow> string \<times> jsval list" where
  "where_clause d key raw ps =
     (let col = js_join ''.'' (map (where_column d) (split_chr CHR ''.'' key)) in
      case filter_op raw of (oper, v) \<Rightarrow>
        let sqlOp = (case map_of SQL_OPS oper of Some s \<Rightarrow> s | None \<Rightarrow> ''=''); n = length ps + 1 in
        if oper = ''$in'' \<and> is_arr v then
          (if arr_of v = [] then (''1=0'', ps)
           else case in_markers d (arr_of v) ps of (ms, ps') \<Rightarrow> (col @ '' IN ('' @ js_join '', '' ms @ '')'', ps'))
        else if oper = ''$match'' then
          ((case d of Mysql \<Rightarrow> col @ '' LIKE ?''
            | Oracle \<Rightarrow> ''UPPER('' @ col @ '') LIKE UPPER(:'' @ show_nat n @ '')'' | _ \<Rightarrow> col @ '' ILIKE $'' @ show_nat n),
           ps @ [JStr (''%'' @ js_string v @ ''%'')])
        else (col @ '' '' @ sqlOp @ '' '' @ where_marker d n, ps @ [v]))"

fun where_clauses :: "dialect \<Rightarrow> (string \<times> jsval) list \<Rightarrow> jsval list \<Rightarrow> string list \<times> jsval list" where
  "where_clauses d [] ps = ([], ps)"
| "where_clauses d ((k, v) # kvs) ps =
     (case where_clause d k v ps of (s, ps1) \<Rightarrow> (case where_clauses d kvs ps1 of (ss, ps2) \<Rightarrow> (s # ss, ps2)))"

definition buildWhere :: "dialect \<Rightarrow> jsval \<Rightarrow> jsval list \<Rightarrow> string \<times> jsval list" where
  "buildWhere d wh ps =
     (case where_clauses d (entries_of wh) ps of
        (ss, ps') \<Rightarrow> (if ss = [] then [] else '' WHERE '' @ js_join '' AND '' ss, ps'))"

section \<open>The statement for a SQL source\<close>

datatype mut_op = MCreate | MUpdate | MDelete

text \<open>Only the PostgreSQL names are reduced to word characters; the others are quoted as they are.\<close>

definition mut_ident :: "dialect \<Rightarrow> string \<Rightarrow> string" where
  "mut_ident d s =
     (case d of Mysql \<Rightarrow> backtick # s @ [backtick] | Oracle \<Rightarrow> dquote # js_upper s @ [dquote] | _ \<Rightarrow> qIdent s)"

definition as_rows :: "jsval \<Rightarrow> jsval list" where
  "as_rows data = (if is_arr data then arr_of data else [data])"

fun create_tuples :: "dialect \<Rightarrow> string list \<Rightarrow> jsval list \<Rightarrow> jsval list \<Rightarrow> string list \<times> jsval list" where
  "create_tuples d cols [] ps = ([], ps)"
| "create_tuples d cols (r # rs) ps =
     (case in_markers d (map (\<lambda>c. entry c r) cols) ps of
        (ms, ps1) \<Rightarrow> (case create_tuples d cols rs ps1 of (ts, ps2) \<Rightarrow> ((''('' @ js_join '', '' ms @ '')'') # ts, ps2)))"

definition buildMutationSql :: "mut_op \<Rightarrow> string \<Rightarrow> string \<Rightarrow> jsval \<Rightarrow> jsval \<Rightarrow> dialect \<Rightarrow> string \<times> jsval list" where
  "buildMutationSql op schema table data wh d =
     (let t = mut_ident d schema @ ''.'' @ mut_ident d table;
          ret = (if d = Mysql \<or> d = Oracle then [] else '' RETURNING *'')
      in case op of
        MCreate \<Rightarrow>
          (let rows = as_rows data; cols = map fst (entries_of (hd rows)) in
           case create_tuples d cols rows [] of (ts, ps) \<Rightarrow>
             (''INSERT INTO '' @ t @ '' ('' @ js_join '', '' (map (mut_ident d) cols) @ '') VALUES '' @ js_join '', '' ts @ ret, ps))
      | MUpdate \<Rightarrow>
          (case in_markers d (map snd (obj_of data)) [] of (ms, ps) \<Rightarrow>
             (case buildWhere d wh ps of (w, ps1) \<Rightarrow>
                (''UPDATE '' @ t @ '' SET '' @ js_join '', '' (map2 (\<lambda>c m. mut_ident d c @ '' = '' @ m) (map fst (obj_of data)) ms) @ w @ ret, ps1)))
      | MDelete \<Rightarrow> (case buildWhere d wh [] of (w, ps) \<Rightarrow> (''DELETE FROM '' @ t @ w @ ret, ps)))"

section \<open>HAVING and the simple read\<close>

definition having_num :: "jsval \<Rightarrow> rat option" where
  "having_num v = (case v of JNum q \<Rightarrow> Some q | JNaN \<Rightarrow> None | _ \<Rightarrow> parse_float (js_string v))"

definition having_cmp :: "(rat \<Rightarrow> rat \<Rightarrow> bool) \<Rightarrow> jsval \<Rightarrow> jsval \<Rightarrow> bool" where
  "having_cmp f a b = (case (having_num a, having_num b) of (Some x, Some y) \<Rightarrow> f x y | _ \<Rightarrow> False)"

definition having_ok :: "jsval \<Rightarrow> jsval \<Rightarrow> bool" where
  "having_ok row h =
     (let a = js_get (js_string (js_get ''column'' h)) row; b = js_get ''value'' h; op = js_get ''operator'' h in
      if op = JStr ''NE'' then \<not> loose_eq a b
      else if op = JStr ''GT'' then having_cmp (>) a b
      else if op = JStr ''GTE'' then having_cmp (\<ge>) a b
      else if op = JStr ''LT'' then having_cmp (<) a b
      else if op = JStr ''LTE'' then having_cmp (\<le>) a b
      else loose_eq a b)"

definition applyHaving :: "jsval list \<Rightarrow> jsval \<Rightarrow> jsval list" where
  "applyHaving rows having = filter (\<lambda>r. list_all (having_ok r) (arr_of having)) rows"

definition fetch_predicate :: "string \<times> jsval \<Rightarrow> jsval" where
  "fetch_predicate kv =
     (case filter_op (snd kv) of (oper, v) \<Rightarrow>
        JObj [(''column'', JStr (fst kv)), (''operator'', JStr (if oper = ''$eq'' then ''EQ'' else js_upper (tl oper))), (''value'', v)])"

definition resource_missing :: js_err where
  "resource_missing = Err 0 ''RESOURCE''"

text \<open>The request \<open>fetch\<close> hands to \<open>executeQuery\<close>.\<close>

definition fetch_config :: "jsval \<Rightarrow> jsval res" where
  "fetch_config body =
     (if \<not> truthy (js_get ''resource'' body) then Inl resource_missing
      else bindR (assertSafeKeys (js_get ''where'' body)) (\<lambda>_.
        let src = js_get ''source'' body; cols = js_get ''columns'' body; wh = js_get ''where'' body; os = js_get ''orderBy'' body;
            off = js_get ''offset'' body; lim = js_get ''limit'' body; schema = js_get ''schema'' body;
            query = [(''from'', JObj ([(''resource'', js_get ''resource'' body)] @ (if truthy src then [(''source'', src)] else [])))]
              @ (if arr_of cols = [] then [] else [(''select'', cols)])
              @ (if truthy wh \<and> entries_of wh \<noteq> [] then [(''where'', JArr (map fetch_predicate (entries_of wh)))] else [])
              @ (if is_arr os then [(''orderBy'', os)] else [])
              @ (case off of JNum _ \<Rightarrow> [(''offset'', off)] | JNaN \<Rightarrow> [(''offset'', off)] | _ \<Rightarrow> [])
        in Inr (JObj [(''type'', JStr ''SELECT''), (''schema'', if truthy schema then schema else JUndef), (''query'', JObj query),
             (''limit'', case lim of JNum _ \<Rightarrow> lim | JNaN \<Rightarrow> lim | _ \<Rightarrow> JNum 100)])))"

section \<open>A write\<close>

text \<open>
  What \<open>mutate\<close> relies on: the catalogue, the generators and their connections, the number of
  records the plan allows (\<open>None\<close> for no limit), the count of a table of the hub, the decision of
  the licensing service, the privileges, the constraints and the look-ups at a target.
\<close>

record mut_world =
  mw_catalogue :: hub_catalogue
  mw_generators :: gen_hub
  mw_conn :: "nat \<Rightarrow> nat"
  mw_maxRecords :: "int option"
  mw_count :: "string \<Rightarrow> int res"
  mw_allowed :: "int \<Rightarrow> bool"
  mw_grants :: "grant_row list"
  mw_constraints :: constraint_db
  mw_rx :: pattern_test
  mw_lookups :: "string \<Rightarrow> string \<Rightarrow> lookups"

datatype write_action =
    HubWrite jsval
  | SqlWrite source_row string "jsval list"
  | DocWrite source_row mut_op string string jsval "jsval list"

fun gen_rows :: "mut_world \<Rightarrow> string \<Rightarrow> jsval list \<Rightarrow> jsval \<Rightarrow> jsval \<Rightarrow> gen_state \<Rightarrow> jsval list res \<times> gen_state" where
  "gen_rows w tenantId [] rules fallback st = (Inr [], st)"
| "gen_rows w tenantId (r # rs) rules fallback st =
     (case apply_generators (mw_generators w) (mw_conn w) tenantId (if truthy r then r else JObj []) rules fallback st of
        (Inl e, st1) \<Rightarrow> (Inl e, st1)
      | (Inr d, st1) \<Rightarrow> (case gen_rows w tenantId rs rules fallback st1 of (x, st2) \<Rightarrow> (mapR ((#) d) x, st2)))"

definition generated_data :: "mut_world \<Rightarrow> string \<Rightarrow> mut_op \<Rightarrow> jsval \<Rightarrow> gen_state \<Rightarrow> jsval res \<times> gen_state" where
  "generated_data w tenantId op body st =
     (let data = js_get ''data'' body; rules = js_get ''generate'' body in
      if op = MCreate \<and> truthy rules \<and> obj_of rules \<noteq> [] then
        (case assertSafeKeys rules of
           Inl e \<Rightarrow> (Inl e, st)
         | Inr _ \<Rightarrow>
             (case gen_rows w tenantId (as_rows data) rules (js_get ''schema'' body) st of
                (x, st1) \<Rightarrow> (mapR (\<lambda>ds. if is_arr data then JArr ds else hd ds) x, st1)))
      else (Inr data, st))"

definition limit_reached :: js_err where
  "limit_reached = Err 403 ''PLAN_LIMIT_REACHED''"

text \<open>The table that is counted is the one of that name in the tenant's schema, whatever the source; an error is no limit.\<close>

definition record_limit :: "mut_world \<Rightarrow> string \<Rightarrow> jsval \<Rightarrow> string option \<Rightarrow> nat \<Rightarrow> unit res" where
  "record_limit w tenantId body role incoming =
     (if tenantId = ''tenant_A'' \<or> js_upper (case role of Some r \<Rightarrow> r | None \<Rightarrow> []) = ''ADMIN'' \<or> mw_maxRecords w = None then Inr ()
      else
        (case bindR (toTenantSchemaName (JStr tenantId) (js_get ''schema'' body)) (\<lambda>s. bindR (quoteAnyIdent (JStr s)) (\<lambda>qs.
               bindR (assertSafeName (js_get ''resource'' body)) (\<lambda>n. bindR (quoteAnyIdent (JStr n)) (\<lambda>qn. mw_count w (qs @ ''.'' @ qn))))) of
           Inl e \<Rightarrow> Inr ()
         | Inr n \<Rightarrow> unlessR (mw_allowed w (n + int incoming - 1)) limit_reached))"

definition no_filter :: js_err where
  "no_filter = Err 0 ''SAFETY''"

definition no_data :: js_err where
  "no_data = Err 0 ''DATA''"

definition write_shape :: "mut_op \<Rightarrow> jsval \<Rightarrow> jsval \<Rightarrow> unit res" where
  "write_shape op wh data =
     bindR (unlessR (op = MCreate \<or> truthy wh \<and> entries_of wh \<noteq> []) no_filter) (\<lambda>_.
     bindR (unlessR (op = MDelete \<or> truthy data \<and> data \<noteq> JArr []) no_data) (\<lambda>_.
       unlessR (op \<noteq> MUpdate \<or> is_obj data \<and> obj_of data \<noteq> []) data_error))"

definition hub_write :: "mut_op \<Rightarrow> jsval \<Rightarrow> jsval \<Rightarrow> write_action res" where
  "hub_write op body data =
     (case js_get ''resource'' body of
        JStr r \<Rightarrow>
          if ident_re r
          then Inr (HubWrite (JObj [(''type'', JStr (case op of MCreate \<Rightarrow> ''INSERT'' | MUpdate \<Rightarrow> ''UPDATE'' | MDelete \<Rightarrow> ''DELETE'')),
                 (''table'', JStr r), (''schema'', js_get ''schema'' body), (''data'', data), (''filter'', js_get ''where'' body)]))
          else Inl identifierError
      | _ \<Rightarrow> Inl identifierError)"

definition cross_tenant_schema :: js_err where
  "cross_tenant_schema = Err 400 ''CROSS_TENANT_SCHEMA''"

definition physicalSchemaName :: "string \<Rightarrow> jsval \<Rightarrow> string res" where
  "physicalSchemaName tenantId logical =
     bindR (assertTenantId (JStr tenantId)) (\<lambda>t. bindR (assertIdent logical) (\<lambda>l.
       let physical = ''tenant_'' @ t @ ''_'' @ l in
       if length physical > 63 \<or> \<not> belongsToTenant physical t then Inl cross_tenant_schema else Inr physical))"

text \<open>The physical schema: of the first catalogue row of the source that has the table or the schema.\<close>

definition write_schema :: "mut_world \<Rightarrow> string \<Rightarrow> jsval \<Rightarrow> string res" where
  "write_schema w tenantId body =
     (let src = js_string (js_get ''source'' body); res = js_string (js_get ''resource'' body); schema = js_get ''schema'' body;
          logical = js_string (or_val schema (JStr []));
          hit = List.find (\<lambda>r. (case hr_source r of Some d \<Rightarrow> ds_tenant d = tenantId \<and> ds_name d = src | None \<Rightarrow> False)
                               \<and> (hr_name r = res \<or> hr_schema_name r = logical)) (hc_tables (mw_catalogue w))
      in if hit \<noteq> None \<and> hr_schema (the hit) \<noteq> [] then Inr (hr_schema (the hit))
         else if truthy schema then physicalSchemaName tenantId schema else Inr ''public'')"

definition privilege_of :: "mut_op \<Rightarrow> string" where
  "privilege_of op = (case op of MCreate \<Rightarrow> ''INSERT'' | MUpdate \<Rightarrow> ''UPDATE'' | MDelete \<Rightarrow> ''DELETE'')"

definition constraint_violation :: js_err where
  "constraint_violation = Err 0 ''CONSTRAINT VIOLATION''"

definition check_constraints :: "mut_world \<Rightarrow> string \<Rightarrow> mut_op \<Rightarrow> string \<Rightarrow> string \<Rightarrow> jsval list \<Rightarrow> unit res" where
  "check_constraints w tenantId op phys res docs =
     (case resolve_spec tenantId phys res (mw_constraints w) of
        None \<Rightarrow> Inr ()
      | Some spec \<Rightarrow>
          if op = MDelete then Inr ()
          else bindR (validate (mw_rx w) docs spec (if op = MCreate then Create else Update) (mw_lookups w phys res))
                 (\<lambda>vs. unlessR (vs = []) constraint_violation))"

definition no_crud :: js_err where
  "no_crud = Err 0 ''ENGINE''"

definition write_dialect :: "string \<Rightarrow> dialect" where
  "write_dialect engine = (if engine = ''MYSQL'' then Mysql else if engine = ''ORACLE'' then Oracle else Postgres)"

definition source_write :: "mut_world \<Rightarrow> string \<Rightarrow> mut_op \<Rightarrow> jsval \<Rightarrow> jsval \<Rightarrow> string option \<Rightarrow> write_action res" where
  "source_write w tenantId op body data role =
     (let src = js_string (js_get ''source'' body); res = js_string (js_get ''resource'' body); wh = js_get ''where'' body in
      case List.find (\<lambda>d. ds_tenant d = tenantId \<and> ds_name d = src) (hc_sources (mw_catalogue w)) of
        None \<Rightarrow> Inl (Err 0 ''NOT_FOUND'')
      | Some d \<Rightarrow>
          (let engine = engine_of (ds_engine d) in
           bindR (write_schema w tenantId body) (\<lambda>phys.
           bindR (enforce (mw_grants w) tenantId phys res role (privilege_of op)) (\<lambda>_.
             if engine \<in> {''POSTGRES'', ''MYSQL'', ''ORACLE''} then
               (let b = buildMutationSql op phys res data wh (write_dialect engine)
                in Inr (SqlWrite d (fst b) (snd b)))
             else if engine = ''MONGODB'' \<or> engine = ''ELASTICSEARCH'' then
               mapR (\<lambda>_. DocWrite d op phys res wh (as_rows data)) (check_constraints w tenantId op phys res (as_rows data))
             else Inl no_crud))))"

definition mutate :: "mut_world \<Rightarrow> string \<Rightarrow> mut_op \<Rightarrow> jsval \<Rightarrow> string option \<Rightarrow> gen_state \<Rightarrow> write_action res \<times> gen_state" where
  "mutate w tenantId op body role st =
     (let src = js_get ''source'' body; wh = js_get ''where'' body in
      if \<not> truthy (js_get ''resource'' body) then (Inl resource_missing, st)
      else case assertSafeKeys wh of
        Inl e \<Rightarrow> (Inl e, st)
      | Inr _ \<Rightarrow>
          (case generated_data w tenantId op body st of
             (Inl e, st1) \<Rightarrow> (Inl e, st1)
           | (Inr data, st1) \<Rightarrow>
               (let rows = (if is_arr data then arr_of data else if truthy data then [data] else []) in
                (bindR (eachR assertSafeKeys rows) (\<lambda>_.
                 bindR (if op = MCreate then record_limit w tenantId body role (length rows) else Inr ()) (\<lambda>_.
                 bindR (write_shape op wh data) (\<lambda>_.
                   if \<not> truthy src \<or> src = JStr LOCAL_SOURCE then hub_write op body data
                   else source_write w tenantId op body data role))), st1))))"

text \<open>
  What \<open>executeQuery\<close> makes of the plain write it is handed: the target is resolved again, and a name that the
  catalogue places on a MongoDB source is written there.
\<close>

datatype plain_write = MongoWrite hub_target | HubStatement

definition plain_target :: "jsval \<Rightarrow> target_cfg" where
  "plain_target c = \<lparr>tc_tableId = js_get ''tableId'' c, tc_schemaId = js_get ''schemaId'' c, tc_source = js_get ''source'' c,
     tc_schema = js_get ''schema'' c, tc_table = js_get ''table'' c, tc_resource = js_get ''resource'' c\<rparr>"

definition plain_write_of :: "hub_catalogue \<Rightarrow> string \<Rightarrow> jsval \<Rightarrow> plain_write res" where
  "plain_write_of cat tenantId c =
     mapR (\<lambda>tg. if tg_engine tg = ''MONGODB'' then MongoWrite tg else HubStatement) (resolveTarget cat (JStr tenantId) (plain_target c))"

section \<open>What a write to a source has passed\<close>

lemma source_write_passed:
  assumes "source_write w tenantId op body data role = Inr act"
  shows "\<exists>d phys. d \<in> set (hc_sources (mw_catalogue w)) \<and> ds_tenant d = tenantId \<and> ds_name d = js_string (js_get ''source'' body) \<and>
    write_schema w tenantId body = Inr phys \<and>
    enforce (mw_grants w) tenantId phys (js_string (js_get ''resource'' body)) role (privilege_of op) = Inr () \<and>
    (case act of HubWrite c \<Rightarrow> False
     | SqlWrite d' sql ps \<Rightarrow> d' = d \<and>
         (sql, ps) = buildMutationSql op phys (js_string (js_get ''resource'' body)) data (js_get ''where'' body) (write_dialect (engine_of (ds_engine d)))
     | DocWrite d' op' phys' res wh docs \<Rightarrow> d' = d \<and> op' = op \<and> wh = js_get ''where'' body \<and> phys' = phys
         \<and> res = js_string (js_get ''resource'' body) \<and> docs = as_rows data \<and> check_constraints w tenantId op phys res docs = Inr ())"
proof -
  obtain d where d: "List.find (\<lambda>d. ds_tenant d = tenantId \<and> ds_name d = js_string (js_get ''source'' body)) (hc_sources (mw_catalogue w)) = Some d"
    using assms by (auto simp: source_write_def Let_def split: option.splits)
  obtain phys where phys: "write_schema w tenantId body = Inr phys"
      "enforce (mw_grants w) tenantId phys (js_string (js_get ''resource'' body)) role (privilege_of op) = Inr ()"
    using assms d by (auto simp: source_write_def Let_def)
  have "case act of HubWrite c \<Rightarrow> False
     | SqlWrite d' sql ps \<Rightarrow> d' = d \<and>
         (sql, ps) = buildMutationSql op phys (js_string (js_get ''resource'' body)) data (js_get ''where'' body) (write_dialect (engine_of (ds_engine d)))
     | DocWrite d' op' phys' res wh docs \<Rightarrow> d' = d \<and> op' = op \<and> wh = js_get ''where'' body \<and> phys' = phys
         \<and> res = js_string (js_get ''resource'' body) \<and> docs = as_rows data \<and> check_constraints w tenantId op phys res docs = Inr ()"
    using assms d phys by (auto simp: source_write_def Let_def split: if_splits)
  then show ?thesis using find_mem [OF d] phys by blast
qed

lemma checked_rows:
  assumes "eachR assertSafeKeys (if is_arr data then arr_of data else if truthy data then [data] else []) = Inr ()"
  shows "list_all (\<lambda>r. list_all safe_field_name (map fst (entries_of r))) (as_rows data)"
proof -
  have each: "list_all (\<lambda>r. list_all safe_field_name (map fst (entries_of r))) rs" if "eachR assertSafeKeys rs = Inr ()" for rs
    using that by (induction rs) (auto simp: assertSafeKeys_def split: if_splits)
  have "entries_of data = []" if "\<not> truthy data" using that by (cases data) (auto simp: entries_of_def)
  then show ?thesis using each [OF assms] by (auto simp: as_rows_def split: if_splits)
qed

text \<open>
  C36: what a write of \<open>mutate\<close> that names an external source has passed. Its source is registered for the tenant under
  that name; the role has the privilege of the operation on the resource, by the name that was given, in the schema the write
  goes to; an update or a delete carries a non-empty filter; every field name of the filter and of every row of the data, generated
  values included, is made of plain identifiers; the statement or the documents are those of this data, this filter and
  this operation; and documents for a store without constraints were validated against the specification of the table. The
  lemma \<open>stripped_name_escapes_grants\<close> shows that the table the statement reaches may have another name than the one that
  was checked, and \<open>plain_write_ungoverned\<close> that a write without a source has passed no such check where
  \<open>executeQuery\<close> takes it to a MongoDB source.
\<close>

theorem external_write_checked:
  assumes m: "fst (mutate w tenantId op body role st) = Inr act" and ext: "truthy (js_get ''source'' body)" "js_get ''source'' body \<noteq> JStr LOCAL_SOURCE"
  shows "\<exists>d phys data. ds_tenant d = tenantId \<and> ds_name d = js_string (js_get ''source'' body) \<and> d \<in> set (hc_sources (mw_catalogue w)) \<and>
      write_schema w tenantId body = Inr phys \<and>
      enforce (mw_grants w) tenantId phys (js_string (js_get ''resource'' body)) role (privilege_of op) = Inr () \<and>
      (op = MCreate \<or> entries_of (js_get ''where'' body) \<noteq> []) \<and>
      list_all safe_field_name (map fst (entries_of (js_get ''where'' body))) \<and>
      fst (generated_data w tenantId op body st) = Inr data \<and>
      list_all (\<lambda>r. list_all safe_field_name (map fst (entries_of r))) (as_rows data) \<and>
      (case act of HubWrite c \<Rightarrow> False
       | SqlWrite d' sql ps \<Rightarrow> d' = d \<and>
           (sql, ps) = buildMutationSql op phys (js_string (js_get ''resource'' body)) data (js_get ''where'' body) (write_dialect (engine_of (ds_engine d)))
       | DocWrite d' op' phys' res wh docs \<Rightarrow> d' = d \<and> op' = op \<and> wh = js_get ''where'' body \<and> phys' = phys
           \<and> res = js_string (js_get ''resource'' body) \<and> docs = as_rows data \<and> check_constraints w tenantId op phys res docs = Inr ())"
proof -
  obtain data st1 where g: "generated_data w tenantId op body st = (Inr data, st1)"
      and keys: "assertSafeKeys (js_get ''where'' body) = Inr ()"
      and rows: "eachR assertSafeKeys (if is_arr data then arr_of data else if truthy data then [data] else []) = Inr ()"
      and sh: "write_shape op (js_get ''where'' body) data = Inr ()"
      and src: "source_write w tenantId op body data role = Inr act"
    using m ext by (auto simp: mutate_def Let_def split: sum.splits prod.splits if_splits)
  have "op = MCreate \<or> entries_of (js_get ''where'' body) \<noteq> []" using sh by (auto simp: write_shape_def)
  moreover have "list_all safe_field_name (map fst (entries_of (js_get ''where'' body)))" using keys by (simp add: assertSafeKeys_def)
  moreover have "fst (generated_data w tenantId op body st) = Inr data" using g by simp
  ultimately show ?thesis using source_write_passed [OF src] checked_rows [OF rows] by blast
qed

section \<open>Examples\<close>

definition source_at :: "string \<Rightarrow> source_row" where
  "source_at engine = \<lparr>ds_tenant = ''acme'', ds_name = ''shop'', ds_engine = engine, ds_sync = None, ds_config = JNull\<rparr>"

definition write_world :: "string \<Rightarrow> mut_world" where
  "write_world engine =
     \<lparr>mw_catalogue = \<lparr>hc_tables = [], hc_schemas = [], hc_sources = [source_at engine], hc_override = []\<rparr>,
      mw_generators = \<lparr>gh_uuid = None, gh_random = ''r'', gh_query = \<lambda>_ _ _. Inr JNull\<rparr>, mw_conn = \<lambda>i. i,
      mw_maxRecords = None, mw_count = \<lambda>_. Inr 0, mw_allowed = \<lambda>_. True,
      mw_grants = [\<lparr>g_tenant = ''acme'', g_schema = ''public'', g_table = ''orders'',
        g_grants = [JObj [(''role'', JStr ''CLERK''), (''privileges'', JArr [JStr ''SELECT''])]], g_source = ''API''\<rparr>],
      mw_constraints = [], mw_rx = \<lambda>_ _. Inr True, mw_lookups = \<lambda>_ _. \<lparr>lk_count = None, lk_fk = None\<rparr>\<rparr>"

definition no_gen :: gen_state where
  "no_gen = \<lparr>gen_seqs = \<lambda>_. None, gen_path = \<lambda>_. None\<rparr>"

definition delete_body :: "string \<Rightarrow> jsval" where
  "delete_body res = JObj [(''source'', JStr ''shop''), (''resource'', JStr res), (''where'', JObj [(''id'', JNum 1)])]"

definition delete_sql :: "string \<Rightarrow> string" where
  "delete_sql table = ''DELETE FROM '' @ qIdent ''public'' @ ''.'' @ qIdent table @ '' WHERE '' @ qIdent ''id'' @ '' = $1 RETURNING *''"

lemma ungoverned_delete:
  "fst (mutate (write_world ''POSTGRES'') ''acme'' MDelete (delete_body ''items'') (Some ''CLERK'') no_gen) =
   Inr (SqlWrite (source_at ''POSTGRES'') (delete_sql ''items'') [JNum 1])"
  by code_simp

theorem external_write_checked_witness:
  "\<exists>d phys data. ds_tenant d = ''acme'' \<and> d \<in> set [source_at ''POSTGRES''] \<and>
     enforce (mw_grants (write_world ''POSTGRES'')) ''acme'' phys ''items'' (Some ''CLERK'') ''DELETE'' = Inr () \<and>
     list_all safe_field_name [''id''] \<and> list_all (\<lambda>r. list_all safe_field_name (map fst (entries_of r))) (as_rows data)"
proof -
  have b: "truthy (js_get ''source'' (delete_body ''items''))" "js_get ''source'' (delete_body ''items'') \<noteq> JStr LOCAL_SOURCE" by code_simp+
  have r: "js_string (js_get ''resource'' (delete_body ''items'')) = ''items''" "privilege_of MDelete = ''DELETE''"
    "map fst (entries_of (js_get ''where'' (delete_body ''items''))) = [''id'']" "hc_sources (mw_catalogue (write_world ''POSTGRES'')) = [source_at ''POSTGRES'']"
    by code_simp+
  show ?thesis using external_write_checked [OF ungoverned_delete b] unfolding r by blast
qed

text \<open>
  Without a source the name is resolved by \<open>executeQuery\<close>: the role that may only read \<open>orders\<close> cannot delete from it
  at the source \<open>shop\<close>, and deletes from the same collection by leaving the source out.
\<close>

definition orders_world :: mut_world where
  "orders_world = (write_world ''MONGODB'')\<lparr>mw_catalogue :=
     \<lparr>hc_tables = [\<lparr>hr_table_id = ''t'', hr_schema_id = ''s'', hr_source = Some (source_at ''MONGODB''), hr_schema_name = ''main'',
        hr_schema = ''public'', hr_name = ''orders'', hr_table = ''orders'', hr_kind = None\<rparr>],
      hc_schemas = [], hc_sources = [source_at ''MONGODB''], hc_override = []\<rparr>\<rparr>"

definition local_delete :: jsval where
  "local_delete = JObj [(''resource'', JStr ''orders''), (''where'', JObj [(''id'', JNum 1)])]"

lemma plain_write_ungoverned:
  "fst (mutate orders_world ''acme'' MDelete (delete_body ''orders'') (Some ''CLERK'') no_gen) = Inl (Err 0 ''ACCESS_DENIED'')"
  "(case fst (mutate orders_world ''acme'' MDelete local_delete (Some ''CLERK'') no_gen) of
      Inr (HubWrite c) \<Rightarrow> plain_write_of (mw_catalogue orders_world) ''acme'' c | _ \<Rightarrow> Inl no_crud) =
   Inr (MongoWrite \<lparr>tg_schema = ''public'', tg_table = ''orders'', tg_engine = ''MONGODB'', tg_source = ''shop'', tg_config = config_of JNull\<rparr>)"
  by code_simp+

text \<open>
  The privilege is checked for the name as it is given and the statement is made for the name
  without its punctuation: a role that may not delete from a table does so under another spelling.
\<close>

lemma stripped_name_escapes_grants:
  "fst (mutate (write_world ''POSTGRES'') ''acme'' MDelete (delete_body ''orders'') (Some ''CLERK'') no_gen) = Inl (Err 0 ''ACCESS_DENIED'')"
  "fst (mutate (write_world ''POSTGRES'') ''acme'' MDelete (delete_body ''or-ders'') (Some ''CLERK'') no_gen) =
   Inr (SqlWrite (source_at ''POSTGRES'') (delete_sql ''orders'') [JNum 1])"
  by code_simp+

text \<open>The name of a table of a MySQL source is quoted without doubling its quotes: it can end the name and comment the filter out.\<close>

lemma mysql_name_breaks_out:
  "fst (mutate (write_world ''MYSQL'') ''acme'' MDelete (delete_body (''orders'' @ [backtick] @ '' -- '')) (Some ''CLERK'') no_gen) =
   Inr (SqlWrite (source_at ''MYSQL'')
     (''DELETE FROM '' @ [backtick] @ ''public'' @ [backtick] @ ''.'' @ [backtick] @ ''orders'' @ [backtick] @ '' -- '' @ [backtick]
        @ '' WHERE '' @ [backtick] @ ''id'' @ [backtick] @ '' = ?'') [JNum 1])"
  by code_simp

text \<open>Of several operators on a column the first counts, and an operator that is not known is equality.\<close>

lemma where_drops_operators:
  "buildWhere Postgres (JObj [(''age'', JObj [(''$gte'', JNum 18), (''$lt'', JNum 20)])]) [] =
   buildWhere Postgres (JObj [(''age'', JObj [(''$gte'', JNum 18)])]) []"
  "buildWhere Postgres (JObj [(''age'', JObj [(''$nin'', JNum 18)])]) [] = buildWhere Postgres (JObj [(''age'', JNum 18)]) []"
  by code_simp+

text \<open>The symbol operators the guard accepts are equality to \<open>applyHaving\<close>.\<close>

lemma having_symbol_is_equality:
  "applyHaving [JObj [(''n'', JNum 5)]] (JArr [JObj [(''column'', JStr ''n''), (''operator'', JStr ''>''), (''value'', JNum 3)]]) = []"
  by code_simp

end
