(* ===== verification/SchemaDiff.thy ===== *)
theory SchemaDiff
  imports SqlSafety Mutations
begin

text \<open>
  The planning of a schema change: the engine capabilities (\<open>modules/metadata/engine_capabilities.ts\<close>), the comparison of a
  manifest with the live catalogue (\<open>diff_engine.ts\<close>), the column types of the generated DDL and the effect of the
  statements on the catalogue of the hub (\<open>transpiler.ts\<close>), and the gate of \<open>orchestrator.ts\<close> in front of risky changes.
\<close>

section \<open>Engines\<close>

datatype engine_type = EPostgres | EMysql | EMongodb | EElasticsearch | EOracle | ESnowflake

record capability =
  cap_sequences :: bool
  cap_functions :: bool
  cap_views :: bool
  cap_matviews :: bool
  cap_enums :: bool
  cap_schemas :: bool
  cap_triggers :: bool
  cap_rls :: bool
  cap_introspection :: bool
  cap_emulation :: "string option"

definition ENGINE_CAPABILITIES :: "engine_type \<Rightarrow> capability" where
  "ENGINE_CAPABILITIES e =
     (case e of
        EPostgres \<Rightarrow> \<lparr>cap_sequences = True, cap_functions = True, cap_views = True, cap_matviews = True, cap_enums = True, cap_schemas = True,
          cap_triggers = True, cap_rls = True, cap_introspection = True, cap_emulation = None\<rparr>
      | EMysql \<Rightarrow> \<lparr>cap_sequences = False, cap_functions = True, cap_views = True, cap_matviews = False, cap_enums = False, cap_schemas = True,
          cap_triggers = True, cap_rls = False, cap_introspection = True, cap_emulation = Some ''AUTO_INCREMENT''\<rparr>
      | EOracle \<Rightarrow> \<lparr>cap_sequences = True, cap_functions = True, cap_views = True, cap_matviews = True, cap_enums = False, cap_schemas = True,
          cap_triggers = True, cap_rls = True, cap_introspection = True, cap_emulation = None\<rparr>
      | EMongodb \<Rightarrow> \<lparr>cap_sequences = False, cap_functions = False, cap_views = False, cap_matviews = False, cap_enums = False, cap_schemas = False,
          cap_triggers = False, cap_rls = False, cap_introspection = False, cap_emulation = Some ''FABRIC''\<rparr>
      | EElasticsearch \<Rightarrow> \<lparr>cap_sequences = False, cap_functions = False, cap_views = False, cap_matviews = False, cap_enums = False, cap_schemas = False,
          cap_triggers = False, cap_rls = False, cap_introspection = False, cap_emulation = Some ''FABRIC''\<rparr>
      | ESnowflake \<Rightarrow> \<lparr>cap_sequences = True, cap_functions = True, cap_views = True, cap_matviews = False, cap_enums = False, cap_schemas = True,
          cap_triggers = False, cap_rls = False, cap_introspection = True, cap_emulation = Some ''IDENTITY''\<rparr>)"

definition hub_name :: string where
  "hub_name = ''Fabric_Hub_Postgres''"

text \<open>The aliases of an engine and its name; \<open>None\<close> for a type without capabilities.\<close>

definition normalizeEngineType :: "string \<Rightarrow> engine_type option" where
  "normalizeEngineType s =
     (let t = js_upper s in
      if t = ''POSTGRESQL'' \<or> t = ''POSTGRES'' then Some EPostgres
      else if t = ''MONGO'' \<or> t = ''MONGODB'' then Some EMongodb
      else if t = ''ELASTIC'' \<or> t = ''ES'' \<or> t = ''ELASTICSEARCH'' then Some EElasticsearch
      else if t = ''ORACLEDB'' \<or> t = ''ORACLE'' then Some EOracle
      else if t = ''MARIADB'' \<or> t = ''MYSQL'' then Some EMysql
      else if t = ''SNOWFLAKE'' then Some ESnowflake else None)"

definition inferEngineType :: "string \<Rightarrow> engine_type" where
  "inferEngineType s =
     (let lower = js_lower s in
      if str_includes lower ''mongo'' then EMongodb
      else if str_includes lower ''mysql'' then EMysql
      else if str_includes lower ''elastic'' \<or> str_includes lower ''opensearch'' then EElasticsearch
      else if str_includes lower ''oracle'' then EOracle
      else if str_includes lower ''snowflake'' then ESnowflake
      else EPostgres)"

text \<open>The sources of the tenant by name, \<open>None\<close> when the registry cannot be read.\<close>

definition resolveEngineType :: "(string \<times> string) list option \<Rightarrow> string \<Rightarrow> engine_type option" where
  "resolveEngineType registry name =
     (if name = hub_name then Some EPostgres
      else (case registry of
        None \<Rightarrow> None
      | Some ss \<Rightarrow> (case kv_get name ss of None \<Rightarrow> None | Some ty \<Rightarrow> normalizeEngineType ty)))"

definition target_engine :: "(string \<times> string) list option \<Rightarrow> string \<Rightarrow> engine_type" where
  "target_engine registry name = (case resolveEngineType registry name of Some e \<Rightarrow> e | None \<Rightarrow> inferEngineType name)"

section \<open>Manifests\<close>

text \<open>A column: a length of zero stands for none; \<open>cd_rest\<close> is what the comparison does not look at.\<close>

record schema_column =
  cd_name :: string
  cd_type :: string
  cd_length :: nat
  cd_ref :: string
  cd_strategy :: string
  cd_rest :: jsval

datatype resource_def =
    REnum string "string list"
  | RSequence string bool jsval
  | RTable string "schema_column list" jsval
  | RView string bool bool bool jsval
  | RFunction string bool jsval

text \<open>The flag of a sequence is the strategy \<open>PROCEDURAL\<close>, that of a function that it is a procedure; those of a view are the type
  \<open>MATERIALIZED_VIEW\<close>, the flag \<open>materialized\<close> and the strategy \<open>VIRTUAL\<close>.\<close>

fun res_name :: "resource_def \<Rightarrow> string" where
  "res_name (REnum n _) = n"
| "res_name (RSequence n _ _) = n"
| "res_name (RTable n _ _) = n"
| "res_name (RView n _ _ _ _) = n"
| "res_name (RFunction n _ _) = n"

record schema_def =
  sc_name :: string
  sc_target :: "string option"
  sc_resources :: "resource_def list"

record manifest =
  mf_target :: "string option"
  mf_schemas :: "schema_def list"
  mf_relationships :: "jsval list"
  mf_extensions :: "string list"
  mf_downstream :: "(string \<times> bool) list"

text \<open>A relation between two resources is kept as the value it is; a downstream target is its type and whether it is enabled.\<close>

fun type_order :: "resource_def \<Rightarrow> nat" where
  "type_order (REnum _ _) = 1"
| "type_order (RSequence _ _ _) = 2"
| "type_order (RFunction _ _ _) = 3"
| "type_order (RTable _ _ _) = 4"
| "type_order (RView _ m _ _ _) = (if m then 6 else 5)"

definition sortResources :: "resource_def list \<Rightarrow> resource_def list" where
  "sortResources rs = js_sort (\<lambda>a b. type_order a < type_order b) rs"

section \<open>Types\<close>

text \<open>What the catalogue says of a column: \<open>data_type\<close>, \<open>udt_name\<close> and \<open>character_maximum_length\<close>, zero for none.\<close>

type_synonym live_col = "string \<times> string \<times> nat"

definition normalizeCatalogType :: "live_col \<Rightarrow> string \<times> nat" where
  "normalizeCatalogType lc =
     (case lc of (data_type, udt_name, len) \<Rightarrow>
        let dt = js_lower data_type; udt = js_lower udt_name in
        if dt = ''character varying'' \<or> udt = ''varchar'' then (''VARCHAR'', len)
        else if dt = ''text'' \<or> udt = ''text'' then (''TEXT'', 0)
        else if dt = ''integer'' \<or> udt = ''int4'' \<or> dt = ''smallint'' \<or> udt = ''int2'' then (''INT'', 0)
        else if dt = ''bigint'' \<or> udt = ''int8'' then (''BIGINT'', 0)
        else if dt = ''numeric'' \<or> dt = ''decimal'' then (''NUMERIC'', 0)
        else if dt = ''boolean'' \<or> udt = ''bool'' then (''BOOL'', 0)
        else if str_includes dt ''timestamp'' then (''TIMESTAMP'', 0)
        else if dt = ''date'' then (''DATE'', 0)
        else if dt = ''uuid'' then (''UUID'', 0)
        else if dt = ''jsonb'' \<or> dt = ''json'' then (''JSONB'', 0)
        else if dt = ''user-defined'' then (''ENUM'', 0)
        else (js_upper dt, 0))"

definition normalizeDeclaredType :: "string \<Rightarrow> nat \<Rightarrow> string \<times> nat" where
  "normalizeDeclaredType declared len =
     (let t = js_upper declared in
      if t = ''STRING'' then (if len \<noteq> 0 then (''VARCHAR'', len) else (''TEXT'', 0))
      else if t = ''VARCHAR'' then (''VARCHAR'', len)
      else if t = ''TEXT'' then (''TEXT'', 0)
      else if t = ''INT'' \<or> t = ''INTEGER'' then (''INT'', 0)
      else if t = ''BIGINT'' then (''BIGINT'', 0)
      else if t = ''NUMERIC'' \<or> t = ''DECIMAL'' \<or> t = ''FLOAT'' then (''NUMERIC'', 0)
      else if t = ''BOOL'' \<or> t = ''BOOLEAN'' then (''BOOL'', 0)
      else (t, 0))"

definition type_changed :: "live_col \<Rightarrow> schema_column \<Rightarrow> bool" where
  "type_changed lc c =
     (let cat = normalizeCatalogType lc; dec = normalizeDeclaredType (cd_type c) (cd_length c) in
      fst cat \<noteq> fst dec
      \<or> fst dec = ''VARCHAR'' \<and> (snd cat \<noteq> 0 \<and> snd dec \<noteq> 0 \<and> snd cat \<noteq> snd dec \<or> snd cat = 0 \<and> snd dec \<noteq> 0))"

definition redeclared :: "schema_column \<Rightarrow> schema_column \<Rightarrow> bool" where
  "redeclared prev c =
     (let p = normalizeDeclaredType (cd_type prev) (cd_length prev); d = normalizeDeclaredType (cd_type c) (cd_length c) in
      fst p \<noteq> fst d \<or> fst d = ''VARCHAR'' \<and> snd p \<noteq> snd d)"

section \<open>The live catalogue and the comparison\<close>

record live_schema =
  lv_enums :: "(string \<times> string list) list"
  lv_sequences :: "string list"
  lv_tables :: "(string \<times> (string \<times> live_col) list) list"
  lv_views :: "string list"
  lv_functions :: "string list"

definition empty_schema :: live_schema where
  "empty_schema = \<lparr>lv_enums = [], lv_sequences = [], lv_tables = [], lv_views = [], lv_functions = []\<rparr>"

text \<open>What the comparison reads: the schemas of the hub, the tables the fabric has catalogued for the tenant (with the columns of
  their definition, if they have one), the extensions and the registered downstream targets.\<close>

record catalog =
  ct_schemas :: "string \<Rightarrow> live_schema option"
  ct_catalogued :: "(string \<times> schema_column list option) list"
  ct_extensions :: "string list"
  ct_downstream :: "string list"

datatype change =
    CreateSchema string
  | CreateEnum string "string list"
  | RegisterFabricEnum string "string list"
  | AddEnumValue string string
  | CreateSequence resource_def bool
  | CreateTable string "schema_column list" jsval
  | AddColumn string schema_column
  | AlterColumnType string schema_column
  | CreateView resource_def bool bool
  | CreateFunction resource_def bool
  | QuarantineTable string
  | ProvisionRelationship jsval
  | ProvisionExtensions "string list"
  | ProvisionDownstream string bool

text \<open>The flags: a compensation on the hub; for a view first whether it is materialized.\<close>

record diff_entry =
  de_change :: change
  de_schema :: string
  de_target :: string
  de_engine :: engine_type
  de_high :: bool

definition diffEnum :: "capability \<Rightarrow> live_schema \<Rightarrow> string \<Rightarrow> string list \<Rightarrow> change list" where
  "diffEnum caps live name values =
     (if cap_enums caps
      then (case kv_get name (lv_enums live) of
              None \<Rightarrow> [CreateEnum name values]
            | Some labels \<Rightarrow> map (AddEnumValue name) (filter (\<lambda>v. v \<notin> set labels) values))
      else [RegisterFabricEnum name values])"

definition diffSequence :: "capability \<Rightarrow> live_schema \<Rightarrow> resource_def \<Rightarrow> change list" where
  "diffSequence caps live r =
     (if cap_sequences caps
      then (if cap_introspection caps then (if res_name r \<in> set (lv_sequences live) then [] else [CreateSequence r False])
            else [CreateSequence r False])
      else [CreateSequence r True])"

definition diffTable :: "capability \<Rightarrow> live_schema \<Rightarrow> (string \<times> schema_column list option) list \<Rightarrow> string \<Rightarrow> schema_column list \<Rightarrow> jsval \<Rightarrow> change list" where
  "diffTable caps live catalogued name cols rest =
     (if cap_introspection caps
      then (case kv_get name (lv_tables live) of
              None \<Rightarrow> [CreateTable name cols rest]
            | Some live_cols \<Rightarrow> concat (map (\<lambda>c. case kv_get (cd_name c) live_cols of
                  None \<Rightarrow> [AddColumn name c]
                | Some lc \<Rightarrow> if type_changed lc c then [AlterColumnType name c] else []) cols))
      else (case kv_get name catalogued of
              Some (Some prev) \<Rightarrow> concat (map (\<lambda>c. case List.find (\<lambda>p. cd_name p = cd_name c) (rev prev) of
                  None \<Rightarrow> [AddColumn name c]
                | Some p \<Rightarrow> if redeclared p c then [AlterColumnType name c] else []) cols)
            | _ \<Rightarrow> [CreateTable name cols rest]))"

definition diffView :: "capability \<Rightarrow> live_schema \<Rightarrow> resource_def \<Rightarrow> bool \<Rightarrow> change list" where
  "diffView caps live r mat =
     (if mat \<and> \<not> cap_matviews caps then [CreateView r True True]
      else if \<not> cap_views caps then [CreateView r mat True]
      else if cap_introspection caps \<and> res_name r \<in> set (lv_views live) then []
      else [CreateView r mat False])"

definition diffFunction :: "capability \<Rightarrow> live_schema \<Rightarrow> resource_def \<Rightarrow> change list" where
  "diffFunction caps live r =
     (if cap_functions caps
      then (if cap_introspection caps \<and> res_name r \<in> set (lv_functions live) then [] else [CreateFunction r False])
      else [CreateFunction r True])"

fun processResourceDiff :: "capability \<Rightarrow> live_schema \<Rightarrow> (string \<times> schema_column list option) list \<Rightarrow> resource_def \<Rightarrow> change list" where
  "processResourceDiff caps live cat (REnum n vs) = diffEnum caps live n vs"
| "processResourceDiff caps live cat (RSequence n p x) = diffSequence caps live (RSequence n p x)"
| "processResourceDiff caps live cat (RTable n cols x) = diffTable caps live cat n cols x"
| "processResourceDiff caps live cat (RView n m b v x) = diffView caps live (RView n m b v x) (m \<or> b)"
| "processResourceDiff caps live cat (RFunction n p x) = diffFunction caps live (RFunction n p x)"

definition table_names :: "resource_def list \<Rightarrow> string list" where
  "table_names rs = concat (map (\<lambda>r. case r of RTable n _ _ \<Rightarrow> [n] | _ \<Rightarrow> []) rs)"

definition detectRetired :: "capability \<Rightarrow> live_schema \<Rightarrow> resource_def list \<Rightarrow> change list" where
  "detectRetired caps live rs =
     (if cap_introspection caps
      then map QuarantineTable (filter (\<lambda>t. t \<notin> set (table_names rs) \<and> \<not> starts_with t ''__deleted'') (map fst (lv_tables live))) else [])"

definition high_risk :: "change \<Rightarrow> bool" where
  "high_risk c = (case c of QuarantineTable _ \<Rightarrow> True | _ \<Rightarrow> False)"

definition schema_changes :: "capability \<Rightarrow> live_schema option \<Rightarrow> (string \<times> schema_column list option) list \<Rightarrow> string \<Rightarrow> resource_def list \<Rightarrow> change list" where
  "schema_changes caps live cat name rs =
     (let l = (case live of Some x \<Rightarrow> x | None \<Rightarrow> empty_schema) in
      (if cap_schemas caps \<and> \<not> (cap_introspection caps \<and> live \<noteq> None) then [CreateSchema name] else [])
      @ concat (map (processResourceDiff caps l cat) (sortResources rs)) @ detectRetired caps l rs)"

definition schema_target :: "manifest \<Rightarrow> schema_def \<Rightarrow> string" where
  "schema_target m s =
     (case sc_target s of Some t \<Rightarrow> if t \<noteq> [] then t else (case mf_target m of Some u \<Rightarrow> if u \<noteq> [] then u else hub_name | None \<Rightarrow> hub_name)
      | None \<Rightarrow> (case mf_target m of Some u \<Rightarrow> if u \<noteq> [] then u else hub_name | None \<Rightarrow> hub_name))"

definition schema_diff :: "string \<Rightarrow> (string \<times> string) list option \<Rightarrow> manifest \<Rightarrow> catalog \<Rightarrow> schema_def \<Rightarrow> diff_entry list res" where
  "schema_diff tenant registry m ct s =
     mapR (\<lambda>physical.
         let target = schema_target m s; e = target_engine registry target in
         map (\<lambda>c. \<lparr>de_change = c, de_schema = sc_name s, de_target = target, de_engine = e, de_high = high_risk c\<rparr>)
           (schema_changes (ENGINE_CAPABILITIES e) (ct_schemas ct physical) (ct_catalogued ct) (sc_name s) (sc_resources s)))
       (physicalSchemaName tenant (JStr (sc_name s)))"

text \<open>The entries of the whole manifest carry neither a target nor an engine.\<close>

definition plain_entry :: "string \<Rightarrow> change \<Rightarrow> diff_entry" where
  "plain_entry schema c = \<lparr>de_change = c, de_schema = schema, de_target = [], de_engine = EPostgres, de_high = False\<rparr>"

definition compare_manifest :: "string \<Rightarrow> (string \<times> string) list option \<Rightarrow> manifest \<Rightarrow> catalog \<Rightarrow> diff_entry list res" where
  "compare_manifest tenant registry m ct =
     mapR (\<lambda>ds. concat ds
         @ map (\<lambda>r. plain_entry (case mf_schemas m of s # _ \<Rightarrow> if sc_name s = [] then ''default'' else sc_name s | [] \<Rightarrow> ''default'') (ProvisionRelationship r)) (mf_relationships m)
         @ (let missing = filter (\<lambda>x. x \<notin> set (ct_extensions ct)) (mf_extensions m) in
            if missing = [] then [] else [plain_entry [] (ProvisionExtensions missing)])
         @ map (\<lambda>(t, on). plain_entry [] (ProvisionDownstream t on)) (filter (\<lambda>(t, on). t \<notin> set (ct_downstream ct) \<or> on) (mf_downstream m)))
       (mapMR (schema_diff tenant registry m ct) (mf_schemas m))"

text \<open>The gate in front of the application of a plan, and the schemas a forced one adds.\<close>

definition apply_gate :: "bool \<Rightarrow> manifest \<Rightarrow> diff_entry list \<Rightarrow> diff_entry list res" where
  "apply_gate force m plan =
     (if list_ex de_high plan \<and> \<not> force then Inl (Err 500 ''HIGH_RISK'')
      else Inr (if force
        then foldl (\<lambda>p s. if list_ex (\<lambda>d. de_change d = CreateSchema (sc_name s)) p then p
               else \<lparr>de_change = CreateSchema (sc_name s), de_schema = [], de_target = schema_target m s,
                     de_engine = inferEngineType (schema_target m s), de_high = False\<rparr> # p) plan (mf_schemas m)
        else plan))"

section \<open>The effect of the statements on the hub\<close>

definition PG_TYPES :: "(string \<times> string) list" where
  "PG_TYPES =
     [(''STRING'', ''TEXT''), (''TEXT'', ''TEXT''), (''VARCHAR'', ''VARCHAR''), (''INTEGER'', ''INT''), (''INT'', ''INT''), (''BIGINT'', ''BIGINT''),
      (''BOOLEAN'', ''BOOL''), (''BOOL'', ''BOOL''), (''TIMESTAMP'', ''TIMESTAMP''), (''DATE'', ''DATE''), (''UUID'', ''UUID''), (''JSONB'', ''JSONB''), (''JSON'', ''JSONB''),
      (''NUMERIC'', ''NUMERIC''), (''DECIMAL'', ''NUMERIC''), (''FLOAT'', ''DOUBLE PRECISION'')]"

definition normalizeType :: "string \<Rightarrow> string res" where
  "normalizeType t =
     (if t = [] then Inr t
      else mapR (\<lambda>_. case kv_get (js_upper t) PG_TYPES of Some u \<Rightarrow> u | None \<Rightarrow> t) (assertColumnType [] (JStr t)))"

definition enum_ref :: "schema_column \<Rightarrow> bool" where
  "enum_ref c \<longleftrightarrow> js_upper (cd_type c) = ''ENUM'' \<and> cd_ref c \<noteq> []"

definition mapped_type :: "string list \<Rightarrow> schema_column \<Rightarrow> string res" where
  "mapped_type enums c = (if cd_type c \<in> set enums \<or> enum_ref c then Inr (cd_type c) else normalizeType (cd_type c))"

definition named_type :: "string \<Rightarrow> string \<Rightarrow> string res" where
  "named_type S n = mapR (\<lambda>q. S @ ''.'' @ q) (quoteIdent (JStr n))"

text \<open>The type in \<open>CREATE TABLE\<close> and \<open>ADD COLUMN\<close>, and in \<open>ALTER COLUMN\<close>; \<open>S\<close> is the quoted schema, \<open>enums\<close> the enums it declares.\<close>

definition create_type :: "string \<Rightarrow> string list \<Rightarrow> schema_column \<Rightarrow> string res" where
  "create_type S enums c =
     bindR (mapped_type enums c) (\<lambda>mapped.
       if cd_strategy c = ''IDENTITY_ALWAYS'' then Inr mapped
       else if cd_strategy c = ''UUID_V7'' then Inr ''UUID''
       else if cd_strategy c = ''LEGACY_SERIAL'' then Inr ''SERIAL''
       else if enum_ref c then named_type S (cd_ref c)
       else if cd_type c \<in> set enums then named_type S (cd_type c)
       else if cd_length c \<noteq> 0 \<and> js_upper (cd_type c) = ''STRING'' then Inr (''VARCHAR('' @ show_nat (cd_length c) @ '')'')
       else Inr mapped)"

definition alter_type :: "string \<Rightarrow> string list \<Rightarrow> schema_column \<Rightarrow> string res" where
  "alter_type S enums c =
     bindR (mapped_type enums c) (\<lambda>mapped.
       if enum_ref c then named_type S (cd_ref c)
       else if cd_type c \<in> set enums then named_type S (cd_type c)
       else if cd_length c \<noteq> 0 \<and> (js_upper (cd_type c) = ''STRING'' \<or> js_upper (cd_type c) = ''VARCHAR'') then Inr (''VARCHAR('' @ show_nat (cd_length c) @ '')'')
       else Inr mapped)"

text \<open>
  What the catalogue of PostgreSQL says of a column of a type is the parameter \<open>pg\<close>. A refused type aborts the
  application of the plan before any statement runs; the claim below is about plans without one.
\<close>

definition live_of :: "(string \<Rightarrow> live_col) \<Rightarrow> string res \<Rightarrow> live_col" where
  "live_of pg r = (case r of Inr ty \<Rightarrow> pg ty | Inl _ \<Rightarrow> ([], [], 0))"

definition add_name :: "string \<Rightarrow> string list \<Rightarrow> string list" where
  "add_name n ns = (if n \<in> set ns then ns else ns @ [n])"

definition update_table :: "string \<Rightarrow> ((string \<times> live_col) list \<Rightarrow> (string \<times> live_col) list) \<Rightarrow> live_schema \<Rightarrow> live_schema" where
  "update_table t f live = (case kv_get t (lv_tables live) of Some cols \<Rightarrow> live\<lparr>lv_tables := kv_set t (f cols) (lv_tables live)\<rparr> | None \<Rightarrow> live)"

definition creates_view :: "resource_def \<Rightarrow> bool" where
  "creates_view r = (case r of RView _ m b v _ \<Rightarrow> m \<or> b \<or> \<not> v | _ \<Rightarrow> False)"

definition is_procedural :: "resource_def \<Rightarrow> bool" where
  "is_procedural r = (case r of RSequence _ p _ \<Rightarrow> p | _ \<Rightarrow> False)"

definition effect :: "(string \<Rightarrow> live_col) \<Rightarrow> string \<Rightarrow> string list \<Rightarrow> change \<Rightarrow> live_schema \<Rightarrow> live_schema" where
  "effect pg S enums ch live =
     (case ch of
        CreateEnum n vs \<Rightarrow> live\<lparr>lv_enums := kv_set n vs (lv_enums live)\<rparr>
      | AddEnumValue n v \<Rightarrow> (case kv_get n (lv_enums live) of
            Some ls \<Rightarrow> live\<lparr>lv_enums := kv_set n (add_name v ls) (lv_enums live)\<rparr> | None \<Rightarrow> live)
      | CreateSequence r _ \<Rightarrow> if is_procedural r then live else live\<lparr>lv_sequences := add_name (res_name r) (lv_sequences live)\<rparr>
      | CreateTable n cols _ \<Rightarrow> (case kv_get n (lv_tables live) of
            Some _ \<Rightarrow> live
          | None \<Rightarrow> live\<lparr>lv_tables := kv_set n (map (\<lambda>c. (cd_name c, live_of pg (create_type S enums c))) cols) (lv_tables live)\<rparr>)
      | AddColumn t c \<Rightarrow> update_table t (\<lambda>cols. if kv_get (cd_name c) cols = None then cols @ [(cd_name c, live_of pg (create_type S enums c))] else cols) live
      | AlterColumnType t c \<Rightarrow> update_table t (kv_set (cd_name c) (live_of pg (alter_type S enums c))) live
      | CreateView r _ _ \<Rightarrow> if creates_view r then live\<lparr>lv_views := add_name (res_name r) (lv_views live)\<rparr> else live
      | CreateFunction r _ \<Rightarrow> live\<lparr>lv_functions := add_name (res_name r) (lv_functions live)\<rparr>
      | _ \<Rightarrow> live)"


section \<open>A plan that was applied is not planned again\<close>

























abbreviation PG :: capability where
  "PG \<equiv> ENGINE_CAPABILITIES EPostgres"

fun same_at :: "resource_def \<Rightarrow> live_schema \<Rightarrow> live_schema \<Rightarrow> bool" where
  "same_at (REnum n _) l l' = (kv_get n (lv_enums l) = kv_get n (lv_enums l'))"
| "same_at (RSequence n _ _) l l' = (n \<in> set (lv_sequences l) \<longleftrightarrow> n \<in> set (lv_sequences l'))"
| "same_at (RTable n _ _) l l' = (kv_get n (lv_tables l) = kv_get n (lv_tables l'))"
| "same_at (RView n _ _ _ _) l l' = (n \<in> set (lv_views l) \<longleftrightarrow> n \<in> set (lv_views l'))"
| "same_at (RFunction n _ _) l l' = (n \<in> set (lv_functions l) \<longleftrightarrow> n \<in> set (lv_functions l'))"

lemma same_at_refl [simp]: "same_at r l l"
  by (cases r) simp_all


lemma pg_caps [simp]: "cap_enums PG" "cap_sequences PG" "cap_introspection PG" "cap_views PG" "cap_matviews PG" "cap_functions PG" "cap_schemas PG"
  by (simp_all add: ENGINE_CAPABILITIES_def)

lemma diff_local: "same_at r l l' \<Longrightarrow> processResourceDiff PG l cat r = processResourceDiff PG l' cat r"
  by (cases r) (simp_all add: diffEnum_def diffSequence_def diffTable_def diffView_def diffFunction_def)

lemma set_add_name [simp]: "set (add_name n ns) = insert n (set ns)"
  by (auto simp: add_name_def)






































lemma set_sortResources [simp]: "set (sortResources rs) = set rs"
  by (simp add: sortResources_def)








definition column_of :: "string \<Rightarrow> string \<Rightarrow> schema_column" where
  "column_of n ty = \<lparr>cd_name = n, cd_type = ty, cd_length = 0, cd_ref = [], cd_strategy = [], cd_rest = JNull\<rparr>"





text \<open>
  Types that the comparison never finds settled: a \<open>FLOAT\<close> column is created as \<open>DOUBLE PRECISION\<close>, which the catalogue reports
  under a name of its own, and a declared \<open>JSON\<close>, \<open>SMALLINT\<close> or \<open>TIMESTAMPTZ\<close> is compared by its own name with the
  reported \<open>JSONB\<close>, \<open>INT\<close> or \<open>TIMESTAMP\<close>.
\<close>

lemma float_never_settles: "create_type ''s'' [] (column_of ''x'' ''FLOAT'') = Inr ''DOUBLE PRECISION''
    \<and> type_changed (''double precision'', ''float8'', 0) (column_of ''x'' ''FLOAT'')"
  by code_simp

lemma json_never_settles: "create_type ''s'' [] (column_of ''x'' ''JSON'') = Inr ''JSONB'' \<and> type_changed (''jsonb'', ''jsonb'', 0) (column_of ''x'' ''JSON'')"
  by code_simp

lemma smallint_never_settles: "create_type ''s'' [] (column_of ''x'' ''SMALLINT'') = Inr ''SMALLINT'' \<and> type_changed (''smallint'', ''int2'', 0) (column_of ''x'' ''SMALLINT'')"
  by code_simp

lemma timestamptz_never_settles: "create_type ''s'' [] (column_of ''x'' ''TIMESTAMPTZ'') = Inr ''TIMESTAMPTZ''
    \<and> type_changed (''timestamp with time zone'', ''timestamptz'', 0) (column_of ''x'' ''TIMESTAMPTZ'')"
  by code_simp

text \<open>A \<open>VARCHAR\<close> with a length is created without it and altered to it by the next plan.\<close>

lemma varchar_created_unsized:
  "create_type ''s'' [] ((column_of ''x'' ''VARCHAR'')\<lparr>cd_length := 20\<rparr>) = Inr ''VARCHAR''
   \<and> type_changed (''character varying'', ''varchar'', 0) ((column_of ''x'' ''VARCHAR'')\<lparr>cd_length := 20\<rparr>)
   \<and> alter_type ''s'' [] ((column_of ''x'' ''VARCHAR'')\<lparr>cd_length := 20\<rparr>) = Inr ''VARCHAR(20)''"
  by code_simp

text \<open>The gate: a plan with a retired table is applied with force only; then its quarantine entry changes nothing, and the next plan has it again.\<close>

lemma gate_blocks_retired: "list_ex de_high plan \<Longrightarrow> \<exists>e. apply_gate False m plan = Inl e"
  by (simp add: apply_gate_def)

lemma quarantine_without_effect: "effect pg S enums (QuarantineTable t) l = l"
  by (simp add: effect_def)

text \<open>A virtual view is planned again forever.\<close>

lemma virtual_view_replanned:
  "res_name (RView n False False True x) \<notin> set (lv_views l) \<Longrightarrow>
     processResourceDiff PG (effect pg S enums (CreateView (RView n False False True x) False False) l) cat (RView n False False True x)
       = [CreateView (RView n False False True x) False False]"
  by (simp add: effect_def creates_view_def diffView_def)

end
