(* ===== verification/TenantSettings.thy ===== *)
theory TenantSettings
  imports NetGuard
begin

text \<open>
  The settings of the platform and of a workspace, and the guard every authenticated request passes:
  \<open>modules/tenancy/validate.ts\<close>, \<open>system-settings.service.ts\<close>, \<open>workspace-settings.service.ts\<close>,
  \<open>workspace.guard.ts\<close> and \<open>isPlatformAdmin\<close> of \<open>middleware/tenantAccess.middleware.ts\<close>. The database is a
  record of the rows these functions read, with a flag for a failing connection; the three caches are
  part of the state and carry the time of the reading.
\<close>

section \<open>Validation of a settings object\<close>

datatype field_spec =
    FBool
  | FInt int int
  | FStr nat "(string \<Rightarrow> bool) option" bool "string list option"
  | FList nat nat "(string \<Rightarrow> bool) option" "string list option"

type_synonym section_spec = "(string \<times> field_spec) list"

definition badSetting :: js_err where
  "badSetting = Err 400 ''INVALID_SETTINGS''"

definition opt_test :: "('a \<Rightarrow> bool) option \<Rightarrow> 'a \<Rightarrow> bool" where
  "opt_test p x = (case p of None \<Rightarrow> True | Some f \<Rightarrow> f x)"

definition opt_member :: "'a list option \<Rightarrow> 'a \<Rightarrow> bool" where
  "opt_member p x = (case p of None \<Rightarrow> True | Some xs \<Rightarrow> x \<in> set xs)"

definition str_field_ok :: "nat \<Rightarrow> (string \<Rightarrow> bool) option \<Rightarrow> string list option \<Rightarrow> string \<Rightarrow> bool" where
  "str_field_ok maxLen pattern vals s \<longleftrightarrow>
     length s \<le> maxLen \<and> CHR 0x00 \<notin> set s \<and> opt_test pattern s \<and> opt_member vals s"

definition list_item_ok :: "nat \<Rightarrow> (string \<Rightarrow> bool) option \<Rightarrow> string list option \<Rightarrow> jsval \<Rightarrow> bool" where
  "list_item_ok maxLen item allowed v \<longleftrightarrow>
     (case v of JStr s \<Rightarrow> s \<noteq> [] \<and> length s \<le> maxLen \<and> CHR 0x00 \<notin> set s \<and> opt_test item s \<and> opt_member allowed s | _ \<Rightarrow> False)"

fun validate_field :: "field_spec \<Rightarrow> jsval \<Rightarrow> jsval res" where
  "validate_field FBool v = (if is_bool v then Inr v else Inl badSetting)"
| "validate_field (FInt lo hi) v =
     (case v of JNum q \<Rightarrow> if is_int_rat q \<and> of_int lo \<le> q \<and> q \<le> of_int hi then Inr v else Inl badSetting | _ \<Rightarrow> Inl badSetting)"
| "validate_field (FStr maxLen pattern nullable vals) v =
     (if v = JNull \<and> nullable then Inr JNull
      else (case v of JStr s \<Rightarrow> if str_field_ok maxLen pattern vals s then Inr (JStr (js_trim s)) else Inl badSetting
                    | _ \<Rightarrow> Inl badSetting))"
| "validate_field (FList maxItems maxLen item allowed) v =
     (case v of JArr xs \<Rightarrow>
        if length xs \<le> maxItems \<and> list_all (list_item_ok maxLen item allowed) xs then Inr (JArr (js_dedup xs)) else Inl badSetting
      | _ \<Rightarrow> Inl badSetting)"

definition validateSection :: "section_spec \<Rightarrow> jsval \<Rightarrow> (string \<times> jsval) list res" where
  "validateSection spec body =
     (case body of
        JObj kvs \<Rightarrow>
          if list_ex (\<lambda>kv. kv_get (fst kv) spec = None) kvs then Inl (Err 400 ''UNKNOWN_SETTINGS'')
          else mapMR (\<lambda>kv. case kv_get (fst kv) spec of
                 Some f \<Rightarrow> mapR (Pair (fst kv)) (validate_field f (snd kv)) | None \<Rightarrow> Inl badSetting) kvs
      | _ \<Rightarrow> Inl badSetting)"

section \<open>Addresses\<close>

definition split_rule :: "string \<Rightarrow> string \<times> string option \<times> bool" where
  "split_rule v = (case split_chr CHR ''/'' v of
     [ip] \<Rightarrow> (ip, None, False) | ip # bits # rest \<Rightarrow> (ip, Some bits, rest \<noteq> []) | [] \<Rightarrow> ([], None, False))"

definition isValidIpOrCidr :: "string \<Rightarrow> bool" where
  "isValidIpOrCidr v =
     (case split_rule v of (ip, bits, extra) \<Rightarrow>
        \<not> extra \<and> isIP ip
        \<and> (case bits of None \<Rightarrow> True
           | Some b \<Rightarrow> b \<noteq> [] \<and> length b \<le> 3 \<and> list_all is_digit b \<and> num_val 10 b \<le> (if isIPv4 ip then 32 else 128)))"

text \<open>\<open>ip.split('.').reduce((a, o) => (a << 8) + Number(o), 0) >>> 0\<close>: shifts work on 32 bits.\<close>

definition ip4ToInt :: "string \<Rightarrow> 32 word" where
  "ip4ToInt ip = foldl (\<lambda>a p. push_bit 8 a + of_nat (num_val 10 p)) 0 (split_chr CHR ''.'' ip)"

text \<open>\<open>~0 << (32 - b)\<close>; the count of a shift is taken modulo 32.\<close>

definition prefix_mask :: "nat \<Rightarrow> 32 word" where
  "prefix_mask b = (if b = 0 then 0 else push_bit (nat ((32 - int b) mod 32)) (NOT 0))"

definition rule_bits :: "string option \<Rightarrow> nat" where
  "rule_bits bits = (case bits of None \<Rightarrow> 32 | Some b \<Rightarrow> num_val 10 b)"

definition ip_rule :: "string \<Rightarrow> string \<Rightarrow> bool" where
  "ip_rule clean rule =
     (case split_rule rule of (base, bits, _) \<Rightarrow>
        if isIPv4 clean \<and> isIPv4 base
        then (let mask = prefix_mask (rule_bits bits) in and (ip4ToInt clean) mask = and (ip4ToInt base) mask)
        else clean = base)"

definition ipAllowed :: "string option \<Rightarrow> string list \<Rightarrow> bool" where
  "ipAllowed ip allowed =
     (if allowed = [] then True
      else (case ip of
        None \<Rightarrow> False
      | Some s \<Rightarrow> s \<noteq> [] \<and>
          (let clean = (if starts_with s ''::ffff:'' then drop 7 s else s) in list_ex (ip_rule clean) allowed)))"

section \<open>The fields of the settings\<close>

definition TOKEN_SCOPES :: "string list" where
  "TOKEN_SCOPES = [''query:read'', ''data:read'', ''data:write'', ''metadata:read'', ''metadata:write'', ''triggers:read'', ''triggers:write'']"

definition name_re :: "string \<Rightarrow> bool" where
  "name_re s \<longleftrightarrow> 1 \<le> length s \<and> length s \<le> 100 \<and> list_all (\<lambda>c. is_word_chr c \<or> c = CHR ''-'') s"

definition region_re :: "string \<Rightarrow> bool" where
  "region_re s \<longleftrightarrow> 2 \<le> length s \<and> length s \<le> 8 \<and> list_all is_alpha s"

definition timezone_re :: "string \<Rightarrow> bool" where
  "timezone_re s \<longleftrightarrow>
     (case split_chr CHR ''/'' s of
        a # ps \<Rightarrow> a \<noteq> [] \<and> list_all is_ident_start a \<and> length ps \<le> 2
          \<and> list_all (\<lambda>p. p \<noteq> [] \<and> list_all (\<lambda>c. is_word_chr c \<or> c = CHR ''+'' \<or> c = CHR ''-'') p) ps
      | [] \<Rightarrow> False)"

definition email_re :: "string \<Rightarrow> bool" where
  "email_re s \<longleftrightarrow> list_all (\<lambda>c. \<not> is_space c) s
     \<and> (case split_chr CHR ''@'' s of
          [local, domain] \<Rightarrow> local \<noteq> [] \<and> list_ex (\<lambda>i. domain ! i = CHR ''.'') [1..<length domain - 1]
        | _ \<Rightarrow> False)"

definition SYSTEM_SPEC :: section_spec where
  "SYSTEM_SPEC =
     [(''defaultPlan'', FStr 100 (Some name_re) True None), (''planLimitsEnabled'', FBool), (''allowSelfSignup'', FBool),
      (''allowWorkspaceCreation'', FBool), (''maxWorkspacesPerUser'', FInt (- 1) 10000), (''defaultRegion'', FStr 8 (Some region_re) False None),
      (''maintenanceMode'', FBool), (''maintenanceMessage'', FStr 300 None False None), (''maxTokenDays'', FInt 1 365)]"

definition WORKSPACE_SPECS :: "(string \<times> section_spec) list" where
  "WORKSPACE_SPECS =
     [(''general'', [(''displayName'', FStr 100 None False None), (''timezone'', FStr 64 (Some timezone_re) False None),
                     (''defaultRegion'', FStr 8 (Some region_re) False None), (''contactEmail'', FStr 200 (Some email_re) False None)]),
      (''query'', [(''maxRows'', FInt 1 1000000), (''timeoutMs'', FInt 100 300000), (''allowStreaming'', FBool)]),
      (''security'', [(''allowedIps'', FList 50 49 (Some isValidIpOrCidr) None)]),
      (''api'', [(''allowDeveloperTokens'', FBool), (''maxTokenDays'', FInt 1 365),
                 (''allowedScopes'', FList (length TOKEN_SCOPES) 32 None (Some TOKEN_SCOPES))]),
      (''notifications'', [(''emailOnLimit'', FBool), (''limitWarningPercent'', FInt 50 100)])]"

definition WORKSPACE_DEFAULTS :: "string \<Rightarrow> (string \<times> jsval) list" where
  "WORKSPACE_DEFAULTS s =
     (if s = ''general'' then [(''timezone'', JStr ''UTC'')]
      else if s = ''query'' then [(''allowStreaming'', JBool True)]
      else if s = ''security'' then [(''allowedIps'', JArr [])]
      else if s = ''api'' then [(''allowDeveloperTokens'', JBool True), (''allowedScopes'', JArr (map JStr TOKEN_SCOPES))]
      else [(''emailOnLimit'', JBool True), (''limitWarningPercent'', JNum 80)])"

section \<open>The database and the caches\<close>

record workspace_row =
  wr_status :: jsval
  wr_settings :: jsval

record settings_db =
  sd_up :: bool
  sd_system :: "jsval option"
  sd_plans :: "(string \<times> string option \<times> bool) list"
  sd_workspaces :: "(string \<times> workspace_row) list"

type_synonym kvs = "(string \<times> jsval) list"

record settings_cache =
  sc_system :: "(nat \<times> kvs) option"
  sc_workspace :: "(string \<times> nat \<times> (string \<times> kvs) list) list"
  sc_status :: "(string \<times> nat \<times> string option) list"

definition queryFailed :: js_err where
  "queryFailed = Err 500 ''QUERY_FAILED''"

subsection \<open>System settings\<close>

text \<open>The environment: \<open>PLAN_LIMITS_ENABLED\<close> and \<open>DEFAULT_REGION\<close>.\<close>

definition SYSTEM_DEFAULTS :: "string option \<times> string option \<Rightarrow> kvs" where
  "SYSTEM_DEFAULTS env =
     [(''defaultPlan'', JNull), (''planLimitsEnabled'', JBool (fst env \<noteq> Some ''false'')), (''allowSelfSignup'', JBool True),
      (''allowWorkspaceCreation'', JBool True), (''maxWorkspacesPerUser'', JNum (- 1)),
      (''defaultRegion'', JStr (case snd env of Some r \<Rightarrow> if r = [] then ''AP'' else r | None \<Rightarrow> ''AP'')),
      (''maintenanceMode'', JBool False), (''maintenanceMessage'', JStr []), (''maxTokenDays'', JNum 365)]"

definition system_value :: "string option \<times> string option \<Rightarrow> settings_db \<Rightarrow> kvs" where
  "system_value env db =
     (let stored = (if sd_up db then (case sd_system db of Some v \<Rightarrow> if truthy v then v else JObj [] | None \<Rightarrow> JObj []) else JObj []) in
      foldl (\<lambda>value k. let s = js_get k stored in
         if \<not> nullish s \<or> k = ''defaultPlan'' \<and> s = JNull then kv_set k s value else value) (SYSTEM_DEFAULTS env) (map fst SYSTEM_SPEC))"

definition system_ttl :: nat where "system_ttl = 10000"
definition workspace_ttl :: nat where "workspace_ttl = 5000"

definition system_get :: "string option \<times> string option \<Rightarrow> nat \<Rightarrow> settings_db \<Rightarrow> settings_cache \<Rightarrow> kvs \<times> settings_cache" where
  "system_get env now db c =
     (case sc_system c of
        Some (stamp, value) \<Rightarrow> if now - stamp < system_ttl then (value, c)
          else (system_value env db, c\<lparr>sc_system := Some (now, system_value env db)\<rparr>)
      | None \<Rightarrow> (system_value env db, c\<lparr>sc_system := Some (now, system_value env db)\<rparr>))"

definition plan_selectable :: "settings_db \<Rightarrow> string \<Rightarrow> bool" where
  "plan_selectable db name = list_ex (\<lambda>(n, st, custom). n = name \<and> (case st of None \<Rightarrow> True | Some s \<Rightarrow> s = ''active'') \<and> \<not> custom) (sd_plans db)"

definition default_plan_check :: "settings_db \<Rightarrow> kvs \<Rightarrow> unit res" where
  "default_plan_check db clean =
     (case kv_get ''defaultPlan'' clean of
        Some (JStr p) \<Rightarrow> if p = [] then Inr () else if \<not> sd_up db then Inl queryFailed
                         else if plan_selectable db p then Inr () else Inl badSetting
      | _ \<Rightarrow> Inr ())"

definition system_update :: "string option \<times> string option \<Rightarrow> nat \<Rightarrow> jsval \<Rightarrow> settings_db \<Rightarrow> settings_cache \<Rightarrow> kvs res \<times> settings_db \<times> settings_cache" where
  "system_update env now patch db c =
     (case validateSection SYSTEM_SPEC patch of
        Inl e \<Rightarrow> (Inl e, db, c)
      | Inr clean \<Rightarrow>
          if clean = [] then (case system_get env now db c of (v, c') \<Rightarrow> (Inr v, db, c'))
          else (case default_plan_check db clean of
            Inl e \<Rightarrow> (Inl e, db, c)
          | Inr _ \<Rightarrow>
              (case system_get env now db c of (current, c') \<Rightarrow>
                 let nxt = kv_merge current clean in
                 if \<not> sd_up db then (Inl queryFailed, db, c')
                 else (Inr nxt, db\<lparr>sd_system := Some (JObj nxt)\<rparr>, c'\<lparr>sc_system := None\<rparr>))))"

subsection \<open>Workspace settings\<close>

definition workspace_value :: "settings_db \<Rightarrow> string \<Rightarrow> (string \<times> kvs) list" where
  "workspace_value db t =
     (let stored = (case kv_get t (sd_workspaces db) of Some r \<Rightarrow> if truthy (wr_settings r) then wr_settings r else JObj [] | None \<Rightarrow> JObj []) in
      map (\<lambda>s. (s, kv_merge (WORKSPACE_DEFAULTS s) (obj_of (js_get s stored)))) (map fst WORKSPACE_SPECS))"

definition workspace_get :: "nat \<Rightarrow> string \<Rightarrow> settings_db \<Rightarrow> settings_cache \<Rightarrow> (string \<times> kvs) list res \<times> settings_cache" where
  "workspace_get now t db c =
     (let read = (if sd_up db then (Inr (workspace_value db t), c\<lparr>sc_workspace := kv_set t (now, workspace_value db t) (sc_workspace c)\<rparr>)
                  else (Inl queryFailed, c)) in
      case kv_get t (sc_workspace c) of
        Some (stamp, value) \<Rightarrow> if now - stamp < workspace_ttl then (Inr value, c) else read
      | None \<Rightarrow> read)"

text \<open>\<open>settings\<close> with the section merged into it, as \<open>jsonb_set\<close> and \<open>||\<close> do.\<close>

definition merge_section :: "jsval \<Rightarrow> string \<Rightarrow> kvs \<Rightarrow> jsval" where
  "merge_section settings sec clean =
     JObj (kv_set sec (JObj (kv_merge (obj_of (js_get sec settings)) clean)) (obj_of settings))"

definition over_ceiling :: "kvs \<Rightarrow> string \<Rightarrow> rat \<Rightarrow> bool" where
  "over_ceiling clean k most = (case kv_get k clean of Some (JNum q) \<Rightarrow> q > most | _ \<Rightarrow> False)"

definition updateSection ::
  "nat \<Rightarrow> string \<Rightarrow> string \<Rightarrow> jsval \<Rightarrow> rat \<Rightarrow> rat \<Rightarrow> settings_db \<Rightarrow> settings_cache \<Rightarrow> kvs res \<times> settings_db \<times> settings_cache" where
  "updateSection now t sec patch maxTokenDays maxQueryRows db c =
     (case kv_get sec WORKSPACE_SPECS of
        None \<Rightarrow> (Inl (Err 404 ''UNKNOWN_SECTION''), db, c)
      | Some spec \<Rightarrow>
          (case validateSection spec patch of
             Inl e \<Rightarrow> (Inl e, db, c)
           | Inr clean \<Rightarrow>
               if sec = ''api'' \<and> over_ceiling clean ''maxTokenDays'' maxTokenDays then (Inl (Err 400 ''EXCEEDS_SYSTEM_LIMIT''), db, c)
               else if sec = ''query'' \<and> maxQueryRows \<noteq> - 1 \<and> over_ceiling clean ''maxRows'' maxQueryRows
               then (Inl (Err 400 ''EXCEEDS_LICENCE_LIMIT''), db, c)
               else if \<not> sd_up db then (Inl queryFailed, db, c)
               else (case kv_get t (sd_workspaces db) of
                 None \<Rightarrow> (Inl (Err 404 ''WORKSPACE_NOT_FOUND''), db, c)
               | Some r \<Rightarrow>
                   let db' = db\<lparr>sd_workspaces := kv_set t (r\<lparr>wr_settings := merge_section (wr_settings r) sec clean\<rparr>) (sd_workspaces db)\<rparr>;
                       c0 = c\<lparr>sc_workspace := kv_del t (sc_workspace c)\<rparr>
                   in (case workspace_get now t db' c0 of (v, c') \<Rightarrow>
                         (mapR (\<lambda>w. case kv_get sec w of Some k \<Rightarrow> k | None \<Rightarrow> []) v, db', c')))))"

section \<open>The guard of a request\<close>

record app_user =
  au_id :: jsval
  au_role :: jsval
  au_auth :: jsval
  au_tenant :: jsval
  au_username :: jsval

definition isPlatformAdmin :: "app_user option \<Rightarrow> bool" where
  "isPlatformAdmin u = (case u of None \<Rightarrow> False | Some x \<Rightarrow> au_role x = JStr ''ADMIN'' \<and> au_auth x \<noteq> JStr ''api_token'')"

text \<open>What the guard does: go on, with the policy of the request where it was read, or answer.\<close>

datatype guard_out = Pass "(jsval \<times> bool) option" | Answer nat string

definition guard_exempt :: "string \<Rightarrow> bool" where
  "guard_exempt p \<longleftrightarrow> starts_with p ''/auth'' \<or> p = ''/health'' \<or> starts_with p ''/developer-docs'' \<or> starts_with p ''/settings/login''"

definition status_of :: "settings_db \<Rightarrow> string \<Rightarrow> string option" where
  "status_of db t = map_option (\<lambda>r. js_upper (js_string (if truthy (wr_status r) then wr_status r else JStr ''ACTIVE''))) (kv_get t (sd_workspaces db))"

definition tenantStatus :: "nat \<Rightarrow> string \<Rightarrow> settings_db \<Rightarrow> settings_cache \<Rightarrow> string option res \<times> settings_cache" where
  "tenantStatus now t db c =
     (let read = (if sd_up db then (Inr (status_of db t), c\<lparr>sc_status := kv_set t (now, status_of db t) (sc_status c)\<rparr>)
                  else (Inl queryFailed, c)) in
      case kv_get t (sc_status c) of
        Some (stamp, value) \<Rightarrow> if now - stamp < workspace_ttl then (Inr value, c) else read
      | None \<Rightarrow> read)"

definition setting_of :: "(string \<times> kvs) list \<Rightarrow> string \<Rightarrow> string \<Rightarrow> jsval" where
  "setting_of w sec k = (case kv_get sec w of Some s \<Rightarrow> js_get k (JObj s) | None \<Rightarrow> JUndef)"

definition ips_of :: "jsval \<Rightarrow> string list" where
  "ips_of v = map js_string (arr_of v)"

definition guard_settings :: "string option \<Rightarrow> (string \<times> kvs) list res \<Rightarrow> guard_out" where
  "guard_settings ip settings =
     (case settings of
        Inl e \<Rightarrow> Answer 503 ''GUARD_UNAVAILABLE''
      | Inr w \<Rightarrow>
          if ips_of (setting_of w ''security'' ''allowedIps'') \<noteq> [] \<and> \<not> ipAllowed ip (ips_of (setting_of w ''security'' ''allowedIps''))
          then Answer 403 ''IP_NOT_ALLOWED''
          else Pass (Some (if is_num (setting_of w ''query'' ''timeoutMs'') then setting_of w ''query'' ''timeoutMs'' else JUndef,
                           setting_of w ''query'' ''allowStreaming'' \<noteq> JBool False)))"

definition workspaceGuard ::
  "string option \<times> string option \<Rightarrow> nat \<Rightarrow> app_user option \<Rightarrow> string \<Rightarrow> string option \<Rightarrow> settings_db \<Rightarrow> settings_cache \<Rightarrow> guard_out \<times> settings_cache" where
  "workspaceGuard env now user path ip db c =
     (case user of
        None \<Rightarrow> (Pass None, c)
      | Some u \<Rightarrow>
          if isPlatformAdmin user \<or> guard_exempt path then (Pass None, c)
          else (let sys = fst (system_get env now db c); c1 = snd (system_get env now db c) in
            if truthy (js_get ''maintenanceMode'' (JObj sys)) then (Answer 503 ''MAINTENANCE'', c1)
            else if \<not> truthy (au_tenant u) then (Pass None, c1)
            else (let t = js_string (au_tenant u); st = fst (tenantStatus now t db c1); c2 = snd (tenantStatus now t db c1) in
              case st of
                Inl e \<Rightarrow> (Answer 503 ''GUARD_UNAVAILABLE'', c2)
              | Inr None \<Rightarrow> (Answer 403 ''TENANT_NOT_AVAILABLE'', c2)
              | Inr (Some s) \<Rightarrow>
                  if s = ''SUSPENDED'' then (Answer 403 ''TENANT_SUSPENDED'', c2)
                  else if s = ''DELETED'' then (Answer 403 ''TENANT_NOT_AVAILABLE'', c2)
                  else (guard_settings ip (fst (workspace_get now t db c2)), snd (workspace_get now t db c2)))))"

section \<open>An address rule is a range\<close>

definition v4_num :: "string \<Rightarrow> nat" where
  "v4_num ip = foldl (\<lambda>a p. 256 * a + num_val 10 p) 0 (split_chr CHR ''.'' ip)"

lemma ip4ToInt_num: "ip4ToInt ip = of_nat (v4_num ip)"
proof -
  have "foldl (\<lambda>a p. push_bit 8 a + of_nat (num_val 10 p)) (of_nat n :: 32 word) ps
      = of_nat (foldl (\<lambda>a p. 256 * a + num_val 10 p) n ps)" for n ps
  proof (induction ps arbitrary: n)
    case (Cons p ps)
    have "push_bit 8 (of_nat n :: 32 word) + of_nat (num_val 10 p) = of_nat (256 * n + num_val 10 p)"
      by (simp add: push_bit_eq_mult)
    then show ?case by (simp only: foldl_Cons Cons)
  qed simp
  from this [of 0] show ?thesis by (simp add: ip4ToInt_def v4_num_def)
qed

lemma v4_num_bound: "isIPv4 ip \<Longrightarrow> v4_num ip < 2 ^ 32"
proof -
  assume "isIPv4 ip"
  then obtain a b c d where ps: "split_chr CHR ''.'' ip = [a, b, c, d]"
    by (auto simp: isIPv4_def Let_def length_Suc_conv numeral_eq_Suc)
  then have "num_val 10 a \<le> 255" "num_val 10 b \<le> 255" "num_val 10 c \<le> 255" "num_val 10 d \<le> 255"
    using \<open>isIPv4 ip\<close> by (simp_all add: isIPv4_def v4_octet_def)
  then show ?thesis by (simp add: v4_num_def ps)
qed

lemma masked_eq_iff:
  fixes x y :: "32 word"
  assumes "k < 32"
  shows "and x (push_bit k (NOT 0)) = and y (push_bit k (NOT 0)) \<longleftrightarrow> unat x div 2 ^ k = unat y div 2 ^ k"
proof -
  have m: "and z (push_bit k (NOT 0)) = push_bit k (drop_bit k z)" for z :: "32 word"
    by (rule bit_eqI) (auto simp: bit_simps)
  have "push_bit k (drop_bit k x) = push_bit k (drop_bit k y) \<longleftrightarrow> drop_bit k x = drop_bit k y"
  proof
    assume "push_bit k (drop_bit k x) = push_bit k (drop_bit k y)"
    then have "drop_bit k (push_bit k (drop_bit k x)) = drop_bit k (push_bit k (drop_bit k y))" by simp
    moreover have "drop_bit k (push_bit k (drop_bit k z)) = drop_bit k z" for z :: "32 word"
      by (rule bit_eqI) (auto simp: bit_simps dest: bit_imp_le_length)
    ultimately show "drop_bit k x = drop_bit k y" by simp
  qed simp
  also have "\<dots> \<longleftrightarrow> unat (drop_bit k x) = unat (drop_bit k y)" by (simp add: unsigned_word_eqI word_unat_eq_iff)
  also have "\<dots> \<longleftrightarrow> unat x div 2 ^ k = unat y div 2 ^ k"
    by (simp add: unat_drop_bit_eq flip: drop_bit_eq_div)
  finally show ?thesis by (simp only: m)
qed

lemma prefix_mask_eq_iff:
  fixes x y :: "32 word"
  assumes "n \<le> 32"
  shows "and x (prefix_mask n) = and y (prefix_mask n) \<longleftrightarrow> unat x div 2 ^ (32 - n) = unat y div 2 ^ (32 - n)"
proof (cases "n = 0")
  case True
  have "unat z div 2 ^ 32 = 0" for z :: "32 word"
  proof -
    have "unat z < 2 ^ 32" using unsigned_less [of z] by simp
    then show ?thesis by simp
  qed
  with True show ?thesis by (simp add: prefix_mask_def)
next
  case False
  with assms have "(32 - int n) mod 32 = 32 - int n" by (intro mod_pos_pos_trivial) simp_all
  with False assms have "nat ((32 - int n) mod 32) = 32 - n" "32 - n < 32" by simp_all
  then have "prefix_mask n = push_bit (32 - n) (NOT 0)" using False by (simp only: prefix_mask_def if_False)
  with masked_eq_iff [OF \<open>32 - n < 32\<close>, of x y] show ?thesis by (simp only:)
qed

lemma split_rule_cidr: "CHR ''/'' \<notin> set base \<Longrightarrow> split_rule (base @ ''/'' @ show_nat n) = (base, Some (show_nat n), False)"
proof -
  have "CHR ''/'' \<notin> set (show_nat n)" using show_nat_digits [of _ n] by (force simp: js_chr)
  then show "CHR ''/'' \<notin> set base \<Longrightarrow> ?thesis" by (simp add: split_rule_def split_append_sep split_no_sep)
qed

lemma set_js_join: "set (js_join [d] ps) \<subseteq> insert d (\<Union> (set ` set ps))"
  by (induction "[d]" ps rule: js_join.induct) auto

lemma isIPv4_chars: "isIPv4 ip \<Longrightarrow> c \<in> set ip \<Longrightarrow> is_digit c \<or> c = CHR ''.''"
  using set_js_join [of "CHR ''.''" "split_chr CHR ''.'' ip"]
  by (fastforce simp: isIPv4_def v4_octet_def Let_def list_all_iff)

lemma cidr_rule_is_range:
  assumes "isIPv4 ip" "isIPv4 base" "n \<le> 32"
  shows "ip_rule ip (base @ ''/'' @ show_nat n) \<longleftrightarrow> v4_num ip div 2 ^ (32 - n) = v4_num base div 2 ^ (32 - n)"
proof -
  have "CHR ''/'' \<notin> set base" using isIPv4_chars [OF assms(2), of "CHR ''/''"] by (auto simp: js_chr)
  moreover have "num_val 10 (show_nat n) = n" by (simp add: num_val_show)
  ultimately show ?thesis
    using assms split_rule_cidr [of base n] v4_num_bound [OF assms(1)] v4_num_bound [OF assms(2)]
    by (simp add: ip_rule_def rule_bits_def prefix_mask_eq_iff ip4ToInt_num unat_of_nat)
qed

text \<open>An address by its number, in the dotted form the server and the settings use.\<close>

definition dotted :: "nat \<Rightarrow> string" where
  "dotted a = js_join ''.'' (map show_nat (octets a))"

lemma octet_text: "n < 256 \<Longrightarrow> v4_octet (show_nat n)"
proof -
  assume n: "n < 256"
  have "list_all is_digit (show_nat n)" by (rule show_10_digit)
  moreover have "length (show_nat n) \<le> 3" using n by (simp add: show_base.simps)
  moreover have "hd (show_nat n) = CHR ''0'' \<Longrightarrow> show_nat n = ''0''" using hd_show_nat [of n] by (simp add: show_base.simps digit_chr_0)
  ultimately show ?thesis using n by (auto simp: v4_octet_def num_val_show)
qed

lemma dotted_parts: "split_chr CHR ''.'' (dotted a) = map show_nat (octets a)"
proof -
  have "CHR ''.'' \<notin> set (show_nat n)" for n using show_nat_digits [of "CHR ''.''" n] by (auto simp: js_chr)
  then show ?thesis unfolding dotted_def by (intro split_join) (auto simp: octets_def)
qed

lemma dotted_ipv4:
  assumes "a < 2 ^ 32"
  shows "isIPv4 (dotted a)" "v4_num (dotted a) = a"
proof -
  have o: "\<forall>n \<in> set (octets a). n < 256" using assms by (simp add: octets_def less_mult_imp_div_less)
  then show "isIPv4 (dotted a)" using octet_text by (simp add: isIPv4_def dotted_parts Let_def list_all_iff octets_def)
  show "v4_num (dotted a) = a" using bytes_split(2) [of a] by (simp add: v4_num_def dotted_parts octets_def num_val_show)
qed

text \<open>
  C30: the address rules of a workspace are ranges. A list of rules \<open>base/n\<close> admits an IPv4 client, in its own form or
  mapped into IPv6, exactly when for one of the rules the number of the client agrees with that of the base in the leading
  \<open>n\<close> bits, \<open>n = 0\<close> and \<open>n = 32\<close> included. The rules stand for numbers of their own; the code
  compares 32-bit words under a mask it shifts together.
\<close>

theorem address_rules_are_ranges:
  assumes "a < 2 ^ 32" "rs \<noteq> []" "\<And>b n. (b, n) \<in> set rs \<Longrightarrow> b < 2 ^ 32 \<and> n \<le> 32"
  shows "(ipAllowed (Some (dotted a)) (map (\<lambda>(b, n). dotted b @ ''/'' @ show_nat n) rs) \<longleftrightarrow>
            (\<exists>(b, n) \<in> set rs. a div 2 ^ (32 - n) = b div 2 ^ (32 - n)))
       \<and> (ipAllowed (Some (''::ffff:'' @ dotted a)) (map (\<lambda>(b, n). dotted b @ ''/'' @ show_nat n) rs) \<longleftrightarrow>
            (\<exists>(b, n) \<in> set rs. a div 2 ^ (32 - n) = b div 2 ^ (32 - n)))"
proof -
  note ip = dotted_ipv4 [OF assms(1)]
  have "CHR '':'' \<notin> set (dotted a)" using isIPv4_chars [OF ip(1), of "CHR '':''"] by (auto simp: js_chr)
  then have plain: "\<not> starts_with (dotted a) ''::ffff:''" "dotted a \<noteq> []" using ip(1) by (auto simp: starts_with_iff isIPv4_def)
  have mapped: "starts_with (''::ffff:'' @ dotted a) ''::ffff:''" by (simp add: starts_with_iff)
  have rule: "ip_rule (dotted a) (dotted b @ ''/'' @ show_nat n) \<longleftrightarrow> a div 2 ^ (32 - n) = b div 2 ^ (32 - n)" if "(b, n) \<in> set rs" for b n
    using cidr_rule_is_range [OF ip(1), of "dotted b" n] dotted_ipv4 [of b] assms(3) [OF that] ip(2) by simp
  have "(\<exists>x \<in> set rs. ip_rule (dotted a) (case x of (b, n) \<Rightarrow> dotted b @ ''/'' @ show_nat n)) \<longleftrightarrow>
      (\<exists>(b, n) \<in> set rs. a div 2 ^ (32 - n) = b div 2 ^ (32 - n))"
  proof (rule bex_cong [OF refl])
    fix x assume x: "x \<in> set rs"
    obtain b n where "x = (b, n)" by force
    then show "ip_rule (dotted a) (case x of (b, n) \<Rightarrow> dotted b @ ''/'' @ show_nat n) \<longleftrightarrow> (case x of (b, n) \<Rightarrow> a div 2 ^ (32 - n) = b div 2 ^ (32 - n))"
      using rule x by (simp only: prod.case)
  qed
  then have "list_ex (ip_rule (dotted a)) (map (\<lambda>(b, n). dotted b @ ''/'' @ show_nat n) rs) \<longleftrightarrow>
      (\<exists>(b, n) \<in> set rs. a div 2 ^ (32 - n) = b div 2 ^ (32 - n))"
    unfolding list_ex_iff set_map bex_simps .
  then show ?thesis using plain mapped assms(2) by (simp add: ipAllowed_def Let_def del: list_ex_iff)
qed

theorem address_rules_are_ranges_witness:
  "ipAllowed (Some ''::ffff:10.1.130.7'') [''192.168.0.0/16'', ''10.1.128.0/17''] \<and> \<not> ipAllowed (Some ''10.1.4.7'') [''10.1.128.0/17'']"
proof -
  let ?a = "167870983" and ?b = "167870464" and ?c = "3232235520" and ?d = "167838727"
  have t: "dotted ?a = ''10.1.130.7''" "dotted ?d = ''10.1.4.7''" "dotted ?b @ CHR ''/'' # show_nat 17 = ''10.1.128.0/17''"
    "dotted ?c @ CHR ''/'' # show_nat 16 = ''192.168.0.0/16''" by code_simp+
  have h: "(?a :: nat) < 2 ^ 32" "[(?c :: nat, 16 :: nat), (?b, 17)] \<noteq> []" "\<And>b n. (b, n) \<in> set [(?c :: nat, 16 :: nat), (?b, 17)] \<Longrightarrow> b < 2 ^ 32 \<and> n \<le> 32"
    and h': "(?d :: nat) < 2 ^ 32" "[(?b :: nat, 17 :: nat)] \<noteq> []" "\<And>b n. (b, n) \<in> set [(?b :: nat, 17 :: nat)] \<Longrightarrow> b < 2 ^ 32 \<and> n \<le> 32" by auto
  have "ipAllowed (Some (''::ffff:'' @ dotted ?a)) (map (\<lambda>(b, n). dotted b @ ''/'' @ show_nat n) [(?c, 16), (?b, 17)])"
    using address_rules_are_ranges [OF h] by simp
  moreover have "\<not> ipAllowed (Some (dotted ?d)) (map (\<lambda>(b, n). dotted b @ ''/'' @ show_nat n) [(?b, 17)])"
    using address_rules_are_ranges [OF h'] by simp
  ultimately show ?thesis by (simp add: t)
qed

section \<open>Stored settings stay valid\<close>

definition entry_valid :: "section_spec \<Rightarrow> string \<times> jsval \<Rightarrow> bool" where
  "entry_valid spec kv = (case kv_get (fst kv) spec of Some f \<Rightarrow> isOk (validate_field f (snd kv)) | None \<Rightarrow> False)"

definition section_valid :: "section_spec \<Rightarrow> kvs \<Rightarrow> bool" where
  "section_valid spec kvs = list_all (entry_valid spec) kvs"

definition workspace_valid :: "settings_db \<Rightarrow> bool" where
  "workspace_valid db =
     list_all (\<lambda>(_, r). list_all (\<lambda>(sec, spec). section_valid spec (obj_of (js_get sec (wr_settings r)))) WORKSPACE_SPECS) (sd_workspaces db)"

text \<open>A pattern that admits no white space is not affected by the trimming of the value.\<close>

definition settled :: "field_spec \<Rightarrow> bool" where
  "settled f = (case f of FStr _ (Some p) _ vals \<Rightarrow> (\<forall>s. p s \<longrightarrow> js_trim s = s) \<and> vals = None
     | FStr _ None _ vals \<Rightarrow> vals = None | _ \<Rightarrow> True)"

lemma no_space_trim: "list_all (\<lambda>c. \<not> is_space c) s \<Longrightarrow> js_trim s = s"
  by (rule trim_id) (cases "s = []", auto simp: list_all_iff dest: hd_in_set last_in_set)

lemma length_trim: "length (js_trim s) \<le> length s"
  unfolding js_trim_def by (metis length_dropWhile_le length_rev order_trans)

lemma trim_idem: "js_trim (js_trim s) = js_trim s"
proof (rule trim_id)
  define t where "t = dropWhile is_space s"
  define r where "r = dropWhile is_space (rev t)"
  have js: "js_trim s = rev r" by (simp add: js_trim_def t_def r_def)
  show "js_trim s = [] \<or> \<not> is_space (hd (js_trim s)) \<and> \<not> is_space (last (js_trim s))"
  proof (cases "r = []")
    case False
    have "t = rev (takeWhile is_space (rev t) @ r)" unfolding r_def by simp
    then have t: "t = rev r @ rev (takeWhile is_space (rev t))" by simp
    then have "hd t = hd (rev r)" using False by (metis hd_append2 rev_is_Nil_conv)
    moreover have "\<not> is_space (hd t)" using t False hd_dropWhile [of is_space s] unfolding t_def by fastforce
    moreover have "\<not> is_space (hd r)" using False hd_dropWhile [of is_space "rev t"] unfolding r_def by blast
    ultimately show ?thesis using False by (simp add: js last_rev)
  qed (simp add: js)
qed

lemma validate_again: "settled f \<Longrightarrow> validate_field f v = Inr w \<Longrightarrow> validate_field f w = Inr w"
proof (induction f v rule: validate_field.induct)
  case (3 maxLen pattern nullable vals v)
  show ?case
  proof (cases "v = JNull \<and> nullable")
    case False
    with 3 obtain s where s: "v = JStr s" "str_field_ok maxLen pattern vals s" "w = JStr (js_trim s)"
      by (auto split: jsval.splits if_splits)
    have "CHR 0x00 \<notin> set (js_trim s)" using s(2) set_trim [of s] by (auto simp: str_field_ok_def)
    then have "str_field_ok maxLen pattern vals (js_trim s)"
      using s(2) 3(1) length_trim [of s] by (auto simp: str_field_ok_def settled_def opt_test_def opt_member_def split: option.splits)
    with s False show ?thesis by (auto simp: trim_idem)
  qed (use 3 in auto)
next
  case (4 maxItems maxLen item allowed v)
  have "length (js_dedup xs) \<le> length xs" for xs :: "jsval list"
    by (metis card_length distinct_card distinct_js_dedup set_js_dedup)
  then have "length xs \<le> maxItems \<Longrightarrow> length (js_dedup xs) \<le> maxItems" for xs :: "jsval list"
    using order_trans by blast
  with 4 show ?case by (cases v) (auto simp: list_all_iff js_dedup_distinct split: if_splits)
qed (auto split: if_splits jsval.splits)

lemma patterns_settled:
  "name_re s \<Longrightarrow> js_trim s = s" "region_re s \<Longrightarrow> js_trim s = s" "timezone_re s \<Longrightarrow> js_trim s = s" "email_re s \<Longrightarrow> js_trim s = s"
proof -
  have w: "is_word_chr c \<or> c = CHR ''-'' \<or> c = CHR ''+'' \<or> c = CHR ''/'' \<Longrightarrow> \<not> is_space c" for c by (auto simp: js_chr)
  show "name_re s \<Longrightarrow> js_trim s = s" using w by (intro no_space_trim) (auto simp: name_re_def list_all_iff)
  show "region_re s \<Longrightarrow> js_trim s = s" by (intro no_space_trim) (auto simp: region_re_def list_all_iff js_chr)
  show "email_re s \<Longrightarrow> js_trim s = s" by (intro no_space_trim) (simp add: email_re_def)
  show "timezone_re s \<Longrightarrow> js_trim s = s"
  proof (intro no_space_trim)
    assume tz: "timezone_re s"
    have "\<not> is_space c" if c: "c \<in> set s" for c
    proof -
      consider "c = CHR ''/''" | p where "p \<in> set (split_chr CHR ''/'' s)" "c \<in> set p"
        using c set_js_join [of "CHR ''/''" "split_chr CHR ''/'' s"] by auto
      then show ?thesis
      proof cases
        case 2
        with tz have "is_word_chr c \<or> c = CHR ''+'' \<or> c = CHR ''-''"
          by (auto simp: timezone_re_def list_all_iff dest: ident_start_word split: list.splits)
        then show ?thesis using w by blast
      qed (simp add: js_chr)
    qed
    then show "list_all (\<lambda>c. \<not> is_space c) s" by (simp add: list_all_iff)
  qed
qed

lemma specs_settled:
  assumes "kv_get sec WORKSPACE_SPECS = Some spec" "kv_get k spec = Some f"
  shows "settled f"
proof -
  have "\<forall>sp \<in> set (concat (map snd WORKSPACE_SPECS)). settled (snd sp)"
    by (simp add: WORKSPACE_SPECS_def settled_def patterns_settled)
  moreover have "(k, f) \<in> set (concat (map snd WORKSPACE_SPECS))"
    using kv_get_in [OF assms(1)] kv_get_in [OF assms(2)] by force
  ultimately show ?thesis by fastforce
qed

text \<open>What \<open>validateSection\<close> returns is valid and has the keys of the spec only.\<close>

lemma validated_section:
  assumes "validateSection spec patch = Inr clean" "\<And>k f. kv_get k spec = Some f \<Longrightarrow> settled f"
  shows "section_valid spec clean"
proof -
  obtain kvs where kvs: "patch = JObj kvs"
    and m: "mapMR (\<lambda>kv. case kv_get (fst kv) spec of
                 Some f \<Rightarrow> mapR (Pair (fst kv)) (validate_field f (snd kv)) | None \<Rightarrow> Inl badSetting) kvs = Inr clean"
    using assms(1) by (auto simp: validateSection_def split: jsval.splits if_splits)
  have "entry_valid spec y" if y: "y \<in> set clean" for y
  proof -
    obtain i where i: "i < length clean" "y = clean ! i" using y by (auto simp: in_set_conv_nth)
    with m obtain f where f: "kv_get (fst (kvs ! i)) spec = Some f" "mapR (Pair (fst (kvs ! i))) (validate_field f (snd (kvs ! i))) = Inr y"
      by (auto simp: mapMR_Inr list_all2_conv_all_nth split: option.splits)
    then show ?thesis using validate_again [OF assms(2) [OF f(1)]] by (auto simp: isOk_iff entry_valid_def)
  qed
  then show ?thesis by (simp add: section_valid_def list_all_iff)
qed

lemma section_valid_set: "section_valid spec kvs \<Longrightarrow> entry_valid spec (k, v) \<Longrightarrow> section_valid spec (kv_set k v kvs)"
  by (induction kvs) (auto simp: section_valid_def)

lemma section_valid_merge: "section_valid spec a \<Longrightarrow> section_valid spec b \<Longrightarrow> section_valid spec (kv_merge a b)"
proof (induction b arbitrary: a)
  case (Cons x b)
  obtain k v where x: "x = (k, v)" by (cases x)
  have "section_valid spec b" "entry_valid spec (k, v)" using Cons.prems(2) by (simp_all add: section_valid_def x)
  then show ?case using Cons.IH [of "kv_set k v a"] section_valid_set [OF Cons.prems(1)] by (simp add: x)
qed simp

lemma merged_sections:
  "obj_of (js_get s (merge_section settings sec clean)) =
     (if s = sec then kv_merge (obj_of (js_get sec settings)) clean else obj_of (js_get s (JObj (obj_of settings))))"
  by (simp add: merge_section_def js_get_def)

lemma obj_get: "obj_of (js_get s (JObj (obj_of settings))) = obj_of (js_get s settings)"
  by (cases settings) (simp_all add: js_get_def)

lemma kv_set_mem: "(k', v') \<in> set (kv_set k v kvs) \<Longrightarrow> (k', v') = (k, v) \<or> (k', v') \<in> set kvs"
  by (induction kvs) (auto split: if_splits)

text \<open>
  C20: whatever updates are made, accepted or refused, every stored section of every workspace has only
  the fields of its specification, and their values would be accepted again.
\<close>

theorem updateSection_keeps_valid:
  assumes "workspace_valid db"
  shows "workspace_valid (fst (snd (updateSection now t sec patch maxDays maxRows db c)))"
proof -
  let ?r = "updateSection now t sec patch maxDays maxRows db c"
  have "fst (snd ?r) = db \<or> (\<exists>spec clean r. kv_get sec WORKSPACE_SPECS = Some spec \<and> validateSection spec patch = Inr clean
      \<and> kv_get t (sd_workspaces db) = Some r
      \<and> fst (snd ?r) = db\<lparr>sd_workspaces := kv_set t (r\<lparr>wr_settings := merge_section (wr_settings r) sec clean\<rparr>) (sd_workspaces db)\<rparr>)"
    by (simp add: updateSection_def Let_def split: option.split sum.split prod.split)
  then consider "fst (snd ?r) = db"
    | spec clean r where "kv_get sec WORKSPACE_SPECS = Some spec" "validateSection spec patch = Inr clean" "kv_get t (sd_workspaces db) = Some r"
      "fst (snd ?r) = db\<lparr>sd_workspaces := kv_set t (r\<lparr>wr_settings := merge_section (wr_settings r) sec clean\<rparr>) (sd_workspaces db)\<rparr>"
    by blast
  then show ?thesis
  proof cases
    case 2
    have "section_valid sp (obj_of (js_get s (merge_section (wr_settings r) sec clean)))" if "(s, sp) \<in> set WORKSPACE_SPECS" for s sp
    proof -
      have old: "section_valid sp (obj_of (js_get s (wr_settings r)))"
        using assms kv_get_in [OF 2(3)] that by (fastforce simp: workspace_valid_def list_all_iff)
      have "distinct (map fst WORKSPACE_SPECS)" by (simp add: WORKSPACE_SPECS_def)
      then have "s = sec \<Longrightarrow> sp = spec" using that kv_get_in [OF 2(1)] by (metis eq_key_imp_eq_value)
      moreover have "section_valid spec clean" using 2(2) specs_settled [OF 2(1)] by (rule validated_section)
      ultimately show ?thesis using old by (cases "s = sec") (simp_all add: merged_sections obj_get section_valid_merge)
    qed
    then show ?thesis using assms 2(4) by (auto simp: workspace_valid_def list_all_iff dest!: kv_set_mem)
  qed (use assms in simp)
qed

definition acme_db :: settings_db where
  "acme_db = \<lparr>sd_up = True, sd_system = None, sd_plans = [(''trial'', None, False)],
     sd_workspaces = [(''acme'', \<lparr>wr_status = JStr ''ACTIVE'', wr_settings = JObj [(''query'', JObj [(''maxRows'', JNum 100)])]\<rparr>)]\<rparr>"

definition no_cache :: settings_cache where
  "no_cache = \<lparr>sc_system = None, sc_workspace = [], sc_status = []\<rparr>"

definition allow_office :: jsval where
  "allow_office = JObj [(''allowedIps'', JArr [JStr ''10.1.128.0/17''])]"

lemma updateSection_keeps_valid_witness:
  "workspace_valid (fst (snd (updateSection 0 ''acme'' ''security'' allow_office 365 (- 1) acme_db no_cache)))"
  by (rule updateSection_keeps_valid) code_simp

section \<open>What the guard lets pass\<close>

text \<open>Every cached value was read from the database at the time it carries.\<close>

definition cache_read :: "string option \<times> string option \<Rightarrow> (nat \<Rightarrow> settings_db) \<Rightarrow> nat \<Rightarrow> settings_cache \<Rightarrow> bool" where
  "cache_read env H now c \<longleftrightarrow>
     (\<forall>t v. sc_system c = Some (t, v) \<longrightarrow> t \<le> now \<and> v = system_value env (H t))
     \<and> (\<forall>k t v. kv_get k (sc_workspace c) = Some (t, v) \<longrightarrow> t \<le> now \<and> v = workspace_value (H t) k)
     \<and> (\<forall>k t v. kv_get k (sc_status c) = Some (t, v) \<longrightarrow> t \<le> now \<and> v = status_of (H t) k)"

text \<open>The requests of a process, the passing of time and the clearing of the caches.\<close>

inductive guard_run :: "string option \<times> string option \<Rightarrow> (nat \<Rightarrow> settings_db) \<Rightarrow> nat \<Rightarrow> settings_cache \<Rightarrow> bool" for env H where
  start: "guard_run env H 0 no_cache"
| wait: "guard_run env H now c \<Longrightarrow> now \<le> now' \<Longrightarrow> guard_run env H now' c"
| request: "guard_run env H now c \<Longrightarrow> guard_run env H now (snd (workspaceGuard env now u path ip (H now) c))"
| clear: "guard_run env H now c \<Longrightarrow> guard_run env H now (c\<lparr>sc_system := None, sc_workspace := kv_del k (sc_workspace c), sc_status := kv_del k' (sc_status c)\<rparr>)"

lemma still_fresh: "(t :: nat) \<le> now \<Longrightarrow> now - t < ttl \<Longrightarrow> now < t + ttl"
  by simp

lemma system_get_read:
  assumes "cache_read env H now c"
  shows "cache_read env H now (snd (system_get env now (H now) c))"
    and "\<exists>t \<le> now. now < t + system_ttl \<and> fst (system_get env now (H now) c) = system_value env (H t)"
proof -
  have ttl: "0 < system_ttl" by (simp add: system_ttl_def)
  show "cache_read env H now (snd (system_get env now (H now) c))"
    using assms by (auto simp: system_get_def cache_read_def split: option.split prod.split)
  show "\<exists>t \<le> now. now < t + system_ttl \<and> fst (system_get env now (H now) c) = system_value env (H t)"
    using assms ttl by (cases "sc_system c") (auto simp: system_get_def cache_read_def split: prod.split)
qed

lemma tenantStatus_read:
  assumes "cache_read env H now c"
  shows "cache_read env H now (snd (tenantStatus now t (H now) c))"
    and "fst (tenantStatus now t (H now) c) = Inr st \<Longrightarrow> \<exists>t' \<le> now. now < t' + workspace_ttl \<and> st = status_of (H t') t"
proof -
  have ttl: "0 < workspace_ttl" by (simp add: workspace_ttl_def)
  show "cache_read env H now (snd (tenantStatus now t (H now) c))"
    using assms by (auto simp: tenantStatus_def Let_def cache_read_def split: option.split prod.split)
  show "fst (tenantStatus now t (H now) c) = Inr st \<Longrightarrow> \<exists>t' \<le> now. now < t' + workspace_ttl \<and> st = status_of (H t') t"
    using assms ttl by (cases "kv_get t (sc_status c)") (auto simp: tenantStatus_def Let_def cache_read_def split: prod.splits if_splits, blast intro: still_fresh)
qed

lemma workspace_get_read:
  assumes "cache_read env H now c"
  shows "cache_read env H now (snd (workspace_get now t (H now) c))"
    and "fst (workspace_get now t (H now) c) = Inr w \<Longrightarrow> \<exists>t' \<le> now. now < t' + workspace_ttl \<and> w = workspace_value (H t') t"
proof -
  have ttl: "0 < workspace_ttl" by (simp add: workspace_ttl_def)
  show "cache_read env H now (snd (workspace_get now t (H now) c))"
    using assms by (auto simp: workspace_get_def Let_def cache_read_def split: option.split prod.split)
  show "fst (workspace_get now t (H now) c) = Inr w \<Longrightarrow> \<exists>t' \<le> now. now < t' + workspace_ttl \<and> w = workspace_value (H t') t"
    using assms ttl by (cases "kv_get t (sc_workspace c)") (auto simp: workspace_get_def Let_def cache_read_def split: prod.splits if_splits, blast intro: still_fresh)
qed

lemma guard_read: "cache_read env H now c \<Longrightarrow> cache_read env H now (snd (workspaceGuard env now u path ip (H now) c))"
  using system_get_read(1) [of env H now c] tenantStatus_read(1) [of env H now] workspace_get_read(1) [of env H now]
  by (simp add: workspaceGuard_def Let_def split: option.split sum.split)

lemma guard_run_read: "guard_run env H now c \<Longrightarrow> cache_read env H now c"
proof (induction rule: guard_run.induct)
  case (wait now c now')
  then show ?case unfolding cache_read_def by (meson order_trans)
next
  case (request now c u path ip)
  show ?case by (rule guard_read [OF request.IH])
qed (simp_all add: cache_read_def no_cache_def)

text \<open>What passing the guard means for a cache whose values were read from the database.\<close>

lemma guard_pass:
  assumes read: "cache_read env H now c"
    and "fst (workspaceGuard env now (Some u) path ip (H now) c) = Pass policy"
    and "\<not> isPlatformAdmin (Some u)" "\<not> guard_exempt path" "au_tenant u = JStr t" "t \<noteq> []"
  shows "\<exists>t1 t2 t3. now < t1 + system_ttl \<and> now < t2 + workspace_ttl \<and> now < t3 + workspace_ttl
     \<and> \<not> truthy (js_get ''maintenanceMode'' (JObj (system_value env (H t1))))
     \<and> (\<exists>s. status_of (H t2) t = Some s \<and> s \<noteq> ''SUSPENDED'' \<and> s \<noteq> ''DELETED'')
     \<and> ipAllowed ip (ips_of (setting_of (workspace_value (H t3) t) ''security'' ''allowedIps''))"
proof -
  let ?sys = "system_get env now (H now) c"
  let ?st = "tenantStatus now t (H now) (snd ?sys)"
  let ?ws = "workspace_get now t (H now) (snd ?st)"
  have no_maint: "\<not> truthy (js_get ''maintenanceMode'' (JObj (fst ?sys)))"
    using assms by (auto simp: workspaceGuard_def Let_def)
  with assms obtain s where st: "fst ?st = Inr (Some s)" "s \<noteq> ''SUSPENDED''" "s \<noteq> ''DELETED''"
    by (auto simp: workspaceGuard_def Let_def split: option.splits sum.splits if_splits)
  with assms no_maint have ws: "guard_settings ip (fst ?ws) = Pass policy"
    by (auto simp: workspaceGuard_def Let_def)
  then obtain w where w: "fst ?ws = Inr w" "ipAllowed ip (ips_of (setting_of w ''security'' ''allowedIps''))"
    by (auto simp: guard_settings_def ipAllowed_def split: sum.splits if_splits)
  obtain t1 where t1: "now < t1 + system_ttl" "fst ?sys = system_value env (H t1)" using system_get_read(2) [OF read] by blast
  note read' = system_get_read(1) [OF read]
  obtain t2 where t2: "now < t2 + workspace_ttl" "status_of (H t2) t = Some s" using tenantStatus_read(2) [OF read' st(1)] by metis
  obtain t3 where t3: "now < t3 + workspace_ttl" "w = workspace_value (H t3) t"
    using workspace_get_read(2) [OF tenantStatus_read(1) [OF read'] w(1)] by blast
  show ?thesis
    by (rule exI [of _ t1], rule exI [of _ t2], rule exI [of _ t3]) (use t1 t2 t3 st w no_maint in auto)
qed

text \<open>
  C19: a request of a workspace that the guard lets pass, and that is not a platform administrator's, was
  made while, by a reading at most a few seconds old, the platform was not in maintenance, the workspace
  existed and was neither suspended nor deleted, and its address rules admitted the caller.
\<close>

theorem guard_admits:
  assumes "guard_run env H now c"
    and "fst (workspaceGuard env now (Some u) path ip (H now) c) = Pass policy"
    and "\<not> isPlatformAdmin (Some u)" "\<not> guard_exempt path" "au_tenant u = JStr t" "t \<noteq> []"
  shows "\<exists>t1 t2 t3. now < t1 + system_ttl \<and> now < t2 + workspace_ttl \<and> now < t3 + workspace_ttl
     \<and> \<not> truthy (js_get ''maintenanceMode'' (JObj (system_value env (H t1))))
     \<and> (\<exists>s. status_of (H t2) t = Some s \<and> s \<noteq> ''SUSPENDED'' \<and> s \<noteq> ''DELETED'')
     \<and> ipAllowed ip (ips_of (setting_of (workspace_value (H t3) t) ''security'' ''allowedIps''))"
  by (rule guard_pass [OF guard_run_read [OF assms(1)] assms(2-)])

definition member_user :: app_user where
  "member_user = \<lparr>au_id = JStr ''u1'', au_role = JStr ''USER'', au_auth = JUndef, au_tenant = JStr ''acme'', au_username = JStr ''ann''\<rparr>"

lemma guard_admits_witness:
  "\<exists>t1 t2 t3. 7 < t1 + system_ttl \<and> 7 < t2 + workspace_ttl \<and> 7 < t3 + workspace_ttl
     \<and> \<not> truthy (js_get ''maintenanceMode'' (JObj (system_value (None, None) acme_db)))
     \<and> (\<exists>s. status_of acme_db ''acme'' = Some s \<and> s \<noteq> ''SUSPENDED'' \<and> s \<noteq> ''DELETED'')
     \<and> ipAllowed (Some ''10.1.2.3'') (ips_of (setting_of (workspace_value acme_db ''acme'') ''security'' ''allowedIps''))"
proof -
  have run: "guard_run (None, None) (\<lambda>_. acme_db) 7 no_cache"
    by (rule guard_run.wait [OF guard_run.start]) simp
  have "fst (workspaceGuard (None, None) 7 (Some member_user) ''/queries'' (Some ''10.1.2.3'') acme_db no_cache) = Pass (Some (JUndef, True))"
    "\<not> isPlatformAdmin (Some member_user)" "\<not> guard_exempt ''/queries''" "au_tenant member_user = JStr ''acme''"
    by code_simp+
  from guard_admits [OF run this] show ?thesis by simp
qed

text \<open>A reading that fails refuses the request, but only where a workspace is to be read: the system settings
  fall back to their defaults, so maintenance mode is off while the database is down.\<close>

lemma guard_fails_closed:
  assumes "\<not> sd_up db" "\<not> isPlatformAdmin (Some u)" "\<not> guard_exempt path" "truthy (au_tenant u)"
  shows "fst (workspaceGuard env now (Some u) path ip db no_cache) = Answer 503 ''GUARD_UNAVAILABLE''"
proof -
  have "\<not> truthy (js_get ''maintenanceMode'' (JObj (system_value env db)))"
    using assms(1) by (simp add: system_value_def SYSTEM_DEFAULTS_def SYSTEM_SPEC_def js_get_def)
  then show ?thesis using assms
    by (simp add: workspaceGuard_def Let_def system_get_def tenantStatus_def no_cache_def)
qed

lemma maintenance_unknown_is_off:
  "fst (workspaceGuard (None, None) 0 (Some (member_user\<lparr>au_tenant := JNull\<rparr>)) ''/queries'' None
     (acme_db\<lparr>sd_up := False, sd_system := Some (JObj [(''maintenanceMode'', JBool True)])\<rparr>) no_cache) = Pass None"
  by code_simp

end
