(* ===== verification/LicenceLimits.thy ===== *)
theory LicenceLimits
  imports TenantSettings PushdownJoin
begin

text \<open>
  Licences, plans and what they limit: \<open>utils/licensing.ts\<close>, \<open>modules/tenancy/license.manager.ts\<close>,
  \<open>limits.resolver.ts\<close>, \<open>enforce.ts\<close>, \<open>services/licensing.service.ts\<close> and \<open>licensing.middleware.ts\<close>. The
  verification of a signature, the parsing of a date and the answer of the licensing portal are
  parameters; times are milliseconds. In a limit \<open>-1\<close> means unlimited.
\<close>

section \<open>Licence keys\<close>

record licence_env =
  le_env_key :: "string option"
  le_verify :: "string \<Rightarrow> jsval option"
  le_decode :: "string \<Rightarrow> jsval option"
  le_date :: "jsval \<Rightarrow> int option"

text \<open>The values of the rows \<open>license_key\<close>, \<open>license_validation\<close> and \<open>instance_id\<close> of the settings.\<close>

record licence_db =
  lb_up :: bool
  lb_key :: "jsval option"
  lb_validation :: "jsval option"
  lb_instance :: "jsval option"

definition past :: "licence_env \<Rightarrow> int \<Rightarrow> jsval \<Rightarrow> bool" where
  "past E now v \<longleftrightarrow> truthy v \<and> (case le_date E v of Some t \<Rightarrow> now > t | None \<Rightarrow> False)"

definition verifyLicense :: "licence_env \<Rightarrow> int \<Rightarrow> string \<Rightarrow> jsval option" where
  "verifyLicense E now key =
     (if js_trim key = [] then None
      else (case le_verify E (js_trim key) of
              None \<Rightarrow> None
            | Some d \<Rightarrow> if past E now (js_get ''expiresAt'' d) then None else Some d))"

definition setting_row :: "licence_db \<Rightarrow> jsval option \<Rightarrow> jsval" where
  "setting_row db v = (if lb_up db then (case v of Some x \<Rightarrow> coalesce x JNull | None \<Rightarrow> JNull) else JNull)"

datatype key_source = FromEnv | FromSettings

definition env_key :: "licence_env \<Rightarrow> string" where
  "env_key E = (case le_env_key E of Some k \<Rightarrow> js_trim k | None \<Rightarrow> [])"

definition licence_key_of :: "licence_env \<Rightarrow> licence_db \<Rightarrow> (string \<times> key_source) option" where
  "licence_key_of E db =
     (if env_key E \<noteq> [] then Some (env_key E, FromEnv)
      else (case js_get ''license_key'' (setting_row db (lb_key db)) of
              JStr s \<Rightarrow> if js_trim s = [] then None else Some (js_trim s, FromSettings)
            | _ \<Rightarrow> None))"

datatype licence_status = LNone | LValid | LInvalid | LExpired | LWrongInstance | LRevoked

record licence_state =
  ls_status :: licence_status
  ls_source :: "key_source option"
  ls_payload :: "jsval option"

definition instanceId :: "licence_db \<Rightarrow> string option" where
  "instanceId db = (case setting_row db (lb_instance db) of JStr s \<Rightarrow> Some s | _ \<Rightarrow> None)"

definition bound_elsewhere :: "licence_db \<Rightarrow> jsval \<Rightarrow> bool" where
  "bound_elsewhere db payload \<longleftrightarrow> truthy (js_get ''bound_instance_id'' payload)
     \<and> (case instanceId db of None \<Rightarrow> True | Some i \<Rightarrow> i = [] \<or> JStr i \<noteq> js_get ''bound_instance_id'' payload)"

definition callback_enabled :: "jsval \<Rightarrow> bool" where
  "callback_enabled payload \<longleftrightarrow>
     js_get ''callback_validation_enabled'' (js_get ''features'' payload) \<noteq> JBool False \<and> truthy (js_get ''validation_url'' payload)"

definition evaluate :: "licence_env \<Rightarrow> int \<Rightarrow> licence_db \<Rightarrow> licence_state" where
  "evaluate E now db =
     (case licence_key_of E db of
        None \<Rightarrow> \<lparr>ls_status = LNone, ls_source = None, ls_payload = None\<rparr>
      | Some (token, src) \<Rightarrow>
          let refuse = (\<lambda>st. \<lparr>ls_status = st, ls_source = Some src, ls_payload = None\<rparr>) in
          (case verifyLicense E now token of
             None \<Rightarrow> refuse (case le_decode E token of
                       Some d \<Rightarrow> if past E now (js_get ''expiresAt'' d) then LExpired else LInvalid | None \<Rightarrow> LInvalid)
           | Some payload \<Rightarrow>
               if bound_elsewhere db payload then refuse LWrongInstance
               else if js_string (coalesce (js_get ''status'' (setting_row db (lb_validation db))) (JStr [])) = ''invalid'' \<and> callback_enabled payload then refuse LRevoked
               else \<lparr>ls_status = LValid, ls_source = Some src, ls_payload = Some payload\<rparr>))"

definition licence_ttl :: int where "licence_ttl = 15000"

text \<open>\<open>LicenseManager.current\<close> with its cache.\<close>

definition current_licence :: "licence_env \<Rightarrow> int \<Rightarrow> licence_db \<Rightarrow> (int \<times> licence_state) option \<Rightarrow> licence_state \<times> (int \<times> licence_state) option" where
  "current_licence E now db c =
     (case c of
        Some (stamp, s) \<Rightarrow> if now - stamp < licence_ttl then (s, c) else (evaluate E now db, Some (now, evaluate E now db))
      | None \<Rightarrow> (evaluate E now db, Some (now, evaluate E now db)))"

definition install_licence :: "licence_env \<Rightarrow> int \<Rightarrow> jsval \<Rightarrow> jsval \<Rightarrow> licence_db \<Rightarrow> licence_state res \<times> licence_db" where
  "install_licence E now token actor db =
     (case token of
        JStr raw \<Rightarrow>
          if js_trim raw = [] \<or> length raw > 16000 then (Inl (Err 400 ''INVALID_LICENSE''), db)
          else if env_key E \<noteq> [] then (Inl (Err 409 ''LICENSE_FROM_ENV''), db)
          else (let t = js_trim raw in
            case verifyLicense E now t of
              None \<Rightarrow> (Inl (Err 400 (case le_decode E t of
                        Some d \<Rightarrow> if past E now (js_get ''expiresAt'' d) then ''LICENSE_EXPIRED'' else ''INVALID_LICENSE''
                      | None \<Rightarrow> ''INVALID_LICENSE'')), db)
            | Some payload \<Rightarrow>
                if bound_elsewhere db payload then (Inl (Err 400 ''WRONG_INSTANCE''), db)
                else if \<not> lb_up db then (Inl queryFailed, db)
                else (let db' = db\<lparr>lb_key := Some (JObj [(''license_key'', JStr t), (''installed_by'', actor)]), lb_validation := None\<rparr>
                      in (Inr (evaluate E now db'), db')))
      | _ \<Rightarrow> (Inl (Err 400 ''INVALID_LICENSE''), db))"

definition remove_licence :: "licence_env \<Rightarrow> int \<Rightarrow> licence_db \<Rightarrow> licence_state res \<times> licence_db" where
  "remove_licence E now db =
     (if env_key E \<noteq> [] then (Inl (Err 409 ''LICENSE_FROM_ENV''), db)
      else if \<not> lb_up db then (Inl queryFailed, db)
      else (let db' = db\<lparr>lb_key := None, lb_validation := None\<rparr> in (Inr (evaluate E now db'), db')))"

subsection \<open>The validation daemon\<close>

record daemon_state =
  dm_status :: string
  dm_last :: "int option"

text \<open>What the portal does with the callback: it cannot be reached, or answers with a status and a body whose
  signature verifies or not.\<close>

datatype portal = Unreachable | Reply int jsval bool

definition day_ms :: int where "day_ms = 86400000"

text \<open>The outcome of the callback: \<open>None\<close> stands for the exception that leads to the grace period.\<close>

definition portal_verdict :: "int \<Rightarrow> string \<Rightarrow> portal \<Rightarrow> bool option" where
  "portal_verdict now instance p =
     (case p of
        Unreachable \<Rightarrow> None
      | Reply st body sig_ok \<Rightarrow>
          let d = js_get ''data'' body in
          if st \<noteq> 200 \<or> \<not> truthy body then None
          else if \<not> truthy d \<or> \<not> truthy (js_get ''signature'' body) \<or> \<not> sig_ok then None
          else if js_get ''instanceId'' d \<noteq> JStr instance then None
          else if (case js_number (js_get ''timestamp'' d) of Some ts \<Rightarrow> \<bar>of_int now - ts\<bar> > 300000 | None \<Rightarrow> False) then None
          else Some (js_get ''valid'' d = JBool True))"

text \<open>\<open>Math.ceil(Math.abs(now - base) / day)\<close>; an issue date that cannot be read gives NaN.\<close>

definition grace_days :: "licence_env \<Rightarrow> int \<Rightarrow> int option \<Rightarrow> jsval \<Rightarrow> int option" where
  "grace_days E now succeeded payload =
     map_option (\<lambda>base. - ((- \<bar>now - base\<bar>) div day_ms))
       (case succeeded of Some t \<Rightarrow> Some t
        | None \<Rightarrow> if truthy (js_get ''issuedAt'' payload) then le_date E (js_get ''issuedAt'' payload) else Some now)"

definition validate_tick :: "licence_env \<Rightarrow> int \<Rightarrow> string \<Rightarrow> string option \<Rightarrow> portal \<Rightarrow> daemon_state \<Rightarrow> daemon_state" where
  "validate_tick E now instance key p st =
     (case key of
        None \<Rightarrow> st
      | Some k \<Rightarrow>
          if js_trim k = [] then st\<lparr>dm_status := ''valid''\<rparr>
          else (case verifyLicense E now (js_trim k) of
            None \<Rightarrow> st\<lparr>dm_status := ''invalid''\<rparr>
          | Some payload \<Rightarrow>
              if \<not> callback_enabled payload then \<lparr>dm_status = ''valid'', dm_last = Some now\<rparr>
              else (case portal_verdict now instance p of
                Some True \<Rightarrow> \<lparr>dm_status = ''valid'', dm_last = Some now\<rparr>
              | Some False \<Rightarrow> st\<lparr>dm_status := ''invalid''\<rparr>
              | None \<Rightarrow> st\<lparr>dm_status := (case grace_days E now (dm_last st) payload of
                           Some d \<Rightarrow> if d > 60 then ''invalid'' else ''grace_period'' | None \<Rightarrow> ''grace_period'')\<rparr>)))"

definition daemon_start :: daemon_state where
  "daemon_start = \<lparr>dm_status = ''valid'', dm_last = None\<rparr>"

text \<open>\<open>onStatusChange\<close> of \<open>index.ts\<close>: the state is written to the settings when it was set.\<close>

definition persist_state :: "daemon_state \<Rightarrow> licence_db \<Rightarrow> licence_db" where
  "persist_state st db =
     (if lb_up db then db\<lparr>lb_validation := Some (JObj [(''status'', JStr (dm_status st)),
        (''last_successful_validation_at'', case dm_last st of Some t \<Rightarrow> JNum (of_int t) | None \<Rightarrow> JNull)])\<rparr> else db)"

section \<open>Plans and effective limits\<close>

definition LIMIT_KEYS :: "string list" where
  "LIMIT_KEYS = [''max_connections'', ''max_records_per_table'', ''max_tables'', ''max_triggers'', ''max_replication_tables'', ''max_replication_rows'',
    ''max_replication_rows_per_table'', ''max_replications'', ''max_tenants'', ''rate_limit_per_min'', ''rate_limit_per_hour'', ''rate_limit_per_day'',
    ''rate_limit_per_month'', ''max_workers'', ''max_api_tokens_per_user'', ''max_users_per_workspace'', ''max_saved_analytics'', ''max_query_rows'',
    ''max_manifest_size_mb'']"

definition BUILTIN_TRIAL_LIMITS :: "(string \<times> rat) list" where
  "BUILTIN_TRIAL_LIMITS = [(''max_connections'', 2), (''max_records_per_table'', 1000), (''max_tables'', 5), (''max_triggers'', 3), (''max_replication_tables'', 2),
    (''max_replication_rows'', 500), (''max_replication_rows_per_table'', 250), (''max_replications'', 2), (''max_tenants'', 3), (''rate_limit_per_min'', 10),
    (''rate_limit_per_hour'', 100), (''rate_limit_per_day'', 1000), (''rate_limit_per_month'', 10000), (''max_workers'', 2), (''max_api_tokens_per_user'', 5),
    (''max_users_per_workspace'', 5), (''max_saved_analytics'', 20), (''max_query_rows'', 10000), (''max_manifest_size_mb'', 5)]"

definition lim_num :: "jsval \<Rightarrow> rat option" where
  "lim_num v = (case v of JNum q \<Rightarrow> Some q | _ \<Rightarrow> None)"

definition capLimit :: "rat \<Rightarrow> rat option \<Rightarrow> rat" where
  "capLimit value cap = (case cap of None \<Rightarrow> value | Some c \<Rightarrow> if c = - 1 then value else if value = - 1 then c else min value c)"

text \<open>\<open>for (const [k, v] of Object.entries(src || {})) \<dots> base[k] = n\<close>\<close>

definition overlay :: "jsval \<Rightarrow> (string \<times> rat) list \<Rightarrow> (string \<times> rat) list" where
  "overlay src base = foldl (\<lambda>b kv. case lim_num (snd kv) of Some n \<Rightarrow> kv_set (fst kv) n b | None \<Rightarrow> b) base (obj_of src)"

definition unlimited :: "(string \<times> rat) list" where
  "unlimited = map (\<lambda>k. (k, - 1)) LIMIT_KEYS"

record plan_row =
  pl_name :: string
  pl_limits :: jsval
  pl_features :: jsval
  pl_default :: bool

record sub_row =
  sb_user :: string
  sb_status :: string
  sb_plan :: string
  sb_snapshot :: jsval
  sb_start :: int

record limits_tenant =
  lt_id :: string
  lt_user :: "string option"
  lt_plan :: "string option"
  lt_started :: "int option"
  lt_expires :: "int option"
  lt_overrides :: jsval
  lt_created :: "int option"

record limits_db =
  ld_plans :: "plan_row list"
  ld_subs :: "sub_row list"
  ld_tenants :: "limits_tenant list"

datatype plan_source = PWorkspace | PSubscription | PDefault | PLicence | PBuiltin

definition plan_named :: "limits_db \<Rightarrow> string \<Rightarrow> plan_row option" where
  "plan_named db n = List.find (\<lambda>p. pl_name p = n) (ld_plans db)"

definition sub_plan :: "limits_db \<Rightarrow> string \<Rightarrow> (sub_row \<times> plan_row) option" where
  "sub_plan db u =
     (case List.find (\<lambda>s. sb_user s = u \<and> sb_status s = ''active'' \<and> plan_named db (sb_plan s) \<noteq> None) (ld_subs db) of
        None \<Rightarrow> None | Some s \<Rightarrow> map_option (Pair s) (plan_named db (sb_plan s)))"

definition default_plan :: "limits_db \<Rightarrow> string option \<Rightarrow> plan_row option" where
  "default_plan db name =
     (case name of Some n \<Rightarrow> plan_named db n
      | None \<Rightarrow> (case List.find pl_default (ld_plans db) of Some p \<Rightarrow> Some p | None \<Rightarrow> plan_named db ''trial''))"

text \<open>The plan of a workspace: limits, features, where it comes from and since when.\<close>

definition planRow :: "limits_db \<Rightarrow> limits_tenant option \<Rightarrow> string option \<Rightarrow> string \<times> jsval \<times> jsval \<times> plan_source \<times> int option" where
  "planRow db tenant defaultPlan =
     (let own = (case tenant of Some t \<Rightarrow> (case lt_plan t of Some n \<Rightarrow> if n = [] then None else plan_named db n | None \<Rightarrow> None) | None \<Rightarrow> None);
          sub = (case tenant of Some t \<Rightarrow> (case lt_user t of Some u \<Rightarrow> if u = [] then None else sub_plan db u | None \<Rightarrow> None) | None \<Rightarrow> None) in
      case own of
        Some p \<Rightarrow> (pl_name p, pl_limits p, pl_features p, PWorkspace, (case tenant of Some t \<Rightarrow> lt_started t | None \<Rightarrow> None))
      | None \<Rightarrow> (case sub of
          Some (s, p) \<Rightarrow> (pl_name p, or_val (js_get ''limits'' (sb_snapshot s)) (pl_limits p),
             or_val (js_get ''features'' (sb_snapshot s)) (pl_features p), PSubscription, Some (sb_start s))
        | None \<Rightarrow> (case default_plan db defaultPlan of
            Some p \<Rightarrow> (pl_name p, pl_limits p, pl_features p, PDefault, None)
          | None \<Rightarrow> (''trial'', JObj (map (\<lambda>(k, q). (k, JNum q)) BUILTIN_TRIAL_LIMITS), JObj [(''trial_period_days'', JNum 7)], PBuiltin, None))))"

record effective =
  ef_plan :: string
  ef_source :: plan_source
  ef_limits :: "(string \<times> rat) list"
  ef_features :: kvs
  ef_started :: int
  ef_ends :: "rat option"
  ef_expired :: bool
  ef_days :: rat

definition merge_feature :: "kvs \<Rightarrow> string \<times> jsval \<Rightarrow> kvs" where
  "merge_feature fs kv =
     (case snd kv of
        JBool b \<Rightarrow> kv_set (fst kv) (if kv_get (fst kv) fs = Some (JBool False) then JBool False else JBool b) fs
      | JNum q \<Rightarrow> kv_set (fst kv) (JNum q) fs
      | _ \<Rightarrow> fs)"

definition base_limits :: "bool \<Rightarrow> jsval option \<Rightarrow> jsval \<Rightarrow> (string \<times> rat) list" where
  "base_limits planLimits payload plan =
     (case payload of
        Some p \<Rightarrow> if truthy (js_get ''selfHosted'' p) then overlay (js_get ''limits'' p) unlimited
                  else if planLimits then overlay plan BUILTIN_TRIAL_LIMITS else unlimited
      | None \<Rightarrow> if planLimits then overlay plan BUILTIN_TRIAL_LIMITS else unlimited)"

definition cap_all :: "jsval \<Rightarrow> (string \<times> rat) list \<Rightarrow> (string \<times> rat) list" where
  "cap_all limits base =
     foldl (\<lambda>b k. case lim_num (js_get k limits) of
        Some c \<Rightarrow> kv_set k (capLimit (case kv_get k b of Some q \<Rightarrow> q | None \<Rightarrow> - 1) (Some c)) b | None \<Rightarrow> b) base LIMIT_KEYS"

definition first_some :: "int option list \<Rightarrow> int \<Rightarrow> int" where
  "first_some xs d = foldr (\<lambda>x r. case x of Some v \<Rightarrow> v | None \<Rightarrow> r) xs d"

definition compute_limits :: "int \<Rightarrow> kvs \<Rightarrow> licence_state \<Rightarrow> limits_db \<Rightarrow> string \<Rightarrow> effective" where
  "compute_limits now sys lic db tenantId =
     (let tenant = List.find (\<lambda>t. lt_id t = tenantId) (ld_tenants db);
          payload = (if ls_status lic = LValid then ls_payload lic else None);
          selfHosted = (case payload of Some p \<Rightarrow> truthy (js_get ''selfHosted'' p) | None \<Rightarrow> False);
          enabled = truthy (js_get ''planLimitsEnabled'' (JObj sys));
          plan = planRow db tenant (case js_get ''defaultPlan'' (JObj sys) of JStr s \<Rightarrow> if s = [] then None else Some s | _ \<Rightarrow> None);
          overrides = (case tenant of Some t \<Rightarrow> lt_overrides t | None \<Rightarrow> JObj []);
          base = base_limits enabled payload (fst (snd plan));
          own = (if enabled \<or> selfHosted then overlay overrides base else base);
          limits = (case payload of Some p \<Rightarrow> cap_all (js_get ''limits'' p) own | None \<Rightarrow> own);
          features = foldl merge_feature (obj_of (fst (snd (snd plan)))) (case payload of Some p \<Rightarrow> obj_of (js_get ''features'' p) | None \<Rightarrow> []);
          src = (if selfHosted then PLicence else fst (snd (snd (snd plan))));
          days = (case lim_num (js_get ''trial_period_days'' (JObj features)) of Some d \<Rightarrow> d | None \<Rightarrow> 7);
          begin_at = first_some [case tenant of Some t \<Rightarrow> lt_started t | None \<Rightarrow> None, snd (snd (snd (snd plan))), case tenant of Some t \<Rightarrow> lt_created t | None \<Rightarrow> None] now;
          planEnd = (case tenant of Some t \<Rightarrow> lt_expires t | None \<Rightarrow> None);
          ends = (case planEnd of Some e \<Rightarrow> Some (of_int e) | None \<Rightarrow> if days = - 1 then None else Some (of_int begin_at + days * 86400000));
          noExpiry = (selfHosted \<or> \<not> enabled \<or> (src \<noteq> PDefault \<and> src \<noteq> PBuiltin \<and> planEnd = None \<and> days = - 1))
      in \<lparr>ef_plan = (if selfHosted then (case payload of Some p \<Rightarrow> js_string (or_val (js_get ''name'' p) (JStr ''selfhost'')) | None \<Rightarrow> []) else fst plan),
          ef_source = src, ef_limits = limits, ef_features = features, ef_started = begin_at,
          ef_ends = (if noExpiry then None else ends),
          ef_expired = (\<not> noExpiry \<and> (case ends of Some e \<Rightarrow> of_int now > e | None \<Rightarrow> False)), ef_days = days\<rparr>)"

text \<open>\<open>forTenant\<close>: the cache is per workspace.\<close>

definition forTenant :: "int \<Rightarrow> (string \<Rightarrow> effective) \<Rightarrow> string \<Rightarrow> (string \<times> int \<times> effective) list \<Rightarrow> effective \<times> (string \<times> int \<times> effective) list" where
  "forTenant now compute t c =
     (case kv_get t c of
        Some (stamp, v) \<Rightarrow> if now - stamp < licence_ttl then (v, c) else (compute t, kv_set t (now, compute t) c)
      | None \<Rightarrow> (compute t, kv_set t (now, compute t) c))"

definition assertFeature :: "effective \<Rightarrow> string \<Rightarrow> unit res" where
  "assertFeature eff feature = unlessR (kv_get feature (ef_features eff) \<noteq> Some (JBool False)) (Err 403 ''FEATURE_DISABLED'')"

definition assertWithin :: "effective \<Rightarrow> string \<Rightarrow> rat \<Rightarrow> unit res" where
  "assertWithin eff key current =
     (case kv_get key (ef_limits eff) of
        None \<Rightarrow> Inr ()
      | Some cap \<Rightarrow> if cap = - 1 then Inr () else unlessR (\<not> current \<ge> cap) (Err 403 ''PLAN_LIMIT_REACHED''))"

definition assertLicenceFeature :: "licence_state \<Rightarrow> string \<Rightarrow> unit res" where
  "assertLicenceFeature lic feature =
     unlessR (\<not> (ls_status lic = LValid \<and> (case ls_payload lic of Some p \<Rightarrow> js_get feature (js_get ''features'' p) = JBool False | None \<Rightarrow> False)))
       (Err 403 ''FEATURE_DISABLED'')"

definition assertLicenceWithin :: "licence_state \<Rightarrow> string \<Rightarrow> rat \<Rightarrow> unit res" where
  "assertLicenceWithin lic key current =
     (case (if ls_status lic = LValid then (case ls_payload lic of Some p \<Rightarrow> lim_num (js_get key (js_get ''limits'' p)) | None \<Rightarrow> None) else None) of
        Some cap \<Rightarrow> unlessR (\<not> (cap \<noteq> - 1 \<and> current \<ge> cap)) (Err 403 ''LICENSE_LIMIT_REACHED'')
      | None \<Rightarrow> Inr ())"

section \<open>Feature gates\<close>

text \<open>The gates of a route: go on, or answer. \<open>eff\<close> is an error when the limits cannot be read.\<close>

datatype gate = GNext | GNextError js_err | GAnswer nat string

definition send_limit :: "js_err \<Rightarrow> gate" where
  "send_limit e = GAnswer (err_status e) (err_code e)"

definition requireFeature :: "string \<Rightarrow> app_user option \<Rightarrow> effective res \<Rightarrow> gate" where
  "requireFeature feature user eff =
     (case user of
        None \<Rightarrow> GNext
      | Some u \<Rightarrow>
          if isPlatformAdmin user \<or> \<not> truthy (au_tenant u) then GNext
          else (case eff of
            Inl e \<Rightarrow> GNextError e
          | Inr ef \<Rightarrow> (case assertFeature ef feature of Inl e \<Rightarrow> send_limit e | Inr _ \<Rightarrow> GNext)))"

definition manifestFileGate :: "rat option \<Rightarrow> app_user option \<Rightarrow> effective res \<Rightarrow> gate" where
  "manifestFileGate file_size user eff =
     (case (user, file_size) of
        (Some u, Some sz) \<Rightarrow>
          if isPlatformAdmin user \<or> \<not> truthy (au_tenant u) then GNext
          else (case eff of
            Inl e \<Rightarrow> GNextError e
          | Inr ef \<Rightarrow> (case assertFeature ef ''manifest_import_export_enabled'' of
              Inl e \<Rightarrow> send_limit e
            | Inr _ \<Rightarrow> (case kv_get ''max_manifest_size_mb'' (ef_limits ef) of
                Some mb \<Rightarrow> if mb \<noteq> - 1 \<and> sz > mb * 1024 * 1024 then GAnswer 413 ''MANIFEST_TOO_LARGE'' else GNext
              | None \<Rightarrow> GNext)))
      | _ \<Rightarrow> GNext)"

section \<open>The row ceiling of a query\<close>

definition limit_invalid :: "jsval \<Rightarrow> bool" where
  "limit_invalid v \<longleftrightarrow> \<not> nullish v \<and> (case v of JNum q \<Rightarrow> \<not> is_int_rat q \<or> q < 0 | _ \<Rightarrow> True)"

definition inner_limit :: "jsval \<Rightarrow> jsval" where
  "inner_limit config = js_get ''limit'' (js_get ''query'' config)"

definition row_caps :: "jsval \<Rightarrow> rat option \<Rightarrow> rat list" where
  "row_caps maxRows licensed =
     filter (\<lambda>n. n > 0) ((case maxRows of JNum q \<Rightarrow> [q] | _ \<Rightarrow> []) @ (case licensed of Some q \<Rightarrow> [q] | None \<Rightarrow> []))"

definition clamp_rows :: "rat \<Rightarrow> jsval \<Rightarrow> jsval" where
  "clamp_rows cap v = JNum (case v of JNum q \<Rightarrow> if q > 0 then min q cap else cap | _ \<Rightarrow> cap)"

text \<open>\<open>settings\<close> is \<open>None\<close> when the settings or the limits cannot be read.\<close>

definition applyRowCeiling :: "((string \<times> kvs) list \<times> effective) option \<Rightarrow> jsval \<Rightarrow> jsval \<Rightarrow> jsval res" where
  "applyRowCeiling settings config role =
     (case config of
        JObj kvs \<Rightarrow>
          if role = JStr ''ADMIN'' \<or> js_upper (js_string (or_val (js_get ''type'' config) (JStr ''SELECT''))) \<noteq> ''SELECT'' then Inr config
          else if limit_invalid (js_get ''limit'' config) \<or> limit_invalid (inner_limit config) then Inl (Err 400 ''INVALID_LIMIT'')
          else (case settings of
            None \<Rightarrow> Inr config
          | Some (ws, eff) \<Rightarrow>
              (case row_caps (setting_of ws ''query'' ''maxRows'') (kv_get ''max_query_rows'' (ef_limits eff)) of
                 [] \<Rightarrow> Inr config
               | cap # caps \<Rightarrow>
                   let most = foldl min cap caps; out = kv_set ''limit'' (clamp_rows most (js_get ''limit'' config)) kvs in
                   Inr (JObj (case js_get ''query'' config of
                      JObj q \<Rightarrow> if js_get ''limit'' (JObj q) \<noteq> JUndef
                                then kv_set ''query'' (JObj (kv_set ''limit'' (clamp_rows most (js_get ''limit'' (JObj q))) q)) out else out
                    | _ \<Rightarrow> out))))
      | _ \<Rightarrow> Inr config)"

section \<open>Workspaces of a user, expiry and request rates\<close>

definition checkLimit :: "effective \<Rightarrow> string \<Rightarrow> rat \<Rightarrow> bool" where
  "checkLimit eff key current = (case kv_get key (ef_limits eff) of None \<Rightarrow> True | Some cap \<Rightarrow> cap = - 1 \<or> current < cap)"

definition getUserSubscription :: "limits_db \<Rightarrow> string \<Rightarrow> jsval \<times> jsval" where
  "getUserSubscription db u =
     (case sub_plan db u of
        Some (s, p) \<Rightarrow> (or_val (js_get ''limits'' (sb_snapshot s)) (pl_limits p), or_val (js_get ''features'' (sb_snapshot s)) (pl_features p))
      | None \<Rightarrow> (case plan_named db ''trial'' of
          Some p \<Rightarrow> (or_val (pl_limits p) (JObj (map (\<lambda>(k, q). (k, JNum q)) (take 13 BUILTIN_TRIAL_LIMITS))), or_val (pl_features p) (JObj [(''trial_period_days'', JNum 7)]))
        | None \<Rightarrow> (JObj (map (\<lambda>(k, q). (k, JNum q)) (take 13 BUILTIN_TRIAL_LIMITS)), JObj [(''trial_period_days'', JNum 7)])))"

definition licence_cap :: "licence_state \<Rightarrow> string \<Rightarrow> rat option" where
  "licence_cap lic k = (if ls_status lic = LValid then (case ls_payload lic of Some p \<Rightarrow> lim_num (js_get k (js_get ''limits'' p)) | None \<Rightarrow> None) else None)"

definition canCreateTenant :: "kvs \<Rightarrow> licence_state \<Rightarrow> limits_db \<Rightarrow> string \<Rightarrow> bool" where
  "canCreateTenant sys lic db user =
     (let get = (\<lambda>k. js_get k (JObj sys)); owned = rat_of_nat (length (filter (\<lambda>t. lt_user t = Some user) (ld_tenants db)));
          planMax = js_get ''max_tenants'' (fst (getUserSubscription db user)) in
      truthy (get ''allowWorkspaceCreation'')
      \<and> (case get ''maxWorkspacesPerUser'' of JNum m \<Rightarrow> m = - 1 \<or> owned < m | _ \<Rightarrow> True)
      \<and> (case licence_cap lic ''max_tenants'' of Some m \<Rightarrow> m = - 1 \<or> rat_of_nat (length (ld_tenants db)) < m | None \<Rightarrow> True)
      \<and> (ls_status lic = LValid \<and> (case ls_payload lic of Some p \<Rightarrow> truthy (js_get ''selfHosted'' p) | None \<Rightarrow> False)
         \<or> nullish planMax \<or> planMax = JNum (- 1) \<or> (case planMax of JNum m \<Rightarrow> owned < m | _ \<Rightarrow> True)))"

definition isSelfHost :: "licence_state \<Rightarrow> limits_db \<Rightarrow> string \<Rightarrow> bool" where
  "isSelfHost lic db user \<longleftrightarrow>
     ls_status lic = LValid \<and> (case ls_payload lic of Some p \<Rightarrow> js_get ''selfHosted'' p = JBool True | None \<Rightarrow> False)
     \<or> (case sub_plan db user of Some (s, p) \<Rightarrow> pl_name p = ''selfhost'' | None \<Rightarrow> False)"

text \<open>The counters of the requests: key, count and the time the entry expires.\<close>

type_synonym rate_store = "(string \<times> nat \<times> nat) list"

definition incrementInMemory :: "nat \<Rightarrow> string \<Rightarrow> nat \<Rightarrow> rate_store \<Rightarrow> nat \<times> rate_store" where
  "incrementInMemory now key window store =
     (let alive = filter (\<lambda>e. \<not> now > snd (snd e)) store in
      case kv_get key alive of
        Some (n, e) \<Rightarrow> if now \<le> e then (Suc n, kv_set key (Suc n, e) alive) else (1, kv_set key (1, now + window) alive)
      | None \<Rightarrow> (1, kv_set key (1, now + window) alive))"

definition rate_key :: "string \<Rightarrow> string \<Rightarrow> nat \<Rightarrow> string" where
  "rate_key kind t i = ''rate:'' @ kind @ '':'' @ t @ '':'' @ show_nat i"

definition rate_limits :: "(string \<times> rat) list \<Rightarrow> (string \<times> rat option \<times> nat) list" where
  "rate_limits limits =
     [(''min'', kv_get ''rate_limit_per_min'' limits, 60 * 1000), (''hour'', kv_get ''rate_limit_per_hour'' limits, 60 * 60 * 1000),
      (''day'', kv_get ''rate_limit_per_day'' limits, 24 * 60 * 60 * 1000),
      (''month'', (case kv_get ''rate_limit_per_month'' limits of
          Some q \<Rightarrow> if q \<noteq> 0 then Some q else kv_get ''request_per_month'' limits | None \<Rightarrow> kv_get ''request_per_month'' limits), 30 * 24 * 60 * 60 * 1000)]"

fun rate_loop :: "nat \<Rightarrow> string \<Rightarrow> (string \<times> rat option \<times> nat) list \<Rightarrow> rate_store \<Rightarrow> string option \<times> rate_store" where
  "rate_loop now t [] store = (None, store)"
| "rate_loop now t ((kind, cap, window) # rs) store =
     (case cap of
        None \<Rightarrow> rate_loop now t rs store
      | Some c \<Rightarrow>
          if c = - 1 then rate_loop now t rs store
          else (let r = incrementInMemory now (rate_key kind t (now div window)) window store in
            if of_nat (fst r) > c then (Some kind, snd r) else rate_loop now t rs (snd r)))"

text \<open>\<open>checkRateLimit\<close> without a cache server: \<open>None\<close> is allowed, otherwise the limit that was reached.\<close>

definition checkRateLimit :: "nat \<Rightarrow> string \<Rightarrow> (string \<times> rat) list \<Rightarrow> rate_store \<Rightarrow> string option \<times> rate_store" where
  "checkRateLimit now t limits store = rate_loop now t (rate_limits limits) store"

text \<open>The middleware: \<open>eff\<close> is \<open>None\<close> when the limits cannot be evaluated. In the test environment it is off.\<close>

datatype licensing_out = LPass | LAnswer nat

definition licensingMiddleware :: "nat \<Rightarrow> app_user option \<Rightarrow> effective option \<Rightarrow> rate_store \<Rightarrow> licensing_out \<times> rate_store" where
  "licensingMiddleware now user eff store =
     (case user of
        None \<Rightarrow> (LAnswer 401, store)
      | Some u \<Rightarrow>
          if isPlatformAdmin user then (LPass, store)
          else (case eff of
            None \<Rightarrow> (LAnswer 503, store)
          | Some e \<Rightarrow> if ef_expired e then (LAnswer 402, store)
                      else (let r = checkRateLimit now (js_string (au_tenant u)) (ef_limits e) store in
                            (if fst r = None then LPass else LAnswer 429, snd r))))"

section \<open>The ceiling of a licence\<close>

lemma capLimit_under: "capLimit v (Some c) \<le> c \<and> capLimit v (Some c) \<noteq> - 1" if "c \<noteq> - 1"
  using that by (auto simp: capLimit_def min_def)

text \<open>With \<open>-1\<close> read as infinity, the cap is the minimum.\<close>

definition as_bound :: "rat \<Rightarrow> rat option" where
  "as_bound q = (if q = - 1 then None else Some q)"

definition under :: "rat \<Rightarrow> rat \<Rightarrow> bool" where
  "under current cap \<longleftrightarrow> (case as_bound cap of None \<Rightarrow> True | Some l \<Rightarrow> current < l)"

lemma capLimit_under_both: "under n (capLimit v (Some c)) \<longleftrightarrow> under n v \<and> under n c"
  by (auto simp: under_def as_bound_def capLimit_def min_def)

lemma cap_fold_other:
  "k \<notin> set ks \<Longrightarrow> kv_get k (foldl (\<lambda>b k. case lim_num (js_get k limits) of
        Some c \<Rightarrow> kv_set k (capLimit (case kv_get k b of Some q \<Rightarrow> q | None \<Rightarrow> - 1) (Some c)) b | None \<Rightarrow> b) base ks) = kv_get k base"
  by (induction ks arbitrary: base) (auto split: option.split)

lemma cap_fold:
  assumes "distinct ks" "k \<in> set ks" "lim_num (js_get k limits) = Some c"
  shows "kv_get k (foldl (\<lambda>b k. case lim_num (js_get k limits) of
        Some c \<Rightarrow> kv_set k (capLimit (case kv_get k b of Some q \<Rightarrow> q | None \<Rightarrow> - 1) (Some c)) b | None \<Rightarrow> b) base ks)
     = Some (capLimit (case kv_get k base of Some q \<Rightarrow> q | None \<Rightarrow> - 1) (Some c))"
  using assms by (induction ks arbitrary: base) (auto simp: cap_fold_other split: option.split)

lemma cap_all_get:
  "k \<in> set LIMIT_KEYS \<Longrightarrow> lim_num (js_get k limits) = Some c \<Longrightarrow>
   kv_get k (cap_all limits base) = Some (capLimit (case kv_get k base of Some q \<Rightarrow> q | None \<Rightarrow> - 1) (Some c))"
  unfolding cap_all_def by (rule cap_fold) (simp_all add: LIMIT_KEYS_def)

text \<open>
  C17: under a usable licence that sets a limit, no plan, override or switch lifts it: the effective limit
  is at most the licensed one and never unlimited, and what \<open>assertWithin\<close> accepts stays below it.
\<close>

theorem licence_ceiling_holds:
  assumes "ls_status lic = LValid" "ls_payload lic = Some p" "js_get k (js_get ''limits'' p) = JNum c" "c \<noteq> - 1" "k \<in> set LIMIT_KEYS"
  shows "\<exists>q. kv_get k (ef_limits (compute_limits now sys lic db t)) = Some q \<and> q \<le> c \<and> q \<noteq> - 1
     \<and> (\<forall>n. isOk (assertWithin (compute_limits now sys lic db t) k n) \<longleftrightarrow> n < q)"
proof -
  have "\<exists>base. ef_limits (compute_limits now sys lic db t) = cap_all (js_get ''limits'' p) base"
    using assms(1,2) by (auto simp: compute_limits_def Let_def)
  then obtain base where b: "ef_limits (compute_limits now sys lic db t) = cap_all (js_get ''limits'' p) base" by blast
  let ?q = "capLimit (case kv_get k base of Some q \<Rightarrow> q | None \<Rightarrow> - 1) (Some c)"
  have "kv_get k (ef_limits (compute_limits now sys lic db t)) = Some ?q"
    unfolding b using assms(3,5) by (intro cap_all_get) (simp_all add: lim_num_def)
  moreover have "?q \<le> c \<and> ?q \<noteq> - 1" using assms(4) by (rule capLimit_under)
  ultimately show ?thesis by (intro exI [of _ ?q]) (auto simp: assertWithin_def not_le)
qed

definition team_licence :: jsval where
  "team_licence = JObj [(''licensee'', JStr ''Acme''), (''selfHosted'', JBool True), (''limits'', JObj [(''max_tables'', JNum 3)])]"

definition team_state :: licence_state where
  "team_state = \<lparr>ls_status = LValid, ls_source = Some FromEnv, ls_payload = Some team_licence\<rparr>"

definition acme_limits :: limits_db where
  "acme_limits = \<lparr>ld_plans = [], ld_subs = [], ld_tenants =
     [\<lparr>lt_id = ''acme'', lt_user = None, lt_plan = None, lt_started = None, lt_expires = None,
       lt_overrides = JObj [(''max_tables'', JNum (- 1))], lt_created = Some 0\<rparr>]\<rparr>"

lemma licence_ceiling_holds_witness:
  "\<exists>q. kv_get ''max_tables'' (ef_limits (compute_limits 5 [] team_state acme_limits ''acme'')) = Some q \<and> q \<le> 3 \<and> q \<noteq> - 1
     \<and> (\<forall>n. isOk (assertWithin (compute_limits 5 [] team_state acme_limits ''acme'') ''max_tables'' n) \<longleftrightarrow> n < q)"
  by (rule licence_ceiling_holds [of _ team_licence]) (simp_all add: team_state_def team_licence_def js_get_def LIMIT_KEYS_def)

section \<open>What the daemon may undo\<close>

text \<open>A licence the portal has rejected becomes usable again when the portal cannot be reached.\<close>

lemma rejection_undone_by_outage:
  assumes "verifyLicense E now (js_trim k) = Some payload" "js_trim k \<noteq> []" "callback_enabled payload"
    and "dm_status st = ''invalid''" "dm_last st = Some t" "t \<le> now" "now \<le> t + 60 * day_ms"
  shows "dm_status (validate_tick E now i (Some k) Unreachable st) = ''grace_period''"
proof -
  have "- ((- (now - t)) div day_ms) \<le> 60" using assms(6,7) by (simp add: day_ms_def)
  then show ?thesis using assms by (simp add: validate_tick_def portal_verdict_def grace_days_def)
qed

text \<open>The last success is kept in memory only: after a restart the grace period is counted from the issue of the
  licence, and a licence issued more than sixty days ago is refused at the first failing callback.\<close>

lemma restart_loses_grace:
  assumes "verifyLicense E now (js_trim k) = Some payload" "js_trim k \<noteq> []" "callback_enabled payload"
    and "truthy (js_get ''issuedAt'' payload)" "le_date E (js_get ''issuedAt'' payload) = Some t" "t + 60 * day_ms < now"
  shows "dm_status (validate_tick E now i (Some k) Unreachable daemon_start) = ''invalid''"
proof -
  have "60 < - ((- \<bar>now - t\<bar>) div day_ms)" using assms(6) by (simp add: day_ms_def)
  then show ?thesis using assms by (simp add: validate_tick_def portal_verdict_def grace_days_def daemon_start_def)
qed

section \<open>The row ceiling\<close>

lemma foldl_min: "foldl min a xs \<le> a \<and> (\<forall>x \<in> set xs. foldl min a xs \<le> (x :: rat))" "(0 :: rat) < a \<Longrightarrow> \<forall>x \<in> set xs. 0 < x \<Longrightarrow> 0 < foldl min a xs"
proof -
  show "foldl min a xs \<le> a \<and> (\<forall>x \<in> set xs. foldl min a xs \<le> x)"
  proof (induction xs arbitrary: a)
    case (Cons x xs)
    from Cons.IH [of "min a x"] show ?case by auto
  qed simp
  show "(0 :: rat) < a \<Longrightarrow> \<forall>x \<in> set xs. 0 < x \<Longrightarrow> 0 < foldl min a xs" by (induction xs arbitrary: a) auto
qed

text \<open>
  The limit of a query that passes the ceiling is positive and below every positive cap, and no larger
  than a positive limit the caller gave.
\<close>

lemma row_ceiling:
  assumes "applyRowCeiling (Some (ws, eff)) (JObj kvs) role = Inr out" "role \<noteq> JStr ''ADMIN''"
    and "js_upper (js_string (or_val (js_get ''type'' (JObj kvs)) (JStr ''SELECT''))) = ''SELECT''"
    and "cap \<in> set (row_caps (setting_of ws ''query'' ''maxRows'') (kv_get ''max_query_rows'' (ef_limits eff)))"
  shows "\<exists>q. js_get ''limit'' out = JNum q \<and> 0 < q \<and> q \<le> cap \<and> (\<forall>l. js_get ''limit'' (JObj kvs) = JNum l \<and> 0 < l \<longrightarrow> q \<le> l)"
proof -
  obtain c cs where caps: "row_caps (setting_of ws ''query'' ''maxRows'') (kv_get ''max_query_rows'' (ef_limits eff)) = c # cs"
    using assms(4) by (cases "row_caps (setting_of ws ''query'' ''maxRows'') (kv_get ''max_query_rows'' (ef_limits eff))") auto
  have pos: "0 < x" if "x \<in> set (c # cs)" for x using that unfolding caps [symmetric] by (auto simp: row_caps_def)
  let ?m = "foldl min c cs"
  have m: "0 < ?m" "?m \<le> cap"
    using foldl_min(2) [of c cs] pos foldl_min(1) [of c cs] assms(4) unfolding caps by auto
  have "js_get ''limit'' out = clamp_rows ?m (js_get ''limit'' (JObj kvs))"
    using assms(1-3) caps by (auto simp: applyRowCeiling_def Let_def js_get_def split: if_splits jsval.splits)
  then show ?thesis using m by (auto simp: clamp_rows_def min_def split: jsval.splits)
qed

text \<open>A limit of zero is raised to the ceiling, and a licensed ceiling of zero, which should allow no row, is none.\<close>

lemma limit_zero_raised:
  assumes "row_caps (setting_of ws ''query'' ''maxRows'') (kv_get ''max_query_rows'' (ef_limits eff)) = [c]"
  shows "applyRowCeiling (Some (ws, eff)) (JObj [(''limit'', JNum 0)]) (JStr ''USER'') = Inr (JObj [(''limit'', JNum c)])"
proof -
  have "js_upper ''SELECT'' = ''SELECT''" by code_simp
  then show ?thesis
    using assms by (simp add: applyRowCeiling_def js_get_def or_val_def inner_limit_def limit_invalid_def is_int_rat_def clamp_rows_def)
qed

lemma zero_rows_is_no_ceiling: "row_caps JUndef (Some 0) = []"
  by (simp add: row_caps_def)

section \<open>The request rate\<close>

lemma sep_unique: "c \<notin> set a \<Longrightarrow> c \<notin> set b \<Longrightarrow> a @ c # x = b @ c # y \<Longrightarrow> a = b \<and> x = y"
proof (induction a arbitrary: b)
  case Nil
  then show ?case by (cases b) auto
next
  case (Cons d a)
  then show ?case by (cases b) auto
qed

lemma show_nat_no_colon: "CHR '':'' \<notin> set (show_nat n)"
  using show_nat_digits [of _ n] by (force simp: js_chr)

lemma show_nat_inj: "show_nat i = show_nat j \<Longrightarrow> i = j"
proof -
  assume "show_nat i = show_nat j"
  then have "num_val 10 (show_nat i) = num_val 10 (show_nat j)" by (rule arg_cong)
  then show ?thesis by (simp add: num_val_show)
qed

text \<open>The keys of two counters differ, whatever characters the tenant's id holds: neither the kind of the window nor
  its number has a colon.\<close>

lemma rate_key_inj:
  assumes "rate_key kind t i = rate_key kind' t' i'" "CHR '':'' \<notin> set kind" "CHR '':'' \<notin> set kind'"
  shows "kind = kind' \<and> t = t' \<and> i = i'"
proof -
  from assms have k: "kind = kind'" and r: "t @ CHR '':'' # show_nat i = t' @ CHR '':'' # show_nat i'"
    using sep_unique [of "CHR '':''" kind kind' "t @ CHR '':'' # show_nat i" "t' @ CHR '':'' # show_nat i'"] by (simp_all add: rate_key_def)
  from r have "rev (show_nat i) @ CHR '':'' # rev t = rev (show_nat i') @ CHR '':'' # rev t'"
    using arg_cong [OF r, of rev] unfolding rev_append rev.simps append_assoc by simp
  then have "rev (show_nat i) = rev (show_nat i') \<and> rev t = rev t'"
    by (intro sep_unique) (simp_all add: show_nat_no_colon)
  then show ?thesis using k by (auto dest: show_nat_inj)
qed

lemma kv_get_filter:
  "kv_get k xs = Some v \<Longrightarrow> P (k, v) \<Longrightarrow> kv_get k (filter P xs) = Some v"
  "kv_get k xs = None \<Longrightarrow> kv_get k (filter P xs) = None"
  by (induction xs) (auto split: if_splits)

text \<open>What is known of the counter of one key: \<open>n\<close> hits, and it lives at least until the time \<open>until\<close>.\<close>

definition counter_at :: "rate_store \<Rightarrow> string \<Rightarrow> nat \<Rightarrow> nat \<Rightarrow> bool" where
  "counter_at store key until n \<longleftrightarrow> (case kv_get key store of Some (m, e) \<Rightarrow> until \<le> e \<and> m = n | None \<Rightarrow> n = 0)"

lemma counter_kept:
  assumes "counter_at store key until n" "now < until"
  shows "kv_get key (filter (\<lambda>e. \<not> now > snd (snd e)) store) = kv_get key store"
  using assms kv_get_filter(1) [of key store _ "\<lambda>e. \<not> now > snd (snd e)"] kv_get_filter(2) [of key store "\<lambda>e. \<not> now > snd (snd e)"]
  by (cases "kv_get key store") (auto simp: counter_at_def)

lemma increment_store:
  "\<exists>v. snd (incrementInMemory now key w store) = kv_set key v (filter (\<lambda>e. \<not> now > snd (snd e)) store)"
  unfolding incrementInMemory_def Let_def by (auto split: option.split prod.split)

lemma counter_other:
  assumes "counter_at store key until n" "now < until" "key' \<noteq> key"
  shows "counter_at (snd (incrementInMemory now key' w store)) key until n"
proof -
  obtain v where "snd (incrementInMemory now key' w store) = kv_set key' v (filter (\<lambda>e. \<not> now > snd (snd e)) store)"
    using increment_store by blast
  then have "kv_get key (snd (incrementInMemory now key' w store)) = kv_get key store"
    using counter_kept [OF assms(1,2)] assms(3) by simp
  then show ?thesis using assms(1) by (simp add: counter_at_def)
qed

lemma counter_hit:
  assumes "counter_at store key until n" "now < until" "until \<le> now + w"
  shows "fst (incrementInMemory now key w store) = Suc n" "counter_at (snd (incrementInMemory now key w store)) key until (Suc n)"
  using counter_kept [OF assms(1,2)] assms
  by (cases "kv_get key store"; auto simp: counter_at_def incrementInMemory_def Let_def)+

lemma rate_loop_other:
  assumes "counter_at store key until n" "now < until" "\<forall>r \<in> set rs. rate_key (fst r) u (now div snd (snd r)) \<noteq> key"
  shows "counter_at (snd (rate_loop now u rs store)) key until n"
  using assms
proof (induction rs arbitrary: store)
  case (Cons r rs)
  obtain kind cap w where r: "r = (kind, cap, w)" by (cases r)
  from Cons.prems have "counter_at (snd (incrementInMemory now (rate_key kind u (now div w)) w store)) key until n"
    by (intro counter_other) (auto simp: r)
  with Cons show ?case by (auto simp: r Let_def split: option.split)
qed simp

lemma rate_loop_grows:
  assumes "counter_at store key until n" "now < until"
    and "\<forall>r \<in> set rs. rate_key (fst r) u (now div snd (snd r)) = key \<longrightarrow> until \<le> now + snd (snd r)"
  shows "\<exists>m \<ge> n. counter_at (snd (rate_loop now u rs store)) key until m"
  using assms
proof (induction rs arbitrary: store n)
  case (Cons r rs)
  obtain kind cap w where r: "r = (kind, cap, w)" by (cases r)
  let ?s = "incrementInMemory now (rate_key kind u (now div w)) w store"
  have "\<exists>m \<ge> n. counter_at (snd ?s) key until m"
  proof (cases "rate_key kind u (now div w) = key")
    case True
    with Cons.prems counter_hit(2) [of store key until n now w] show ?thesis by (auto simp: r intro: exI [of _ "Suc n"])
  next
    case False
    with counter_other [OF Cons.prems(1,2)] show ?thesis by blast
  qed
  then obtain m where m: "n \<le> m" "counter_at (snd ?s) key until m" by blast
  have "\<exists>l \<ge> n. counter_at (snd (rate_loop now u rs (snd ?s))) key until l"
    using Cons.IH [OF m(2) Cons.prems(2)] Cons.prems(3) m(1) by (auto intro: le_trans)
  moreover have "\<exists>l \<ge> n. counter_at (snd (rate_loop now u rs store)) key until l"
    using Cons.IH [OF Cons.prems(1,2)] Cons.prems(3) by auto
  ultimately show ?case using m by (auto simp: r Let_def split: option.split)
qed auto

text \<open>A request that passes all windows has been counted in each of them.\<close>

lemma rate_loop_hit:
  assumes "counter_at store (rate_key k u i) until n" "now < until" "until \<le> now + w" "now div w = i"
    and "(k, Some c, w) \<in> set rs" "distinct (map fst rs)" "\<forall>r \<in> set rs. CHR '':'' \<notin> set (fst r)" "c \<noteq> - 1"
    and "fst (rate_loop now u rs store) = None"
  shows "counter_at (snd (rate_loop now u rs store)) (rate_key k u i) until (Suc n) \<and> of_nat (Suc n) \<le> c"
  using assms
proof (induction rs arbitrary: store)
  case (Cons r rs)
  obtain kind cap v where r: "r = (kind, cap, v)" by (cases r)
  show ?case
  proof (cases "kind = k")
    case True
    with Cons.prems have c: "cap = Some c" "v = w" by (force simp: r)+
    let ?s = "incrementInMemory now (rate_key k u i) w store"
    have h: "fst ?s = Suc n" "counter_at (snd ?s) (rate_key k u i) until (Suc n)"
      using counter_hit [OF Cons.prems(1-3)] by simp_all
    have le: "of_nat (Suc n) \<le> c"
      using Cons.prems(4,8,9) h(1) by (auto simp: r True c Let_def not_less simp del: of_nat_Suc split: if_splits)
    have "snd (rate_loop now u (r # rs) store) = snd (rate_loop now u rs (snd ?s))"
      using Cons.prems(4,8) h(1) le by (simp add: r True c Let_def not_less del: of_nat_Suc)
    moreover have "\<forall>q \<in> set rs. rate_key (fst q) u (now div snd (snd q)) \<noteq> rate_key k u i"
    proof
      fix q assume "q \<in> set rs"
      with Cons.prems(6,7) have "fst q \<noteq> k" "CHR '':'' \<notin> set (fst q)" "CHR '':'' \<notin> set k" by (auto simp: r True)
      then show "rate_key (fst q) u (now div snd (snd q)) \<noteq> rate_key k u i" using rate_key_inj by blast
    qed
    ultimately show ?thesis using rate_loop_other [OF h(2) Cons.prems(2)] le by simp
  next
    case False
    with Cons.prems have m: "(k, Some c, w) \<in> set rs" "distinct (map fst rs)" "\<forall>q \<in> set rs. CHR '':'' \<notin> set (fst q)" by (auto simp: r)
    let ?s = "incrementInMemory now (rate_key kind u (now div v)) v store"
    have "rate_key kind u (now div v) \<noteq> rate_key k u i"
      using rate_key_inj [of kind u "now div v" k u i] False Cons.prems(5,7) by (auto simp: r)
    then have o: "counter_at (snd ?s) (rate_key k u i) until n" by (rule counter_other [OF Cons.prems(1,2)])
    show ?thesis
      using Cons.IH [OF o Cons.prems(2-4) m Cons.prems(8)] Cons.IH [OF Cons.prems(1-4) m Cons.prems(8)] Cons.prems(9)
      by (auto simp: r Let_def split: option.splits if_splits)
  qed
qed simp

lemma rate_limits_shape: "distinct (map fst (rate_limits ls))" "\<forall>r \<in> set (rate_limits ls). CHR '':'' \<notin> set (fst r) \<and> 0 < snd (snd r)"
  by (simp_all add: rate_limits_def)

text \<open>A run of requests, each at its time, of its tenant and under that tenant's limits, against one store.\<close>

type_synonym rate_request = "nat \<times> string \<times> (string \<times> rat) list"

fun rate_run :: "rate_request list \<Rightarrow> rate_store \<Rightarrow> (nat \<times> string \<times> bool) list" where
  "rate_run [] store = []"
| "rate_run ((now, u, ls) # qs) store =
     (let r = checkRateLimit now u ls store in (now, u, fst r = None) # rate_run qs (snd r))"

definition admitted :: "string \<Rightarrow> nat \<Rightarrow> nat \<Rightarrow> (nat \<times> string \<times> bool) list \<Rightarrow> nat" where
  "admitted t w i out = length (filter (\<lambda>(now, u, ok). ok \<and> u = t \<and> now div w = i) out)"

lemma admitted_later:
  assumes "\<forall>q \<in> set qs. Suc i * w \<le> fst q" "0 < w" shows "admitted t w i (rate_run qs store) = 0"
  using assms
proof (induction qs arbitrary: store)
  case (Cons q qs)
  obtain now u ls where q: "q = (now, u, ls)" by (cases q)
  have "now div w \<noteq> i" using Cons.prems by (auto simp: q div_nat_eqI dest: div_le_mono [of _ _ w])
  with Cons show ?case by (simp add: q admitted_def Let_def)
qed (simp add: admitted_def)

lemma rate_run_bound:
  assumes "counter_at store (rate_key k t i) (Suc i * w) m" "n \<le> m" "of_nat n \<le> c" "c \<noteq> - 1" "0 < w"
    and "sorted (map fst qs)" "\<forall>q \<in> set qs. fst (snd q) = t \<longrightarrow> (k, Some c, w) \<in> set (rate_limits (snd (snd q)))" "CHR '':'' \<notin> set k"
  shows "of_nat (n + admitted t w i (rate_run qs store)) \<le> c"
  using assms
proof (induction qs arbitrary: store m n)
  case Nil
  then show ?case by (simp add: admitted_def)
next
  case (Cons q qs)
  obtain now u ls where q: "q = (now, u, ls)" by (cases q)
  let ?key = "rate_key k t i" and ?until = "Suc i * w"
  let ?r = "rate_loop now u (rate_limits ls) store"
  have rest: "sorted (map fst qs)" "\<forall>p \<in> set qs. fst (snd p) = t \<longrightarrow> (k, Some c, w) \<in> set (rate_limits (snd (snd p)))"
    using Cons.prems(6,7) by auto
  have lim: "u = t \<Longrightarrow> (k, Some c, w) \<in> set (rate_limits ls)" using Cons.prems(7) by (simp add: q)
  have win: "?until \<le> now + w" if "now div w = i" using that div_times_less_eq_dividend [of now w] by (auto simp: add.commute mult.commute)
  show ?case
  proof (cases "now < ?until")
    case False
    then have "\<forall>p \<in> set (q # qs). ?until \<le> fst p" using Cons.prems(6) by (auto simp: q not_less intro: order_trans)
    then show ?thesis using admitted_later Cons.prems(3,5) by simp
  next
    case now: True
    show ?thesis
    proof (cases "u = t \<and> now div w = i \<and> fst ?r = None")
      case True
      have h: "counter_at (snd ?r) ?key ?until (Suc m) \<and> of_nat (Suc m) \<le> c"
        using rate_loop_hit [of store k t i ?until m now w c "rate_limits ls"] Cons.prems(1,4) now win lim True rate_limits_shape by auto
      then have "(of_nat (Suc n) :: rat) \<le> c" using Cons.prems(2) by (metis (mono_tags) Suc_le_mono of_nat_le_iff order_trans)
      then have "of_nat (Suc n + admitted t w i (rate_run qs (snd ?r))) \<le> c"
        using Cons.IH [of "snd ?r" "Suc m" "Suc n"] Cons.prems(2,4,5,8) rest h by auto
      then show ?thesis using True by (simp add: q admitted_def Let_def checkRateLimit_def)
    next
      case False
      have "\<forall>r \<in> set (rate_limits ls). rate_key (fst r) u (now div snd (snd r)) = ?key \<longrightarrow> ?until \<le> now + snd (snd r)"
      proof (intro ballI impI)
        fix r assume r: "r \<in> set (rate_limits ls)" "rate_key (fst r) u (now div snd (snd r)) = ?key"
        then have e: "fst r = k" "u = t" "now div snd (snd r) = i"
          using rate_key_inj [OF r(2)] rate_limits_shape(2) Cons.prems(8) by blast+
        have "snd (snd r) = w"
          using eq_key_imp_eq_value [OF rate_limits_shape(1), of k "snd r" ls "(Some c, w)"] r(1) lim e by (metis prod.collapse snd_conv)
        then show "?until \<le> now + snd (snd r)" using win e by simp
      qed
      then obtain m' where m': "m \<le> m'" "counter_at (snd ?r) ?key ?until m'"
        using rate_loop_grows [OF Cons.prems(1) now] by blast
      then have "of_nat (n + admitted t w i (rate_run qs (snd ?r))) \<le> c"
        using Cons.IH [of "snd ?r" m' n] Cons.prems(2-5,8) rest by auto
      then show ?thesis using False by (auto simp: q admitted_def Let_def checkRateLimit_def)
    qed
  qed
qed

text \<open>
  C18: over any run of requests of all tenants in order of time, starting with the empty store, a tenant under a
  limit of \<open>c\<close> per window gets at most \<open>c\<close> requests through in any one window, whatever the other
  tenants send and however often the store is swept.
\<close>

theorem requests_within_rate:
  assumes "sorted (map fst qs)" "\<forall>q \<in> set qs. fst (snd q) = t \<longrightarrow> (k, Some c, w) \<in> set (rate_limits (snd (snd q)))"
    and "k \<in> {''min'', ''hour'', ''day'', ''month''}" "0 < w" "0 \<le> c"
  shows "of_nat (admitted t w i (rate_run qs [])) \<le> c"
  using rate_run_bound [of "[]" k t i w 0 0 c qs] assms by (auto simp: counter_at_def)

definition burst :: "rate_request list" where
  "burst = [(1, ''a'', [(''rate_limit_per_min'', 1)]), (2, ''b'', []), (3, ''a'', [(''rate_limit_per_min'', 1)]),
            (60001, ''a'', [(''rate_limit_per_min'', 1)])]"

lemma requests_within_rate_witness:
  "(of_nat (admitted ''a'' 60000 0 (rate_run burst [])) :: rat) \<le> 1 \<and> admitted ''a'' 60000 0 (rate_run burst []) = 1"
proof
  show "(of_nat (admitted ''a'' 60000 0 (rate_run burst [])) :: rat) \<le> 1"
    by (rule requests_within_rate [where k = "''min''"]) (simp_all add: burst_def rate_limits_def)
  show "admitted ''a'' 60000 0 (rate_run burst []) = 1" by code_simp
qed

end
