(* ===== verification/ApiTokens.thy ===== *)
theory ApiTokens
  imports LicenceLimits
begin

text \<open>
  Who may call the interface: developer tokens (\<open>modules/auth/api-token.service.ts\<close>), the security middleware and
  the order of the middleware of \<open>index.ts\<close>, \<open>middleware/astOnly.middleware.ts\<close> and the access levels of
  \<open>middleware/tenantAccess.middleware.ts\<close>. The hash of a secret, the random bytes, the reading of a UUID by the
  database and the verification of a session token are parameters; times are milliseconds.
\<close>

section \<open>The scope of a request\<close>

definition path_under :: "string \<Rightarrow> string \<Rightarrow> bool" where
  "path_under p path \<longleftrightarrow> starts_with path p \<and> (case drop (length p) path of [] \<Rightarrow> True | c # _ \<Rightarrow> c = CHR ''/'')"

definition path_ends :: "string \<Rightarrow> string \<Rightarrow> bool" where
  "path_ends path s \<longleftrightarrow> starts_with (rev path) (rev s)"

text \<open>\<open>String(body.queryConfig?.type ?? body.config?.type ?? body.type ?? 'SELECT').toUpperCase()\<close>\<close>

definition scope_type :: "jsval \<Rightarrow> string" where
  "scope_type body =
     (if is_obj body \<or> is_arr body
      then js_upper (js_string (coalesce (js_get ''type'' (js_get ''queryConfig'' body))
             (coalesce (js_get ''type'' (js_get ''config'' body)) (coalesce (js_get ''type'' body) (JStr ''SELECT'')))))
      else ''SELECT'')"

definition requiredScope :: "string \<Rightarrow> string \<Rightarrow> jsval \<Rightarrow> string option" where
  "requiredScope verb path body =
     (let read = (verb = ''GET'' \<or> verb = ''HEAD'') in
      if list_ex (\<lambda>p. path_under p path) [''/api/queries'', ''/api/analytics'', ''/api/saved-analytics'', ''/api/query-logs'']
      then (if path_ends path ''/refresh-view'' then Some ''data:write''
            else if scope_type body = ''SELECT'' \<or> path_ends path ''/transpile'' then Some ''query:read'' else Some ''data:write'')
      else if path_under ''/api/data'' path then (if read \<or> path = ''/api/data/fetch'' then Some ''data:read'' else Some ''data:write'')
      else if path_under ''/api/metadata'' path then (if read \<or> path = ''/api/metadata/diff'' then Some ''metadata:read'' else Some ''metadata:write'')
      else if path_under ''/api/triggers'' path then (if read then Some ''triggers:read'' else Some ''triggers:write'')
      else None)"

section \<open>Tokens\<close>

record token_row =
  tr_id :: string
  tr_tenant :: string
  tr_user :: string
  tr_username :: string
  tr_name :: string
  tr_prefix :: string
  tr_hash :: string
  tr_scopes :: "string list"
  tr_expires :: nat
  tr_revoked :: "nat option"
  tr_used :: "nat option"

text \<open>The rows of \<open>api_tokens\<close> and the map \<open>lastTouch\<close>.\<close>

record token_state =
  to_rows :: "token_row list"
  to_touch :: "(string \<times> nat) list"

text \<open>What one call reads besides the tokens: the hash, the settings of the platform's environment, the database
  of the settings, and the limits of a workspace, an error when they cannot be read.\<close>

record token_env =
  te_hash :: "string \<Rightarrow> string"
  te_uuid :: "string \<Rightarrow> string option"
  te_env :: "string option \<times> string option"

record token_world =
  tw_db :: settings_db
  tw_limits :: "string \<Rightarrow> effective res"

text \<open>\<open>/^dft_([a-z0-9]{8})_([A-Za-z0-9_-]{43})$/\<close>\<close>

definition parse_token :: "string \<Rightarrow> (string \<times> string) option" where
  "parse_token s =
     (if length s = 56 \<and> take 4 s = ''dft_'' \<and> list_all (\<lambda>c. is_lower_chr c \<or> is_digit c) (take 8 (drop 4 s))
         \<and> s ! 12 = CHR ''_'' \<and> list_all (\<lambda>c. is_word_chr c \<or> c = CHR ''-'') (drop 13 s)
      then Some (take 8 (drop 4 s), drop 13 s) else None)"

definition token_owner :: "app_user \<Rightarrow> string" where
  "token_owner u = js_string (coalesce (au_id u) (au_username u))"

definition live :: "nat \<Rightarrow> token_row \<Rightarrow> bool" where
  "live now r \<longleftrightarrow> tr_revoked r = None \<and> now < tr_expires r"

text \<open>\<open>Math.min(365, sys.maxTokenDays, wsApi.maxTokenDays)\<close>; \<open>None\<close> is NaN.\<close>

definition max_token_days :: "kvs \<Rightarrow> (string \<times> kvs) list \<Rightarrow> rat option" where
  "max_token_days sys ws =
     (case js_number (js_get ''maxTokenDays'' (JObj sys)) of
        None \<Rightarrow> None
      | Some s \<Rightarrow> Some (min (min 365 s) (case setting_of ws ''api'' ''maxTokenDays'' of JNum q \<Rightarrow> q | _ \<Rightarrow> 365)))"

definition token_days :: "rat option \<Rightarrow> jsval \<Rightarrow> nat res" where
  "token_days maxd v =
     (let d = (if v = JUndef then map_option (min 90) maxd else (case v of JNum q \<Rightarrow> Some q | _ \<Rightarrow> None)) in
      case d of
        Some q \<Rightarrow> if is_int_rat q \<and> 1 \<le> q \<and> (case maxd of Some m \<Rightarrow> q \<le> m | None \<Rightarrow> True)
                   then Inr (nat \<lfloor>q\<rfloor>) else Inl (Err 400 ''INVALID_TOKEN'')
      | None \<Rightarrow> Inl (Err 400 ''INVALID_TOKEN''))"

definition token_name :: "jsval \<Rightarrow> string res" where
  "token_name v = (let n = (case v of JStr s \<Rightarrow> js_trim s | _ \<Rightarrow> []) in
     if n = [] \<or> length n > 100 then Inl (Err 400 ''INVALID_TOKEN'') else Inr n)"

definition token_scopes :: "jsval \<Rightarrow> string list res" where
  "token_scopes v = (let ss = js_dedup (arr_of v) in
     if ss = [] \<or> list_ex (\<lambda>x. \<not> (is_str x \<and> str_of x \<in> set TOKEN_SCOPES)) ss
     then Inl (Err 400 ''INVALID_SCOPE'') else Inr (map str_of ss))"

definition allowed_scopes :: "(string \<times> kvs) list \<Rightarrow> jsval list" where
  "allowed_scopes ws = (case setting_of ws ''api'' ''allowedScopes'' of JArr xs \<Rightarrow> xs | _ \<Rightarrow> map JStr TOKEN_SCOPES)"

definition day_millis :: nat where "day_millis = 86400000"

record created =
  cr_id :: string
  cr_token :: string
  cr_scopes :: "string list"
  cr_expires :: nat

definition token_text :: "string \<Rightarrow> string \<Rightarrow> string" where
  "token_text prefix secret = ''dft_'' @ prefix @ ''_'' @ secret"

text \<open>The part of \<open>create\<close> after the policy has been read; \<open>rnd\<close> is the id, the prefix and the secret.\<close>

definition create_row ::
  "token_env \<Rightarrow> nat \<Rightarrow> string \<times> string \<times> string \<Rightarrow> app_user \<Rightarrow> jsval \<Rightarrow> effective \<Rightarrow> (string \<times> kvs) list \<Rightarrow> kvs \<Rightarrow> bool \<Rightarrow> token_state \<Rightarrow> created res \<times> token_state" where
  "create_row E now rnd u input eff ws sys up st =
     (case bindR (token_name (js_get ''name'' input)) (\<lambda>name.
           bindR (token_scopes (js_get ''scopes'' input)) (\<lambda>scopes.
           bindR (token_days (max_token_days sys ws) (js_get ''expiresInDays'' input)) (\<lambda>days.
           bindR (unlessR (list_all (\<lambda>s. JStr s \<in> set (allowed_scopes ws)) scopes) (Err 403 ''SCOPE_NOT_ALLOWED'')) (\<lambda>_.
           let active = length (filter (\<lambda>r. tr_user r = token_owner u \<and> live now r) (to_rows st)) in
           bindR (unlessR up queryFailed) (\<lambda>_.
           bindR (unlessR (\<not> active \<ge> 25) (Err 409 ''TOKEN_LIMIT'')) (\<lambda>_.
           bindR (assertWithin eff ''max_api_tokens_per_user'' (of_nat active)) (\<lambda>_. Inr (name, scopes, days)))))))) of
        Inl e \<Rightarrow> (Inl e, st)
      | Inr (name, scopes, days) \<Rightarrow>
          (case rnd of (i, prefix, secret) \<Rightarrow>
             if list_ex (\<lambda>r. tr_id r = i \<or> tr_prefix r = prefix) (to_rows st) then (Inl queryFailed, st)
             else (let until = now + days * day_millis;
                       row = \<lparr>tr_id = i, tr_tenant = js_string (au_tenant u), tr_user = token_owner u,
                              tr_username = js_string (if truthy (au_username u) then au_username u else JStr ''unknown''), tr_name = name,
                              tr_prefix = prefix, tr_hash = te_hash E secret, tr_scopes = scopes, tr_expires = until, tr_revoked = None, tr_used = None\<rparr>
                   in (Inr \<lparr>cr_id = i, cr_token = token_text prefix secret, cr_scopes = scopes, cr_expires = until\<rparr>,
                       st\<lparr>to_rows := to_rows st @ [row]\<rparr>))))"

definition create_token ::
  "token_env \<Rightarrow> nat \<Rightarrow> string \<times> string \<times> string \<Rightarrow> app_user \<Rightarrow> jsval \<Rightarrow> token_world \<Rightarrow> token_state \<Rightarrow> settings_cache \<Rightarrow> created res \<times> token_state \<times> settings_cache" where
  "create_token E now rnd u input W st c =
     (if au_auth u = JStr ''api_token'' then (Inl (Err 403 ''TOKEN_FROM_TOKEN''), st, c)
      else if \<not> truthy (au_tenant u) then (Inl (Err 400 ''TENANT_REQUIRED''), st, c)
      else (let t = js_string (au_tenant u) in
        case bindR (tw_limits W t) (\<lambda>eff. bindR (assertFeature eff ''developer_tokens_enabled'') (\<lambda>_. Inr eff)) of
          Inl e \<Rightarrow> (Inl e, st, c)
        | Inr eff \<Rightarrow>
            (case workspace_get now t (tw_db W) c of
               (Inl e, c1) \<Rightarrow> (Inl e, st, c1)
             | (Inr ws, c1) \<Rightarrow>
                 if setting_of ws ''api'' ''allowDeveloperTokens'' = JBool False then (Inl (Err 403 ''TOKENS_DISABLED''), st, c1)
                 else (case system_get (te_env E) now (tw_db W) c1 of
                   (sys, c2) \<Rightarrow> (case create_row E now rnd u input eff ws sys (sd_up (tw_db W)) st of (r, st') \<Rightarrow> (r, st', c2))))))"

definition list_tokens :: "app_user \<Rightarrow> token_state \<Rightarrow> token_row list" where
  "list_tokens u st = rev (filter (\<lambda>r. tr_user r = token_owner u \<and> \<not> nullish (au_tenant u) \<and> tr_tenant r = js_string (au_tenant u)) (to_rows st))"

definition id_shape :: "string \<Rightarrow> bool" where
  "id_shape s \<longleftrightarrow> length s = 36 \<and> list_all (\<lambda>c. is_hex (lower_chr c) \<or> c = CHR ''-'') s"

definition revoke_token :: "token_env \<Rightarrow> nat \<Rightarrow> app_user \<Rightarrow> string \<Rightarrow> bool \<Rightarrow> token_state \<Rightarrow> unit res \<times> token_state" where
  "revoke_token E now u i up st =
     (if \<not> id_shape i then (Inl (Err 404 ''TOKEN_NOT_FOUND''), st)
      else (case (if up then te_uuid E i else None) of
        None \<Rightarrow> (Inl queryFailed, st)
      | Some key \<Rightarrow>
          if list_ex (\<lambda>r. tr_id r = key \<and> tr_user r = token_owner u) (to_rows st)
          then (Inr (), st\<lparr>to_rows := map (\<lambda>r. if tr_id r = key \<and> tr_user r = token_owner u
                   then r\<lparr>tr_revoked := Some (case tr_revoked r of Some t \<Rightarrow> t | None \<Rightarrow> now)\<rparr> else r) (to_rows st)\<rparr>)
          else (Inl (Err 404 ''TOKEN_NOT_FOUND''), st)))"

section \<open>Authentication\<close>

record api_user =
  ap_user :: app_user
  ap_token :: string
  ap_scopes :: "string list"

definition user_of_row :: "token_row \<Rightarrow> api_user" where
  "user_of_row r = \<lparr>ap_user = \<lparr>au_id = JStr (tr_user r), au_role = JStr ''USER'', au_auth = JStr ''api_token'', au_tenant = JStr (tr_tenant r), au_username = JStr (tr_username r)\<rparr>,
     ap_token = tr_id r, ap_scopes = tr_scopes r\<rparr>"

definition row_suspended :: "settings_db \<Rightarrow> token_row \<Rightarrow> bool" where
  "row_suspended db r \<longleftrightarrow> (case kv_get (tr_tenant r) (sd_workspaces db) of
     Some w \<Rightarrow> truthy (wr_status w) \<and> js_upper (js_string (wr_status w)) = ''SUSPENDED'' | None \<Rightarrow> False)"

definition find_row :: "token_env \<Rightarrow> string \<Rightarrow> token_state \<Rightarrow> token_row res" where
  "find_row E presented st =
     (case parse_token (js_trim presented) of
        None \<Rightarrow> Inl (Err 401 ''INVALID_TOKEN'')
      | Some (prefix, secret) \<Rightarrow>
          (case List.find (\<lambda>r. tr_prefix r = prefix) (to_rows st) of
             None \<Rightarrow> Inl (Err 401 ''INVALID_TOKEN'')
           | Some r \<Rightarrow> if te_hash E secret = tr_hash r then Inr r else Inl (Err 401 ''INVALID_TOKEN'')))"

definition row_checks :: "nat \<Rightarrow> token_world \<Rightarrow> token_row \<Rightarrow> unit res" where
  "row_checks now W r =
     bindR (unlessR (tr_revoked r = None) (Err 401 ''TOKEN_REVOKED'')) (\<lambda>_.
     bindR (unlessR (\<not> tr_expires r \<le> now) (Err 401 ''TOKEN_EXPIRED'')) (\<lambda>_.
     bindR (unlessR (\<not> row_suspended (tw_db W) r) (Err 403 ''TENANT_SUSPENDED'')) (\<lambda>_.
     bindR (tw_limits W (tr_tenant r)) (\<lambda>eff. assertFeature eff ''developer_tokens_enabled''))))"

definition touch_row :: "nat \<Rightarrow> token_row \<Rightarrow> token_state \<Rightarrow> token_state" where
  "touch_row now r st =
     (if now - (case kv_get (tr_id r) (to_touch st) of Some t \<Rightarrow> t | None \<Rightarrow> 0) > 60000
      then \<lparr>to_rows = map (\<lambda>q. if tr_id q = tr_id r then q\<lparr>tr_used := Some now\<rparr> else q) (to_rows st), to_touch = kv_set (tr_id r) now (to_touch st)\<rparr>
      else st)"

definition authenticate ::
  "token_env \<Rightarrow> nat \<Rightarrow> string \<Rightarrow> token_world \<Rightarrow> token_state \<Rightarrow> settings_cache \<Rightarrow> api_user res \<times> token_state \<times> settings_cache" where
  "authenticate E now presented W st c =
     (if parse_token (js_trim presented) \<noteq> None \<and> \<not> sd_up (tw_db W) then (Inl queryFailed, st, c)
      else (case bindR (find_row E presented st) (\<lambda>r. bindR (row_checks now W r) (\<lambda>_. Inr r)) of
        Inl e \<Rightarrow> (Inl e, st, c)
      | Inr r \<Rightarrow>
          (case workspace_get now (tr_tenant r) (tw_db W) c of
             (Inl e, c') \<Rightarrow> (Inl e, st, c')
           | (Inr ws, c') \<Rightarrow>
               if setting_of ws ''api'' ''allowDeveloperTokens'' = JBool False then (Inl (Err 403 ''TOKENS_DISABLED''), st, c')
               else (Inr (user_of_row r), touch_row now r st, c'))))"

section \<open>The middleware\<close>

text \<open>\<open>astOnly\<close>: no key that names SQL text in the body, its \<open>config\<close>, its \<open>queryConfig\<close> or the \<open>query\<close> of one of
  them, and no \<open>query\<close> that is a string.\<close>

definition FORBIDDEN_KEYS :: "string list" where
  "FORBIDDEN_KEYS = [''sql'', ''rawsql'', ''nativesql'', ''rawquery'', ''native'']"

definition hasForbiddenKey :: "jsval \<Rightarrow> bool" where
  "hasForbiddenKey v = (case v of JObj kvs \<Rightarrow> list_ex (\<lambda>kv. js_lower (fst kv) \<in> set FORBIDDEN_KEYS) kvs | _ \<Rightarrow> False)"

definition astOnly :: "jsval \<Rightarrow> bool" where
  "astOnly body =
     (if is_obj body \<or> is_arr body
      then (let part = (\<lambda>k. let v = js_get k body in if is_obj v \<or> is_arr v then v else JUndef);
                tops = [body, part ''config'', part ''queryConfig'']; queries = map (js_get ''query'') tops in
            \<not> (list_ex is_str queries \<or> list_ex hasForbiddenKey (tops @ queries)))
      else True)"

definition isWorkspaceOwner :: "limits_db \<Rightarrow> app_user option \<Rightarrow> jsval \<Rightarrow> bool" where
  "isWorkspaceOwner db user t =
     (case user of
        None \<Rightarrow> False
      | Some u \<Rightarrow> au_auth u \<noteq> JStr ''api_token'' \<and> truthy t \<and> truthy (au_id u)
          \<and> list_ex (\<lambda>r. lt_id r = js_string t \<and> lt_user r = Some (js_string (au_id u))) (ld_tenants db))"

definition requirePlatformAdmin :: "app_user option \<Rightarrow> gate" where
  "requirePlatformAdmin user =
     (if user = None then GAnswer 401 ''UNAUTHENTICATED'' else if isPlatformAdmin user then GNext else GAnswer 403 ''FORBIDDEN'')"

text \<open>\<open>None\<close> for a database that cannot be read.\<close>

definition requireWorkspaceAdmin :: "limits_db option \<Rightarrow> app_user option \<Rightarrow> gate" where
  "requireWorkspaceAdmin db user =
     (case user of
        None \<Rightarrow> GAnswer 401 ''UNAUTHENTICATED''
      | Some u \<Rightarrow>
          if isPlatformAdmin user then GNext
          else if au_auth u = JStr ''api_token'' \<or> \<not> truthy (au_tenant u) \<or> \<not> truthy (au_id u) then GAnswer 403 ''WORKSPACE_ADMIN_REQUIRED''
          else (case db of
            None \<Rightarrow> GAnswer 500 ''INTERNAL''
          | Some d \<Rightarrow> if isWorkspaceOwner d user (au_tenant u) then GNext else GAnswer 403 ''WORKSPACE_ADMIN_REQUIRED''))"

record request =
  rq_verb :: string
  rq_path :: string
  rq_body :: jsval
  rq_ip :: "string option"
  rq_auth :: "string option"
  rq_key :: "string option"
  rq_tenant :: "string option"

text \<open>\<open>authHeader.split(' ')[1]\<close>\<close>

definition bearer_of :: "request \<Rightarrow> string option" where
  "bearer_of rq = (case rq_auth rq of None \<Rightarrow> None
     | Some h \<Rightarrow> (case split_chr CHR '' '' h of _ # b # _ \<Rightarrow> Some b | _ \<Rightarrow> None))"

definition presented_token :: "request \<Rightarrow> string option" where
  "presented_token rq =
     (case rq_key rq of
        Some k \<Rightarrow> Some k
      | None \<Rightarrow> (case bearer_of rq of Some b \<Rightarrow> if starts_with b ''dft_'' then Some b else None | None \<Rightarrow> None))"

datatype auth_out = Authed "app_user option" | Refused nat string

definition refuse_with :: "js_err \<Rightarrow> auth_out" where
  "refuse_with e = (if err_status e = 500 then Refused 500 ''INTERNAL'' else Refused (err_status e) (err_code e))"

definition session_user :: "(string \<Rightarrow> app_user option) \<Rightarrow> request \<Rightarrow> app_user option" where
  "session_user jwt rq =
     (case bearer_of rq of
        None \<Rightarrow> None
      | Some b \<Rightarrow> if b = [] then None else map_option (\<lambda>u.
          case rq_tenant rq of
            Some t \<Rightarrow> if au_role u = JStr ''ADMIN'' \<and> t \<noteq> [] then u\<lparr>au_tenant := JStr t\<rparr> else u
          | None \<Rightarrow> u) (jwt b))"

definition auth_middleware ::
  "token_env \<Rightarrow> (string \<Rightarrow> app_user option) \<Rightarrow> nat \<Rightarrow> request \<Rightarrow> token_world \<Rightarrow> token_state \<Rightarrow> settings_cache \<Rightarrow> auth_out \<times> token_state \<times> settings_cache" where
  "auth_middleware E jwt now rq W st c =
     (case presented_token rq of
        Some (x # xs) \<Rightarrow>
          (case authenticate E now (x # xs) W st c of
             (Inl e, st', c') \<Rightarrow> (refuse_with e, st', c')
           | (Inr u, st', c') \<Rightarrow>
               (case requiredScope (rq_verb rq) (rq_path rq) (rq_body rq) of
                  None \<Rightarrow> (Refused 403 ''TOKEN_NOT_ALLOWED'', st', c')
                | Some sc \<Rightarrow> if sc \<notin> set (ap_scopes u) then (Refused 403 ''SCOPE_REQUIRED'', st', c')
                             else (Authed (Some (ap_user u)), st', c')))
      | _ \<Rightarrow> (Authed (session_user jwt rq), st, c))"

text \<open>
  The chain of a metered route, \<open>/api/queries\<close>, \<open>/api/analytics\<close>, \<open>/api/data\<close> and \<open>/api/saved-analytics\<close>: the
  security middleware, the guard (which sees the path behind \<open>/api\<close>), \<open>requireAuth\<close>, \<open>astOnly\<close> and the licensing
  middleware. \<open>Handle\<close> is the call of the handler for a user.
\<close>

record server_state =
  sv_tokens :: token_state
  sv_cache :: settings_cache
  sv_rates :: rate_store

datatype response = Handle app_user | Respond nat

definition metered ::
  "token_env \<Rightarrow> nat \<Rightarrow> request \<Rightarrow> app_user \<Rightarrow> token_world \<Rightarrow> server_state \<Rightarrow> response \<times> server_state" where
  "metered E now rq u W s =
     (if \<not> astOnly (rq_body rq) then (Respond 400, s)
      else (let eff = (case tw_limits W (js_string (au_tenant u)) of Inr e \<Rightarrow> Some e | Inl _ \<Rightarrow> None);
                r = licensingMiddleware now (Some u) eff (sv_rates s) in
            (case fst r of LPass \<Rightarrow> Handle u | LAnswer n \<Rightarrow> Respond n, s\<lparr>sv_rates := snd r\<rparr>)))"

definition serve ::
  "token_env \<Rightarrow> (string \<Rightarrow> app_user option) \<Rightarrow> nat \<Rightarrow> request \<Rightarrow> token_world \<Rightarrow> server_state \<Rightarrow> response \<times> server_state" where
  "serve E jwt now rq W s =
     (case auth_middleware E jwt now rq W (sv_tokens s) (sv_cache s) of
        (Refused n _, st, c) \<Rightarrow> (Respond n, s\<lparr>sv_tokens := st, sv_cache := c\<rparr>)
      | (Authed user, st, c) \<Rightarrow>
          (case workspaceGuard (te_env E) now user (drop 4 (rq_path rq)) (rq_ip rq) (tw_db W) c of
             (Answer n _, c') \<Rightarrow> (Respond n, s\<lparr>sv_tokens := st, sv_cache := c'\<rparr>)
           | (Pass _, c') \<Rightarrow>
               (let s' = s\<lparr>sv_tokens := st, sv_cache := c'\<rparr> in
                case user of None \<Rightarrow> (Respond 401, s') | Some u \<Rightarrow> metered E now rq u W s')))"

section \<open>What a token proves\<close>

text \<open>What was handed out by a call of \<open>create\<close>, kept beside the state for the statements.\<close>

record issued =
  is_token :: string
  is_id :: string
  is_owner :: string
  is_tenant :: string
  is_scopes :: "string list"
  is_until :: nat

definition issue :: "app_user \<Rightarrow> created \<Rightarrow> issued" where
  "issue u r = \<lparr>is_token = cr_token r, is_id = cr_id r, is_owner = token_owner u, is_tenant = js_string (au_tenant u),
     is_scopes = cr_scopes r, is_until = cr_expires r\<rparr>"

text \<open>
  The life of the tokens: calls of \<open>create\<close> (with random bytes of the documented shape), \<open>revoke\<close> and \<open>authenticate\<close>,
  in any order, by any caller, with any settings and limits, while time passes. The last two components
  are the tokens handed out and the ids that were revoked.
\<close>

definition random_shape :: "string \<times> string \<times> string \<Rightarrow> bool" where
  "random_shape rnd \<longleftrightarrow> (case rnd of (i, prefix, secret) \<Rightarrow>
     length prefix = 8 \<and> list_all is_hex prefix \<and> length secret = 43 \<and> list_all (\<lambda>c. is_word_chr c \<or> c = CHR ''-'') secret)"

inductive token_run :: "token_env \<Rightarrow> nat \<Rightarrow> token_state \<Rightarrow> issued list \<Rightarrow> string set \<Rightarrow> bool" for E where
  start: "token_run E now \<lparr>to_rows = [], to_touch = []\<rparr> [] {}"
| wait: "token_run E now st is dead \<Longrightarrow> now \<le> now' \<Longrightarrow> token_run E now' st is dead"
| create_ok: "token_run E now st is dead \<Longrightarrow> random_shape rnd \<Longrightarrow> create_token E now rnd u input W st c = (Inr r, st', c') \<Longrightarrow>
    token_run E now st' (issue u r # is) dead"
| create_fail: "token_run E now st is dead \<Longrightarrow> create_token E now rnd u input W st c = (Inl e, st', c') \<Longrightarrow> token_run E now st' is dead"
| revoke_ok: "token_run E now st is dead \<Longrightarrow> revoke_token E now u i up st = (Inr (), st') \<Longrightarrow> te_uuid E i = Some key \<Longrightarrow>
    token_run E now st' is (insert key dead)"
| revoke_fail: "token_run E now st is dead \<Longrightarrow> revoke_token E now u i up st = (Inl e, st') \<Longrightarrow> token_run E now st' is dead"
| auth: "token_run E now st is dead \<Longrightarrow> authenticate E now presented W st c = (r, st', c') \<Longrightarrow> token_run E now st' is dead"

text \<open>Every row was handed out as it stands, and a revoked id has no row that is not marked.\<close>

definition row_issued :: "token_env \<Rightarrow> issued list \<Rightarrow> token_row \<Rightarrow> bool" where
  "row_issued E is r \<longleftrightarrow> (\<exists>q \<in> set is. \<exists>secret. is_token q = token_text (tr_prefix r) secret \<and> parse_token (is_token q) = Some (tr_prefix r, secret)
     \<and> te_hash E secret = tr_hash r
     \<and> is_id q = tr_id r \<and> is_owner q = tr_user r \<and> is_tenant q = tr_tenant r \<and> is_scopes q = tr_scopes r \<and> is_until q = tr_expires r
     \<and> tr_scopes r \<noteq> [] \<and> set (tr_scopes r) \<subseteq> set TOKEN_SCOPES)"

definition tokens_ok :: "token_env \<Rightarrow> token_state \<Rightarrow> issued list \<Rightarrow> string set \<Rightarrow> bool" where
  "tokens_ok E st is dead \<longleftrightarrow> (\<forall>r \<in> set (to_rows st). row_issued E is r \<and> (tr_id r \<in> dead \<longrightarrow> tr_revoked r \<noteq> None))
     \<and> distinct (map tr_id (to_rows st)) \<and> dead \<subseteq> tr_id ` set (to_rows st)"

lemma parse_token_text:
  assumes "random_shape (i, prefix, secret)"
  shows "parse_token (token_text prefix secret) = Some (prefix, secret)"
proof -
  have h: "is_lower_chr c \<or> is_digit c" if "is_hex c" for c using that by (auto simp: js_chr)
  have "list_all (\<lambda>c. is_lower_chr c \<or> is_digit c) prefix"
    using assms h by (auto simp: random_shape_def list_all_iff)
  then show ?thesis using assms by (auto simp: parse_token_def token_text_def random_shape_def nth_append)
qed

lemma token_text_parse:
  assumes "parse_token s = Some (prefix, secret)" shows "s = token_text prefix secret"
proof -
  from assms have l: "length s = 56" and p: "take 4 s = ''dft_''" and e: "prefix = take 8 (drop 4 s)" "secret = drop 13 s" "s ! 12 = CHR ''_''"
    by (auto simp: parse_token_def split: if_splits)
  have "s = take 4 s @ take 8 (drop 4 s) @ drop 12 s"
    using append_take_drop_id [of 4 s] append_take_drop_id [of 8 "drop 4 s"] by (simp add: drop_drop)
  moreover have "drop 12 s = s ! 12 # drop 13 s" using l by (simp add: Cons_nth_drop_Suc [symmetric])
  ultimately show ?thesis using p e by (simp add: token_text_def)
qed

lemma token_scopes_ok:
  assumes "token_scopes v = Inr ss" shows "ss \<noteq> [] \<and> set ss \<subseteq> set TOKEN_SCOPES"
proof -
  have "ss = map str_of (js_dedup (arr_of v))" "js_dedup (arr_of v) \<noteq> []" "list_all (\<lambda>x. is_str x \<and> str_of x \<in> set TOKEN_SCOPES) (js_dedup (arr_of v))"
    using assms by (auto simp: token_scopes_def Let_def list_all_iff list_ex_iff split: if_splits)
  then show ?thesis by (auto simp: list_all_iff)
qed

lemma create_row_ok:
  assumes "create_row E now (i, prefix, secret) u input eff ws sys up st = (Inr r, st')"
  shows "\<exists>row. to_rows st' = to_rows st @ [row] \<and> to_touch st' = to_touch st \<and> tr_id row = i \<and> tr_prefix row = prefix \<and> tr_hash row = te_hash E secret
     \<and> tr_user row = token_owner u \<and> tr_tenant row = js_string (au_tenant u) \<and> tr_scopes row = cr_scopes r \<and> tr_expires row = cr_expires r
     \<and> tr_revoked row = None \<and> cr_scopes r \<noteq> [] \<and> set (cr_scopes r) \<subseteq> set TOKEN_SCOPES
     \<and> cr_token r = token_text prefix secret \<and> cr_id r = i \<and> \<not> list_ex (\<lambda>r. tr_id r = i \<or> tr_prefix r = prefix) (to_rows st)"
  using assms
  by (auto simp: create_row_def Let_def bindR_Inr split: sum.splits if_splits dest!: token_scopes_ok)

lemma create_token_row:
  assumes "create_token E now rnd u input W st c = (Inr r, st', c')"
  shows "\<exists>eff ws sys. create_row E now rnd u input eff ws sys (sd_up (tw_db W)) st = (Inr r, st')"
  using assms by (auto simp: create_token_def Let_def split: if_splits sum.splits prod.splits)

lemma create_token_error:
  assumes "create_token E now rnd u input W st c = (Inl e, st', c')" shows "st' = st"
  using assms by (auto simp: create_token_def create_row_def Let_def split: if_splits sum.splits prod.splits)

lemma row_issued_more: "row_issued E is r \<Longrightarrow> row_issued E (q # is) r"
  by (auto simp: row_issued_def)

lemma tokens_ok_create:
  assumes ok: "tokens_ok E st is dead" and shape: "random_shape rnd"
    and c: "create_token E now rnd u input W st c = (Inr r, st', c')"
  shows "tokens_ok E st' (issue u r # is) dead"
proof -
  obtain i prefix secret where rnd: "rnd = (i, prefix, secret)" by (cases rnd)
  obtain eff ws sys where "create_row E now (i, prefix, secret) u input eff ws sys (sd_up (tw_db W)) st = (Inr r, st')"
    using create_token_row [OF c] unfolding rnd by blast
  from create_row_ok [OF this] obtain row where row: "to_rows st' = to_rows st @ [row]" "tr_id row = i" "tr_prefix row = prefix"
    "tr_hash row = te_hash E secret" "tr_user row = token_owner u" "tr_tenant row = js_string (au_tenant u)" "tr_scopes row = cr_scopes r"
    "tr_expires row = cr_expires r" "cr_scopes r \<noteq> [] \<and> set (cr_scopes r) \<subseteq> set TOKEN_SCOPES"
    "cr_token r = token_text prefix secret" "cr_id r = i" "\<not> list_ex (\<lambda>r. tr_id r = i \<or> tr_prefix r = prefix) (to_rows st)"
    by (elim exE conjE) (rule that; simp)
  have "row_issued E (issue u r # is) row"
    unfolding row_issued_def using row shape [unfolded rnd, THEN parse_token_text]
    by (intro bexI [of _ "issue u r"] exI [of _ secret]) (auto simp: issue_def)
  moreover have "i \<notin> dead" using ok row(12) by (auto simp: tokens_ok_def list_ex_iff)
  ultimately show ?thesis
    using ok row(1,2,12) row_issued_more by (auto simp: tokens_ok_def list_ex_iff)
qed

lemma tokens_ok_update:
  assumes "tokens_ok E st is dead" "to_rows st' = map f (to_rows st)"
    and "\<And>r. r \<in> set (to_rows st) \<Longrightarrow> tr_id (f r) = tr_id r \<and> tr_tenant (f r) = tr_tenant r \<and> tr_user (f r) = tr_user r \<and> tr_prefix (f r) = tr_prefix r
      \<and> tr_hash (f r) = tr_hash r \<and> tr_scopes (f r) = tr_scopes r \<and> tr_expires (f r) = tr_expires r \<and> (tr_revoked r \<noteq> None \<longrightarrow> tr_revoked (f r) \<noteq> None)"
  shows "tokens_ok E st' is dead"
proof -
  have ids: "map tr_id (to_rows st') = map tr_id (to_rows st)" using assms(2,3) by auto
  have "tr_id ` set (to_rows st') = tr_id ` set (to_rows st)" using ids by (metis set_map)
  moreover have "row_issued E is (f r) \<and> (tr_id (f r) \<in> dead \<longrightarrow> tr_revoked (f r) \<noteq> None)" if "r \<in> set (to_rows st)" for r
    using assms(1) assms(3) [OF that] that by (simp add: tokens_ok_def row_issued_def)
  ultimately show ?thesis using assms(1,2) ids unfolding tokens_ok_def by (metis imageE list.set_map)
qed

lemma tokens_ok_revoke:
  assumes ok: "tokens_ok E st is dead" and r: "revoke_token E now u i up st = (Inr (), st')" and k: "te_uuid E i = Some key"
  shows "tokens_ok E st' is (insert key dead)"
proof -
  let ?f = "\<lambda>r. if tr_id r = key \<and> tr_user r = token_owner u then r\<lparr>tr_revoked := Some (case tr_revoked r of Some t \<Rightarrow> t | None \<Rightarrow> now)\<rparr> else r"
  from r k have rows: "to_rows st' = map ?f (to_rows st)" and ex: "\<exists>r \<in> set (to_rows st). tr_id r = key \<and> tr_user r = token_owner u"
    by (auto simp: revoke_token_def list_ex_iff split: if_splits option.splits)
  have old: "tokens_ok E st' is dead" by (rule tokens_ok_update [OF ok rows]) simp
  obtain q where q: "q \<in> set (to_rows st)" "tr_id q = key" "tr_user q = token_owner u" using ex by blast
  have "tr_revoked p \<noteq> None" if p: "p \<in> set (to_rows st')" "tr_id p = key" for p
  proof -
    obtain p0 where p0: "p0 \<in> set (to_rows st)" "p = ?f p0" using p(1) rows by auto
    then have "tr_id p0 = key" using p(2) by (simp split: if_splits)
    then have "p0 = q" using ok q p0(1) by (auto simp: tokens_ok_def distinct_map inj_on_def)
    then show ?thesis using p0 q by simp
  qed
  moreover have "\<exists>p \<in> set (to_rows st'). tr_id p = key" using q rows by (intro bexI [of _ "?f q"]) auto
  ultimately show ?thesis using old by (auto simp: tokens_ok_def)
qed

lemma tokens_ok_auth:
  assumes "tokens_ok E st is dead" "authenticate E now presented W st c = (r, st', c')"
  shows "tokens_ok E st' is dead"
proof -
  have "st' = st \<or> (\<exists>q. st' = touch_row now q st)"
    using assms(2) by (auto simp: authenticate_def split: if_splits sum.splits prod.splits)
  moreover have "tokens_ok E (touch_row now q st) is dead" for q
  proof (cases "st = touch_row now q st")
    case False
    then have "to_rows (touch_row now q st) = map (\<lambda>p. if tr_id p = tr_id q then p\<lparr>tr_used := Some now\<rparr> else p) (to_rows st)"
      by (auto simp: touch_row_def Let_def split: if_splits)
    from assms(1) this show ?thesis by (rule tokens_ok_update) simp
  qed (use assms(1) in simp)
  ultimately show ?thesis using assms(1) by blast
qed

lemma token_run_ok: "token_run E now st is dead \<Longrightarrow> tokens_ok E st is dead"
proof (induction rule: token_run.induct)
  case (start now)
  then show ?case by (simp add: tokens_ok_def)
next
  case (create_ok now st "is" dead rnd u input W c r st' c')
  from tokens_ok_create [OF create_ok.IH create_ok.hyps(2,3)] show ?case .
next
  case (create_fail now st "is" dead rnd u input W c e st' c')
  then show ?case using create_token_error by metis
next
  case (revoke_ok now st "is" dead u i up st' key)
  from tokens_ok_revoke [OF revoke_ok.IH revoke_ok.hyps(2,3)] show ?case .
next
  case (revoke_fail now st "is" dead u i up e st')
  then have "st' = st" by (auto simp: revoke_token_def split: if_splits option.splits)
  with revoke_fail show ?case by simp
next
  case (auth now st "is" dead presented W c r st' c')
  from tokens_ok_auth [OF auth.IH auth.hyps(2)] show ?case .
qed

lemma find_row_ok:
  assumes "find_row E presented st = Inr r"
  shows "r \<in> set (to_rows st) \<and> (\<exists>secret. js_trim presented = token_text (tr_prefix r) secret \<and> te_hash E secret = tr_hash r)"
proof -
  from assms obtain prefix secret where p: "parse_token (js_trim presented) = Some (prefix, secret)"
    and f: "List.find (\<lambda>r. tr_prefix r = prefix) (to_rows st) = Some r" and h: "te_hash E secret = tr_hash r"
    by (auto simp: find_row_def split: option.splits if_splits)
  from f have "r \<in> set (to_rows st)" "tr_prefix r = prefix" by (auto simp: find_Some_iff)
  with token_text_parse [OF p] h show ?thesis by blast
qed

lemma row_checks_ok:
  "row_checks now W r = Inr () \<Longrightarrow> tr_revoked r = None \<and> now < tr_expires r \<and> \<not> row_suspended (tw_db W) r"
  by (auto simp: row_checks_def unlessR_def split: if_splits)

lemma authenticate_ok:
  assumes "authenticate E now presented W st c = (Inr u, st', c')"
  shows "\<exists>r. find_row E presented st = Inr r \<and> row_checks now W r = Inr () \<and> u = user_of_row r \<and> c' = snd (workspace_get now (tr_tenant r) (tw_db W) c)"
  using assms by (auto simp: authenticate_def split: if_splits sum.splits prod.splits)

lemma token_authentic_core:
  assumes "token_run E now st is dead" "authenticate E now presented W st c = (Inr u, st', c')"
  shows "\<exists>q \<in> set is. \<exists>prefix secret given.
     is_token q = token_text prefix secret \<and> js_trim presented = token_text prefix given \<and> te_hash E given = te_hash E secret
     \<and> au_id (ap_user u) = JStr (is_owner q) \<and> au_tenant (ap_user u) = JStr (is_tenant q)
     \<and> ap_scopes u = is_scopes q \<and> set (ap_scopes u) \<subseteq> set TOKEN_SCOPES
     \<and> now < is_until q \<and> is_id q \<notin> dead \<and> \<not> isPlatformAdmin (Some (ap_user u))"
proof -
  from authenticate_ok [OF assms(2)] obtain r where f: "find_row E presented st = Inr r" and ch: "row_checks now W r = Inr ()" and u: "u = user_of_row r" by blast
  from find_row_ok [OF f] obtain given where r: "r \<in> set (to_rows st)" and g: "js_trim presented = token_text (tr_prefix r) given" "te_hash E given = tr_hash r" by blast
  from token_run_ok [OF assms(1)] r have ok: "row_issued E is r" "tr_id r \<in> dead \<longrightarrow> tr_revoked r \<noteq> None" by (auto simp: tokens_ok_def)
  from ok(1) obtain q secret where q: "q \<in> set is" "is_token q = token_text (tr_prefix r) secret" "te_hash E secret = tr_hash r"
    "is_id q = tr_id r" "is_owner q = tr_user r" "is_tenant q = tr_tenant r" "is_scopes q = tr_scopes r" "is_until q = tr_expires r" "set (tr_scopes r) \<subseteq> set TOKEN_SCOPES"
    unfolding row_issued_def by blast
  show ?thesis
    by (rule bexI [OF _ q(1)], rule exI [of _ "tr_prefix r"], rule exI [of _ secret], rule exI [of _ given])
      (use q(2-) g ok(2) row_checks_ok [OF ch] in \<open>simp add: u user_of_row_def isPlatformAdmin_def\<close>)
qed

text \<open>
  C16: whatever calls were made before, a presented token that authenticates was handed out by \<open>create\<close> to the user and
  for the workspace the request then acts for, with exactly the scopes the request has, its secret has
  the hash of the one handed out, it has not expired and was never revoked; and it does not carry the rights of a
  platform administrator.
\<close>

theorem token_authentic:
  assumes "token_run E now st is dead" "authenticate E now presented W st c = (Inr u, st', c')"
  shows "\<exists>q \<in> set is. \<exists>prefix secret given.
     is_token q = token_text prefix secret \<and> js_trim presented = token_text prefix given \<and> te_hash E given = te_hash E secret
     \<and> au_id (ap_user u) = JStr (is_owner q) \<and> au_tenant (ap_user u) = JStr (is_tenant q)
     \<and> ap_scopes u = is_scopes q \<and> set (ap_scopes u) \<subseteq> set TOKEN_SCOPES
     \<and> now < is_until q \<and> is_id q \<notin> dead \<and> \<not> isPlatformAdmin (Some (ap_user u))"
  by (rule token_authentic_core [OF assms])

text \<open>Creating, revoking and presenting one token.\<close>

definition plain_hash :: token_env where
  "plain_hash = \<lparr>te_hash = rev, te_uuid = (\<lambda>s. Some s), te_env = (None, None)\<rparr>"

definition open_limits :: effective where
  "open_limits = \<lparr>ef_plan = ''trial'', ef_source = PBuiltin, ef_limits = BUILTIN_TRIAL_LIMITS, ef_features = [], ef_started = 0, ef_ends = None, ef_expired = False, ef_days = 7\<rparr>"

definition acme_world :: token_world where
  "acme_world = \<lparr>tw_db = acme_db, tw_limits = (\<lambda>_. Inr open_limits)\<rparr>"

definition sample_random :: "string \<times> string \<times> string" where
  "sample_random = (''id1'', ''0a1b2c3d'', replicate 43 (CHR ''k''))"

definition ask :: jsval where
  "ask = JObj [(''name'', JStr ''ci''), (''scopes'', JArr [JStr ''query:read'']), (''expiresInDays'', JNum 1)]"

definition no_tokens :: token_state where
  "no_tokens = \<lparr>to_rows = [], to_touch = []\<rparr>"

definition sample_created :: created where
  "sample_created = \<lparr>cr_id = ''id1'', cr_token = token_text ''0a1b2c3d'' (replicate 43 (CHR ''k'')), cr_scopes = [''query:read''], cr_expires = 86400005\<rparr>"

lemma sample_create: "fst (create_token plain_hash 5 sample_random member_user ask acme_world no_tokens no_cache) = Inr sample_created"
  by code_simp

definition sample_state :: token_state where
  "sample_state = fst (snd (create_token plain_hash 5 sample_random member_user ask acme_world no_tokens no_cache))"

lemma sample_run: "token_run plain_hash 5 sample_state [issue member_user sample_created] {}"
proof -
  have "random_shape sample_random" by code_simp
  moreover have "create_token plain_hash 5 sample_random member_user ask acme_world no_tokens no_cache
      = (Inr sample_created, sample_state, snd (snd (create_token plain_hash 5 sample_random member_user ask acme_world no_tokens no_cache)))"
    using sample_create by (simp add: sample_state_def prod_eq_iff)
  ultimately show ?thesis
    using token_run.create_ok [OF token_run.start [of plain_hash 5, folded no_tokens_def]] by blast
qed

definition sample_api_user :: api_user where
  "sample_api_user = \<lparr>ap_user = \<lparr>au_id = JStr ''u1'', au_role = JStr ''USER'', au_auth = JStr ''api_token'', au_tenant = JStr ''acme'', au_username = JStr ''ann''\<rparr>,
     ap_token = ''id1'', ap_scopes = [''query:read'']\<rparr>"

lemma sample_authenticate: "fst (authenticate plain_hash 6 (cr_token sample_created) acme_world sample_state no_cache) = Inr sample_api_user"
  by code_simp

lemma token_authentic_witness:
  "\<exists>q \<in> set [issue member_user sample_created]. \<exists>prefix secret given.
     is_token q = token_text prefix secret \<and> js_trim (cr_token sample_created) = token_text prefix given \<and> te_hash plain_hash given = te_hash plain_hash secret
     \<and> au_id (ap_user sample_api_user) = JStr (is_owner q) \<and> au_tenant (ap_user sample_api_user) = JStr (is_tenant q)
     \<and> ap_scopes sample_api_user = is_scopes q \<and> set (ap_scopes sample_api_user) \<subseteq> set TOKEN_SCOPES
     \<and> 6 < is_until q \<and> is_id q \<notin> {} \<and> \<not> isPlatformAdmin (Some (ap_user sample_api_user))"
proof -
  let ?a = "authenticate plain_hash 6 (cr_token sample_created) acme_world sample_state no_cache"
  have "?a = (Inr sample_api_user, fst (snd ?a), snd (snd ?a))" using sample_authenticate by (simp add: prod_eq_iff)
  moreover have "token_run plain_hash 6 sample_state [issue member_user sample_created] {}" by (rule token_run.wait [OF sample_run]) simp
  ultimately show ?thesis by (intro token_authentic)
qed

section \<open>What reaches a handler\<close>

text \<open>The scope of a request is looked up in \<open>queryConfig\<close> before \<open>config\<close>, but \<open>/api/queries/engine\<close> executes \<open>config\<close>: with a
  decoy \<open>queryConfig\<close> a token that may only read passes a statement of any type.\<close>

lemma decoy_scope:
  "requiredScope ''POST'' ''/api/queries/engine''
     (JObj [(''queryConfig'', JObj [(''type'', JStr ''SELECT'')]), (''config'', JObj [(''type'', JStr ''DELETE'')])]) = Some ''query:read''"
  by code_simp

text \<open>Below \<open>/api/saved-analytics\<close> the method is not looked at: deleting a saved analytic needs the read scope.\<close>

lemma delete_saved_needs_read: "requiredScope ''DELETE'' ''/api/saved-analytics/7'' JUndef = Some ''query:read''"
  by code_simp

lemma authenticate_cache_read:
  assumes "cache_read env H now c" "authenticate E now presented W st c = (r, st', c')" "tw_db W = H now"
  shows "cache_read env H now c'"
proof -
  have "c' = c \<or> (\<exists>t. c' = snd (workspace_get now t (tw_db W) c))"
    using assms(2) by (auto simp: authenticate_def split: if_splits sum.splits prod.splits) (metis snd_conv)+
  then show ?thesis using assms workspace_get_read(1) by metis
qed

lemma serve_token:
  assumes "serve E jwt now rq W s = (Handle u, s')" "presented_token rq = Some k" "k \<noteq> []"
  shows "\<exists>v st c sc policy. authenticate E now k W (sv_tokens s) (sv_cache s) = (Inr v, st, c) \<and> u = ap_user v
     \<and> requiredScope (rq_verb rq) (rq_path rq) (rq_body rq) = Some sc \<and> sc \<in> set (ap_scopes v)
     \<and> fst (workspaceGuard (te_env E) now (Some u) (drop 4 (rq_path rq)) (rq_ip rq) (tw_db W) c) = Pass policy
     \<and> astOnly (rq_body rq) \<and> (\<exists>e. tw_limits W (js_string (au_tenant u)) = Inr e \<and> \<not> ef_expired e \<or> isPlatformAdmin (Some u))"
proof -
  obtain x xs where k: "k = x # xs" using assms(3) by (cases k) auto
  obtain st c where am: "auth_middleware E jwt now rq W (sv_tokens s) (sv_cache s) = (Authed (Some u), st, c)"
    using assms(1) by (auto simp: serve_def metered_def Let_def split: auth_out.splits prod.splits option.splits guard_out.splits licensing_out.splits if_splits)
  then have a: "\<exists>v sc. authenticate E now k W (sv_tokens s) (sv_cache s) = (Inr v, st, c) \<and> u = ap_user v
      \<and> requiredScope (rq_verb rq) (rq_path rq) (rq_body rq) = Some sc \<and> sc \<in> set (ap_scopes v)"
    using assms(2) by (auto simp: auth_middleware_def k refuse_with_def split: prod.splits sum.splits option.splits if_splits)
  obtain policy c' where g: "workspaceGuard (te_env E) now (Some u) (drop 4 (rq_path rq)) (rq_ip rq) (tw_db W) c = (Pass policy, c')"
    and m: "metered E now rq u W (s\<lparr>sv_tokens := st, sv_cache := c'\<rparr>) = (Handle u, s')"
    using assms(1) by (auto simp: serve_def am Let_def split: prod.splits guard_out.splits)
  from m have "astOnly (rq_body rq) \<and> (\<exists>e. tw_limits W (js_string (au_tenant u)) = Inr e \<and> \<not> ef_expired e \<or> isPlatformAdmin (Some u))"
    by (auto simp: metered_def licensingMiddleware_def Let_def split: if_splits sum.splits licensing_out.splits option.splits)
  with a g show ?thesis by (metis fst_conv)
qed

text \<open>
  C15: a request with a developer token that reaches the handler of a metered route acts for the workspace of a token that
  was handed out, is unexpired and unrevoked and has the scope of the request; its body names no SQL text; the plan of the workspace
  has not expired; and, by readings a few seconds old, the platform was not in maintenance, the workspace was neither suspended nor
  deleted, and its address rules admit the caller.
\<close>

theorem token_request_served:
  assumes "token_run E now (sv_tokens s) is dead" "cache_read (te_env E) H now (sv_cache s)" "tw_db W = H now"
    and "serve E jwt now rq W s = (Handle u, s')" "presented_token rq = Some k" "k \<noteq> []"
    and "\<not> guard_exempt (drop 4 (rq_path rq))" "au_tenant u = JStr t" "t \<noteq> []"
  shows "(\<exists>q \<in> set is. is_tenant q = t \<and> now < is_until q \<and> is_id q \<notin> dead
       \<and> (\<exists>sc \<in> set (is_scopes q). requiredScope (rq_verb rq) (rq_path rq) (rq_body rq) = Some sc))
     \<and> astOnly (rq_body rq) \<and> (\<exists>e. tw_limits W t = Inr e \<and> \<not> ef_expired e)
     \<and> (\<exists>t1 t2 t3. now < t1 + system_ttl \<and> now < t2 + workspace_ttl \<and> now < t3 + workspace_ttl
         \<and> \<not> truthy (js_get ''maintenanceMode'' (JObj (system_value (te_env E) (H t1))))
         \<and> (\<exists>st. status_of (H t2) t = Some st \<and> st \<noteq> ''SUSPENDED'' \<and> st \<noteq> ''DELETED'')
         \<and> ipAllowed (rq_ip rq) (ips_of (setting_of (workspace_value (H t3) t) ''security'' ''allowedIps'')))"
proof -
  from serve_token [OF assms(4-6)] obtain v st c sc policy where a: "authenticate E now k W (sv_tokens s) (sv_cache s) = (Inr v, st, c)" "u = ap_user v"
    and sc: "requiredScope (rq_verb rq) (rq_path rq) (rq_body rq) = Some sc" "sc \<in> set (ap_scopes v)"
    and g: "fst (workspaceGuard (te_env E) now (Some u) (drop 4 (rq_path rq)) (rq_ip rq) (tw_db W) c) = Pass policy"
    and rest: "astOnly (rq_body rq)" "\<exists>e. tw_limits W (js_string (au_tenant u)) = Inr e \<and> \<not> ef_expired e \<or> isPlatformAdmin (Some u)" by blast
  from token_authentic_core [OF assms(1) a(1)] obtain q where q: "q \<in> set is" "au_tenant u = JStr (is_tenant q)" "ap_scopes v = is_scopes q" "now < is_until q" "is_id q \<notin> dead"
    and admin: "\<not> isPlatformAdmin (Some u)"
    unfolding a(2) by blast
  note cr = authenticate_cache_read [OF assms(2) a(1) assms(3)]
  show ?thesis
  proof (intro conjI)
    show "\<exists>q \<in> set is. is_tenant q = t \<and> now < is_until q \<and> is_id q \<notin> dead \<and> (\<exists>sc \<in> set (is_scopes q). requiredScope (rq_verb rq) (rq_path rq) (rq_body rq) = Some sc)"
      using q sc assms(8) by auto
    show "\<exists>e. tw_limits W t = Inr e \<and> \<not> ef_expired e" using rest(2) admin assms(8) by auto
  qed (use rest(1) guard_pass [OF cr g [unfolded assms(3)] admin assms(7-9)] in blast)+
qed

definition sample_request :: request where
  "sample_request = \<lparr>rq_verb = ''POST'', rq_path = ''/api/queries/engine'', rq_body = JObj [(''config'', JObj [(''type'', JStr ''SELECT'')])],
     rq_ip = Some ''10.1.2.3'', rq_auth = Some (''Bearer '' @ cr_token sample_created), rq_key = None, rq_tenant = None\<rparr>"

definition sample_server :: server_state where
  "sample_server = \<lparr>sv_tokens = sample_state, sv_cache = no_cache, sv_rates = []\<rparr>"

lemma token_request_served_witness:
  "(\<exists>q \<in> set [issue member_user sample_created]. is_tenant q = ''acme'' \<and> 6 < is_until q \<and> is_id q \<notin> {}
       \<and> (\<exists>sc \<in> set (is_scopes q). requiredScope (rq_verb sample_request) (rq_path sample_request) (rq_body sample_request) = Some sc))
     \<and> astOnly (rq_body sample_request) \<and> (\<exists>e. tw_limits acme_world ''acme'' = Inr e \<and> \<not> ef_expired e)
     \<and> (\<exists>t1 t2 t3. 6 < t1 + system_ttl \<and> 6 < t2 + workspace_ttl \<and> 6 < t3 + workspace_ttl
         \<and> \<not> truthy (js_get ''maintenanceMode'' (JObj (system_value (te_env plain_hash) acme_db)))
         \<and> (\<exists>st. status_of acme_db ''acme'' = Some st \<and> st \<noteq> ''SUSPENDED'' \<and> st \<noteq> ''DELETED'')
         \<and> ipAllowed (rq_ip sample_request) (ips_of (setting_of (workspace_value acme_db ''acme'') ''security'' ''allowedIps'')))"
proof -
  let ?r = "serve plain_hash (\<lambda>_. None) 6 sample_request acme_world sample_server"
  have "fst ?r = Handle (ap_user sample_api_user)" by code_simp
  then have h: "?r = (Handle (ap_user sample_api_user), snd ?r)" by (simp add: prod_eq_iff)
  have run: "token_run plain_hash 6 (sv_tokens sample_server) [issue member_user sample_created] {}"
    unfolding sample_server_def using token_run.wait [OF sample_run, of 6] by simp
  have c: "cache_read (te_env plain_hash) (\<lambda>_. acme_db) 6 (sv_cache sample_server)"
    by (simp add: cache_read_def sample_server_def no_cache_def)
  have p: "presented_token sample_request = Some (cr_token sample_created)" "cr_token sample_created \<noteq> []"
    "\<not> guard_exempt (drop 4 (rq_path sample_request))" by code_simp+
  have t: "au_tenant (ap_user sample_api_user) = JStr ''acme''" by (simp add: sample_api_user_def)
  show ?thesis
    by (rule token_request_served [OF run c _ h p t]) (simp_all add: acme_world_def)
qed

end
