(* ===== verification/Spec2Isabelle.thy ===== *)
theory Spec2Isabelle
  imports TenantScope NetGuard SqlGuard Recursive CopyRead CopyJobs FedJoinCorrect FedGovern Federation Planner Windows AsyncJobs SchemaDiff ApiTokens
begin

text \<open>
  A verification library for the backend of the data fabric (\<open>src/backend/src\<close>).

  In progress: \<open>Identifiers\<close> and \<open>TenantScope\<close>.
\<close>

end
